(* ===== verification/Vz_Prelude.thy ===== *)
theory Vz_Prelude
  imports Main "HOL-Library.Word"
begin

text \<open>
  Shared vocabulary of the development.  It fixes the machine types of
  \<^verbatim>\<open>src/src/base/basictypes.h\<close> as words, the two shift-and-cast idioms the
  sources use to move between a machine word and its bytes, and the word and
  list facts that the component theories use.  The collection \<open>byte_merge\<close>
  puts a word back together from its bytes, \<open>byte_split\<close> takes it apart.
\<close>

section \<open>Machine types\<close>

unbundle bit_operations_syntax

type_synonym byte = "8 word"
type_synonym uint8 = "8 word"
type_synonym uint16 = "16 word"
type_synonym uint32 = "32 word"
type_synonym uint64 = "64 word"
type_synonym int32 = "32 word"
type_synonym bytes = "byte list"

named_theorems byte_merge \<open>a word rebuilt from the bytes it was cut into\<close>
named_theorems byte_split \<open>the bytes of a word that was built from bytes\<close>
named_theorems wf_intros \<open>operations keep the invariant of their component\<close>

section \<open>Shifting bytes in and out of words\<close>

text \<open>
  \<open>shr_byte k v\<close> is the C++ expression \<^verbatim>\<open>static_cast<uint8>(v >> k)\<close> and
  \<open>byte_shl k b\<close> is \<^verbatim>\<open>static_cast<uintN>(b) << k\<close>, at the width of the result.
\<close>

definition shr_byte :: "nat \<Rightarrow> 'a::len word \<Rightarrow> byte" where
  "shr_byte k v = ucast (drop_bit k v)"

definition byte_shl :: "nat \<Rightarrow> byte \<Rightarrow> 'a::len word" where
  "byte_shl k b = push_bit k (ucast b)"

lemma bit_byte_bound: "bit (b::byte) i \<Longrightarrow> i < 8"
  using bit_imp_le_length [of b i] by simp

lemma bit_byte_shl:
  "bit (byte_shl k b :: 'a::len word) n \<longleftrightarrow>
     n < LENGTH('a) \<and> k \<le> n \<and> n < k + 8 \<and> bit b (n - k)"
  by (auto simp: byte_shl_def bit_simps dest: bit_byte_bound)

lemma bit_shr_byte:
  "bit (shr_byte k (v :: 'a::len word)) i \<longleftrightarrow> i < 8 \<and> bit v (k + i)"
  by (auto simp: shr_byte_def bit_simps)

lemma byte_shl_shr_0 [byte_merge]: "byte_shl 0 (shr_byte 0 v) = take_bit 8 v"
  by (rule bit_word_eqI) (auto simp: bit_byte_shl bit_shr_byte bit_take_bit_iff)

lemma byte_shl_shr_or [byte_merge]:
  "byte_shl k (shr_byte k v) OR take_bit k v = take_bit (k + 8) (v :: 'a::len word)"
  by (rule bit_word_eqI) (auto simp: bit_byte_shl bit_shr_byte bit_take_bit_iff bit_or_iff)

lemma or_byte_shl_shr [byte_merge]:
  "take_bit k v OR byte_shl k (shr_byte k v) = take_bit (k + 8) (v :: 'a::len word)"
  by (rule bit_word_eqI) (auto simp: bit_byte_shl bit_shr_byte bit_take_bit_iff bit_or_iff)

lemma take_bit_full [byte_merge]:
  "LENGTH('a) \<le> k \<Longrightarrow> take_bit k (v :: 'a::len word) = v"
  by (rule bit_word_eqI) (auto simp: bit_take_bit_iff)

lemma shr_byte_or [byte_split]: "shr_byte k (v OR w) = shr_byte k v OR shr_byte k w"
  by (rule bit_word_eqI) (auto simp: bit_shr_byte bit_or_iff)

lemma shr_byte_shl_same [byte_split]:
  "k + 8 \<le> LENGTH('a) \<Longrightarrow> shr_byte k (byte_shl k b :: 'a::len word) = b"
  by (rule bit_word_eqI) (auto simp: bit_shr_byte bit_byte_shl)

lemma shr_byte_shl_other [byte_split]:
  "k + 8 \<le> j \<or> j + 8 \<le> k \<Longrightarrow> shr_byte k (byte_shl j b :: 'a::len word) = 0"
  by (rule bit_word_eqI) (auto simp: bit_shr_byte bit_byte_shl)

section \<open>Lists as memory\<close>

text \<open>
  \<open>write_at off xs mem\<close> is \<^verbatim>\<open>memcpy(mem + off, xs, |xs|)\<close> inside a block of memory,
  \<open>read_at off n mem\<close> the \<open>n\<close> bytes from \<open>off\<close> on.
\<close>

definition write_at :: "nat \<Rightarrow> 'a list \<Rightarrow> 'a list \<Rightarrow> 'a list" where
  "write_at off xs mem = take off mem @ xs @ drop (off + length xs) mem"

definition read_at :: "nat \<Rightarrow> nat \<Rightarrow> 'a list \<Rightarrow> 'a list" where
  "read_at off n mem = take n (drop off mem)"

lemma length_write_at [simp]:
  "off + length xs \<le> length mem \<Longrightarrow> length (write_at off xs mem) = length mem"
  by (simp add: write_at_def)

lemma length_read_at [simp]:
  "off + n \<le> length mem \<Longrightarrow> length (read_at off n mem) = n"
  by (simp add: read_at_def)

lemma read_at_split:
  "read_at off (m + n) mem = read_at off m mem @ read_at (off + m) n mem"
  by (simp add: read_at_def take_add add.commute)

lemma read_at_write_before:
  "\<lbrakk> off + n \<le> at; at \<le> length mem \<rbrakk> \<Longrightarrow> read_at off n (write_at at xs mem) = read_at off n mem"
  by (auto simp: read_at_def write_at_def drop_take min_def)

lemma read_at_write_same:
  "at \<le> length mem \<Longrightarrow> read_at at (length xs) (write_at at xs mem) = xs"
  by (simp add: read_at_def write_at_def)

section \<open>32-bit arithmetic\<close>

lemma centre_mod32:
  fixes k :: int
  assumes "0 \<le> k" and "k < 2 ^ 32"
  shows "(k + 2 ^ 31) mod 2 ^ 32 - 2 ^ 31 = (if k < 2 ^ 31 then k else k - 2 ^ 32)"
proof (cases "k < 2 ^ 31")
  case False
  have "(k + 2 ^ 31) mod 2 ^ 32 = ((k - 2 ^ 31) + 2 ^ 32) mod 2 ^ 32" by (simp add: add.commute)
  also have "\<dots> = k - 2 ^ 31" using assms False by (subst mod_add_self2) simp
  finally show ?thesis using False by simp
qed (use assms in simp)

lemma unat_less32: "unat (w::uint32) < 2 ^ 32"
  using unsigned_less [of w] by simp

lemma sint32_eq:
  "sint (w::uint32) = (if unat w < 2 ^ 31 then int (unat w) else int (unat w) - 2 ^ 32)"
proof -
  have b: "0 \<le> int (unat w)" "int (unat w) < 2 ^ 32"
    using unat_less32 [of w] by (simp_all del: of_nat_unat)
  have "sint w = (int (unat w) + 2 ^ 31) mod 2 ^ 32 - 2 ^ 31"
    by (simp add: sint_uint signed_take_bit_eq_take_bit_shift take_bit_eq_mod)
  then show ?thesis unfolding centre_mod32 [OF b] by (simp del: of_nat_unat)
qed

lemma unat_sub32:
  "unat (a - b :: uint32) = (if unat b \<le> unat a then unat a - unat b else unat a + 2 ^ 32 - unat b)"
  by (simp add: unat_sub_if_size word_size)

lemma unat_add32:
  "unat (a + b :: uint32) =
     (if unat a + unat b < 2 ^ 32 then unat a + unat b else unat a + unat b - 2 ^ 32)"
  by (simp add: unat_plus_if_size word_size)

section \<open>Bytes, bit by bit\<close>

lemma byte_eqI:
  assumes "bit a 0 = bit b 0" "bit a 1 = bit b 1" "bit a 2 = bit b 2" "bit a 3 = bit b 3"
    "bit a 4 = bit b 4" "bit a 5 = bit b 5" "bit a 6 = bit b 6" "bit a 7 = bit b 7"
  shows "a = (b :: byte)"
proof (rule bit_word_eqI)
  fix n :: nat
  assume "n < LENGTH(8)"
  then consider "n = 0" | "n = 1" | "n = 2" | "n = 3" | "n = 4" | "n = 5" | "n = 6" | "n = 7"
    by fastforce
  then show "bit a n = bit b n" by cases (use assms in simp_all)
qed

section \<open>Strings and bytes\<close>

definition bytes_of_string :: "string \<Rightarrow> bytes" where
  "bytes_of_string s = map of_char s"

definition string_of_bytes :: "bytes \<Rightarrow> string" where
  "string_of_bytes bs = map (\<lambda>b. char_of (unat b)) bs"

lemma unat_of_char: "unat (of_char c :: byte) = of_char c"
proof -
  have "(of_char c :: byte) = of_nat (of_char c)" by (rule of_nat_of_char [symmetric])
  then show ?thesis using nat_of_char_less_256 [of c] by (simp add: unat_of_nat)
qed

lemma char_of_of_char_byte: "char_of (unat (of_char c :: byte)) = c"
  by (simp add: unat_of_char)

lemma string_of_bytes_of_string [simp]: "string_of_bytes (bytes_of_string s) = s"
  by (simp add: string_of_bytes_def bytes_of_string_def comp_def char_of_of_char_byte map_idI)

lemma length_bytes_of_string [simp]: "length (bytes_of_string s) = length s"
  by (simp add: bytes_of_string_def)

text \<open>What a C function sees of a string: the characters before the first NUL.\<close>

definition cstr :: "string \<Rightarrow> string" where
  "cstr s = takeWhile (\<lambda>c. c \<noteq> CHR 0x00) s"

end
