(* ===== verification/Vz_Byteorder.thy ===== *)
theory Vz_Byteorder
  imports Vz_Prelude
begin

text \<open>
  \<^verbatim>\<open>src/src/base/byteorder.h\<close>: reading and writing big- and little-endian numbers in
  memory, and the host/network conversions.  Memory is a list of bytes.  The
  conversions are written, as in the source, through the object representation of a
  machine word, which depends on the byte order of the host; the order is a
  parameter, so every theorem holds on either kind of host.
\<close>

section \<open>Bytes in memory\<close>

definition Set8 :: "bytes \<Rightarrow> nat \<Rightarrow> uint8 \<Rightarrow> bytes" where
  "Set8 memory offset v = memory[offset := v]"

definition Get8 :: "bytes \<Rightarrow> nat \<Rightarrow> uint8" where
  "Get8 memory offset = memory ! offset"

definition SetBE16 :: "bytes \<Rightarrow> uint16 \<Rightarrow> bytes" where
  "SetBE16 memory v = Set8 (Set8 memory 0 (shr_byte 8 v)) 1 (shr_byte 0 v)"

definition SetBE32 :: "bytes \<Rightarrow> uint32 \<Rightarrow> bytes" where
  "SetBE32 memory v =
     Set8 (Set8 (Set8 (Set8 memory 0 (shr_byte 24 v)) 1 (shr_byte 16 v)) 2 (shr_byte 8 v))
       3 (shr_byte 0 v)"

definition SetBE64 :: "bytes \<Rightarrow> uint64 \<Rightarrow> bytes" where
  "SetBE64 memory v =
     Set8 (Set8 (Set8 (Set8 (Set8 (Set8 (Set8 (Set8 memory
       0 (shr_byte 56 v)) 1 (shr_byte 48 v)) 2 (shr_byte 40 v)) 3 (shr_byte 32 v))
       4 (shr_byte 24 v)) 5 (shr_byte 16 v)) 6 (shr_byte 8 v)) 7 (shr_byte 0 v)"

definition GetBE16 :: "bytes \<Rightarrow> uint16" where
  "GetBE16 memory = byte_shl 8 (Get8 memory 0) OR byte_shl 0 (Get8 memory 1)"

definition GetBE32 :: "bytes \<Rightarrow> uint32" where
  "GetBE32 memory =
     byte_shl 24 (Get8 memory 0) OR byte_shl 16 (Get8 memory 1) OR
     byte_shl 8 (Get8 memory 2) OR byte_shl 0 (Get8 memory 3)"

definition GetBE64 :: "bytes \<Rightarrow> uint64" where
  "GetBE64 memory =
     byte_shl 56 (Get8 memory 0) OR byte_shl 48 (Get8 memory 1) OR
     byte_shl 40 (Get8 memory 2) OR byte_shl 32 (Get8 memory 3) OR
     byte_shl 24 (Get8 memory 4) OR byte_shl 16 (Get8 memory 5) OR
     byte_shl 8 (Get8 memory 6) OR byte_shl 0 (Get8 memory 7)"

definition SetLE16 :: "bytes \<Rightarrow> uint16 \<Rightarrow> bytes" where
  "SetLE16 memory v = Set8 (Set8 memory 0 (shr_byte 0 v)) 1 (shr_byte 8 v)"

definition SetLE32 :: "bytes \<Rightarrow> uint32 \<Rightarrow> bytes" where
  "SetLE32 memory v =
     Set8 (Set8 (Set8 (Set8 memory 0 (shr_byte 0 v)) 1 (shr_byte 8 v)) 2 (shr_byte 16 v))
       3 (shr_byte 24 v)"

definition SetLE64 :: "bytes \<Rightarrow> uint64 \<Rightarrow> bytes" where
  "SetLE64 memory v =
     Set8 (Set8 (Set8 (Set8 (Set8 (Set8 (Set8 (Set8 memory
       0 (shr_byte 0 v)) 1 (shr_byte 8 v)) 2 (shr_byte 16 v)) 3 (shr_byte 24 v))
       4 (shr_byte 32 v)) 5 (shr_byte 40 v)) 6 (shr_byte 48 v)) 7 (shr_byte 56 v)"

definition GetLE16 :: "bytes \<Rightarrow> uint16" where
  "GetLE16 memory = byte_shl 0 (Get8 memory 0) OR byte_shl 8 (Get8 memory 1)"

definition GetLE32 :: "bytes \<Rightarrow> uint32" where
  "GetLE32 memory =
     ((byte_shl 0 (Get8 memory 0) OR byte_shl 8 (Get8 memory 1)) OR
     byte_shl 16 (Get8 memory 2)) OR byte_shl 24 (Get8 memory 3)"

definition GetLE64 :: "bytes \<Rightarrow> uint64" where
  "GetLE64 memory =
     ((((((byte_shl 0 (Get8 memory 0) OR byte_shl 8 (Get8 memory 1)) OR
     byte_shl 16 (Get8 memory 2)) OR byte_shl 24 (Get8 memory 3)) OR
     byte_shl 32 (Get8 memory 4)) OR byte_shl 40 (Get8 memory 5)) OR
     byte_shl 48 (Get8 memory 6)) OR byte_shl 56 (Get8 memory 7)"

section \<open>The object representation of a word on the host\<close>

text \<open>
  A big-endian host stores the most significant byte first, a little-endian host the
  least significant one.  \<open>host_mem\<close> is the memory of a variable, \<open>host_val\<close> the value
  read from that memory (what \<^verbatim>\<open>memcpy\<close> into or out of the variable observes).
\<close>

datatype host_order = HostLittle | HostBig

fun host_mem16 :: "host_order \<Rightarrow> uint16 \<Rightarrow> bytes" where
  "host_mem16 HostLittle v = [shr_byte 0 v, shr_byte 8 v]"
| "host_mem16 HostBig v = [shr_byte 8 v, shr_byte 0 v]"

fun host_mem32 :: "host_order \<Rightarrow> uint32 \<Rightarrow> bytes" where
  "host_mem32 HostLittle v = [shr_byte 0 v, shr_byte 8 v, shr_byte 16 v, shr_byte 24 v]"
| "host_mem32 HostBig v = [shr_byte 24 v, shr_byte 16 v, shr_byte 8 v, shr_byte 0 v]"

fun host_mem64 :: "host_order \<Rightarrow> uint64 \<Rightarrow> bytes" where
  "host_mem64 HostLittle v =
     [shr_byte 0 v, shr_byte 8 v, shr_byte 16 v, shr_byte 24 v,
      shr_byte 32 v, shr_byte 40 v, shr_byte 48 v, shr_byte 56 v]"
| "host_mem64 HostBig v =
     [shr_byte 56 v, shr_byte 48 v, shr_byte 40 v, shr_byte 32 v,
      shr_byte 24 v, shr_byte 16 v, shr_byte 8 v, shr_byte 0 v]"

fun host_val16 :: "host_order \<Rightarrow> bytes \<Rightarrow> uint16" where
  "host_val16 HostLittle m = byte_shl 0 (m ! 0) OR byte_shl 8 (m ! 1)"
| "host_val16 HostBig m = byte_shl 8 (m ! 0) OR byte_shl 0 (m ! 1)"

fun host_val32 :: "host_order \<Rightarrow> bytes \<Rightarrow> uint32" where
  "host_val32 HostLittle m =
     ((byte_shl 0 (m ! 0) OR byte_shl 8 (m ! 1)) OR byte_shl 16 (m ! 2)) OR byte_shl 24 (m ! 3)"
| "host_val32 HostBig m =
     byte_shl 24 (m ! 0) OR byte_shl 16 (m ! 1) OR byte_shl 8 (m ! 2) OR byte_shl 0 (m ! 3)"

fun host_val64 :: "host_order \<Rightarrow> bytes \<Rightarrow> uint64" where
  "host_val64 HostLittle m =
     ((((((byte_shl 0 (m ! 0) OR byte_shl 8 (m ! 1)) OR byte_shl 16 (m ! 2)) OR
     byte_shl 24 (m ! 3)) OR byte_shl 32 (m ! 4)) OR byte_shl 40 (m ! 5)) OR
     byte_shl 48 (m ! 6)) OR byte_shl 56 (m ! 7)"
| "host_val64 HostBig m =
     byte_shl 56 (m ! 0) OR byte_shl 48 (m ! 1) OR byte_shl 40 (m ! 2) OR byte_shl 32 (m ! 3) OR
     byte_shl 24 (m ! 4) OR byte_shl 16 (m ! 5) OR byte_shl 8 (m ! 6) OR byte_shl 0 (m ! 7)"

section \<open>Host and network order\<close>

definition IsHostBigEndian :: "host_order \<Rightarrow> bool" where
  "IsHostBigEndian h \<longleftrightarrow> 0 = host_mem32 h 1 ! 0"

text \<open>The variable \<^verbatim>\<open>result\<close> is uninitialised in the source; every byte of it is written.\<close>

definition HostToNetwork16 :: "host_order \<Rightarrow> uint16 \<Rightarrow> uint16" where
  "HostToNetwork16 h n = host_val16 h (SetBE16 (replicate 2 0) n)"

definition HostToNetwork32 :: "host_order \<Rightarrow> uint32 \<Rightarrow> uint32" where
  "HostToNetwork32 h n = host_val32 h (SetBE32 (replicate 4 0) n)"

definition HostToNetwork64 :: "host_order \<Rightarrow> uint64 \<Rightarrow> uint64" where
  "HostToNetwork64 h n = host_val64 h (SetBE64 (replicate 8 0) n)"

definition NetworkToHost16 :: "host_order \<Rightarrow> uint16 \<Rightarrow> uint16" where
  "NetworkToHost16 h n = GetBE16 (host_mem16 h n)"

definition NetworkToHost32 :: "host_order \<Rightarrow> uint32 \<Rightarrow> uint32" where
  "NetworkToHost32 h n = GetBE32 (host_mem32 h n)"

definition NetworkToHost64 :: "host_order \<Rightarrow> uint64 \<Rightarrow> uint64" where
  "NetworkToHost64 h n = GetBE64 (host_mem64 h n)"

section \<open>Wire bytes\<close>

text \<open>The bytes of a word in network order: the abstract content of the wire format.\<close>

definition be16 :: "uint16 \<Rightarrow> bytes" where
  "be16 v = [shr_byte 8 v, shr_byte 0 v]"

definition be24 :: "uint32 \<Rightarrow> bytes" where
  "be24 v = [shr_byte 16 v, shr_byte 8 v, shr_byte 0 v]"

definition be32 :: "uint32 \<Rightarrow> bytes" where
  "be32 v = [shr_byte 24 v, shr_byte 16 v, shr_byte 8 v, shr_byte 0 v]"

definition be64 :: "uint64 \<Rightarrow> bytes" where
  "be64 v = [shr_byte 56 v, shr_byte 48 v, shr_byte 40 v, shr_byte 32 v,
             shr_byte 24 v, shr_byte 16 v, shr_byte 8 v, shr_byte 0 v]"

lemmas be_defs = be16_def be24_def be32_def be64_def

lemma length_be [simp]:
  "length (be16 v) = 2" "length (be24 w) = 3" "length (be32 w) = 4" "length (be64 x) = 8"
  by (simp_all add: be_defs)

lemmas mem_defs = Set8_def Get8_def SetBE16_def SetBE32_def SetBE64_def
  GetBE16_def GetBE32_def GetBE64_def SetLE16_def SetLE32_def SetLE64_def
  GetLE16_def GetLE32_def GetLE64_def

lemma host_val_mem [simp]:
  "host_val16 h (host_mem16 h v) = v"
  "host_val32 h (host_mem32 h w) = w"
  "host_val64 h (host_mem64 h x) = x"
  by (cases h; simp add: byte_merge)+

lemma host_mem_val16: "length m = 2 \<Longrightarrow> host_mem16 h (host_val16 h m) = m"
  by (cases h) (auto simp: byte_split numeral_2_eq_2 length_Suc_conv)

lemma host_mem_val32: "length m = 4 \<Longrightarrow> host_mem32 h (host_val32 h m) = m"
  by (cases h) (auto simp: byte_split eval_nat_numeral length_Suc_conv)

lemma host_mem_val64: "length m = 8 \<Longrightarrow> host_mem64 h (host_val64 h m) = m"
  by (cases h) (auto simp: byte_split eval_nat_numeral length_Suc_conv)

lemma IsHostBigEndian_iff [simp]: "IsHostBigEndian h \<longleftrightarrow> h = HostBig"
  by (cases h) (simp_all add: IsHostBigEndian_def shr_byte_def)

section \<open>What the accessors do to memory\<close>

lemma SetBE16_eq: "2 \<le> length m \<Longrightarrow> SetBE16 m v = be16 v @ drop 2 m"
  by (auto simp: mem_defs be_defs eval_nat_numeral Suc_le_length_iff)

lemma SetBE32_eq: "4 \<le> length m \<Longrightarrow> SetBE32 m v = be32 v @ drop 4 m"
  by (auto simp: mem_defs be_defs eval_nat_numeral Suc_le_length_iff)

lemma SetBE64_eq: "8 \<le> length m \<Longrightarrow> SetBE64 m v = be64 v @ drop 8 m"
  by (auto simp: mem_defs be_defs eval_nat_numeral Suc_le_length_iff)

lemma SetLE16_eq: "2 \<le> length m \<Longrightarrow> SetLE16 m v = rev (be16 v) @ drop 2 m"
  by (auto simp: mem_defs be_defs eval_nat_numeral Suc_le_length_iff)

lemma SetLE32_eq: "4 \<le> length m \<Longrightarrow> SetLE32 m v = rev (be32 v) @ drop 4 m"
  by (auto simp: mem_defs be_defs eval_nat_numeral Suc_le_length_iff)

lemma SetLE64_eq: "8 \<le> length m \<Longrightarrow> SetLE64 m v = rev (be64 v) @ drop 8 m"
  by (auto simp: mem_defs be_defs eval_nat_numeral Suc_le_length_iff)

lemmas Set_eqs = SetBE16_eq SetBE32_eq SetBE64_eq SetLE16_eq SetLE32_eq SetLE64_eq

lemma Get_be [simp]:
  "GetBE16 (be16 v @ m) = v" "GetBE32 (be32 w @ m) = w" "GetBE64 (be64 x @ m) = x"
  by (simp_all add: mem_defs be_defs byte_merge)

lemma Get_le [simp]:
  "GetLE16 (rev (be16 v) @ m) = v" "GetLE32 (rev (be32 w) @ m) = w"
  "GetLE64 (rev (be64 x) @ m) = x"
  by (simp_all add: mem_defs be_defs byte_merge)

lemma Get_be_only [simp]: "GetBE16 (be16 v) = v" "GetBE32 (be32 w) = w" "GetBE64 (be64 x) = x"
  using Get_be(1) [of v "[]"] Get_be(2) [of w "[]"] Get_be(3) [of x "[]"] by simp_all

lemma be32_GetBE32: "length m = 4 \<Longrightarrow> be32 (GetBE32 m) = m"
  by (auto simp: mem_defs be_defs byte_split eval_nat_numeral length_Suc_conv)

lemma host_mem_HostToNetwork [simp]:
  "host_mem16 h (HostToNetwork16 h v) = be16 v"
  "host_mem32 h (HostToNetwork32 h w) = be32 w"
  "host_mem64 h (HostToNetwork64 h x) = be64 x"
  by (simp_all add: HostToNetwork16_def HostToNetwork32_def HostToNetwork64_def Set_eqs
      host_mem_val16 host_mem_val32 host_mem_val64)

section \<open>Properties\<close>

text \<open>
  Storing a 16-, 32- or 64-bit number in either byte order writes
  exactly the first 2, 4 or 8 bytes of the memory, leaves the rest alone, and the
  matching getter reads the same number back.
\<close>

theorem byteorder_roundtrip:
  assumes "2 \<le> length m2" and "4 \<le> length m4" and "8 \<le> length m8"
  shows "GetBE16 (SetBE16 m2 v) = v \<and> GetLE16 (SetLE16 m2 v) = v \<and>
         GetBE32 (SetBE32 m4 w) = w \<and> GetLE32 (SetLE32 m4 w) = w \<and>
         GetBE64 (SetBE64 m8 x) = x \<and> GetLE64 (SetLE64 m8 x) = x \<and>
         drop 2 (SetBE16 m2 v) = drop 2 m2 \<and> drop 2 (SetLE16 m2 v) = drop 2 m2 \<and>
         drop 4 (SetBE32 m4 w) = drop 4 m4 \<and> drop 4 (SetLE32 m4 w) = drop 4 m4 \<and>
         drop 8 (SetBE64 m8 x) = drop 8 m8 \<and> drop 8 (SetLE64 m8 x) = drop 8 m8"
  using assms by (simp add: Set_eqs)

theorem byteorder_roundtrip_witness:
  "GetBE32 (SetBE32 [1, 2, 3, 4, 5] 0x01020304) = 0x01020304 \<and>
   drop 4 (SetBE32 [1, 2, 3, 4, 5] 0x01020304) = [5]"
  using byteorder_roundtrip [of "[0, 0]" "[1, 2, 3, 4, 5]" "replicate 8 0" 0 "0x01020304" 0]
  by simp

text \<open>
  The host/network conversions do not depend on the host: on a
  little- and on a big-endian machine the memory of a converted word holds its bytes
  most significant first, and converting back gives the word.
\<close>

theorem network_order_host_independent:
  "host_mem16 h (HostToNetwork16 h v) = be16 v \<and>
   host_mem32 h (HostToNetwork32 h w) = be32 w \<and>
   host_mem64 h (HostToNetwork64 h x) = be64 x \<and>
   NetworkToHost16 h (HostToNetwork16 h v) = v \<and>
   NetworkToHost32 h (HostToNetwork32 h w) = w \<and>
   NetworkToHost64 h (HostToNetwork64 h x) = x"
  by (simp add: NetworkToHost16_def NetworkToHost32_def NetworkToHost64_def)

end
