(* ===== verification/Vz_Bytebuffer.thy ===== *)
theory Vz_Bytebuffer
  imports Vz_Byteorder
begin

text \<open>
  \<^verbatim>\<open>src/src/base/bytebuffer.{h,cpp}\<close>: the growable byte buffer that holds the received
  and the outgoing bytes of a session.  The concrete state keeps the allocated block,
  its size and the two offsets, as the class does; \<open>buf_data\<close> is the abstract content.
  The locale \<open>byte_queue\<close> states what clients rely on (a first-in first-out queue of
  bytes), \<open>typed_queue\<close> adds a fixed-width codec; both are interpreted on this model.
  Sizes are natural numbers: an allocation of \<open>2 ^ 64\<close> bytes does not succeed.
\<close>

section \<open>State and constructors\<close>

datatype ByteOrder = ORDER_NETWORK | ORDER_HOST

record byte_buffer =
  bb_bytes :: bytes
  bb_size :: nat
  bb_start :: nat
  bb_end :: nat
  bb_version :: int32
  bb_order :: ByteOrder

definition DEFAULT_SIZE :: nat where
  "DEFAULT_SIZE = 4096"

text \<open>
  A fresh allocation has unspecified content in C++; no operation exposes a byte that
  was not written, so the filler below never shows in \<open>buf_data\<close>.
\<close>

definition new_char :: "nat \<Rightarrow> bytes" where
  "new_char n = replicate n 0"

text \<open>\<open>None\<close> stands for a null \<^verbatim>\<open>bytes\<close> pointer.\<close>

definition ByteBuffer_Construct :: "bytes option \<Rightarrow> nat \<Rightarrow> ByteOrder \<Rightarrow> byte_buffer" where
  "ByteBuffer_Construct bytes len byte_order =
     (let block = new_char len in
      case bytes of
        Some bs \<Rightarrow> \<lparr>bb_bytes = write_at 0 (take len bs) block, bb_size = len, bb_start = 0, bb_end = len,
                    bb_version = 0, bb_order = byte_order\<rparr>
      | None \<Rightarrow> \<lparr>bb_bytes = block, bb_size = len, bb_start = 0, bb_end = 0,
                 bb_version = 0, bb_order = byte_order\<rparr>)"

definition ByteBuffer_default :: byte_buffer where
  "ByteBuffer_default = ByteBuffer_Construct None DEFAULT_SIZE ORDER_NETWORK"

definition ByteBuffer_order :: "ByteOrder \<Rightarrow> byte_buffer" where
  "ByteBuffer_order byte_order = ByteBuffer_Construct None DEFAULT_SIZE byte_order"

definition ByteBuffer_bytes :: "bytes \<Rightarrow> nat \<Rightarrow> byte_buffer" where
  "ByteBuffer_bytes bytes len = ByteBuffer_Construct (Some bytes) len ORDER_NETWORK"

definition ByteBuffer_bytes_order :: "bytes \<Rightarrow> nat \<Rightarrow> ByteOrder \<Rightarrow> byte_buffer" where
  "ByteBuffer_bytes_order bytes len byte_order = ByteBuffer_Construct (Some bytes) len byte_order"

definition strlen :: "bytes \<Rightarrow> nat" where
  "strlen bs = length (takeWhile (\<lambda>c. c \<noteq> 0) bs)"

definition ByteBuffer_cstr :: "bytes \<Rightarrow> byte_buffer" where
  "ByteBuffer_cstr bytes = ByteBuffer_Construct (Some bytes) (strlen bytes) ORDER_NETWORK"

section \<open>Observers\<close>

definition Length :: "byte_buffer \<Rightarrow> nat" where
  "Length b = bb_end b - bb_start b"

definition Capacity :: "byte_buffer \<Rightarrow> nat" where
  "Capacity b = bb_size b - bb_start b"

text \<open>The \<open>Length\<close> bytes behind the pointer \<^verbatim>\<open>Data()\<close>.\<close>

definition buf_data :: "byte_buffer \<Rightarrow> bytes" where
  "buf_data b = read_at (bb_start b) (Length b) (bb_bytes b)"

definition ByteBuffer_ok :: "byte_buffer \<Rightarrow> bool" where
  "ByteBuffer_ok b \<longleftrightarrow> bb_start b \<le> bb_end b \<and> bb_end b \<le> bb_size b \<and> length (bb_bytes b) = bb_size b"

section \<open>Writing\<close>

definition Resize :: "byte_buffer \<Rightarrow> nat \<Rightarrow> byte_buffer" where
  "Resize b sz =
     (let len = min (bb_end b - bb_start b) sz;
          moved = read_at (bb_start b) len (bb_bytes b) in
      if sz \<le> bb_size b
      then b\<lparr>bb_bytes := write_at 0 moved (bb_bytes b),
             bb_start := 0, bb_end := len, bb_version := bb_version b + 1\<rparr>
      else let new_size = max sz (3 * bb_size b div 2) in
           b\<lparr>bb_bytes := write_at 0 moved (new_char new_size), bb_size := new_size,
             bb_start := 0, bb_end := len, bb_version := bb_version b + 1\<rparr>)"

text \<open>The returned number is the offset of the reserved area inside the block.\<close>

definition ReserveWriteBuffer :: "byte_buffer \<Rightarrow> nat \<Rightarrow> nat \<times> byte_buffer" where
  "ReserveWriteBuffer b len =
     (let b' = (if Length b + len > Capacity b then Resize b (Length b + len) else b)
      in (bb_end b', b'\<lparr>bb_end := bb_end b' + len\<rparr>))"

definition WriteBytes :: "byte_buffer \<Rightarrow> bytes \<Rightarrow> byte_buffer" where
  "WriteBytes b val =
     (case ReserveWriteBuffer b (length val) of
        (off, b') \<Rightarrow> b'\<lparr>bb_bytes := write_at off val (bb_bytes b')\<rparr>)"

definition WriteUInt8 :: "byte_buffer \<Rightarrow> uint8 \<Rightarrow> byte_buffer" where
  "WriteUInt8 b val = WriteBytes b [val]"

definition WriteUInt16 :: "host_order \<Rightarrow> byte_buffer \<Rightarrow> uint16 \<Rightarrow> byte_buffer" where
  "WriteUInt16 h b val =
     (let v = (if bb_order b = ORDER_NETWORK then HostToNetwork16 h val else val)
      in WriteBytes b (host_mem16 h v))"

definition WriteUInt24 :: "host_order \<Rightarrow> byte_buffer \<Rightarrow> uint32 \<Rightarrow> byte_buffer" where
  "WriteUInt24 h b val =
     (let v = (if bb_order b = ORDER_NETWORK then HostToNetwork32 h val else val);
          off = (if bb_order b = ORDER_NETWORK \<or> IsHostBigEndian h then 1 else 0)
      in WriteBytes b (read_at off 3 (host_mem32 h v)))"

definition WriteUInt32 :: "host_order \<Rightarrow> byte_buffer \<Rightarrow> uint32 \<Rightarrow> byte_buffer" where
  "WriteUInt32 h b val =
     (let v = (if bb_order b = ORDER_NETWORK then HostToNetwork32 h val else val)
      in WriteBytes b (host_mem32 h v))"

definition WriteUInt64 :: "host_order \<Rightarrow> byte_buffer \<Rightarrow> uint64 \<Rightarrow> byte_buffer" where
  "WriteUInt64 h b val =
     (let v = (if bb_order b = ORDER_NETWORK then HostToNetwork64 h val else val)
      in WriteBytes b (host_mem64 h v))"

definition WriteString :: "byte_buffer \<Rightarrow> bytes \<Rightarrow> byte_buffer" where
  "WriteString b val = WriteBytes b val"

section \<open>Reading\<close>

text \<open>
  A read that fails (\<open>None\<close>, the \<^verbatim>\<open>false\<close> of the source) leaves the buffer alone.  The
  typed reads take the pointer argument as an option, \<open>None\<close> for a null pointer, and
  return the success flag, the pointee and the buffer.
\<close>

definition ReadBytes :: "byte_buffer \<Rightarrow> nat \<Rightarrow> bytes option \<times> byte_buffer" where
  "ReadBytes b len =
     (if len > Length b then (None, b)
      else (Some (read_at (bb_start b) len (bb_bytes b)), b\<lparr>bb_start := bb_start b + len\<rparr>))"

definition ReadUInt8 :: "byte_buffer \<Rightarrow> uint8 option \<Rightarrow> bool \<times> uint8 option \<times> byte_buffer" where
  "ReadUInt8 b val =
     (case val of None \<Rightarrow> (False, None, b)
      | Some old \<Rightarrow> (case ReadBytes b 1 of
            (None, b') \<Rightarrow> (False, Some old, b')
          | (Some v, b') \<Rightarrow> (True, Some (v ! 0), b')))"

definition ReadUInt16 ::
  "host_order \<Rightarrow> byte_buffer \<Rightarrow> uint16 option \<Rightarrow> bool \<times> uint16 option \<times> byte_buffer" where
  "ReadUInt16 h b val =
     (case val of None \<Rightarrow> (False, None, b)
      | Some old \<Rightarrow> (case ReadBytes b 2 of
            (None, b') \<Rightarrow> (False, Some old, b')
          | (Some m, b') \<Rightarrow>
              (let v = host_val16 h m in
               (True, Some (if bb_order b = ORDER_NETWORK then NetworkToHost16 h v else v), b'))))"

definition ReadUInt24 ::
  "host_order \<Rightarrow> byte_buffer \<Rightarrow> uint32 option \<Rightarrow> bool \<times> uint32 option \<times> byte_buffer" where
  "ReadUInt24 h b val =
     (case val of None \<Rightarrow> (False, None, b)
      | Some old \<Rightarrow>
          (let v0 = host_mem32 h 0;
               read_into = (if bb_order b = ORDER_NETWORK \<or> IsHostBigEndian h then 1 else 0) in
           case ReadBytes b 3 of
             (None, b') \<Rightarrow> (False, Some old, b')
           | (Some m, b') \<Rightarrow>
               (let v = host_val32 h (write_at read_into m v0) in
                (True, Some (if bb_order b = ORDER_NETWORK then NetworkToHost32 h v else v), b'))))"

definition ReadUInt32 ::
  "host_order \<Rightarrow> byte_buffer \<Rightarrow> uint32 option \<Rightarrow> bool \<times> uint32 option \<times> byte_buffer" where
  "ReadUInt32 h b val =
     (case val of None \<Rightarrow> (False, None, b)
      | Some old \<Rightarrow> (case ReadBytes b 4 of
            (None, b') \<Rightarrow> (False, Some old, b')
          | (Some m, b') \<Rightarrow>
              (let v = host_val32 h m in
               (True, Some (if bb_order b = ORDER_NETWORK then NetworkToHost32 h v else v), b'))))"

definition ReadUInt64 ::
  "host_order \<Rightarrow> byte_buffer \<Rightarrow> uint64 option \<Rightarrow> bool \<times> uint64 option \<times> byte_buffer" where
  "ReadUInt64 h b val =
     (case val of None \<Rightarrow> (False, None, b)
      | Some old \<Rightarrow> (case ReadBytes b 8 of
            (None, b') \<Rightarrow> (False, Some old, b')
          | (Some m, b') \<Rightarrow>
              (let v = host_val64 h m in
               (True, Some (if bb_order b = ORDER_NETWORK then NetworkToHost64 h v else v), b'))))"

text \<open>\<^verbatim>\<open>ReadString\<close> appends to the string it is given.\<close>

definition ReadString :: "byte_buffer \<Rightarrow> bytes option \<Rightarrow> nat \<Rightarrow> bool \<times> bytes option \<times> byte_buffer" where
  "ReadString b val len =
     (case val of None \<Rightarrow> (False, None, b)
      | Some s \<Rightarrow>
          (if len > Length b then (False, Some s, b)
           else (True, Some (s @ read_at (bb_start b) len (bb_bytes b)),
                 b\<lparr>bb_start := bb_start b + len\<rparr>)))"

definition Consume :: "byte_buffer \<Rightarrow> nat \<Rightarrow> bool \<times> byte_buffer" where
  "Consume b sz =
     (if sz > Length b then (False, b) else (True, b\<lparr>bb_start := bb_start b + sz\<rparr>))"

record ReadPosition =
  rp_start :: nat
  rp_version :: int32

definition GetReadPosition :: "byte_buffer \<Rightarrow> ReadPosition" where
  "GetReadPosition b = \<lparr>rp_start = bb_start b, rp_version = bb_version b\<rparr>"

definition SetReadPosition :: "byte_buffer \<Rightarrow> ReadPosition \<Rightarrow> bool \<times> byte_buffer" where
  "SetReadPosition b position =
     (if rp_version position \<noteq> bb_version b then (False, b)
      else (True, b\<lparr>bb_start := rp_start position\<rparr>))"

definition Clear :: "byte_buffer \<Rightarrow> byte_buffer" where
  "Clear b = b\<lparr>bb_bytes := replicate (bb_size b) 0, bb_start := 0, bb_end := 0,
               bb_version := bb_version b + 1\<rparr>"

section \<open>The interface: a queue of bytes\<close>

text \<open>
  What a client of the buffer relies on: writing appends at the back, reading and
  skipping take from the front, and both refuse to go past the end.
\<close>

locale byte_queue =
  fixes inv :: "'q \<Rightarrow> bool"
    and content :: "'q \<Rightarrow> bytes"
    and put :: "'q \<Rightarrow> bytes \<Rightarrow> 'q"
    and get :: "'q \<Rightarrow> nat \<Rightarrow> bytes option \<times> 'q"
    and skip :: "'q \<Rightarrow> nat \<Rightarrow> bool \<times> 'q"
  assumes inv_put: "inv q \<Longrightarrow> inv (put q xs)"
    and content_put: "inv q \<Longrightarrow> content (put q xs) = content q @ xs"
    and inv_get: "inv q \<Longrightarrow> inv (snd (get q n))"
    and get_ok: "\<lbrakk> inv q; n \<le> length (content q) \<rbrakk> \<Longrightarrow>
      fst (get q n) = Some (take n (content q)) \<and> content (snd (get q n)) = drop n (content q)"
    and get_short: "\<lbrakk> inv q; length (content q) < n \<rbrakk> \<Longrightarrow> get q n = (None, q)"
    and inv_skip: "inv q \<Longrightarrow> inv (snd (skip q n))"
    and skip_ok: "\<lbrakk> inv q; n \<le> length (content q) \<rbrakk> \<Longrightarrow>
      fst (skip q n) \<and> content (snd (skip q n)) = drop n (content q)"
    and skip_short: "\<lbrakk> inv q; length (content q) < n \<rbrakk> \<Longrightarrow> skip q n = (False, q)"
begin

lemma put_puts: "inv q \<Longrightarrow> inv (fold (\<lambda>xs q. put q xs) xss q) \<and>
  content (fold (\<lambda>xs q. put q xs) xss q) = content q @ concat xss"
  by (induction xss arbitrary: q) (auto simp: inv_put content_put)

lemma get_after_put:
  assumes "inv q" and "content q = xs @ ys"
  shows "fst (get (put q zs) (length xs)) = Some xs \<and>
         content (snd (get (put q zs) (length xs))) = ys @ zs"
  using get_ok [of "put q zs" "length xs"] assms by (simp add: inv_put content_put)

lemma get_cases:
  assumes "inv q"
  obtains (short) "length (content q) < n" "get q n = (None, q)"
    | (full) xs q' where "get q n = (Some xs, q')" "content q = xs @ content q'"
        "length xs = n" "inv q'"
proof (cases "length (content q) < n")
  case True
  then show ?thesis using assms get_short short by blast
next
  case False
  with get_ok [OF assms, of n] inv_get [OF assms, of n]
  have "get q n = (Some (take n (content q)), snd (get q n))"
    "content q = take n (content q) @ content (snd (get q n))" "inv (snd (get q n))"
    by (simp_all add: prod_eq_iff)
  then show ?thesis using False by (intro full) auto
qed

end

text \<open>A fixed-width codec on top of the queue: the typed reads and writes.\<close>

locale typed_queue = byte_queue +
  fixes enc :: "'v \<Rightarrow> bytes" and dec :: "bytes \<Rightarrow> 'v"
    and valid :: "'v \<Rightarrow> bool" and width :: nat
  assumes enc_len: "length (enc v) = width"
    and dec_enc: "valid v \<Longrightarrow> dec (enc v) = v"
begin

lemma read_typed:
  assumes "inv q" and "content q = enc v @ rest" and "valid v"
  shows "\<exists>bs q'. get q width = (Some bs, q') \<and> dec bs = v \<and> content q' = rest \<and> inv q'"
  using get_ok [of q width] inv_get [of q width] assms enc_len [of v] dec_enc [of v]
  by (intro exI [of _ "enc v"] exI [of _ "snd (get q width)"]) (simp add: prod_eq_iff)

end

section \<open>The buffer is such a queue\<close>

lemma length_new_char [simp]: "length (new_char n) = n"
  by (simp add: new_char_def)

lemma length_buf_data [simp]: "ByteBuffer_ok b \<Longrightarrow> length (buf_data b) = Length b"
  by (simp add: buf_data_def ByteBuffer_ok_def Length_def)

lemma ByteBuffer_ok_Construct:
  "bytes = None \<or> (\<exists>bs. bytes = Some bs \<and> len \<le> length bs) \<Longrightarrow>
   ByteBuffer_ok (ByteBuffer_Construct bytes len order)"
  by (auto simp: ByteBuffer_ok_def ByteBuffer_Construct_def Let_def split: option.splits)

lemma buf_data_Construct:
  "buf_data (ByteBuffer_Construct None len order) = []"
  "len \<le> length bs \<Longrightarrow> buf_data (ByteBuffer_Construct (Some bs) len order) = take len bs"
  by (auto simp: ByteBuffer_Construct_def buf_data_def Length_def read_at_def write_at_def Let_def)

lemma ByteBuffer_default_ok [wf_intros]:
  "ByteBuffer_ok ByteBuffer_default" "buf_data ByteBuffer_default = []"
  by (simp_all add: ByteBuffer_default_def ByteBuffer_ok_Construct buf_data_Construct)

lemma ByteBuffer_ok_Resize [wf_intros]: "ByteBuffer_ok b \<Longrightarrow> ByteBuffer_ok (Resize b n)"
  by (auto simp: ByteBuffer_ok_def Resize_def Let_def)

lemma buf_data_Resize: "ByteBuffer_ok b \<Longrightarrow> buf_data (Resize b n) = take n (buf_data b)"
  by (auto simp: ByteBuffer_ok_def Resize_def Let_def buf_data_def Length_def read_at_def
      write_at_def min_def)

lemma Resize_room:
  "ByteBuffer_ok b \<Longrightarrow> Length b \<le> n \<Longrightarrow> Length (Resize b n) = Length b \<and> n \<le> Capacity (Resize b n)"
  by (auto simp: ByteBuffer_ok_def Resize_def Let_def Length_def Capacity_def)

lemma room_for: "ByteBuffer_ok b \<Longrightarrow> Length b + n \<le> Capacity b \<Longrightarrow> bb_end b + n \<le> bb_size b"
  unfolding ByteBuffer_ok_def Length_def Capacity_def by linarith

text \<open>The buffer after the growth step of a write: room for the new bytes, same content.\<close>

lemma Reserve_room:
  assumes "ByteBuffer_ok b"
  obtains b' where "ReserveWriteBuffer b n = (bb_end b', b'\<lparr>bb_end := bb_end b' + n\<rparr>)"
    "ByteBuffer_ok b'" "buf_data b' = buf_data b" "bb_end b' + n \<le> bb_size b'"
proof -
  let ?b = "if Length b + n > Capacity b then Resize b (Length b + n) else b"
  have "ByteBuffer_ok ?b" using assms by (simp add: ByteBuffer_ok_Resize)
  moreover have "buf_data ?b = buf_data b"
    using assms by (simp add: buf_data_Resize)
  moreover have "Length ?b + n \<le> Capacity ?b"
    using Resize_room [OF assms le_add1, of n] by auto
  then have "bb_end ?b + n \<le> bb_size ?b"
    using calculation(1) by (rule room_for [rotated])
  ultimately show ?thesis using that by (simp add: ReserveWriteBuffer_def Let_def)
qed

lemma WriteBytes_ok:
  assumes "ByteBuffer_ok b"
  shows "ByteBuffer_ok (WriteBytes b xs)" and "buf_data (WriteBytes b xs) = buf_data b @ xs"
proof -
  obtain b' where r: "ReserveWriteBuffer b (length xs) = (bb_end b', b'\<lparr>bb_end := bb_end b' + length xs\<rparr>)"
    and ok: "ByteBuffer_ok b'" "buf_data b' = buf_data b" and room: "bb_end b' + length xs \<le> bb_size b'"
    using Reserve_room [OF assms, of "length xs"] by blast
  have len: "Length b' + length xs = bb_end b' + length xs - bb_start b'"
    and at: "bb_start b' + Length b' = bb_end b'" and mem: "bb_end b' \<le> length (bb_bytes b')"
    using ok by (auto simp: ByteBuffer_ok_def Length_def)
  show "ByteBuffer_ok (WriteBytes b xs)"
    using ok room by (auto simp: WriteBytes_def r ByteBuffer_ok_def)
  have "buf_data (WriteBytes b xs) =
      read_at (bb_start b') (Length b' + length xs) (write_at (bb_end b') xs (bb_bytes b'))"
    using len by (simp add: WriteBytes_def r buf_data_def Length_def)
  also have "\<dots> = buf_data b' @ xs"
    using at mem by (simp add: read_at_split read_at_write_before read_at_write_same buf_data_def)
  finally show "buf_data (WriteBytes b xs) = buf_data b @ xs" using ok by simp
qed

lemma buf_data_advance:
  assumes "ByteBuffer_ok b" and "n \<le> Length b"
  shows "ByteBuffer_ok (b\<lparr>bb_start := bb_start b + n\<rparr>)"
    and "buf_data (b\<lparr>bb_start := bb_start b + n\<rparr>) = drop n (buf_data b)"
    and "read_at (bb_start b) n (bb_bytes b) = take n (buf_data b)"
  using assms by (auto simp: ByteBuffer_ok_def Length_def buf_data_def read_at_def drop_take add.commute)

interpretation bb: byte_queue ByteBuffer_ok buf_data WriteBytes ReadBytes Consume
proof (unfold_locales, goal_cases)
  case (4 b n)
  then show ?case using buf_data_advance by (simp add: ReadBytes_def not_less [symmetric])
qed (auto simp: WriteBytes_ok ReadBytes_def Consume_def buf_data_advance)

lemmas bb_laws = bb.inv_put bb.content_put bb.inv_skip bb.inv_get

section \<open>The typed operations as codecs\<close>

text \<open>The bytes a typed write appends, and the value a typed read makes of them.\<close>

definition enc16 :: "host_order \<Rightarrow> ByteOrder \<Rightarrow> uint16 \<Rightarrow> bytes" where
  "enc16 h order v = host_mem16 h (if order = ORDER_NETWORK then HostToNetwork16 h v else v)"

definition enc24 :: "host_order \<Rightarrow> ByteOrder \<Rightarrow> uint32 \<Rightarrow> bytes" where
  "enc24 h order v =
     read_at (if order = ORDER_NETWORK \<or> IsHostBigEndian h then 1 else 0) 3
       (host_mem32 h (if order = ORDER_NETWORK then HostToNetwork32 h v else v))"

definition enc32 :: "host_order \<Rightarrow> ByteOrder \<Rightarrow> uint32 \<Rightarrow> bytes" where
  "enc32 h order v = host_mem32 h (if order = ORDER_NETWORK then HostToNetwork32 h v else v)"

definition enc64 :: "host_order \<Rightarrow> ByteOrder \<Rightarrow> uint64 \<Rightarrow> bytes" where
  "enc64 h order v = host_mem64 h (if order = ORDER_NETWORK then HostToNetwork64 h v else v)"

definition dec16 :: "host_order \<Rightarrow> ByteOrder \<Rightarrow> bytes \<Rightarrow> uint16" where
  "dec16 h order m =
     (let v = host_val16 h m in if order = ORDER_NETWORK then NetworkToHost16 h v else v)"

definition dec24 :: "host_order \<Rightarrow> ByteOrder \<Rightarrow> bytes \<Rightarrow> uint32" where
  "dec24 h order m =
     (let v = host_val32 h
            (write_at (if order = ORDER_NETWORK \<or> IsHostBigEndian h then 1 else 0) m (host_mem32 h 0))
      in if order = ORDER_NETWORK then NetworkToHost32 h v else v)"

definition dec32 :: "host_order \<Rightarrow> ByteOrder \<Rightarrow> bytes \<Rightarrow> uint32" where
  "dec32 h order m =
     (let v = host_val32 h m in if order = ORDER_NETWORK then NetworkToHost32 h v else v)"

definition dec64 :: "host_order \<Rightarrow> ByteOrder \<Rightarrow> bytes \<Rightarrow> uint64" where
  "dec64 h order m =
     (let v = host_val64 h m in if order = ORDER_NETWORK then NetworkToHost64 h v else v)"

lemmas codec_defs = enc16_def enc24_def enc32_def enc64_def dec16_def dec24_def dec32_def dec64_def
  NetworkToHost16_def NetworkToHost32_def NetworkToHost64_def

lemma enc_network [simp]:
  "enc16 h ORDER_NETWORK v = be16 v" "enc24 h ORDER_NETWORK w = be24 w"
  "enc32 h ORDER_NETWORK w = be32 w" "enc64 h ORDER_NETWORK x = be64 x"
  by (simp_all add: codec_defs be_defs read_at_def)

lemma length_enc [simp]:
  "length (enc16 h order v) = 2" "length (enc24 h order w) = 3"
  "length (enc32 h order w) = 4" "length (enc64 h order x) = 8"
  by (cases h; cases order; simp add: codec_defs read_at_def)+

lemma shr_byte_0 [simp]: "shr_byte k 0 = 0"
  by (simp add: shr_byte_def)

lemma byte_shl_0 [simp]: "byte_shl k 0 = 0"
  by (simp add: byte_shl_def)

lemma take_bit_24: "unat (v::uint32) < 2 ^ 24 \<Longrightarrow> take_bit 24 v = v"
  by (metis take_bit_nat_eq_self_iff unsigned_take_bit_eq word_unat_eq_iff)

lemma dec_enc24:
  assumes "unat v < 2 ^ 24" shows "dec24 h order (enc24 h order v) = v"
proof -
  have le: "(byte_shl 0 (shr_byte 0 v) OR byte_shl 8 (shr_byte 8 v)) OR byte_shl 16 (shr_byte 16 v) = v"
    and be: "byte_shl 16 (shr_byte 16 v) OR byte_shl 8 (shr_byte 8 v) OR byte_shl 0 (shr_byte 0 v) = v"
    using take_bit_24 [OF assms] by (simp_all add: byte_merge)
  show ?thesis
  proof (cases order)
    case ORDER_NETWORK
    have "host_mem32 h 0 = replicate 4 0" by (cases h) (simp_all add: numeral_eq_Suc)
    then have "write_at 1 (be24 v) (host_mem32 h 0) = 0 # be24 v"
      by (simp add: write_at_def be_defs)
    moreover have "host_mem32 h (host_val32 h (0 # be24 v)) = 0 # be24 v"
      by (rule host_mem_val32) simp
    ultimately show ?thesis
      using ORDER_NETWORK be by (simp add: dec24_def NetworkToHost32_def GetBE32_def Get8_def be24_def)
  next
    case ORDER_HOST
    then show ?thesis using le be
      by (cases h) (simp_all add: codec_defs read_at_def write_at_def)
  qed
qed

interpretation u8: typed_queue ByteBuffer_ok buf_data WriteBytes ReadBytes Consume
  "\<lambda>v. [v]" "\<lambda>m. m ! 0" "\<lambda>_. True" 1
  by unfold_locales simp_all

interpretation u16: typed_queue ByteBuffer_ok buf_data WriteBytes ReadBytes Consume
  "enc16 h order" "dec16 h order" "\<lambda>_. True" 2 for h order
  by unfold_locales (simp, simp add: dec16_def enc16_def NetworkToHost16_def)

interpretation u24: typed_queue ByteBuffer_ok buf_data WriteBytes ReadBytes Consume
  "enc24 h order" "dec24 h order" "\<lambda>v. unat v < 2 ^ 24" 3 for h order
  by unfold_locales (simp_all add: dec_enc24)

interpretation u32: typed_queue ByteBuffer_ok buf_data WriteBytes ReadBytes Consume
  "enc32 h order" "dec32 h order" "\<lambda>_. True" 4 for h order
  by unfold_locales (simp, simp add: dec32_def enc32_def NetworkToHost32_def)

interpretation u64: typed_queue ByteBuffer_ok buf_data WriteBytes ReadBytes Consume
  "enc64 h order" "dec64 h order" "\<lambda>_. True" 8 for h order
  by unfold_locales (simp, simp add: dec64_def enc64_def NetworkToHost64_def)

lemma Write_enc:
  "WriteUInt16 h b v = WriteBytes b (enc16 h (bb_order b) v)"
  "WriteUInt24 h b w = WriteBytes b (enc24 h (bb_order b) w)"
  "WriteUInt32 h b w = WriteBytes b (enc32 h (bb_order b) w)"
  "WriteUInt64 h b x = WriteBytes b (enc64 h (bb_order b) x)"
  by (simp_all add: WriteUInt16_def WriteUInt24_def WriteUInt32_def WriteUInt64_def codec_defs Let_def)

lemma bb_order_WriteBytes [simp]: "bb_order (WriteBytes b xs) = bb_order b"
  by (simp add: WriteBytes_def ReserveWriteBuffer_def Resize_def Let_def)

lemma bb_order_ReadBytes [simp]: "bb_order (snd (ReadBytes b n)) = bb_order b"
  by (simp add: ReadBytes_def)

section \<open>Runs of operations\<close>

text \<open>
  A client drives the buffer by a sequence of calls.  \<open>buf_run\<close> executes it on the
  model and collects what each call returned; \<open>spec_run\<close> executes it on a plain list of
  bytes.
\<close>

datatype buf_op = OpWrite bytes | OpRead nat | OpConsume nat | OpResize nat | OpClear

datatype buf_result = Done | Got "bytes option" | Skipped bool

fun buf_step :: "byte_buffer \<Rightarrow> buf_op \<Rightarrow> buf_result \<times> byte_buffer" where
  "buf_step b (OpWrite xs) = (Done, WriteBytes b xs)"
| "buf_step b (OpRead n) = (case ReadBytes b n of (r, b') \<Rightarrow> (Got r, b'))"
| "buf_step b (OpConsume n) = (case Consume b n of (r, b') \<Rightarrow> (Skipped r, b'))"
| "buf_step b (OpResize n) = (Done, Resize b n)"
| "buf_step b OpClear = (Done, Clear b)"

fun spec_step :: "bytes \<Rightarrow> buf_op \<Rightarrow> buf_result \<times> bytes" where
  "spec_step d (OpWrite xs) = (Done, d @ xs)"
| "spec_step d (OpRead n) =
     (if n \<le> length d then (Got (Some (take n d)), drop n d) else (Got None, d))"
| "spec_step d (OpConsume n) =
     (if n \<le> length d then (Skipped True, drop n d) else (Skipped False, d))"
| "spec_step d (OpResize n) = (Done, take n d)"
| "spec_step d OpClear = (Done, [])"

fun buf_run :: "byte_buffer \<Rightarrow> buf_op list \<Rightarrow> buf_result list \<times> byte_buffer" where
  "buf_run b [] = ([], b)"
| "buf_run b (x # xs) =
     (case buf_step b x of (r, b') \<Rightarrow> case buf_run b' xs of (rs, b'') \<Rightarrow> (r # rs, b''))"

fun spec_run :: "bytes \<Rightarrow> buf_op list \<Rightarrow> buf_result list \<times> bytes" where
  "spec_run d [] = ([], d)"
| "spec_run d (x # xs) =
     (case spec_step d x of (r, d') \<Rightarrow> case spec_run d' xs of (rs, d'') \<Rightarrow> (r # rs, d''))"

lemma Clear_ok: "ByteBuffer_ok (Clear b)" "buf_data (Clear b) = []"
  by (simp_all add: Clear_def ByteBuffer_ok_def buf_data_def Length_def read_at_def)

lemma buf_step_refines:
  assumes ok: "ByteBuffer_ok b" and step: "buf_step b x = (r, b')"
  shows "spec_step (buf_data b) x = (r, buf_data b') \<and> ByteBuffer_ok b'"
proof (cases x)
  case (OpRead n)
  from ok show ?thesis
    by (cases rule: bb.get_cases [of b n]) (use OpRead ok step in auto)
next
  case (OpConsume n)
  then show ?thesis
    using step ok bb.skip_ok [OF ok, of n] bb.skip_short [OF ok, of n] bb.inv_skip [OF ok, of n]
    by (cases "n \<le> length (buf_data b)") (auto split: prod.splits)
qed (use ok step in \<open>auto simp: bb_laws buf_data_Resize ByteBuffer_ok_Resize Clear_ok\<close>)

lemma buf_run_refines:
  "\<lbrakk> ByteBuffer_ok b; buf_run b xs = (rs, b') \<rbrakk> \<Longrightarrow>
   spec_run (buf_data b) xs = (rs, buf_data b') \<and> ByteBuffer_ok b'"
proof (induction xs arbitrary: b rs b')
  case (Cons x xs)
  obtain r c where step: "buf_step b x = (r, c)" by fastforce
  obtain ss d where run: "buf_run c xs = (ss, d)" by fastforce
  from buf_step_refines [OF Cons.prems(1) step] Cons.IH [OF _ run] Cons.prems(2) step run
  show ?case by auto
qed simp

text \<open>
  C18 (refinement).  From construction on, every sequence of writes, reads, consumes,
  resizes and clears returns exactly what the same sequence returns on a plain list of
  bytes and leaves the same content: growing, compacting and the stale bytes of the
  block never show.
\<close>

theorem bytebuffer_refines_byte_queue:
  assumes "buf_run ByteBuffer_default ops = (results, b)"
  shows "spec_run [] ops = (results, buf_data b) \<and> ByteBuffer_ok b"
  using buf_run_refines [OF ByteBuffer_default_ok(1) assms] ByteBuffer_default_ok by simp

theorem bytebuffer_refines_byte_queue_witness:
  "fst (buf_run ByteBuffer_default [OpWrite [1, 2, 3], OpRead 2, OpRead 2]) =
     [Done, Got (Some [1, 2]), Got None] \<and>
   buf_data (snd (buf_run ByteBuffer_default [OpWrite [1, 2, 3], OpRead 2, OpRead 2])) = [3]"
  using bytebuffer_refines_byte_queue
    [of "[OpWrite [1, 2, 3], OpRead 2, OpRead 2]", OF surjective_pairing]
  by simp

section \<open>Typed reads and writes\<close>

lemma ReadBytes_order: "ReadBytes b n = (r, b') \<Longrightarrow> bb_order b' = bb_order b"
  by (auto simp: ReadBytes_def split: if_splits)

lemma ReadUInt8_ok:
  assumes "ByteBuffer_ok b" and "buf_data b = [v] @ rest"
  shows "\<exists>b'. ReadUInt8 b (Some old) = (True, Some v, b') \<and> ByteBuffer_ok b' \<and> buf_data b' = rest \<and>
    bb_order b' = bb_order b"
  using u8.read_typed [OF assms] ReadBytes_order by (auto simp: ReadUInt8_def)

lemma ReadUInt16_ok:
  assumes "ByteBuffer_ok b" and "buf_data b = enc16 h (bb_order b) v @ rest"
  shows "\<exists>b'. ReadUInt16 h b (Some old) = (True, Some v, b') \<and> ByteBuffer_ok b' \<and> buf_data b' = rest \<and>
    bb_order b' = bb_order b"
  using u16.read_typed [OF assms] ReadBytes_order by (fastforce simp: ReadUInt16_def dec16_def Let_def)

lemma ReadUInt24_ok:
  assumes "ByteBuffer_ok b" and "buf_data b = enc24 h (bb_order b) v @ rest" and "unat v < 2 ^ 24"
  shows "\<exists>b'. ReadUInt24 h b (Some old) = (True, Some v, b') \<and> ByteBuffer_ok b' \<and> buf_data b' = rest \<and>
    bb_order b' = bb_order b"
  using u24.read_typed [OF assms] ReadBytes_order by (fastforce simp: ReadUInt24_def dec24_def Let_def)

lemma ReadUInt32_ok:
  assumes "ByteBuffer_ok b" and "buf_data b = enc32 h (bb_order b) v @ rest"
  shows "\<exists>b'. ReadUInt32 h b (Some old) = (True, Some v, b') \<and> ByteBuffer_ok b' \<and> buf_data b' = rest \<and>
    bb_order b' = bb_order b"
  using u32.read_typed [OF assms] ReadBytes_order by (fastforce simp: ReadUInt32_def dec32_def Let_def)

lemma ReadUInt64_ok:
  assumes "ByteBuffer_ok b" and "buf_data b = enc64 h (bb_order b) v @ rest"
  shows "\<exists>b'. ReadUInt64 h b (Some old) = (True, Some v, b') \<and> ByteBuffer_ok b' \<and> buf_data b' = rest \<and>
    bb_order b' = bb_order b"
  using u64.read_typed [OF assms] ReadBytes_order by (fastforce simp: ReadUInt64_def dec64_def Let_def)

text \<open>
  C38 (roundtrip).  On a host of either byte order, in either buffer order, an 8-, 16-,
  24-, 32- and 64-bit number written one after the other to an empty buffer are read
  back unchanged, in order, by the matching reads, and the buffer is empty again (the
  24-bit write keeps only the low 24 bits, so its value has to fit).
\<close>

theorem bytebuffer_typed_roundtrip:
  assumes "ByteBuffer_ok b" and "buf_data b = []" and "unat v24 < 2 ^ 24"
    and w: "w = WriteUInt64 h (WriteUInt32 h (WriteUInt24 h (WriteUInt16 h
                 (WriteUInt8 b v8) v16) v24) v32) v64"
  shows "\<exists>b1 b2 b3 b4 b5.
     ReadUInt8 w (Some o8) = (True, Some v8, b1) \<and>
     ReadUInt16 h b1 (Some o16) = (True, Some v16, b2) \<and>
     ReadUInt24 h b2 (Some o24) = (True, Some v24, b3) \<and>
     ReadUInt32 h b3 (Some o32) = (True, Some v32, b4) \<and>
     ReadUInt64 h b4 (Some o64) = (True, Some v64, b5) \<and> buf_data b5 = []"
proof -
  let ?o = "bb_order b"
  have "ByteBuffer_ok w" "bb_order w = ?o"
    "buf_data w = [v8] @ (enc16 h ?o v16 @ enc24 h ?o v24 @ enc32 h ?o v32 @ enc64 h ?o v64)"
    using assms by (simp_all add: w Write_enc WriteUInt8_def bb_laws)
  then obtain b1 where b1: "ReadUInt8 w (Some o8) = (True, Some v8, b1)" "ByteBuffer_ok b1"
    "bb_order b1 = ?o" "buf_data b1 = enc16 h ?o v16 @ enc24 h ?o v24 @ enc32 h ?o v32 @ enc64 h ?o v64"
    using ReadUInt8_ok [of w v8] by metis
  then obtain b2 where b2: "ReadUInt16 h b1 (Some o16) = (True, Some v16, b2)" "ByteBuffer_ok b2"
    "bb_order b2 = ?o" "buf_data b2 = enc24 h ?o v24 @ enc32 h ?o v32 @ enc64 h ?o v64"
    using ReadUInt16_ok [of b1 h v16] by metis
  then obtain b3 where b3: "ReadUInt24 h b2 (Some o24) = (True, Some v24, b3)" "ByteBuffer_ok b3"
    "bb_order b3 = ?o" "buf_data b3 = enc32 h ?o v32 @ enc64 h ?o v64"
    using ReadUInt24_ok [of b2 h v24] assms(3) by metis
  then obtain b4 where b4: "ReadUInt32 h b3 (Some o32) = (True, Some v32, b4)" "ByteBuffer_ok b4"
    "bb_order b4 = ?o" "buf_data b4 = enc64 h ?o v64 @ []"
    using ReadUInt32_ok [of b3 h v32] by (metis append_Nil2)
  then obtain b5 where "ReadUInt64 h b4 (Some o64) = (True, Some v64, b5)" "buf_data b5 = []"
    using ReadUInt64_ok [of b4 h v64] by metis
  with b1 b2 b3 b4 show ?thesis by blast
qed

theorem bytebuffer_typed_roundtrip_witness:
  "\<exists>b1 b2 b3 b4 b5.
     ReadUInt8 (WriteUInt64 HostLittle (WriteUInt32 HostLittle (WriteUInt24 HostLittle
       (WriteUInt16 HostLittle (WriteUInt8 ByteBuffer_default 1) 2) 3) 4) 5) (Some 0) =
       (True, Some 1, b1) \<and>
     ReadUInt16 HostLittle b1 (Some 0) = (True, Some 2, b2) \<and>
     ReadUInt24 HostLittle b2 (Some 0) = (True, Some 3, b3) \<and>
     ReadUInt32 HostLittle b3 (Some 0) = (True, Some 4, b4) \<and>
     ReadUInt64 HostLittle b4 (Some 0) = (True, Some 5, b5) \<and> buf_data b5 = []"
  by (rule bytebuffer_typed_roundtrip [of ByteBuffer_default]) (simp_all add: ByteBuffer_default_ok)

section \<open>Remembered read positions\<close>

fun op_written :: "buf_op \<Rightarrow> bytes" where
  "op_written (OpWrite xs) = xs"
| "op_written _ = []"

text \<open>
  \<open>since p b\<close> is the content counted from the remembered offset \<open>p\<close>.  An operation either
  bumps the version or keeps every byte from \<open>p\<close> on and appends what it writes.
\<close>

definition since :: "nat \<Rightarrow> byte_buffer \<Rightarrow> bytes" where
  "since p b = read_at p (bb_end b - p) (bb_bytes b)"

lemma WriteBytes_since:
  assumes ok: "ByteBuffer_ok b" and p: "p \<le> bb_start b"
  shows "bb_version (WriteBytes b xs) = bb_version b + 1 \<or>
    (bb_version (WriteBytes b xs) = bb_version b \<and> p \<le> bb_start (WriteBytes b xs) \<and>
     since p (WriteBytes b xs) = since p b @ xs)"
proof (cases "Length b + length xs > Capacity b")
  case True
  then show ?thesis
    by (simp add: WriteBytes_def ReserveWriteBuffer_def Resize_def Let_def)
next
  case False
  then have w: "WriteBytes b xs =
      b\<lparr>bb_end := bb_end b + length xs, bb_bytes := write_at (bb_end b) xs (bb_bytes b)\<rparr>"
    by (simp add: WriteBytes_def ReserveWriteBuffer_def Let_def)
  have at: "p \<le> bb_end b" "p + (bb_end b - p) = bb_end b" "bb_end b \<le> length (bb_bytes b)"
    using ok p by (auto simp: ByteBuffer_ok_def)
  then have "since p (WriteBytes b xs) =
      read_at p ((bb_end b - p) + length xs) (write_at (bb_end b) xs (bb_bytes b))"
    by (simp add: since_def w)
  also have "\<dots> = since p b @ xs"
    unfolding read_at_split at(2) since_def
    using at by (simp add: read_at_write_before read_at_write_same)
  finally have "since p (WriteBytes b xs) = since p b @ xs" .
  then show ?thesis using p by (simp add: w)
qed

lemma buf_step_since:
  assumes "ByteBuffer_ok b" and "p \<le> bb_start b" and "buf_step b x = (r, b')"
  shows "bb_version b' = bb_version b + 1 \<or>
    (bb_version b' = bb_version b \<and> p \<le> bb_start b' \<and> since p b' = since p b @ op_written x)"
proof (cases x)
  case (OpWrite xs)
  then show ?thesis using WriteBytes_since [OF assms(1,2), of xs] assms(3) by auto
qed (use assms in \<open>auto simp: ReadBytes_def Consume_def Resize_def Clear_def Let_def since_def
       split: if_splits\<close>)

lemma buf_run_since:
  "\<lbrakk> ByteBuffer_ok b; p \<le> bb_start b; buf_run b xs = (rs, b') \<rbrakk> \<Longrightarrow>
   \<exists>k \<le> length xs. bb_version b' = bb_version b + of_nat k \<and>
     (k = 0 \<longrightarrow> p \<le> bb_start b' \<and> since p b' = since p b @ concat (map op_written xs))"
proof (induction xs arbitrary: b rs b' p)
  case (Cons x xs)
  obtain r c where step: "buf_step b x = (r, c)" by fastforce
  obtain ss d where run: "buf_run c xs = (ss, d)" by fastforce
  have ok: "ByteBuffer_ok c" using buf_step_refines [OF Cons.prems(1) step] by simp
  have d: "b' = d" using Cons.prems(3) step run by simp
  from buf_step_since [OF Cons.prems(1,2) step] show ?case
  proof (elim disjE conjE)
    assume bump: "bb_version c = bb_version b + 1"
    obtain k where "k \<le> length xs" "bb_version d = bb_version c + of_nat k"
      using Cons.IH [OF ok le0 run] by auto
    then show ?thesis using d bump by (intro exI [of _ "Suc k"]) auto
  next
    assume same: "bb_version c = bb_version b" "p \<le> bb_start c" "since p c = since p b @ op_written x"
    obtain k where "k \<le> length xs" "bb_version d = bb_version c + of_nat k"
      "k = 0 \<longrightarrow> p \<le> bb_start d \<and> since p d = since p c @ concat (map op_written xs)"
      using Cons.IH [OF ok same(2) run] by blast
    then show ?thesis using d same by (intro exI [of _ k]) auto
  qed
qed simp

lemma of_nat_word_0: "k < 2 ^ LENGTH('a) \<Longrightarrow> of_nat k = (0 :: 'a::len word) \<Longrightarrow> k = 0"
  by (metis of_nat_inverse unsigned_0)

text \<open>
  A remembered read position that \<^verbatim>\<open>SetReadPosition\<close> accepts after fewer
  than \<open>2 ^ 32\<close> further calls restores exactly the bytes that were unread when it was
  taken, followed by everything written since: the version check rejects a position
  whose bytes a resize or a clear has moved.
\<close>

theorem read_position_restores:
  assumes "ByteBuffer_ok b" and "buf_run b ops = (results, b')" and "length ops < 2 ^ 32"
    and set: "SetReadPosition b' (GetReadPosition b) = (True, b'')"
  shows "buf_data b'' = buf_data b @ concat (map op_written ops) \<and> ByteBuffer_ok b''"
proof -
  from set have v: "bb_version b' = bb_version b" and b'': "b'' = b'\<lparr>bb_start := bb_start b\<rparr>"
    by (auto simp: SetReadPosition_def GetReadPosition_def split: if_splits)
  obtain k where k: "k \<le> length ops" "bb_version b' = bb_version b + of_nat k"
    "k = 0 \<longrightarrow> bb_start b \<le> bb_start b' \<and>
       since (bb_start b) b' = since (bb_start b) b @ concat (map op_written ops)"
    using buf_run_since [OF assms(1) order_refl assms(2)] by blast
  with v assms(3) have "k = 0" using of_nat_word_0 [of k, where 'a = 32] by simp
  moreover have "ByteBuffer_ok b'" using buf_run_refines [OF assms(1,2)] by simp
  ultimately show ?thesis
    using k(3) by (auto simp: b'' since_def buf_data_def Length_def ByteBuffer_ok_def)
qed

theorem read_position_restores_witness:
  "buf_data (snd (SetReadPosition (snd (buf_run ByteBuffer_default [OpConsume 0]))
     (GetReadPosition ByteBuffer_default))) = []"
proof -
  have run: "buf_run ByteBuffer_default [OpConsume 0] = ([Skipped True], ByteBuffer_default)"
    by (simp add: Consume_def)
  have "SetReadPosition ByteBuffer_default (GetReadPosition ByteBuffer_default) =
      (True, ByteBuffer_default)"
    by (simp add: SetReadPosition_def GetReadPosition_def)
  from read_position_restores [OF ByteBuffer_default_ok(1) run _ this] show ?thesis
    by (simp add: Consume_def SetReadPosition_def GetReadPosition_def ByteBuffer_default_ok)
qed

end
