(* ===== verification/Vz_Timeutils.thy ===== *)
theory Vz_Timeutils
  imports Vz_Prelude
begin

text \<open>
  \<^verbatim>\<open>src/src/base/timeutils.{h,cpp}\<close>: 32-bit millisecond time stamps that wrap around
  every 49.7 days and the comparisons on them.  A reading of the system clock is an
  argument.  The source holds two bodies for the comparisons, selected by
  \<^verbatim>\<open>EFFICIENT_IMPLEMENTATION\<close>; the compiled ones carry the plain name, the alternatives
  the suffix \<open>_ref\<close>.
\<close>

section \<open>Reading the clock\<close>

definition HALF :: uint32 where
  "HALF = 0x80000000"

definition LAST :: uint32 where
  "LAST = 0xFFFFFFFF"

definition kNumNanosecsPerSec :: uint64 where
  "kNumNanosecsPerSec = 1000000000"

definition kNumNanosecsPerMillisec :: uint64 where
  "kNumNanosecsPerMillisec = 1000000"

text \<open>The POSIX branch: \<^verbatim>\<open>tv_sec\<close> and \<^verbatim>\<open>tv_nsec\<close> are what \<^verbatim>\<open>clock_gettime\<close> stored.\<close>

definition TimeNanos :: "uint64 \<Rightarrow> uint64 \<Rightarrow> uint64" where
  "TimeNanos tv_sec tv_nsec = kNumNanosecsPerSec * tv_sec + tv_nsec"

definition Time :: "uint64 \<Rightarrow> uint64 \<Rightarrow> uint32" where
  "Time tv_sec tv_nsec = ucast (TimeNanos tv_sec tv_nsec div kNumNanosecsPerMillisec)"

section \<open>Comparing time stamps\<close>

text \<open>\<open>now\<close> is the result of the call to \<open>Time\<close>.\<close>

definition TimeAfter :: "uint32 \<Rightarrow> int32 \<Rightarrow> uint32" where
  "TimeAfter now elapsed = now + elapsed"

definition TimeIsBetween :: "uint32 \<Rightarrow> uint32 \<Rightarrow> uint32 \<Rightarrow> bool" where
  "TimeIsBetween earlier middle later =
     (if earlier \<le> later then earlier \<le> middle \<and> middle \<le> later
      else \<not> (later < middle \<and> middle < earlier))"

definition TimeIsLaterOrEqual :: "uint32 \<Rightarrow> uint32 \<Rightarrow> bool" where
  "TimeIsLaterOrEqual earlier later =
     (let diff = later - earlier in 0 \<le> sint diff \<and> diff < HALF)"

definition TimeIsLater :: "uint32 \<Rightarrow> uint32 \<Rightarrow> bool" where
  "TimeIsLater earlier later =
     (let diff = later - earlier in 0 < sint diff \<and> diff < HALF)"

definition TimeDiff :: "uint32 \<Rightarrow> uint32 \<Rightarrow> int" where
  "TimeDiff later earlier = sint (later - earlier)"

definition TimeIsLaterOrEqual_ref :: "uint32 \<Rightarrow> uint32 \<Rightarrow> bool" where
  "TimeIsLaterOrEqual_ref earlier later = TimeIsBetween earlier later (earlier + HALF)"

definition TimeIsLater_ref :: "uint32 \<Rightarrow> uint32 \<Rightarrow> bool" where
  "TimeIsLater_ref earlier later = (\<not> TimeIsBetween later earlier (later + HALF))"

definition TimeDiff_ref :: "uint32 \<Rightarrow> uint32 \<Rightarrow> int" where
  "TimeDiff_ref later earlier =
     (let later_or_equal = TimeIsBetween earlier later (earlier + HALF) in
      if later_or_equal then
        (if earlier \<le> later then sint (later - earlier) else sint (later + (LAST - earlier) + 1))
      else
        (if later \<le> earlier then - sint (earlier - later) else - sint (earlier + (LAST - later) + 1)))"

definition TimeMax :: "uint32 \<Rightarrow> uint32 \<Rightarrow> uint32" where
  "TimeMax ts1 ts2 = (if TimeIsLaterOrEqual ts1 ts2 then ts2 else ts1)"

definition TimeMin :: "uint32 \<Rightarrow> uint32 \<Rightarrow> uint32" where
  "TimeMin ts1 ts2 = (if TimeIsLaterOrEqual ts1 ts2 then ts1 else ts2)"

definition TimeSince :: "uint32 \<Rightarrow> uint32 \<Rightarrow> int" where
  "TimeSince now earlier = TimeDiff now earlier"

definition TimeUntil :: "uint32 \<Rightarrow> uint32 \<Rightarrow> int" where
  "TimeUntil now later = TimeDiff later now"

section \<open>Facts about wrap-around\<close>

lemma unat_HALF [simp]: "unat HALF = 2 ^ 31"
  by (simp add: HALF_def)

lemma TimeIsBetween_iff:
  "TimeIsBetween e m l \<longleftrightarrow> unat (m - e) \<le> unat (l - e)"
  using unat_less32 [of e] unat_less32 [of m] unat_less32 [of l]
  by (auto simp: TimeIsBetween_def unat_sub32 word_le_nat_alt word_less_nat_alt)

lemma TimeIsLaterOrEqual_iff: "TimeIsLaterOrEqual e l \<longleftrightarrow> unat (l - e) < 2 ^ 31"
  by (simp add: TimeIsLaterOrEqual_def Let_def sint32_eq word_less_nat_alt)

lemma TimeIsLater_iff: "TimeIsLater e l \<longleftrightarrow> l \<noteq> e \<and> unat (l - e) < 2 ^ 31"
  by (auto simp: TimeIsLater_def Let_def sint32_eq word_less_nat_alt unat_gt_0 simp del: of_nat_unat)

lemma unat_diff_swap: "l \<noteq> e \<Longrightarrow> unat (e - l :: uint32) = 2 ^ 32 - unat (l - e)"
  using unat_less32 [of e] unat_less32 [of l]
  by (auto simp: unat_sub32 word_unat_eq_iff)

lemma sint_minus32: "unat (w::uint32) \<noteq> 2 ^ 31 \<Longrightarrow> sint (- w) = - sint w"
  using unat_less32 [of w] unat_sub32 [of 0 w]
  by (auto simp: sint32_eq unat_eq_0 simp del: of_nat_unat split: if_splits)

lemma TimeDiff_ref_eq: "TimeDiff_ref l e = TimeDiff l e"
proof -
  have last: "LAST = - 1" by (simp add: LAST_def)
  have "\<not> TimeIsBetween e l (e + HALF) \<Longrightarrow> - sint (e - l) = sint (l - e)"
    using sint_minus32 [of "l - e"] by (simp add: TimeIsBetween_iff)
  then show ?thesis by (auto simp: TimeDiff_ref_def TimeDiff_def last Let_def)
qed

lemma sint_word_of_int32: "\<bar>k\<bar> < 2 ^ 31 \<Longrightarrow> sint (word_of_int k :: uint32) = k"
  by (simp add: sint_sbintrunc' signed_take_bit_int_eq_self)

text \<open>Stamps of the true times \<open>s\<close> and \<open>t\<close> (in milliseconds, unbounded) less than half a
  period apart: their wrapped difference is the true one.\<close>

lemma sint_diff_of_nat:
  assumes "\<bar>int t - int s\<bar> < 2 ^ 31"
  shows "sint (of_nat t - of_nat s :: uint32) = int t - int s"
  using sint_word_of_int32 [OF assms] by simp

lemma sint_nonneg_HALF: "0 \<le> sint (w::uint32) \<Longrightarrow> w < HALF"
  using unat_less32 [of w]
  by (auto simp: sint32_eq word_less_nat_alt simp del: of_nat_unat split: if_splits)

section \<open>Properties\<close>

text \<open>
  As long as two moments are less than \<open>2 ^ 31\<close> milliseconds apart, the
  32-bit comparisons decide their true order and \<open>TimeDiff\<close> is their true signed
  distance, also when the counter has wrapped around between them.
\<close>

theorem time_comparisons_across_wrap:
  assumes "\<bar>int t - int s\<bar> < 2 ^ 31"
  shows "TimeDiff (of_nat t) (of_nat s) = int t - int s \<and>
         (TimeIsLaterOrEqual (of_nat s) (of_nat t) \<longleftrightarrow> s \<le> t) \<and>
         (TimeIsLater (of_nat s) (of_nat t) \<longleftrightarrow> s < t) \<and>
         TimeMax (of_nat s) (of_nat t) = of_nat (max s t) \<and>
         TimeMin (of_nat s) (of_nat t) = of_nat (min s t)"
  using sint_diff_of_nat [OF assms] sint_nonneg_HALF [of "of_nat t - of_nat s"]
  by (auto simp: TimeDiff_def TimeIsLaterOrEqual_def TimeIsLater_def TimeMax_def TimeMin_def Let_def)

theorem time_comparisons_across_wrap_witness:
  "TimeDiff (of_nat (2 ^ 32 + 5)) (of_nat (2 ^ 32 - 10)) = 15 \<and>
   TimeIsLater (of_nat (2 ^ 32 - 10)) (of_nat (2 ^ 32 + 5))"
  using time_comparisons_across_wrap [of "2 ^ 32 + 5" "2 ^ 32 - 10"] by simp

text \<open>
  The compiled comparisons agree with the alternative bodies in the
  source: \<open>TimeDiff\<close> and \<open>TimeIsLater\<close> everywhere, \<open>TimeIsLaterOrEqual\<close> except for two
  stamps exactly half a period apart, where the compiled body answers no and the
  alternative yes.
\<close>

theorem efficient_time_equivalence:
  "TimeDiff later earlier = TimeDiff_ref later earlier \<and>
   (TimeIsLater earlier later \<longleftrightarrow> TimeIsLater_ref earlier later) \<and>
   (TimeIsLaterOrEqual earlier later \<longleftrightarrow>
      TimeIsLaterOrEqual_ref earlier later \<and> later - earlier \<noteq> HALF)"
proof (intro conjI)
  show "TimeIsLater earlier later \<longleftrightarrow> TimeIsLater_ref earlier later"
  proof (cases "later = earlier")
    case False
    then show ?thesis using unat_diff_swap [OF False] unat_less32 [of "later - earlier"]
      by (auto simp: TimeIsLater_iff TimeIsLater_ref_def TimeIsBetween_iff)
  qed (simp add: TimeIsLater_iff TimeIsLater_ref_def TimeIsBetween_iff)
  show "TimeIsLaterOrEqual earlier later \<longleftrightarrow>
      TimeIsLaterOrEqual_ref earlier later \<and> later - earlier \<noteq> HALF"
    by (auto simp: TimeIsLaterOrEqual_iff TimeIsLaterOrEqual_ref_def TimeIsBetween_iff word_unat_eq_iff)
qed (simp add: TimeDiff_ref_eq)

end
