(* ===== verification/Vz_Ipaddress.thy ===== *)
theory Vz_Ipaddress
  imports Vz_Byteorder
begin

unbundle bit_operations_syntax

text \<open>
  \<^verbatim>\<open>src/src/base/ipaddress.{h,cpp}\<close>: the version-agnostic IP address.  The union of
  \<^verbatim>\<open>in_addr\<close> and \<^verbatim>\<open>in6_addr\<close> is its sixteen bytes of memory; the address family is an
  enumeration.  \<^verbatim>\<open>inet_pton\<close> and \<^verbatim>\<open>inet_ntop\<close> belong to the operating system: they are
  arguments of the functions that call them.
\<close>

section \<open>Addresses\<close>

datatype address_family = AF_UNSPEC | AF_INET | AF_INET6

record IPAddress =
  family :: address_family
  ip_u :: bytes

definition ip4 :: "IPAddress \<Rightarrow> bytes" where
  "ip4 a = take 4 (ip_u a)"

definition IPAddress_nil :: IPAddress where
  "IPAddress_nil = \<lparr>family = AF_UNSPEC, ip_u = replicate 16 0\<rparr>"

definition IPAddress_in :: "bytes \<Rightarrow> IPAddress" where
  "IPAddress_in addr = \<lparr>family = AF_INET, ip_u = write_at 0 addr (replicate 16 0)\<rparr>"

definition IPAddress_in6 :: "bytes \<Rightarrow> IPAddress" where
  "IPAddress_in6 addr = \<lparr>family = AF_INET6, ip_u = addr\<rparr>"

definition IPAddress_host :: "host_order \<Rightarrow> uint32 \<Rightarrow> IPAddress" where
  "IPAddress_host h ip_in_host_byte_order =
     \<lparr>family = AF_INET,
      ip_u = write_at 0 (host_mem32 h (HostToNetwork32 h ip_in_host_byte_order)) (replicate 16 0)\<rparr>"

definition s_addr :: "host_order \<Rightarrow> IPAddress \<Rightarrow> uint32" where
  "s_addr h a = host_val32 h (ip4 a)"

definition v4AddressAsHostOrderInteger :: "host_order \<Rightarrow> IPAddress \<Rightarrow> uint32" where
  "v4AddressAsHostOrderInteger h a =
     (if family a = AF_INET then NetworkToHost32 h (s_addr h a) else 0)"

definition IPAddress_Size :: "IPAddress \<Rightarrow> nat" where
  "IPAddress_Size a = (case family a of AF_INET \<Rightarrow> 4 | AF_INET6 \<Rightarrow> 16 | _ \<Rightarrow> 0)"

definition IPAddress_eq :: "IPAddress \<Rightarrow> IPAddress \<Rightarrow> bool" where
  "IPAddress_eq a other =
     (if family a \<noteq> family other then False
      else if family a = AF_INET then ip4 a = ip4 other
      else if family a = AF_INET6 then take 16 (ip_u a) = take 16 (ip_u other)
      else family a = AF_UNSPEC)"

definition IPAddress_neq :: "IPAddress \<Rightarrow> IPAddress \<Rightarrow> bool" where
  "IPAddress_neq a other = (\<not> IPAddress_eq a other)"

text \<open>\<^verbatim>\<open>memcmp (x, y, n) < 0\<close>: bytes compare as unsigned numbers.\<close>

fun memcmp_less :: "bytes \<Rightarrow> bytes \<Rightarrow> bool" where
  "memcmp_less (x # xs) (y # ys) = (x < y \<or> (x = y \<and> memcmp_less xs ys))"
| "memcmp_less _ _ = False"

definition IPAddress_less :: "host_order \<Rightarrow> IPAddress \<Rightarrow> IPAddress \<Rightarrow> bool" where
  "IPAddress_less h a other =
     (if family a \<noteq> family other then
        if family a = AF_UNSPEC then True
        else if family a = AF_INET \<and> family other = AF_INET6 then True
        else False
      else case family a of
        AF_INET \<Rightarrow> NetworkToHost32 h (s_addr h a) < NetworkToHost32 h (s_addr h other)
      | AF_INET6 \<Rightarrow> memcmp_less (take 16 (ip_u a)) (take 16 (ip_u other))
      | _ \<Rightarrow> False)"

definition IPAddress_greater :: "host_order \<Rightarrow> IPAddress \<Rightarrow> IPAddress \<Rightarrow> bool" where
  "IPAddress_greater h a other = (IPAddress_neq a other \<and> \<not> IPAddress_less h a other)"

definition IPAddress_ToString :: "(address_family \<Rightarrow> bytes \<Rightarrow> string option) \<Rightarrow> IPAddress \<Rightarrow> string" where
  "IPAddress_ToString inet_ntop a =
     (if family a \<noteq> AF_INET \<and> family a \<noteq> AF_INET6 then []
      else let src = (if family a = AF_INET6 then take 16 (ip_u a) else ip4 a) in
           case inet_ntop (family a) src of None \<Rightarrow> [] | Some buf \<Rightarrow> buf)"

section \<open>Prefixes\<close>

definition in6_prefix :: "bytes \<Rightarrow> bytes" where
  "in6_prefix bs = write_at 0 bs (replicate 16 0)"

definition kV4MappedPrefix :: bytes where
  "kV4MappedPrefix = in6_prefix [0, 0, 0, 0, 0, 0, 0, 0, 0, 0, 0xFF, 0xFF, 0]"

definition k6To4Prefix :: bytes where
  "k6To4Prefix = in6_prefix [0x20, 0x02, 0]"

definition kTeredoPrefix :: bytes where
  "kTeredoPrefix = in6_prefix [0x20, 0x01, 0, 0]"

definition kV4CompatibilityPrefix :: bytes where
  "kV4CompatibilityPrefix = in6_prefix [0]"

definition k6BonePrefix :: bytes where
  "k6BonePrefix = in6_prefix [0x3f, 0xfe, 0]"

definition IPIsHelper :: "IPAddress \<Rightarrow> bytes \<Rightarrow> nat \<Rightarrow> bool" where
  "IPIsHelper ip tomatch len = (take (len div 8) (ip_u ip) = take (len div 8) tomatch)"

definition IPIs6Bone :: "IPAddress \<Rightarrow> bool" where
  "IPIs6Bone ip = IPIsHelper ip k6BonePrefix 16"

definition IPIs6To4 :: "IPAddress \<Rightarrow> bool" where
  "IPIs6To4 ip = IPIsHelper ip k6To4Prefix 16"

definition IPIsSiteLocal :: "IPAddress \<Rightarrow> bool" where
  "IPIsSiteLocal ip = (ip_u ip ! 0 = 0xFE \<and> (ip_u ip ! 1 AND 0xC0) = 0xC0)"

definition IPIsULA :: "IPAddress \<Rightarrow> bool" where
  "IPIsULA ip = ((ip_u ip ! 0 AND 0xFE) = 0xFC)"

definition IPIsTeredo :: "IPAddress \<Rightarrow> bool" where
  "IPIsTeredo ip = IPIsHelper ip kTeredoPrefix 32"

definition IPIsV4Compatibility :: "IPAddress \<Rightarrow> bool" where
  "IPIsV4Compatibility ip = IPIsHelper ip kV4CompatibilityPrefix 96"

definition IPIsV4Mapped :: "IPAddress \<Rightarrow> bool" where
  "IPIsV4Mapped ip = IPIsHelper ip kV4MappedPrefix 96"

definition ExtractMappedAddress :: "bytes \<Rightarrow> bytes" where
  "ExtractMappedAddress in6 = read_at 12 4 in6"

definition Normalized :: "IPAddress \<Rightarrow> IPAddress" where
  "Normalized a =
     (if family a \<noteq> AF_INET6 then a
      else if \<not> IPIsV4Mapped a then a
      else IPAddress_in (ExtractMappedAddress (ip_u a)))"

definition AsIPv6Address :: "IPAddress \<Rightarrow> IPAddress" where
  "AsIPv6Address a =
     (if family a \<noteq> AF_INET then a
      else IPAddress_in6 (write_at 12 (ip4 a) kV4MappedPrefix))"

section \<open>Classification\<close>

definition IsPrivateV4 :: "uint32 \<Rightarrow> bool" where
  "IsPrivateV4 ip_in_host_order \<longleftrightarrow>
     drop_bit 24 ip_in_host_order = 127 \<or>
     drop_bit 24 ip_in_host_order = 10 \<or>
     drop_bit 20 ip_in_host_order = (push_bit 4 172 OR 1) \<or>
     drop_bit 16 ip_in_host_order = (push_bit 8 192 OR 168) \<or>
     drop_bit 16 ip_in_host_order = (push_bit 8 169 OR 254)"

definition INADDR_ANY :: uint32 where "INADDR_ANY = 0"

definition INADDR_LOOPBACK :: uint32 where "INADDR_LOOPBACK = 0x7f000001"

definition in6addr_any :: bytes where "in6addr_any = replicate 16 0"

definition in6addr_loopback :: bytes where "in6addr_loopback = replicate 15 0 @ [1]"

definition IPFromString ::
  "(string \<Rightarrow> bytes option) \<Rightarrow> (string \<Rightarrow> bytes option) \<Rightarrow> string \<Rightarrow> bool \<times> IPAddress" where
  "IPFromString inet_pton4 inet_pton6 str =
     (case inet_pton4 str of
        None \<Rightarrow> (case inet_pton6 str of
                   None \<Rightarrow> (False, IPAddress_nil)
                 | Some addr6 \<Rightarrow> (True, IPAddress_in6 addr6))
      | Some addr \<Rightarrow> (True, IPAddress_in addr))"

definition IPIsAny :: "host_order \<Rightarrow> IPAddress \<Rightarrow> bool" where
  "IPIsAny h ip = (case family ip of
      AF_INET \<Rightarrow> IPAddress_eq ip (IPAddress_host h INADDR_ANY)
    | AF_INET6 \<Rightarrow> IPAddress_eq ip (IPAddress_in6 in6addr_any)
    | AF_UNSPEC \<Rightarrow> False)"

definition IPIsLoopback :: "host_order \<Rightarrow> IPAddress \<Rightarrow> bool" where
  "IPIsLoopback h ip = (case family ip of
      AF_INET \<Rightarrow> IPAddress_eq ip (IPAddress_host h INADDR_LOOPBACK)
    | AF_INET6 \<Rightarrow> IPAddress_eq ip (IPAddress_in6 in6addr_loopback)
    | _ \<Rightarrow> False)"

definition IPIsPrivate :: "host_order \<Rightarrow> IPAddress \<Rightarrow> bool" where
  "IPIsPrivate h ip = (case family ip of
      AF_INET \<Rightarrow> IsPrivateV4 (v4AddressAsHostOrderInteger h ip)
    | AF_INET6 \<Rightarrow> (ip_u ip ! 0 = 0xFE \<and> ip_u ip ! 1 = 0x80) \<or> IPIsLoopback h ip
    | _ \<Rightarrow> False)"

definition IPIsUnspec :: "IPAddress \<Rightarrow> bool" where
  "IPIsUnspec ip = (family ip = AF_UNSPEC)"

definition v6_as_int :: "host_order \<Rightarrow> bytes \<Rightarrow> nat \<Rightarrow> uint32" where
  "v6_as_int h v6addr i = host_val32 h (read_at (4 * i) 4 v6addr)"

definition HashIP :: "host_order \<Rightarrow> IPAddress \<Rightarrow> uint32" where
  "HashIP h ip = (case family ip of
      AF_INET \<Rightarrow> s_addr h ip
    | AF_INET6 \<Rightarrow> v6_as_int h (ip_u ip) 0 XOR v6_as_int h (ip_u ip) 1 XOR
                 v6_as_int h (ip_u ip) 2 XOR v6_as_int h (ip_u ip) 3
    | _ \<Rightarrow> 0)"

definition IPAddressPrecedence :: "host_order \<Rightarrow> IPAddress \<Rightarrow> int" where
  "IPAddressPrecedence h ip =
     (if family ip = AF_INET then 30
      else if family ip = AF_INET6 then
        if IPIsLoopback h ip then 60
        else if IPIsULA ip then 50
        else if IPIsV4Mapped ip then 30
        else if IPIs6To4 ip then 20
        else if IPIsTeredo ip then 10
        else if IPIsV4Compatibility ip \<or> IPIsSiteLocal ip \<or> IPIs6Bone ip then 1
        else 40
      else 0)"

section \<open>Masks\<close>

text \<open>The body of the loop over the four words of an IPv6 address.\<close>

definition truncate_word :: "host_order \<Rightarrow> nat \<Rightarrow> uint32 \<Rightarrow> bytes \<Rightarrow> nat \<Rightarrow> bytes" where
  "truncate_word h position inner_mask v6addr i =
     (if i = position then
        let host_order_inner = NetworkToHost32 h (v6_as_int h v6addr i)
        in write_at (4 * i) (host_mem32 h (HostToNetwork32 h (host_order_inner AND inner_mask))) v6addr
      else if i > position then write_at (4 * i) (host_mem32 h 0) v6addr
      else v6addr)"

definition TruncateIP :: "host_order \<Rightarrow> IPAddress \<Rightarrow> int \<Rightarrow> IPAddress" where
  "TruncateIP h ip len =
     (if len < 0 then IPAddress_nil
      else if family ip = AF_INET then
        if len > 31 then ip
        else if len = 0 then IPAddress_host h INADDR_ANY
        else let mask = push_bit (nat (32 - len)) (0xFFFFFFFF :: uint32);
                 host_order_ip = NetworkToHost32 h (s_addr h ip)
             in IPAddress_in (host_mem32 h (HostToNetwork32 h (host_order_ip AND mask)))
      else if family ip = AF_INET6 then
        if len > 127 then ip
        else if len = 0 then IPAddress_in6 in6addr_any
        else let position = nat (len div 32);
                 inner_length = nat (32 - (len - len div 32 * 32));
                 inner_mask = ucast (push_bit inner_length (0xFFFFFFFF :: uint64)) :: uint32
             in IPAddress_in6 (foldl (truncate_word h position inner_mask) (ip_u ip) [0, 1, 2, 3])
      else IPAddress_nil)"

text \<open>The loop that skips the words that are all ones; it returns the index it stops at.\<close>

fun count_full_words :: "host_order \<Rightarrow> bytes \<Rightarrow> nat list \<Rightarrow> nat" where
  "count_full_words h v6addr [] = 4"
| "count_full_words h v6addr (i # is) =
     (if v6_as_int h v6addr i \<noteq> 0xFFFFFFFF then i else count_full_words h v6addr is)"

definition count_zeroes :: "uint32 \<Rightarrow> uint32" where
  "count_zeroes word_to_count =
     (let w = word_to_count AND - word_to_count;
          z0 = 32 :: uint32;
          z1 = (if w \<noteq> 0 then z0 - 1 else z0);
          z2 = (if w AND 0x0000FFFF \<noteq> 0 then z1 - 16 else z1);
          z3 = (if w AND 0x00FF00FF \<noteq> 0 then z2 - 8 else z2);
          z4 = (if w AND 0x0F0F0F0F \<noteq> 0 then z3 - 4 else z3);
          z5 = (if w AND 0x33333333 \<noteq> 0 then z4 - 2 else z4)
      in if w AND 0x55555555 \<noteq> 0 then z5 - 1 else z5)"

definition CountIPMaskBits :: "host_order \<Rightarrow> IPAddress \<Rightarrow> int" where
  "CountIPMaskBits h ip_mask =
     (let finish = (\<lambda>word_to_count bits.
            if word_to_count = 0 then bits
            else sint ((of_int bits :: int32) + (32 - count_zeroes word_to_count)))
      in case family ip_mask of
           AF_INET \<Rightarrow> finish (NetworkToHost32 h (s_addr h ip_mask)) 0
         | AF_INET6 \<Rightarrow>
             (let i = count_full_words h (ip_u ip_mask) [0, 1, 2, 3];
                  word_to_count = (if i < 4 then NetworkToHost32 h (v6_as_int h (ip_u ip_mask) i) else 0)
              in finish word_to_count (int (i * 32)))
         | _ \<Rightarrow> 0)"

end
