(* ===== verification/Vz_Socketaddress.thy ===== *)
theory Vz_Socketaddress
  imports Vz_Ipaddress "HOL-Library.Char_ord" "HOL-Library.List_Lexorder"
begin

unbundle bit_operations_syntax

text \<open>
  \<^verbatim>\<open>src/src/base/socketaddress.{h,cpp}\<close>: a host name or IP address with a port.
  \<^verbatim>\<open>inet_pton\<close> and \<^verbatim>\<open>inet_ntop\<close> are arguments, as in the theory of IP addresses.
\<close>

section \<open>State and setters\<close>

record SocketAddress =
  hostname :: string
  sa_ip :: IPAddress
  sa_port :: uint16
  scope_id :: int32
  literal :: bool

definition SocketAddress_nil :: SocketAddress where
  "SocketAddress_nil = \<lparr>hostname = [], sa_ip = IPAddress_nil, sa_port = 0, scope_id = 0, literal = False\<rparr>"

definition SetIP_host_order :: "host_order \<Rightarrow> uint32 \<Rightarrow> SocketAddress \<Rightarrow> SocketAddress" where
  "SetIP_host_order h ip a = a\<lparr>hostname := [], literal := False, sa_ip := IPAddress_host h ip, scope_id := 0\<rparr>"

definition SetIP :: "IPAddress \<Rightarrow> SocketAddress \<Rightarrow> SocketAddress" where
  "SetIP ip a = a\<lparr>hostname := [], literal := False, sa_ip := ip, scope_id := 0\<rparr>"

definition SetIP_string ::
  "(string \<Rightarrow> bytes option) \<Rightarrow> (string \<Rightarrow> bytes option) \<Rightarrow> string \<Rightarrow> SocketAddress \<Rightarrow> SocketAddress" where
  "SetIP_string inet_pton4 inet_pton6 name a =
     (case IPFromString inet_pton4 inet_pton6 name of
        (lit, ip) \<Rightarrow> a\<lparr>hostname := name, literal := lit,
                       sa_ip := (if \<not> lit then IPAddress_nil else ip), scope_id := 0\<rparr>)"

definition SetResolvedIP_host_order :: "host_order \<Rightarrow> uint32 \<Rightarrow> SocketAddress \<Rightarrow> SocketAddress" where
  "SetResolvedIP_host_order h ip a = a\<lparr>sa_ip := IPAddress_host h ip, scope_id := 0\<rparr>"

definition SetResolvedIP :: "IPAddress \<Rightarrow> SocketAddress \<Rightarrow> SocketAddress" where
  "SetResolvedIP ip a = a\<lparr>sa_ip := ip, scope_id := 0\<rparr>"

definition SetPort :: "int \<Rightarrow> SocketAddress \<Rightarrow> SocketAddress" where
  "SetPort port a = a\<lparr>sa_port := of_int port\<rparr>"

definition SetScopeID :: "int32 \<Rightarrow> SocketAddress \<Rightarrow> SocketAddress" where
  "SetScopeID i a = a\<lparr>scope_id := i\<rparr>"

definition SocketAddress_host ::
  "(string \<Rightarrow> bytes option) \<Rightarrow> (string \<Rightarrow> bytes option) \<Rightarrow> string \<Rightarrow> int \<Rightarrow> SocketAddress" where
  "SocketAddress_host inet_pton4 inet_pton6 name port =
     SetPort port (SetIP_string inet_pton4 inet_pton6 name SocketAddress_nil)"

definition SocketAddress_int :: "host_order \<Rightarrow> uint32 \<Rightarrow> int \<Rightarrow> SocketAddress" where
  "SocketAddress_int h ip port = SetPort port (SetIP (IPAddress_host h ip) SocketAddress_nil)"

definition SocketAddress_ip :: "IPAddress \<Rightarrow> int \<Rightarrow> SocketAddress" where
  "SocketAddress_ip ip port = SetPort port (SetIP ip SocketAddress_nil)"

section \<open>Observers\<close>

definition IsNil :: "SocketAddress \<Rightarrow> bool" where
  "IsNil a = (hostname a = [] \<and> IPIsUnspec (sa_ip a) \<and> sa_port a = 0)"

definition IsComplete :: "host_order \<Rightarrow> SocketAddress \<Rightarrow> bool" where
  "IsComplete h a = (\<not> IPIsAny h (sa_ip a) \<and> sa_port a \<noteq> 0)"

definition IsAnyIP :: "host_order \<Rightarrow> SocketAddress \<Rightarrow> bool" where
  "IsAnyIP h a = IPIsAny h (sa_ip a)"

definition IsLoopbackIP :: "host_order \<Rightarrow> SocketAddress \<Rightarrow> bool" where
  "IsLoopbackIP h a =
     (IPIsLoopback h (sa_ip a) \<or>
      (IPIsAny h (sa_ip a) \<and> takeWhile (\<lambda>c. c \<noteq> CHR 0x00) (hostname a) = ''localhost''))"

definition IsPrivateIP :: "host_order \<Rightarrow> SocketAddress \<Rightarrow> bool" where
  "IsPrivateIP h a = IPIsPrivate h (sa_ip a)"

definition IsUnresolvedIP :: "SocketAddress \<Rightarrow> bool" where
  "IsUnresolvedIP a = (IPIsUnspec (sa_ip a) \<and> \<not> literal a \<and> hostname a \<noteq> [])"

definition EqualIPs :: "host_order \<Rightarrow> SocketAddress \<Rightarrow> SocketAddress \<Rightarrow> bool" where
  "EqualIPs h a addr =
     (IPAddress_eq (sa_ip a) (sa_ip addr) \<and> (\<not> IPIsAny h (sa_ip a) \<or> hostname a = hostname addr))"

definition EqualPorts :: "SocketAddress \<Rightarrow> SocketAddress \<Rightarrow> bool" where
  "EqualPorts a addr = (sa_port a = sa_port addr)"

definition SocketAddress_eq :: "host_order \<Rightarrow> SocketAddress \<Rightarrow> SocketAddress \<Rightarrow> bool" where
  "SocketAddress_eq h a addr = (EqualIPs h a addr \<and> EqualPorts a addr)"

definition SocketAddress_less :: "host_order \<Rightarrow> SocketAddress \<Rightarrow> SocketAddress \<Rightarrow> bool" where
  "SocketAddress_less h a addr =
     (if IPAddress_less h (sa_ip a) (sa_ip addr) then True
      else if IPAddress_less h (sa_ip addr) (sa_ip a) then False
      else if IsAnyIP h addr \<and> hostname a < hostname addr then True
      else if IsAnyIP h addr \<and> hostname addr < hostname a then False
      else sa_port a < sa_port addr)"

end
