(* ===== verification/Vz_Session.thy ===== *)
theory Vz_Session
  imports Vz_Bytebuffer Vz_Timeutils Vz_Socketaddress
begin

text \<open>
  \<^verbatim>\<open>src/src/vzsdk/session.{h,cpp}\<close>: one TCP connection to a device.  A session frames
  outgoing requests, cuts the received byte stream into packets, and keeps the
  connection alive with heartbeats.  Everything runs on the async thread, so a handler
  is a function from the state to the new state and the list of effects it has, in
  order: the signals it emits and the calls it makes on its socket and its thread.
  The environment is an argument: \<open>h\<close> is the byte order of the host, \<open>tm n\<close> the value the
  \<open>n\<close>-th call to \<open>Time\<close> returns, and the results of \<^verbatim>\<open>Recv\<close>, \<^verbatim>\<open>Send\<close> and
  \<^verbatim>\<open>Connect\<close> are passed to the handlers that make these calls.  \<^verbatim>\<open>ASSERT\<close> is a no-op,
  as in a release build.
\<close>

section \<open>State\<close>

datatype ConnState = CS_CLOSED | CS_CONNECTING | CS_CONNECTED

definition PACKET_TYPE_HEARTBEAT :: uint8 where "PACKET_TYPE_HEARTBEAT = 0x01"

definition PACKET_TYPE_BINARY :: uint8 where "PACKET_TYPE_BINARY = 0x02"

definition PACKET_TYPE_JSON :: uint8 where "PACKET_TYPE_JSON = 0x00"

definition PARSE_PACKET_FORMAT_ERROR :: int where "PARSE_PACKET_FORMAT_ERROR = - 1"

definition PARSE_PACKET_NEED_MORE_DATA :: int where "PARSE_PACKET_NEED_MORE_DATA = 0"

definition HEADER_SIZE :: nat where "HEADER_SIZE = 8"

definition HEADER_V :: uint8 where "HEADER_V = 0x56"

definition HEADER_Z :: uint8 where "HEADER_Z = 0x5A"

definition DEFAULT_HEADBEAT_TIMEOUT :: int where "DEFAULT_HEADBEAT_TIMEOUT = 2 * 1000"

text \<open>
  \<open>async_socket\<close> is \<open>None\<close> for a null pointer and otherwise the state of the socket;
  \<open>socket_slots\<close> says whether the four signals of the socket reach this session;
  \<open>time_calls\<close> counts the calls to \<open>Time\<close>.  An effect \<open>SocketSend\<close> holds the bytes passed
  to \<^verbatim>\<open>Send\<close> and what it returned, \<open>None\<close> for \<^verbatim>\<open>SOCKET_ERROR\<close>.
\<close>

record session =
  async_socket :: "ConnState option"
  socket_slots :: bool
  read_buffer :: byte_buffer
  write_buffer :: byte_buffer
  session_id :: uint32
  connect_id :: uint32
  ms_start :: uint32
  time_calls :: nat

datatype session_event =
    SignalSessionPacketEvent uint32 bytes uint8
  | SignalSessionConnectedEvent uint32 uint32
  | SignalSessionCloseEvent uint32 int uint32
  | SocketConnect SocketAddress
  | SocketClose
  | SocketSend bytes "nat option"
  | ThreadPostDelayed int
  | LogPacketTypeError

type_synonym session_result = "session \<times> session_event list"

section \<open>Construction and the socket\<close>

text \<open>The first argument is the static counter \<^verbatim>\<open>unequal_session_id_\<close>; it is returned.\<close>

definition Session_new :: "uint32 \<Rightarrow> uint32 \<Rightarrow> session \<times> uint32" where
  "Session_new unequal_session_id sid =
     (let counter = (if sid = 0 then unequal_session_id + 1 else unequal_session_id);
          the_id = (if sid = 0 then counter else sid)
      in (\<lparr>async_socket = None, socket_slots = False,
           read_buffer = ByteBuffer_default, write_buffer = ByteBuffer_default,
           session_id = the_id, connect_id = 0, ms_start = 0, time_calls = 0\<rparr>, counter))"

definition Session_GetState :: "session \<Rightarrow> ConnState" where
  "Session_GetState s = (case async_socket s of Some st \<Rightarrow> st | None \<Rightarrow> CS_CLOSED)"

definition InitSocket :: "session \<Rightarrow> session" where
  "InitSocket s = s\<lparr>async_socket := Some CS_CLOSED, socket_slots := True\<rparr>"

definition UinitSocket :: "session \<Rightarrow> session" where
  "UinitSocket s =
     (if async_socket s \<noteq> None \<and> async_socket s \<noteq> Some CS_CLOSED
      then s\<lparr>socket_slots := False\<rparr> else s)"

text \<open>\<open>st\<close> is the state in which the socket's \<^verbatim>\<open>Connect\<close> leaves it.\<close>

definition Session_Start ::
  "session \<Rightarrow> SocketAddress \<Rightarrow> uint32 \<Rightarrow> ConnState \<Rightarrow> bool \<times> session_result" where
  "Session_Start s remote_address cid st =
     (let s1 = s\<lparr>connect_id := cid\<rparr> in
      if async_socket s1 \<noteq> None then (False, s1, [])
      else let s2 = InitSocket s1 in
           (True, s2\<lparr>async_socket := Some st\<rparr>, [SocketConnect remote_address]))"

definition Session_Stop :: "session \<Rightarrow> bool \<times> session_result" where
  "Session_Stop s =
     (let s1 = UinitSocket s in
      if async_socket s1 \<noteq> None \<and> async_socket s1 \<noteq> Some CS_CLOSED
      then (True, s1\<lparr>async_socket := Some CS_CLOSED\<rparr>, [SocketClose])
      else (True, s1, []))"

definition OnCloseEvent :: "session \<Rightarrow> int \<Rightarrow> session_result" where
  "OnCloseEvent s code =
     (let s1 = UinitSocket s in
      (s1, [SignalSessionCloseEvent (session_id s1) code (connect_id s1)]))"

section \<open>Receiving\<close>

definition read_Time :: "(nat \<Rightarrow> uint32) \<Rightarrow> session \<Rightarrow> uint32 \<times> session" where
  "read_Time tm s = (tm (time_calls s), s\<lparr>time_calls := time_calls s + 1\<rparr>)"

definition OnHandleInputPacket ::
  "(nat \<Rightarrow> uint32) \<Rightarrow> session \<Rightarrow> bytes \<Rightarrow> uint8 \<Rightarrow> session_result" where
  "OnHandleInputPacket tm s data packet_type =
     (if packet_type = PACKET_TYPE_HEARTBEAT then
        (case read_Time tm s of (now, s1) \<Rightarrow> (s1\<lparr>ms_start := now\<rparr>, []))
      else if packet_type = PACKET_TYPE_JSON then
        (s, [SignalSessionPacketEvent (session_id s) data packet_type])
      else if packet_type = PACKET_TYPE_BINARY then
        (s, [SignalSessionPacketEvent (session_id s) data packet_type])
      else (s, [LogPacketTypeError]))"

definition ntohl :: "host_order \<Rightarrow> uint32 \<Rightarrow> uint32" where
  "ntohl h v = GetBE32 (host_mem32 h v)"

text \<open>
  The loop of \<^verbatim>\<open>ProcessPacketProtocol\<close> from \<open>offset\<close> on; \<open>read_size\<close> is the value the
  output parameter has so far.  The result is the returned \<^verbatim>\<open>int\<close> (the final offset is
  converted from \<^verbatim>\<open>size_t\<close>), the output parameter, and the state and effects.
\<close>

function packet_loop ::
  "host_order \<Rightarrow> (nat \<Rightarrow> uint32) \<Rightarrow> bytes \<Rightarrow> session \<Rightarrow> nat \<Rightarrow> nat
     \<Rightarrow> int \<times> nat \<times> session_result" where
  "packet_loop h tm data s offset read_size =
     (if offset < length data then
        if length data - offset < HEADER_SIZE then
          (PARSE_PACKET_NEED_MORE_DATA, read_size, s, [])
        else if data ! offset = HEADER_V \<and> data ! (offset + 1) = HEADER_Z then
          let packet_type = data ! (offset + 2);
              packet_number = data ! (offset + 3);
              packet_size = ntohl h (host_val32 h (read_at (offset + 4) 4 data));
              offset8 = offset + 8
          in if length data - offset8 \<ge> unat packet_size then
               case OnHandleInputPacket tm s (read_at offset8 (unat packet_size) data) packet_type of
                 (s1, ev) \<Rightarrow>
                   let offset' = offset8 + unat packet_size in
                   case packet_loop h tm data s1 offset' offset' of
                     (r, rs, s2, ev') \<Rightarrow> (r, rs, s2, ev @ ev')
             else (PARSE_PACKET_NEED_MORE_DATA, read_size, s, [])
        else (PARSE_PACKET_NEED_MORE_DATA, read_size, s, [])
      else (sint (of_nat offset :: int32), read_size, s, []))"
  by pat_completeness auto
termination
  by (relation "measure (\<lambda>(h, tm, data, s, offset, read_size). length data - offset)") auto

declare packet_loop.simps [simp del]

definition ProcessPacketProtocol ::
  "host_order \<Rightarrow> (nat \<Rightarrow> uint32) \<Rightarrow> session \<Rightarrow> bytes \<Rightarrow> int \<times> nat \<times> session_result" where
  "ProcessPacketProtocol h tm s data = packet_loop h tm data s 0 0"

section \<open>The reference parser\<close>

text \<open>
  The abstract specification of the receiving side: a frame is the eight-byte header
  and its payload, and \<open>parse_frames\<close> cuts a byte string into its leading frames and an
  unfinished rest.
\<close>

definition frame_at :: "bytes \<Rightarrow> (uint8 \<times> bytes \<times> bytes) option" where
  "frame_at d =
     (let n = unat (GetBE32 (read_at 4 4 d)) in
      if HEADER_SIZE \<le> length d \<and> d ! 0 = HEADER_V \<and> d ! 1 = HEADER_Z \<and> n \<le> length d - HEADER_SIZE
      then Some (d ! 2, read_at HEADER_SIZE n d, drop (HEADER_SIZE + n) d) else None)"

lemma frame_at_shorter: "frame_at d = Some (t, p, rest) \<Longrightarrow> length rest < length d"
  by (auto simp: frame_at_def Let_def HEADER_SIZE_def split: if_splits)

function parse_frames :: "bytes \<Rightarrow> (uint8 \<times> bytes) list \<times> bytes" where
  "parse_frames d =
     (case frame_at d of
        None \<Rightarrow> ([], d)
      | Some (t, p, rest) \<Rightarrow> (case parse_frames rest of (ps, r) \<Rightarrow> ((t, p) # ps, r)))"
  by pat_completeness auto
termination
  by (relation "measure length") (auto dest: frame_at_shorter)

declare parse_frames.simps [simp del]

lemma parse_frames_None: "frame_at d = None \<Longrightarrow> parse_frames d = ([], d)"
  by (simp add: parse_frames.simps)

lemma parse_frames_Some: "frame_at d = Some (t, p, rest) \<Longrightarrow>
  parse_frames d = ((t, p) # fst (parse_frames rest), snd (parse_frames rest))"
  by (subst parse_frames.simps) (simp split: prod.splits)

primrec handle_packets ::
  "(nat \<Rightarrow> uint32) \<Rightarrow> session \<Rightarrow> (uint8 \<times> bytes) list \<Rightarrow> session_result" where
  "handle_packets tm s [] = (s, [])"
| "handle_packets tm s (x # xs) =
     (case OnHandleInputPacket tm s (snd x) (fst x) of (s1, ev) \<Rightarrow>
        case handle_packets tm s1 xs of (s2, ev') \<Rightarrow> (s2, ev @ ev'))"

text \<open>One turn of the loop, in terms of the specification.\<close>

lemma ntohl_read:
  assumes "HEADER_SIZE \<le> length data - offset"
  shows "ntohl h (host_val32 h (read_at (offset + 4) 4 data)) = GetBE32 (read_at 4 4 (drop offset data))"
  using assms by (simp add: ntohl_def host_mem_val32 read_at_def HEADER_SIZE_def add.commute)

lemma packet_loop_stop:
  assumes "offset < length data" and "frame_at (drop offset data) = None"
  shows "packet_loop h tm data s offset rs = (PARSE_PACKET_NEED_MORE_DATA, rs, s, [])"
proof (cases "length data - offset < HEADER_SIZE")
  case False
  with assms show ?thesis
    by (subst packet_loop.simps)
       (auto simp: frame_at_def Let_def ntohl_read HEADER_SIZE_def split: if_splits)
qed (use assms in \<open>subst packet_loop.simps, simp\<close>)

lemma packet_loop_frame:
  assumes "frame_at (drop offset data) = Some (t, p, rest)"
    and "OnHandleInputPacket tm s p t = (s1, ev)"
    and "packet_loop h tm data s1 (length data - length rest) (length data - length rest) = (r, rs', s2, ev')"
  shows "packet_loop h tm data s offset rs = (r, rs', s2, ev @ ev')"
proof -
  let ?n = "unat (GetBE32 (read_at 4 4 (drop offset data)))"
  have hd: "HEADER_SIZE \<le> length data - offset" "data ! offset = HEADER_V" "data ! (offset + 1) = HEADER_Z"
    "?n \<le> length data - (offset + 8)" "t = data ! (offset + 2)" "p = read_at (offset + 8) ?n data"
    "length data - length rest = offset + 8 + ?n" "offset < length data"
    using assms(1) by (auto simp: frame_at_def Let_def HEADER_SIZE_def read_at_def split: if_splits)
      (simp_all add: add.commute)
  show ?thesis
    using hd(1-4,8) assms(2,3) unfolding hd(5-7)
    by (subst packet_loop.simps) (simp only: ntohl_read Let_def, simp)
qed

lemma packet_loop_spec:
  assumes "offset \<le> length data" and "parse_frames (drop offset data) = (ps, rest)"
    and "handle_packets tm s ps = (s', ev)"
  shows "packet_loop h tm data s offset offset =
    (if rest = [] then sint (of_nat (length data) :: int32) else PARSE_PACKET_NEED_MORE_DATA,
     length data - length rest, s', ev)"
  using assms
proof (induction "drop offset data" arbitrary: offset s ps rest s' ev rule: parse_frames.induct)
  case (1 offset s ps rest s' ev)
  show ?case
  proof (cases "frame_at (drop offset data)")
    case None
    with 1(3,4) have [simp]: "ps = []" "rest = drop offset data" "s' = s" "ev = []"
      by (auto simp: parse_frames_None)
    show ?thesis
    proof (cases "offset < length data")
      case True
      then show ?thesis using packet_loop_stop [OF True None] by simp
    qed (use 1(2) in \<open>subst packet_loop.simps, simp\<close>)
  next
    case (Some x)
    then obtain t p r where fr: "frame_at (drop offset data) = Some (t, p, r)"
      by (cases x) auto
    let ?o = "length data - length r"
    have r: "r = drop ?o data" "?o \<le> length data"
      using fr by (auto simp: frame_at_def Let_def HEADER_SIZE_def split: if_splits)
    obtain qs where ps: "ps = (t, p) # qs" "parse_frames r = (qs, rest)"
      using 1(3) parse_frames_Some [OF fr] by (metis fst_conv snd_conv surj_pair)
    obtain s1 e1 where h1: "OnHandleInputPacket tm s p t = (s1, e1)" by fastforce
    obtain e2 where h2: "handle_packets tm s1 qs = (s', e2)" "ev = e1 @ e2"
      using 1(4) h1 by (auto simp: ps split: prod.splits)
    have rs: "(p, drop ?o data) = (p, r)" and ps': "parse_frames (drop ?o data) = (qs, rest)"
      using r(1) ps(2) by simp_all
    from 1(1) [OF fr refl rs r(2) ps' h2(1)]
    have "packet_loop h tm data s1 ?o ?o =
      (if rest = [] then sint (of_nat (length data) :: int32) else PARSE_PACKET_NEED_MORE_DATA,
       length data - length rest, s', e2)" by simp
    then show ?thesis using packet_loop_frame [OF fr h1] h2(2) by simp
  qed
qed

section \<open>Consuming the input\<close>

lemma ProcessPacketProtocol_spec:
  assumes "parse_frames data = (ps, rest)" and "handle_packets tm s ps = (s', ev)"
  shows "ProcessPacketProtocol h tm s data =
    (if rest = [] then sint (of_nat (length data) :: int32) else PARSE_PACKET_NEED_MORE_DATA,
     length data - length rest, s', ev)"
  using packet_loop_spec [of 0 data ps rest tm s s' ev h] assms
  by (simp add: ProcessPacketProtocol_def)

text \<open>Handling packets changes nothing of a session but its clock.\<close>

definition set_clock :: "uint32 \<Rightarrow> nat \<Rightarrow> session \<Rightarrow> session" where
  "set_clock m c s = s\<lparr>ms_start := m, time_calls := c\<rparr>"

lemma set_clock_simps [simp]:
  "read_buffer (set_clock m c s) = read_buffer s" "write_buffer (set_clock m c s) = write_buffer s"
  "async_socket (set_clock m c s) = async_socket s" "session_id (set_clock m c s) = session_id s"
  "connect_id (set_clock m c s) = connect_id s" "socket_slots (set_clock m c s) = socket_slots s"
  "set_clock m c (set_clock m' c' s) = set_clock m c s" "set_clock (ms_start s) (time_calls s) s = s"
  by (simp_all add: set_clock_def)

lemma OnHandleInputPacket_frame: "\<exists>m c. fst (OnHandleInputPacket tm s d t) = set_clock m c s"
proof (cases "t = PACKET_TYPE_HEARTBEAT")
  case True
  then show ?thesis
    by (intro exI [of _ "tm (time_calls s)"] exI [of _ "time_calls s + 1"])
       (simp add: OnHandleInputPacket_def read_Time_def set_clock_def)
next
  case False
  then show ?thesis
    by (intro exI [of _ "ms_start s"] exI [of _ "time_calls s"]) (simp add: OnHandleInputPacket_def)
qed

lemma handle_packets_frame: "\<exists>m c. fst (handle_packets tm s ps) = set_clock m c s"
proof (induction ps arbitrary: s)
  case Nil
  show ?case by (intro exI [of _ "ms_start s"] exI [of _ "time_calls s"]) simp
next
  case (Cons x ps)
  obtain s1 e1 where 1: "OnHandleInputPacket tm s (snd x) (fst x) = (s1, e1)" by fastforce
  obtain m c where "s1 = set_clock m c s"
    using OnHandleInputPacket_frame [of tm s "snd x" "fst x"] 1 by auto
  moreover obtain m' c' where "fst (handle_packets tm s1 ps) = set_clock m' c' s1"
    using Cons.IH [of s1] by blast
  ultimately show ?case
    by (intro exI [of _ m'] exI [of _ c']) (simp add: 1 case_prod_unfold)
qed

lemma ProcessInput_decreases:
  assumes "ProcessPacketProtocol h tm s (buf_data (read_buffer s)) = (r, rs, s1, ev)"
    and "r \<noteq> PARSE_PACKET_NEED_MORE_DATA"
  shows "rs \<noteq> 0 \<and> Length (snd (Consume (read_buffer s1) rs)) < Length (read_buffer s)"
proof -
  let ?d = "buf_data (read_buffer s)"
  obtain ps rest where pf: "parse_frames ?d = (ps, rest)" by fastforce
  obtain s' e' where hp: "handle_packets tm s ps = (s', e')" by fastforce
  from ProcessPacketProtocol_spec [OF pf hp, of h] assms
  have rs: "rs = length ?d" "rs \<noteq> 0" "s1 = s'"
    by (auto simp: PARSE_PACKET_NEED_MORE_DATA_def split: if_splits)
  have "read_buffer s1 = read_buffer s" using handle_packets_frame [of tm s ps] hp rs by auto
  moreover have "length ?d \<le> Length (read_buffer s)" by (simp add: buf_data_def read_at_def)
  ultimately show ?thesis using rs
    by (cases "length ?d") (auto simp: Consume_def Length_def)
qed

function ProcessInput :: "host_order \<Rightarrow> (nat \<Rightarrow> uint32) \<Rightarrow> session \<Rightarrow> session_result" where
  "ProcessInput h tm s =
     (let data_size = Length (read_buffer s) in
      if data_size = 0 then (s, [])
      else case ProcessPacketProtocol h tm s (buf_data (read_buffer s)) of
        (process_size, read_size, s1, ev) \<Rightarrow>
          let s2 = (if read_size \<noteq> 0
                    then s1\<lparr>read_buffer := snd (Consume (read_buffer s1) read_size)\<rparr> else s1)
          in if process_size = PARSE_PACKET_NEED_MORE_DATA then (s2, ev)
             else case ProcessInput h tm s2 of (s3, ev') \<Rightarrow> (s3, ev @ ev'))"
  by pat_completeness auto
termination
proof (relation "measure (\<lambda>(h, tm, s). Length (read_buffer s))", goal_cases)
  case (2 h tm s x xa y xb ya xc yb xd)
  then have "ProcessPacketProtocol h tm s (buf_data (read_buffer s)) = (xa, xb, xc, yb)" by metis
  from ProcessInput_decreases [OF this 2(7)] 2(6) show ?case by simp
qed simp

declare ProcessInput.simps [simp del]

lemma ProcessInput_empty: "Length (read_buffer s) = 0 \<Longrightarrow> ProcessInput h tm s = (s, [])"
  by (simp add: ProcessInput.simps)

lemma frame_at_rest: "frame_at d = Some (t, p, rest) \<Longrightarrow> rest = drop (length d - length rest) d"
  by (auto simp: frame_at_def Let_def HEADER_SIZE_def split: if_splits)

lemma parse_frames_rest:
  "length (snd (parse_frames d)) \<le> length d \<and>
   snd (parse_frames d) = drop (length d - length (snd (parse_frames d))) d"
proof (induction d rule: parse_frames.induct)
  case (1 d)
  show ?case
  proof (cases "frame_at d")
    case (Some x)
    then obtain t p r where fr: "frame_at d = Some (t, p, r)" by (cases x) auto
    from 1 [OF fr refl refl] frame_at_rest [OF fr] frame_at_shorter [OF fr] parse_frames_Some [OF fr]
    show ?thesis
      by (smt (verit) diff_diff_left drop_drop le_add_diff_inverse2 le_trans less_imp_le_nat snd_conv
          Nat.add_diff_assoc2 add.commute diff_cancel2 length_drop)
  qed (simp add: parse_frames_None)
qed

text \<open>The loop returns what the reference parser says, and leaves the unfinished rest.\<close>

lemma ProcessInput_spec:
  assumes ok: "ByteBuffer_ok (read_buffer s)"
    and pf: "parse_frames (buf_data (read_buffer s)) = (ps, rest)"
    and hp: "handle_packets tm s ps = (s1, ev)"
  shows "\<exists>b. ProcessInput h tm s = (s1\<lparr>read_buffer := b\<rparr>, ev) \<and> ByteBuffer_ok b \<and> buf_data b = rest"
proof (cases "Length (read_buffer s) = 0")
  case True
  then have "buf_data (read_buffer s) = []" using ok by (metis length_buf_data length_0_conv)
  moreover have "frame_at [] = None" by (simp add: frame_at_def HEADER_SIZE_def)
  ultimately have "ps = []" "rest = []" using pf by (simp_all add: parse_frames_None)
  then show ?thesis
    using hp ok True \<open>buf_data (read_buffer s) = []\<close>
    by (intro exI [of _ "read_buffer s"]) (auto simp: ProcessInput_empty)
next
  case False
  let ?d = "buf_data (read_buffer s)"
  define n where "n = length ?d - length rest"
  define b where "b = (if n \<noteq> 0 then snd (Consume (read_buffer s) n) else read_buffer s)"
  have rb: "read_buffer s1 = read_buffer s" using handle_packets_frame [of tm s ps] hp by auto
  have rest: "rest = drop n ?d" "n \<le> length ?d" using parse_frames_rest [of ?d] pf by (auto simp: n_def)
  have b: "ByteBuffer_ok b" "buf_data b = rest"
    using bb.inv_skip [OF ok, of n] bb.skip_ok [OF ok rest(2)] rest ok by (auto simp: b_def)
  have s2: "0 < n \<Longrightarrow> s1\<lparr>read_buffer := snd (Consume (read_buffer s1) n)\<rparr> = s1\<lparr>read_buffer := b\<rparr>"
    "n = 0 \<Longrightarrow> s1\<lparr>read_buffer := b\<rparr> = s1"
    using rb by (auto simp: b_def)
  have step: "ProcessInput h tm s =
      (if rest = [] \<and> sint (of_nat (length ?d) :: int32) \<noteq> PARSE_PACKET_NEED_MORE_DATA
       then case ProcessInput h tm (s1\<lparr>read_buffer := b\<rparr>) of (s3, ev') \<Rightarrow> (s3, ev @ ev')
       else (s1\<lparr>read_buffer := b\<rparr>, ev))"
    using False by (subst ProcessInput.simps)
      (simp add: Let_def ProcessPacketProtocol_spec [OF pf hp] n_def [symmetric] s2)
  moreover have "ProcessInput h tm (s1\<lparr>read_buffer := b\<rparr>) = (s1\<lparr>read_buffer := b\<rparr>, [])" if "rest = []"
    using b that length_buf_data [OF b(1)] by (intro ProcessInput_empty) simp
  ultimately show ?thesis using b by (intro exI [of _ b]) auto
qed

text \<open>
  \<^verbatim>\<open>OnReadEvent\<close>: \<open>recvs\<close> are the results of the successive calls to \<^verbatim>\<open>Recv\<close> before the
  one that returns \<^verbatim>\<open>SOCKET_ERROR\<close> and ends the loop.
\<close>

primrec OnReadEvent ::
  "host_order \<Rightarrow> (nat \<Rightarrow> uint32) \<Rightarrow> session \<Rightarrow> bytes list \<Rightarrow> session_result" where
  "OnReadEvent h tm s [] = (s, [])"
| "OnReadEvent h tm s (c # recvs) =
     (case ProcessInput h tm (s\<lparr>read_buffer := WriteBytes (read_buffer s) c\<rparr>) of (s1, ev) \<Rightarrow>
        case OnReadEvent h tm s1 recvs of (s2, ev') \<Rightarrow> (s2, ev @ ev'))"

section \<open>Sending\<close>

text \<open>
  \<open>sent\<close> is what \<^verbatim>\<open>Send\<close> returns if it is called: the number of bytes it took, or
  \<open>None\<close> for \<^verbatim>\<open>SOCKET_ERROR\<close>.
\<close>

definition TryToWriteData :: "session \<Rightarrow> nat option \<Rightarrow> session_result" where
  "TryToWriteData s sent =
     (if async_socket s = None \<or> async_socket s \<noteq> Some CS_CONNECTED \<or> Length (write_buffer s) = 0
      then (s, [])
      else let data = buf_data (write_buffer s) in
           case sent of
             None \<Rightarrow> (s, [SocketSend data None])
           | Some send_size \<Rightarrow>
               (s\<lparr>write_buffer := snd (Consume (write_buffer s) send_size)\<rparr>,
                [SocketSend data (Some send_size)]))"

definition AsyncWrite ::
  "host_order \<Rightarrow> session \<Rightarrow> bytes option \<Rightarrow> uint32 \<Rightarrow> uint8 \<Rightarrow> nat option \<Rightarrow> session_result" where
  "AsyncWrite h s data data_size packet_type sent =
     (let w1 = WriteUInt8 (write_buffer s) HEADER_V;
          w2 = WriteUInt8 w1 HEADER_Z;
          w3 = WriteUInt8 w2 packet_type;
          w4 = WriteUInt8 w3 0;
          w5 = WriteUInt32 h w4 data_size;
          w6 = (case data of Some bs \<Rightarrow> WriteBytes w5 (take (unat data_size) bs) | None \<Rightarrow> w5)
      in TryToWriteData (s\<lparr>write_buffer := w6\<rparr>) sent)"

definition WriteHeartbeat :: "host_order \<Rightarrow> session \<Rightarrow> nat option \<Rightarrow> session_result" where
  "WriteHeartbeat h s sent = AsyncWrite h s None 0 PACKET_TYPE_HEARTBEAT sent"

definition OnWriteEvent :: "session \<Rightarrow> nat option \<Rightarrow> session_result" where
  "OnWriteEvent s sent = TryToWriteData s sent"

section \<open>Heartbeats\<close>

definition AsyncWaitNextHeadrtbeatEvent :: "(nat \<Rightarrow> uint32) \<Rightarrow> session \<Rightarrow> session_result" where
  "AsyncWaitNextHeadrtbeatEvent tm s =
     (if ms_start s = 0 then
        (case read_Time tm s of (now, s1) \<Rightarrow>
           (s1\<lparr>ms_start := now\<rparr>, [ThreadPostDelayed DEFAULT_HEADBEAT_TIMEOUT]))
      else
        (case read_Time tm s of (msCurrent, s1) \<Rightarrow>
           if TimeDiff msCurrent (ms_start s1) > DEFAULT_HEADBEAT_TIMEOUT * 3
           then OnCloseEvent s1 0
           else (s1, [ThreadPostDelayed DEFAULT_HEADBEAT_TIMEOUT])))"

definition Session_OnMessage ::
  "host_order \<Rightarrow> (nat \<Rightarrow> uint32) \<Rightarrow> session \<Rightarrow> nat option \<Rightarrow> session_result" where
  "Session_OnMessage h tm s sent =
     (case WriteHeartbeat h s sent of (s1, ev) \<Rightarrow>
        case AsyncWaitNextHeadrtbeatEvent tm s1 of (s2, ev') \<Rightarrow> (s2, ev @ ev'))"

definition OnConnectEvent :: "(nat \<Rightarrow> uint32) \<Rightarrow> session \<Rightarrow> session_result" where
  "OnConnectEvent tm s =
     (case AsyncWaitNextHeadrtbeatEvent tm s of (s1, ev) \<Rightarrow>
        (s1, SignalSessionConnectedEvent (session_id s) (connect_id s) # ev))"

section \<open>Frames\<close>

definition frame :: "uint8 \<Rightarrow> bytes \<Rightarrow> bytes" where
  "frame t p = [HEADER_V, HEADER_Z, t, 0] @ be32 (of_nat (length p)) @ p"

lemma frame_at_frame:
  assumes "length p < 2 ^ 32"
  shows "frame_at (frame t p @ r) = Some (t, p, r)"
proof -
  have "read_at 4 4 (frame t p @ r) = be32 (of_nat (length p))"
    by (simp add: frame_def read_at_def be32_def)
  moreover have "unat (of_nat (length p) :: uint32) = length p"
    using assms by (simp add: unat_of_nat)
  ultimately show ?thesis
    by (simp add: frame_at_def HEADER_SIZE_def) (simp add: frame_def be32_def read_at_def Let_def HEADER_SIZE_def
        add.commute [of 8] drop_drop [symmetric] del: drop_drop)
qed

definition frames :: "(uint8 \<times> bytes) list \<Rightarrow> bytes" where
  "frames ps = concat (map (\<lambda>(t, p). frame t p) ps)"

lemma parse_frames_frames:
  "list_all (\<lambda>(t, p). length p < 2 ^ 32) ps \<Longrightarrow> frame_at r = None \<Longrightarrow> parse_frames (frames ps @ r) = (ps, r)"
proof (induction ps)
  case (Cons x ps)
  obtain t p where x: "x = (t, p)" by fastforce
  with Cons show ?case
    using frame_at_frame [of p t "frames ps @ r"]
    by (simp add: frames_def parse_frames_Some)
qed (simp add: frames_def parse_frames_None)

lemma frame_at_append: "frame_at d = Some (t, p, r) \<Longrightarrow> frame_at (d @ c) = Some (t, p, r @ c)"
  by (auto simp: frame_at_def Let_def HEADER_SIZE_def read_at_def nth_append split: if_splits)

lemma parse_frames_append:
  assumes "parse_frames d = (ps, r)"
  shows "parse_frames (d @ c) = (ps @ fst (parse_frames (r @ c)), snd (parse_frames (r @ c)))"
  using assms
proof (induction d arbitrary: ps r rule: parse_frames.induct)
  case (1 d)
  show ?case
  proof (cases "frame_at d")
    case None
    then show ?thesis using 1(2) by (simp add: parse_frames_None)
  next
    case (Some x)
    then obtain t p r' where fr: "frame_at d = Some (t, p, r')" by (cases x) auto
    obtain qs where qs: "parse_frames r' = (qs, r)" "ps = (t, p) # qs"
      using 1(2) parse_frames_Some [OF fr] by (cases "parse_frames r'") auto
    show ?thesis
      using parse_frames_Some [OF frame_at_append [OF fr]] 1(1) [OF fr refl refl qs(1)] qs(2) by simp
  qed
qed

lemma parse_frames_drained: "frame_at (snd (parse_frames d)) = None"
proof (induction d rule: parse_frames.induct)
  case (1 d)
  show ?case
  proof (cases "frame_at d")
    case (Some x)
    then obtain t p r where fr: "frame_at d = Some (t, p, r)" by (cases x) auto
    from 1 [OF fr refl refl] show ?thesis by (simp add: parse_frames_Some [OF fr])
  qed (simp add: parse_frames_None)
qed

lemma handle_packets_append:
  "handle_packets tm s (ps @ qs) =
     (case handle_packets tm s ps of (s1, ev) \<Rightarrow>
        case handle_packets tm s1 qs of (s2, ev') \<Rightarrow> (s2, ev @ ev'))"
  by (induction ps arbitrary: s) (simp_all add: case_prod_unfold)

lemma OnHandleInputPacket_buffer:
  "OnHandleInputPacket tm (s\<lparr>read_buffer := b\<rparr>) d t =
     apfst (\<lambda>s. s\<lparr>read_buffer := b\<rparr>) (OnHandleInputPacket tm s d t)"
  by (simp add: OnHandleInputPacket_def read_Time_def)

lemma handle_packets_buffer:
  "handle_packets tm (s\<lparr>read_buffer := b\<rparr>) ps =
     apfst (\<lambda>s. s\<lparr>read_buffer := b\<rparr>) (handle_packets tm s ps)"
  by (induction ps arbitrary: s) (simp_all add: OnHandleInputPacket_buffer case_prod_unfold apfst_def map_prod_def)

section \<open>The invariant of a session\<close>

definition session_ok :: "session \<Rightarrow> bool" where
  "session_ok s \<longleftrightarrow>
     ByteBuffer_ok (read_buffer s) \<and> ByteBuffer_ok (write_buffer s) \<and>
     bb_order (write_buffer s) = ORDER_NETWORK \<and> frame_at (buf_data (read_buffer s)) = None"

lemma frame_at_Nil [simp]: "frame_at [] = None"
  by (simp add: frame_at_def HEADER_SIZE_def)

lemma Session_new_ok: "session_ok (fst (Session_new c sid))"
  by (simp add: Session_new_def session_ok_def Let_def ByteBuffer_default_ok)
     (simp add: ByteBuffer_default_def ByteBuffer_Construct_def)

lemma OnReadEvent_spec:
  assumes "session_ok s" and "parse_frames (buf_data (read_buffer s) @ concat recvs) = (ps, rest)"
    and "handle_packets tm s ps = (s1, ev)"
  shows "\<exists>b. OnReadEvent h tm s recvs = (s1\<lparr>read_buffer := b\<rparr>, ev) \<and> ByteBuffer_ok b \<and>
    buf_data b = rest"
  using assms
proof (induction recvs arbitrary: s ps rest s1 ev)
  case Nil
  then have "ps = []" "rest = buf_data (read_buffer s)"
    by (auto simp: session_ok_def parse_frames_None)
  with Nil show ?case by (intro exI [of _ "read_buffer s"]) (auto simp: session_ok_def)
next
  case (Cons c recvs)
  let ?b = "WriteBytes (read_buffer s) c" and ?d = "buf_data (read_buffer s)"
  have ok: "ByteBuffer_ok ?b" and data: "buf_data ?b = ?d @ c"
    using Cons.prems(1) by (simp_all add: session_ok_def bb_laws)
  obtain qs r where pf: "parse_frames (?d @ c) = (qs, r)" by fastforce
  obtain s2 e2 where hp: "handle_packets tm s qs = (s2, e2)" by fastforce
  have "handle_packets tm (s\<lparr>read_buffer := ?b\<rparr>) qs = (s2\<lparr>read_buffer := ?b\<rparr>, e2)"
    by (simp add: handle_packets_buffer hp)
  from ProcessInput_spec [of "s\<lparr>read_buffer := ?b\<rparr>", OF _ _ this] ok pf data
  obtain b2 where pi: "ProcessInput h tm (s\<lparr>read_buffer := ?b\<rparr>) = (s2\<lparr>read_buffer := b2\<rparr>, e2)"
    "ByteBuffer_ok b2" "buf_data b2 = r" by auto
  obtain m k where clk: "s2 = set_clock m k s" using handle_packets_frame [of tm s qs] hp by auto
  have ok2: "session_ok (s2\<lparr>read_buffer := b2\<rparr>)"
    using Cons.prems(1) pi parse_frames_drained [of "?d @ c"] pf clk by (simp add: session_ok_def)
  obtain qs' where ps: "parse_frames (r @ concat recvs) = (qs', rest)" "ps = qs @ qs'"
    using Cons.prems(2) parse_frames_append [OF pf, of "concat recvs"]
    by (cases "parse_frames (r @ concat recvs)") auto
  obtain e3 where h3: "handle_packets tm s2 qs' = (s1, e3)" "ev = e2 @ e3"
    using Cons.prems(3) by (auto simp: ps handle_packets_append hp split: prod.splits)
  have "handle_packets tm (s2\<lparr>read_buffer := b2\<rparr>) qs' = (s1\<lparr>read_buffer := b2\<rparr>, e3)"
    by (simp add: handle_packets_buffer h3)
  from Cons.IH [OF ok2 _ this] ps(1) pi h3(2) show ?case by auto
qed

lemma session_ok_clock [simp]: "session_ok (set_clock m c s) = session_ok s"
  by (simp add: session_ok_def)

lemma session_ok_OnReadEvent:
  assumes "session_ok s" and "OnReadEvent h tm s recvs = (s', ev)"
  shows "session_ok s'" "write_buffer s' = write_buffer s"
proof -
  let ?d = "buf_data (read_buffer s) @ concat recvs"
  obtain ps rest where pf: "parse_frames ?d = (ps, rest)" by fastforce
  obtain s1 e1 where hp: "handle_packets tm s ps = (s1, e1)" by fastforce
  obtain m c where clk: "s1 = set_clock m c s" using handle_packets_frame [of tm s ps] hp by auto
  from OnReadEvent_spec [OF assms(1) pf hp, of h] assms(2)
  obtain b where b: "s' = s1\<lparr>read_buffer := b\<rparr>" "ByteBuffer_ok b" "buf_data b = rest" by auto
  then show "session_ok s'"
    using assms(1) parse_frames_drained [of ?d] pf clk by (simp add: session_ok_def)
  show "write_buffer s' = write_buffer s" using b clk by simp
qed

text \<open>What a call of \<^verbatim>\<open>Send\<close> put on the wire, and the contract of its result.\<close>

fun sent_bytes :: "session_event \<Rightarrow> bytes" where
  "sent_bytes (SocketSend data (Some n)) = take n data"
| "sent_bytes _ = []"

fun send_contract :: "session_event \<Rightarrow> bool" where
  "send_contract (SocketSend data (Some n)) = (n \<le> length data)"
| "send_contract _ = True"

definition wire :: "session_event list \<Rightarrow> bytes" where
  "wire evs = concat (map sent_bytes evs)"

lemma wire_simps [simp]: "wire [] = []" "wire (e # es) = sent_bytes e @ wire es" "wire (xs @ ys) = wire xs @ wire ys"
  by (simp_all add: wire_def)

lemma TryToWriteData_spec:
  assumes "session_ok s" and "TryToWriteData s sent = (s', ev)" and "list_all send_contract ev"
  shows "session_ok s'" "wire ev @ buf_data (write_buffer s') = buf_data (write_buffer s)"
proof -
  have ok: "ByteBuffer_ok (write_buffer s)" using assms(1) by (simp add: session_ok_def)
  show "wire ev @ buf_data (write_buffer s') = buf_data (write_buffer s)"
    using assms(2,3) bb.skip_ok [OF ok]
    by (auto simp: TryToWriteData_def Let_def split: if_splits option.splits)
  have "bb_order (snd (Consume b n)) = bb_order b" for b n by (simp add: Consume_def)
  then show "session_ok s'"
    using assms(1,2) bb.inv_skip [OF ok]
    by (auto simp: TryToWriteData_def Let_def session_ok_def split: if_splits option.splits)
qed

definition append_frame :: "session \<Rightarrow> byte_buffer \<Rightarrow> uint8 \<Rightarrow> bytes \<Rightarrow> bool" where
  "append_frame s b t p \<longleftrightarrow> ByteBuffer_ok b \<and> bb_order b = ORDER_NETWORK \<and>
     buf_data b = buf_data (write_buffer s) @ frame t p"

lemma AsyncWrite_frame:
  assumes "session_ok s" and "data = Some p \<or> data = None \<and> p = []" and "length p = unat n"
  shows "\<exists>b. AsyncWrite h s data n t sent = TryToWriteData (s\<lparr>write_buffer := b\<rparr>) sent \<and> append_frame s b t p"
proof -
  have "of_nat (length p) = n" using assms(3) by simp
  then show ?thesis
    using assms by (auto simp: AsyncWrite_def append_frame_def session_ok_def Let_def WriteUInt8_def
        Write_enc bb_laws frame_def)
qed

lemma AsyncWrite_spec:
  assumes "session_ok s" and "data = Some p \<or> data = None \<and> p = []" and "length p = unat n"
    and "AsyncWrite h s data n t sent = (s', ev)" and "list_all send_contract ev"
  shows "session_ok s'" "wire ev @ buf_data (write_buffer s') = buf_data (write_buffer s) @ frame t p"
proof -
  obtain b where b: "TryToWriteData (s\<lparr>write_buffer := b\<rparr>) sent = (s', ev)" "append_frame s b t p"
    using AsyncWrite_frame [OF assms(1-3)] assms(4) by metis
  have "session_ok (s\<lparr>write_buffer := b\<rparr>)"
    using assms(1) b(2) by (simp add: session_ok_def append_frame_def)
  from TryToWriteData_spec [OF this b(1) assms(5)] b(2)
  show "session_ok s'" "wire ev @ buf_data (write_buffer s') = buf_data (write_buffer s) @ frame t p"
    by (simp_all add: append_frame_def)
qed

lemma UinitSocket_buffers [simp]:
  "read_buffer (UinitSocket s) = read_buffer s" "write_buffer (UinitSocket s) = write_buffer s"
  by (simp_all add: UinitSocket_def)

lemma AsyncWaitNextHeadrtbeatEvent_spec:
  assumes "AsyncWaitNextHeadrtbeatEvent tm s = (s', ev)"
  shows "read_buffer s' = read_buffer s" "write_buffer s' = write_buffer s" "wire ev = []"
  using assms
  by (auto simp: AsyncWaitNextHeadrtbeatEvent_def read_Time_def OnCloseEvent_def Let_def split: if_splits)

lemma session_ok_cong:
  "read_buffer s' = read_buffer s \<Longrightarrow> write_buffer s' = write_buffer s \<Longrightarrow> session_ok s' = session_ok s"
  by (simp add: session_ok_def)

section \<open>Runs of a session\<close>

text \<open>
  What can happen to a session, one input per event of the async thread: the calls of
  its owner, the signals of its socket (only while the slots are connected), the
  delayed message it posted to itself, and a change of the socket's state.  Callers
  of \<^verbatim>\<open>AsyncWrite\<close> pass a payload of \<^verbatim>\<open>data_size\<close> bytes, or a null pointer and 0.
\<close>

datatype session_input =
    InStart SocketAddress uint32 ConnState
  | InStop
  | InSocketState ConnState
  | InRead "bytes list"
  | InWritable "nat option"
  | InConnected
  | InClosed int
  | InWrite bytes uint8 "nat option"
  | InTimer "nat option"

inductive session_step ::
  "host_order \<Rightarrow> (nat \<Rightarrow> uint32) \<Rightarrow> session \<Rightarrow> session_input \<Rightarrow> session \<Rightarrow> session_event list \<Rightarrow> bool"
  for h tm where
  start: "Session_Start s addr cid st = (r, s', ev) \<Longrightarrow> session_step h tm s (InStart addr cid st) s' ev"
| stop: "Session_Stop s = (r, s', ev) \<Longrightarrow> session_step h tm s InStop s' ev"
| socket: "async_socket s \<noteq> None \<Longrightarrow>
    session_step h tm s (InSocketState st) (s\<lparr>async_socket := Some st\<rparr>) []"
| read: "socket_slots s \<Longrightarrow> OnReadEvent h tm s recvs = (s', ev) \<Longrightarrow>
    session_step h tm s (InRead recvs) s' ev"
| writable: "socket_slots s \<Longrightarrow> OnWriteEvent s sent = (s', ev) \<Longrightarrow> list_all send_contract ev \<Longrightarrow>
    session_step h tm s (InWritable sent) s' ev"
| connected: "socket_slots s \<Longrightarrow> OnConnectEvent tm s = (s', ev) \<Longrightarrow> session_step h tm s InConnected s' ev"
| closed: "socket_slots s \<Longrightarrow> OnCloseEvent s code = (s', ev) \<Longrightarrow> session_step h tm s (InClosed code) s' ev"
| written: "length p < 2 ^ 32 \<Longrightarrow> AsyncWrite h s (Some p) (of_nat (length p)) t sent = (s', ev) \<Longrightarrow>
    list_all send_contract ev \<Longrightarrow> session_step h tm s (InWrite p t sent) s' ev"
| timer: "Session_OnMessage h tm s sent = (s', ev) \<Longrightarrow> list_all send_contract ev \<Longrightarrow>
    session_step h tm s (InTimer sent) s' ev"

inductive session_run ::
  "host_order \<Rightarrow> (nat \<Rightarrow> uint32) \<Rightarrow> session \<Rightarrow> session_input list \<Rightarrow> session \<Rightarrow> session_event list \<Rightarrow> bool"
  for h tm where
  run_nil: "session_run h tm s [] s []"
| run_snoc: "session_run h tm s ins s1 ev \<Longrightarrow> session_step h tm s1 x s2 ev' \<Longrightarrow>
    session_run h tm s (ins @ [x]) s2 (ev @ ev')"

text \<open>The packets an input asks the session to send.\<close>

fun input_packets :: "session_input \<Rightarrow> (uint8 \<times> bytes) list" where
  "input_packets (InWrite p t _) = [(t, p)]"
| "input_packets (InTimer _) = [(PACKET_TYPE_HEARTBEAT, [])]"
| "input_packets _ = []"

lemma frames_simps [simp]:
  "frames [] = []" "frames ((t, p) # ps) = frame t p @ frames ps" "frames (ps @ qs) = frames ps @ frames qs"
  by (simp_all add: frames_def)

lemma OnMessage_spec:
  assumes "session_ok s" and "Session_OnMessage h tm s sent = (s', ev)" and "list_all send_contract ev"
  shows "session_ok s' \<and>
    wire ev @ buf_data (write_buffer s') = buf_data (write_buffer s) @ frame PACKET_TYPE_HEARTBEAT []"
proof -
  obtain s1 e1 where 1: "AsyncWrite h s None 0 PACKET_TYPE_HEARTBEAT sent = (s1, e1)" by fastforce
  obtain e2 where 2: "AsyncWaitNextHeadrtbeatEvent tm s1 = (s', e2)" "ev = e1 @ e2"
    using assms(2) 1 by (auto simp: Session_OnMessage_def WriteHeartbeat_def split: prod.splits)
  have "list_all send_contract e1" using assms(3) 2(2) by simp
  from AsyncWrite_spec [OF assms(1) _ _ 1 this, of "[]"] AsyncWaitNextHeadrtbeatEvent_spec [OF 2(1)] 2(2)
  show ?thesis by (simp add: session_ok_cong [of s' s1])
qed

lemma session_step_spec:
  assumes "session_step h tm s x s' ev" and ok: "session_ok s"
  shows "session_ok s' \<and>
    wire ev @ buf_data (write_buffer s') = buf_data (write_buffer s) @ frames (input_packets x)"
  using assms(1)
proof cases
  case (read recvs)
  obtain ps rest where pf: "parse_frames (buf_data (read_buffer s) @ concat recvs) = (ps, rest)" by fastforce
  obtain s1 e1 where hp: "handle_packets tm s ps = (s1, e1)" by fastforce
  have "wire (snd (handle_packets tm s ps)) = []" for s ps
    by (induction ps arbitrary: s) (auto simp: OnHandleInputPacket_def read_Time_def case_prod_unfold)
  then have "wire e1 = []" using hp by (metis snd_conv)
  then have "wire ev = []" using OnReadEvent_spec [OF ok pf hp, of h] read(3) by auto
  then show ?thesis using session_ok_OnReadEvent [OF ok read(3)] read(1) by simp
next
  case (writable sent)
  then show ?thesis using TryToWriteData_spec [OF ok, of sent s' ev] by (simp add: OnWriteEvent_def)
next
  case (written p t sent)
  then show ?thesis using AsyncWrite_spec [OF ok, of "Some p" p "of_nat (length p)" h t sent s' ev]
    by (simp add: unat_of_nat)
next
  case (timer sent)
  then show ?thesis using OnMessage_spec [OF ok timer(2,3)] by simp
next
  case connected
  then obtain e where "AsyncWaitNextHeadrtbeatEvent tm s = (s', e)"
    "ev = SignalSessionConnectedEvent (session_id s) (connect_id s) # e"
    by (auto simp: OnConnectEvent_def split: prod.splits)
  then show ?thesis using AsyncWaitNextHeadrtbeatEvent_spec [of tm s s' e] ok connected(1)
    by (simp add: session_ok_cong [of s' s])
qed (use ok in \<open>auto simp: Session_Start_def Session_Stop_def OnCloseEvent_def InitSocket_def Let_def
       session_ok_def split: if_splits\<close>)

lemma session_run_spec:
  assumes "session_run h tm s ins s' ev" and "session_ok s"
  shows "session_ok s' \<and>
    wire ev @ buf_data (write_buffer s') = buf_data (write_buffer s) @ frames (concat (map input_packets ins))"
  using assms
proof (induction rule: session_run.induct)
  case (run_snoc s ins s1 ev x s2 ev')
  then have "session_ok s2" "wire ev' @ buf_data (write_buffer s2) = buf_data (write_buffer s1) @ frames (input_packets x)"
    using session_step_spec by blast+
  with run_snoc.IH [OF run_snoc.prems] show ?case by simp
qed simp

section \<open>Properties\<close>

text \<open>
  C7 (refinement).  Whatever pieces the socket delivers, \<^verbatim>\<open>OnReadEvent\<close> does what the
  reference parser says about the unread bytes followed by all the new ones: it handles
  exactly the packets of \<open>parse_frames\<close>, in order, and keeps exactly its rest.
\<close>

theorem read_event_refines_parser:
  assumes "session_ok s" and "parse_frames (buf_data (read_buffer s) @ concat recvs) = (packets, rest)"
  shows "snd (OnReadEvent h tm s recvs) = snd (handle_packets tm s packets) \<and>
    buf_data (read_buffer (fst (OnReadEvent h tm s recvs))) = rest \<and>
    session_ok (fst (OnReadEvent h tm s recvs))"
proof -
  obtain s1 ev where hp: "handle_packets tm s packets = (s1, ev)" by fastforce
  from OnReadEvent_spec [OF assms hp, of h] obtain b
    where "OnReadEvent h tm s recvs = (s1\<lparr>read_buffer := b\<rparr>, ev)" "buf_data b = rest" by blast
  with session_ok_OnReadEvent(1) [OF assms(1)] hp show ?thesis by simp
qed

theorem read_event_refines_parser_witness:
  "snd (OnReadEvent HostLittle (\<lambda>n. of_nat n) (fst (Session_new 1 0))
     [[0x56, 0x5A, 0, 0, 0, 0], [0, 2, 7], [8, 0x56]]) = [SignalSessionPacketEvent 2 [7, 8] 0]"
proof -
  let ?s = "fst (Session_new 1 0)"
  let ?in = "[[0x56, 0x5A, 0, 0, 0, 0], [0, 2, 7], [8, 0x56]] :: bytes list"
  have d: "buf_data (read_buffer ?s) = []"
    by (simp add: Session_new_def Let_def ByteBuffer_default_ok)
  have f: "concat ?in = frames [(0, [7, 8])] @ [0x56]"
    by (simp add: frame_def be32_def shr_byte_def HEADER_V_def HEADER_Z_def)
  have "frame_at [0x56] = None" by (simp add: frame_at_def HEADER_SIZE_def)
  then have "parse_frames (buf_data (read_buffer ?s) @ concat ?in) = ([(0, [7, 8])], [0x56])"
    unfolding f d using parse_frames_frames [of "[(0, [7, 8])]" "[0x56]"] by simp
  from read_event_refines_parser [OF Session_new_ok this, of HostLittle "\<lambda>n. of_nat n"]
  show ?thesis
    by (simp del: OnReadEvent.simps add: OnHandleInputPacket_def PACKET_TYPE_HEARTBEAT_def PACKET_TYPE_JSON_def
        Session_new_def Let_def)
qed

text \<open>
  C9 (equivalence).  How the network cuts the stream into pieces does not matter: two
  sequences of reads with the same bytes in total emit the same signals and leave the
  same session, up to the layout of the read buffer's block.
\<close>

theorem read_chunking_irrelevant:
  assumes "session_ok s" and "concat recvs = concat recvs'"
  shows "snd (OnReadEvent h tm s recvs) = snd (OnReadEvent h tm s recvs') \<and>
    buf_data (read_buffer (fst (OnReadEvent h tm s recvs))) =
      buf_data (read_buffer (fst (OnReadEvent h tm s recvs'))) \<and>
    (fst (OnReadEvent h tm s recvs))\<lparr>read_buffer := b\<rparr> =
      (fst (OnReadEvent h tm s recvs'))\<lparr>read_buffer := b\<rparr>"
proof -
  obtain ps rest where pf: "parse_frames (buf_data (read_buffer s) @ concat recvs) = (ps, rest)" by fastforce
  obtain s1 ev where hp: "handle_packets tm s ps = (s1, ev)" by fastforce
  from OnReadEvent_spec [OF assms(1) pf hp, of h]
    OnReadEvent_spec [OF assms(1) pf [unfolded assms(2)] hp, of h]
  show ?thesis by auto
qed

theorem read_chunking_irrelevant_witness:
  "snd (OnReadEvent HostBig (\<lambda>n. 5) (fst (Session_new 1 9)) [[0x56, 0x5A], [2, 0, 0, 0, 0, 1, 3]]) =
   snd (OnReadEvent HostBig (\<lambda>n. 5) (fst (Session_new 1 9)) [[0x56, 0x5A, 2, 0], [0, 0, 0, 1], [3]])"
  using read_chunking_irrelevant [OF Session_new_ok,
      of "[[0x56, 0x5A], [2, 0, 0, 0, 0, 1, 3]]" "[[0x56, 0x5A, 2, 0], [0, 0, 0, 1], [3]]"]
  by simp

text \<open>
  C8 (invariant).  Along every run of a session, the bytes the socket has accepted
  followed by the bytes still in the write buffer are exactly the frames of the packets
  and heartbeats written so far, in order: nothing is lost, repeated or interleaved,
  however short the writes are and however often they fail.
\<close>

theorem outgoing_stream_invariant:
  assumes "session_run h tm (fst (Session_new counter sid)) ins s events"
  shows "wire events @ buf_data (write_buffer s) = frames (concat (map input_packets ins)) \<and> session_ok s"
  using session_run_spec [OF assms Session_new_ok]
  by (simp add: Session_new_def Let_def ByteBuffer_default_ok)

theorem outgoing_stream_invariant_witness:
  "\<exists>s events. session_run HostLittle (\<lambda>n. 0) (fst (Session_new 1 5)) [InWrite [1] 0 None] s events \<and>
     wire events @ buf_data (write_buffer s) = frames [(0, [1])]"
proof -
  let ?s = "fst (Session_new 1 5)"
  obtain s ev where w: "AsyncWrite HostLittle ?s (Some [1]) (of_nat (length [1 :: byte])) 0 None = (s, ev)"
    by fastforce
  have "ev = []" using w
    by (simp add: AsyncWrite_def TryToWriteData_def Session_new_def Let_def)
  then have "session_step HostLittle (\<lambda>n. 0) ?s (InWrite [1] 0 None) s ev"
    using w by (intro session_step.written) simp_all
  from run_snoc [OF run_nil this]
  have r: "session_run HostLittle (\<lambda>n. 0) ?s [InWrite [1] 0 None] s ev" by simp
  from outgoing_stream_invariant [OF r] r show ?thesis by auto
qed

lemma handle_packets_events:
  "snd (handle_packets tm s ps) = concat (map (\<lambda>(t, p). snd (OnHandleInputPacket tm s p t)) ps)"
proof (induction ps arbitrary: s)
  case (Cons x ps)
  obtain s1 e1 where 1: "OnHandleInputPacket tm s (snd x) (fst x) = (s1, e1)" by fastforce
  have "session_id s1 = session_id s"
    using OnHandleInputPacket_frame [of tm s "snd x" "fst x"] 1 by auto
  then have "snd (OnHandleInputPacket tm s1 p t) = snd (OnHandleInputPacket tm s p t)" for t p
    by (simp add: OnHandleInputPacket_def read_Time_def)
  with Cons.IH [of s1] 1 show ?case by (simp add: case_prod_unfold)
qed simp

text \<open>The packets of a list that reach the listener of \<^verbatim>\<open>SignalSessionPacketEvent\<close>.\<close>

definition delivered :: "uint32 \<Rightarrow> (uint8 \<times> bytes) list \<Rightarrow> session_event list" where
  "delivered sid ps = concat (map (\<lambda>(t, p).
     if t = PACKET_TYPE_HEARTBEAT then []
     else if t = PACKET_TYPE_JSON \<or> t = PACKET_TYPE_BINARY then [SignalSessionPacketEvent sid p t]
     else [LogPacketTypeError]) ps)"

lemma handle_packets_delivered: "snd (handle_packets tm s ps) = delivered (session_id s) ps"
  unfolding handle_packets_events delivered_def
  by (rule arg_cong [where f = concat], rule map_cong)
     (auto simp: OnHandleInputPacket_def read_Time_def)

lemma session_run_lengths:
  "session_run h tm s ins s' ev \<Longrightarrow> list_all (\<lambda>(t, p). length p < 2 ^ 32) (concat (map input_packets ins))"
  by (induction rule: session_run.induct) (auto elim!: session_step.cases)

text \<open>
  C2 (round trip).  End to end: when everything one session wrote has gone out, another
  session that reads those bytes in any pieces signals exactly the JSON and binary
  packets that were written, payloads unchanged and in order, swallows the heartbeats,
  and has an empty read buffer.
\<close>

theorem wire_roundtrip:
  assumes "session_run h tm (fst (Session_new counter sid)) ins sender events"
    and "buf_data (write_buffer sender) = []"
    and "concat recvs = wire events"
    and "receiver = fst (Session_new counter' sid')"
  shows "snd (OnReadEvent h' tm' receiver recvs) =
      delivered (session_id receiver) (concat (map input_packets ins)) \<and>
    buf_data (read_buffer (fst (OnReadEvent h' tm' receiver recvs))) = []"
proof -
  let ?ps = "concat (map input_packets ins)"
  have ok: "session_ok receiver" and d: "buf_data (read_buffer receiver) = []"
    using assms(4) Session_new_ok by (simp_all add: Session_new_def Let_def ByteBuffer_default_ok)
  have "wire events = frames ?ps"
    using session_run_spec [OF assms(1) Session_new_ok] assms(2)
    by (simp add: Session_new_def Let_def ByteBuffer_default_ok)
  then have pf: "parse_frames (buf_data (read_buffer receiver) @ concat recvs) = (?ps, [])"
    using parse_frames_frames [OF session_run_lengths [OF assms(1)], of "[]"] assms(3) d by simp
  obtain s1 ev where hp: "handle_packets tm' receiver ?ps = (s1, ev)" by fastforce
  from OnReadEvent_spec [OF ok pf hp, of h'] handle_packets_delivered [of tm' receiver ?ps] hp
  show ?thesis by auto
qed

theorem wire_roundtrip_witness:
  "\<exists>ins sender events.
     session_run HostLittle (\<lambda>n. 0) (fst (Session_new 1 5)) ins sender events \<and>
     snd (OnReadEvent HostBig (\<lambda>n. 0) (fst (Session_new 1 7)) [wire events]) =
       [SignalSessionPacketEvent 7 [42] 0]"
proof -
  let ?s0 = "fst (Session_new 1 5)" and ?t = "\<lambda>n. 0 :: uint32"
  let ?ins = "[InStart SocketAddress_nil 1 CS_CONNECTED, InWrite [42] 0 (Some 9)]"
  obtain r s1 e1 where st: "Session_Start ?s0 SocketAddress_nil 1 CS_CONNECTED = (r, s1, e1)"
    by (metis prod_cases3)
  then have s1: "async_socket s1 = Some CS_CONNECTED" "write_buffer s1 = ByteBuffer_default" "e1 = [SocketConnect SocketAddress_nil]"
    by (auto simp: Session_Start_def Session_new_def InitSocket_def Let_def)
  have run1: "session_run HostLittle ?t ?s0 [InStart SocketAddress_nil 1 CS_CONNECTED] s1 e1"
    using run_snoc [OF run_nil session_step.start [OF st]] by simp
  then have ok1: "session_ok s1" using session_run_spec Session_new_ok by blast
  obtain s2 e2 where w: "AsyncWrite HostLittle s1 (Some [42]) (of_nat (length [42 :: byte])) 0 (Some 9) = (s2, e2)"
    by fastforce
  obtain b where b: "TryToWriteData (s1\<lparr>write_buffer := b\<rparr>) (Some 9) = (s2, e2)" "ByteBuffer_ok b"
    "buf_data b = frame 0 [42]"
    using AsyncWrite_frame [OF ok1, of "Some [42]" "[42]" "of_nat (length [42 :: byte])" HostLittle 0 "Some 9"] w s1(2)
    by (auto simp: append_frame_def ByteBuffer_default_ok)
  have len: "length (frame 0 [42]) = 9" by (simp add: frame_def be32_def)
  then have "Length b = 9" using b length_buf_data by metis
  then have e2: "e2 = [SocketSend (frame 0 [42]) (Some 9)]" using b s1(1) by (auto simp: TryToWriteData_def)
  have c: "list_all send_contract e2" using len e2 by simp
  have "session_step HostLittle ?t s1 (InWrite [42] 0 (Some 9)) s2 e2"
    by (rule session_step.written [OF _ w c]) simp
  from run_snoc [OF run1 this] have run: "session_run HostLittle ?t ?s0 ?ins s2 (e1 @ e2)" by simp
  have "buf_data (write_buffer s2) = []"
    using session_run_spec [OF run Session_new_ok] e2 len s1(3)
    by (simp add: Session_new_def Let_def ByteBuffer_default_ok)
  from wire_roundtrip [OF run this, of "[wire (e1 @ e2)]" _ 1 7 HostBig ?t] run show ?thesis
    by (intro exI [of _ ?ins] exI [of _ s2] exI [of _ "e1 @ e2"])
       (simp del: OnReadEvent.simps add: delivered_def PACKET_TYPE_HEARTBEAT_def PACKET_TYPE_JSON_def
         Session_new_def Let_def)
qed

text \<open>
  C28 (error).  A stream that is out of step never recovers: once two pending bytes are
  not the marks of a header, no later read emits anything, and every byte received is
  kept.  The code for a format error, \<^verbatim>\<open>PARSE_PACKET_FORMAT_ERROR\<close>, is never returned.
\<close>

theorem desynchronised_stream_is_stuck:
  assumes "session_ok s" and "2 \<le> Length (read_buffer s)"
    and "buf_data (read_buffer s) ! 0 \<noteq> HEADER_V \<or> buf_data (read_buffer s) ! 1 \<noteq> HEADER_Z"
  shows "snd (OnReadEvent h tm s recvs) = [] \<and>
    buf_data (read_buffer (fst (OnReadEvent h tm s recvs))) = buf_data (read_buffer s) @ concat recvs"
proof -
  let ?d = "buf_data (read_buffer s) @ concat recvs"
  have "2 \<le> length (buf_data (read_buffer s))" using assms(1,2) by (simp add: session_ok_def)
  then have "frame_at ?d = None" using assms(3) by (auto simp: frame_at_def Let_def nth_append)
  then have pf: "parse_frames ?d = ([], ?d)" by (rule parse_frames_None)
  have "handle_packets tm s [] = (s, [])" by simp
  from OnReadEvent_spec [OF assms(1) pf this, of h] show ?thesis by auto
qed

theorem desynchronised_stream_is_stuck_witness:
  "snd (OnReadEvent HostLittle (\<lambda>n. 0)
     ((fst (Session_new 1 5))\<lparr>read_buffer := WriteBytes ByteBuffer_default [0, 0]\<rparr>) [[1], [2]]) = []"
proof -
  let ?s = "(fst (Session_new 1 5))\<lparr>read_buffer := WriteBytes ByteBuffer_default [0, 0]\<rparr>"
  have d: "ByteBuffer_ok (WriteBytes ByteBuffer_default [0, 0])"
    "buf_data (WriteBytes ByteBuffer_default [0, 0]) = [0, 0]"
    by (simp_all add: bb_laws ByteBuffer_default_ok)
  then have "session_ok ?s"
    using Session_new_ok [of 1 5] by (simp add: session_ok_def frame_at_def HEADER_SIZE_def)
  moreover have "Length (WriteBytes ByteBuffer_default [0, 0]) = 2"
    using d length_buf_data by (metis length_Cons list.size(3) numeral_2_eq_2)
  ultimately show ?thesis
    using desynchronised_stream_is_stuck [of ?s] d(2) by (simp add: HEADER_V_def del: OnReadEvent.simps)
qed

text \<open>
  The heartbeat timer: each tick writes one heartbeat and then either
  closes the session or arms the next tick, never both; it closes exactly when more than
  6000 ms have passed (modulo the wrap of the clock) since the last heartbeat received.
\<close>

theorem heartbeat_tick:
  assumes "Session_OnMessage h tm s sent = (s', events)"
  shows "((ThreadPostDelayed 2000 \<in> set events) \<longleftrightarrow>
      \<not> (ms_start s \<noteq> 0 \<and> 6000 < sint (tm (time_calls s) - ms_start s))) \<and>
    ((SignalSessionCloseEvent (session_id s) 0 (connect_id s) \<in> set events) \<longleftrightarrow>
      ms_start s \<noteq> 0 \<and> 6000 < sint (tm (time_calls s) - ms_start s))"
proof -
  obtain s1 e1 where 1: "AsyncWrite h s None 0 PACKET_TYPE_HEARTBEAT sent = (s1, e1)" by fastforce
  then have s1: "ms_start s1 = ms_start s" "time_calls s1 = time_calls s" "session_id s1 = session_id s"
    "connect_id s1 = connect_id s"
    and e1: "ThreadPostDelayed 2000 \<notin> set e1" "SignalSessionCloseEvent i c k \<notin> set e1" for i c k
    by (auto simp: AsyncWrite_def TryToWriteData_def Let_def split: if_splits option.splits)
  obtain e2 where 2: "AsyncWaitNextHeadrtbeatEvent tm s1 = (s', e2)" "events = e1 @ e2"
    using assms 1 by (auto simp: Session_OnMessage_def WriteHeartbeat_def split: prod.splits)
  have e2: "e2 = (if ms_start s \<noteq> 0 \<and> 6000 < sint (tm (time_calls s) - ms_start s)
      then [SignalSessionCloseEvent (session_id s) 0 (connect_id s)] else [ThreadPostDelayed 2000])"
    using 2(1) s1 by (auto simp: AsyncWaitNextHeadrtbeatEvent_def read_Time_def OnCloseEvent_def Let_def
        DEFAULT_HEADBEAT_TIMEOUT_def TimeDiff_def UinitSocket_def split: if_splits)
  then show ?thesis using e1 2(2) by simp
qed

theorem heartbeat_tick_witness:
  "ThreadPostDelayed 2000 \<in> set (snd (Session_OnMessage HostLittle (\<lambda>n. 5000) (fst (Session_new 1 5)) None))"
  using heartbeat_tick [of HostLittle "\<lambda>n. 5000" "fst (Session_new 1 5)" None, OF surjective_pairing]
  by (simp add: Session_new_def Let_def)

end
