(* ===== verification/Vz_Base64.thy ===== *)
theory Vz_Base64
  imports Vz_Prelude
begin

unbundle bit_operations_syntax

text \<open>
  \<^verbatim>\<open>src/src/base/base64.{h,cpp}\<close>: the Base64 codec the SDK uses for serial data and for
  recognised plates.  Strings and arrays are lists of bytes.  The loops of the source
  run over positions; \<open>encode_list\<close> is the reference encoder on lists.
\<close>

section \<open>Tables and flags\<close>

definition kPad :: byte where "kPad = 0x3D"

definition pd :: byte where "pd = 0xFD"

definition sp :: byte where "sp = 0xFE"

definition il :: byte where "il = 0xFF"

definition Base64Table :: bytes where
  "Base64Table = bytes_of_string ''ABCDEFGHIJKLMNOPQRSTUVWXYZabcdefghijklmnopqrstuvwxyz0123456789+/''"

definition DecodeTable :: bytes where
  "DecodeTable = [
  il, il, il, il, il, il, il, il, il, sp,
  sp, sp, sp, sp, il, il, il, il, il, il,
  il, il, il, il, il, il, il, il, il, il,
  il, il, sp, il, il, il, il, il, il, il,
  il, il, il, 62, il, il, il, 63, 52, 53,
  54, 55, 56, 57, 58, 59, 60, 61, il, il,
  il, pd, il, il, il, 0,  1,  2,  3,  4,
  5,  6,  7,  8,  9,  10, 11, 12, 13, 14,
  15, 16, 17, 18, 19, 20, 21, 22, 23, 24,
  25, il, il, il, il, il, il, 26, 27, 28,
  29, 30, 31, 32, 33, 34, 35, 36, 37, 38,
  39, 40, 41, 42, 43, 44, 45, 46, 47, 48,
  49, 50, 51, il, il, il, il, il, il, il] @ replicate 126 il"

definition DO_PARSE_STRICT :: nat where "DO_PARSE_STRICT = 1"

definition DO_PARSE_WHITE :: nat where "DO_PARSE_WHITE = 2"

definition DO_PARSE_ANY :: nat where "DO_PARSE_ANY = 3"

definition DO_PARSE_MASK :: nat where "DO_PARSE_MASK = 3"

definition DO_PAD_YES :: nat where "DO_PAD_YES = 4"

definition DO_PAD_ANY :: nat where "DO_PAD_ANY = 8"

definition DO_PAD_NO :: nat where "DO_PAD_NO = 12"

definition DO_PAD_MASK :: nat where "DO_PAD_MASK = 12"

definition DO_TERM_BUFFER :: nat where "DO_TERM_BUFFER = 16"

definition DO_TERM_CHAR :: nat where "DO_TERM_CHAR = 32"

definition DO_TERM_ANY :: nat where "DO_TERM_ANY = 48"

definition DO_TERM_MASK :: nat where "DO_TERM_MASK = 48"

definition DO_STRICT :: nat where
  "DO_STRICT = DO_PARSE_STRICT OR DO_PAD_YES OR DO_TERM_BUFFER"

definition DO_LAX :: nat where
  "DO_LAX = DO_PARSE_ANY OR DO_PAD_ANY OR DO_TERM_CHAR"

definition IsBase64Char :: "byte \<Rightarrow> bool" where
  "IsBase64Char ch \<longleftrightarrow>
     (0x41 \<le> ch \<and> ch \<le> 0x5A) \<or> (0x61 \<le> ch \<and> ch \<le> 0x7A) \<or> (0x30 \<le> ch \<and> ch \<le> 0x39) \<or>
     ch = 0x2B \<or> ch = 0x2F"

definition IsBase64Encoded :: "bytes \<Rightarrow> bool" where
  "IsBase64Encoded str = list_all IsBase64Char str"

section \<open>Encoding\<close>

function encode_loop :: "bytes \<Rightarrow> nat \<Rightarrow> bytes" where
  "encode_loop data i =
     (if i < length data then
        let c1 = drop_bit 2 (data ! i) AND 0x3f;
            c2 = push_bit 4 (data ! i) AND 0x3f;
            i1 = i + 1;
            c2' = (if i1 < length data then c2 OR (drop_bit 4 (data ! i1) AND 0x0f) else c2);
            (ch3, i2) =
              (if i1 < length data then
                 let c3 = push_bit 2 (data ! i1) AND 0x3f;
                     j = i1 + 1;
                     c3' = (if j < length data then c3 OR (drop_bit 6 (data ! j) AND 0x03) else c3)
                 in (Base64Table ! unat c3', j)
               else (kPad, i1));
            (ch4, i3) =
              (if i2 < length data then (Base64Table ! unat (data ! i2 AND 0x3f), i2 + 1)
               else (kPad, i2))
        in [Base64Table ! unat c1, Base64Table ! unat c2', ch3, ch4] @ encode_loop data i3
      else [])"
  by pat_completeness auto
termination
  by (relation "measure (\<lambda>(data, i). length data - i)") (auto simp: Let_def split: if_splits)

declare encode_loop.simps [simp del]

definition EncodeFromArray :: "bytes \<Rightarrow> nat \<Rightarrow> bytes" where
  "EncodeFromArray data len = encode_loop (take len data) 0"

definition Base64_Encode :: "bytes \<Rightarrow> bytes" where
  "Base64_Encode data = EncodeFromArray data (length data)"

section \<open>Decoding\<close>

text \<open>
  The scanning loop of \<^verbatim>\<open>GetNextQuantum\<close>: from position \<open>dpos\<close> with \<open>byte_len\<close> sextets and
  \<open>pad_len\<close> pads seen, the first pad at \<open>pad_start\<close>.  A \<^verbatim>\<open>break\<close> returns without advancing.
\<close>

function quantum_loop ::
  "nat \<Rightarrow> bool \<Rightarrow> bytes \<Rightarrow> nat \<Rightarrow> bytes \<Rightarrow> nat \<Rightarrow> nat \<Rightarrow> nat \<Rightarrow> nat \<times> bytes \<times> nat \<times> nat \<times> nat" where
  "quantum_loop parse_flags illegal_pads data dpos qbuf byte_len pad_len pad_start =
     (if byte_len < 4 \<and> dpos < length data then
        let q = DecodeTable ! unat (data ! dpos);
            qbuf' = qbuf[byte_len := q];
            stop = (dpos, qbuf', byte_len, pad_len, pad_start);
            next = quantum_loop parse_flags illegal_pads data (dpos + 1) qbuf'
        in if q = il \<or> (illegal_pads \<and> q = pd) then
             if parse_flags \<noteq> DO_PARSE_ANY then stop else next byte_len pad_len pad_start
           else if q = sp then
             if parse_flags = DO_PARSE_STRICT then stop else next byte_len pad_len pad_start
           else if q = pd then
             if byte_len < 2 then
               if parse_flags \<noteq> DO_PARSE_ANY then stop else next byte_len pad_len pad_start
             else if byte_len + pad_len \<ge> 4 then
               if parse_flags \<noteq> DO_PARSE_ANY then stop else next byte_len pad_len pad_start
             else next byte_len (pad_len + 1) (if pad_len + 1 = 1 then dpos else pad_start)
           else if pad_len > 0 then
             if parse_flags \<noteq> DO_PARSE_ANY then stop else next (byte_len + 1) 0 pad_start
           else next (byte_len + 1) pad_len pad_start
      else (dpos, qbuf, byte_len, pad_len, pad_start))"
  by pat_completeness auto
termination
  by (relation "measure (\<lambda>(pf, ip, data, dpos, q, b, p, ps). length data - dpos)") auto

declare quantum_loop.simps [simp del]

text \<open>The result is the number of sextets, the new position, the sextets and \<^verbatim>\<open>padded\<close>.\<close>

definition GetNextQuantum ::
  "nat \<Rightarrow> bool \<Rightarrow> bytes \<Rightarrow> nat \<Rightarrow> bytes \<Rightarrow> nat \<times> nat \<times> bytes \<times> bool" where
  "GetNextQuantum parse_flags illegal_pads data dpos qbuf =
     (case quantum_loop parse_flags illegal_pads data dpos qbuf 0 0 0 of
        (dpos', qbuf', byte_len, pad_len, pad_start) \<Rightarrow>
          let qbuf'' = take byte_len qbuf' @ replicate (4 - byte_len) 0
          in if byte_len + pad_len = 4 then (byte_len, dpos', qbuf'', True)
             else (byte_len, if pad_len \<noteq> 0 then pad_start else dpos', qbuf'', False))"

lemma quantum_loop_cases:
  assumes "b < 4" and "dpos < length data"
  obtains (stop) qb where "quantum_loop pf ip data dpos qbuf b p ps = (dpos, qb, b, p, ps)"
  | (step) b2 p2 ps2 where "b2 = b \<or> b2 = b + 1 \<and> p2 = 0"
      "quantum_loop pf ip data dpos qbuf b p ps =
       quantum_loop pf ip data (dpos + 1) (qbuf[b := DecodeTable ! unat (data ! dpos)]) b2 p2 ps2"
proof -
  let ?qb = "qbuf[b := DecodeTable ! unat (data ! dpos)]"
  let ?lhs = "quantum_loop pf ip data dpos qbuf b p ps"
  let ?rec = "quantum_loop pf ip data (dpos + 1) ?qb"
  have "?lhs = (dpos, ?qb, b, p, ps) \<or> ?lhs = ?rec b p ps \<or> (\<exists>ps'. ?lhs = ?rec b (p + 1) ps') \<or>
    ?lhs = ?rec (b + 1) 0 ps"
    unfolding quantum_loop.simps [of pf ip data dpos qbuf b p ps]
    using assms by (simp add: Let_def) blast
  then show ?thesis using stop step by metis
qed

lemma quantum_loop_end:
  "\<not> (b < 4 \<and> dpos < length data) \<Longrightarrow> quantum_loop pf ip data dpos qbuf b p ps = (dpos, qbuf, b, p, ps)"
  by (subst quantum_loop.simps) auto

lemma quantum_loop_progress:
  assumes "quantum_loop pf ip data dpos qbuf b p ps = (d', q', b', p', ps')"
    and "b \<le> 4" and "b = 4 \<longrightarrow> p = 0"
  shows "dpos + (b' - b) \<le> d' \<and> b \<le> b' \<and> b' \<le> 4 \<and> (b' = 4 \<longrightarrow> p' = 0)"
  using assms
proof (induction "length data - dpos" arbitrary: dpos qbuf b p ps)
  case (Suc n)
  show ?case
  proof (cases "b < 4")
    case True
    have len: "dpos < length data" using Suc(2) by simp
    from True len show ?thesis
    proof (cases rule: quantum_loop_cases [of b dpos data pf ip qbuf p ps])
      case (step b2 p2 ps2)
      have "n = length data - (dpos + 1)" using Suc(2) by simp
      from Suc(1) [OF this step(2) [symmetric, unfolded Suc(3)]] step(1) True
      have "dpos + 1 + (b' - b2) \<le> d' \<and> b2 \<le> b' \<and> b' \<le> 4 \<and> (b' = 4 \<longrightarrow> p' = 0)" by auto
      with step(1) show ?thesis by linarith
    qed (use Suc(2-) in auto)
  qed (use Suc(2-) quantum_loop_end in auto)
qed (use quantum_loop_end in auto)

lemma GetNextQuantum_progress:
  assumes "GetNextQuantum pf ip data dpos qbuf = (qlen, d', q', padded)"
  shows "qlen \<le> 4" "qlen = 4 \<Longrightarrow> dpos < d'"
proof -
  obtain d1 q1 b1 p1 ps1 where l: "quantum_loop pf ip data dpos qbuf 0 0 0 = (d1, q1, b1, p1, ps1)"
    by (metis prod_cases5)
  have "dpos + b1 \<le> d1" "b1 \<le> 4" "b1 = 4 \<longrightarrow> p1 = 0" using quantum_loop_progress [OF l] by auto
  then show "qlen \<le> 4" "qlen = 4 \<Longrightarrow> dpos < d'"
    using assms l by (auto simp: GetNextQuantum_def Let_def split: if_splits)
qed

text \<open>
  The loop of \<^verbatim>\<open>DecodeFromArrayTemplate\<close>: \<open>out\<close> is the result so far.  It returns the
  result, the final position and the success flag.
\<close>

definition quantum_bytes :: "nat \<Rightarrow> bytes \<Rightarrow> bytes \<times> byte" where
  "quantum_bytes qlen qbuf =
     (let c0 = push_bit 2 (qbuf ! 0) OR (drop_bit 4 (qbuf ! 1) AND 0x3) in
      if qlen \<ge> 2 then
        let c1 = (push_bit 4 (qbuf ! 1) AND 0xf0) OR (drop_bit 2 (qbuf ! 2) AND 0xf) in
        if qlen \<ge> 3 then
          let c2 = (push_bit 6 (qbuf ! 2) AND 0xc0) OR qbuf ! 3 in
          if qlen \<ge> 4 then ([c0, c1, c2], 0) else ([c0, c1], c2)
        else ([c0], c1)
      else ([], c0))"

function decode_loop ::
  "nat \<Rightarrow> nat \<Rightarrow> nat \<Rightarrow> bytes \<Rightarrow> nat \<Rightarrow> bytes \<Rightarrow> bytes \<Rightarrow> bytes \<times> nat \<times> bool" where
  "decode_loop parse_flags pad_flags term_flags data dpos qbuf out =
     (if dpos < length data then
        case GetNextQuantum parse_flags (DO_PAD_NO = pad_flags) data dpos qbuf of
          (qlen, dpos', qbuf', padded) \<Rightarrow>
            case quantum_bytes qlen qbuf' of (bs, c) \<Rightarrow>
              if qlen < 4 then
                (out @ bs, dpos',
                 \<not> (DO_TERM_ANY \<noteq> term_flags \<and> 0 \<noteq> c) \<and> \<not> (DO_PAD_YES = pad_flags \<and> \<not> padded))
              else decode_loop parse_flags pad_flags term_flags data dpos' qbuf' (out @ bs)
      else (out, dpos, True))"
  by pat_completeness auto
termination
proof (relation "measure (\<lambda>(pf, pad, tf, data, dpos, q, out). length data - dpos)", goal_cases)
  case (2 pf pad tf data dpos qbuf out qlen y dpos' z q' padded bs c)
  then have g: "GetNextQuantum pf (DO_PAD_NO = pad) data dpos qbuf = (qlen, dpos', q', padded)" by simp
  from GetNextQuantum_progress [OF g] 2 have "dpos < dpos'" by auto
  with 2 show ?case by simp
qed simp

declare decode_loop.simps [simp del]

text \<open>The result, the number of characters used and the success flag; \<^verbatim>\<open>qbuf\<close> starts undefined.\<close>

definition DecodeFromArray :: "bytes \<Rightarrow> bytes \<Rightarrow> nat \<Rightarrow> nat \<Rightarrow> bytes \<times> nat \<times> bool" where
  "DecodeFromArray qbuf0 data len flags =
     (let parse_flags = flags AND DO_PARSE_MASK;
          pad_flags = flags AND DO_PAD_MASK;
          term_flags = flags AND DO_TERM_MASK in
      case decode_loop parse_flags pad_flags term_flags (take len data) 0 qbuf0 [] of
        (result, dpos, success) \<Rightarrow>
          (result, dpos, if DO_TERM_BUFFER = term_flags \<and> dpos \<noteq> len then False else success))"

definition Base64_Decode :: "bytes \<Rightarrow> bytes \<Rightarrow> nat \<Rightarrow> bytes" where
  "Base64_Decode qbuf0 data flags = fst (DecodeFromArray qbuf0 data (length data) flags)"

section \<open>The reference encoder\<close>

text \<open>The four sextets of up to three bytes, and their characters.\<close>

definition sextets :: "byte \<Rightarrow> byte \<Rightarrow> byte \<Rightarrow> byte list" where
  "sextets a b c =
     [drop_bit 2 a AND 0x3f,
      (push_bit 4 a AND 0x3f) OR (drop_bit 4 b AND 0x0f),
      (push_bit 2 b AND 0x3f) OR (drop_bit 6 c AND 0x03),
      c AND 0x3f]"

definition enc_char :: "byte \<Rightarrow> byte" where
  "enc_char v = Base64Table ! unat v"

fun encode_list :: "bytes \<Rightarrow> bytes" where
  "encode_list [] = []"
| "encode_list [a] = map enc_char (take 2 (sextets a 0 0)) @ [kPad, kPad]"
| "encode_list [a, b] = map enc_char (take 3 (sextets a b 0)) @ [kPad]"
| "encode_list (a # b # c # r) = map enc_char (sextets a b c) @ encode_list r"

lemma drop_nth:
  assumes "drop i xs = a # r"
  shows "i < length xs" "xs ! i = a" "drop (i + 1) xs = r"
proof -
  show i: "i < length xs" using assms by (metis drop_all list.distinct(1) not_le_imp_less)
  then show "xs ! i = a" "drop (i + 1) xs = r" using assms by (simp_all add: Cons_nth_drop_Suc [symmetric])
qed

lemma drop_Nil_le: "drop i xs = [] \<Longrightarrow> \<not> i < length xs"
  by simp

lemma encode_loop_list: "encode_loop data i = encode_list (drop i data)"
proof (induction "drop i data" arbitrary: i rule: encode_list.induct)
  case 1
  then show ?case by (subst encode_loop.simps) simp
next
  case (2 a)
  have d: "drop i data = [a]" using 2 by simp
  note n = drop_nth [OF d] and e = drop_Nil_le [OF drop_nth(3) [OF d]]
  have "encode_loop data (i + 1) = []" using e by (subst encode_loop.simps) simp
  then show ?case unfolding d using n e
    by (subst encode_loop.simps) (simp add: Let_def enc_char_def sextets_def)
next
  case (3 a b)
  have d: "drop i data = [a, b]" using 3 by simp
  note n = drop_nth [OF d] drop_nth [OF drop_nth(3) [OF d]]
  note e = drop_Nil_le [OF n(6)]
  have "encode_loop data (i + 1 + 1) = []" using e by (subst encode_loop.simps) simp
  then show ?case unfolding d using n e
    by (subst encode_loop.simps) (simp add: Let_def enc_char_def sextets_def)
next
  case (4 a b c r)
  have d: "drop i data = a # b # c # r" using 4(2) by simp
  note n = drop_nth [OF d] drop_nth [OF drop_nth(3) [OF d]]
    drop_nth [OF drop_nth(3) [OF drop_nth(3) [OF d]]]
  have "encode_loop data (i + 1 + 1 + 1) = encode_list r" using 4(1) [of "i + 1 + 1 + 1"] n by simp
  then show ?case unfolding d using n
    by (subst encode_loop.simps) (simp add: Let_def enc_char_def sextets_def)
qed

lemma Base64_Encode_list: "Base64_Encode data = encode_list data"
  by (simp add: Base64_Encode_def EncodeFromArray_def encode_loop_list)

section \<open>Decoding what was encoded\<close>

lemma DecodeTable_enc_char:
  assumes "unat v < 64"
  shows "DecodeTable ! unat (enc_char v) = v"
proof -
  have "list_all (\<lambda>n. DecodeTable ! unat (Base64Table ! n) = of_nat n) [0..<64]" by code_simp
  then have "DecodeTable ! unat (Base64Table ! unat v) = of_nat (unat v)"
    using assms by (auto simp: list_all_iff)
  then show ?thesis by (simp add: enc_char_def)
qed

lemma DecodeTable_kPad: "DecodeTable ! unat kPad = pd"
  by code_simp

lemma special_values: "pd \<noteq> il" "pd \<noteq> sp" "sp \<noteq> il"
  "unat v < 64 \<Longrightarrow> v \<noteq> il \<and> v \<noteq> pd \<and> v \<noteq> sp"
  by (auto simp: pd_def il_def sp_def)

lemma sextet_small: "unat (v AND 0x3f :: byte) < 64"
proof -
  have "v AND 0x3f = take_bit 6 v" by (rule byte_eqI) (simp_all add: bit_simps)
  then have "unat (v AND 0x3f) = take_bit 6 (unat v)" by (simp add: unsigned_take_bit_eq)
  then show ?thesis using take_bit_nat_less_exp [of 6 "unat v"] by simp
qed

lemma sextets_small: "v \<in> set (sextets a b c) \<Longrightarrow> unat v < 64"
proof -
  have "(push_bit 4 a AND 0x3f) OR (drop_bit 4 b AND 0x0f) =
      ((push_bit 4 a AND 0x3f) OR (drop_bit 4 b AND 0x0f)) AND 0x3f"
    "(push_bit 2 b AND 0x3f) OR (drop_bit 6 c AND 0x03) =
      ((push_bit 2 b AND 0x3f) OR (drop_bit 6 c AND 0x03)) AND 0x3f"
    by (rule byte_eqI; simp add: bit_simps)+
  then show "v \<in> set (sextets a b c) \<Longrightarrow> unat v < 64"
    using sextet_small by (auto simp: sextets_def) metis+
qed

lemma quantum_char:
  assumes "b < 4" "dpos < length data" "data ! dpos = enc_char v" "unat v < 64"
  shows "quantum_loop pf ip data dpos qbuf b 0 ps =
    quantum_loop pf ip data (dpos + 1) (qbuf[b := v]) (b + 1) 0 ps"
  using assms special_values(4) [of v]
  by (subst quantum_loop.simps) (simp add: Let_def DecodeTable_enc_char)

lemma quantum_pad:
  assumes "2 \<le> b" "b + p < 4" "dpos < length data" "data ! dpos = kPad"
  shows "quantum_loop pf False data dpos qbuf b p ps =
    quantum_loop pf False data (dpos + 1) (qbuf[b := pd]) b (p + 1) (if p = 0 then dpos else ps)"
  using assms special_values
  by (subst quantum_loop.simps) (simp add: Let_def DecodeTable_kPad)

lemma quantum_bytes_sextets:
  "quantum_bytes 4 (sextets a b c) = ([a, b, c], 0)"
  "quantum_bytes 3 (take 3 (sextets a b 0) @ [0]) = ([a, b], 0)"
  "quantum_bytes 2 (take 2 (sextets a 0 0) @ [0, 0]) = ([a], 0)"
  by (simp_all add: quantum_bytes_def sextets_def Let_def)
     ((intro conjI)?; rule byte_eqI; simp add: bit_simps)+

lemma quantum_full:
  assumes "length qbuf = 4" "data = pre @ map enc_char [s0, s1, s2, s3] @ post"
    and "\<forall>v \<in> {s0, s1, s2, s3}. unat v < 64"
  shows "GetNextQuantum pf ip data (length pre) qbuf = (4, length pre + 4, [s0, s1, s2, s3], True)"
proof -
  obtain q0 q1 q2 q3 where q: "qbuf = [q0, q1, q2, q3]" using assms(1)
    by (auto simp: eval_nat_numeral length_Suc_conv)
  show ?thesis using assms(2,3)
    by (simp add: GetNextQuantum_def q quantum_char [where v = s0] quantum_char [where v = s1] quantum_char [where v = s2]
        quantum_char [where v = s3] nth_append quantum_loop_end)
qed

lemma quantum_pad1:
  assumes "length qbuf = 4" "data = pre @ map enc_char [s0, s1, s2] @ [kPad]"
    and "\<forall>v \<in> {s0, s1, s2}. unat v < 64"
  shows "GetNextQuantum pf False data (length pre) qbuf = (3, length pre + 4, [s0, s1, s2, 0], True)"
proof -
  obtain q0 q1 q2 q3 where q: "qbuf = [q0, q1, q2, q3]" using assms(1)
    by (auto simp: eval_nat_numeral length_Suc_conv)
  show ?thesis using assms(2,3)
    by (simp add: GetNextQuantum_def q quantum_char [where v = s0] quantum_char [where v = s1] quantum_char [where v = s2]
        quantum_pad nth_append quantum_loop_end)
qed

lemma quantum_pad2:
  assumes "length qbuf = 4" "data = pre @ map enc_char [s0, s1] @ [kPad, kPad]"
    and "\<forall>v \<in> {s0, s1}. unat v < 64"
  shows "GetNextQuantum pf False data (length pre) qbuf = (2, length pre + 4, [s0, s1, 0, 0], True)"
proof -
  obtain q0 q1 q2 q3 where q: "qbuf = [q0, q1, q2, q3]" using assms(1)
    by (auto simp: eval_nat_numeral length_Suc_conv)
  show ?thesis using assms(2,3)
    by (simp add: GetNextQuantum_def q quantum_char [where v = s0] quantum_char [where v = s1]
        quantum_pad nth_append quantum_loop_end numeral_2_eq_2)
qed

lemma sextets_conv: "\<exists>s0 s1 s2 s3. sextets a b c = [s0, s1, s2, s3] \<and> (\<forall>v \<in> {s0, s1, s2, s3}. unat v < 64)"
  using sextets_small [of _ a b c] by (auto simp: sextets_def)

lemma decode_encode_loop:
  assumes "pad \<noteq> DO_PAD_NO" and "length qbuf = 4"
  shows "decode_loop pf pad tf (pre @ encode_list ds) (length pre) qbuf out =
    (out @ ds, length (pre @ encode_list ds), True)"
  using assms(2)
proof (induction ds arbitrary: pre qbuf out rule: encode_list.induct)
  case 1
  then show ?case by (subst decode_loop.simps) simp
next
  case (2 a)
  obtain s0 s1 s2 s3 where s: "sextets a 0 0 = [s0, s1, s2, s3]" "\<forall>v \<in> {s0, s1, s2, s3}. unat v < 64"
    using sextets_conv by blast
  note q = quantum_pad2 [OF 2 refl, where pre = pre and pf = pf and ?s0.0 = s0 and ?s1.0 = s1]
  show ?case
    using q s assms(1) quantum_bytes_sextets(3) [of a]
    by (subst decode_loop.simps) simp
next
  case (3 a b)
  obtain s0 s1 s2 s3 where s: "sextets a b 0 = [s0, s1, s2, s3]" "\<forall>v \<in> {s0, s1, s2, s3}. unat v < 64"
    using sextets_conv by blast
  note q = quantum_pad1 [OF 3 refl, where pre = pre and pf = pf and ?s0.0 = s0 and ?s1.0 = s1 and ?s2.0 = s2]
  show ?case
    using q s assms(1) quantum_bytes_sextets(2) [of a b]
    by (subst decode_loop.simps) simp
next
  case (4 a b c r)
  obtain s0 s1 s2 s3 where s: "sextets a b c = [s0, s1, s2, s3]" "\<forall>v \<in> {s0, s1, s2, s3}. unat v < 64"
    using sextets_conv by blast
  let ?p = "pre @ map enc_char [s0, s1, s2, s3]"
  note q = quantum_full [OF 4(2) refl, where pre = pre and pf = pf and ip = "DO_PAD_NO = pad"
      and ?s0.0 = s0 and ?s1.0 = s1 and ?s2.0 = s2 and ?s3.0 = s3 and post = "encode_list r"]
  have "decode_loop pf pad tf (pre @ encode_list (a # b # c # r)) (length pre) qbuf out =
      decode_loop pf pad tf (?p @ encode_list r) (length pre + 4) [s0, s1, s2, s3] (out @ [a, b, c])"
    using q s quantum_bytes_sextets(1) [of a b c]
    by (subst decode_loop.simps) simp
  also have "\<dots> = (out @ [a, b, c] @ r, length (?p @ encode_list r), True)"
    using 4(1) [of "[s0, s1, s2, s3]" ?p "out @ [a, b, c]"] by (simp add: numeral_eq_Suc)
  finally show ?case using s by simp
qed

lemma length_encode_list: "length (encode_list ds) = (length ds + 2) div 3 * 4"
proof (induction ds rule: encode_list.induct)
  case (4 a b c r)
  have "(length (a # b # c # r) + 2) div 3 = (length r + 2 + 3) div 3" by simp
  also have "\<dots> = (length r + 2) div 3 + 1" by (rule div_add_self2) simp
  finally show ?case using 4 by (simp add: sextets_def)
qed (simp_all add: sextets_def)

text \<open>
  C27 (round trip).  Every byte string is recovered from its Base64 encoding, which has
  four characters for every three bytes or part of them: the decoder consumes all of it
  and succeeds under every combination of flags that does not forbid padding.
\<close>

theorem base64_roundtrip:
  assumes "length qbuf0 = 4" and "flags AND DO_PAD_MASK \<noteq> DO_PAD_NO"
  shows "DecodeFromArray qbuf0 (Base64_Encode data) (length (Base64_Encode data)) flags =
      (data, length (Base64_Encode data), True) \<and>
    length (Base64_Encode data) = (length data + 2) div 3 * 4"
  using decode_encode_loop [OF assms(2,1), of _ _ "[]" data "[]"]
  by (simp add: DecodeFromArray_def Base64_Encode_list length_encode_list Let_def)

theorem base64_roundtrip_witness:
  "DecodeFromArray [0, 0, 0, 0] (Base64_Encode [77, 97]) (length (Base64_Encode [77, 97])) DO_STRICT =
     ([77, 97], 4, True)"
  using base64_roundtrip [of "[0, 0, 0, 0]" DO_STRICT "[77, 97]"]
  by (auto simp: DO_STRICT_def DO_PARSE_STRICT_def DO_PAD_YES_def DO_TERM_BUFFER_def DO_PAD_MASK_def DO_PAD_NO_def)

lemma enc_char_base64: "unat v < 64 \<Longrightarrow> IsBase64Char (enc_char v)"
proof -
  have "list_all (\<lambda>n. IsBase64Char (Base64Table ! n)) [0..<64]" by code_simp
  then show "unat v < 64 \<Longrightarrow> IsBase64Char (enc_char v)" by (auto simp: list_all_iff enc_char_def)
qed

text \<open>
  The encoding consists of characters of the Base64 alphabet, followed by
  at most two pads, and of no pad when the length of the data is a multiple of three.
\<close>

lemma base64_encoding_alphabet:
  "\<exists>body pads. Base64_Encode data = body @ replicate pads kPad \<and> IsBase64Encoded body \<and> pads \<le> 2 \<and>
     (pads = 0 \<longleftrightarrow> length data mod 3 = 0)"
  unfolding Base64_Encode_list
proof (induction data rule: encode_list.induct)
  case 1
  show ?case by (rule exI [of _ "[]"], rule exI [of _ 0]) (simp add: IsBase64Encoded_def)
next
  case (2 a)
  have "IsBase64Encoded (map enc_char (take 2 (sextets a 0 0)))"
    using sextets_small [of _ a 0 0] enc_char_base64 by (auto simp: IsBase64Encoded_def list_all_iff dest: in_set_takeD)
  then show ?case
    by (intro exI [of _ "map enc_char (take 2 (sextets a 0 0))"] exI [of _ 2]) (simp add: numeral_2_eq_2)
next
  case (3 a b)
  have "IsBase64Encoded (map enc_char (take 3 (sextets a b 0)))"
    using sextets_small [of _ a b 0] enc_char_base64 by (auto simp: IsBase64Encoded_def list_all_iff dest: in_set_takeD)
  then show ?case
    by (intro exI [of _ "map enc_char (take 3 (sextets a b 0))"] exI [of _ 1]) simp
next
  case (4 a b c r)
  then obtain body pads where "encode_list r = body @ replicate pads kPad" "IsBase64Encoded body"
    "pads \<le> 2" "(pads = 0) = (length r mod 3 = 0)" by (elim exE conjE)
  moreover have "length (a # b # c # r) mod 3 = length r mod 3" by simp
  moreover have "IsBase64Encoded (map enc_char (sextets a b c))"
    using sextets_small [of _ a b c] enc_char_base64 by (auto simp: IsBase64Encoded_def list_all_iff)
  ultimately show ?case
    by (intro exI [of _ "map enc_char (sextets a b c) @ body"] exI [of _ pads])
       (simp add: IsBase64Encoded_def)
qed

text \<open>What clients that pass the encoding as a C string rely on.\<close>

lemma base64_no_NUL: "0 \<notin> set (Base64_Encode data)"
proof -
  obtain body pads where b: "Base64_Encode data = body @ replicate pads kPad" "IsBase64Encoded body"
    using base64_encoding_alphabet [of data] by blast
  have "\<not> IsBase64Char 0" "kPad \<noteq> 0" by (simp_all add: IsBase64Char_def kPad_def)
  with b show ?thesis by (auto simp: IsBase64Encoded_def list_all_iff)
qed

lemma decode_lax_encode:
  assumes "length qbuf0 = 4"
  shows "fst (DecodeFromArray qbuf0 (Base64_Encode data) (length (Base64_Encode data)) DO_LAX) = data"
proof -
  have "DO_LAX AND DO_PAD_MASK \<noteq> DO_PAD_NO"
    by (simp add: DO_LAX_def DO_PARSE_ANY_def DO_PAD_ANY_def DO_TERM_CHAR_def DO_PAD_MASK_def DO_PAD_NO_def)
  from decode_encode_loop [OF this assms, of _ _ "[]" data "[]"] show ?thesis
    by (simp add: DecodeFromArray_def Base64_Encode_list length_encode_list Let_def)
qed

end
