(* ===== verification/Vz_Messagequeue.thy ===== *)
theory Vz_Messagequeue
  imports Vz_Timeutils "HOL-Library.Product_Lexorder" "HOL-Library.Multiset"
begin

text \<open>
  \<^verbatim>\<open>src/src/event/messagequeue.{h,cpp}\<close>: the message queue every thread of the SDK runs on.
  Posted messages wait in a list; delayed messages wait in a \<^verbatim>\<open>std::priority_queue\<close>, which
  is a list kept in the order in which \<^verbatim>\<open>top\<close> and \<^verbatim>\<open>pop\<close> return the elements.  Handlers are
  numbered, \<open>None\<close> is the null pointer; the type of the message data is a parameter.
  Every operation runs under the queue's critical section, so it is one step.  The clock
  is an argument, and \<open>wakeups\<close> counts the calls to \<^verbatim>\<open>ss_->WakeUp()\<close>.
\<close>

section \<open>Messages\<close>

definition MQID_ANY :: uint32 where "MQID_ANY = - 1"

definition MQID_DISPOSE :: uint32 where "MQID_DISPOSE = - 2"

definition kMaxMsgLatency :: uint32 where "kMaxMsgLatency = 150"

definition kForever :: int where "kForever = - 1"

record 'd Message =
  phandler :: "nat option"
  message_id :: uint32
  pdata :: "'d option"
  ts_sensitive :: uint32

definition Message_zero :: "'d Message" where
  "Message_zero = \<lparr>phandler = None, message_id = 0, pdata = None, ts_sensitive = 0\<rparr>"

definition Match :: "'d Message \<Rightarrow> nat option \<Rightarrow> uint32 \<Rightarrow> bool" where
  "Match m handler i \<longleftrightarrow>
     (handler = None \<or> handler = phandler m) \<and> (i = MQID_ANY \<or> i = message_id m)"

record 'd DelayedMessage =
  cmsDelay :: int
  msTrigger :: uint32
  num :: uint32
  dmsg :: "'d Message"

definition DelayedMessage_less :: "'d DelayedMessage \<Rightarrow> 'd DelayedMessage \<Rightarrow> bool" where
  "DelayedMessage_less a d \<longleftrightarrow>
     msTrigger d < msTrigger a \<or> (msTrigger d = msTrigger a \<and> num d < num a)"

section \<open>The priority queue of delayed messages\<close>

text \<open>
  \<^verbatim>\<open>top\<close> is the greatest element with respect to \<^verbatim>\<open>operator<\<close>.  The list holds the
  elements from the greatest to the smallest; \<^verbatim>\<open>push\<close> inserts at its place.
\<close>

fun pq_push :: "'d DelayedMessage \<Rightarrow> 'd DelayedMessage list \<Rightarrow> 'd DelayedMessage list" where
  "pq_push x [] = [x]"
| "pq_push x (y # ys) = (if DelayedMessage_less y x then x # y # ys else y # pq_push x ys)"

section \<open>State and operations\<close>

record 'd MessageQueue =
  fStop :: bool
  fPeekKeep :: bool
  msgPeek :: "'d Message"
  active :: bool
  msgq :: "'d Message list"
  dmsgq :: "'d DelayedMessage list"
  dmsgq_next_num :: uint32
  wakeups :: nat

definition MessageQueue_new :: "'d MessageQueue" where
  "MessageQueue_new =
     \<lparr>fStop = False, fPeekKeep = False, msgPeek = Message_zero, active = False,
      msgq = [], dmsgq = [], dmsgq_next_num = 0, wakeups = 0\<rparr>"

definition EnsureActive :: "'d MessageQueue \<Rightarrow> 'd MessageQueue" where
  "EnsureActive q = (if \<not> active q then q\<lparr>active := True\<rparr> else q)"

definition WakeUp :: "'d MessageQueue \<Rightarrow> 'd MessageQueue" where
  "WakeUp q = q\<lparr>wakeups := wakeups q + 1\<rparr>"

definition Quit :: "'d MessageQueue \<Rightarrow> 'd MessageQueue" where
  "Quit q = WakeUp (q\<lparr>fStop := True\<rparr>)"

definition IsQuitting :: "'d MessageQueue \<Rightarrow> bool" where
  "IsQuitting q = fStop q"

definition Restart :: "'d MessageQueue \<Rightarrow> 'd MessageQueue" where
  "Restart q = q\<lparr>fStop := False\<rparr>"

definition Post ::
  "uint32 \<Rightarrow> 'd MessageQueue \<Rightarrow> nat option \<Rightarrow> uint32 \<Rightarrow> 'd option \<Rightarrow> bool \<Rightarrow> 'd MessageQueue" where
  "Post now q handler i data time_sensitive =
     (if fStop q then q
      else let q1 = EnsureActive q;
               msg = \<lparr>phandler = handler, message_id = i, pdata = data,
                      ts_sensitive = (if time_sensitive then now + kMaxMsgLatency else 0)\<rparr>
           in WakeUp (q1\<lparr>msgq := msgq q1 @ [msg]\<rparr>))"

definition DoDelayPost ::
  "'d MessageQueue \<Rightarrow> int \<Rightarrow> uint32 \<Rightarrow> nat option \<Rightarrow> uint32 \<Rightarrow> 'd option \<Rightarrow> 'd MessageQueue" where
  "DoDelayPost q delay tstamp handler i data =
     (if fStop q then q
      else let q1 = EnsureActive q;
               msg = \<lparr>phandler = handler, message_id = i, pdata = data, ts_sensitive = 0\<rparr>;
               dm = \<lparr>cmsDelay = delay, msTrigger = tstamp, num = dmsgq_next_num q1, dmsg = msg\<rparr>
           in WakeUp (q1\<lparr>dmsgq := pq_push dm (dmsgq q1), dmsgq_next_num := dmsgq_next_num q1 + 1\<rparr>))"

definition PostDelayed ::
  "uint32 \<Rightarrow> 'd MessageQueue \<Rightarrow> int32 \<Rightarrow> nat option \<Rightarrow> uint32 \<Rightarrow> 'd option \<Rightarrow> 'd MessageQueue" where
  "PostDelayed now q delay handler i data =
     DoDelayPost q (sint delay) (TimeAfter now delay) handler i data"

definition PostAt ::
  "uint32 \<Rightarrow> 'd MessageQueue \<Rightarrow> uint32 \<Rightarrow> nat option \<Rightarrow> uint32 \<Rightarrow> 'd option \<Rightarrow> 'd MessageQueue" where
  "PostAt now q tstamp handler i data = DoDelayPost q (TimeUntil now tstamp) tstamp handler i data"

definition GetDelay :: "uint32 \<Rightarrow> 'd MessageQueue \<Rightarrow> int" where
  "GetDelay now q =
     (if msgq q \<noteq> [] then 0
      else case dmsgq q of
             d # _ \<Rightarrow> (let delay = TimeUntil now (msTrigger d) in if delay < 0 then 0 else delay)
           | [] \<Rightarrow> kForever)"

definition mq_size :: "'d MessageQueue \<Rightarrow> nat" where
  "mq_size q = length (msgq q) + length (dmsgq q) + (if fPeekKeep q then 1 else 0)"

text \<open>
  \<^verbatim>\<open>Clear\<close> returns what it appends to \<^verbatim>\<open>removed\<close>; the delayed messages come in the order
  of the heap's array in the source, which the standard leaves open.
\<close>

definition MessageQueue_Clear ::
  "'d MessageQueue \<Rightarrow> nat option \<Rightarrow> uint32 \<Rightarrow> 'd MessageQueue \<times> 'd Message list" where
  "MessageQueue_Clear q handler i =
     (let hit = (\<lambda>m. Match m handler i);
          peeked = (if fPeekKeep q \<and> hit (msgPeek q) then [msgPeek q] else [])
      in (q\<lparr>fPeekKeep := fPeekKeep q \<and> \<not> hit (msgPeek q),
            msgq := filter (\<lambda>m. \<not> hit m) (msgq q),
            dmsgq := filter (\<lambda>d. \<not> hit (dmsg d)) (dmsgq q)\<rparr>,
          peeked @ filter hit (msgq q) @ map dmsg (filter (\<lambda>d. hit (dmsg d)) (dmsgq q))))"

section \<open>Getting a message\<close>

text \<open>The first pass: move the triggered messages to the list, and note the next delay.\<close>

fun trigger_delayed ::
  "uint32 \<Rightarrow> 'd Message list \<Rightarrow> 'd DelayedMessage list \<Rightarrow> 'd Message list \<times> 'd DelayedMessage list \<times> int" where
  "trigger_delayed msCurrent ms [] = (ms, [], kForever)"
| "trigger_delayed msCurrent ms (d # ds) =
     (if TimeIsLater msCurrent (msTrigger d) then (ms, d # ds, TimeDiff (msTrigger d) msCurrent)
      else trigger_delayed msCurrent (ms @ [dmsg d]) ds)"

text \<open>The following passes: take messages off the list, dropping the dispose messages.\<close>

fun pull_message :: "'d Message list \<Rightarrow> 'd Message option \<times> 'd Message list" where
  "pull_message [] = (None, [])"
| "pull_message (m # ms) = (if MQID_DISPOSE = message_id m then pull_message ms else (Some m, ms))"

definition next_wait :: "int \<Rightarrow> int \<Rightarrow> int \<Rightarrow> int" where
  "next_wait cmsWait cmsElapsed cmsDelayNext =
     (if cmsWait = kForever then cmsDelayNext
      else let cmsNext = max 0 (cmsWait - cmsElapsed) in
           if cmsDelayNext \<noteq> kForever \<and> cmsDelayNext < cmsNext then cmsDelayNext else cmsNext)"

text \<open>
  What the environment does in one call of \<^verbatim>\<open>ss_->Wait\<close>: its result, what other threads do
  to the queue meanwhile, and the clock afterwards.  \<^verbatim>\<open>Get\<close> may wait for ever, so it takes
  a finite list of waits; \<open>Waiting\<close> is the outcome when they are used up.
\<close>

record 'd wait_round =
  wait_ok :: bool
  interfere :: "'d MessageQueue \<Rightarrow> 'd MessageQueue"
  clock_after :: uint32

datatype 'd get_outcome = Got_message "'d Message" | Got_nothing | Waiting int

fun get_loop ::
  "int \<Rightarrow> uint32 \<Rightarrow> uint32 \<Rightarrow> int \<Rightarrow> 'd wait_round list \<Rightarrow> 'd MessageQueue \<Rightarrow> 'd get_outcome \<times> 'd MessageQueue" where
  "get_loop cmsWait msStart msCurrent cmsElapsed rounds q =
     (case trigger_delayed msCurrent (msgq q) (dmsgq q) of (ms, ds, cmsDelayNext) \<Rightarrow>
        (case pull_message ms of (found, ms') \<Rightarrow>
          (let q1 = q\<lparr>msgq := ms', dmsgq := ds\<rparr> in
           case found of
             Some m \<Rightarrow> (Got_message m, q1)
           | None \<Rightarrow>
               (if fStop q1 then (Got_nothing, q1)
                else (case rounds of
                        [] \<Rightarrow> (Waiting (next_wait cmsWait cmsElapsed cmsDelayNext), q1)
                      | r # rs \<Rightarrow>
                          (let q2 = interfere r q1 in
                           if \<not> wait_ok r then (Got_nothing, q2)
                           else let now = clock_after r;
                                    elapsed = TimeDiff now msStart
                                in if cmsWait \<noteq> kForever \<and> elapsed \<ge> cmsWait then (Got_nothing, q2)
                                   else get_loop cmsWait msStart now elapsed rs q2))))))"

declare get_loop.simps [simp del]

definition mq_Get ::
  "uint32 \<Rightarrow> int \<Rightarrow> 'd wait_round list \<Rightarrow> 'd MessageQueue \<Rightarrow> 'd get_outcome \<times> 'd MessageQueue" where
  "mq_Get now cmsWait rounds q =
     (if fPeekKeep q then (Got_message (msgPeek q), q\<lparr>fPeekKeep := False\<rparr>)
      else get_loop cmsWait now now 0 rounds q)"

definition mq_Peek ::
  "uint32 \<Rightarrow> int \<Rightarrow> 'd wait_round list \<Rightarrow> 'd MessageQueue \<Rightarrow> 'd get_outcome \<times> 'd MessageQueue" where
  "mq_Peek now cmsWait rounds q =
     (if fPeekKeep q then (Got_message (msgPeek q), q)
      else case mq_Get now cmsWait rounds q of
             (Got_message m, q1) \<Rightarrow> (Got_message m, q1\<lparr>msgPeek := m, fPeekKeep := True\<rparr>)
           | (r, q1) \<Rightarrow> (r, q1))"

section \<open>The manager of the active queues\<close>

text \<open>\<open>None\<close>: there is no instance; otherwise the queues of the global list, by number.\<close>

type_synonym manager = "nat list option"

definition Manager_Instance :: "manager \<Rightarrow> nat list" where
  "Manager_Instance m = (case m of None \<Rightarrow> [] | Some qs \<Rightarrow> qs)"

definition Manager_Add :: "manager \<Rightarrow> nat \<Rightarrow> manager" where
  "Manager_Add m message_queue = Some (Manager_Instance m @ [message_queue])"

definition Manager_Remove :: "manager \<Rightarrow> nat \<Rightarrow> manager" where
  "Manager_Remove m message_queue =
     (case m of None \<Rightarrow> None
      | Some qs \<Rightarrow> let qs' = remove1 message_queue qs in if qs' = [] then None else Some qs')"

definition Manager_Clear ::
  "manager \<Rightarrow> nat option \<Rightarrow> (nat \<Rightarrow> 'd MessageQueue) \<Rightarrow> nat \<Rightarrow> 'd MessageQueue" where
  "Manager_Clear m handler queues =
     (case m of None \<Rightarrow> queues
      | Some qs \<Rightarrow> fold (\<lambda>q qm. qm(q := fst (MessageQueue_Clear (qm q) handler MQID_ANY))) qs queues)"

text \<open>\<^verbatim>\<open>EnsureActive\<close> and the destructor of the queue number \<open>k\<close>, with their effect on the manager.\<close>

definition Manager_EnsureActive ::
  "nat \<Rightarrow> manager \<times> (nat \<Rightarrow> 'd MessageQueue) \<Rightarrow> manager \<times> (nat \<Rightarrow> 'd MessageQueue)" where
  "Manager_EnsureActive k sys =
     (case sys of (m, qs) \<Rightarrow>
        (if \<not> active (qs k) then Manager_Add m k else m, qs(k := EnsureActive (qs k))))"

definition MessageQueue_destroy ::
  "nat \<Rightarrow> manager \<times> (nat \<Rightarrow> 'd MessageQueue) \<Rightarrow> manager \<times> (nat \<Rightarrow> 'd MessageQueue)" where
  "MessageQueue_destroy k sys =
     (case sys of (m, qs) \<Rightarrow>
        (if active (qs k) then Manager_Remove m k else m, qs(k := MessageQueue_new)))"

section \<open>The interface of the priority queue\<close>

text \<open>
  What the queue relies on: \<^verbatim>\<open>push\<close> adds one element and the list of what successive
  \<^verbatim>\<open>pop\<close>s return is ordered by \<^verbatim>\<open>operator<\<close>.
\<close>

locale priority_queue =
  fixes inv :: "'q \<Rightarrow> bool" and elems :: "'q \<Rightarrow> 'e list" and push :: "'e \<Rightarrow> 'q \<Rightarrow> 'q"
    and less :: "'e \<Rightarrow> 'e \<Rightarrow> bool"
  assumes inv_push: "inv q \<Longrightarrow> inv (push x q)"
    and elems_push: "inv q \<Longrightarrow> mset (elems (push x q)) = add_mset x (mset (elems q))"
    and ordered: "inv q \<Longrightarrow> sorted_wrt (\<lambda>a b. \<not> less a b) (elems q)"
begin

lemma push_all: "inv q \<Longrightarrow> inv (fold push xs q) \<and> mset (elems (fold push xs q)) = mset xs + mset (elems q)"
  by (induction xs arbitrary: q) (auto simp: inv_push elems_push)

lemma top_greatest: "inv q \<Longrightarrow> elems q = x # r \<Longrightarrow> y \<in> set r \<Longrightarrow> \<not> less x y"
  using ordered by fastforce

end

definition dm_key :: "'d DelayedMessage \<Rightarrow> uint32 \<times> uint32" where
  "dm_key d = (msTrigger d, num d)"

lemma DelayedMessage_less_key: "DelayedMessage_less a d \<longleftrightarrow> dm_key d < dm_key a"
  by (auto simp: DelayedMessage_less_def dm_key_def less_prod_def')

definition pq_ok :: "'d DelayedMessage list \<Rightarrow> bool" where
  "pq_ok ds \<longleftrightarrow> sorted (map dm_key ds)"

lemma mset_pq_push [simp]: "mset (pq_push x ds) = add_mset x (mset ds)"
  by (induction ds) auto

lemma set_pq_push [simp]: "set (pq_push x ds) = insert x (set ds)"
  by (metis mset_pq_push set_mset_add_mset_insert set_mset_mset)

lemma pq_ok_push: "pq_ok ds \<Longrightarrow> pq_ok (pq_push x ds)"
  by (induction ds) (auto simp: pq_ok_def DelayedMessage_less_key)

interpretation dq: priority_queue pq_ok "\<lambda>ds. ds" pq_push DelayedMessage_less
proof
  fix ds :: "'d DelayedMessage list"
  assume "pq_ok ds"
  then show "sorted_wrt (\<lambda>a b. \<not> DelayedMessage_less a b) ds"
    by (simp add: pq_ok_def sorted_map DelayedMessage_less_key not_less)
qed (simp_all add: pq_ok_push)

section \<open>The abstract queue\<close>

text \<open>
  Which messages \<^verbatim>\<open>Get\<close> can return at time \<open>now\<close>, in order: the posted ones, then the
  delayed ones up to the first that has not triggered, without the dispose messages.
\<close>

definition due :: "uint32 \<Rightarrow> 'd DelayedMessage \<Rightarrow> bool" where
  "due now d \<longleftrightarrow> \<not> TimeIsLater now (msTrigger d)"

definition live :: "'d Message \<Rightarrow> bool" where
  "live m \<longleftrightarrow> message_id m \<noteq> MQID_DISPOSE"

definition pending :: "uint32 \<Rightarrow> 'd MessageQueue \<Rightarrow> 'd Message list" where
  "pending now q = filter live (msgq q @ map dmsg (takeWhile (due now) (dmsgq q)))"

lemma trigger_delayed_spec:
  "trigger_delayed now ms ds =
     (ms @ map dmsg (takeWhile (due now) ds), dropWhile (due now) ds,
      case dropWhile (due now) ds of [] \<Rightarrow> kForever | d # _ \<Rightarrow> TimeDiff (msTrigger d) now)"
  by (induction now ms ds rule: trigger_delayed.induct) (auto simp: due_def)

lemma pull_message_spec:
  "pull_message ms = (case filter live ms of [] \<Rightarrow> (None, []) | m # _ \<Rightarrow> (Some m, tl (dropWhile (Not \<circ> live) ms)))"
  by (induction ms) (auto simp: live_def split: list.splits)

lemma filter_tl_dropWhile: "filter P (tl (dropWhile (Not \<circ> P) xs)) = tl (filter P xs)"
  by (induction xs) auto

lemma dropWhile_due: "takeWhile P (dropWhile P xs) = []"
  by (induction xs) auto

text \<open>The queue after the scan at time \<open>now\<close>.\<close>

definition scanned :: "uint32 \<Rightarrow> 'd MessageQueue \<Rightarrow> 'd MessageQueue" where
  "scanned now q = q\<lparr>msgq := snd (pull_message (msgq q @ map dmsg (takeWhile (due now) (dmsgq q)))),
                     dmsgq := dropWhile (due now) (dmsgq q)\<rparr>"

lemma pending_scanned: "pending now (scanned now q) = tl (pending now q)"
  by (auto simp: pending_def scanned_def dropWhile_due pull_message_spec filter_tl_dropWhile
      simp del: filter_append split: list.splits)

lemma get_loop_message:
  "pending now q = m # ms \<Longrightarrow> get_loop w st now el rounds q = (Got_message m, scanned now q)"
  by (subst get_loop.simps)
     (auto simp: trigger_delayed_spec pull_message_spec pending_def scanned_def Let_def
      simp del: filter_append split: list.splits)

lemma get_loop_empty:
  assumes "pending now q = []"
  shows "get_loop w st now el rounds q =
     (if fStop q then (Got_nothing, scanned now q)
      else case rounds of
             [] \<Rightarrow> (Waiting (next_wait w el (case dropWhile (due now) (dmsgq q) of [] \<Rightarrow> kForever
                                           | d # _ \<Rightarrow> TimeDiff (msTrigger d) now)), scanned now q)
           | r # rs \<Rightarrow>
               let q2 = interfere r (scanned now q); elapsed = TimeDiff (clock_after r) st in
               if \<not> wait_ok r then (Got_nothing, q2)
               else if w \<noteq> kForever \<and> elapsed \<ge> w then (Got_nothing, q2)
               else get_loop w st (clock_after r) elapsed rs q2)"
  using assms
  by (subst get_loop.simps)
     (auto simp: trigger_delayed_spec pull_message_spec pending_def scanned_def Let_def
      simp del: filter_append split: list.splits)

text \<open>
  C17 (refinement).  The queue behaves as the list \<open>pending\<close>: \<^verbatim>\<open>Get\<close> returns its head and
  leaves its tail, whatever the timeout, and returns no message while it is empty and no
  other thread posts; \<^verbatim>\<open>Post\<close> puts a message behind every message already posted.
\<close>

theorem get_refines_pending_list:
  assumes "\<not> fPeekKeep q"
  shows "(\<forall>m ms. pending now q = m # ms \<longrightarrow>
      (\<exists>q'. mq_Get now cmsWait rounds q = (Got_message m, q') \<and> pending now q' = ms)) \<and>
    (pending now q = [] \<longrightarrow> (\<forall>m. fst (mq_Get now cmsWait [] q) \<noteq> Got_message m)) \<and>
    (\<not> fStop q \<and> i \<noteq> MQID_DISPOSE \<longrightarrow>
      (\<exists>m. phandler m = handler \<and> message_id m = i \<and> pdata m = data \<and>
       pending now (Post clock q handler i data sensitive) =
         filter live (msgq q) @ [m] @ filter live (map dmsg (takeWhile (due now) (dmsgq q)))))"
proof (intro conjI impI allI)
  fix m ms assume "pending now q = m # ms"
  then show "\<exists>q'. mq_Get now cmsWait rounds q = (Got_message m, q') \<and> pending now q' = ms"
    using assms by (simp add: mq_Get_def get_loop_message pending_scanned)
next
  fix m assume "pending now q = []"
  then show "fst (mq_Get now cmsWait [] q) \<noteq> Got_message m"
    using assms by (simp add: mq_Get_def get_loop_empty)
next
  assume "\<not> fStop q \<and> i \<noteq> MQID_DISPOSE"
  then show "\<exists>m. phandler m = handler \<and> message_id m = i \<and> pdata m = data \<and>
       pending now (Post clock q handler i data sensitive) =
         filter live (msgq q) @ [m] @ filter live (map dmsg (takeWhile (due now) (dmsgq q)))"
    by (intro exI [of _ "\<lparr>phandler = handler, message_id = i, pdata = data,
             ts_sensitive = (if sensitive then clock + kMaxMsgLatency else 0)\<rparr>"])
       (simp add: Post_def pending_def EnsureActive_def WakeUp_def Let_def live_def)
qed

theorem get_refines_pending_list_witness:
  "\<exists>q'. mq_Get 9 kForever [] (Post 0 (MessageQueue_new :: nat MessageQueue) (Some 4) 1 None False) =
      (Got_message \<lparr>phandler = Some 4, message_id = 1, pdata = None, ts_sensitive = 0\<rparr>, q')"
  using get_refines_pending_list [of "Post 0 (MessageQueue_new :: nat MessageQueue) (Some 4) 1 None False"
      9 kForever "[]" 0 None None 0 False]
  by (auto simp: MessageQueue_new_def Post_def pending_def EnsureActive_def WakeUp_def live_def Let_def
      MQID_DISPOSE_def)

section \<open>Delayed messages\<close>

text \<open>The clock and the triggers lie in one half period that does not cross zero.\<close>

definition no_wrap :: "nat \<Rightarrow> uint32 \<Rightarrow> 'd DelayedMessage list \<Rightarrow> bool" where
  "no_wrap lo now ds \<longleftrightarrow>
     lo \<le> unat now \<and> unat now < lo + 2 ^ 31 \<and>
     list_all (\<lambda>d. lo \<le> unat (msTrigger d) \<and> unat (msTrigger d) < lo + 2 ^ 31) ds"

lemma due_no_wrap:
  assumes "no_wrap lo now ds" and "d \<in> set ds"
  shows "due now d \<longleftrightarrow> msTrigger d \<le> now"
proof -
  have w: "lo \<le> unat now" "unat now < lo + 2 ^ 31" "lo \<le> unat (msTrigger d)" "unat (msTrigger d) < lo + 2 ^ 31"
    using assms by (auto simp: no_wrap_def list_all_iff)
  show ?thesis
    using w unat_less32 [of now] unat_less32 [of "msTrigger d"]
    by (auto simp: due_def TimeIsLater_iff unat_sub32 word_le_nat_alt word_unat_eq_iff)
qed

lemma takeWhile_sorted_filter:
  "sorted (map f xs) \<Longrightarrow> takeWhile (\<lambda>x. f x \<le> c) xs = filter (\<lambda>x. f x \<le> c) xs"
proof (induction xs)
  case (Cons x xs)
  then show ?case
  proof (cases "f x \<le> c")
    case False
    then have "filter (\<lambda>x. f x \<le> c) xs = []"
      using Cons.prems by (auto simp: filter_empty_conv dest: order_trans)
    then show ?thesis using False by simp
  qed simp
qed simp

lemma due_filter:
  assumes "pq_ok ds" and "no_wrap lo now ds"
  shows "takeWhile (due now) ds = filter (\<lambda>d. msTrigger d \<le> now) ds"
proof -
  have "sorted (map msTrigger ds)"
    using assms(1) by (auto simp: pq_ok_def sorted_map dm_key_def less_eq_prod_def elim!: sorted_wrt_mono_rel [rotated])
  then have "takeWhile (\<lambda>d. msTrigger d \<le> now) ds = filter (\<lambda>d. msTrigger d \<le> now) ds"
    by (rule takeWhile_sorted_filter)
  moreover have "takeWhile (due now) ds = takeWhile (\<lambda>d. msTrigger d \<le> now) ds"
    by (rule takeWhile_cong [OF refl]) (simp add: due_no_wrap [OF assms(2)])
  ultimately show ?thesis by simp
qed

text \<open>A queue that was built by posting.\<close>

inductive posted :: "'d MessageQueue \<Rightarrow> bool" where
  new: "posted MessageQueue_new"
| post: "posted q \<Longrightarrow> posted (Post now q handler i data ts)"
| delay: "posted q \<Longrightarrow> posted (DoDelayPost q d tstamp handler i data)"
| get: "posted q \<Longrightarrow> mq_Get now w [] q = (r, q') \<Longrightarrow> posted q'"
| peek: "posted q \<Longrightarrow> mq_Peek now w [] q = (r, q') \<Longrightarrow> posted q'"
| clear: "posted q \<Longrightarrow> MessageQueue_Clear q handler i = (q', ms) \<Longrightarrow> posted q'"
| quit: "posted q \<Longrightarrow> posted (Quit q)"
| restart: "posted q \<Longrightarrow> posted (Restart q)"

lemma get_loop_nil_cases:
  "get_loop w st now el [] q = (r, q') \<Longrightarrow> q' = scanned now q"
  by (cases "pending now q") (auto simp: get_loop_message get_loop_empty split: if_splits)

lemma mq_Get_dmsgq: "mq_Get now w [] q = (r, q') \<Longrightarrow> dmsgq q' = dmsgq q \<or> dmsgq q' = dropWhile (due now) (dmsgq q)"
  by (auto simp: mq_Get_def scanned_def dest!: get_loop_nil_cases split: if_splits)

lemma pq_ok_dropWhile: "pq_ok ds \<Longrightarrow> pq_ok (dropWhile P ds)"
  by (induction ds) (auto simp: pq_ok_def)

lemma pq_ok_filter: "pq_ok ds \<Longrightarrow> pq_ok (filter P ds)"
  by (induction ds) (auto simp: pq_ok_def)

lemma posted_pq_ok: "posted q \<Longrightarrow> pq_ok (dmsgq q)"
proof (induction rule: posted.induct)
  case (get q now w r q')
  then show ?case using mq_Get_dmsgq [OF get.hyps(2)] by (auto simp: pq_ok_dropWhile)
next
  case (peek q now w r q')
  obtain r1 q1 where g: "mq_Get now w [] q = (r1, q1)" by fastforce
  from peek(2) g have "q' = q \<or> dmsgq q' = dmsgq q1"
    by (auto simp: mq_Peek_def split: if_splits get_outcome.splits)
  then show ?case using mq_Get_dmsgq [OF g] peek.IH by (auto simp: pq_ok_dropWhile)
qed (auto simp: MessageQueue_new_def Post_def DoDelayPost_def EnsureActive_def WakeUp_def Quit_def
       Restart_def MessageQueue_Clear_def Let_def dq.inv_push pq_ok_filter pq_ok_def [of "[]"])

text \<open>
  While the clock does not wrap around, a delayed message is returned
  exactly from its trigger time on, and the delayed messages that have triggered come in
  the order of their trigger times, those of the same time in the order of posting.
\<close>

theorem delayed_messages_in_trigger_order:
  assumes "posted q" and "no_wrap lo now (dmsgq q)"
  shows "pending now q =
      filter live (msgq q @ map dmsg (filter (\<lambda>d. msTrigger d \<le> now) (dmsgq q))) \<and>
    sorted (map (\<lambda>d. (msTrigger d, num d)) (filter (\<lambda>d. msTrigger d \<le> now) (dmsgq q)))"
  using due_filter [OF posted_pq_ok [OF assms(1)] assms(2)]
    pq_ok_filter [OF posted_pq_ok [OF assms(1)], of "\<lambda>d. msTrigger d \<le> now"]
  by (simp add: pending_def pq_ok_def dm_key_def [abs_def])

theorem delayed_messages_in_trigger_order_witness:
  "map message_id (pending 25 (DoDelayPost (DoDelayPost (MessageQueue_new :: nat MessageQueue)
     20 20 None 7 None) 10 10 None 8 None)) = [8, 7]"
proof -
  let ?q = "DoDelayPost (DoDelayPost (MessageQueue_new :: nat MessageQueue) 20 20 None 7 None) 10 10 None 8 None"
  have q: "msgq ?q = []" "map msTrigger (dmsgq ?q) = [10, 20]" "map (message_id \<circ> dmsg) (dmsgq ?q) = [8, 7]"
    by (simp_all add: DoDelayPost_def EnsureActive_def WakeUp_def MessageQueue_new_def Let_def
        DelayedMessage_less_def)
  have "posted ?q" by (intro posted.delay posted.new)
  moreover have "no_wrap 0 25 (dmsgq ?q)"
    by (simp add: no_wrap_def DoDelayPost_def EnsureActive_def WakeUp_def MessageQueue_new_def Let_def
        DelayedMessage_less_def)
  ultimately show ?thesis
    using delayed_messages_in_trigger_order [of ?q 0 25]
    by (simp add: DoDelayPost_def EnsureActive_def WakeUp_def MessageQueue_new_def Let_def
        DelayedMessage_less_def live_def MQID_DISPOSE_def)
qed

text \<open>
  The order of the priority queue ignores the wrap-around of the clock: of
  two messages posted within 16 ms before the clock wraps, the one due in 5 ms is held
  back behind the one due in 32 ms, whose stamp is past zero, although it has triggered.
\<close>

theorem delayed_message_held_back_at_wrap:
  "let now = 0xFFFFFFF0 :: uint32;
       q1 = PostDelayed now (MessageQueue_new :: nat MessageQueue) 5 (Some 1) 1 None;
       q2 = PostDelayed now q1 32 (Some 2) 2 None
   in TimeIsLaterOrEqual (TimeAfter now 5) (now + 12) \<and>
      fst (mq_Get (now + 12) 0 [] q2) = Waiting 0 \<and> pending (now + 12) q2 = []"
proof -
  have "\<not> due 0xFFFFFFFC \<lparr>cmsDelay = 32, msTrigger = 0x10, num = 1, dmsg = m\<rparr>" for m :: "nat Message"
    by (simp add: due_def TimeIsLater_def HALF_def Let_def)
  moreover have "DelayedMessage_less a b \<longleftrightarrow> msTrigger b < msTrigger a \<or> msTrigger b = msTrigger a \<and> num b < num a"
    for a b :: "nat DelayedMessage" by (simp add: DelayedMessage_less_def)
  moreover have "TimeAfter 0xFFFFFFF0 32 = 0x10" "TimeAfter 0xFFFFFFF0 5 = 0xFFFFFFF5"
    by (simp_all add: TimeAfter_def)
  ultimately show ?thesis
    by (simp add: PostDelayed_def DoDelayPost_def EnsureActive_def WakeUp_def MessageQueue_new_def Let_def
        mq_Get_def get_loop_empty pending_def next_wait_def kForever_def TimeDiff_def
        TimeIsLaterOrEqual_def HALF_def)
qed

section \<open>Clearing, quitting, peeking and waiting\<close>

definition all_messages :: "'d MessageQueue \<Rightarrow> 'd Message list" where
  "all_messages q = (if fPeekKeep q then [msgPeek q] else []) @ msgq q @ map dmsg (dmsgq q)"

lemma pending_subset: "set (pending now q) \<subseteq> set (all_messages q)"
  by (auto simp: pending_def all_messages_def dest: set_takeWhileD)

lemma mq_Get_member: "mq_Get now w [] q = (Got_message m, q') \<Longrightarrow> m \<in> set (all_messages q)"
proof -
  assume g: "mq_Get now w [] q = (Got_message m, q')"
  show ?thesis
  proof (cases "fPeekKeep q")
    case False
    then have "m \<in> set (pending now q)"
      using g by (cases "pending now q") (auto simp: mq_Get_def get_loop_message get_loop_empty split: if_splits)
    then show ?thesis using pending_subset by blast
  qed (use g in \<open>simp add: mq_Get_def all_messages_def\<close>)
qed

text \<open>
  \<^verbatim>\<open>Clear\<close> removes exactly the messages of the handler and id it is given,
  posted, delayed and peeked, reports all of them, and keeps the others in order; from
  then on \<^verbatim>\<open>Get\<close> returns none of them, so the handler may be destroyed.
\<close>

theorem clear_removes_exactly:
  assumes "MessageQueue_Clear q handler i = (q', removed)"
  shows "all_messages q' = filter (\<lambda>m. \<not> Match m handler i) (all_messages q) \<and>
    removed = filter (\<lambda>m. Match m handler i) (all_messages q) \<and>
    (\<forall>now w m q''. mq_Get now w [] q' = (Got_message m, q'') \<longrightarrow> \<not> Match m handler i)"
proof -
  have all: "all_messages q' = filter (\<lambda>m. \<not> Match m handler i) (all_messages q)"
    using assms by (auto simp: MessageQueue_Clear_def all_messages_def Let_def filter_map comp_def)
  moreover have "removed = filter (\<lambda>m. Match m handler i) (all_messages q)"
    using assms by (auto simp: MessageQueue_Clear_def all_messages_def Let_def filter_map comp_def)
  moreover have "\<not> Match m handler i" if "mq_Get now w [] q' = (Got_message m, q'')" for now w m q''
    using mq_Get_member [OF that] all by simp
  ultimately show ?thesis by blast
qed

theorem clear_removes_exactly_witness:
  "all_messages (fst (MessageQueue_Clear (Post 0 (Post 0 (MessageQueue_new :: nat MessageQueue)
     (Some 1) 5 None False) (Some 2) 6 None False) (Some 1) MQID_ANY)) =
   [\<lparr>phandler = Some 2, message_id = 6, pdata = None, ts_sensitive = 0\<rparr>]"
  using clear_removes_exactly [of "Post 0 (Post 0 (MessageQueue_new :: nat MessageQueue)
     (Some 1) 5 None False) (Some 2) 6 None False" "Some 1" MQID_ANY, OF surjective_pairing]
  by (simp add: all_messages_def Match_def Post_def EnsureActive_def WakeUp_def MessageQueue_new_def Let_def)

text \<open>
  A queue that is quitting takes no new message, and never waits: \<^verbatim>\<open>Get\<close>
  hands out the messages that are ready, in order, and then returns \<^verbatim>\<open>false\<close>, whatever
  timeout it is given.
\<close>

theorem quitting_queue_drains:
  assumes "fStop q" and "\<not> fPeekKeep q"
  shows "Post clock q handler i data ts = q \<and> DoDelayPost q d tstamp handler i data = q \<and>
    (\<exists>q'. mq_Get now cmsWait rounds q =
       ((case pending now q of [] \<Rightarrow> Got_nothing | m # _ \<Rightarrow> Got_message m), q') \<and>
       pending now q' = tl (pending now q) \<and> fStop q')"
proof -
  have "mq_Get now cmsWait rounds q =
     ((case pending now q of [] \<Rightarrow> Got_nothing | m # _ \<Rightarrow> Got_message m), scanned now q)"
    using assms by (cases "pending now q") (simp_all add: mq_Get_def get_loop_message get_loop_empty)
  then show ?thesis
    using assms pending_scanned [of now q] by (simp add: Post_def DoDelayPost_def) (simp add: scanned_def)
qed

theorem quitting_queue_drains_witness:
  "fst (mq_Get 3 kForever [] (Quit (Post 0 (MessageQueue_new :: nat MessageQueue) None 1 None False))) =
     Got_message \<lparr>phandler = None, message_id = 1, pdata = None, ts_sensitive = 0\<rparr>"
proof -
  let ?q = "Quit (Post 0 (MessageQueue_new :: nat MessageQueue) None 1 None False)"
  have "fStop ?q" "\<not> fPeekKeep ?q"
    "pending 3 ?q = [\<lparr>phandler = None, message_id = 1, pdata = None, ts_sensitive = 0\<rparr>]"
    by (simp_all add: Quit_def Post_def EnsureActive_def WakeUp_def MessageQueue_new_def Let_def
        pending_def live_def MQID_DISPOSE_def)
  with quitting_queue_drains [of ?q 0 None 0 None False 0 0 3 kForever "[]"] show ?thesis by auto
qed

text \<open>
  \<^verbatim>\<open>Peek\<close> and \<^verbatim>\<open>Get\<close> are symmetric: what \<^verbatim>\<open>Peek\<close> shows is what a direct
  \<^verbatim>\<open>Get\<close> returns, it stays until the next \<^verbatim>\<open>Get\<close> returns it, at any later time, and it is
  then taken off.
\<close>

theorem peek_get_symmetry:
  assumes "mq_Peek now w rounds q = (Got_message m, q1)" and "\<not> fPeekKeep q"
  shows "mq_Peek now' w' rounds' q1 = (Got_message m, q1) \<and>
    (\<exists>q2. mq_Get now' w' rounds' q1 = (Got_message m, q2) \<and> \<not> fPeekKeep q2 \<and>
       (\<exists>q0. mq_Get now w rounds q = (Got_message m, q0) \<and> msgq q2 = msgq q0 \<and> dmsgq q2 = dmsgq q0))"
proof -
  obtain q0 where q0: "mq_Get now w rounds q = (Got_message m, q0)"
    and q1: "q1 = q0\<lparr>msgPeek := m, fPeekKeep := True\<rparr>"
    using assms by (auto simp: mq_Peek_def split: prod.splits get_outcome.splits)
  then show ?thesis by (simp add: mq_Peek_def mq_Get_def)
qed

theorem peek_get_symmetry_witness:
  "\<exists>q1 q2. mq_Peek 3 0 [] (Post 0 (MessageQueue_new :: nat MessageQueue) None 1 None False) =
      (Got_message \<lparr>phandler = None, message_id = 1, pdata = None, ts_sensitive = 0\<rparr>, q1) \<and>
    mq_Get 9 0 [] q1 = (Got_message \<lparr>phandler = None, message_id = 1, pdata = None, ts_sensitive = 0\<rparr>, q2)"
proof -
  let ?q = "Post 0 (MessageQueue_new :: nat MessageQueue) None 1 None False"
  let ?m = "\<lparr>phandler = None, message_id = 1, pdata = None, ts_sensitive = 0\<rparr> :: nat Message"
  have k: "\<not> fPeekKeep ?q" "pending 3 ?q = [?m]"
    by (simp_all add: Post_def EnsureActive_def WakeUp_def MessageQueue_new_def Let_def
        pending_def live_def MQID_DISPOSE_def)
  then obtain q1 where "mq_Peek 3 0 [] ?q = (Got_message ?m, q1)"
    by (simp add: mq_Peek_def mq_Get_def get_loop_message)
  with peek_get_symmetry [OF this k(1), of 9 0 "[]"] show ?thesis by blast
qed

lemma get_loop_returns:
  assumes "list_ex (\<lambda>r. w \<le> TimeDiff (clock_after r) st) rounds" and "w \<noteq> kForever"
  shows "fst (get_loop w st now el rounds q) \<noteq> Waiting n"
  using assms(1)
proof (induction rounds arbitrary: now el q)
  case (Cons r rounds)
  show ?case
  proof (cases "pending now q")
    case Nil
    then show ?thesis
      using Cons.prems Cons.IH [of "clock_after r" "TimeDiff (clock_after r) st" "interfere r (scanned now q)"] assms(2)
      by (auto simp: get_loop_empty Let_def)
  qed (simp add: get_loop_message)
qed simp

lemma next_wait_bounds:
  "0 \<le> w \<Longrightarrow> dn = kForever \<or> 0 < dn \<Longrightarrow>
   0 \<le> next_wait w 0 dn \<and> next_wait w 0 dn \<le> w \<and> (dn \<noteq> kForever \<longrightarrow> next_wait w 0 dn \<le> dn)"
  by (auto simp: next_wait_def kForever_def Let_def)

text \<open>
  \<^verbatim>\<open>Get\<close> with a timeout returns: once a wait ends with the clock at least
  \<^verbatim>\<open>cmsWait\<close> past the start it does not wait again, whatever other threads do; and it
  never sleeps longer than the timeout or than to the next trigger.
\<close>

theorem get_returns_after_timeout:
  assumes "0 \<le> cmsWait"
  shows "(list_ex (\<lambda>r. cmsWait \<le> TimeDiff (clock_after r) now) rounds \<longrightarrow>
      (\<forall>n. fst (mq_Get now cmsWait rounds q) \<noteq> Waiting n)) \<and>
    (\<forall>n q'. mq_Get now cmsWait [] q = (Waiting n, q') \<longrightarrow>
      0 \<le> n \<and> n \<le> cmsWait \<and> (\<forall>d ds. dmsgq q' = d # ds \<longrightarrow> n \<le> TimeDiff (msTrigger d) now))"
proof (intro conjI impI allI)
  fix n assume "list_ex (\<lambda>r. cmsWait \<le> TimeDiff (clock_after r) now) rounds"
  then show "fst (mq_Get now cmsWait rounds q) \<noteq> Waiting n"
    using get_loop_returns [of cmsWait now rounds] assms by (simp add: mq_Get_def kForever_def)
next
  fix n q' assume g: "mq_Get now cmsWait [] q = (Waiting n, q')"
  then have k: "\<not> fPeekKeep q" "pending now q = []" "q' = scanned now q"
    "n = next_wait cmsWait 0 (case dropWhile (due now) (dmsgq q) of [] \<Rightarrow> kForever
                              | d # _ \<Rightarrow> TimeDiff (msTrigger d) now)"
    by (cases "pending now q"; auto simp: mq_Get_def get_loop_empty get_loop_message split: if_splits)+
  have pos: "0 < TimeDiff (msTrigger d) now" if "dropWhile (due now) (dmsgq q) = d # ds" for d ds
    using hd_dropWhile [of "due now" "dmsgq q"] that
    by (auto simp: due_def TimeIsLater_def TimeDiff_def Let_def)
  let ?dn = "case dropWhile (due now) (dmsgq q) of [] \<Rightarrow> kForever | d # _ \<Rightarrow> TimeDiff (msTrigger d) now"
  have "?dn = kForever \<or> 0 < ?dn" using pos by (auto split: list.splits)
  note b = next_wait_bounds [OF assms this]
  show "0 \<le> n" "n \<le> cmsWait" using b k(4) by simp_all
  fix d ds assume d: "dmsgq q' = d # ds"
  then have "?dn = TimeDiff (msTrigger d) now" using k(3) by (simp add: scanned_def)
  moreover have "0 < TimeDiff (msTrigger d) now" using pos d k(3) by (simp add: scanned_def)
  ultimately show "n \<le> TimeDiff (msTrigger d) now" using b k(4) by (auto simp: kForever_def)
qed

theorem get_returns_after_timeout_witness:
  "fst (mq_Get 10 5 [\<lparr>wait_ok = True, interfere = (\<lambda>q. q), clock_after = 15\<rparr>]
     (MessageQueue_new :: nat MessageQueue)) \<noteq> Waiting 3"
  using get_returns_after_timeout [of 5 10 "[\<lparr>wait_ok = True, interfere = (\<lambda>q. q), clock_after = 15\<rparr>]"
      "MessageQueue_new :: nat MessageQueue"]
  by (simp add: TimeDiff_def)

section \<open>The global list of active queues\<close>

inductive manager_reachable :: "manager \<times> (nat \<Rightarrow> 'd MessageQueue) \<Rightarrow> bool" where
  start: "manager_reachable (None, \<lambda>k. MessageQueue_new)"
| activate: "manager_reachable sys \<Longrightarrow> manager_reachable (Manager_EnsureActive k sys)"
| destroy: "manager_reachable sys \<Longrightarrow> manager_reachable (MessageQueue_destroy k sys)"
| step: "manager_reachable (m, qs) \<Longrightarrow> active q' = active (qs k) \<Longrightarrow> manager_reachable (m, qs(k := q'))"

definition manager_ok :: "manager \<times> (nat \<Rightarrow> 'd MessageQueue) \<Rightarrow> bool" where
  "manager_ok sys \<longleftrightarrow> (case sys of (m, qs) \<Rightarrow>
     distinct (Manager_Instance m) \<and> (\<forall>k. k \<in> set (Manager_Instance m) \<longleftrightarrow> active (qs k)) \<and> m \<noteq> Some [])"

lemma manager_ok_activate: "manager_ok sys \<Longrightarrow> manager_ok (Manager_EnsureActive k sys)"
  by (cases sys) (auto simp: manager_ok_def Manager_EnsureActive_def Manager_Add_def Manager_Instance_def
      EnsureActive_def split: option.splits)

lemma manager_ok_destroy: "manager_ok sys \<Longrightarrow> manager_ok (MessageQueue_destroy k sys)"
proof -
  obtain m qs where sys: "sys = (m, qs)" by fastforce
  assume ok: "manager_ok sys"
  show ?thesis
  proof (cases "active (qs k)")
    case True
    then obtain l where l: "m = Some l" "k \<in> set l" "distinct l" "\<forall>j. j \<in> set l \<longleftrightarrow> active (qs j)"
      using ok sys by (auto simp: manager_ok_def Manager_Instance_def split: option.splits)
    have r: "set (remove1 k l) = set l - {k}" using l(3) by (rule set_remove1_eq)
    then have "remove1 k l = [] \<Longrightarrow> set l - {k} = {}" by simp
    with r l sys True show ?thesis
      by (auto simp: manager_ok_def MessageQueue_destroy_def Manager_Remove_def Manager_Instance_def Let_def
          MessageQueue_new_def)
  next
    case False
    then show ?thesis using ok sys
      by (auto simp: manager_ok_def MessageQueue_destroy_def MessageQueue_new_def)
  qed
qed

text \<open>
  However queues are activated and destroyed, the manager's list holds
  exactly the active queues, each once, and the manager exists only while there is one.
\<close>

theorem manager_lists_active_queues:
  assumes "manager_reachable sys"
  shows "manager_ok sys"
  using assms
proof (induction rule: manager_reachable.induct)
  case start
  show ?case by (simp add: manager_ok_def Manager_Instance_def MessageQueue_new_def)
qed (auto simp: manager_ok_activate manager_ok_destroy, auto simp: manager_ok_def)

theorem manager_lists_active_queues_witness:
  "manager_ok (Manager_EnsureActive 3 (None, \<lambda>k. MessageQueue_new :: nat MessageQueue))"
  using manager_lists_active_queues [OF activate [OF start]] .

end
