(* ===== verification/Vz_Stdmap.thy ===== *)
theory Vz_Stdmap
  imports Vz_Prelude "HOL-Library.AList"
begin

text \<open>
  \<^verbatim>\<open>std::map\<close> as the sources use it: the tasks of the queue layer, the sessions of the
  session manager, the modules and services by number, the members of a JSON object.
  A map is the list of its entries in ascending order of the keys, which is the order
  of iteration.  \<open>ordered_map\<close> is the interface the clients rely on.
\<close>

section \<open>Operations\<close>

fun stdmap_find :: "'k \<Rightarrow> ('k :: linorder \<times> 'v) list \<Rightarrow> 'v option" where
  "stdmap_find k [] = None"
| "stdmap_find k ((k', v) # m) = (if k = k' then Some v else stdmap_find k m)"

text \<open>\<^verbatim>\<open>m[k] = v\<close>: overwrites or inserts.\<close>

fun stdmap_set :: "'k \<Rightarrow> 'v \<Rightarrow> ('k :: linorder \<times> 'v) list \<Rightarrow> ('k \<times> 'v) list" where
  "stdmap_set k v [] = [(k, v)]"
| "stdmap_set k v ((k', v') # m) =
     (if k < k' then (k, v) # (k', v') # m
      else if k = k' then (k, v) # m
      else (k', v') # stdmap_set k v m)"

text \<open>\<^verbatim>\<open>m.insert (pair (k, v))\<close>: does nothing if the key is there.\<close>

definition stdmap_insert :: "'k \<Rightarrow> 'v \<Rightarrow> ('k :: linorder \<times> 'v) list \<Rightarrow> ('k \<times> 'v) list" where
  "stdmap_insert k v m = (if stdmap_find k m = None then stdmap_set k v m else m)"

text \<open>\<^verbatim>\<open>m.erase (m.find (k))\<close>.\<close>

definition stdmap_erase :: "'k \<Rightarrow> ('k :: linorder \<times> 'v) list \<Rightarrow> ('k \<times> 'v) list" where
  "stdmap_erase k m = filter (\<lambda>e. fst e \<noteq> k) m"

definition stdmap_ok :: "('k :: linorder \<times> 'v) list \<Rightarrow> bool" where
  "stdmap_ok m \<longleftrightarrow> sorted_wrt (<) (map fst m)"

section \<open>The interface\<close>

locale ordered_map =
  fixes inv :: "'m \<Rightarrow> bool" and find :: "'k :: linorder \<Rightarrow> 'm \<Rightarrow> 'v option" and entries :: "'m \<Rightarrow> ('k \<times> 'v) list"
    and insert :: "'k \<Rightarrow> 'v \<Rightarrow> 'm \<Rightarrow> 'm" and set :: "'k \<Rightarrow> 'v \<Rightarrow> 'm \<Rightarrow> 'm" and erase :: "'k \<Rightarrow> 'm \<Rightarrow> 'm"
  assumes inv_insert: "inv m \<Longrightarrow> inv (insert k v m)"
    and inv_set: "inv m \<Longrightarrow> inv (set k v m)"
    and inv_erase: "inv m \<Longrightarrow> inv (erase k m)"
    and find_insert: "inv m \<Longrightarrow> find j (insert k v m) =
          (if j = k \<and> find k m = None then Some v else find j m)"
    and find_set: "inv m \<Longrightarrow> find j (set k v m) = (if j = k then Some v else find j m)"
    and find_erase: "inv m \<Longrightarrow> find j (erase k m) = (if j = k then None else find j m)"
    and find_entries: "inv m \<Longrightarrow> find k m = Some v \<longleftrightarrow> (k, v) \<in> List.set (entries m)"
    and entries_sorted: "inv m \<Longrightarrow> sorted_wrt (<) (map fst (entries m))"
begin

lemma find_None: "inv m \<Longrightarrow> find k m = None \<longleftrightarrow> k \<notin> fst ` List.set (entries m)"
proof -
  assume "inv m"
  then have "(\<exists>v. find k m = Some v) \<longleftrightarrow> (\<exists>v. (k, v) \<in> List.set (entries m))" by (simp add: find_entries)
  then show ?thesis by (cases "find k m") force+
qed

lemma find_after_erase: "inv m \<Longrightarrow> find k (erase k m) = None"
  by (simp add: find_erase)

lemma insert_fresh: "inv m \<Longrightarrow> find k m = None \<Longrightarrow> find j (insert k v m) = (if j = k then Some v else find j m)"
  by (simp add: find_insert)

lemma entries_set_iff:
  assumes "inv m"
  shows "(j, w) \<in> List.set (entries (set k v m)) \<longleftrightarrow> (if j = k then w = v else (j, w) \<in> List.set (entries m))"
  unfolding find_entries [OF inv_set [OF assms], symmetric] find_entries [OF assms, symmetric]
  by (auto simp: find_set [OF assms])

lemma entries_erase_iff:
  assumes "inv m"
  shows "(j, w) \<in> List.set (entries (erase k m)) \<longleftrightarrow> j \<noteq> k \<and> (j, w) \<in> List.set (entries m)"
  unfolding find_entries [OF inv_erase [OF assms], symmetric] find_entries [OF assms, symmetric]
  by (auto simp: find_erase [OF assms])

end

section \<open>The list implements it\<close>

lemma stdmap_find_map_of: "stdmap_find k m = map_of m k"
  by (induction m) auto

lemma stdmap_set_keys: "set (map fst (stdmap_set k v m)) = insert k (set (map fst m))"
  by (induction k v m rule: stdmap_set.induct) auto

lemma stdmap_ok_set: "stdmap_ok m \<Longrightarrow> stdmap_ok (stdmap_set k v m)"
  unfolding stdmap_ok_def
proof (induction k v m rule: stdmap_set.induct)
  case (2 k v k' v' m)
  then have "\<forall>x \<in> set (map fst (stdmap_set k v m)). x = k \<or> k' < x"
    unfolding stdmap_set_keys by auto
  then show ?case using 2 by auto
qed simp

lemma map_of_stdmap_set: "stdmap_ok m \<Longrightarrow> map_of (stdmap_set k v m) = (map_of m)(k \<mapsto> v)"
  unfolding stdmap_ok_def by (induction m) (auto simp: fun_eq_iff)

lemma stdmap_ok_erase: "stdmap_ok m \<Longrightarrow> stdmap_ok (stdmap_erase k m)"
  by (simp add: stdmap_ok_def stdmap_erase_def sorted_wrt_map sorted_wrt_filter)

lemma map_of_stdmap_erase: "map_of (stdmap_erase k m) = (map_of m)(k := None)"
  by (induction m) (auto simp: stdmap_erase_def fun_eq_iff)

interpretation sm: ordered_map stdmap_ok stdmap_find "\<lambda>m. m" stdmap_insert stdmap_set stdmap_erase
proof
  fix m :: "('k :: linorder \<times> 'v) list" and k j v
  assume ok: "stdmap_ok m"
  have d: "distinct (map fst m)" using ok by (simp add: stdmap_ok_def strict_sorted_iff)
  show "stdmap_ok (stdmap_insert k v m)" "stdmap_ok (stdmap_set k v m)" "stdmap_ok (stdmap_erase k m)"
    using ok by (simp_all add: stdmap_insert_def stdmap_ok_set stdmap_ok_erase)
  show "stdmap_find j (stdmap_insert k v m) =
      (if j = k \<and> stdmap_find k m = None then Some v else stdmap_find j m)"
    using ok by (auto simp: stdmap_insert_def stdmap_find_map_of map_of_stdmap_set)
  show "stdmap_find j (stdmap_set k v m) = (if j = k then Some v else stdmap_find j m)"
    using ok by (simp add: stdmap_find_map_of map_of_stdmap_set)
  show "stdmap_find j (stdmap_erase k m) = (if j = k then None else stdmap_find j m)"
    by (simp add: stdmap_find_map_of map_of_stdmap_erase)
  show "(stdmap_find k m = Some v) = ((k, v) \<in> set m)"
    using d by (simp add: stdmap_find_map_of)
  show "sorted_wrt (<) (map fst m)" using ok by (simp add: stdmap_ok_def)
qed

lemmas sm_find = sm.find_insert sm.find_set sm.find_erase

lemmas sm_inv = sm.inv_insert sm.inv_set sm.inv_erase

lemma stdmap_ok_Nil [simp]: "stdmap_ok []"
  by (simp add: stdmap_ok_def)

end
