(* ===== verification/Vz_Json.thy ===== *)
theory Vz_Json
  imports Complex_Main Vz_Stdmap "HOL-Library.Char_ord" "HOL-Library.List_Lexorder"
begin

text \<open>
  \<^verbatim>\<open>src/src/json/jsoncpp.cpp\<close>: the parts of \<^verbatim>\<open>Json::Value\<close> the SDK builds its requests and
  reads its responses with, and \<^verbatim>\<open>Json::FastWriter\<close>, which prints a request.  A
  \<^verbatim>\<open>std::runtime_error\<close> thrown by \<^verbatim>\<open>JSON_FAIL_MESSAGE\<close> is \<open>None\<close>.  A finite double is the
  rational number it stands for; how \<^verbatim>\<open>printf\<close> prints it (\<^verbatim>\<open>%.16g\<close>) is the argument \<open>fmt_g\<close>.
  An array is the list of its elements up to the highest index that was referenced, a
  gap being \<^verbatim>\<open>null\<close>; an object is a \<^verbatim>\<open>std::map\<close>.  Comments and offsets of a value are
  left out: nothing here reads them.
\<close>

type_synonym int64 = "64 word"

section \<open>Values\<close>

datatype Value =
    nullValue
  | intValue int64
  | uintValue uint64
  | realValue rat
  | stringValue string
  | booleanValue bool
  | arrayValue "Value list"
  | objectValue "(string \<times> Value) list"

definition minInt :: int where "minInt = - (2 ^ 31)"

definition maxInt :: int where "maxInt = 2 ^ 31 - 1"

definition maxUInt :: int where "maxUInt = 2 ^ 32 - 1"

text \<open>The constructors from the C++ types.\<close>

definition Value_Int :: "int \<Rightarrow> Value" where "Value_Int v = intValue (of_int v)"

definition Value_UInt :: "uint32 \<Rightarrow> Value" where "Value_UInt v = uintValue (ucast v)"

definition Value_cstr :: "string \<Rightarrow> Value" where "Value_cstr s = stringValue (cstr s)"

definition Value_bool :: "bool \<Rightarrow> Value" where "Value_bool b = booleanValue b"

definition type_index :: "Value \<Rightarrow> int" where
  "type_index v = (case v of nullValue \<Rightarrow> 0 | intValue _ \<Rightarrow> 1 | uintValue _ \<Rightarrow> 2 | realValue _ \<Rightarrow> 3 |
     stringValue _ \<Rightarrow> 4 | booleanValue _ \<Rightarrow> 5 | arrayValue _ \<Rightarrow> 6 | objectValue _ \<Rightarrow> 7)"

definition isNull :: "Value \<Rightarrow> bool" where "isNull v = (v = nullValue)"

definition isBool :: "Value \<Rightarrow> bool" where "isBool v = (case v of booleanValue _ \<Rightarrow> True | _ \<Rightarrow> False)"

definition isString :: "Value \<Rightarrow> bool" where "isString v = (case v of stringValue _ \<Rightarrow> True | _ \<Rightarrow> False)"

definition isArray :: "Value \<Rightarrow> bool" where "isArray v = (case v of arrayValue _ \<Rightarrow> True | _ \<Rightarrow> False)"

definition isObject :: "Value \<Rightarrow> bool" where "isObject v = (case v of objectValue _ \<Rightarrow> True | _ \<Rightarrow> False)"

definition IsIntegral :: "rat \<Rightarrow> bool" where "IsIntegral d = (of_int \<lfloor>d\<rfloor> = d)"

definition isInt :: "Value \<Rightarrow> bool" where
  "isInt v = (case v of
      intValue i \<Rightarrow> minInt \<le> sint i \<and> sint i \<le> maxInt
    | uintValue u \<Rightarrow> uint u \<le> maxInt
    | realValue d \<Rightarrow> of_int minInt \<le> d \<and> d \<le> of_int maxInt \<and> IsIntegral d
    | _ \<Rightarrow> False)"

definition isUInt :: "Value \<Rightarrow> bool" where
  "isUInt v = (case v of
      intValue i \<Rightarrow> 0 \<le> sint i \<and> sint i \<le> maxUInt
    | uintValue u \<Rightarrow> uint u \<le> maxUInt
    | realValue d \<Rightarrow> 0 \<le> d \<and> d \<le> of_int maxUInt \<and> IsIntegral d
    | _ \<Rightarrow> False)"

text \<open>The conversion of a double to an integer rounds towards zero.\<close>

definition trunc :: "rat \<Rightarrow> int" where
  "trunc d = (if d < 0 then \<lceil>d\<rceil> else \<lfloor>d\<rfloor>)"

definition asInt :: "Value \<Rightarrow> int option" where
  "asInt v = (case v of
      intValue i \<Rightarrow> if isInt v then Some (sint i) else None
    | uintValue u \<Rightarrow> if isInt v then Some (uint u) else None
    | realValue d \<Rightarrow> if of_int minInt \<le> d \<and> d \<le> of_int maxInt then Some (trunc d) else None
    | nullValue \<Rightarrow> Some 0
    | booleanValue b \<Rightarrow> Some (if b then 1 else 0)
    | _ \<Rightarrow> None)"

definition asUInt :: "Value \<Rightarrow> int option" where
  "asUInt v = (case v of
      intValue i \<Rightarrow> if isUInt v then Some (sint i) else None
    | uintValue u \<Rightarrow> if isUInt v then Some (uint u) else None
    | realValue d \<Rightarrow> if 0 \<le> d \<and> d \<le> of_int maxUInt then Some (trunc d) else None
    | nullValue \<Rightarrow> Some 0
    | booleanValue b \<Rightarrow> Some (if b then 1 else 0)
    | _ \<Rightarrow> None)"

definition asBool :: "Value \<Rightarrow> bool option" where
  "asBool v = (case v of
      booleanValue b \<Rightarrow> Some b
    | nullValue \<Rightarrow> Some False
    | intValue i \<Rightarrow> Some (i \<noteq> 0)
    | uintValue u \<Rightarrow> Some (u \<noteq> 0)
    | realValue d \<Rightarrow> Some (d \<noteq> 0)
    | _ \<Rightarrow> None)"

definition asCString :: "Value \<Rightarrow> string option" where
  "asCString v = (case v of stringValue s \<Rightarrow> Some s | _ \<Rightarrow> None)"

definition Value_size :: "Value \<Rightarrow> nat" where
  "Value_size v = (case v of arrayValue xs \<Rightarrow> length xs | objectValue m \<Rightarrow> length m | _ \<Rightarrow> 0)"

text \<open>
  \<^verbatim>\<open>value[key]\<close> for reading.  The non-const operator also adds a \<^verbatim>\<open>null\<close> member when
  there is none, which later reads cannot tell from an absent one.
\<close>

definition Value_at :: "Value \<Rightarrow> string \<Rightarrow> Value option" where
  "Value_at v key = (case v of
      nullValue \<Rightarrow> Some nullValue
    | objectValue m \<Rightarrow> Some (case stdmap_find (cstr key) m of None \<Rightarrow> nullValue | Some x \<Rightarrow> x)
    | _ \<Rightarrow> None)"

text \<open>\<^verbatim>\<open>value[key] = x\<close>.\<close>

definition resolveReference_set :: "Value \<Rightarrow> string \<Rightarrow> Value \<Rightarrow> Value option" where
  "resolveReference_set v key x = (case v of
      nullValue \<Rightarrow> Some (objectValue [(cstr key, x)])
    | objectValue m \<Rightarrow> Some (objectValue (stdmap_set (cstr key) x m))
    | _ \<Rightarrow> None)"

definition Value_index :: "Value \<Rightarrow> nat \<Rightarrow> Value option" where
  "Value_index v i = (case v of
      nullValue \<Rightarrow> Some nullValue
    | arrayValue xs \<Rightarrow> Some (if i < length xs then xs ! i else nullValue)
    | _ \<Rightarrow> None)"

definition Value_append :: "Value \<Rightarrow> Value \<Rightarrow> Value option" where
  "Value_append v x = (case v of
      nullValue \<Rightarrow> Some (arrayValue [x])
    | arrayValue xs \<Rightarrow> Some (arrayValue (xs @ [x]))
    | _ \<Rightarrow> None)"

definition getMemberNames :: "Value \<Rightarrow> string list option" where
  "getMemberNames v = (case v of
      nullValue \<Rightarrow> Some [] | objectValue m \<Rightarrow> Some (map fst m) | _ \<Rightarrow> None)"

section \<open>Printing\<close>

definition digit_char :: "nat \<Rightarrow> char" where
  "digit_char d = char_of (48 + d)"

fun uintToString :: "nat \<Rightarrow> string" where
  "uintToString value =
     (if value < 10 then [digit_char value]
      else uintToString (value div 10) @ [digit_char (value mod 10)])"

declare uintToString.simps [simp del]

definition valueToString_int :: "int64 \<Rightarrow> string" where
  "valueToString_int value =
     (let isNegative = sint value < 0;
          v = (if isNegative then - value else value)
      in (if isNegative then ''-'' else []) @ uintToString (unat v))"

definition valueToString_uint :: "uint64 \<Rightarrow> string" where
  "valueToString_uint value = uintToString (unat value)"

definition valueToString_bool :: "bool \<Rightarrow> string" where
  "valueToString_bool value = (if value then ''true'' else ''false'')"

definition isControlCharacter :: "char \<Rightarrow> bool" where
  "isControlCharacter ch \<longleftrightarrow> 0 < (of_char ch :: nat) \<and> (of_char ch :: nat) \<le> 0x1F"

definition hex_digit :: "nat \<Rightarrow> char" where
  "hex_digit d = (if d < 10 then char_of (48 + d) else char_of (55 + d))"

definition escape_char :: "char \<Rightarrow> string" where
  "escape_char c =
     (if c = CHR 0x22 then [CHR 0x5C, CHR 0x22]
      else if c = CHR 0x5C then [CHR 0x5C, CHR 0x5C]
      else if c = CHR 0x08 then [CHR 0x5C, CHR ''b'']
      else if c = CHR 0x0C then [CHR 0x5C, CHR ''f'']
      else if c = CHR 0x0A then [CHR 0x5C, CHR ''n'']
      else if c = CHR 0x0D then [CHR 0x5C, CHR ''r'']
      else if c = CHR 0x09 then [CHR 0x5C, CHR ''t'']
      else if isControlCharacter c then
        [CHR 0x5C, CHR ''u'', CHR ''0'', CHR ''0'',
         hex_digit (of_char c div 16), hex_digit (of_char c mod 16)]
      else [c])"

text \<open>The first branch is the shortcut for strings with nothing to escape.\<close>

definition valueToQuotedString :: "string \<Rightarrow> string" where
  "valueToQuotedString s =
     (if list_all (\<lambda>c. c \<notin> {CHR 0x22, CHR 0x5C, CHR 0x08, CHR 0x0C, CHR 0x0A, CHR 0x0D, CHR 0x09}) s \<and>
         \<not> list_ex isControlCharacter s
      then [CHR 0x22] @ s @ [CHR 0x22]
      else [CHR 0x22] @ concat (map escape_char s) @ [CHR 0x22])"

definition asString :: "(rat \<Rightarrow> string) \<Rightarrow> Value \<Rightarrow> string option" where
  "asString fmt_g v = (case v of
      nullValue \<Rightarrow> Some []
    | stringValue s \<Rightarrow> Some s
    | booleanValue b \<Rightarrow> Some (valueToString_bool b)
    | intValue i \<Rightarrow> Some (valueToString_int i)
    | uintValue u \<Rightarrow> Some (valueToString_uint u)
    | realValue d \<Rightarrow> Some (fmt_g d)
    | _ \<Rightarrow> None)"

text \<open>\<^verbatim>\<open>FastWriter::writeValue\<close>; the lists of an array and of an object are printed with commas between.\<close>

fun join_comma :: "string list \<Rightarrow> string" where
  "join_comma [] = []"
| "join_comma [x] = x"
| "join_comma (x # xs) = x @ '','' @ join_comma xs"

fun writeValue :: "(rat \<Rightarrow> string) \<Rightarrow> Value \<Rightarrow> string" where
  "writeValue fmt_g nullValue = ''null''"
| "writeValue fmt_g (intValue i) = valueToString_int i"
| "writeValue fmt_g (uintValue u) = valueToString_uint u"
| "writeValue fmt_g (realValue d) = fmt_g d"
| "writeValue fmt_g (stringValue s) = valueToQuotedString s"
| "writeValue fmt_g (booleanValue b) = valueToString_bool b"
| "writeValue fmt_g (arrayValue xs) = ''['' @ join_comma (map (writeValue fmt_g) xs) @ '']''"
| "writeValue fmt_g (objectValue m) =
     ''{'' @ join_comma (map (\<lambda>(k, x). valueToQuotedString k @ '':'' @ writeValue fmt_g x) m) @ ''}''"

definition FastWriter_write :: "(rat \<Rightarrow> string) \<Rightarrow> Value \<Rightarrow> string" where
  "FastWriter_write fmt_g doc = writeValue fmt_g doc @ [CHR 0x0A]"

section \<open>Reading a string token\<close>

text \<open>
  \<^verbatim>\<open>Reader::readString\<close> after the opening quote: the characters up to and including the
  closing quote, and the rest of the document; \<open>None\<close> when there is no closing quote.
  A backslash takes the next character with it.
\<close>

fun readString :: "string \<Rightarrow> (string \<times> string) option" where
  "readString [] = None"
| "readString (c # cs) =
     (if c = CHR 0x5C then
        (case cs of
           [] \<Rightarrow> None
         | d # ds \<Rightarrow> map_option (\<lambda>(t, r). (c # d # t, r)) (readString ds))
      else if c = CHR 0x22 then Some ([c], cs)
      else map_option (\<lambda>(t, r). (c # t, r)) (readString cs))"

definition hex_value :: "char \<Rightarrow> nat option" where
  "hex_value c =
     (let n = of_char c :: nat in
      if 48 \<le> n \<and> n \<le> 57 then Some (n - 48)
      else if 97 \<le> n \<and> n \<le> 102 then Some (n - 97 + 10)
      else if 65 \<le> n \<and> n \<le> 70 then Some (n - 65 + 10)
      else None)"

fun hex_digits :: "nat \<Rightarrow> nat \<Rightarrow> string \<Rightarrow> (nat \<times> string) option" where
  "hex_digits 0 acc cs = Some (acc, cs)"
| "hex_digits (Suc n) acc [] = None"
| "hex_digits (Suc n) acc (c # cs) =
     (case hex_value c of None \<Rightarrow> None | Some d \<Rightarrow> hex_digits n (acc * 16 + d) cs)"

definition decodeUnicodeEscapeSequence :: "string \<Rightarrow> (nat \<times> string) option" where
  "decodeUnicodeEscapeSequence cs = (if length cs < 4 then None else hex_digits 4 0 cs)"

definition decodeUnicodeCodePoint :: "string \<Rightarrow> (nat \<times> string) option" where
  "decodeUnicodeCodePoint cs =
     (case decodeUnicodeEscapeSequence cs of
        None \<Rightarrow> None
      | Some (unicode, r) \<Rightarrow>
          if 0xD800 \<le> unicode \<and> unicode \<le> 0xDBFF then
            if length r < 6 then None
            else if r ! 0 = CHR 0x5C \<and> r ! 1 = CHR ''u'' then
              (case decodeUnicodeEscapeSequence (drop 2 r) of
                 None \<Rightarrow> None
               | Some (surrogatePair, r') \<Rightarrow>
                   Some (0x10000 + (unicode mod 0x400) * 0x400 + surrogatePair mod 0x400, r'))
            else None
          else Some (unicode, r))"

definition codePointToUTF8 :: "nat \<Rightarrow> string" where
  "codePointToUTF8 cp =
     (if cp \<le> 0x7f then [char_of cp]
      else if cp \<le> 0x7FF then
        [char_of (0xC0 + (cp div 64) mod 32), char_of (0x80 + cp mod 64)]
      else if cp \<le> 0xFFFF then
        [char_of (0xE0 + (cp div 4096) mod 16), char_of (0x80 + (cp div 64) mod 64), char_of (0x80 + cp mod 64)]
      else if cp \<le> 0x10FFFF then
        [char_of (0xF0 + (cp div 262144) mod 8), char_of (0x80 + (cp div 4096) mod 64),
         char_of (0x80 + (cp div 64) mod 64), char_of (0x80 + cp mod 64)]
      else [])"

lemma hex_digits_length: "hex_digits n acc cs = Some (v, r) \<Longrightarrow> length r + n = length cs"
  by (induction n acc cs rule: hex_digits.induct) (auto split: option.splits)

lemma decodeUnicodeCodePoint_length: "decodeUnicodeCodePoint cs = Some (v, r) \<Longrightarrow> length r < length cs"
  by (auto simp: decodeUnicodeCodePoint_def decodeUnicodeEscapeSequence_def dest!: hex_digits_length
      split: option.splits if_splits)

text \<open>\<^verbatim>\<open>Reader::decodeString\<close> on the characters between the quotes.\<close>

function decodeString :: "string \<Rightarrow> string option" where
  "decodeString [] = Some []"
| "decodeString (c # cs) =
     (if c = CHR 0x22 then Some []
      else if c = CHR 0x5C then
        (case cs of
           [] \<Rightarrow> None
         | e # es \<Rightarrow>
             if e = CHR 0x22 then map_option ((#) (CHR 0x22)) (decodeString es)
             else if e = CHR ''/'' then map_option ((#) (CHR ''/'')) (decodeString es)
             else if e = CHR 0x5C then map_option ((#) (CHR 0x5C)) (decodeString es)
             else if e = CHR ''b'' then map_option ((#) (CHR 0x08)) (decodeString es)
             else if e = CHR ''f'' then map_option ((#) (CHR 0x0C)) (decodeString es)
             else if e = CHR ''n'' then map_option ((#) (CHR 0x0A)) (decodeString es)
             else if e = CHR ''r'' then map_option ((#) (CHR 0x0D)) (decodeString es)
             else if e = CHR ''t'' then map_option ((#) (CHR 0x09)) (decodeString es)
             else if e = CHR ''u'' then
               (case decodeUnicodeCodePoint es of
                  None \<Rightarrow> None
                | Some (unicode, r) \<Rightarrow> map_option ((@) (codePointToUTF8 unicode)) (decodeString r))
             else None)
      else map_option ((#) c) (decodeString cs))"
  by pat_completeness auto
termination
  by (relation "measure length") (auto dest: decodeUnicodeCodePoint_length)

declare decodeString.simps [simp del]

section \<open>Members\<close>

definition object_ok :: "Value \<Rightarrow> bool" where
  "object_ok v = (case v of nullValue \<Rightarrow> True | objectValue m \<Rightarrow> stdmap_ok m | _ \<Rightarrow> False)"

lemma object_ok_null [simp]: "object_ok nullValue"
  by (simp add: object_ok_def)

lemma resolveReference_set_ok:
  assumes "object_ok v"
  shows "\<exists>v'. resolveReference_set v k x = Some v' \<and> object_ok v' \<and>
    (\<forall>j. Value_at v' j = (if cstr j = cstr k then Some x else Value_at v j))"
proof (cases v)
  case nullValue
  then show ?thesis
    by (auto simp: resolveReference_set_def object_ok_def Value_at_def stdmap_ok_def)
next
  case (objectValue m)
  then have "stdmap_ok m" using assms by (simp add: object_ok_def)
  then show ?thesis using objectValue
    by (auto simp: resolveReference_set_def object_ok_def Value_at_def sm_find sm_inv)
qed (use assms in \<open>simp_all add: object_ok_def\<close>)

section \<open>Quoting\<close>

lemma escape_char_plain:
  "c \<notin> {CHR 0x22, CHR 0x5C, CHR 0x08, CHR 0x0C, CHR 0x0A, CHR 0x0D, CHR 0x09} \<Longrightarrow> \<not> isControlCharacter c \<Longrightarrow>
   escape_char c = [c]"
  by (simp add: escape_char_def)

lemma valueToQuotedString_eq:
  "valueToQuotedString s = [CHR 0x22] @ concat (map escape_char s) @ [CHR 0x22]"
proof -
  have "concat (map escape_char s) = s"
    if "list_all (\<lambda>c. c \<notin> {CHR 0x22, CHR 0x5C, CHR 0x08, CHR 0x0C, CHR 0x0A, CHR 0x0D, CHR 0x09}) s"
      "\<not> list_ex isControlCharacter s"
    using that by (induction s) (auto simp: escape_char_plain)
  then show ?thesis by (simp add: valueToQuotedString_def)
qed

lemma hex_value_digit: "d < 16 \<Longrightarrow> hex_value (hex_digit d) = Some d"
proof -
  assume "d < 16"
  moreover have "\<forall>d \<in> {0..<16}. hex_value (hex_digit d) = Some d"
    by (simp add: hex_value_def hex_digit_def Let_def)
  ultimately show ?thesis by simp
qed

lemma hex_digit_plain: "d < 16 \<Longrightarrow> hex_digit d \<noteq> CHR 0x22 \<and> hex_digit d \<noteq> CHR 0x5C"
proof -
  assume "d < 16"
  moreover have "\<forall>d \<in> {0..<16}. hex_digit d \<noteq> CHR 0x22 \<and> hex_digit d \<noteq> CHR 0x5C" by code_simp
  ultimately show ?thesis by simp
qed

lemma control_bounds: "isControlCharacter c \<Longrightarrow> (of_char c :: nat) div 16 < 16 \<and> (of_char c :: nat) mod 16 < 16"
  by (auto simp: isControlCharacter_def)

lemma readString_escape:
  "readString (escape_char c @ r) = map_option (\<lambda>(t, r'). (escape_char c @ t, r')) (readString r)"
proof (cases "isControlCharacter c")
  case True
  then show ?thesis
    using hex_digit_plain control_bounds [OF True]
    by (auto simp: escape_char_def option.map_comp comp_def case_prod_unfold)
next
  case False
  then show ?thesis by (auto simp: escape_char_def)
qed

lemma readString_quoted:
  "readString (concat (map escape_char s) @ CHR 0x22 # r) = Some (concat (map escape_char s) @ [CHR 0x22], r)"
  by (induction s) (simp_all add: readString_escape)

lemma decode_control:
  assumes "isControlCharacter c"
  shows "decodeUnicodeCodePoint (CHR ''0'' # CHR ''0'' # hex_digit (of_char c div 16) # hex_digit (of_char c mod 16) # r) =
    Some (of_char c, r)"
proof -
  have z: "hex_value (CHR ''0'') = Some 0" by (simp add: hex_value_def)
  have four: "(4 :: nat) = Suc (Suc (Suc (Suc 0)))" by simp
  have c: "(of_char c :: nat) \<le> 31" using assms by (simp add: isControlCharacter_def)
  have "hex_digits 4 0 (CHR ''0'' # CHR ''0'' # hex_digit (of_char c div 16) # hex_digit (of_char c mod 16) # r) =
      Some (of_char c, r)"
    unfolding four using control_bounds [OF assms] by (simp add: z hex_value_digit)
  then show ?thesis
    using c by (simp add: decodeUnicodeCodePoint_def decodeUnicodeEscapeSequence_def)
qed

lemma decodeString_escape: "decodeString (escape_char c @ r) = map_option ((#) c) (decodeString r)"
proof (cases "isControlCharacter c")
  case True
  then have "codePointToUTF8 (of_char c) = [c]" by (simp add: codePointToUTF8_def isControlCharacter_def)
  moreover have "(@) [c] = (#) c" by (simp add: fun_eq_iff)
  ultimately show ?thesis using decode_control [OF True, of r]
    by (auto simp: escape_char_def decodeString.simps comp_def)
next
  case False
  then show ?thesis by (auto simp: escape_char_def decodeString.simps)
qed

lemma decodeString_quoted: "decodeString (concat (map escape_char s)) = Some s"
  by (induction s) (simp_all add: decodeString_escape decodeString.simps)

text \<open>
  A string the writer quotes, whatever bytes it has, is one token for
  the reader: it ends exactly at the closing quote, whatever follows, and decodes to the
  original string.
\<close>

theorem quoted_string_roundtrip:
  "\<exists>body. valueToQuotedString s = [CHR 0x22] @ body @ [CHR 0x22] \<and>
     readString (body @ [CHR 0x22] @ rest) = Some (body @ [CHR 0x22], rest) \<and>
     decodeString body = Some s"
  using readString_quoted [of s rest] decodeString_quoted [of s]
  by (intro exI [of _ "concat (map escape_char s)"]) (simp add: valueToQuotedString_eq)

text \<open>Decimal digits.\<close>

definition digits_value :: "string \<Rightarrow> nat" where
  "digits_value s = foldl (\<lambda>n c. n * 10 + (of_char c - 48)) 0 s"

lemma of_char_digit: "d < 10 \<Longrightarrow> (of_char (digit_char d) :: nat) = 48 + d"
  by (simp add: digit_char_def)

lemma uintToString_value: "digits_value (uintToString n) = n"
proof (induction n rule: uintToString.induct)
  case (1 n)
  then show ?case by (subst uintToString.simps) (auto simp: digits_value_def of_char_digit)
qed

text \<open>
  The members of an object behave as a finite map, whose keys are
  printed in ascending order: after \<^verbatim>\<open>value[k] = x\<close> the member \<open>k\<close> reads \<open>x\<close> and every
  other member reads as before, and the object stays sorted.
\<close>

theorem json_member_update:
  assumes "object_ok v"
  shows "\<exists>v'. resolveReference_set v k x = Some v' \<and> object_ok v' \<and>
    Value_at v' k = Some x \<and> (\<forall>j. cstr j \<noteq> cstr k \<longrightarrow> Value_at v' j = Value_at v j)"
  using resolveReference_set_ok [OF assms, of k x] by auto

theorem json_member_update_witness:
  "\<exists>v'. resolveReference_set (objectValue [(''a'', nullValue)]) ''cmd'' (booleanValue True) = Some v' \<and>
     Value_at v' ''cmd'' = Some (booleanValue True) \<and> Value_at v' ''a'' = Some nullValue"
proof -
  have "object_ok (objectValue [(''a'', nullValue)])" by (simp add: object_ok_def stdmap_ok_def)
  from json_member_update [OF this, of "''cmd''" "booleanValue True"]
  obtain v' where "resolveReference_set (objectValue [(''a'', nullValue)]) ''cmd'' (booleanValue True) = Some v'"
    "Value_at v' ''cmd'' = Some (booleanValue True)"
    "\<forall>j. cstr j \<noteq> cstr ''cmd'' \<longrightarrow> Value_at v' j = Value_at (objectValue [(''a'', nullValue)]) j"
    by blast
  moreover have "cstr ''a'' \<noteq> cstr ''cmd''" "Value_at (objectValue [(''a'', nullValue)]) ''a'' = Some nullValue"
    by (simp_all add: cstr_def Value_at_def)
  ultimately show ?thesis by metis
qed

end
