(* ===== verification/Vz_Jsonreader.thy ===== *)
theory Vz_Jsonreader
  imports Vz_Json
begin

text \<open>
  \<^verbatim>\<open>Json::Reader\<close> of \<^verbatim>\<open>src/src/json/jsoncpp.cpp\<close> with the default features: tokens, numbers, values and
  the recovery after an error, on the characters that are left of the document.  Comments are
  skipped and not attached to values, offsets and error texts are left out.  \<open>scan_lf\<close> is the
  conversion \<^verbatim>\<open>%lf\<close> of the C library.
\<close>

section \<open>Tokens\<close>

datatype TokenType =
    tokenEndOfStream | tokenObjectBegin | tokenObjectEnd | tokenArrayBegin | tokenArrayEnd | tokenString
  | tokenNumber | tokenTrue | tokenFalse | tokenNull | tokenArraySeparator | tokenMemberSeparator
  | tokenComment | tokenError

definition is_space :: "char \<Rightarrow> bool" where
  "is_space c \<longleftrightarrow> c = CHR '' '' \<or> c = CHR 0x09 \<or> c = CHR 0x0D \<or> c = CHR 0x0A"

definition skipSpaces :: "string \<Rightarrow> string" where
  "skipSpaces cs = dropWhile is_space cs"

definition getNextChar :: "string \<Rightarrow> char \<times> string" where
  "getNextChar cs = (case cs of [] \<Rightarrow> (CHR 0x00, []) | c # r \<Rightarrow> (c, r))"

definition match_pattern :: "string \<Rightarrow> string \<Rightarrow> bool \<times> string" where
  "match_pattern pattern cs =
     (if length cs < length pattern then (False, cs)
      else if take (length pattern) cs = pattern then (True, drop (length pattern) cs)
      else (False, cs))"

fun readCStyleComment :: "string \<Rightarrow> bool \<times> string" where
  "readCStyleComment [] = (False, [])"
| "readCStyleComment (c # cs) =
     (if c = CHR ''*'' \<and> cs \<noteq> [] \<and> hd cs = CHR ''/'' then (True, tl cs) else readCStyleComment cs)"

fun readCppStyleComment :: "string \<Rightarrow> string" where
  "readCppStyleComment [] = []"
| "readCppStyleComment (c # cs) = (if c = CHR 0x0D \<or> c = CHR 0x0A then cs else readCppStyleComment cs)"

definition readComment :: "string \<Rightarrow> bool \<times> string" where
  "readComment cs =
     (let (c, r) = getNextChar cs in
      if c = CHR ''*'' then readCStyleComment r
      else if c = CHR ''/'' then (True, readCppStyleComment r)
      else (False, r))"

definition digit :: "char \<Rightarrow> bool" where
  "digit c \<longleftrightarrow> 48 \<le> (of_char c :: nat) \<and> (of_char c :: nat) \<le> 57"

definition number_char :: "char \<Rightarrow> bool" where
  "number_char c \<longleftrightarrow> digit c \<or> c \<in> {CHR ''.'', CHR ''e'', CHR ''E'', CHR ''+'', CHR ''-''}"

definition readNumber :: "string \<Rightarrow> string" where
  "readNumber cs = dropWhile number_char cs"

definition ok_or_error :: "TokenType \<Rightarrow> bool \<times> string \<Rightarrow> TokenType \<times> string" where
  "ok_or_error ty = (\<lambda>(ok, r). (if ok then ty else tokenError, r))"

text \<open>The type of the token at the front and what follows it.\<close>

definition token_at :: "string \<Rightarrow> TokenType \<times> string" where
  "token_at cs =
     (let (c, r) = getNextChar cs in
      if c = CHR ''{'' then (tokenObjectBegin, r)
      else if c = CHR ''}'' then (tokenObjectEnd, r)
      else if c = CHR ''['' then (tokenArrayBegin, r)
      else if c = CHR '']'' then (tokenArrayEnd, r)
      else if c = CHR 0x22 then
        (case readString r of None \<Rightarrow> (tokenError, []) | Some (_, r') \<Rightarrow> (tokenString, r'))
      else if c = CHR ''/'' then ok_or_error tokenComment (readComment r)
      else if digit c \<or> c = CHR ''-'' then (tokenNumber, readNumber r)
      else if c = CHR ''t'' then ok_or_error tokenTrue (match_pattern ''rue'' r)
      else if c = CHR ''f'' then ok_or_error tokenFalse (match_pattern ''alse'' r)
      else if c = CHR ''n'' then ok_or_error tokenNull (match_pattern ''ull'' r)
      else if c = CHR '','' then (tokenArraySeparator, r)
      else if c = CHR '':'' then (tokenMemberSeparator, r)
      else if c = CHR 0x00 then (tokenEndOfStream, r)
      else (tokenError, r))"

text \<open>The type, the characters of the token and the rest.\<close>

definition readToken :: "string \<Rightarrow> TokenType \<times> string \<times> string" where
  "readToken cs =
     (let start = skipSpaces cs; (ty, r) = token_at start
      in (ty, take (length start - length r) start, r))"

lemma length_readCStyleComment: "length (snd (readCStyleComment cs)) \<le> length cs"
  by (induction cs rule: readCStyleComment.induct) auto

lemma length_readCppStyleComment: "length (readCppStyleComment cs) \<le> length cs"
  by (induction cs rule: readCppStyleComment.induct) auto

lemma length_readString: "readString cs = Some (t, r) \<Longrightarrow> length r < length cs"
  by (induction cs arbitrary: t r rule: readString.induct)
     (auto split: if_splits list.splits, (meson less_SucI less_Suc_eq)+)

lemma length_readComment: "length (snd (readComment cs)) \<le> length cs"
  using length_readCStyleComment [of "tl cs"] length_readCppStyleComment [of "tl cs"]
  by (cases cs) (simp_all add: readComment_def getNextChar_def)

lemma length_match: "length (snd (match_pattern p cs)) \<le> length cs"
  by (simp add: match_pattern_def)

lemma length_readNumber: "length (readNumber cs) \<le> length cs"
  by (simp add: readNumber_def length_dropWhile_le)

lemma token_at_length:
  assumes "token_at (c # r) = (ty, r')"
  shows "length r' \<le> length r"
proof -
  have "snd (token_at (c # r)) \<in> {r, [], snd (readComment r), readNumber r, snd (match_pattern ''rue'' r),
      snd (match_pattern ''alse'' r), snd (match_pattern ''ull'' r)} \<union> {r''. \<exists>t. readString r = Some (t, r'')}"
    by (simp add: token_at_def getNextChar_def ok_or_error_def split_beta split: option.split)
  then show ?thesis
    using length_readComment [of r] length_readNumber [of r] length_match [of _ r] length_readString [of r] assms
    by (auto dest: less_imp_le)
qed

lemma token_at_Nil: "token_at [] = (tokenEndOfStream, [])"
  by (simp add: token_at_def getNextChar_def digit_def)

lemma readToken_length:
  assumes "readToken cs = (ty, text, r)"
  shows "length r \<le> length cs" and "ty \<noteq> tokenEndOfStream \<Longrightarrow> length r < length cs"
proof -
  obtain start where s: "start = skipSpaces cs" "length start \<le> length cs"
    by (simp add: skipSpaces_def length_dropWhile_le)
  have t: "token_at start = (ty, r)" using assms s(1) by (auto simp: readToken_def Let_def split: prod.splits)
  show "length r \<le> length cs" "ty \<noteq> tokenEndOfStream \<Longrightarrow> length r < length cs"
    using t s(2) token_at_length [of "hd start" "tl start" ty r]
    by (cases start; simp add: token_at_Nil)+
qed

lemma readToken_shorter:
  "fst (readToken cs) \<noteq> tokenEndOfStream \<Longrightarrow> length (snd (snd (readToken cs))) < length cs"
  using readToken_length(2) [of cs "fst (readToken cs)" "fst (snd (readToken cs))" "snd (snd (readToken cs))"] by simp

text \<open>Comments are tokens; the loop reads on until there is another one.\<close>

function skipCommentTokens :: "string \<Rightarrow> TokenType \<times> string \<times> string" where
  "skipCommentTokens cs =
     (if fst (readToken cs) = tokenComment then skipCommentTokens (snd (snd (readToken cs))) else readToken cs)"
  by pat_completeness auto
termination
  by (relation "measure length") (auto intro: readToken_shorter)

declare skipCommentTokens.simps [simp del]

text \<open>Skip tokens up to the given one or the end, and always fail.\<close>

function recoverFromError :: "TokenType \<Rightarrow> string \<Rightarrow> string" where
  "recoverFromError skipUntilToken cs =
     (if fst (readToken cs) = skipUntilToken \<or> fst (readToken cs) = tokenEndOfStream then snd (snd (readToken cs))
      else recoverFromError skipUntilToken (snd (snd (readToken cs))))"
  by pat_completeness auto
termination
  by (relation "measure (\<lambda>(t, cs). length cs)") (auto intro: readToken_shorter)

declare recoverFromError.simps [simp del]

section \<open>Numbers\<close>

definition isDouble :: "string \<Rightarrow> bool" where
  "isDouble text \<longleftrightarrow> list_ex (\<lambda>c. c \<in> {CHR ''.'', CHR ''e'', CHR ''E'', CHR ''+''}) text \<or>
     list_ex (\<lambda>c. c = CHR ''-'') (tl text)"

datatype int_result = NotANumber | TooLarge | IntegerValue nat

fun int_loop :: "nat \<Rightarrow> nat \<Rightarrow> string \<Rightarrow> int_result" where
  "int_loop maxv value [] = IntegerValue value"
| "int_loop maxv value (c # cs) =
     (if \<not> digit c then NotANumber
      else let d = of_char c - 48; threshold = maxv div 10 in
           if threshold \<le> value \<and> (threshold < value \<or> cs \<noteq> [] \<or> maxv mod 10 < d) then TooLarge
           else int_loop maxv (value * 10 + d) cs)"

definition decodeDouble :: "(string \<Rightarrow> rat option) \<Rightarrow> string \<Rightarrow> Value option" where
  "decodeDouble scan_lf text = map_option realValue (scan_lf text)"

definition decodeNumber :: "(string \<Rightarrow> rat option) \<Rightarrow> string \<Rightarrow> Value option" where
  "decodeNumber scan_lf text =
     (if isDouble text then decodeDouble scan_lf text
      else let isNegative = (text \<noteq> [] \<and> hd text = CHR ''-'');
               maxIntegerValue = (if isNegative then 2 ^ 63 else 2 ^ 64 - 1) in
           case int_loop maxIntegerValue 0 (if isNegative then tl text else text) of
             NotANumber \<Rightarrow> None
           | TooLarge \<Rightarrow> decodeDouble scan_lf text
           | IntegerValue value \<Rightarrow>
               Some (if isNegative then intValue (- of_nat value)
                     else if int value \<le> maxInt then intValue (of_nat value)
                     else uintValue (of_nat value)))"

section \<open>Values\<close>

datatype read_result = ReadOk Value string | ReadFail string | OutOfFuel

text \<open>
  The recursion is bounded by the first number; the bound that \<open>Reader_parse\<close> takes from the length of
  the document is never reached.  \<open>name\<close> is the name of the last member.
\<close>

fun readValue :: "(string \<Rightarrow> rat option) \<Rightarrow> nat \<Rightarrow> string \<Rightarrow> read_result"
  and readObject :: "(string \<Rightarrow> rat option) \<Rightarrow> nat \<Rightarrow> string \<Rightarrow> (string \<times> Value) list \<Rightarrow> string \<Rightarrow> read_result"
  and readArray :: "(string \<Rightarrow> rat option) \<Rightarrow> nat \<Rightarrow> Value list \<Rightarrow> string \<Rightarrow> read_result" where
  "readValue scan_lf 0 cs = OutOfFuel"
| "readValue scan_lf (Suc n) cs =
     (let (ty, text, r) = skipCommentTokens cs in
      case ty of
        tokenObjectBegin \<Rightarrow> readObject scan_lf n [] [] r
      | tokenArrayBegin \<Rightarrow>
          if skipSpaces r \<noteq> [] \<and> hd (skipSpaces r) = CHR '']'' then ReadOk (arrayValue []) (snd (snd (readToken r)))
          else readArray scan_lf n [] r
      | tokenNumber \<Rightarrow> (case decodeNumber scan_lf text of None \<Rightarrow> ReadFail r | Some v \<Rightarrow> ReadOk v r)
      | tokenString \<Rightarrow>
          (case decodeString (butlast (tl text)) of None \<Rightarrow> ReadFail r | Some s \<Rightarrow> ReadOk (stringValue (cstr s)) r)
      | tokenTrue \<Rightarrow> ReadOk (booleanValue True) r
      | tokenFalse \<Rightarrow> ReadOk (booleanValue False) r
      | tokenNull \<Rightarrow> ReadOk nullValue r
      | _ \<Rightarrow> ReadFail r)"
| "readObject scan_lf 0 name m cs = OutOfFuel"
| "readObject scan_lf (Suc n) name m cs =
     (let (ty, text, r) = skipCommentTokens cs in
      if ty = tokenObjectEnd \<and> name = [] then ReadOk (objectValue m) r
      else if ty = tokenString then
        (case decodeString (butlast (tl text)) of
           None \<Rightarrow> ReadFail (recoverFromError tokenObjectEnd r)
         | Some name' \<Rightarrow>
             let (colon, _, r1) = readToken r in
             if colon \<noteq> tokenMemberSeparator then ReadFail (recoverFromError tokenObjectEnd r1)
             else (case readValue scan_lf n r1 of
                     OutOfFuel \<Rightarrow> OutOfFuel
                   | ReadFail r2 \<Rightarrow> ReadFail (recoverFromError tokenObjectEnd r2)
                   | ReadOk v r2 \<Rightarrow>
                       let m' = stdmap_set (cstr name') v m; (comma, t3, r3) = readToken r2 in
                       if comma \<notin> {tokenObjectEnd, tokenArraySeparator, tokenComment}
                       then ReadFail (recoverFromError tokenObjectEnd r3)
                       else let (comma', _, r4) = (if comma = tokenComment then skipCommentTokens r3 else (comma, t3, r3)) in
                            if comma' = tokenObjectEnd then ReadOk (objectValue m') r4
                            else readObject scan_lf n name' m' r4))
      else ReadFail (recoverFromError tokenObjectEnd r))"
| "readArray scan_lf 0 xs cs = OutOfFuel"
| "readArray scan_lf (Suc n) xs cs =
     (case readValue scan_lf n cs of
        OutOfFuel \<Rightarrow> OutOfFuel
      | ReadFail r \<Rightarrow> ReadFail (recoverFromError tokenArrayEnd r)
      | ReadOk v r \<Rightarrow>
          let (ty, _, r1) = skipCommentTokens r in
          if ty = tokenArrayEnd then ReadOk (arrayValue (xs @ [v])) r1
          else if ty = tokenArraySeparator then readArray scan_lf n (xs @ [v]) r1
          else ReadFail (recoverFromError tokenArrayEnd r1))"

definition Reader_parse :: "(string \<Rightarrow> rat option) \<Rightarrow> string \<Rightarrow> Value option" where
  "Reader_parse scan_lf document =
     (case readValue scan_lf (2 * length document + 2) document of ReadOk v r \<Rightarrow> Some v | _ \<Rightarrow> None)"

section \<open>The reader ends\<close>

lemma skipCommentTokens_length:
  "skipCommentTokens cs = (ty, tx, r) \<Longrightarrow> length r \<le> length cs \<and> (ty \<noteq> tokenEndOfStream \<longrightarrow> length r < length cs)"
proof (induction cs rule: skipCommentTokens.induct)
  case (1 cs)
  show ?case
  proof (cases "fst (readToken cs) = tokenComment")
    case True
    then have "skipCommentTokens (snd (snd (readToken cs))) = (ty, tx, r)"
      using 1(2) by (simp add: skipCommentTokens.simps [of cs])
    with 1(1) [OF True] readToken_shorter [of cs] True show ?thesis by simp
  next
    case False
    then have "readToken cs = (ty, tx, r)" using 1(2) by (simp add: skipCommentTokens.simps [of cs])
    then show ?thesis using readToken_length [of cs ty tx r] by simp
  qed
qed

text \<open>A reader of the first kind needs \<open>2 * length cs + 1\<close> as its bound and leaves less than it got.\<close>

definition returns :: "string \<Rightarrow> read_result \<Rightarrow> bool" where
  "returns cs res \<longleftrightarrow> (case res of OutOfFuel \<Rightarrow> False | ReadFail r \<Rightarrow> True | ReadOk v r \<Rightarrow> length r < length cs)"

lemma returns_simps [simp]:
  "returns cs (ReadFail r)" "returns cs (ReadOk v r) \<longleftrightarrow> length r < length cs" "\<not> returns cs OutOfFuel"
  by (simp_all add: returns_def)

lemma returns_longer: "returns r res \<Longrightarrow> length r \<le> length cs \<Longrightarrow> returns cs res"
  by (cases res) simp_all

lemma readValue_returns:
  assumes "\<And>r. length r < length cs \<Longrightarrow> returns r (readObject scan_lf n [] [] r)"
    and "\<And>r. length r < length cs \<Longrightarrow> returns r (readArray scan_lf n [] r)"
  shows "returns cs (readValue scan_lf (Suc n) cs)"
proof -
  obtain ty tx r where t: "skipCommentTokens cs = (ty, tx, r)" using prod_cases3 by blast
  have l: "ty \<noteq> tokenEndOfStream \<Longrightarrow> length r < length cs" using skipCommentTokens_length [OF t] by simp
  have e: "length (snd (snd (readToken r))) \<le> length r"
    using readToken_length(1) [of r "fst (readToken r)" "fst (snd (readToken r))" "snd (snd (readToken r))"] by simp
  show ?thesis
    using assms(1) [of r] assms(2) [of r] l e returns_longer [of r _ cs]
    by (cases ty) (auto simp: t split: option.split)
qed

lemma readObject_returns:
  assumes "\<And>r. length r < length cs \<Longrightarrow> returns r (readValue scan_lf n r)"
    and "\<And>name m r. length r < length cs \<Longrightarrow> returns r (readObject scan_lf n name m r)"
  shows "returns cs (readObject scan_lf (Suc n) name m cs)"
proof -
  obtain ty tx r where t: "skipCommentTokens cs = (ty, tx, r)" using prod_cases3 by blast
  have l: "ty \<noteq> tokenEndOfStream \<Longrightarrow> length r < length cs" using skipCommentTokens_length [OF t] by simp
  show ?thesis
  proof (cases "ty = tokenString \<and> decodeString (butlast (tl tx)) \<noteq> None")
    case True
    then obtain name' where n: "ty = tokenString" "decodeString (butlast (tl tx)) = Some name'" by auto
    obtain colon t1 r1 where c: "readToken r = (colon, t1, r1)" using prod_cases3 by blast
    have r1: "length r1 < length cs" using readToken_length(1) [OF c] l n(1) by simp
    show ?thesis
    proof (cases "readValue scan_lf n r1")
      case (ReadOk v r2)
      then have r2: "length r2 < length cs" using assms(1) [OF r1] r1 by simp
      obtain comma t3 r3 where k: "readToken r2 = (comma, t3, r3)" using prod_cases3 by blast
      obtain comma' t4 r4 where k': "(if comma = tokenComment then skipCommentTokens r3 else (comma, t3, r3)) = (comma', t4, r4)"
        using prod_cases3 by blast
      have "length r3 < length cs" using readToken_length(1) [OF k] r2 by simp
      then have r4: "length r4 < length cs" using k' skipCommentTokens_length [of r3 comma' t4 r4] by (auto split: if_splits)
      show ?thesis
        using returns_longer [OF assms(2) [OF r4]] r4 by (simp add: t n c ReadOk k k' Let_def del: insert_iff)
    qed (use assms(1) [OF r1] in \<open>auto simp: t n c\<close>)
  qed (use l in \<open>auto simp: t split: option.split\<close>)
qed

lemma readArray_returns:
  assumes "returns cs (readValue scan_lf n cs)"
    and "\<And>xs r. length r < length cs \<Longrightarrow> returns r (readArray scan_lf n xs r)"
  shows "returns cs (readArray scan_lf (Suc n) xs cs)"
proof (cases "readValue scan_lf n cs")
  case (ReadOk v r)
  obtain ty tx r1 where t: "skipCommentTokens r = (ty, tx, r1)" using prod_cases3 by blast
  have r1: "length r1 < length cs" using skipCommentTokens_length [OF t] assms(1) ReadOk by simp
  show ?thesis using returns_longer [OF assms(2) [OF r1]] r1 by (simp add: ReadOk t)
qed (use assms(1) in auto)

lemma reader_returns:
  "(\<forall>cs. 2 * length cs + 1 \<le> n \<longrightarrow> returns cs (readValue scan_lf n cs)) \<and>
   (\<forall>name m cs. 2 * length cs + 1 \<le> n \<longrightarrow> returns cs (readObject scan_lf n name m cs)) \<and>
   (\<forall>xs cs. 2 * length cs + 2 \<le> n \<longrightarrow> returns cs (readArray scan_lf n xs cs))"
proof (induction n)
  case (Suc n)
  then have v: "2 * length r + 1 \<le> n \<Longrightarrow> returns r (readValue scan_lf n r)"
    and o: "2 * length r + 1 \<le> n \<Longrightarrow> returns r (readObject scan_lf n name m r)"
    and a: "2 * length r + 2 \<le> n \<Longrightarrow> returns r (readArray scan_lf n xs r)" for r name m xs by blast+
  have "returns cs (readValue scan_lf (Suc n) cs)" if "2 * length cs + 1 \<le> Suc n" for cs
    by (rule readValue_returns) (use that in \<open>auto intro!: o a\<close>)
  moreover have "returns cs (readObject scan_lf (Suc n) name m cs)" if "2 * length cs + 1 \<le> Suc n" for cs name m
    by (rule readObject_returns) (use that in \<open>auto intro!: o v\<close>)
  moreover have "returns cs (readArray scan_lf (Suc n) xs cs)" if "2 * length cs + 2 \<le> Suc n" for cs xs
    by (rule readArray_returns) (use that in \<open>auto intro!: v a\<close>)
  ultimately show ?case by blast
qed simp

text \<open>A larger bound gives the same result.\<close>

definition extends :: "read_result \<Rightarrow> read_result \<Rightarrow> bool" where
  "extends res res' \<longleftrightarrow> res = OutOfFuel \<or> res' = res"

lemma readValue_extends:
  assumes "\<And>r. extends (readObject scan_lf n [] [] r) (readObject scan_lf n' [] [] r)"
    and "\<And>r. extends (readArray scan_lf n [] r) (readArray scan_lf n' [] r)"
  shows "extends (readValue scan_lf (Suc n) cs) (readValue scan_lf (Suc n') cs)"
proof -
  obtain ty tx r where t: "skipCommentTokens cs = (ty, tx, r)" using prod_cases3 by blast
  show ?thesis using assms(1) [of r] assms(2) [of r] by (cases ty) (auto simp: t extends_def split: option.split)
qed

lemma readObject_extends:
  assumes "\<And>r. extends (readValue scan_lf n r) (readValue scan_lf n' r)"
    and "\<And>name m r. extends (readObject scan_lf n name m r) (readObject scan_lf n' name m r)"
  shows "extends (readObject scan_lf (Suc n) name m cs) (readObject scan_lf (Suc n') name m cs)"
proof -
  obtain ty tx r where t: "skipCommentTokens cs = (ty, tx, r)" using prod_cases3 by blast
  obtain colon t1 r1 where c: "readToken r = (colon, t1, r1)" using prod_cases3 by blast
  show ?thesis
  proof (cases "readValue scan_lf n r1")
    case (ReadOk v r2)
    then have v: "readValue scan_lf n' r1 = ReadOk v r2" using assms(1) [of r1] by (simp add: extends_def)
    obtain comma t3 r3 where k: "readToken r2 = (comma, t3, r3)" using prod_cases3 by blast
    obtain comma' t4 r4 where k': "skipCommentTokens r3 = (comma', t4, r4)" using prod_cases3 by blast
    have e: "extends (readObject scan_lf n name' m' q) (readObject scan_lf n' name' m' q)" for name' m' q by (rule assms(2))
    show ?thesis
    proof (cases "comma = tokenComment")
      case True
      then show ?thesis
        using e by (auto simp: t c ReadOk v k k' Let_def extends_def split: option.split)
    next
      case False
      then show ?thesis
        using e by (auto simp: t c ReadOk v k Let_def extends_def split: option.split)
    qed
  next
    case (ReadFail r2)
    then have "readValue scan_lf n' r1 = ReadFail r2" using assms(1) [of r1] by (simp add: extends_def)
    with ReadFail show ?thesis by (auto simp: t c extends_def split: option.split)
  next
    case OutOfFuel
    then show ?thesis by (auto simp: t c extends_def split: option.split)
  qed
qed

lemma readArray_extends:
  assumes "\<And>r. extends (readValue scan_lf n r) (readValue scan_lf n' r)"
    and "\<And>xs r. extends (readArray scan_lf n xs r) (readArray scan_lf n' xs r)"
  shows "extends (readArray scan_lf (Suc n) xs cs) (readArray scan_lf (Suc n') xs cs)"
proof (cases "readValue scan_lf n cs")
  case (ReadOk v r)
  then have v: "readValue scan_lf n' cs = ReadOk v r" using assms(1) [of cs] by (simp add: extends_def)
  obtain ty tx r1 where t: "skipCommentTokens r = (ty, tx, r1)" using prod_cases3 by blast
  show ?thesis using assms(2) [of "xs @ [v]" r1] by (auto simp: ReadOk v t extends_def)
qed (use assms(1) [of cs] in \<open>auto simp: extends_def\<close>)

lemma reader_extends:
  "n \<le> n' \<Longrightarrow> (\<forall>cs. extends (readValue scan_lf n cs) (readValue scan_lf n' cs)) \<and>
   (\<forall>name m cs. extends (readObject scan_lf n name m cs) (readObject scan_lf n' name m cs)) \<and>
   (\<forall>xs cs. extends (readArray scan_lf n xs cs) (readArray scan_lf n' xs cs))"
proof (induction n arbitrary: n')
  case (Suc n)
  then obtain k where k: "n' = Suc k" "n \<le> k" by (cases n') auto
  then show ?case
    using readValue_extends [of scan_lf n k] readObject_extends [of scan_lf n k] readArray_extends [of scan_lf n k] Suc.IH [OF k(2)]
    by blast
qed (simp add: extends_def)

text \<open>
  C15 (termination).  The reader returns on every document, well-formed or not, and leaves a
  proper rest when it succeeds: a recursion depth of twice the length of the document and
  one is always enough, and with any larger bound the result is the same.
\<close>

theorem json_reader_terminates:
  assumes "2 * length document + 1 \<le> n"
  shows "readValue scan_lf n document \<noteq> OutOfFuel \<and>
    readValue scan_lf n document = readValue scan_lf (2 * length document + 1) document \<and>
    (\<forall>v r. readValue scan_lf n document = ReadOk v r \<longrightarrow> length r < length document)"
proof -
  have r: "returns document (readValue scan_lf k document)" if "2 * length document + 1 \<le> k" for k
    using reader_returns that by blast
  have "readValue scan_lf n document = readValue scan_lf (2 * length document + 1) document"
  proof -
    have "extends (readValue scan_lf (2 * length document + 1) document) (readValue scan_lf n document)"
      using reader_extends [OF assms] by blast
    moreover have "readValue scan_lf (2 * length document + 1) document \<noteq> OutOfFuel"
      using r [OF order_refl] returns_simps(3) by metis
    ultimately show ?thesis unfolding extends_def by blast
  qed
  then show ?thesis using r [OF assms] by (cases "readValue scan_lf n document") auto
qed

theorem json_reader_terminates_witness:
  "readValue (\<lambda>s. None) 20 ''[[1'' = readValue (\<lambda>s. None) (2 * length ''[[1'' + 1) ''[[1'' \<and>
   readValue (\<lambda>s. None) 20 ''[[1'' \<noteq> OutOfFuel"
proof -
  have "2 * length ''[[1'' + 1 \<le> 20" by simp
  from json_reader_terminates [OF this, of "\<lambda>s. None"] show ?thesis by blast
qed

section \<open>Reading what the writer prints\<close>

text \<open>
  The values whose text is exact: no doubles, which are printed with 16 digits, and no NUL in a
  string or a key.  The reader takes the C++ type of an integer from its size.
\<close>

definition no_nul :: "string \<Rightarrow> bool" where
  "no_nul s \<longleftrightarrow> list_all (\<lambda>c. c \<noteq> CHR 0x00) s"

fun printable :: "Value \<Rightarrow> bool" where
  "printable (realValue d) = False"
| "printable (stringValue s) = no_nul s"
| "printable (arrayValue xs) = list_all printable xs"
| "printable (objectValue m) = (stdmap_ok m \<and> list_all (\<lambda>(k, x). no_nul k \<and> printable x) m)"
| "printable v = True"

definition read_integer :: "64 word \<Rightarrow> Value" where
  "read_integer w = (if uint w \<le> maxInt then intValue w else uintValue w)"

fun read_back :: "Value \<Rightarrow> Value" where
  "read_back (intValue i) = (if sint i < 0 then intValue i else read_integer i)"
| "read_back (uintValue u) = read_integer u"
| "read_back (arrayValue xs) = arrayValue (map read_back xs)"
| "read_back (objectValue m) = objectValue (map (\<lambda>(k, x). (k, read_back x)) m)"
| "read_back v = v"

subsection \<open>Tokens of the writer\<close>

definition number_ends :: "string \<Rightarrow> bool" where
  "number_ends rest \<longleftrightarrow> rest = [] \<or> \<not> number_char (hd rest)"

lemma number_ends_simps [simp]: "number_ends []" "number_ends (c # r) \<longleftrightarrow> \<not> number_char c"
  by (simp_all add: number_ends_def)

lemma separators_end_numbers [simp]:
  "\<not> number_char (CHR '','')" "\<not> number_char (CHR '']'')" "\<not> number_char (CHR ''}'')" "\<not> number_char (CHR 0x0A)"
  by (simp_all add: number_char_def digit_def)

lemma readToken_plain:
  assumes "\<not> is_space c" and "token_at (c # r) = (ty, r')" and "c # r = tx @ r'"
  shows "readToken (c # r) = (ty, tx, r')"
proof -
  have "skipSpaces (c # r) = c # r" using assms(1) by (simp add: skipSpaces_def)
  moreover have "take (length (c # r) - length r') (c # r) = tx" unfolding assms(3) by simp
  ultimately show ?thesis using assms(2) by (simp add: readToken_def Let_def)
qed

lemma skipCommentTokens_plain: "readToken cs = (ty, tx, r) \<Longrightarrow> ty \<noteq> tokenComment \<Longrightarrow> skipCommentTokens cs = (ty, tx, r)"
  by (simp add: skipCommentTokens.simps [of cs])

lemma readToken_punctuation [simp]:
  "readToken (CHR ''{'' # r) = (tokenObjectBegin, ''{'', r)" "readToken (CHR ''}'' # r) = (tokenObjectEnd, ''}'', r)"
  "readToken (CHR ''['' # r) = (tokenArrayBegin, ''['', r)" "readToken (CHR '']'' # r) = (tokenArrayEnd, '']'', r)"
  "readToken (CHR '','' # r) = (tokenArraySeparator, '','', r)" "readToken (CHR '':'' # r) = (tokenMemberSeparator, '':'', r)"
  by (rule readToken_plain; simp add: is_space_def token_at_def getNextChar_def digit_def)+

lemma readToken_words [simp]:
  "readToken (''true'' @ r) = (tokenTrue, ''true'', r)" "readToken (''false'' @ r) = (tokenFalse, ''false'', r)"
  "readToken (''null'' @ r) = (tokenNull, ''null'', r)"
  unfolding append_Cons append_Nil
  by (rule readToken_plain; simp add: is_space_def token_at_def getNextChar_def digit_def ok_or_error_def match_pattern_def)+

lemma readToken_quoted [simp]:
  "readToken (valueToQuotedString s @ r) = (tokenString, valueToQuotedString s, r)"
  unfolding valueToQuotedString_eq append_Cons append_Nil append_assoc
  by (rule readToken_plain) (simp_all add: is_space_def token_at_def getNextChar_def readString_quoted)

lemma skipCommentTokens_simps [simp]:
  "skipCommentTokens (CHR ''{'' # r) = (tokenObjectBegin, ''{'', r)" "skipCommentTokens (CHR ''}'' # r) = (tokenObjectEnd, ''}'', r)"
  "skipCommentTokens (CHR ''['' # r) = (tokenArrayBegin, ''['', r)" "skipCommentTokens (CHR '']'' # r) = (tokenArrayEnd, '']'', r)"
  "skipCommentTokens (CHR '','' # r) = (tokenArraySeparator, '','', r)"
  "skipCommentTokens (valueToQuotedString s @ r) = (tokenString, valueToQuotedString s, r)"
  by (simp_all add: skipCommentTokens_plain)

lemma readToken_number:
  assumes "digit c \<or> c = CHR ''-''" and "list_all number_char cs" and "number_ends r"
  shows "readToken (c # cs @ r) = (tokenNumber, c # cs, r)"
proof (rule readToken_plain)
  have "dropWhile number_char (cs @ r) = dropWhile number_char r"
    using assms(2) by (intro dropWhile_append2) (simp add: list_all_iff)
  also have "\<dots> = r" using assms(3) by (cases r) simp_all
  finally have "readNumber (cs @ r) = r" by (simp add: readNumber_def)
  then show "token_at (c # cs @ r) = (tokenNumber, r)"
    using assms(1) by (auto simp: token_at_def getNextChar_def digit_def)
  show "\<not> is_space c" using assms(1) by (auto simp: is_space_def digit_def)
qed simp

subsection \<open>Integers\<close>

lemma digit_digit_char: "d < 10 \<Longrightarrow> digit (digit_char d)"
  by (simp add: digit_def of_char_digit)

lemma uintToString_digits: "list_all digit (uintToString n) \<and> uintToString n \<noteq> []"
proof (induction n rule: uintToString.induct)
  case (1 n)
  then show ?case by (subst (1 2) uintToString.simps) (auto simp: digit_digit_char)
qed

lemma foldl_digits_le: "acc * 10 ^ length cs \<le> foldl (\<lambda>n c. n * 10 + (of_char c - 48)) acc cs" for acc :: nat
proof (induction cs arbitrary: acc)
  case (Cons c cs)
  have "acc * 10 ^ length (c # cs) = (acc * 10) * 10 ^ length cs" by simp
  also have "\<dots> \<le> (acc * 10 + (of_char c - 48)) * 10 ^ length cs" by (intro mult_le_mono1) simp
  also note Cons [of "acc * 10 + (of_char c - 48)"]
  finally show ?case by simp
qed simp

lemma int_loop_exact:
  assumes "list_all digit cs" and "foldl (\<lambda>n c. n * 10 + (of_char c - 48)) acc cs \<le> maxv" and "10 \<le> maxv"
  shows "int_loop maxv acc cs = IntegerValue (foldl (\<lambda>n c. n * 10 + (of_char c - 48)) acc cs)"
  using assms
proof (induction cs arbitrary: acc)
  case (Cons c cs)
  define d :: nat where "d = of_char c - 48"
  have le: "(acc * 10 + d) * 10 ^ length cs \<le> maxv"
    using foldl_digits_le [of "acc * 10 + d" cs] Cons.prems(2) by (simp add: d_def)
  have "(acc * 10 + d) * 1 \<le> (acc * 10 + d) * 10 ^ length cs" by (intro mult_le_mono2) simp
  from order_trans [OF this le] have one: "acc * 10 + d \<le> maxv" by simp
  have "\<not> (maxv div 10 \<le> acc \<and> (maxv div 10 < acc \<or> cs \<noteq> [] \<or> maxv mod 10 < d))"
  proof (cases cs)
    case (Cons c' cs')
    have "(acc * 10 + d) * 10 \<le> (acc * 10 + d) * 10 ^ length cs"
      unfolding Cons by (intro mult_le_mono2) simp
    from order_trans [OF this le] have "(acc * 10 + d) * 10 \<le> maxv" .
    then have "acc * 10 + 10 \<le> maxv" using Cons.prems(3) by (cases acc) simp_all
    then have "acc < maxv div 10" by linarith
    then show ?thesis by simp
  next
    case Nil
    have "maxv = 10 * (maxv div 10) + maxv mod 10" by simp
    then show ?thesis using one Nil by linarith
  qed
  then show ?case using Cons.prems Cons.IH [of "acc * 10 + d"] by (simp add: Let_def d_def)
qed simp

lemma int_loop_uintToString: "n \<le> maxv \<Longrightarrow> 10 \<le> maxv \<Longrightarrow> int_loop maxv 0 (uintToString n) = IntegerValue n"
  using int_loop_exact [of "uintToString n" 0 maxv] uintToString_digits [of n] uintToString_value [of n]
  by (simp add: digits_value_def)

lemma isDouble_digits: "list_all digit cs \<Longrightarrow> \<not> isDouble cs \<and> \<not> isDouble (CHR ''-'' # cs)"
proof -
  assume "list_all digit cs"
  then have "list_all (\<lambda>c. c \<notin> {CHR ''.'', CHR ''e'', CHR ''E'', CHR ''+'', CHR ''-''}) cs"
    by (auto simp: list_all_iff digit_def)
  then show ?thesis by (cases cs) (auto simp: isDouble_def list_all_iff list_ex_iff)
qed

lemma decodeNumber_digits:
  assumes "n \<le> 2 ^ 64 - 1"
  shows "decodeNumber scan_lf (uintToString n) = Some (read_integer (of_nat n))"
proof -
  obtain c cs where c: "uintToString n = c # cs" "digit c"
    using uintToString_digits [of n] by (cases "uintToString n") auto
  have "c \<noteq> CHR ''-''" using c(2) by (auto simp: digit_def)
  moreover have "uint (of_nat n :: 64 word) = int n" using assms by (simp add: unsigned_of_nat take_bit_nat_eq_self)
  ultimately show ?thesis
    using isDouble_digits [of "uintToString n"] uintToString_digits [of n] int_loop_uintToString [OF assms] c(1)
    by (simp add: decodeNumber_def Let_def read_integer_def)
qed

lemma decodeNumber_negative:
  assumes "n \<le> 2 ^ 63"
  shows "decodeNumber scan_lf (CHR ''-'' # uintToString n) = Some (intValue (- of_nat n))"
  using isDouble_digits [of "uintToString n"] uintToString_digits [of n] int_loop_uintToString [OF assms]
  by (simp add: decodeNumber_def Let_def)

subsection \<open>Values\<close>

text \<open>\<open>reads cs v r\<close>: with enough fuel the reader returns \<open>v\<close> and leaves \<open>r\<close>.\<close>

definition reads :: "(string \<Rightarrow> rat option) \<Rightarrow> string \<Rightarrow> Value \<Rightarrow> string \<Rightarrow> bool" where
  "reads scan_lf cs v r \<longleftrightarrow> (\<exists>n. readValue scan_lf n cs = ReadOk v r)"

lemma more_fuel:
  "readValue scan_lf n cs = ReadOk v r \<Longrightarrow> n \<le> n' \<Longrightarrow> readValue scan_lf n' cs = ReadOk v r"
  "readObject scan_lf n name m cs = ReadOk v r \<Longrightarrow> n \<le> n' \<Longrightarrow> readObject scan_lf n' name m cs = ReadOk v r"
  "readArray scan_lf n xs cs = ReadOk v r \<Longrightarrow> n \<le> n' \<Longrightarrow> readArray scan_lf n' xs cs = ReadOk v r"
  using reader_extends [of n n' scan_lf] unfolding extends_def by (metis read_result.distinct(3))+

lemma Reader_parse_reads:
  assumes "reads scan_lf document v r"
  shows "Reader_parse scan_lf document = Some v"
proof -
  define k where "k = 2 * length document + 2"
  obtain n where n: "readValue scan_lf n document = ReadOk v r" using assms by (auto simp: reads_def)
  have "2 * length document + 1 \<le> k" by (simp add: k_def)
  then have "returns document (readValue scan_lf k document)" using reader_returns by blast
  then have "readValue scan_lf k document \<noteq> OutOfFuel" by auto
  moreover have "extends (readValue scan_lf k document) (readValue scan_lf (max n k) document)"
    using reader_extends [of k "max n k" scan_lf] by simp
  ultimately have "readValue scan_lf k document = ReadOk v r"
    using more_fuel(1) [OF n, of "max n k"] by (simp add: extends_def)
  then show ?thesis by (simp add: Reader_parse_def k_def del: readValue.simps)
qed

lemma reads_number:
  assumes "readToken cs = (tokenNumber, tx, r)" and "decodeNumber scan_lf tx = Some v"
  shows "reads scan_lf cs v r"
  using assms skipCommentTokens_plain [OF assms(1)] by (auto simp: reads_def intro!: exI [of _ "Suc 0"])

lemma reads_digits:
  assumes "number_ends r"
  shows "reads scan_lf (uintToString (unat w) @ r) (read_integer w) r"
proof (rule reads_number)
  have d: "list_all digit (uintToString (unat w))" "uintToString (unat w) \<noteq> []" using uintToString_digits by auto
  then obtain c cs where c: "uintToString (unat w) = c # cs" "digit c" "list_all number_char cs"
    by (cases "uintToString (unat w)") (auto simp: list_all_iff number_char_def)
  then show "readToken (uintToString (unat w) @ r) = (tokenNumber, uintToString (unat w), r)"
    using readToken_number [of c cs r] assms by simp
  have "unat w < 2 ^ 64" using unsigned_less [of w, where 'a = nat] by simp
  then have "unat w \<le> 2 ^ 64 - 1" by simp
  then show "decodeNumber scan_lf (uintToString (unat w)) = Some (read_integer w)" using decodeNumber_digits by simp
qed

lemma reads_negative:
  fixes w :: "64 word"
  assumes "number_ends r" and "sint w < 0"
  shows "reads scan_lf (CHR ''-'' # uintToString (unat (- w)) @ r) (intValue w) r"
proof (rule reads_number)
  have "list_all number_char (uintToString (unat (- w)))"
    using uintToString_digits [of "unat (- w)"] by (auto simp: list_all_iff number_char_def)
  then show "readToken (CHR ''-'' # uintToString (unat (- w)) @ r) = (tokenNumber, CHR ''-'' # uintToString (unat (- w)), r)"
    using readToken_number assms(1) by simp
  have b: "- sint w \<le> 2 ^ 63" using sint_greater_eq [of w] by simp
  then have "uint (word_of_int (- sint w) :: 64 word) = - sint w"
    using assms(2) unfolding uint_word_of_int_eq by (intro take_bit_int_eq_self) simp_all
  moreover have "word_of_int (- sint w) = - w" by simp
  ultimately have "uint (- w) = - sint w" by metis
  then have "unat (- w) \<le> 2 ^ 63" using b unat_eq_nat_uint [of "- w"] by simp
  then show "decodeNumber scan_lf (CHR ''-'' # uintToString (unat (- w))) = Some (intValue w)"
    using decodeNumber_negative [of "unat (- w)" scan_lf] by simp
qed

lemma cstr_no_nul: "no_nul s \<Longrightarrow> cstr s = s"
  by (simp add: no_nul_def cstr_def list_all_iff)

lemma decode_quoted: "decodeString (butlast (tl (valueToQuotedString s))) = Some s"
  by (simp add: valueToQuotedString_eq butlast_append decodeString_quoted)

lemma reads_string: "no_nul s \<Longrightarrow> reads scan_lf (valueToQuotedString s @ r) (stringValue s) r"
  using skipCommentTokens_plain [OF readToken_quoted [of s r]]
  by (auto simp: reads_def decode_quoted cstr_no_nul intro!: exI [of _ "Suc 0"])

lemma reads_word:
  "reads scan_lf (''true'' @ r) (booleanValue True) r" "reads scan_lf (''false'' @ r) (booleanValue False) r"
  "reads scan_lf (''null'' @ r) nullValue r"
  using skipCommentTokens_plain [OF readToken_words(1)] skipCommentTokens_plain [OF readToken_words(2)]
    skipCommentTokens_plain [OF readToken_words(3)]
  by (auto simp: reads_def intro!: exI [of _ "Suc 0"])

text \<open>White space in front of a token is skipped; the writers put some in front of keys, separators and closing brackets.\<close>

lemma readToken_space: "list_all is_space u \<Longrightarrow> readToken (u @ cs) = readToken cs"
proof -
  assume "list_all is_space u"
  then have "skipSpaces (u @ cs) = skipSpaces cs" unfolding skipSpaces_def by (intro dropWhile_append2) (simp add: list_all_iff)
  then show ?thesis by (simp add: readToken_def)
qed

lemma skipCommentTokens_space: "list_all is_space u \<Longrightarrow> skipCommentTokens (u @ cs) = skipCommentTokens cs"
  by (simp add: skipCommentTokens.simps [of "u @ cs"] skipCommentTokens.simps [of cs] readToken_space)

lemma reads_space:
  assumes "list_all is_space u"
  shows "reads scan_lf (u @ cs) v r \<longleftrightarrow> reads scan_lf cs v r"
proof -
  have "readValue scan_lf n (u @ cs) = readValue scan_lf n cs" for n
    by (cases n) (simp_all only: readValue.simps skipCommentTokens_space [OF assms])
  then show ?thesis by (simp add: reads_def)
qed

lemma number_ends_space: "list_all is_space u \<Longrightarrow> number_ends cs \<Longrightarrow> number_ends (u @ cs)"
  by (cases u) (auto simp: number_ends_def is_space_def number_char_def digit_def)

lemma reads_array:
  assumes "\<And>x r. x \<in> set xs \<Longrightarrow> number_ends r \<Longrightarrow> reads scan_lf (f x @ r) (g x) r" and "xs \<noteq> []" and "list_all is_space u"
  shows "\<exists>n. readArray scan_lf n acc (join_comma (map f xs) @ u @ CHR '']'' # rest) = ReadOk (arrayValue (acc @ map g xs)) rest"
  using assms(2,1)
proof (induction xs arbitrary: acc rule: list_nonempty_induct)
  case (single x)
  moreover have "number_ends (u @ CHR '']'' # rest)" using assms(3) by (simp add: number_ends_space)
  ultimately obtain n where "readValue scan_lf n (f x @ u @ CHR '']'' # rest) = ReadOk (g x) (u @ CHR '']'' # rest)"
    by (fastforce simp: reads_def)
  then show ?case using skipCommentTokens_space [OF assms(3)] by (intro exI [of _ "Suc n"]) simp
next
  case (cons x xs)
  let ?more = "join_comma (map f xs) @ u @ CHR '']'' # rest"
  obtain n where n: "readValue scan_lf n (f x @ CHR '','' # ?more) = ReadOk (g x) (CHR '','' # ?more)"
    using cons.prems [of x "CHR '','' # ?more"] by (auto simp: reads_def)
  obtain k where k: "readArray scan_lf k (acc @ [g x]) ?more = ReadOk (arrayValue ((acc @ [g x]) @ map g xs)) rest"
    using cons.IH [of "acc @ [g x]"] cons.prems by auto
  have "readArray scan_lf (Suc (max n k)) acc (f x @ CHR '','' # ?more) = ReadOk (arrayValue (acc @ g x # map g xs)) rest"
    using more_fuel(1) [OF n, of "max n k"] more_fuel(3) [OF k, of "max n k"] by simp
  then have "\<exists>n. readArray scan_lf n acc (f x @ CHR '','' # ?more) = ReadOk (arrayValue (acc @ g x # map g xs)) rest"
    by (rule exI)
  moreover have "join_comma (map f (x # xs)) = f x @ CHR '','' # join_comma (map f xs)"
    using cons.hyps by (cases xs) simp_all
  ultimately show ?case by simp
qed

lemma stdmap_set_last: "stdmap_ok (m @ [(k, x)]) \<Longrightarrow> stdmap_set k x m = m @ [(k, x)]"
  by (induction m) (auto simp: stdmap_ok_def sorted_wrt_append)

lemma readObject_member:
  assumes "no_nul k" and "reads scan_lf (w @ e @ c # rest) y (e @ c # rest)"
    and "c = CHR '','' \<Longrightarrow> \<exists>n. readObject scan_lf n k (stdmap_set k y acc) rest = res \<and> res \<noteq> OutOfFuel"
    and "c = CHR ''}'' \<Longrightarrow> res = ReadOk (objectValue (stdmap_set k y acc)) rest"
    and "c = CHR '','' \<or> c = CHR ''}''" and "list_all is_space u" and "list_all is_space s" and "list_all is_space e"
  shows "\<exists>n. readObject scan_lf n name acc (u @ valueToQuotedString k @ s @ '':'' @ w @ e @ c # rest) = res"
proof -
  obtain n where n: "readValue scan_lf n (w @ e @ c # rest) = ReadOk y (e @ c # rest)" using assms(2) by (auto simp: reads_def)
  note t = decode_quoted cstr_no_nul [OF assms(1)] skipCommentTokens_space [OF assms(6)] readToken_space [OF assms(7)] readToken_space [OF assms(8)]
  show ?thesis
  proof (cases "c = CHR ''}''")
    case True
    then show ?thesis using n assms(4) by (intro exI [of _ "Suc n"]) (simp add: t)
  next
    case False
    then have c: "c = CHR '',''" using assms(5) by simp
    then obtain j where j: "readObject scan_lf j k (stdmap_set k y acc) rest = res" "res \<noteq> OutOfFuel" using assms(3) by auto
    have j': "readObject scan_lf (max n j) k (stdmap_set k y acc) rest = res"
      using reader_extends [of j "max n j" scan_lf] j unfolding extends_def by (metis max.cobounded2)
    then show ?thesis
      using more_fuel(1) [OF n, of "max n j"] c by (intro exI [of _ "Suc (max n j)"]) (simp add: t)
  qed
qed

lemma reads_object:
  assumes "\<And>k x r. (k, x) \<in> set m \<Longrightarrow> number_ends r \<Longrightarrow> reads scan_lf (f x @ r) (g x) r" and "list_all (\<lambda>(k, x). no_nul k) m"
    and "stdmap_ok (acc @ map (\<lambda>(k, x). (k, g x)) m)" and "m \<noteq> []" and sp: "list_all is_space u" "list_all is_space s" "list_all is_space e"
  shows "\<exists>n. readObject scan_lf n name acc (join_comma (map (\<lambda>(k, x). u @ valueToQuotedString k @ s @ '':'' @ f x) m) @ e @ CHR ''}'' # rest) =
    ReadOk (objectValue (acc @ map (\<lambda>(k, x). (k, g x)) m)) rest"
  using assms(4,1-3)
proof (induction m arbitrary: acc name rule: list_nonempty_induct)
  case (single kx)
  obtain k x where kx: "kx = (k, x)" by fastforce
  have "number_ends (e @ CHR ''}'' # rest)" using sp(3) by (simp add: number_ends_space)
  then show ?case
    using readObject_member [of k scan_lf "f x" e "CHR ''}''" rest "g x" acc "ReadOk (objectValue (stdmap_set k (g x) acc)) rest" u s name]
      single sp stdmap_set_last [of acc k "g x"] by (simp add: kx)
next
  case (cons kx m)
  obtain k x where kx: "kx = (k, x)" by fastforce
  let ?more = "join_comma (map (\<lambda>(k, x). u @ valueToQuotedString k @ s @ '':'' @ f x) m) @ e @ CHR ''}'' # rest"
  have ok: "stdmap_ok ((acc @ [(k, g x)]) @ map (\<lambda>(k, x). (k, g x)) m)" using cons.prems(3) by (simp add: kx)
  then have st: "stdmap_set k (g x) acc = acc @ [(k, g x)]"
    by (intro stdmap_set_last) (simp add: stdmap_ok_def sorted_wrt_append)
  have rd: "reads scan_lf (f x @ [] @ CHR '','' # ?more) (g x) ([] @ CHR '','' # ?more)" using cons.prems(1) [of k x] by (simp add: kx)
  have "\<exists>n. readObject scan_lf n k (acc @ [(k, g x)]) ?more = ReadOk (objectValue ((acc @ [(k, g x)]) @ map (\<lambda>(k, x). (k, g x)) m)) rest"
    using cons.IH [of "acc @ [(k, g x)]" k] cons.prems ok by auto
  then have "\<exists>n. readObject scan_lf n name acc (u @ valueToQuotedString k @ s @ '':'' @ f x @ [] @ CHR '','' # ?more) =
      ReadOk (objectValue ((acc @ [(k, g x)]) @ map (\<lambda>(k, x). (k, g x)) m)) rest"
    using cons.prems(2) rd sp by (intro readObject_member [where y = "g x"]) (auto simp: kx st)
  moreover have "join_comma (map (\<lambda>(k, x). u @ valueToQuotedString k @ s @ '':'' @ f x) (kx # m)) =
      u @ valueToQuotedString k @ s @ '':'' @ f x @ CHR '','' # join_comma (map (\<lambda>(k, x). u @ valueToQuotedString k @ s @ '':'' @ f x) m)"
    using cons.hyps by (cases m) (simp_all add: kx)
  ultimately show ?case by (simp add: kx)
qed

lemma writeValue_front:
  assumes "printable v"
  shows "\<exists>c cs. writeValue fmt_g v = c # cs \<and> \<not> is_space c \<and> c \<noteq> CHR '']''"
proof -
  have digits: "\<exists>c cs. uintToString n = c # cs \<and> \<not> is_space c \<and> c \<noteq> CHR '']''" for n
    using uintToString_digits [of n] by (cases "uintToString n") (auto simp: is_space_def digit_def)
  show ?thesis
    using assms digits
    by (cases v) (auto simp: valueToString_int_def valueToString_uint_def valueToString_bool_def valueToQuotedString_eq is_space_def Let_def)
qed

lemma join_comma_front: "xs \<noteq> [] \<Longrightarrow> \<exists>r. join_comma xs = hd xs @ r"
  by (cases xs rule: join_comma.cases) auto

lemma reads_arrayValue:
  assumes "\<And>x r. x \<in> set xs \<Longrightarrow> number_ends r \<Longrightarrow> reads scan_lf (writeValue fmt_g x @ r) (read_back x) r"
    and "list_all printable xs"
  shows "reads scan_lf (writeValue fmt_g (arrayValue xs) @ rest) (read_back (arrayValue xs)) rest"
proof (cases xs)
  case Nil
  then show ?thesis by (auto simp: reads_def skipSpaces_def is_space_def intro!: exI [of _ "Suc 0"])
next
  case (Cons x xs')
  let ?body = "join_comma (map (writeValue fmt_g) xs) @ CHR '']'' # rest"
  obtain c cs where c: "writeValue fmt_g x = c # cs" "\<not> is_space c" "c \<noteq> CHR '']''"
    using writeValue_front [of x fmt_g] assms(2) Cons by auto
  obtain r where "?body = c # r" using join_comma_front [of "map (writeValue fmt_g) xs"] c(1) Cons by auto
  then have "skipSpaces ?body = ?body" "hd ?body \<noteq> CHR '']''" using c(2,3) by (simp_all add: skipSpaces_def)
  moreover obtain n where "readArray scan_lf n [] ?body = ReadOk (arrayValue (map read_back xs)) rest"
    using reads_array [of xs scan_lf "writeValue fmt_g" read_back "[]" "[]" rest] assms(1) Cons by auto
  ultimately show ?thesis by (auto simp: reads_def intro!: exI [of _ "Suc n"])
qed

lemma reads_objectValue:
  assumes "\<And>k x r. (k, x) \<in> set m \<Longrightarrow> number_ends r \<Longrightarrow> reads scan_lf (writeValue fmt_g x @ r) (read_back x) r"
    and "printable (objectValue m)"
  shows "reads scan_lf (writeValue fmt_g (objectValue m) @ rest) (read_back (objectValue m)) rest"
proof (cases "m = []")
  case True
  then show ?thesis by (auto simp: reads_def intro!: exI [of _ "Suc (Suc 0)"])
next
  case False
  have "map fst (map (\<lambda>(k, x). (k, read_back x)) m) = map fst m" by (simp add: split_beta comp_def)
  then have "stdmap_ok (map (\<lambda>(k, x). (k, read_back x)) m)"
    using assms(2) unfolding stdmap_ok_def printable.simps by metis
  moreover have "list_all (\<lambda>(k, x). no_nul k) m" using assms(2) by (auto simp: list_all_iff)
  ultimately obtain n where "readObject scan_lf n [] []
      (join_comma (map (\<lambda>(k, x). valueToQuotedString k @ '':'' @ writeValue fmt_g x) m) @ CHR ''}'' # rest) =
      ReadOk (objectValue (map (\<lambda>(k, x). (k, read_back x)) m)) rest"
    using reads_object [of m scan_lf "writeValue fmt_g" read_back "[]" "[]" "[]" "[]" "[]" rest] assms(1) False by auto
  then show ?thesis by (auto simp: reads_def intro!: exI [of _ "Suc n"])
qed

lemma reads_written:
  "printable v \<Longrightarrow> number_ends rest \<Longrightarrow> reads scan_lf (writeValue fmt_g v @ rest) (read_back v) rest"
proof (induction v arbitrary: rest)
  case (intValue i)
  then show ?case
    using reads_digits [of rest scan_lf i] reads_negative [of rest i scan_lf] by (simp add: valueToString_int_def)
next
  case (uintValue u)
  then show ?case using reads_digits by (simp add: valueToString_uint_def)
next
  case (booleanValue b)
  then show ?case using reads_word by (simp add: valueToString_bool_def)
next
  case (arrayValue xs)
  show ?case by (rule reads_arrayValue) (use arrayValue in \<open>auto simp: list_all_iff\<close>)
next
  case (objectValue m)
  show ?case by (rule reads_objectValue) (use objectValue in \<open>fastforce simp: list_all_iff\<close>)+
qed (use reads_word(3) reads_string in auto)

lemma small_not_negative: "uint w \<le> maxInt \<Longrightarrow> \<not> sint w < 0" for w :: "64 word"
proof -
  assume "uint w \<le> maxInt"
  moreover have "0 \<le> uint w" by simp
  ultimately have "signed_take_bit 63 (uint w) = uint w"
    by (intro signed_take_bit_int_eq_self) (simp_all add: maxInt_def order_trans [of _ 0])
  moreover have "sint w = signed_take_bit 63 (uint w)" by (simp add: sint_uint)
  ultimately show ?thesis by simp
qed

lemma writeValue_read_back: "writeValue fmt_g (read_back v) = writeValue fmt_g v"
proof (induction v)
  case (intValue i)
  then show ?case by (simp add: read_integer_def valueToString_int_def valueToString_uint_def)
next
  case (uintValue u)
  then show ?case
    using small_not_negative [of u] by (simp add: read_integer_def valueToString_int_def valueToString_uint_def)
next
  case (arrayValue xs)
  then show ?case by (simp add: comp_def cong: map_cong)
next
  case (objectValue m)
  have "map ((\<lambda>(k, x). valueToQuotedString k @ '':'' @ writeValue fmt_g x) \<circ> (\<lambda>(k, x). (k, read_back x))) m =
      map (\<lambda>(k, x). valueToQuotedString k @ '':'' @ writeValue fmt_g x) m"
    using objectValue by (intro map_cong) auto
  then show ?case unfolding read_back.simps writeValue.simps map_map by (rule arg_cong)
qed simp_all

text \<open>
  C14 (round trip).  The reader reads back what the writer prints: the text of any value
  without doubles and without NUL characters parses, and to the same value, except that an
  integer has the C++ type the reader chooses by its size (signed up to the largest \<^verbatim>\<open>int\<close>,
  unsigned beyond); that difference does not show in print.
\<close>

theorem json_roundtrip:
  assumes "printable v"
  shows "Reader_parse scan_lf (FastWriter_write fmt_g v) = Some (read_back v) \<and>
    FastWriter_write fmt_g (read_back v) = FastWriter_write fmt_g v"
  using Reader_parse_reads [OF reads_written [OF assms, of "[CHR 0x0A]" scan_lf fmt_g]]
  by (simp add: FastWriter_write_def writeValue_read_back)

theorem json_roundtrip_witness:
  "Reader_parse (\<lambda>s. None) (FastWriter_write (\<lambda>d. []) (objectValue
     [(''a'', arrayValue [intValue (- 5), nullValue, uintValue 7]), (''b'', stringValue [CHR 0x22, CHR 0x0A])])) =
   Some (objectValue [(''a'', arrayValue [intValue (- 5), nullValue, intValue 7]), (''b'', stringValue [CHR 0x22, CHR 0x0A])])"
proof -
  let ?v = "objectValue [(''a'', arrayValue [intValue (- 5), nullValue, uintValue 7]), (''b'', stringValue [CHR 0x22, CHR 0x0A])]"
  have "printable ?v" by (simp add: stdmap_ok_def no_nul_def)
  from json_roundtrip [OF this, of "\<lambda>s. None" "\<lambda>d. []"] show ?thesis by (simp add: read_integer_def maxInt_def)
qed

end
