(* ===== verification/Vz_Jsonstyled.thy ===== *)
theory Vz_Jsonstyled
  imports Vz_Jsonreader
begin

text \<open>
  \<^verbatim>\<open>Json::StyledWriter\<close> of \<^verbatim>\<open>src/src/json/jsoncpp.cpp\<close>, with which \<^verbatim>\<open>Value::toStyledString\<close> prints a
  command of \<^verbatim>\<open>commandanalysis::GeneratCommonCmd\<close> and the responses of the push handles in the log.  The
  writer is an object: the text so far, the list in which the texts of the elements of a short array are
  collected, and the indentation.  Values carry no comments here, so the routines that print comments have no
  effect and are left out; the lengths of lines are numbers, since an array of \<open>2 ^ 31\<close> elements or characters
  does not fit into memory.
\<close>

section \<open>The writer\<close>

record StyledWriter =
  document :: string
  addChildValues :: bool
  childValues :: "string list"
  indentString :: string

definition StyledWriter_new :: StyledWriter where
  "StyledWriter_new = \<lparr>document = [], addChildValues = False, childValues = [], indentString = []\<rparr>"

definition rightMargin :: nat where "rightMargin = 74"
definition indentSize :: nat where "indentSize = 3"

definition pushValue :: "string \<Rightarrow> StyledWriter \<Rightarrow> StyledWriter" where
  "pushValue value w = (if addChildValues w then w\<lparr>childValues := childValues w @ [value]\<rparr> else w\<lparr>document := document w @ value\<rparr>)"

definition writeIndent :: "StyledWriter \<Rightarrow> StyledWriter" where
  "writeIndent w =
     (if document w \<noteq> [] then
        if last (document w) = CHR '' '' then w
        else w\<lparr>document := document w @ (if last (document w) \<noteq> CHR 0x0A then [CHR 0x0A] else []) @ indentString w\<rparr>
      else w\<lparr>document := document w @ indentString w\<rparr>)"

definition writeWithIndent :: "string \<Rightarrow> StyledWriter \<Rightarrow> StyledWriter" where
  "writeWithIndent value w = (let w1 = writeIndent w in w1\<lparr>document := document w1 @ value\<rparr>)"

definition sw_indent :: "StyledWriter \<Rightarrow> StyledWriter" where
  "sw_indent w = w\<lparr>indentString := indentString w @ replicate indentSize (CHR '' '')\<rparr>"

definition sw_unindent :: "StyledWriter \<Rightarrow> StyledWriter" where
  "sw_unindent w = w\<lparr>indentString := take (length (indentString w) - indentSize) (indentString w)\<rparr>"

definition sw_append :: "string \<Rightarrow> StyledWriter \<Rightarrow> StyledWriter" where
  "sw_append s w = w\<lparr>document := document w @ s\<rparr>"

text \<open>An array or object that is not empty.\<close>

definition has_children :: "Value \<Rightarrow> bool" where
  "has_children v \<longleftrightarrow> (isArray v \<or> isObject v) \<and> Value_size v > 0"

fun join_spaced :: "string list \<Rightarrow> string" where
  "join_spaced [] = []"
| "join_spaced [s] = s"
| "join_spaced (s # t # ss) = s @ '', '' @ join_spaced (t # ss)"

function (sequential) sw_writeValue :: "(rat \<Rightarrow> string) \<Rightarrow> Value \<Rightarrow> StyledWriter \<Rightarrow> StyledWriter"
  and write_members :: "(rat \<Rightarrow> string) \<Rightarrow> (string \<times> Value) list \<Rightarrow> StyledWriter \<Rightarrow> StyledWriter"
  and writeArrayValue :: "(rat \<Rightarrow> string) \<Rightarrow> Value list \<Rightarrow> StyledWriter \<Rightarrow> StyledWriter"
  and write_elements :: "(rat \<Rightarrow> string) \<Rightarrow> bool \<Rightarrow> nat \<Rightarrow> Value list \<Rightarrow> StyledWriter \<Rightarrow> StyledWriter"
  and isMultineArray :: "(rat \<Rightarrow> string) \<Rightarrow> Value list \<Rightarrow> StyledWriter \<Rightarrow> bool \<times> StyledWriter"
  and write_children :: "(rat \<Rightarrow> string) \<Rightarrow> Value list \<Rightarrow> StyledWriter \<Rightarrow> StyledWriter" where
  "sw_writeValue fmt_g nullValue w = pushValue ''null'' w"
| "sw_writeValue fmt_g (intValue i) w = pushValue (valueToString_int i) w"
| "sw_writeValue fmt_g (uintValue u) w = pushValue (valueToString_uint u) w"
| "sw_writeValue fmt_g (realValue d) w = pushValue (fmt_g d) w"
| "sw_writeValue fmt_g (stringValue s) w = pushValue (valueToQuotedString s) w"
| "sw_writeValue fmt_g (booleanValue b) w = pushValue (valueToString_bool b) w"
| "sw_writeValue fmt_g (arrayValue xs) w = writeArrayValue fmt_g xs w"
| "sw_writeValue fmt_g (objectValue m) w =
     (if m = [] then pushValue ''{}'' w
      else writeWithIndent ''}'' (sw_unindent (write_members fmt_g m (sw_indent (writeWithIndent ''{'' w)))))"
| "write_members fmt_g [] w = w"
| "write_members fmt_g ((name, childValue) # m) w =
     (let w1 = sw_writeValue fmt_g childValue (sw_append '' : '' (writeWithIndent (valueToQuotedString name) w))
      in if m = [] then w1 else write_members fmt_g m (sw_append '','' w1))"
| "writeArrayValue fmt_g xs w =
     (if xs = [] then pushValue ''[]'' w
      else let (isArrayMultiLine, w1) = isMultineArray fmt_g xs w in
        if isArrayMultiLine then
          let w2 = sw_indent (writeWithIndent ''['' w1)
          in writeWithIndent '']'' (sw_unindent (write_elements fmt_g (childValues w2 \<noteq> []) 0 xs w2))
        else sw_append '' ]'' (sw_append (join_spaced (childValues w1)) (sw_append ''[ '' w1)))"
| "write_elements fmt_g hasChildValue index [] w = w"
| "write_elements fmt_g hasChildValue index (childValue # xs) w =
     (let w1 = (if hasChildValue then writeWithIndent (childValues w ! index) w else sw_writeValue fmt_g childValue (writeIndent w))
      in if xs = [] then w1 else write_elements fmt_g hasChildValue (Suc index) xs (sw_append '','' w1))"
| "isMultineArray fmt_g xs w =
     (let isMultiLine = (length xs * 3 \<ge> rightMargin \<or> list_ex has_children xs);
          w1 = w\<lparr>childValues := []\<rparr>
      in if \<not> isMultiLine then
           let w2 = (write_children fmt_g xs (w1\<lparr>addChildValues := True\<rparr>))\<lparr>addChildValues := False\<rparr>;
               lineLength = 4 + (length xs - 1) * 2 + sum_list (map length (childValues w2))
           in (lineLength \<ge> rightMargin, w2)
         else (True, w1))"
| "write_children fmt_g [] w = w"
| "write_children fmt_g (x # xs) w = write_children fmt_g xs (sw_writeValue fmt_g x w)"
  by pat_completeness auto
termination
  by size_change

definition StyledWriter_write :: "(rat \<Rightarrow> string) \<Rightarrow> Value \<Rightarrow> StyledWriter \<Rightarrow> string" where
  "StyledWriter_write fmt_g doc w =
     document (sw_append [CHR 0x0A] (sw_writeValue fmt_g doc (w\<lparr>document := [], addChildValues := False, indentString := []\<rparr>)))"

definition toStyledString :: "(rat \<Rightarrow> string) \<Rightarrow> Value \<Rightarrow> string" where
  "toStyledString fmt_g v = StyledWriter_write fmt_g v StyledWriter_new"

section \<open>The text of the writer\<close>

definition spaces :: "nat \<Rightarrow> string" where "spaces n = replicate n (CHR '' '')"

definition new_line :: "nat \<Rightarrow> string" where "new_line n = CHR 0x0A # spaces n"

definition single_line :: "(rat \<Rightarrow> string) \<Rightarrow> Value list \<Rightarrow> bool" where
  "single_line fmt_g xs \<longleftrightarrow> length xs * 3 < rightMargin \<and> \<not> list_ex has_children xs \<and>
     4 + (length xs - 1) * 2 + sum_list (map (length \<circ> writeValue fmt_g) xs) < rightMargin"

text \<open>What is printed for a value behind a space with an indentation of \<open>n\<close>.\<close>

fun styled :: "(rat \<Rightarrow> string) \<Rightarrow> nat \<Rightarrow> Value \<Rightarrow> string" where
  "styled fmt_g n (arrayValue xs) =
     (if xs = [] then ''[]''
      else if single_line fmt_g xs then ''['' @ join_comma (map (\<lambda>x. '' '' @ writeValue fmt_g x) xs) @ '' ]''
      else ''['' @ join_comma (map (\<lambda>x. new_line (n + indentSize) @ styled fmt_g (n + indentSize) x) xs) @ new_line n @ '']'')"
| "styled fmt_g n (objectValue m) =
     (if m = [] then ''{}''
      else ''{'' @ join_comma (map (\<lambda>(k, x). new_line (n + indentSize) @ valueToQuotedString k @ '' : '' @ styled fmt_g (n + indentSize) x) m) @
        new_line n @ ''}'')"
| "styled fmt_g n v = writeValue fmt_g v"

lemma has_children_simps [simp]:
  "has_children (arrayValue xs) \<longleftrightarrow> xs \<noteq> []" "has_children (objectValue m) \<longleftrightarrow> m \<noteq> []"
  "\<not> has_children nullValue" "\<not> has_children (intValue i)" "\<not> has_children (uintValue u)" "\<not> has_children (realValue d)"
  "\<not> has_children (stringValue s)" "\<not> has_children (booleanValue b)"
  by (simp_all add: has_children_def isArray_def isObject_def Value_size_def)

lemma leaf_pushed: "\<not> has_children v \<Longrightarrow> sw_writeValue fmt_g v w = pushValue (writeValue fmt_g v) w"
  by (cases v) simp_all

lemma leaf_styled: "\<not> has_children v \<Longrightarrow> styled fmt_g n v = writeValue fmt_g v"
  by (cases v) simp_all

lemma children_collected:
  assumes "\<not> list_ex has_children xs" and "addChildValues w"
  shows "write_children fmt_g xs w = w\<lparr>childValues := childValues w @ map (writeValue fmt_g) xs\<rparr>"
  using assms by (induction xs arbitrary: w) (simp_all add: leaf_pushed pushValue_def)

lemma join_spaced_comma: "'' '' @ join_spaced ss = join_comma (map (\<lambda>s. '' '' @ s) ss)" if "ss \<noteq> []"
  using that by (induction ss rule: join_spaced.induct) simp_all

text \<open>The writer stands behind a space, or at the start of the document.\<close>

definition behind_space :: "StyledWriter \<Rightarrow> nat \<Rightarrow> bool" where
  "behind_space w n \<longleftrightarrow> \<not> addChildValues w \<and> indentString w = spaces n \<and>
     (if document w = [] then n = 0 else last (document w) = CHR '' '')"

text \<open>The writer stands behind a visible character.\<close>

definition behind_text :: "StyledWriter \<Rightarrow> nat \<Rightarrow> bool" where
  "behind_text w n \<longleftrightarrow> \<not> addChildValues w \<and> indentString w = spaces n \<and> document w \<noteq> [] \<and>
     last (document w) \<noteq> CHR '' '' \<and> last (document w) \<noteq> CHR 0x0A"

definition visible :: "string \<Rightarrow> bool" where
  "visible s \<longleftrightarrow> s \<noteq> [] \<and> last s \<noteq> CHR '' '' \<and> last s \<noteq> CHR 0x0A"

lemma writeWithIndent_behind_space: "behind_space w n \<Longrightarrow> writeWithIndent s w = sw_append s w"
  by (simp add: behind_space_def writeWithIndent_def writeIndent_def sw_append_def spaces_def split: if_splits)

lemma writeIndent_behind_text: "behind_text w n \<Longrightarrow> writeIndent w = sw_append (new_line n) w"
  by (simp add: behind_text_def writeIndent_def sw_append_def new_line_def)

lemma writeWithIndent_behind_text: "behind_text w n \<Longrightarrow> writeWithIndent s w = sw_append (new_line n @ s) w"
  using writeIndent_behind_text [of w n] by (simp add: writeWithIndent_def Let_def) (simp add: sw_append_def)

lemma behind_text_append: "visible s \<Longrightarrow> \<not> addChildValues w \<Longrightarrow> indentString w = spaces n \<Longrightarrow> behind_text (sw_append s w) n"
  by (auto simp: behind_text_def visible_def sw_append_def)

lemma behind_space_append: "s \<noteq> [] \<Longrightarrow> last s = CHR '' '' \<Longrightarrow> \<not> addChildValues w \<Longrightarrow> indentString w = spaces n \<Longrightarrow> behind_space (sw_append s w) n"
  by (auto simp: behind_space_def sw_append_def)

lemma sw_append_simps [simp]:
  "sw_append t (sw_append s w) = sw_append (s @ t) w" "addChildValues (sw_append s w) = addChildValues w"
  "indentString (sw_append s w) = indentString w" "childValues (sw_append s w) = childValues w" "document (sw_append s w) = document w @ s"
  by (simp_all add: sw_append_def)

lemma visible_append [simp]: "visible t \<Longrightarrow> visible (s @ t)" "visible t \<Longrightarrow> visible (c # t)"
  by (auto simp: visible_def)

lemma visible_uintToString: "visible (uintToString n)"
  using uintToString_digits [of n] by (auto simp: visible_def list_all_iff digit_def dest!: bspec [OF _ last_in_set])

lemma visible_written: "printable v \<Longrightarrow> visible (writeValue fmt_g v)"
proof (cases v)
  case (booleanValue b)
  then show ?thesis by (simp add: valueToString_bool_def visible_def)
qed (auto simp: valueToString_int_def valueToString_uint_def visible_uintToString valueToQuotedString_eq Let_def, auto simp: visible_def)

lemma visible_styled: "printable v \<Longrightarrow> visible (styled fmt_g n v)"
  using visible_written [of v fmt_g] by (cases v) (auto simp: visible_def)

definition prints :: "(rat \<Rightarrow> string) \<Rightarrow> Value \<Rightarrow> bool" where
  "prints fmt_g v \<longleftrightarrow> (\<forall>n w. behind_space w n \<longrightarrow> (\<exists>cv. sw_writeValue fmt_g v w = (sw_append (styled fmt_g n v) w)\<lparr>childValues := cv\<rparr>))"

lemma printsD: "prints fmt_g v \<Longrightarrow> behind_space w n \<Longrightarrow> \<exists>cv. sw_writeValue fmt_g v w = (sw_append (styled fmt_g n v) w)\<lparr>childValues := cv\<rparr>"
  by (simp add: prints_def)

lemma behind_text_children [simp]: "behind_text (w\<lparr>childValues := cv\<rparr>) n \<longleftrightarrow> behind_text w n"
  by (simp add: behind_text_def)

lemma sw_append_children [simp]: "sw_append s (w\<lparr>childValues := cv\<rparr>) = (sw_append s w)\<lparr>childValues := cv\<rparr>"
  by (simp add: sw_append_def)

lemma behind_textD: "behind_text w n \<Longrightarrow> \<not> addChildValues w \<and> indentString w = spaces n"
  by (simp add: behind_text_def)

lemma members_printed:
  assumes "\<And>k x. (k, x) \<in> set m \<Longrightarrow> prints fmt_g x \<and> printable x" and "m \<noteq> []" and "behind_text w n"
  shows "\<exists>cv. write_members fmt_g m w =
    (sw_append (join_comma (map (\<lambda>(k, x). new_line n @ valueToQuotedString k @ '' : '' @ styled fmt_g n x) m)) w)\<lparr>childValues := cv\<rparr>"
  using assms(2,1,3)
proof (induction m arbitrary: w rule: list_nonempty_induct)
  case (single e)
  obtain k x where e: "e = (k, x)" by fastforce
  let ?w = "sw_append (new_line n @ valueToQuotedString k @ '' : '') w"
  have "behind_space ?w n" using behind_textD [OF single.prems(2)] by (intro behind_space_append) simp_all
  from printsD [OF _ this, of fmt_g x] obtain cv where "sw_writeValue fmt_g x ?w = (sw_append (styled fmt_g n x) ?w)\<lparr>childValues := cv\<rparr>"
    using single.prems(1) [of k x] e by (auto simp del: sw_append_simps)
  then show ?case using writeWithIndent_behind_text [OF single.prems(2)] by (auto simp: e)
next
  case (cons e m)
  obtain k x where e: "e = (k, x)" by fastforce
  let ?t = "new_line n @ valueToQuotedString k @ '' : ''"
  let ?w = "sw_append ?t w"
  note d = behind_textD [OF cons.prems(2)]
  have "behind_space ?w n" using d by (intro behind_space_append) simp_all
  from printsD [OF _ this, of fmt_g x] obtain cv where 1: "sw_writeValue fmt_g x ?w = (sw_append (styled fmt_g n x) ?w)\<lparr>childValues := cv\<rparr>"
    using cons.prems(1) [of k x] e by (auto simp del: sw_append_simps)
  let ?w2 = "(sw_append (?t @ styled fmt_g n x @ '','') w)\<lparr>childValues := cv\<rparr>"
  have "behind_text ?w2 n" unfolding behind_text_children using d by (intro behind_text_append) (simp_all add: visible_def)
  then obtain cv2 where "write_members fmt_g m ?w2 =
      (sw_append (join_comma (map (\<lambda>(k, x). new_line n @ valueToQuotedString k @ '' : '' @ styled fmt_g n x) m)) ?w2)\<lparr>childValues := cv2\<rparr>"
    using cons.IH [of ?w2] cons.prems(1) by fastforce
  then show ?case using writeWithIndent_behind_text [OF cons.prems(2)] 1 cons.hyps by (cases m) (auto simp: e)
qed

lemma elements_printed:
  assumes "\<And>x. x \<in> set xs \<Longrightarrow> prints fmt_g x" and "xs \<noteq> []" and "behind_text w n" and "0 < n"
  shows "\<exists>cv. write_elements fmt_g False i xs w =
    (sw_append (join_comma (map (\<lambda>x. new_line n @ styled fmt_g n x) xs)) w)\<lparr>childValues := cv\<rparr>"
  using assms(2,1,3)
proof (induction xs arbitrary: w i rule: list_nonempty_induct)
  case (single x)
  let ?w = "sw_append (new_line n) w"
  have "behind_space ?w n"
    using behind_textD [OF single.prems(2)] assms(4) by (intro behind_space_append) (simp_all add: new_line_def spaces_def)
  from printsD [OF _ this, of fmt_g x] obtain cv where "sw_writeValue fmt_g x ?w = (sw_append (styled fmt_g n x) ?w)\<lparr>childValues := cv\<rparr>"
    using single.prems(1) [of x] by (auto simp del: sw_append_simps)
  then show ?case using writeIndent_behind_text [OF single.prems(2)] by auto
next
  case (cons x xs)
  let ?w = "sw_append (new_line n) w"
  note d = behind_textD [OF cons.prems(2)]
  have "behind_space ?w n" using d assms(4) by (intro behind_space_append) (simp_all add: new_line_def spaces_def)
  from printsD [OF _ this, of fmt_g x] obtain cv where 1: "sw_writeValue fmt_g x ?w = (sw_append (styled fmt_g n x) ?w)\<lparr>childValues := cv\<rparr>"
    using cons.prems(1) [of x] by (auto simp del: sw_append_simps)
  let ?w2 = "(sw_append (new_line n @ styled fmt_g n x @ '','') w)\<lparr>childValues := cv\<rparr>"
  have "behind_text ?w2 n" unfolding behind_text_children using d by (intro behind_text_append) (simp_all add: visible_def)
  then obtain cv2 where "write_elements fmt_g False (Suc i) xs ?w2 =
      (sw_append (join_comma (map (\<lambda>x. new_line n @ styled fmt_g n x) xs)) ?w2)\<lparr>childValues := cv2\<rparr>"
    using cons.IH [of ?w2 "Suc i"] cons.prems(1) by fastforce
  then show ?case using writeIndent_behind_text [OF cons.prems(2)] 1 cons.hyps by (cases xs) auto
qed

lemma collected_elements_printed:
  assumes "xs \<noteq> []" and "behind_text w n" and "drop i (childValues w) = map (writeValue fmt_g) xs"
  shows "write_elements fmt_g True i xs w = sw_append (join_comma (map (\<lambda>x. new_line n @ writeValue fmt_g x) xs)) w"
  using assms
proof (induction xs arbitrary: w i rule: list_nonempty_induct)
  case (single x)
  then show ?case using writeWithIndent_behind_text [OF single(1)] nth_via_drop [of i "childValues w"] by simp
next
  case (cons x xs)
  let ?w2 = "sw_append (new_line n @ writeValue fmt_g x @ '','') w"
  have c: "childValues w ! i = writeValue fmt_g x" using nth_via_drop [of i "childValues w"] cons.prems(2) by simp
  have "behind_text ?w2 n" using behind_textD [OF cons.prems(1)] by (intro behind_text_append) (simp_all add: visible_def)
  moreover have "drop (Suc i) (childValues ?w2) = map (writeValue fmt_g) xs" using cons.prems(2) by (simp add: drop_Suc drop_tl)
  ultimately show ?case
    using cons.IH [of ?w2 "Suc i"] writeWithIndent_behind_text [OF cons.prems(1)] c cons.hyps by (cases xs) simp_all
qed

lemma sw_indent_text: "behind_text w n \<Longrightarrow> behind_text (sw_indent w) (n + indentSize)"
  by (simp add: behind_text_def sw_indent_def spaces_def replicate_add)

lemma sw_brackets:
  assumes "behind_space w n" and "body = sw_append t (sw_indent (sw_append open_text w))" and "visible t"
  shows "writeWithIndent close_text (sw_unindent (body\<lparr>childValues := cv\<rparr>)) = (sw_append (open_text @ t @ new_line n @ close_text) w)\<lparr>childValues := cv\<rparr>"
proof -
  have i: "\<not> addChildValues w" "indentString w = spaces n" using assms(1) by (simp_all add: behind_space_def)
  have b: "sw_unindent (body\<lparr>childValues := cv\<rparr>) = (sw_append (open_text @ t) w)\<lparr>childValues := cv\<rparr>"
    using i unfolding assms(2) by (simp add: sw_unindent_def sw_indent_def sw_append_def)
  have "behind_text (sw_append (open_text @ t) w) n" using assms(3) i by (intro behind_text_append) simp_all
  then show ?thesis unfolding b using writeWithIndent_behind_text [of "(sw_append (open_text @ t) w)\<lparr>childValues := cv\<rparr>" n] by simp
qed

lemma join_comma_last: "xs \<noteq> [] \<Longrightarrow> \<exists>s. join_comma xs = s @ last xs"
  by (induction xs rule: join_comma.induct) auto

lemma visible_join_comma:
  assumes "xs \<noteq> []" and "visible (last xs)"
  shows "visible (join_comma xs)"
  using join_comma_last [OF assms(1)] assms(2) by auto

lemma prints_object:
  assumes "\<And>k x. (k, x) \<in> set m \<Longrightarrow> prints fmt_g x \<and> printable x" and "m \<noteq> []"
  shows "prints fmt_g (objectValue m)"
  unfolding prints_def
proof (intro allI impI)
  fix n w
  assume w: "behind_space w n"
  let ?n = "n + indentSize" and ?w = "sw_indent (sw_append ''{'' w)"
  let ?t = "join_comma (map (\<lambda>(k, x). new_line ?n @ valueToQuotedString k @ '' : '' @ styled fmt_g ?n x) m)"
  have "behind_text (sw_append ''{'' w) n"
    using w by (intro behind_text_append) (simp_all add: visible_def behind_space_def)
  then have "\<exists>cv. write_members fmt_g m ?w = (sw_append ?t ?w)\<lparr>childValues := cv\<rparr>"
    using assms by (intro members_printed sw_indent_text) auto
  then obtain cv where cv: "write_members fmt_g m ?w = (sw_append ?t ?w)\<lparr>childValues := cv\<rparr>" by blast
  obtain k x where l: "last m = (k, x)" "(k, x) \<in> set m" using assms(2) by (metis last_in_set surj_pair)
  have "visible ?t" using assms l visible_styled [of x fmt_g ?n] by (intro visible_join_comma) (auto simp: last_map)
  from sw_brackets [OF w refl this, where open_text = "''{''" and close_text = "''}''" and cv = cv]
  show "\<exists>cv. sw_writeValue fmt_g (objectValue m) w = (sw_append (styled fmt_g n (objectValue m)) w)\<lparr>childValues := cv\<rparr>"
    using assms(2) cv writeWithIndent_behind_space [OF w] by auto
qed

lemma prints_array:
  assumes "\<And>x. x \<in> set xs \<Longrightarrow> prints fmt_g x \<and> printable x" and "xs \<noteq> []"
  shows "prints fmt_g (arrayValue xs)"
  unfolding prints_def
proof (intro allI impI)
  fix n w
  assume w: "behind_space w n"
  let ?n = "n + indentSize"
  let ?short = "length xs * 3 < rightMargin \<and> \<not> list_ex has_children xs"
  let ?ws = "map (writeValue fmt_g) xs"
  have w1: "behind_space (w\<lparr>childValues := cv\<rparr>) n" for cv using w by (simp add: behind_space_def)
  have vis: "visible (join_comma (map (\<lambda>x. new_line ?n @ styled fmt_g ?n x) xs))"
    using assms visible_styled [of "last xs"] by (intro visible_join_comma) (auto simp: last_map)
  have bt: "behind_text (sw_indent (sw_append ''['' (w\<lparr>childValues := cv\<rparr>))) ?n" for cv
    using w by (intro sw_indent_text behind_text_append) (simp_all add: visible_def behind_space_def)
  show "\<exists>cv. sw_writeValue fmt_g (arrayValue xs) w = (sw_append (styled fmt_g n (arrayValue xs)) w)\<lparr>childValues := cv\<rparr>"
  proof (cases ?short)
    case False
    let ?w = "sw_indent (sw_append ''['' (w\<lparr>childValues := []\<rparr>))"
    have m: "isMultineArray fmt_g xs w = (True, w\<lparr>childValues := []\<rparr>)" using False by auto
    obtain cv where cv: "write_elements fmt_g False 0 xs ?w =
        (sw_append (join_comma (map (\<lambda>x. new_line ?n @ styled fmt_g ?n x) xs)) ?w)\<lparr>childValues := cv\<rparr>"
      using elements_printed [OF _ assms(2) bt [of "[]"], of fmt_g 0] assms(1) by (auto simp: indentSize_def)
    have "childValues ?w = []" by (simp add: sw_indent_def)
    moreover have "\<not> single_line fmt_g xs" using False by (auto simp: single_line_def)
    ultimately show ?thesis
      using assms(2) m cv sw_brackets [OF w1 [of "[]"] refl vis, where open_text = "''[''" and close_text = "'']''" and cv = cv] writeWithIndent_behind_space [OF w1 [of "[]"]]
      by (auto simp: Let_def simp del: isMultineArray.simps)
  next
    case True
    let ?w1 = "w\<lparr>childValues := ?ws\<rparr>"
    have "write_children fmt_g xs (w\<lparr>childValues := [], addChildValues := True\<rparr>) = w\<lparr>childValues := ?ws, addChildValues := True\<rparr>"
      using True by (subst children_collected) simp_all
    then have m: "isMultineArray fmt_g xs w = (\<not> single_line fmt_g xs, ?w1)"
      using True w by (simp add: single_line_def comp_def behind_space_def not_less)
    have leaf: "map (\<lambda>x. new_line ?n @ styled fmt_g ?n x) xs = map (\<lambda>x. new_line ?n @ writeValue fmt_g x) xs"
      using True by (auto simp: leaf_styled list_ex_iff)
    show ?thesis
    proof (cases "single_line fmt_g xs")
      case short: True
      have "sw_writeValue fmt_g (arrayValue xs) w = (sw_append (''[ '' @ join_spaced ?ws @ '' ]'') w)\<lparr>childValues := ?ws\<rparr>"
        using assms(2) m short by (simp del: isMultineArray.simps)
      moreover have "'' '' @ join_spaced ?ws = join_comma (map (\<lambda>x. '' '' @ writeValue fmt_g x) xs)"
        using join_spaced_comma [of ?ws] assms(2) by (simp add: comp_def)
      ultimately show ?thesis using assms(2) short by (intro exI [of _ ?ws]) simp
    next
      case long: False
      let ?w = "sw_indent (sw_append ''['' ?w1)"
      have "write_elements fmt_g True 0 xs ?w = sw_append (join_comma (map (\<lambda>x. new_line ?n @ styled fmt_g ?n x) xs)) ?w"
        unfolding leaf using assms(2) bt by (intro collected_elements_printed) (simp_all add: sw_indent_def)
      also have "\<dots> = (sw_append (join_comma (map (\<lambda>x. new_line ?n @ styled fmt_g ?n x) xs)) ?w)\<lparr>childValues := ?ws\<rparr>"
        by (cases w) (simp add: sw_indent_def sw_append_def)
      finally have e: "write_elements fmt_g True 0 xs ?w = \<dots>" .
      have "childValues ?w \<noteq> []" using assms(2) by (simp add: sw_indent_def)
      then show ?thesis
        using e assms(2) m long sw_brackets [OF w1 [of ?ws] refl vis, where open_text = "''[''" and close_text = "'']''" and cv = ?ws] writeWithIndent_behind_space [OF w1 [of ?ws]]
        by (auto simp del: isMultineArray.simps simp: Let_def)
    qed
  qed
qed

lemma prints_leaf: "\<not> has_children v \<Longrightarrow> prints fmt_g v"
proof -
  assume "\<not> has_children v"
  then have "sw_writeValue fmt_g v w = (sw_append (styled fmt_g n v) w)\<lparr>childValues := childValues w\<rparr>" if "behind_space w n" for w n
    using that by (cases w) (simp add: leaf_pushed leaf_styled behind_space_def pushValue_def sw_append_def)
  then show ?thesis unfolding prints_def by blast
qed

lemma styled_printed: "printable v \<Longrightarrow> prints fmt_g v"
proof (induction v)
  case (arrayValue xs)
  then show ?case using prints_array [of xs fmt_g] prints_leaf [of "arrayValue xs"] by (cases "xs = []") (auto simp: list_all_iff)
next
  case (objectValue m)
  then show ?case using prints_object [of m fmt_g] prints_leaf [of "objectValue m"] by (cases "m = []") (fastforce simp: list_all_iff)+
qed (auto intro: prints_leaf)

section \<open>Reading the styled text\<close>

lemma space_new_line [simp]: "list_all is_space (new_line n)" "list_all is_space (spaces n)"
  by (simp_all add: new_line_def spaces_def is_space_def list_all_iff)

lemma styled_front:
  assumes "printable v"
  shows "\<exists>c cs. styled fmt_g n v = c # cs \<and> \<not> is_space c \<and> c \<noteq> CHR '']''"
proof (cases "has_children v")
  case True
  then show ?thesis by (cases v) (auto simp: is_space_def)
next
  case False
  then show ?thesis using writeValue_front [OF assms, of fmt_g] by (simp add: leaf_styled)
qed

lemma reads_spaced_array:
  assumes "\<And>x r. x \<in> set xs \<Longrightarrow> number_ends r \<Longrightarrow> reads scan_lf (f x @ r) (read_back x) r" and "xs \<noteq> []"
    and "\<exists>c cs. f (hd xs) = c # cs \<and> \<not> is_space c \<and> c \<noteq> CHR '']''" and "list_all is_space u" and "list_all is_space e"
  shows "reads scan_lf (''['' @ join_comma (map (\<lambda>x. u @ f x) xs) @ e @ '']'' @ rest) (read_back (arrayValue xs)) rest"
proof -
  let ?body = "join_comma (map (\<lambda>x. u @ f x) xs) @ e @ CHR '']'' # rest"
  obtain c cs where c: "f (hd xs) = c # cs" "\<not> is_space c" "c \<noteq> CHR '']''" using assms(3) by blast
  obtain r where "join_comma (map (\<lambda>x. u @ f x) xs) = hd (map (\<lambda>x. u @ f x) xs) @ r"
    using join_comma_front [of "map (\<lambda>x. u @ f x) xs"] assms(2) by auto
  then have b: "?body = u @ c # (cs @ r @ e @ CHR '']'' # rest)" using c(1) assms(2) by (simp add: hd_map)
  have "skipSpaces ?body = c # (cs @ r @ e @ CHR '']'' # rest)"
    unfolding b skipSpaces_def using assms(4) c(2) by (subst dropWhile_append2) (auto simp: list_all_iff)
  then have "\<not> (skipSpaces ?body \<noteq> [] \<and> hd (skipSpaces ?body) = CHR '']'')" using c(3) by simp
  moreover obtain n where "readArray scan_lf n [] ?body = ReadOk (arrayValue (map read_back xs)) rest"
    using reads_array [of xs scan_lf "\<lambda>x. u @ f x" read_back e "[]" rest] assms(1,2,4,5) reads_space [OF assms(4)] by auto
  ultimately show ?thesis unfolding reads_def by (intro exI [of _ "Suc n"]) auto
qed

lemma reads_styled_object:
  assumes "\<And>k x r. (k, x) \<in> set m \<Longrightarrow> number_ends r \<Longrightarrow> reads scan_lf (f x @ r) (read_back x) r" and "printable (objectValue m)" and "m \<noteq> []"
    and "list_all is_space u" and "list_all is_space e"
  shows "reads scan_lf (''{'' @ join_comma (map (\<lambda>(k, x). u @ valueToQuotedString k @ '' : '' @ f x) m) @ e @ ''}'' @ rest) (read_back (objectValue m)) rest"
proof -
  have "map fst (map (\<lambda>(k, x). (k, read_back x)) m) = map fst m" by (simp add: split_beta comp_def)
  then have "stdmap_ok (map (\<lambda>(k, x). (k, read_back x)) m)" using assms(2) unfolding stdmap_ok_def printable.simps by metis
  moreover have "list_all (\<lambda>(k, x). no_nul k) m" using assms(2) by (auto simp: list_all_iff)
  moreover have "list_all is_space '' ''" by (simp add: is_space_def)
  ultimately obtain n where n: "readObject scan_lf n [] []
      (join_comma (map (\<lambda>(k, x). u @ valueToQuotedString k @ '' '' @ '':'' @ '' '' @ f x) m) @ e @ CHR ''}'' # rest) =
      ReadOk (objectValue (map (\<lambda>(k, x). (k, read_back x)) m)) rest"
    using reads_object [of m scan_lf "\<lambda>x. '' '' @ f x" read_back "[]" u "'' ''" e "[]" rest] assms reads_space [of "'' ''" scan_lf] by auto
  have "(\<lambda>(k, x). u @ valueToQuotedString k @ '' '' @ '':'' @ '' '' @ f x) = (\<lambda>(k, x). u @ valueToQuotedString k @ '' : '' @ f x)"
    by (rule ext) auto
  then show ?thesis using n unfolding reads_def by (intro exI [of _ "Suc n"]) (simp only:, simp)
qed

lemma reads_leaf:
  "\<not> has_children v \<Longrightarrow> printable v \<Longrightarrow> number_ends rest \<Longrightarrow> reads scan_lf (styled fmt_g n v @ rest) (read_back v) rest"
  using reads_written [of v rest scan_lf fmt_g] leaf_styled [of v fmt_g n] by argo

lemma reads_styled: "printable v \<Longrightarrow> number_ends rest \<Longrightarrow> reads scan_lf (styled fmt_g n v @ rest) (read_back v) rest"
proof (induction v arbitrary: n rest)
  case (arrayValue xs)
  have px: "printable x" if "x \<in> set xs" for x using that arrayValue.prems(1) by (simp add: list_all_iff)
  show ?case
  proof (cases "xs = []")
    case True
    then show ?thesis using reads_written [OF arrayValue.prems, of scan_lf fmt_g] by simp
  next
    case ne: False
    show ?thesis
    proof (cases "single_line fmt_g xs")
      case True
      have "reads scan_lf (''['' @ join_comma (map (\<lambda>x. '' '' @ writeValue fmt_g x) xs) @ '' '' @ '']'' @ rest) (read_back (arrayValue xs)) rest"
        using reads_written px ne writeValue_front [of "hd xs" fmt_g] by (intro reads_spaced_array) (auto simp: is_space_def)
      then show ?thesis using True ne by simp
    next
      case False
      let ?n = "n + indentSize"
      have "reads scan_lf (''['' @ join_comma (map (\<lambda>x. new_line ?n @ styled fmt_g ?n x) xs) @ new_line n @ '']'' @ rest) (read_back (arrayValue xs)) rest"
        using arrayValue.IH px ne styled_front [of "hd xs" fmt_g ?n] by (intro reads_spaced_array) auto
      then show ?thesis using False ne by simp
    qed
  qed
next
  case (objectValue m)
  show ?case
  proof (cases "m = []")
    case True
    then show ?thesis using reads_written [OF objectValue.prems, of scan_lf fmt_g] by simp
  next
    case False
    let ?n = "n + indentSize"
    have "reads scan_lf (''{'' @ join_comma (map (\<lambda>(k, x). new_line ?n @ valueToQuotedString k @ '' : '' @ styled fmt_g ?n x) m) @ new_line n @ ''}'' @ rest)
        (read_back (objectValue m)) rest"
    proof (rule reads_styled_object)
      show "reads scan_lf (styled fmt_g ?n x @ r) (read_back x) r" if "(k, x) \<in> set m" "number_ends r" for k x r
        using objectValue that by (fastforce simp: list_all_iff)
    qed (use objectValue.prems False in simp_all)
    then show ?thesis using False by simp
  qed
qed (rule reads_leaf, simp, assumption, assumption)+

lemma toStyledString_styled: "printable v \<Longrightarrow> StyledWriter_write fmt_g v w = styled fmt_g 0 v @ [CHR 0x0A]"
proof -
  assume "printable v"
  have "behind_space (w\<lparr>document := [], addChildValues := False, indentString := []\<rparr>) 0" by (simp add: behind_space_def spaces_def)
  from printsD [OF styled_printed [OF \<open>printable v\<close>] this, of fmt_g] show ?thesis by (auto simp: StyledWriter_write_def)
qed

lemma toStyledString_reads: "printable v \<Longrightarrow> Reader_parse scan_lf (toStyledString fmt_g v) = Some (read_back v)"
  using Reader_parse_reads [OF reads_styled [of v "[CHR 0x0A]" scan_lf fmt_g 0]] toStyledString_styled [of v fmt_g StyledWriter_new]
  by (simp add: toStyledString_def)

text \<open>
  C16 (roundtrip).  The text that \<^verbatim>\<open>toStyledString\<close> prints for a value without doubles and NUL characters is the layout \<open>styled\<close>, whatever was printed
  before with the same writer, and the reader reads it back as the value it reads from the compact text.
\<close>

theorem styled_writer_roundtrip:
  assumes "printable v"
  shows "StyledWriter_write fmt_g v w = styled fmt_g 0 v @ [CHR 0x0A] \<and>
    Reader_parse scan_lf (toStyledString fmt_g v) = Some (read_back v) \<and>
    Reader_parse scan_lf (toStyledString fmt_g v) = Reader_parse scan_lf (FastWriter_write fmt_g v)"
proof -
  have "Reader_parse scan_lf (toStyledString fmt_g v) = Some (read_back v)" by (rule toStyledString_reads [OF assms])
  moreover have "Reader_parse scan_lf (FastWriter_write fmt_g v) = Some (read_back v)"
    using Reader_parse_reads [OF reads_written [OF assms, of "[CHR 0x0A]" scan_lf fmt_g]] by (simp add: FastWriter_write_def)
  ultimately show ?thesis using toStyledString_styled [OF assms] by simp
qed

theorem styled_writer_roundtrip_witness:
  "toStyledString (\<lambda>d. []) (objectValue [(''a'', arrayValue [intValue 1, arrayValue []]), (''b'', arrayValue [objectValue [(''c'', nullValue)]])]) =
     ''{'' @ [CHR 0x0A] @ ''   '' @ [CHR 0x22, CHR ''a'', CHR 0x22] @ '' : [ 1, [] ],'' @ [CHR 0x0A] @ ''   '' @ [CHR 0x22, CHR ''b'', CHR 0x22] @ '' : ['' @ [CHR 0x0A] @
     ''      {'' @ [CHR 0x0A] @ ''         '' @ [CHR 0x22, CHR ''c'', CHR 0x22] @ '' : null'' @ [CHR 0x0A] @ ''      }'' @ [CHR 0x0A] @ ''   ]'' @ [CHR 0x0A] @ ''}'' @ [CHR 0x0A]"
proof -
  let ?v = "objectValue [(''a'', arrayValue [intValue 1, arrayValue []]), (''b'', arrayValue [objectValue [(''c'', nullValue)]])]"
  have "printable ?v" by (simp add: stdmap_ok_def no_nul_def)
  from styled_writer_roundtrip [OF this, of "\<lambda>d. []" StyledWriter_new] have "toStyledString (\<lambda>d. []) ?v = styled (\<lambda>d. []) 0 ?v @ [CHR 0x0A]"
    by (simp only: toStyledString_def)
  moreover have "styled (\<lambda>d. []) 0 ?v @ [CHR 0x0A] = ''{'' @ [CHR 0x0A] @ ''   '' @ [CHR 0x22, CHR ''a'', CHR 0x22] @ '' : [ 1, [] ],'' @ [CHR 0x0A] @ ''   '' @ [CHR 0x22, CHR ''b'', CHR 0x22] @ '' : ['' @ [CHR 0x0A] @
     ''      {'' @ [CHR 0x0A] @ ''         '' @ [CHR 0x22, CHR ''c'', CHR 0x22] @ '' : null'' @ [CHR 0x0A] @ ''      }'' @ [CHR 0x0A] @ ''   ]'' @ [CHR 0x0A] @ ''}'' @ [CHR 0x0A]"
    by code_simp
  ultimately show ?thesis by simp
qed

section \<open>A command without arguments\<close>

definition GeneratCommonCmd :: "(rat \<Rightarrow> string) \<Rightarrow> string \<Rightarrow> string option" where
  "GeneratCommonCmd fmt_g command =
     map_option (toStyledString fmt_g) (resolveReference_set nullValue ''cmd'' (Value_cstr command))"

text \<open>What is sent for a command reads back as the object with the member \<^verbatim>\<open>cmd\<close>.\<close>

lemma GeneratCommonCmd_reads:
  assumes "no_nul command"
  shows "map_option (Reader_parse scan_lf) (GeneratCommonCmd fmt_g command) = Some (Some (objectValue [(''cmd'', stringValue command)]))"
proof -
  have "cstr command = command" "cstr ''cmd'' = ''cmd''" using assms by (simp_all add: cstr_no_nul cstr_def [of "''cmd''"])
  moreover have "printable (objectValue [(''cmd'', stringValue command)])" using assms by (simp add: stdmap_ok_def no_nul_def)
  ultimately show ?thesis
    using toStyledString_reads [of "objectValue [(''cmd'', stringValue command)]" scan_lf fmt_g]
    by (simp add: GeneratCommonCmd_def resolveReference_set_def Value_cstr_def)
qed

end
