(* ===== verification/Vz_Jsonvalue.thy ===== *)
theory Vz_Jsonvalue
  imports Vz_Json
begin

text \<open>
  The rest of \<^verbatim>\<open>Json::Value\<close> in \<^verbatim>\<open>src/src/json/jsoncpp.cpp\<close>: the comparison of values, their classification and conversion to
  the C++ types, the removal and the defaults of members, and the arrays as the \<^verbatim>\<open>std::map\<close> from indices they are, of which
  the lists of \<open>Vz_Json\<close> are the case without gaps.  A finite double is a rational number; the conversion of an
  integer to a double rounds to the nearest number of 53 bits, ties to even.
\<close>

section \<open>The order of std::map and std::pair\<close>

text \<open>\<^verbatim>\<open>std::lexicographical_compare\<close> and \<^verbatim>\<open>operator<\<close> of \<^verbatim>\<open>std::pair\<close>, from the order of the elements.\<close>

fun lex_less :: "('a \<Rightarrow> 'a \<Rightarrow> bool) \<Rightarrow> 'a list \<Rightarrow> 'a list \<Rightarrow> bool" where
  "lex_less lt _ [] = False"
| "lex_less lt [] (y # ys) = True"
| "lex_less lt (x # xs) (y # ys) = (lt x y \<or> \<not> lt y x \<and> lex_less lt xs ys)"

fun pair_less :: "('v \<Rightarrow> 'v \<Rightarrow> bool) \<Rightarrow> ('k :: linorder \<times> 'v) \<Rightarrow> 'k \<times> 'v \<Rightarrow> bool" where
  "pair_less lt (k, v) (j, w) = (k < j \<or> \<not> j < k \<and> lt v w)"

lemma lex_less_cong [fundef_cong]:
  assumes "xs = xs'" and "ys = ys'"
    and "\<And>x y. x \<in> set xs' \<Longrightarrow> y \<in> set ys' \<Longrightarrow> lt x y = lt' x y" and "\<And>x y. x \<in> set xs' \<Longrightarrow> y \<in> set ys' \<Longrightarrow> lt y x = lt' y x"
  shows "lex_less lt xs ys = lex_less lt' xs' ys'"
  using assms(3, 4) unfolding assms(1, 2) by (induction lt xs' ys' rule: lex_less.induct) auto

lemma pair_less_cong [fundef_cong]:
  assumes "p = p'" and "q = q'" and "\<And>k v j w. p' = (k, v) \<Longrightarrow> q' = (j, w) \<Longrightarrow> lt v w = lt' v w"
  shows "pair_less lt p q = pair_less lt' p' q'"
  using assms by (cases p; cases q) auto

locale strict_order_on =
  fixes A :: "'a set" and lt :: "'a \<Rightarrow> 'a \<Rightarrow> bool"
  assumes irrefl: "x \<in> A \<Longrightarrow> \<not> lt x x"
    and trans: "x \<in> A \<Longrightarrow> y \<in> A \<Longrightarrow> z \<in> A \<Longrightarrow> lt x y \<Longrightarrow> lt y z \<Longrightarrow> lt x z"
    and total: "x \<in> A \<Longrightarrow> y \<in> A \<Longrightarrow> lt x y \<or> x = y \<or> lt y x"
begin

lemma asym: "x \<in> A \<Longrightarrow> y \<in> A \<Longrightarrow> lt x y \<Longrightarrow> \<not> lt y x"
  using irrefl trans by blast

lemma incomparable: "x \<in> A \<Longrightarrow> y \<in> A \<Longrightarrow> \<not> lt x y \<Longrightarrow> \<not> lt y x \<Longrightarrow> x = y"
  using total by blast

lemma cons_less: "x \<in> A \<Longrightarrow> y \<in> A \<Longrightarrow> lex_less lt (x # xs) (y # ys) \<longleftrightarrow> lt x y \<or> x = y \<and> lex_less lt xs ys"
  using incomparable irrefl asym by auto

lemma lex_irrefl: "set xs \<subseteq> A \<Longrightarrow> \<not> lex_less lt xs xs"
  by (induction xs) (simp_all add: irrefl)

lemma lex_trans:
  "set xs \<subseteq> A \<Longrightarrow> set ys \<subseteq> A \<Longrightarrow> set zs \<subseteq> A \<Longrightarrow> lex_less lt xs ys \<Longrightarrow> lex_less lt ys zs \<Longrightarrow> lex_less lt xs zs"
proof (induction xs arbitrary: ys zs)
  case Nil
  then show ?case by (cases ys; cases zs) simp_all
next
  case (Cons x xs)
  then obtain y ys' where ys: "ys = y # ys'" by (cases ys) auto
  with Cons.prems obtain z zs' where zs: "zs = z # zs'" by (cases zs) auto
  have "x \<in> A" "y \<in> A" "z \<in> A" using Cons.prems by (simp_all add: ys zs)
  note iff = cons_less [OF this(1, 2)] cons_less [OF this(2, 3)] cons_less [OF this(1, 3)] and tr = trans [OF this]
  have "lex_less lt xs zs'" if "lex_less lt xs ys'" "lex_less lt ys' zs'"
    using Cons.IH [of ys' zs'] Cons.prems that by (simp add: ys zs)
  then show ?case using Cons.prems(4, 5) tr unfolding ys zs iff by blast
qed

lemma lex_total: "set xs \<subseteq> A \<Longrightarrow> set ys \<subseteq> A \<Longrightarrow> lex_less lt xs ys \<or> xs = ys \<or> lex_less lt ys xs"
proof (induction xs arbitrary: ys)
  case Nil
  then show ?case by (cases ys) simp_all
next
  case (Cons x xs)
  then show ?case using total [of x "hd ys"] asym [of x "hd ys"] by (cases ys) auto
qed

lemma lists_ordered: "strict_order_on {xs. set xs \<subseteq> A} (lex_less lt)"
  using lex_irrefl lex_trans lex_total by unfold_locales blast+

lemma pair_iff: "snd p \<in> A \<Longrightarrow> snd q \<in> A \<Longrightarrow> pair_less lt p q \<longleftrightarrow> fst p < fst q \<or> fst p = fst q \<and> lt (snd p) (snd q)"
  by (cases p; cases q) auto

lemma pairs_ordered: "strict_order_on {p. snd p \<in> A} (pair_less lt)"
proof unfold_locales
  fix p q r :: "'k :: linorder \<times> 'a"
  assume "p \<in> {p. snd p \<in> A}" "q \<in> {p. snd p \<in> A}"
  then have A: "snd p \<in> A" "snd q \<in> A" by simp_all
  show "\<not> pair_less lt p p" using A irrefl by (simp add: pair_iff)
  show "pair_less lt p q \<or> p = q \<or> pair_less lt q p"
    using A total [OF A] by (auto simp: pair_iff prod_eq_iff)
  assume "r \<in> {p. snd p \<in> A}" "pair_less lt p q" "pair_less lt q r"
  then show "pair_less lt p r" using A trans [OF A, of "snd r"] by (auto simp: pair_iff)
qed

end

section \<open>The comparison of values\<close>

text \<open>
  \<^verbatim>\<open>operator<\<close> and \<^verbatim>\<open>operator==\<close>.  The entries of two arrays without gaps and of equal size have the same indices, so their
  \<^verbatim>\<open>std::map\<close>s are compared value by value.  Strings end at their first NUL.
\<close>

lemma element_size: "x \<in> set xs \<Longrightarrow> size (x :: Value) \<le> size_list size xs"
  by (erule size_list_estimation') simp

lemma member_size: "(k, v :: Value) \<in> set m \<Longrightarrow> size v \<le> size_list (size_prod (\<lambda>x. 0) size) m"
  by (erule size_list_estimation') simp

function value_less :: "Value \<Rightarrow> Value \<Rightarrow> bool" where
  "value_less v w =
     (let typeDelta = type_index v - type_index w in
      if typeDelta \<noteq> 0 then typeDelta < 0
      else case (v, w) of
          (intValue i, intValue j) \<Rightarrow> sint i < sint j
        | (uintValue i, uintValue j) \<Rightarrow> i < j
        | (realValue d, realValue e) \<Rightarrow> d < e
        | (booleanValue a, booleanValue b) \<Rightarrow> \<not> a \<and> b
        | (stringValue s, stringValue t) \<Rightarrow> cstr s < cstr t
        | (arrayValue xs, arrayValue ys) \<Rightarrow>
            if length xs \<noteq> length ys then length xs < length ys else lex_less value_less xs ys
        | (objectValue m, objectValue n) \<Rightarrow>
            if length m \<noteq> length n then length m < length n else lex_less (pair_less value_less) m n
        | _ \<Rightarrow> False)"
  by pat_completeness auto
termination
  by (relation "measure (\<lambda>(v, w). size v + size w)") (auto dest!: element_size member_size)

definition Value_le :: "Value \<Rightarrow> Value \<Rightarrow> bool" where "Value_le v w = (\<not> value_less w v)"

definition Value_ge :: "Value \<Rightarrow> Value \<Rightarrow> bool" where "Value_ge v w = (\<not> value_less v w)"

definition Value_gt :: "Value \<Rightarrow> Value \<Rightarrow> bool" where "Value_gt v w = value_less w v"

definition Value_compare :: "Value \<Rightarrow> Value \<Rightarrow> int" where
  "Value_compare v w = (if value_less v w then - 1 else if Value_gt v w then 1 else 0)"

function value_eq :: "Value \<Rightarrow> Value \<Rightarrow> bool" where
  "value_eq v w =
     (if type_index v \<noteq> type_index w then False
      else case (v, w) of
          (nullValue, nullValue) \<Rightarrow> True
        | (intValue i, intValue j) \<Rightarrow> i = j
        | (uintValue i, uintValue j) \<Rightarrow> i = j
        | (realValue d, realValue e) \<Rightarrow> d = e
        | (booleanValue a, booleanValue b) \<Rightarrow> a = b
        | (stringValue s, stringValue t) \<Rightarrow> cstr s = cstr t
        | (arrayValue xs, arrayValue ys) \<Rightarrow> length xs = length ys \<and> list_all2 value_eq xs ys
        | (objectValue m, objectValue n) \<Rightarrow>
            length m = length n \<and> list_all2 (\<lambda>p q. fst p = fst q \<and> value_eq (snd p) (snd q)) m n
        | _ \<Rightarrow> False)"
  by pat_completeness auto
termination
  by (relation "measure (\<lambda>(v, w). size v + size w)") (auto dest!: element_size member_size)

definition value_ne :: "Value \<Rightarrow> Value \<Rightarrow> bool" where "value_ne v w = (\<not> value_eq v w)"

declare value_less.simps [simp del] and value_eq.simps [simp del]

lemma type_index_eq [simp]:
  "type_index nullValue = type_index w \<longleftrightarrow> w = nullValue"
  "type_index (intValue i) = type_index w \<longleftrightarrow> (\<exists>j. w = intValue j)"
  "type_index (uintValue u) = type_index w \<longleftrightarrow> (\<exists>j. w = uintValue j)"
  "type_index (realValue d) = type_index w \<longleftrightarrow> (\<exists>e. w = realValue e)"
  "type_index (stringValue s) = type_index w \<longleftrightarrow> (\<exists>t. w = stringValue t)"
  "type_index (booleanValue b) = type_index w \<longleftrightarrow> (\<exists>c. w = booleanValue c)"
  "type_index (arrayValue xs) = type_index w \<longleftrightarrow> (\<exists>ys. w = arrayValue ys)"
  "type_index (objectValue m) = type_index w \<longleftrightarrow> (\<exists>n. w = objectValue n)"
  by (cases w; simp add: type_index_def)+

lemma value_less_same [simp]:
  "\<not> value_less nullValue nullValue"
  "value_less (intValue i) (intValue j) \<longleftrightarrow> sint i < sint j"
  "value_less (uintValue u) (uintValue t) \<longleftrightarrow> u < t"
  "value_less (realValue d) (realValue e) \<longleftrightarrow> d < e"
  "value_less (booleanValue a) (booleanValue b) \<longleftrightarrow> \<not> a \<and> b"
  "value_less (stringValue r) (stringValue s) \<longleftrightarrow> cstr r < cstr s"
  "value_less (arrayValue xs) (arrayValue ys) \<longleftrightarrow> length xs < length ys \<or> length xs = length ys \<and> lex_less value_less xs ys"
  "value_less (objectValue m) (objectValue n) \<longleftrightarrow> length m < length n \<or> length m = length n \<and> lex_less (pair_less value_less) m n"
  by (subst value_less.simps; simp add: type_index_def)+

lemma value_less_types: "type_index v \<noteq> type_index w \<Longrightarrow> value_less v w \<longleftrightarrow> type_index v < type_index w"
  by (subst value_less.simps) simp

text \<open>The values whose strings have no NUL: those that are read from a text or built from a C string.\<close>

fun clean :: "Value \<Rightarrow> bool" where
  "clean (stringValue s) = (cstr s = s)"
| "clean (arrayValue xs) = list_all clean xs"
| "clean (objectValue m) = list_all (\<lambda>p. clean (snd p)) m"
| "clean _ = True"

abbreviation clean_below :: "nat \<Rightarrow> Value set" where "clean_below n \<equiv> {v. clean v \<and> size v < n}"

lemma elements_below: "arrayValue xs \<in> clean_below (Suc n) \<Longrightarrow> set xs \<subseteq> clean_below n"
  by (auto simp: list_all_iff dest: element_size)

lemma members_below: "objectValue m \<in> clean_below (Suc n) \<Longrightarrow> set m \<subseteq> {p. snd p \<in> clean_below n}"
  by (fastforce simp: list_all_iff dest: member_size)

lemma sint_eq_iff: "sint (i :: int64) = sint j \<longleftrightarrow> i = j"
  using signed_word_eqI by blast

text \<open>The order of the values up to a size gives that of the arrays and objects of the next size.\<close>

lemma values_ordered_step:
  assumes "strict_order_on (clean_below n) value_less"
  shows "strict_order_on (clean_below (Suc n)) value_less"
proof -
  note elems = strict_order_on.lists_ordered [OF assms]
  note mems = strict_order_on.lists_ordered [OF strict_order_on.pairs_ordered [OF assms, where 'b = string]]
  note subs = elements_below [of _ n] members_below [of _ n]
  show ?thesis
  proof
    fix x y z
    assume x: "x \<in> clean_below (Suc n)"
    show "\<not> value_less x x"
      using x subs strict_order_on.irrefl [OF elems] strict_order_on.irrefl [OF mems] by (cases x) auto
    assume y: "y \<in> clean_below (Suc n)"
    show "value_less x y \<or> x = y \<or> value_less y x"
    proof (cases "type_index x = type_index y")
      case True
      then show ?thesis
      proof (cases x)
        case (arrayValue xs)
        with True obtain ys where "y = arrayValue ys" by auto
        with arrayValue show ?thesis using x y subs(1) [of xs] subs(1) [of ys] strict_order_on.total [OF elems, of xs ys] by auto
      next
        case (objectValue m)
        with True obtain m' where "y = objectValue m'" by auto
        with objectValue show ?thesis using x y subs(2) [of m] subs(2) [of m'] strict_order_on.total [OF mems, of m m'] by auto
      qed (use x y in \<open>auto simp: sint_eq_iff not_less_iff_gr_or_eq\<close>)
    next
      case False
      then show ?thesis by (auto simp: value_less_types)
    qed
    assume z: "z \<in> clean_below (Suc n)" and less: "value_less x y" "value_less y z"
    show "value_less x z"
    proof (cases "type_index x = type_index y \<and> type_index y = type_index z")
      case True
      then show ?thesis
      proof (cases x)
        case (arrayValue xs)
        with True obtain ys zs where "y = arrayValue ys" "z = arrayValue zs" by auto
        with arrayValue show ?thesis
          using less x y z subs(1) [of xs] subs(1) [of ys] subs(1) [of zs] strict_order_on.trans [OF elems, of xs ys zs] by auto
      next
        case (objectValue m)
        with True obtain m' m'' where "y = objectValue m'" "z = objectValue m''" by auto
        with objectValue show ?thesis
          using less x y z subs(2) [of m] subs(2) [of m'] subs(2) [of m''] strict_order_on.trans [OF mems, of m m' m''] by auto
      qed (use less in auto)
    next
      case False
      then show ?thesis using less value_less_types [of x y] value_less_types [of y z] value_less_types [of x z]
        by (metis less_trans not_less_iff_gr_or_eq)
    qed
  qed
qed

lemma values_ordered: "strict_order_on (clean_below n) value_less"
  by (induction n) (simp_all add: values_ordered_step, unfold_locales, simp_all)

interpretation json_order: strict_order_on "{v. clean v}" value_less
proof
  fix x y z :: Value
  let ?n = "Suc (size x + size y + size z)"
  note ordered = values_ordered [of ?n]
  assume "x \<in> {v. clean v}"
  then have x: "x \<in> clean_below ?n" by simp
  show "\<not> value_less x x" by (rule strict_order_on.irrefl [OF ordered x])
  assume "y \<in> {v. clean v}"
  then have y: "y \<in> clean_below ?n" by simp
  show "value_less x y \<or> x = y \<or> value_less y x" by (rule strict_order_on.total [OF ordered x y])
  assume "z \<in> {v. clean v}" and less: "value_less x y" "value_less y z"
  then have z: "z \<in> clean_below ?n" by simp
  show "value_less x z" by (rule strict_order_on.trans [OF ordered x y z less])
qed

lemma value_eq_same [simp]:
  "value_eq nullValue nullValue"
  "value_eq (intValue i) (intValue j) \<longleftrightarrow> i = j"
  "value_eq (uintValue u) (uintValue t) \<longleftrightarrow> u = t"
  "value_eq (realValue d) (realValue e) \<longleftrightarrow> d = e"
  "value_eq (booleanValue a) (booleanValue b) \<longleftrightarrow> a = b"
  "value_eq (stringValue r) (stringValue s) \<longleftrightarrow> cstr r = cstr s"
  "value_eq (arrayValue xs) (arrayValue ys) \<longleftrightarrow> list_all2 value_eq xs ys"
  "value_eq (objectValue m) (objectValue n) \<longleftrightarrow> list_all2 (\<lambda>p q. fst p = fst q \<and> value_eq (snd p) (snd q)) m n"
  by (subst value_eq.simps; simp add: type_index_def; blast dest: list_all2_lengthD)+

lemma value_eq_types: "value_eq v w \<Longrightarrow> type_index v = type_index w"
  by (subst (asm) value_eq.simps) (simp split: if_splits)

lemma list_all2_is_eq: "(\<And>x y. x \<in> set xs \<Longrightarrow> y \<in> set ys \<Longrightarrow> R x y \<longleftrightarrow> x = y) \<Longrightarrow> list_all2 R xs ys \<longleftrightarrow> xs = ys"
  by (induction xs ys rule: list_induct2') auto

lemma value_eq_iff: "clean v \<Longrightarrow> clean w \<Longrightarrow> value_eq v w \<longleftrightarrow> v = w"
proof (induction v arbitrary: w)
  case (arrayValue xs)
  then have "list_all2 value_eq xs ys \<longleftrightarrow> xs = ys" if "w = arrayValue ys" for ys
    using that by (intro list_all2_is_eq) (simp add: list_all_iff)
  then show ?case using value_eq_types [of "arrayValue xs" w] by auto
next
  case (objectValue m)
  have "(fst p = fst q \<and> value_eq (snd p) (snd q)) \<longleftrightarrow> p = q" if "w = objectValue n" "p \<in> set m" "q \<in> set n" for n p q
    using objectValue.IH [of p "snd p" "snd q"] objectValue.prems that
    by (auto simp: list_all_iff prod_eq_iff snds.simps)
  then have "list_all2 (\<lambda>p q. fst p = fst q \<and> value_eq (snd p) (snd q)) m n \<longleftrightarrow> m = n" if "w = objectValue n" for n
    using that by (intro list_all2_is_eq)
  then show ?case using value_eq_types [of "objectValue m" w] by auto
qed (use value_eq_types in fastforce)+

lemma compare_cases:
  assumes "clean x" and "clean y"
  obtains "value_less x y" "\<not> value_less y x" "x \<noteq> y" "Value_compare x y = - 1" "Value_compare y x = 1"
  | "\<not> value_less x y" "\<not> value_less y x" "x = y" "Value_compare x y = 0" "Value_compare y x = 0"
  | "\<not> value_less x y" "value_less y x" "x \<noteq> y" "Value_compare x y = 1" "Value_compare y x = - 1"
  using json_order.irrefl [of x] json_order.asym [of x y] json_order.total [of x y] assms
  by (cases "value_less x y"; cases "value_less y x") (auto simp: Value_compare_def Value_gt_def)

lemma compare_trans:
  assumes "clean u" and "clean v" and "clean w" and "Value_compare u v \<le> 0" and "Value_compare v w \<le> 0"
  shows "Value_compare u w \<le> 0"
proof -
  have "value_less u v \<or> u = v" by (rule compare_cases [OF assms(1, 2)]) (use assms(4) in simp_all)
  moreover have "value_less v w \<or> v = w" by (rule compare_cases [OF assms(2, 3)]) (use assms(5) in simp_all)
  ultimately have "value_less u w \<or> u = w" using json_order.trans [of u v w] assms(1-3) by blast
  then show ?thesis using assms(1, 3) by (auto elim: compare_cases)
qed

text \<open>
  On values whose strings have no NUL the comparison is a total order: \<^verbatim>\<open>compare\<close> is antisymmetric and
  transitive, and it is zero exactly on equal values, which is when \<^verbatim>\<open>operator==\<close> holds; the remaining
  operators are the comparisons with its sign.
\<close>

theorem json_values_ordered:
  assumes "clean u" and "clean v" and "clean w"
  shows "Value_compare v u = - Value_compare u v \<and>
    (Value_compare u v \<le> 0 \<longrightarrow> Value_compare v w \<le> 0 \<longrightarrow> Value_compare u w \<le> 0) \<and>
    (Value_compare u v = 0 \<longleftrightarrow> u = v) \<and> (value_eq u v \<longleftrightarrow> u = v) \<and> (value_ne u v \<longleftrightarrow> u \<noteq> v) \<and>
    (value_less u v \<longleftrightarrow> Value_compare u v < 0) \<and> (Value_le u v \<longleftrightarrow> Value_compare u v \<le> 0) \<and>
    (Value_gt u v \<longleftrightarrow> Value_compare u v > 0) \<and> (Value_ge u v \<longleftrightarrow> Value_compare u v \<ge> 0)"
  using compare_trans [OF assms] value_eq_iff [OF assms(1, 2)]
  by (cases rule: compare_cases [OF assms(1, 2)]) (simp_all add: Value_gt_def Value_le_def Value_ge_def value_ne_def)

theorem json_values_ordered_witness:
  "Value_compare (objectValue [(''a'', intValue 1), (''b'', nullValue)]) (objectValue [(''a'', intValue 2)]) = 1 \<and>
   Value_compare (objectValue [(''a'', intValue 2)]) (objectValue [(''a'', intValue 1), (''b'', nullValue)]) = - 1"
proof -
  let ?v = "objectValue [(''a'', intValue 1), (''b'', nullValue)]" and ?w = "objectValue [(''a'', intValue 2)]"
  have "Value_compare ?v ?w = 1" by (simp add: Value_compare_def Value_gt_def)
  moreover from this json_values_ordered [of ?v ?w nullValue] have "Value_compare ?w ?v = - 1" by simp
  ultimately show ?thesis by blast
qed

section \<open>Classification and conversion\<close>

text \<open>\<^verbatim>\<open>static_cast<double>\<close> of an integer: the nearest number with 53 significant bits, ties to even.\<close>

fun excess_bits :: "nat \<Rightarrow> nat" where
  "excess_bits n = (if n < 2 ^ 53 then 0 else Suc (excess_bits (n div 2)))"

declare excess_bits.simps [simp del]

definition round_53 :: "nat \<Rightarrow> nat" where
  "round_53 n =
     (let k = excess_bits n; q = n div 2 ^ k; r = n mod 2 ^ k
      in (if 2 * r > 2 ^ k \<or> 2 * r = 2 ^ k \<and> odd q then q + 1 else q) * 2 ^ k)"

definition to_double :: "int \<Rightarrow> rat" where
  "to_double i = of_int (sgn i * int (round_53 (nat \<bar>i\<bar>)))"

definition InRange :: "rat \<Rightarrow> int \<Rightarrow> int \<Rightarrow> bool" where
  "InRange d lo hi \<longleftrightarrow> to_double lo \<le> d \<and> d \<le> to_double hi"

definition minInt64 :: int where "minInt64 = - (2 ^ 63)"

definition maxInt64 :: int where "maxInt64 = 2 ^ 63 - 1"

definition maxUInt64 :: int where "maxUInt64 = 2 ^ 64 - 1"

definition maxUInt64AsDouble :: rat where "maxUInt64AsDouble = to_double 18446744073709551615"

definition isInt64 :: "Value \<Rightarrow> bool" where
  "isInt64 v = (case v of
      intValue i \<Rightarrow> True
    | uintValue u \<Rightarrow> uint u \<le> maxInt64
    | realValue d \<Rightarrow> to_double minInt64 \<le> d \<and> d < to_double maxInt64 \<and> IsIntegral d
    | _ \<Rightarrow> False)"

definition isUInt64 :: "Value \<Rightarrow> bool" where
  "isUInt64 v = (case v of
      intValue i \<Rightarrow> sint i \<ge> 0
    | uintValue u \<Rightarrow> True
    | realValue d \<Rightarrow> 0 \<le> d \<and> d < maxUInt64AsDouble \<and> IsIntegral d
    | _ \<Rightarrow> False)"

definition Value_isIntegral :: "Value \<Rightarrow> bool" where "Value_isIntegral v = (isInt64 v \<or> isUInt64 v)"

definition Value_isDouble :: "Value \<Rightarrow> bool" where
  "Value_isDouble v = ((case v of realValue _ \<Rightarrow> True | _ \<Rightarrow> False) \<or> Value_isIntegral v)"

definition isNumeric :: "Value \<Rightarrow> bool" where "isNumeric v = (Value_isIntegral v \<or> Value_isDouble v)"

text \<open>
  The conversions to 64 bits.  The cast of a double whose integral part is not in the range of the integer type
  is undefined behaviour.
\<close>

datatype 'a conversion = Converted 'a | Thrown | Undefined

definition double_to_int64 :: "rat \<Rightarrow> int64 conversion" where
  "double_to_int64 d = (if minInt64 \<le> trunc d \<and> trunc d \<le> maxInt64 then Converted (of_int (trunc d)) else Undefined)"

definition double_to_uint64 :: "rat \<Rightarrow> uint64 conversion" where
  "double_to_uint64 d = (if 0 \<le> trunc d \<and> trunc d \<le> maxUInt64 then Converted (of_int (trunc d)) else Undefined)"

definition asInt64 :: "Value \<Rightarrow> int64 conversion" where
  "asInt64 v = (case v of
      intValue i \<Rightarrow> Converted i
    | uintValue u \<Rightarrow> if isInt64 v then Converted u else Thrown
    | realValue d \<Rightarrow> if InRange d minInt64 maxInt64 then double_to_int64 d else Thrown
    | nullValue \<Rightarrow> Converted 0
    | booleanValue b \<Rightarrow> Converted (if b then 1 else 0)
    | _ \<Rightarrow> Thrown)"

definition asUInt64 :: "Value \<Rightarrow> uint64 conversion" where
  "asUInt64 v = (case v of
      intValue i \<Rightarrow> if isUInt64 v then Converted i else Thrown
    | uintValue u \<Rightarrow> Converted u
    | realValue d \<Rightarrow> if InRange d 0 maxUInt64 then double_to_uint64 d else Thrown
    | nullValue \<Rightarrow> Converted 0
    | booleanValue b \<Rightarrow> Converted (if b then 1 else 0)
    | _ \<Rightarrow> Thrown)"

definition asLargestInt :: "Value \<Rightarrow> int64 conversion" where "asLargestInt v = asInt64 v"

definition asLargestUInt :: "Value \<Rightarrow> uint64 conversion" where "asLargestUInt v = asUInt64 v"

definition asDouble :: "Value \<Rightarrow> rat option" where
  "asDouble v = (case v of
      intValue i \<Rightarrow> Some (to_double (sint i))
    | uintValue u \<Rightarrow> Some (to_double (uint u))
    | realValue d \<Rightarrow> Some d
    | nullValue \<Rightarrow> Some 0
    | booleanValue b \<Rightarrow> Some (if b then 1 else 0)
    | _ \<Rightarrow> None)"

datatype ValueType = null_type | int_type | uint_type | real_type | string_type | boolean_type | array_type | object_type

fun Value_type :: "Value \<Rightarrow> ValueType" where
  "Value_type nullValue = null_type"
| "Value_type (intValue _) = int_type"
| "Value_type (uintValue _) = uint_type"
| "Value_type (realValue _) = real_type"
| "Value_type (stringValue _) = string_type"
| "Value_type (booleanValue _) = boolean_type"
| "Value_type (arrayValue _) = array_type"
| "Value_type (objectValue _) = object_type"

definition real_in_range :: "Value \<Rightarrow> int \<Rightarrow> int \<Rightarrow> bool" where
  "real_in_range v lo hi = (case v of realValue d \<Rightarrow> InRange d lo hi | _ \<Rightarrow> False)"

fun isConvertibleTo :: "(rat \<Rightarrow> string) \<Rightarrow> Value \<Rightarrow> ValueType \<Rightarrow> bool" where
  "isConvertibleTo fmt_g v null_type \<longleftrightarrow>
     isNumeric v \<and> asDouble v = Some 0 \<or> v = booleanValue False \<or> isString v \<and> asString fmt_g v = Some [] \<or>
     isArray v \<and> Value_size v = 0 \<or> isObject v \<and> Value_size v = 0 \<or> isNull v"
| "isConvertibleTo fmt_g v int_type \<longleftrightarrow> isInt v \<or> real_in_range v minInt maxInt \<or> isBool v \<or> isNull v"
| "isConvertibleTo fmt_g v uint_type \<longleftrightarrow> isUInt v \<or> real_in_range v 0 maxUInt \<or> isBool v \<or> isNull v"
| "isConvertibleTo fmt_g v real_type \<longleftrightarrow> isNumeric v \<or> isBool v \<or> isNull v"
| "isConvertibleTo fmt_g v boolean_type \<longleftrightarrow> isNumeric v \<or> isBool v \<or> isNull v"
| "isConvertibleTo fmt_g v string_type \<longleftrightarrow> isNumeric v \<or> isBool v \<or> isString v \<or> isNull v"
| "isConvertibleTo fmt_g v array_type \<longleftrightarrow> isArray v \<or> isNull v"
| "isConvertibleTo fmt_g v object_type \<longleftrightarrow> isObject v \<or> isNull v"

lemmas value_kinds = isNull_def isBool_def isString_def isArray_def isObject_def

lemma excess_bits_small: "n < 2 ^ 53 \<Longrightarrow> excess_bits n = 0"
  by (subst excess_bits.simps) simp

lemma to_double_exact: "\<bar>i\<bar> < 2 ^ 53 \<Longrightarrow> to_double i = of_int i"
proof -
  assume "\<bar>i\<bar> < 2 ^ 53"
  then have "nat \<bar>i\<bar> < 2 ^ 53" by simp
  then show ?thesis by (simp add: to_double_def round_53_def excess_bits_small del: nat_less_numeral_power_cancel_iff zero_less_nat_eq) (simp add: sgn_if abs_if)
qed

lemma div_excess_bits: "2 ^ 53 \<le> n \<Longrightarrow> 2 ^ 52 \<le> n div 2 ^ excess_bits n"
proof (induction n rule: excess_bits.induct)
  case (1 n)
  show ?case
  proof (cases "2 ^ 53 \<le> n div 2")
    case True
    then show ?thesis using 1 by (subst excess_bits.simps) (simp add: div_mult2_eq)
  next
    case False
    then have "excess_bits (n div 2) = 0" by (simp add: excess_bits_small)
    then show ?thesis using 1(2) by (subst excess_bits.simps) simp
  qed
qed

lemma to_double_0 [simp]: "to_double i = 0 \<longleftrightarrow> i = 0"
proof -
  have "round_53 n \<noteq> 0" if "0 < n" for n
  proof (cases "n < 2 ^ 53")
    case True
    then show ?thesis using that by (simp add: round_53_def excess_bits_small)
  next
    case False
    then have "n div 2 ^ excess_bits n \<noteq> 0" using div_excess_bits [of n] by simp
    then show ?thesis by (simp add: round_53_def Let_def)
  qed
  then show ?thesis by (auto simp: to_double_def sgn_if)
qed

lemma excess_bits_eq: "n < 2 ^ (53 + k) \<Longrightarrow> k = 0 \<or> 2 ^ (52 + k) \<le> n \<Longrightarrow> excess_bits n = k"
proof (induction k arbitrary: n)
  case 0
  then show ?case by (simp add: excess_bits_small)
next
  case (Suc k)
  then have "n < 2 ^ (53 + k) * 2" "2 ^ (52 + k) * 2 \<le> n" by (simp_all add: power_add)
  then have "excess_bits (n div 2) = k"
    by (intro Suc.IH) (simp_all only: less_mult_imp_div_less less_eq_div_iff_mult_less_eq zero_less_numeral simp_thms)
  moreover have "2 ^ 53 \<le> n" using Suc.prems(2) power_increasing [of 53 "52 + Suc k" "2 :: nat"] by simp
  ultimately show ?case by (subst excess_bits.simps) simp
qed

lemma to_double_limits [simp]:
  "to_double minInt64 = - (2 ^ 63)" "to_double maxInt64 = 2 ^ 63" "to_double maxUInt64 = 2 ^ 64" "maxUInt64AsDouble = 2 ^ 64"
  "to_double minInt = of_int minInt" "to_double maxInt = of_int maxInt" "to_double maxUInt = of_int maxUInt"
proof -
  have "excess_bits 9223372036854775808 = 11" "excess_bits 9223372036854775807 = 10" "excess_bits 18446744073709551615 = 11"
    by (rule excess_bits_eq; simp)+
  then show "to_double minInt64 = - (2 ^ 63)" "to_double maxInt64 = 2 ^ 63" "to_double maxUInt64 = 2 ^ 64" "maxUInt64AsDouble = 2 ^ 64"
    by (simp_all add: to_double_def round_53_def minInt64_def maxInt64_def maxUInt64_def maxUInt64AsDouble_def Let_def)
qed (simp_all add: to_double_exact minInt_def maxInt_def maxUInt_def)

lemma to_double_zero [simp]: "to_double 0 = 0"
  by simp

lemma trunc_integral: "IsIntegral d \<Longrightarrow> of_int (trunc d) = d"
  unfolding IsIntegral_def trunc_def by (metis (full_types) ceiling_of_int)

lemma double_to_int64_eq:
  "- (2 ^ 63) \<le> d \<Longrightarrow> d \<le> 2 ^ 63 \<Longrightarrow> double_to_int64 d = (if d = 2 ^ 63 then Undefined else Converted (of_int (trunc d)))"
  by (auto simp: double_to_int64_def trunc_def minInt64_def maxInt64_def floor_le_iff le_floor_iff ceiling_le_iff le_ceiling_iff)

lemma double_to_uint64_eq:
  "0 \<le> d \<Longrightarrow> d \<le> 2 ^ 64 \<Longrightarrow> double_to_uint64 d = (if d = 2 ^ 64 then Undefined else Converted (of_int (trunc d)))"
  by (auto simp: double_to_uint64_def trunc_def maxUInt64_def floor_le_iff le_floor_iff)

lemma trunc_in_range:
  "IsIntegral d \<Longrightarrow> - (2 ^ 63) \<le> d \<Longrightarrow> d < 2 ^ 63 \<Longrightarrow> of_int (sint (of_int (trunc d) :: int64)) = d"
  "IsIntegral d \<Longrightarrow> 0 \<le> d \<Longrightarrow> d < 2 ^ 64 \<Longrightarrow> of_int (uint (of_int (trunc d) :: uint64)) = d"
proof -
  assume i: "IsIntegral d"
  note t = trunc_integral [OF i]
  show "of_int (sint (of_int (trunc d) :: int64)) = d" if "- (2 ^ 63) \<le> d" "d < 2 ^ 63"
  proof -
    have "rat_of_int (- (2 ^ 63)) \<le> of_int (trunc d)" "rat_of_int (trunc d) < of_int (2 ^ 63)" using that by (simp_all add: t)
    then have "- (2 ^ 63) \<le> trunc d" "trunc d < 2 ^ 63" by (simp_all only: of_int_le_iff of_int_less_iff)
    then have "sint (of_int (trunc d) :: int64) = trunc d" by (simp add: sint_sbintrunc' signed_take_bit_int_eq_self)
    then show ?thesis by (simp add: t)
  qed
  show "of_int (uint (of_int (trunc d) :: uint64)) = d" if "0 \<le> d" "d < 2 ^ 64"
  proof -
    have "rat_of_int 0 \<le> of_int (trunc d)" "rat_of_int (trunc d) < of_int (2 ^ 64)" using that by (simp_all add: t)
    then have "0 \<le> trunc d" "trunc d < 2 ^ 64" by (simp_all only: of_int_le_iff of_int_less_iff)
    then have "uint (of_int (trunc d) :: uint64) = trunc d" by (simp add: uint_word_of_int)
    then show ?thesis by (simp add: t)
  qed
qed

lemma sint_small: "uint (u :: uint64) \<le> maxInt64 \<Longrightarrow> sint u = uint u"
  unfolding sint_uint by (intro signed_take_bit_int_eq_self order_trans [OF _ uint_ge_0]) (simp_all add: maxInt64_def)

lemma uint_nonneg: "0 \<le> sint (i :: int64) \<Longrightarrow> uint i = sint i"
  unfolding uint_sint using sint_lt [of i] by (intro take_bit_int_eq_self) simp_all

text \<open>
  \<^verbatim>\<open>isConvertibleTo\<close> tells exactly when a conversion does not throw, for each of the five conversions, and a
  value converts to null if it is the zero, the empty text or the empty container.
\<close>

theorem convertible_iff_converts:
  "(isConvertibleTo fmt_g v int_type \<longleftrightarrow> asInt v \<noteq> None) \<and> (isConvertibleTo fmt_g v uint_type \<longleftrightarrow> asUInt v \<noteq> None) \<and>
   (isConvertibleTo fmt_g v real_type \<longleftrightarrow> asDouble v \<noteq> None) \<and> (isConvertibleTo fmt_g v boolean_type \<longleftrightarrow> asBool v \<noteq> None) \<and>
   (isConvertibleTo fmt_g v string_type \<longleftrightarrow> asString fmt_g v \<noteq> None) \<and>
   (isConvertibleTo fmt_g v null_type \<longleftrightarrow>
      v \<in> {nullValue, booleanValue False, intValue 0, uintValue 0, realValue 0, stringValue [], arrayValue [], objectValue []})"
proof (intro conjI)
  note defs = value_kinds real_in_range_def InRange_def isNumeric_def Value_isIntegral_def Value_isDouble_def
  show "isConvertibleTo fmt_g v int_type \<longleftrightarrow> asInt v \<noteq> None"
    by (cases v) (auto simp: defs asInt_def isInt_def)
  show "isConvertibleTo fmt_g v uint_type \<longleftrightarrow> asUInt v \<noteq> None"
    by (cases v) (auto simp: defs asUInt_def isUInt_def)
  show "isConvertibleTo fmt_g v real_type \<longleftrightarrow> asDouble v \<noteq> None" "isConvertibleTo fmt_g v boolean_type \<longleftrightarrow> asBool v \<noteq> None"
    "isConvertibleTo fmt_g v string_type \<longleftrightarrow> asString fmt_g v \<noteq> None"
    by (cases v; simp add: defs isInt64_def isUInt64_def asDouble_def asBool_def asString_def)+
  show "isConvertibleTo fmt_g v null_type \<longleftrightarrow>
      v \<in> {nullValue, booleanValue False, intValue 0, uintValue 0, realValue 0, stringValue [], arrayValue [], objectValue []}"
    using sint_eq_iff [of _ 0] by (cases v) (auto simp: defs isInt64_def isUInt64_def asDouble_def asString_def Value_size_def uint_0_iff)
qed

definition number_of :: "Value \<Rightarrow> rat option" where
  "number_of v = (case v of intValue i \<Rightarrow> Some (of_int (sint i)) | uintValue u \<Rightarrow> Some (of_int (uint u)) | realValue d \<Rightarrow> Some d | _ \<Rightarrow> None)"

text \<open>
  The conversion to a signed 64-bit integer is undefined for one value, the double \<open>2 ^ 63\<close>, which the test of the range
  lets pass since the limit is rounded up, and likewise to an unsigned one for \<open>2 ^ 64\<close>.  Where \<^verbatim>\<open>isInt64\<close> or
  \<^verbatim>\<open>isUInt64\<close> holds the conversion succeeds and keeps the number.
\<close>

theorem wide_conversions:
  "(asInt64 v = Undefined \<longleftrightarrow> v = realValue (2 ^ 63)) \<and> (asUInt64 v = Undefined \<longleftrightarrow> v = realValue (2 ^ 64)) \<and>
   (isInt64 v \<longrightarrow> (\<exists>w. asInt64 v = Converted w \<and> number_of v = Some (of_int (sint w)))) \<and>
   (isUInt64 v \<longrightarrow> (\<exists>w. asUInt64 v = Converted w \<and> number_of v = Some (of_int (uint w))))"
proof (intro conjI)
  note defs = asInt64_def asUInt64_def isInt64_def isUInt64_def InRange_def double_to_int64_eq double_to_uint64_eq number_of_def
  show "asInt64 v = Undefined \<longleftrightarrow> v = realValue (2 ^ 63)" by (cases v) (simp_all add: defs)
  show "asUInt64 v = Undefined \<longleftrightarrow> v = realValue (2 ^ 64)" by (cases v) (simp_all add: defs)
  show "isInt64 v \<longrightarrow> (\<exists>w. asInt64 v = Converted w \<and> number_of v = Some (of_int (sint w)))"
    by (cases v) (simp_all add: defs sint_small trunc_in_range del: of_int_sint of_int_uint)
  show "isUInt64 v \<longrightarrow> (\<exists>w. asUInt64 v = Converted w \<and> number_of v = Some (of_int (uint w)))"
    by (cases v) (simp_all add: defs uint_nonneg trunc_in_range del: of_int_sint of_int_uint)
qed

theorem wide_conversions_witness:
  "asInt64 (realValue (2 ^ 63)) = Undefined \<and> (\<exists>w. asInt64 (realValue (- 3)) = Converted w \<and> number_of (realValue (- 3)) = Some (of_int (sint w)))"
proof -
  have "isInt64 (realValue (- 3))" by (simp add: isInt64_def IsIntegral_def)
  then show ?thesis using wide_conversions [of "realValue (2 ^ 63)"] wide_conversions [of "realValue (- 3)"] by blast
qed

section \<open>Members\<close>

text \<open>
  The const \<^verbatim>\<open>operator[]\<close> returns a reference to \<^verbatim>\<open>Value::null\<close> for an absent member, which \<^verbatim>\<open>get\<close> and
  \<^verbatim>\<open>isMember\<close> recognise by its address: here it is \<open>Some None\<close>, and \<open>None\<close> is the exception.
\<close>

definition Value_ref :: "Value \<Rightarrow> string \<Rightarrow> Value option option" where
  "Value_ref v key = (case v of
      nullValue \<Rightarrow> Some None
    | objectValue m \<Rightarrow> Some (stdmap_find (cstr key) m)
    | _ \<Rightarrow> None)"

definition Value_get :: "Value \<Rightarrow> string \<Rightarrow> Value \<Rightarrow> Value option" where
  "Value_get v key defaultValue = (case Value_ref v key of
      None \<Rightarrow> None
    | Some None \<Rightarrow> Some defaultValue
    | Some (Some x) \<Rightarrow> Some x)"

definition isMember :: "Value \<Rightarrow> string \<Rightarrow> bool option" where
  "isMember v key = map_option (\<lambda>r. r \<noteq> None) (Value_ref v key)"

text \<open>The removed value and what is left.\<close>

definition removeMember :: "Value \<Rightarrow> string \<Rightarrow> (Value \<times> Value) option" where
  "removeMember v key = (case v of
      nullValue \<Rightarrow> Some (nullValue, v)
    | objectValue m \<Rightarrow> (case stdmap_find (cstr key) m of
          None \<Rightarrow> Some (nullValue, v)
        | Some old \<Rightarrow> Some (old, objectValue (stdmap_erase (cstr key) m)))
    | _ \<Rightarrow> None)"

definition Value_empty :: "Value \<Rightarrow> bool" where
  "Value_empty v = (if isNull v \<or> isArray v \<or> isObject v then Value_size v = 0 else False)"

definition Value_clear :: "Value \<Rightarrow> Value option" where
  "Value_clear v = (case v of
      nullValue \<Rightarrow> Some nullValue
    | arrayValue xs \<Rightarrow> Some (arrayValue [])
    | objectValue m \<Rightarrow> Some (objectValue [])
    | _ \<Rightarrow> None)"

definition object_members_ok :: "Value \<Rightarrow> bool" where
  "object_members_ok v = (case v of objectValue m \<Rightarrow> stdmap_ok m | _ \<Rightarrow> True)"

lemma get_object: "Value_get (objectValue m) key d = Some (case stdmap_find (cstr key) m of None \<Rightarrow> d | Some x \<Rightarrow> x)"
  by (simp add: Value_get_def Value_ref_def split: option.split)

lemma get_null [simp]: "Value_get nullValue key d = Some d"
  by (simp add: Value_get_def Value_ref_def)

lemma set_members_of:
  assumes "resolveReference_set v key x = Some v'" and "object_members_ok v"
  shows "\<exists>m. stdmap_ok m \<and> v' = objectValue (stdmap_set (cstr key) x m) \<and> (\<forall>k d. Value_get v k d = Value_get (objectValue m) k d)"
proof (cases v)
  case nullValue
  then show ?thesis using assms by (intro exI [of _ "[]"]) (simp add: resolveReference_set_def get_object)
qed (use assms in \<open>auto simp: resolveReference_set_def object_members_ok_def\<close>)

text \<open>
  What was set is a member and is found by \<^verbatim>\<open>get\<close>; after its removal, which returns it, \<^verbatim>\<open>get\<close> returns the default and
  every other member is what it was.
\<close>

theorem members_set_and_removed:
  assumes "object_members_ok v" and "resolveReference_set v key x = Some v'"
  shows "object_members_ok v' \<and> isMember v' key = Some True \<and> Value_get v' key d = Some x \<and>
    (\<exists>v''. removeMember v' key = Some (x, v'') \<and> object_members_ok v'' \<and> isMember v'' key = Some False \<and> Value_get v'' key d = Some d \<and>
      (\<forall>k. cstr k \<noteq> cstr key \<longrightarrow> Value_get v' k d = Value_get v k d \<and> Value_get v'' k d = Value_get v k d))"
proof -
  from set_members_of [OF assms(2, 1)] obtain m
    where m: "stdmap_ok m" "v' = objectValue (stdmap_set (cstr key) x m)" "\<And>k d. Value_get v k d = Value_get (objectValue m) k d"
    by blast
  let ?v'' = "objectValue (stdmap_erase (cstr key) (stdmap_set (cstr key) x m))"
  note defs = object_members_ok_def isMember_def Value_ref_def removeMember_def get_object sm_find sm_inv
  have "removeMember v' key = Some (x, ?v'')" using m(1, 2) by (simp add: defs)
  moreover have "object_members_ok v'" "isMember v' key = Some True" "Value_get v' key d = Some x" using m(1, 2) by (simp_all add: defs)
  moreover have "object_members_ok ?v''" "isMember ?v'' key = Some False" "Value_get ?v'' key d = Some d" using m(1) by (simp_all add: defs)
  moreover have "Value_get v' k d = Value_get v k d" "Value_get ?v'' k d = Value_get v k d" if "cstr k \<noteq> cstr key" for k
    using m that by (simp_all add: defs)
  ultimately show ?thesis by blast
qed

theorem members_set_and_removed_witness:
  "removeMember (objectValue [(''a'', intValue 1), (''b'', intValue 2)]) ''b'' = Some (intValue 2, objectValue [(''a'', intValue 1)])"
proof -
  let ?v = "objectValue [(''a'', intValue 1)]" and ?w = "objectValue [(''a'', intValue 1), (''b'', intValue 2)]"
  have "object_members_ok ?v" "resolveReference_set ?v ''b'' (intValue 2) = Some ?w"
    by (simp_all add: object_members_ok_def stdmap_ok_def resolveReference_set_def cstr_def)
  from members_set_and_removed [OF this] obtain u where "removeMember ?w ''b'' = Some (intValue 2, u)" by blast
  then show ?thesis by (simp add: removeMember_def cstr_def stdmap_erase_def)
qed

section \<open>Arrays with gaps\<close>

text \<open>
  An array is a \<^verbatim>\<open>std::map\<close> from indices, whose size is the last index plus one; an element that was never assigned is absent and reads
  as null.  The constant \<^verbatim>\<open>operator[]\<close> adds nothing, the other adds a null element.  \<open>dense\<close> is the list of an array, with
  the gaps filled.
\<close>

type_synonym array_map = "(nat \<times> Value) list"

definition am_size :: "array_map \<Rightarrow> nat" where
  "am_size m = (if m \<noteq> [] then fst (last m) + 1 else 0)"

definition am_ref :: "nat \<Rightarrow> array_map \<Rightarrow> array_map" where
  "am_ref i m = (if stdmap_find i m \<noteq> None then m else stdmap_insert i nullValue m)"

definition am_at :: "nat \<Rightarrow> array_map \<Rightarrow> Value" where
  "am_at i m = (case stdmap_find i m of None \<Rightarrow> nullValue | Some x \<Rightarrow> x)"

definition am_get :: "nat \<Rightarrow> Value \<Rightarrow> array_map \<Rightarrow> Value" where
  "am_get i defaultValue m = (case stdmap_find i m of None \<Rightarrow> defaultValue | Some x \<Rightarrow> x)"

definition isValidIndex :: "nat \<Rightarrow> array_map \<Rightarrow> bool" where "isValidIndex i m \<longleftrightarrow> i < am_size m"

definition am_append :: "Value \<Rightarrow> array_map \<Rightarrow> array_map" where
  "am_append x m = stdmap_set (am_size m) x m"

text \<open>\<^verbatim>\<open>resize\<close> without its final assertion, which a release build does not have.\<close>

definition am_resize :: "nat \<Rightarrow> array_map \<Rightarrow> array_map" where
  "am_resize newSize m =
     (let oldSize = am_size m in
      if newSize = 0 then []
      else if newSize > oldSize then am_ref (newSize - 1) m
      else fold stdmap_erase [newSize..<oldSize] m)"

definition dense :: "array_map \<Rightarrow> Value list" where
  "dense m = map (\<lambda>i. am_at i m) [0..<am_size m]"

lemma am_index_less: "stdmap_ok m \<Longrightarrow> stdmap_find i m = Some x \<Longrightarrow> i < am_size m"
proof -
  assume ok: "stdmap_ok m" and "stdmap_find i m = Some x"
  then have i: "(i, x) \<in> set m" by (simp add: sm.find_entries)
  then have "i \<in> set (map fst m)" and ne: "m \<noteq> []" by force+
  moreover have "sorted (map fst m)" using ok by (simp add: stdmap_ok_def strict_sorted_imp_sorted)
  ultimately have "i \<le> last (map fst m)"
    by (metis in_set_conv_nth last_conv_nth length_greater_0_conv length_pos_if_in_set diff_less less_numeral_extra(1) less_Suc_eq_le Suc_pred' sorted_nth_mono)
  then show ?thesis using ne by (simp add: am_size_def last_map)
qed

lemma am_beyond: "stdmap_ok m \<Longrightarrow> am_size m \<le> i \<Longrightarrow> stdmap_find i m = None"
  using am_index_less [of m i] by (cases "stdmap_find i m") auto

lemma am_last: "stdmap_ok m \<Longrightarrow> 0 < am_size m \<Longrightarrow> stdmap_find (am_size m - 1) m \<noteq> None"
proof -
  assume ok: "stdmap_ok m" and "0 < am_size m"
  then have "m \<noteq> []" by (auto simp: am_size_def)
  then have "(am_size m - 1, snd (last m)) \<in> set m" by (simp add: am_size_def)
  then show ?thesis using ok by (simp add: sm.find_entries [symmetric])
qed

lemma am_size_eqI:
  assumes "stdmap_ok m" and "\<And>i. n \<le> i \<Longrightarrow> stdmap_find i m = None" and "0 < n \<Longrightarrow> stdmap_find (n - 1) m \<noteq> None"
  shows "am_size m = n"
proof (rule antisym)
  show "am_size m \<le> n"
  proof (rule ccontr)
    assume "\<not> am_size m \<le> n"
    then have "0 < am_size m" "n \<le> am_size m - 1" by auto
    then show False using am_last [OF assms(1)] assms(2) [of "am_size m - 1"] by simp
  qed
  show "n \<le> am_size m"
  proof (cases "n = 0")
    case False
    then show ?thesis using assms(3) am_beyond [OF assms(1), of "n - 1"] by force
  qed simp
qed

lemma am_erase_range:
  "stdmap_ok m \<Longrightarrow> stdmap_ok (fold stdmap_erase js m) \<and> stdmap_find i (fold stdmap_erase js m) = (if i \<in> set js then None else stdmap_find i m)"
  by (induction js arbitrary: m) (simp_all add: sm_inv sm_find)

lemma am_resize_ok: "stdmap_ok m \<Longrightarrow> stdmap_ok (am_resize n m)"
  by (simp add: am_resize_def am_ref_def sm_inv am_erase_range Let_def)

lemma am_resize_find:
  "stdmap_ok m \<Longrightarrow> stdmap_find i (am_resize n m) =
     (if n \<le> i then None else if am_size m < n \<and> i = n - 1 then Some nullValue else stdmap_find i m)"
  using am_beyond [of m i] am_beyond [of m "n - 1"] by (auto simp: am_resize_def am_ref_def Let_def sm_find am_erase_range)

text \<open>
  \<^verbatim>\<open>resize\<close> keeps the elements below the new size and drops the others, but the array has the new size
  only if it grows, if it is emptied or if the element in front of the new end was ever assigned: cutting an array inside a
  gap makes it shorter than asked for, and fails the assertion behind the loop.
\<close>

theorem resize_cuts_gaps:
  assumes "stdmap_ok m"
  shows "stdmap_ok (am_resize n m) \<and> am_at i (am_resize n m) = (if i < n then am_at i m else nullValue) \<and>
    (am_size (am_resize n m) = n \<longleftrightarrow> n = 0 \<or> am_size m \<le> n \<or> stdmap_find (n - 1) m \<noteq> None)"
proof (intro conjI)
  show ok: "stdmap_ok (am_resize n m)" by (rule am_resize_ok [OF assms])
  show "am_at i (am_resize n m) = (if i < n then am_at i m else nullValue)"
    using am_beyond [OF assms, of i] by (auto simp: am_at_def am_resize_find [OF assms])
  show "am_size (am_resize n m) = n \<longleftrightarrow> n = 0 \<or> am_size m \<le> n \<or> stdmap_find (n - 1) m \<noteq> None"
  proof
    assume "am_size (am_resize n m) = n"
    then have "stdmap_find (n - 1) (am_resize n m) \<noteq> None" if "0 < n" using am_last [OF ok] that by simp
    then show "n = 0 \<or> am_size m \<le> n \<or> stdmap_find (n - 1) m \<noteq> None"
      unfolding am_resize_find [OF assms] by (auto split: if_splits)
  next
    assume "n = 0 \<or> am_size m \<le> n \<or> stdmap_find (n - 1) m \<noteq> None"
    then show "am_size (am_resize n m) = n"
      using am_last [OF assms] by (intro am_size_eqI [OF ok]) (auto simp: am_resize_find [OF assms] le_less)
  qed
qed

theorem resize_cuts_gaps_witness: "am_size (am_resize 5 []) = 5 \<and> am_size (am_resize 3 (am_resize 5 [])) \<noteq> 3"
proof -
  have "am_resize 5 [] = [(4, nullValue)]" by (simp add: am_resize_def am_ref_def am_size_def stdmap_insert_def)
  moreover have "stdmap_ok [(4 :: nat, nullValue)]" by (simp add: stdmap_ok_def)
  ultimately show ?thesis using resize_cuts_gaps [of "[(4, nullValue)]" 3 0] by (simp add: am_size_def)
qed

text \<open>The operations on the map are those on the list of \<open>Vz_Json\<close>.\<close>

lemma dense_index: "stdmap_ok m \<Longrightarrow> Value_index (arrayValue (dense m)) i = Some (am_at i m)"
  using am_beyond [of m i] by (simp add: Value_index_def dense_def am_at_def)

lemma dense_append: "stdmap_ok m \<Longrightarrow> Value_append (arrayValue (dense m)) x = Some (arrayValue (dense (am_append x m)))"
proof -
  assume ok: "stdmap_ok m"
  have "am_size (am_append x m) = Suc (am_size m)"
    using am_beyond [OF ok] by (intro am_size_eqI) (simp_all add: am_append_def sm_inv sm_find ok)
  then show ?thesis using ok by (simp add: Value_append_def dense_def am_append_def am_at_def sm_find)
qed

lemma dense_grow:
  assumes "stdmap_ok m" and "am_size m \<le> n"
  shows "dense (am_resize n m) = dense m @ replicate (n - am_size m) nullValue"
proof (rule nth_equalityI)
  have size: "am_size (am_resize n m) = n"
    using am_last [OF assms(1)] assms(2) by (intro am_size_eqI am_resize_ok assms(1)) (auto simp: am_resize_find [OF assms(1)] le_less)
  then show "length (dense (am_resize n m)) = length (dense m @ replicate (n - am_size m) nullValue)"
    using assms(2) by (simp add: dense_def)
  fix i
  assume "i < length (dense (am_resize n m))"
  then have "i < n" by (simp add: dense_def size)
  then show "dense (am_resize n m) ! i = (dense m @ replicate (n - am_size m) nullValue) ! i"
    using am_beyond [OF assms(1), of i] by (auto simp: dense_def size nth_append am_at_def am_resize_find [OF assms(1)])
qed

end
