(* ===== verification/Vz_Internalmessage.thy ===== *)
theory Vz_Internalmessage
  imports Vz_Json Vz_Socketaddress
begin

text \<open>
  \<^verbatim>\<open>src/src/vzsdk/internalmessage.{h,cpp}\<close>: the data of the messages the layers of the SDK
  exchange.  A stanza has a type, a session and the data its subclass adds.
\<close>

section \<open>Stanza types\<close>

definition REQ_DISCONNECT_SERVER :: uint32 where "REQ_DISCONNECT_SERVER = 0"

definition REQ_CONNECT_SERVER :: uint32 where "REQ_CONNECT_SERVER = 1"

definition REQ_SEND_REQUESTION :: uint32 where "REQ_SEND_REQUESTION = 2"

definition REQ_ADD_PUSH_TASK :: uint32 where "REQ_ADD_PUSH_TASK = 3"

definition REQ_REMOVE_TASK_EVENT :: uint32 where "REQ_REMOVE_TASK_EVENT = 4"

definition REQ_REMOVE_SESSION_EVENT :: uint32 where "REQ_REMOVE_SESSION_EVENT = 5"

definition REQ_RES_BREAK :: uint32 where "REQ_RES_BREAK = 0xFF"

definition RES_DISCONNECTED_EVENT_FAILURE :: uint32 where "RES_DISCONNECTED_EVENT_FAILURE = 0x100"

definition RES_DISCONNECTED_EVENT_SUCCEED :: uint32 where "RES_DISCONNECTED_EVENT_SUCCEED = 0x101"

definition RES_SESSION_NOT_FOUND :: uint32 where "RES_SESSION_NOT_FOUND = 0x102"

definition RES_PUSH_SUCCEED :: uint32 where "RES_PUSH_SUCCEED = 0x103"

definition RES_CONNECTED_EVENT :: uint32 where "RES_CONNECTED_EVENT = 0x104"

definition RES_STANZA_EVENT :: uint32 where "RES_STANZA_EVENT = 0x105"

definition RES_RECONNECT_EVENT :: uint32 where "RES_RECONNECT_EVENT = 0x106"

definition RES_RESUME_TASK_EVENT :: uint32 where "RES_RESUME_TASK_EVENT = 0x107"

lemmas stanza_types =
  REQ_DISCONNECT_SERVER_def REQ_CONNECT_SERVER_def REQ_SEND_REQUESTION_def REQ_ADD_PUSH_TASK_def
  REQ_REMOVE_TASK_EVENT_def REQ_REMOVE_SESSION_EVENT_def REQ_RES_BREAK_def
  RES_DISCONNECTED_EVENT_FAILURE_def RES_DISCONNECTED_EVENT_SUCCEED_def RES_SESSION_NOT_FOUND_def
  RES_PUSH_SUCCEED_def RES_CONNECTED_EVENT_def RES_STANZA_EVENT_def RES_RECONNECT_EVENT_def
  RES_RESUME_TASK_EVENT_def

definition NULL_SESSION_ID :: uint32 where "NULL_SESSION_ID = 0"

section \<open>Stanzas\<close>

datatype stanza_body =
    PlainStanza
  | ConnectBody SocketAddress
  | RequestBody Value bool
  | ResponseBody Value string

record Stanza =
  stanza_type :: uint32
  stanza_session :: uint32
  stanza_body :: stanza_body

definition Stanza_new :: "uint32 \<Rightarrow> uint32 \<Rightarrow> Stanza" where
  "Stanza_new ty sid = \<lparr>stanza_type = ty, stanza_session = sid, stanza_body = PlainStanza\<rparr>"

definition ReqConnectData_new :: "SocketAddress \<Rightarrow> Stanza" where
  "ReqConnectData_new address =
     \<lparr>stanza_type = REQ_CONNECT_SERVER, stanza_session = NULL_SESSION_ID, stanza_body = ConnectBody address\<rparr>"

definition ReqDisconnectData_new :: "uint32 \<Rightarrow> Stanza" where
  "ReqDisconnectData_new sid = Stanza_new REQ_DISCONNECT_SERVER sid"

definition RequestData_new :: "uint32 \<Rightarrow> Value \<Rightarrow> bool \<Rightarrow> Stanza" where
  "RequestData_new sid req_json push =
     \<lparr>stanza_type = REQ_SEND_REQUESTION, stanza_session = sid, stanza_body = RequestBody req_json push\<rparr>"

definition ResponseData_new :: "uint32 \<Rightarrow> Value \<Rightarrow> string \<Rightarrow> Stanza" where
  "ResponseData_new sid json data =
     \<lparr>stanza_type = RES_STANZA_EVENT, stanza_session = sid, stanza_body = ResponseBody json data\<rparr>"

definition isLegJson :: "Value \<Rightarrow> bool" where
  "isLegJson v \<longleftrightarrow> \<not> (type_index v \<le> 0 \<or> type_index v > 7 \<or> isNull v)"

definition res_json :: "Stanza \<Rightarrow> Value" where
  "res_json s = (case stanza_body s of
      ResponseBody json data \<Rightarrow> (if isLegJson json then json else nullValue) | _ \<Rightarrow> nullValue)"

definition res_data :: "Stanza \<Rightarrow> string" where
  "res_data s = (case stanza_body s of ResponseBody json data \<Rightarrow> data | _ \<Rightarrow> [])"

text \<open>The value if it is an object; \<open>None\<close> where the stanza is not a \<^verbatim>\<open>ResponseData\<close> and the cast is wrong.\<close>

definition res_obj_json :: "Stanza \<Rightarrow> Value option" where
  "res_obj_json s = (case stanza_body s of
      ResponseBody json data \<Rightarrow> Some (if isObject json then json else nullValue) | _ \<Rightarrow> None)"

lemma res_json_Response [simp]:
  "res_json \<lparr>stanza_type = ty, stanza_session = sid, stanza_body = ResponseBody v d\<rparr> = v"
  by (cases v) (simp_all add: res_json_def isLegJson_def type_index_def isNull_def)

end
