(* ===== verification/Vz_Task.thy ===== *)
theory Vz_Task
  imports Vz_Internalmessage Vz_Timeutils Vz_Messagequeue
begin

text \<open>
  \<^verbatim>\<open>src/src/vzsdk/task.{h,cpp}\<close>: a request in flight.  The caller's thread posts the task
  to the queue layer and waits; the queue layer offers every response to the tasks, and
  the task that recognises its own posts it to the waiting thread.  The subclasses are
  the constructors of \<open>task_kind\<close>.  A thread is a number, \<open>None\<close> the null pointer.
\<close>

section \<open>State and constructors\<close>

datatype task_kind = ConnectTask | ReConnectTask | DisconnectTask | ReqTask | ReqPushTask | ReqRecordTask

record Task =
  task_kind :: task_kind
  task_id :: uint32
  task_timeout :: uint32
  task_thread :: "nat option"
  message_data :: "Stanza option"
  req_cmd :: string

text \<open>
  The base constructor: \<open>counter\<close> is the static \<^verbatim>\<open>unequal_task_id_\<close>, \<open>current\<close> the thread it
  runs on, which is wrapped when it has no \<^verbatim>\<open>Thread\<close> object yet.
\<close>

definition Task_new ::
  "task_kind \<Rightarrow> uint32 \<Rightarrow> nat \<Rightarrow> nat option \<Rightarrow> uint32 \<Rightarrow> Stanza option \<Rightarrow> string \<Rightarrow> Task \<times> uint32" where
  "Task_new k timeout current thread counter data cmd =
     (\<lparr>task_kind = k, task_id = counter + 1, task_timeout = timeout,
       task_thread = (case thread of None \<Rightarrow> Some current | Some t \<Rightarrow> Some t),
       message_data = data, req_cmd = cmd\<rparr>, counter + 1)"

definition ConnectTask_new :: "uint32 \<Rightarrow> nat \<Rightarrow> uint32 \<Rightarrow> SocketAddress \<Rightarrow> Task \<times> uint32" where
  "ConnectTask_new timeout current counter address =
     Task_new ConnectTask timeout current None counter (Some (ReqConnectData_new address)) []"

text \<open>The copying constructor keeps the connect data but does not set the message data.\<close>

definition ConnectTask_copy :: "uint32 \<Rightarrow> nat \<Rightarrow> uint32 \<Rightarrow> Stanza \<Rightarrow> Task \<times> uint32" where
  "ConnectTask_copy timeout current counter req_connect_data =
     Task_new ConnectTask timeout current None counter None []"

definition ReConnectTask_new :: "uint32 \<Rightarrow> nat \<Rightarrow> uint32 \<Rightarrow> Stanza \<Rightarrow> Task \<times> uint32" where
  "ReConnectTask_new timeout current counter req_connect_data =
     Task_new ReConnectTask timeout current None counter (Some req_connect_data) []"

definition DisconnectTask_new :: "uint32 \<Rightarrow> nat \<Rightarrow> uint32 \<Rightarrow> uint32 \<Rightarrow> Task \<times> uint32" where
  "DisconnectTask_new timeout current counter sid =
     Task_new DisconnectTask timeout current None counter (Some (ReqDisconnectData_new sid)) []"

definition JSON_REQ_CMD :: string where "JSON_REQ_CMD = ''cmd''"

text \<open>\<^verbatim>\<open>value[JSON_REQ_CMD].asString()\<close>.\<close>

definition json_cmd :: "(rat \<Rightarrow> string) \<Rightarrow> Value \<Rightarrow> string option" where
  "json_cmd fmt_g v = Option.bind (Value_at v JSON_REQ_CMD) (asString fmt_g)"

definition ReqTask_new ::
  "(rat \<Rightarrow> string) \<Rightarrow> task_kind \<Rightarrow> uint32 \<Rightarrow> nat \<Rightarrow> nat option \<Rightarrow> uint32 \<Rightarrow> uint32 \<Rightarrow> Value
     \<Rightarrow> (Task \<times> uint32) option" where
  "ReqTask_new fmt_g k timeout current thread counter sid req_json =
     (case json_cmd fmt_g req_json of
        None \<Rightarrow> None
      | Some cmd \<Rightarrow>
          Some (Task_new k timeout current thread counter (Some (RequestData_new sid req_json False)) cmd))"

definition ReqPushTask_new :: "uint32 \<Rightarrow> nat \<Rightarrow> uint32 \<Rightarrow> uint32 \<Rightarrow> Value \<Rightarrow> Task \<times> uint32" where
  "ReqPushTask_new timeout current counter sid req_json =
     Task_new ReqPushTask timeout current None counter (Some (RequestData_new sid req_json True)) []"

definition message_type :: "Task \<Rightarrow> uint32" where
  "message_type t = (case task_kind t of
      ConnectTask \<Rightarrow> REQ_CONNECT_SERVER | ReConnectTask \<Rightarrow> RES_RECONNECT_EVENT
    | DisconnectTask \<Rightarrow> REQ_DISCONNECT_SERVER
    | ReqTask \<Rightarrow> REQ_SEND_REQUESTION | ReqPushTask \<Rightarrow> REQ_SEND_REQUESTION | ReqRecordTask \<Rightarrow> REQ_SEND_REQUESTION)"

section \<open>Recognising a response\<close>

text \<open>
  A task that takes a message posts it to its thread.  The result of a handler: \<open>None\<close> if
  an exception of the JSON library leaves it, \<open>Some None\<close> for \<^verbatim>\<open>false\<close>, and \<open>Some (Some p)\<close>
  for \<^verbatim>\<open>true\<close> after the post \<open>p\<close>.
\<close>

record task_post =
  post_thread :: nat
  post_id :: uint32
  post_data :: Stanza

type_synonym handled = "task_post option option"

definition data_session :: "Task \<Rightarrow> uint32" where
  "data_session t = (case message_data t of Some d \<Rightarrow> stanza_session d | None \<Rightarrow> NULL_SESSION_ID)"

definition post_to :: "nat \<Rightarrow> Task \<Rightarrow> Stanza \<Rightarrow> handled" where
  "post_to th t d = Some (Some \<lparr>post_thread = th, post_id = task_id t, post_data = d\<rparr>)"

definition Task_HandleMessage :: "Task \<Rightarrow> uint32 \<Rightarrow> Stanza \<Rightarrow> handled" where
  "Task_HandleMessage t mid d =
     (case task_thread t of None \<Rightarrow> Some None
      | Some th \<Rightarrow> if mid = task_id t then post_to th t d else Some None)"

definition DisconnectTask_HandleMessage :: "Task \<Rightarrow> uint32 \<Rightarrow> Stanza \<Rightarrow> handled" where
  "DisconnectTask_HandleMessage t mid d =
     (case task_thread t of None \<Rightarrow> Some None
      | Some th \<Rightarrow>
          if mid = task_id t \<and>
             (stanza_type d = RES_DISCONNECTED_EVENT_SUCCEED \<or> stanza_type d = RES_DISCONNECTED_EVENT_FAILURE) \<and>
             stanza_session d = data_session t
          then post_to th t d else Some None)"

definition ReqTask_HandleResponse :: "(rat \<Rightarrow> string) \<Rightarrow> Task \<Rightarrow> Stanza \<Rightarrow> handled" where
  "ReqTask_HandleResponse fmt_g t d =
     (case task_thread t of None \<Rightarrow> Some None
      | Some th \<Rightarrow>
          (case json_cmd fmt_g (res_json d) of
             None \<Rightarrow> None
           | Some res_cmd \<Rightarrow> if res_cmd = req_cmd t then post_to th t d else Some None))"

definition ReqRecordTask_HandleResponse :: "(rat \<Rightarrow> string) \<Rightarrow> Task \<Rightarrow> Stanza \<Rightarrow> handled" where
  "ReqRecordTask_HandleResponse fmt_g t d =
     (case task_thread t of None \<Rightarrow> Some None
      | Some th \<Rightarrow>
          (case json_cmd fmt_g (res_json d) of
             None \<Rightarrow> None
           | Some res_cmd \<Rightarrow>
               if res_cmd = ''ivs_result'' \<and> req_cmd t = ''get_record'' then post_to th t d else Some None))"

definition ReqTask_HandleMessage :: "(rat \<Rightarrow> string) \<Rightarrow> Task \<Rightarrow> uint32 \<Rightarrow> Stanza \<Rightarrow> handled" where
  "ReqTask_HandleMessage fmt_g t mid d =
     (case task_thread t of None \<Rightarrow> Some None
      | Some th \<Rightarrow>
          if mid = 0 \<and> stanza_session d = data_session t \<and> stanza_type d = RES_STANZA_EVENT then
            (if task_kind t = ReqRecordTask then ReqRecordTask_HandleResponse fmt_g t d
             else ReqTask_HandleResponse fmt_g t d)
          else if mid = task_id t \<and> stanza_session d = data_session t then post_to th t d
          else Some None)"

definition ReqPushTask_HandleMessage :: "Task \<Rightarrow> uint32 \<Rightarrow> Stanza \<Rightarrow> handled" where
  "ReqPushTask_HandleMessage t mid d =
     (case task_thread t of None \<Rightarrow> Some None
      | Some th \<Rightarrow> if mid = task_id t \<and> stanza_session d = data_session t then post_to th t d else Some None)"

text \<open>The virtual call.\<close>

definition HandleMessage :: "(rat \<Rightarrow> string) \<Rightarrow> Task \<Rightarrow> uint32 \<Rightarrow> Stanza \<Rightarrow> handled" where
  "HandleMessage fmt_g t mid d = (case task_kind t of
      ConnectTask \<Rightarrow> Task_HandleMessage t mid d
    | ReConnectTask \<Rightarrow> Task_HandleMessage t mid d
    | DisconnectTask \<Rightarrow> DisconnectTask_HandleMessage t mid d
    | ReqTask \<Rightarrow> ReqTask_HandleMessage fmt_g t mid d
    | ReqRecordTask \<Rightarrow> ReqTask_HandleMessage fmt_g t mid d
    | ReqPushTask \<Rightarrow> ReqPushTask_HandleMessage t mid d)"

section \<open>Waiting for the response\<close>

text \<open>
  The message object that \<^verbatim>\<open>Get\<close> fills in: it keeps its content when \<^verbatim>\<open>Get\<close> returns
  nothing.  One turn of the loop is what \<^verbatim>\<open>Get\<close> delivered and the clock afterwards.
\<close>

record wait_msg =
  wm_handler :: bool
  wm_id :: uint32
  wm_data :: "Stanza option"

definition wait_msg_new :: wait_msg where
  "wait_msg_new = \<lparr>wm_handler = False, wm_id = 0, wm_data = None\<rparr>"

text \<open>The turns may be used up while the task still waits.\<close>

datatype wait_result = StillWaiting | NullMessage | Returned wait_msg

text \<open>The loop, with the timeouts it passes to \<^verbatim>\<open>Get\<close>: \<open>cmsNext\<close> is that of the next call, also when the turns are used up.\<close>

fun wait_loop :: "uint32 \<Rightarrow> uint32 \<Rightarrow> int \<Rightarrow> wait_msg \<Rightarrow> (wait_msg option \<times> uint32) list \<Rightarrow> int list \<times> wait_result" where
  "wait_loop tid msEnd cmsNext msg [] = ([cmsNext], StillWaiting)"
| "wait_loop tid msEnd cmsNext msg ((got, now) # turns) =
     (let msg' = (case got of Some m \<Rightarrow> m | None \<Rightarrow> msg) in
      if wm_handler msg' \<and> wm_id msg' = tid then ([cmsNext], Returned msg')
      else if TimeUntil now msEnd < 0 then ([cmsNext], Returned msg')
      else (let rest = wait_loop tid msEnd (TimeUntil now msEnd) msg' turns in (cmsNext # fst rest, snd rest)))"

definition WaitTaskDone_run :: "uint32 \<Rightarrow> Task \<Rightarrow> (wait_msg option \<times> uint32) list \<Rightarrow> int list \<times> wait_result" where
  "WaitTaskDone_run start t turns =
     (case task_thread t of
        None \<Rightarrow> ([], NullMessage)
      | Some _ \<Rightarrow> wait_loop (task_id t) (TimeAfter start (task_timeout t)) (sint (task_timeout t)) wait_msg_new turns)"

definition WaitTaskDone ::
  "uint32 \<Rightarrow> Task \<Rightarrow> (wait_msg option \<times> uint32) list \<Rightarrow> wait_result" where
  "WaitTaskDone start t turns = snd (WaitTaskDone_run start t turns)"

lemmas WaitTaskDone_defs = WaitTaskDone_def WaitTaskDone_run_def

text \<open>
  What \<^verbatim>\<open>Get\<close> promises of its timeout: asked at time \<open>prev\<close> to wait for \<open>c\<close> milliseconds it returns no later than \<open>c + lag\<close>
  milliseconds afterwards, where \<open>lag\<close> is how late the system resumes a thread; asked with \<^verbatim>\<open>kForever\<close> it promises nothing.
\<close>

fun gets_in_time :: "nat \<Rightarrow> nat \<Rightarrow> int list \<Rightarrow> nat list \<Rightarrow> bool" where
  "gets_in_time lag prev (c # asked) (d # ds) \<longleftrightarrow>
     prev \<le> d \<and> (c \<noteq> kForever \<longrightarrow> int d \<le> int prev + c + int lag) \<and> gets_in_time lag d asked ds"
| "gets_in_time lag prev _ _ \<longleftrightarrow> True"

lemma wait_loop_own:
  "snd (wait_loop tid msEnd next msg pre) = StillWaiting \<Longrightarrow> wm_handler m \<Longrightarrow> wm_id m = tid \<Longrightarrow>
   snd (wait_loop tid msEnd next msg (pre @ (Some m, now) # post)) = Returned m"
  by (induction tid msEnd "next" msg pre rule: wait_loop.induct) (auto simp: Let_def split: if_splits)

lemma wait_loop_result:
  "snd (wait_loop tid msEnd next msg turns) = Returned m \<Longrightarrow>
   wm_handler m \<and> wm_id m = tid \<or> list_ex (\<lambda>(got, now). TimeUntil now msEnd < 0) turns"
  by (induction tid msEnd "next" msg turns rule: wait_loop.induct) (auto simp: Let_def split: if_splits)

lemma wait_loop_not_null: "snd (wait_loop tid msEnd next msg turns) \<noteq> NullMessage"
  by (induction tid msEnd "next" msg turns rule: wait_loop.induct) (auto simp: Let_def)

lemma time_left:
  assumes "timeout < 2 ^ 31" "d < 2 ^ 31"
  shows "TimeUntil (start + of_nat d) (TimeAfter start (of_nat timeout)) = int timeout - int d"
proof -
  have "sint (of_nat timeout - of_nat d :: uint32) = int timeout - int d"
    using assms by (intro sint_diff_of_nat) (simp add: abs_if)
  then show ?thesis by (simp add: TimeUntil_def TimeDiff_def TimeAfter_def)
qed

lemma deadline_passed:
  assumes "timeout < d" "d < 2 ^ 31"
  shows "TimeUntil (start + of_nat d) (TimeAfter start (of_nat timeout)) < 0"
  using assms by (simp add: time_left)

section \<open>Properties\<close>

text \<open>Every call of \<^verbatim>\<open>Get\<close> is given the time that is left.\<close>

lemma wait_loop_in_time:
  assumes "timeout + lag < 2 ^ 31" and "prev \<le> timeout"
    and "r = wait_loop tid (TimeAfter start (of_nat timeout)) (int timeout - int prev) msg (map (\<lambda>(got, d). (got, start + of_nat d)) ds)"
    and "gets_in_time lag prev (fst r) (map snd ds)"
  shows "fst r = map (\<lambda>d. int timeout - int d) (take (length (fst r)) (prev # map snd ds)) \<and> (\<forall>c \<in> set (fst r). 0 \<le> c) \<and>
    (\<forall>d \<in> set (take (length (fst r)) (map snd ds)). d \<le> timeout + lag) \<and>
    (snd r = StillWaiting \<longrightarrow> (\<forall>d \<in> snd ` set ds. d \<le> timeout))"
  using assms(2-)
proof (induction ds arbitrary: prev msg r)
  case (Cons x ds)
  obtain got d where x: "x = (got, d)" by (cases x)
  define msg' where "msg' = (case got of Some m \<Rightarrow> m | None \<Rightarrow> msg)"
  define rest where "rest = wait_loop tid (TimeAfter start (of_nat timeout)) (int timeout - int d) msg' (map (\<lambda>(got, d). (got, start + of_nat d)) ds)"
  have "\<exists>fs. fst r = (int timeout - int prev) # fs" using Cons.prems(2) x by (auto simp: Let_def)
  then have d: "d \<le> timeout + lag" using Cons.prems(1,3) x by (auto simp: kForever_def)
  then have left: "TimeUntil (start + of_nat d) (TimeAfter start (of_nat timeout)) = int timeout - int d"
    using assms(1) by (intro time_left) simp_all
  show ?case
  proof (cases "wm_handler msg' \<and> wm_id msg' = tid \<or> timeout < d")
    case True
    then have "r = ([int timeout - int prev], Returned msg')"
      using Cons.prems(2) left by (auto simp: x Let_def msg'_def [symmetric])
    then show ?thesis using d Cons.prems(1) x by simp
  next
    case False
    then have r: "r = ((int timeout - int prev) # fst rest, snd rest)"
      using Cons.prems(2) left by (auto simp: x Let_def msg'_def [symmetric] rest_def)
    have "d \<le> timeout" using False by simp
    moreover have "gets_in_time lag d (fst rest) (map snd ds)" using Cons.prems(3) x r by simp
    ultimately show ?thesis using Cons.IH [of d rest msg', OF _ rest_def] Cons.prems(1) d by (simp add: r x)
  qed
qed simp

text \<open>
  C25 (liveness).  Waiting for a task ends.  Every \<^verbatim>\<open>Get\<close> of the wait is asked to wait for exactly the time that is left of the
  timeout, never for ever and never for a negative time; so, if each returns in the time it was given, late by at most \<open>lag\<close>,
  all of them have returned when the timeout and \<open>lag\<close> are over; and a turn past the timeout ends the
  wait, whatever was delivered.  A message of the task that arrives while it still waits is returned at once, and a message that is
  not the task's own is returned only after the deadline.
\<close>

theorem wait_task_done:
  assumes "task_thread t = Some th" and "task_timeout t = of_nat timeout" and "timeout + lag < 2 ^ 31"
    and "turns = map (\<lambda>(got, d). (got, start + of_nat d)) ds"
    and "asked = fst (WaitTaskDone_run start t turns)" and "gets_in_time lag 0 asked (map snd ds)"
  shows "asked = map (\<lambda>d. int timeout - int d) (take (length asked) (0 # map snd ds)) \<and> (\<forall>c \<in> set asked. 0 \<le> c) \<and>
    (\<forall>d \<in> set (take (length asked) (map snd ds)). d \<le> timeout + lag) \<and>
    ((\<exists>d \<in> set (map snd ds). timeout < d) \<longrightarrow> (\<exists>m. WaitTaskDone start t turns = Returned m)) \<and>
    (\<forall>pre m now post. WaitTaskDone start t pre = StillWaiting \<and> wm_handler m \<and> wm_id m = task_id t \<longrightarrow>
       WaitTaskDone start t (pre @ (Some m, now) # post) = Returned m) \<and>
    (\<forall>turns m. WaitTaskDone start t turns = Returned m \<longrightarrow> wm_handler m \<and> wm_id m = task_id t \<or>
       (\<exists>(got, now) \<in> set turns. TimeUntil now (TimeAfter start (task_timeout t)) < 0))"
proof -
  define r where "r = wait_loop (task_id t) (TimeAfter start (of_nat timeout)) (int timeout - int 0) wait_msg_new
    (map (\<lambda>(got, d). (got, start + of_nat d)) ds)"
  have "sint (of_nat timeout :: uint32) = int timeout" using sint_diff_of_nat [of timeout 0] assms(3) by simp
  then have run: "WaitTaskDone_run start t turns = r" using assms(1,2,4) by (simp add: WaitTaskDone_run_def r_def)
  note loop = wait_loop_in_time [OF assms(3) _ r_def] assms(5,6)
  have "\<exists>m. WaitTaskDone start t turns = Returned m" if "\<exists>d \<in> set (map snd ds). timeout < d"
  proof -
    have "snd r \<noteq> StillWaiting" using loop that by (auto simp: run)
    moreover have "snd r \<noteq> NullMessage" unfolding r_def by (rule wait_loop_not_null)
    ultimately show ?thesis by (cases "snd r") (simp_all add: WaitTaskDone_def run)
  qed
  moreover have "WaitTaskDone start t (pre @ (Some m, now) # post) = Returned m"
    if "WaitTaskDone start t pre = StillWaiting \<and> wm_handler m \<and> wm_id m = task_id t" for pre m now post
    using that assms(1) by (simp add: WaitTaskDone_defs wait_loop_own)
  moreover have "wm_handler m \<and> wm_id m = task_id t \<or> (\<exists>(got, now) \<in> set turns. TimeUntil now (TimeAfter start (task_timeout t)) < 0)"
    if "WaitTaskDone start t turns = Returned m" for turns m
    using that assms(1) wait_loop_result by (fastforce simp: WaitTaskDone_defs list_ex_iff)
  ultimately show ?thesis using loop by (simp add: run)
qed

theorem wait_task_done_witness:
  "\<exists>m. WaitTaskDone 5 (fst (DisconnectTask_new 2000 3 1 7)) [(None, 5 + of_nat 600), (None, 5 + of_nat 2003)] = Returned m"
proof -
  let ?t = "fst (DisconnectTask_new 2000 3 1 7)" and ?ds = "[(None, 600), (None, 2003)]"
  let ?turns = "map (\<lambda>(got, d). (got, 5 + of_nat d)) ?ds"
  have t: "task_thread ?t = Some 3" "task_timeout ?t = of_nat 2000" "2000 + 10 < (2::nat) ^ 31"
    by (simp_all add: DisconnectTask_new_def Task_new_def)
  have "gets_in_time 10 0 (fst (WaitTaskDone_run 5 ?t ?turns)) (map snd ?ds)"
    by (simp add: WaitTaskDone_run_def DisconnectTask_new_def Task_new_def wait_msg_new_def TimeUntil_def TimeAfter_def TimeDiff_def kForever_def)
  from wait_task_done [OF t refl refl this] show ?thesis by simp
qed

text \<open>
  A message of another task that the thread receives while it waits is not
  discarded.  When nothing else arrives before the deadline \<^verbatim>\<open>WaitTaskDone\<close> returns that
  message, with its handler set, so the caller cannot tell it from its own response.
\<close>

theorem wait_returns_message_of_another_task:
  assumes "task_thread t = Some th" and "task_timeout t = of_nat timeout" and "timeout + 1 < 2 ^ 31"
    and "wm_handler other" and "wm_id other \<noteq> task_id t"
  shows "WaitTaskDone start t [(Some other, start), (None, start + of_nat (timeout + 1))] = Returned other"
proof -
  have "\<not> sint (of_nat timeout :: uint32) < 0"
    using assms(3) sint_diff_of_nat [of timeout 0] by simp
  then have "\<not> TimeUntil start (TimeAfter start (task_timeout t)) < 0"
    using assms(2) by (simp add: TimeUntil_def TimeDiff_def TimeAfter_def)
  moreover have "TimeUntil (start + of_nat (timeout + 1)) (TimeAfter start (task_timeout t)) < 0"
    unfolding assms(2) using assms(3) by (intro deadline_passed) simp_all
  ultimately show ?thesis using assms(1,5) by (simp add: WaitTaskDone_defs)
qed

theorem wait_returns_message_of_another_task_witness:
  "WaitTaskDone 5 (fst (DisconnectTask_new 2000 3 1 7))
     [(Some \<lparr>wm_handler = True, wm_id = 1, wm_data = None\<rparr>, 5), (None, 5 + of_nat (2000 + 1))] =
   Returned \<lparr>wm_handler = True, wm_id = 1, wm_data = None\<rparr>"
  by (rule wait_returns_message_of_another_task [where th = 3])
     (simp_all add: DisconnectTask_new_def Task_new_def)

end
