(* ===== verification/Vz_Commandanalysis.thy ===== *)
theory Vz_Commandanalysis
  imports Vz_Json Vz_Base64 "HOL-Library.Monad_Syntax"
begin

text \<open>
  \<^verbatim>\<open>src/src/vzsdk/commandanalysis.{h,cpp}\<close> with the structures of \<^verbatim>\<open>vzclientsdk_lpdefine.h\<close>: the
  JSON commands sent to a device and the parsing of what it answers.  A function returns
  \<open>None\<close> where the JSON library throws, and where \<^verbatim>\<open>strcpy\<close> would write behind its array.
  Characters are kept as bytes of the C strings; the layout is that of a little-endian
  host without padding between 16-bit members.
\<close>

section \<open>The C library\<close>

text \<open>A character array keeps its declared length; its content ends at the first NUL.\<close>

definition strncpy :: "string \<Rightarrow> string \<Rightarrow> nat \<Rightarrow> string" where
  "strncpy dst src n = take n (cstr src @ replicate n (CHR 0x00)) @ drop n dst"

definition strcpy :: "string \<Rightarrow> string \<Rightarrow> string option" where
  "strcpy dst src =
     (if length (cstr src) < length dst
      then Some (cstr src @ [CHR 0x00] @ drop (Suc (length (cstr src))) dst) else None)"

definition fmt_d :: "int \<Rightarrow> string" where
  "fmt_d v = (if v < 0 then CHR ''-'' # uintToString (nat (- v)) else uintToString (nat v))"

definition fmt_02d :: "int \<Rightarrow> string" where
  "fmt_02d v = (if 0 \<le> v \<and> v < 10 then CHR ''0'' # fmt_d v else fmt_d v)"

definition isspace :: "char \<Rightarrow> bool" where
  "isspace c \<longleftrightarrow> c = CHR '' '' \<or> 9 \<le> (of_char c :: nat) \<and> (of_char c :: nat) \<le> 13"

definition isdigit :: "char \<Rightarrow> bool" where
  "isdigit c \<longleftrightarrow> 48 \<le> (of_char c :: nat) \<and> (of_char c :: nat) \<le> 57"

text \<open>The conversion \<^verbatim>\<open>%d\<close>; a number outside the range of \<^verbatim>\<open>int\<close> is undefined in C.\<close>

definition scan_digits :: "string \<Rightarrow> (nat \<times> string) option" where
  "scan_digits s =
     (case takeWhile isdigit s of [] \<Rightarrow> None | ds \<Rightarrow> Some (digits_value ds, dropWhile isdigit s))"

definition scan_int :: "string \<Rightarrow> (int \<times> string) option" where
  "scan_int s =
     (case dropWhile isspace s of
        [] \<Rightarrow> None
      | c # cs \<Rightarrow>
          if c = CHR ''-'' then map_option (\<lambda>(n, r). (- int n, r)) (scan_digits cs)
          else if c = CHR ''+'' then map_option (\<lambda>(n, r). (int n, r)) (scan_digits cs)
          else map_option (\<lambda>(n, r). (int n, r)) (scan_digits (c # cs)))"

datatype scan_item = ScanInt | ScanSpace | ScanLit char

text \<open>The values that are stored, in order; a mismatch ends the scan.\<close>

fun sscanf :: "scan_item list \<Rightarrow> string \<Rightarrow> int list" where
  "sscanf [] s = []"
| "sscanf (ScanInt # f) s = (case scan_int s of None \<Rightarrow> [] | Some (v, r) \<Rightarrow> v # sscanf f r)"
| "sscanf (ScanSpace # f) s = sscanf f (dropWhile isspace s)"
| "sscanf (ScanLit c # f) s = (case s of x # r \<Rightarrow> if x = c then sscanf f r else [] | [] \<Rightarrow> [])"

definition time_format :: "scan_item list" where
  "time_format = [ScanInt, ScanLit (CHR ''-''), ScanInt, ScanLit (CHR ''-''), ScanInt, ScanSpace,
     ScanInt, ScanLit (CHR '':''), ScanInt, ScanLit (CHR '':''), ScanInt]"

section \<open>Structures\<close>

record TH_RECT =
  rect_left :: int
  rect_top :: int
  rect_right :: int
  rect_bottom :: int

record VzBDTime =
  bdt_sec :: uint8
  bdt_min :: uint8
  bdt_hour :: uint8
  bdt_mday :: uint8
  bdt_mon :: uint8
  bdt_year :: uint32

record TH_PlateResult =
  license :: string
  plate_color :: string
  nColor :: int
  nType :: int
  nConfidence :: int
  nBright :: int
  nDirection :: int
  rcLocation :: TH_RECT
  nTime :: int
  uTVSec :: uint32
  uTVUSec :: uint32
  uBitsTrigType :: uint32
  nCarBright :: uint8
  nCarColor :: uint8
  uId :: uint32
  struBDTime :: VzBDTime

record VZ_TM =
  nYear :: uint16
  nMonth :: uint16
  nMDay :: uint16
  nHour :: uint16
  nMin :: uint16
  nSec :: uint16

record VZ_LPR_WLIST_VEHICLE =
  uVehicleID :: uint32
  strPlateID :: string
  uCustomerID :: uint32
  bEnable :: uint32
  bEnableTMEnable :: uint32
  bEnableTMOverdule :: uint32
  struTMEnable :: VZ_TM
  struTMOverdule :: VZ_TM
  bUsingTimeSeg :: uint32
  bAlarm :: uint32
  iColor :: int
  iPlateType :: int
  strCode :: string
  strComment :: string

definition VZ_LPR_WLIST_LP_MAX_LEN :: nat where "VZ_LPR_WLIST_LP_MAX_LEN = 32"

definition VZ_LPR_WLIST_VEHICLE_CODE_LEN :: nat where "VZ_LPR_WLIST_VEHICLE_CODE_LEN = 32"

definition VZ_LPR_WLIST_VEHICLE_COMMENT_LEN :: nat where "VZ_LPR_WLIST_VEHICLE_COMMENT_LEN = 64"

record TTRANSMISSION_RESPONSE =
  tt_subcmd :: "string option"
  tt_response :: "string option"
  tt_datalen :: uint32
  tt_comm :: uint32
  tt_data :: "string option"

record OFFLINE_RESPONSE =
  off_subcmd :: "string option"
  off_response :: "string option"

record RECORD_RESPONSE =
  rec_id :: uint32
  rec_size :: uint32

record GPIO_RESPONSE =
  gpio_number :: uint32
  gpio_val :: uint32

record WHITE_LIST_OPERATOR_RESPONSE =
  wl_operator_type :: "string option"
  wl_state :: "string option"
  wl_record_count :: uint32

section \<open>Commands\<close>

text \<open>A sequence of assignments \<^verbatim>\<open>json_value[key] = x\<close>.\<close>

fun set_members :: "(string \<times> Value) list \<Rightarrow> Value \<Rightarrow> Value option" where
  "set_members [] v = Some v"
| "set_members ((k, x) # kvs) v = do { v' \<leftarrow> resolveReference_set v k x; set_members kvs v' }"

definition serial_name :: "uint32 \<Rightarrow> string" where
  "serial_name serial_port = (if serial_port = 0 then ''rs485-1'' else ''rs485-2'')"

definition GeneratSerialStartCmd :: "uint32 \<Rightarrow> Value \<Rightarrow> (bool \<times> Value) option" where
  "GeneratSerialStartCmd serial_port v =
     (if serial_port = 0 \<or> serial_port = 1 then
        map_option (Pair True) (set_members
          [(''cmd'', Value_cstr ''ttransmission''), (''subcmd'', Value_cstr ''init''),
           (''data'', Value_cstr (serial_name serial_port)),
           (''datalen'', Value_Int (int (length (serial_name serial_port))))] v)
      else Some (False, v))"

definition GeneratSerialStopCmd :: "Value \<Rightarrow> Value option" where
  "GeneratSerialStopCmd v =
     set_members [(''cmd'', Value_cstr ''ttransmission''), (''subcmd'', Value_cstr ''uninit'')] v"

text \<open>The data holds \<open>datalen\<close> bytes; the result string of the encoder has no NUL.\<close>

definition GeneratSerialSendCmd :: "uint32 \<Rightarrow> bytes \<Rightarrow> int \<Rightarrow> Value \<Rightarrow> (bool \<times> Value) option" where
  "GeneratSerialSendCmd serial_port data datalen v =
     (if serial_port = 0 \<or> serial_port = 1 then
        map_option (Pair True) (set_members
          [(''cmd'', Value_cstr ''ttransmission''), (''subcmd'', Value_cstr ''send''),
           (''comm'', Value_cstr (serial_name serial_port)),
           (''data'', Value_cstr (string_of_bytes (EncodeFromArray data (nat datalen)))),
           (''datalen'', Value_Int datalen)] v)
      else Some (False, v))"

definition GeneratSetOfflineCheckCmd :: "uint32 \<Rightarrow> Value \<Rightarrow> Value option" where
  "GeneratSetOfflineCheckCmd interval v =
     set_members [(''cmd'', Value_cstr ''offline''), (''interval'', Value_UInt interval)] v"

definition GeneratCancelOfflineCheckCmd :: "Value \<Rightarrow> Value option" where
  "GeneratCancelOfflineCheckCmd v =
     set_members [(''cmd'', Value_cstr ''offline''), (''subcmd'', Value_cstr ''cancel'')] v"

definition GeneratGetImageByIdCmd :: "int \<Rightarrow> Value \<Rightarrow> Value option" where
  "GeneratGetImageByIdCmd rid v = set_members [(''cmd'', Value_cstr ''get_image''), (''id'', Value_Int rid)] v"

definition GeneratGetRecordByIdCmd :: "int \<Rightarrow> bool \<Rightarrow> Value \<Rightarrow> Value option" where
  "GeneratGetRecordByIdCmd rid needImg v =
     set_members [(''cmd'', Value_cstr ''get_record''), (''id'', Value_Int rid),
       (''format'', Value_cstr ''json''), (''image'', Value_bool needImg)] v"

definition GeneratOfflineCheckCmd :: "uint32 \<Rightarrow> Value \<Rightarrow> Value option" where
  "GeneratOfflineCheckCmd interval v =
     set_members [(''cmd'', Value_cstr ''offline''), (''interval'', Value_UInt interval)] v"

definition GeneraGetMaxRecordID :: "Value \<Rightarrow> Value option" where
  "GeneraGetMaxRecordID v = set_members [(''cmd'', Value_cstr ''get_max_rec_id'')] v"

definition GeneratGetDeviceSN :: "int \<Rightarrow> Value \<Rightarrow> Value option" where
  "GeneratGetDeviceSN sid v = set_members [(''cmd'', Value_cstr ''getsn'')] v"

definition IvsFormatToString :: "int \<Rightarrow> string" where
  "IvsFormatToString ivs_format = (if ivs_format = 0 then ''bin'' else if ivs_format = 1 then ''json'' else ''json'')"

definition GeneratIVSResult :: "bool \<Rightarrow> int \<Rightarrow> bool \<Rightarrow> int \<Rightarrow> Value \<Rightarrow> Value option" where
  "GeneratIVSResult enable_result fmt enable_img img_type v =
     set_members [(''cmd'', Value_cstr ''ivsresult''), (''enable'', Value_bool enable_result),
       (''format'', Value_cstr (IvsFormatToString fmt)), (''image'', Value_bool enable_img),
       (''image_type'', Value_Int img_type)] v"

definition GeneratForceTrigger :: "Value \<Rightarrow> Value option" where
  "GeneratForceTrigger v = set_members [(''cmd'', Value_cstr ''trigger'')] v"

definition GeneratGetGPIOValueCmd :: "int \<Rightarrow> Value \<Rightarrow> Value option" where
  "GeneratGetGPIOValueCmd gpio v = set_members [(''cmd'', Value_cstr ''get_gpio_value''), (''gpio'', Value_Int gpio)] v"

definition GeneratSetGPIOAutoCmd :: "int \<Rightarrow> int \<Rightarrow> Value \<Rightarrow> Value option" where
  "GeneratSetGPIOAutoCmd gpio duration v =
     set_members [(''cmd'', Value_cstr ''ioctl''), (''io'', Value_Int gpio), (''value'', Value_Int 2),
       (''delay'', Value_Int duration)] v"

definition GeneratSetIOOutputCmd :: "int \<Rightarrow> int \<Rightarrow> Value \<Rightarrow> (bool \<times> Value) option" where
  "GeneratSetIOOutputCmd gpio nOutput v =
     (if nOutput = 0 \<or> nOutput = 1 then
        map_option (Pair True) (set_members
          [(''cmd'', Value_cstr ''ioctl''), (''io'', Value_Int gpio), (''value'', Value_Int nOutput)] v)
      else Some (False, v))"

definition print_time :: "VZ_TM \<Rightarrow> string" where
  "print_time t =
     fmt_d (sint (nYear t)) @ ''-'' @ fmt_02d (sint (nMonth t)) @ ''-'' @ fmt_02d (sint (nMDay t)) @ '' '' @
     fmt_02d (sint (nHour t)) @ '':'' @ fmt_02d (sint (nMin t)) @ '':'' @ fmt_02d (sint (nSec t))"

definition GeneratImportWlistVehicleCmd :: "VZ_LPR_WLIST_VEHICLE \<Rightarrow> Value \<Rightarrow> Value option" where
  "GeneratImportWlistVehicleCmd item v = do {
     v1 \<leftarrow> set_members [(''cmd'', Value_cstr ''white_list_operator''), (''operator_type'', Value_cstr ''update_or_add'')] v;
     record_value \<leftarrow> set_members
       [(''index'', Value_UInt (uVehicleID item)), (''plate'', Value_cstr (strPlateID item)),
        (''customer_id'', Value_UInt (uCustomerID item)), (''enable'', Value_UInt (bEnable item)),
        (''enable_time'', Value_cstr (print_time (struTMEnable item))),
        (''overdue_time'', Value_cstr (print_time (struTMOverdule item))),
        (''time_seg_enable'', Value_UInt (bUsingTimeSeg item)), (''need_alarm'', Value_UInt (bAlarm item)),
        (''vehicle_code'', Value_cstr (strCode item)), (''vehicle_comment'', Value_cstr (strComment item))] nullValue;
     set_members [(''dldb_rec'', record_value)] v1 }"

definition GeneratDeleteWlistVehicleCmd :: "string \<Rightarrow> Value \<Rightarrow> Value option" where
  "GeneratDeleteWlistVehicleCmd plate_code v =
     set_members [(''cmd'', Value_cstr ''white_list_operator''), (''operator_type'', Value_cstr ''delete''),
       (''plate'', Value_cstr plate_code)] v"

definition GeneratQueryWlistVehicleCmd :: "string \<Rightarrow> Value \<Rightarrow> Value option" where
  "GeneratQueryWlistVehicleCmd plate_code v =
     set_members [(''cmd'', Value_cstr ''white_list_operator''), (''operator_type'', Value_cstr ''select''),
       (''sub_type'', Value_cstr ''plate''), (''plate'', Value_cstr plate_code)] v"

section \<open>Responses\<close>

text \<open>
  \<open>path v ks\<close> is \<^verbatim>\<open>v[k1][k2]...\<close>; the readers below are the guarded assignments of the
  parsing functions, \<^verbatim>\<open>if (x.isInt()) field = x.asInt()\<close> and so on.
\<close>

fun path :: "Value \<Rightarrow> string list \<Rightarrow> Value option" where
  "path v [] = Some v"
| "path v (k # ks) = do { x \<leftarrow> Value_at v k; path x ks }"

definition if_int :: "Value \<Rightarrow> string list \<Rightarrow> (int \<Rightarrow> 'r \<Rightarrow> 'r) \<Rightarrow> 'r \<Rightarrow> 'r option" where
  "if_int v ks assign r = do {
     x \<leftarrow> path v ks;
     if isInt x then do { i \<leftarrow> asInt x; Some (assign i r) } else Some r }"

definition if_string :: "Value \<Rightarrow> string list \<Rightarrow> (string \<Rightarrow> 'r \<Rightarrow> 'r option) \<Rightarrow> 'r \<Rightarrow> 'r option" where
  "if_string v ks assign r = do {
     x \<leftarrow> path v ks;
     if isString x then do { s \<leftarrow> asCString x; assign (cstr s) r } else Some r }"

definition if_uint :: "Value \<Rightarrow> string \<Rightarrow> (uint32 \<Rightarrow> 'r \<Rightarrow> 'r) \<Rightarrow> 'r \<Rightarrow> 'r option" where
  "if_uint v k assign r = do {
     x \<leftarrow> Value_at v k;
     if \<not> isNull x then do { i \<leftarrow> asUInt x; Some (assign (of_int i) r) } else Some r }"

definition if_cstring :: "Value \<Rightarrow> string \<Rightarrow> (string option \<Rightarrow> 'r \<Rightarrow> 'r) \<Rightarrow> 'r \<Rightarrow> 'r option" where
  "if_cstring v k assign r = do {
     x \<leftarrow> Value_at v k;
     if \<not> isNull x then do { s \<leftarrow> asCString x; Some (assign (Some (cstr s)) r) } else Some r }"

text \<open>A null pointer for the structure makes the function return at once.\<close>

definition if_pointer :: "('r \<Rightarrow> 'r option) \<Rightarrow> 'r option \<Rightarrow> 'r option option" where
  "if_pointer f p = (case p of None \<Rightarrow> Some None | Some r \<Rightarrow> map_option Some (f r))"

definition ParseTTransmissionResponse ::
  "Value \<Rightarrow> TTRANSMISSION_RESPONSE option \<Rightarrow> TTRANSMISSION_RESPONSE option option" where
  "ParseTTransmissionResponse v = if_pointer (\<lambda>r. do {
     r1 \<leftarrow> if_cstring v ''subcmd'' (\<lambda>s r. r\<lparr>tt_subcmd := s\<rparr>) r;
     r2 \<leftarrow> if_cstring v ''response'' (\<lambda>s r. r\<lparr>tt_response := s\<rparr>) r1;
     r3 \<leftarrow> if_uint v ''datalen'' (\<lambda>n r. r\<lparr>tt_datalen := n\<rparr>) r2;
     r4 \<leftarrow> if_uint v ''comm'' (\<lambda>n r. r\<lparr>tt_comm := n\<rparr>) r3;
     if_cstring v ''data'' (\<lambda>s r. r\<lparr>tt_data := s\<rparr>) r4 })"

definition ParseOfflineResponse :: "Value \<Rightarrow> OFFLINE_RESPONSE option \<Rightarrow> OFFLINE_RESPONSE option option" where
  "ParseOfflineResponse v = if_pointer (\<lambda>r. do {
     r1 \<leftarrow> if_cstring v ''subcmd'' (\<lambda>s r. r\<lparr>off_subcmd := s\<rparr>) r;
     if_cstring v ''response'' (\<lambda>s r. r\<lparr>off_response := s\<rparr>) r1 })"

definition ParseRecordResponse :: "Value \<Rightarrow> RECORD_RESPONSE option \<Rightarrow> RECORD_RESPONSE option option" where
  "ParseRecordResponse v = if_pointer (\<lambda>r. do {
     r1 \<leftarrow> if_uint v ''id'' (\<lambda>n r. r\<lparr>rec_id := n\<rparr>) r;
     if_uint v ''size'' (\<lambda>n r. r\<lparr>rec_size := n\<rparr>) r1 })"

definition ParseGPIOResponse :: "Value \<Rightarrow> GPIO_RESPONSE option \<Rightarrow> GPIO_RESPONSE option option" where
  "ParseGPIOResponse v = if_pointer (\<lambda>r. do {
     r1 \<leftarrow> if_uint v ''gpio'' (\<lambda>n r. r\<lparr>gpio_number := n\<rparr>) r;
     if_uint v ''value'' (\<lambda>n r. r\<lparr>gpio_val := n\<rparr>) r1 })"

definition ParseMaxRecResponse :: "Value \<Rightarrow> uint32 \<Rightarrow> uint32 option" where
  "ParseMaxRecResponse v = if_uint v ''max_id'' (\<lambda>n r. n)"

definition ParseTimestampResponse :: "Value \<Rightarrow> uint32 option \<Rightarrow> uint32 option option" where
  "ParseTimestampResponse v = if_pointer (if_uint v ''timestamp'' (\<lambda>n r. n))"

definition ParseWhiteListOperatorResponse ::
  "Value \<Rightarrow> WHITE_LIST_OPERATOR_RESPONSE option \<Rightarrow> WHITE_LIST_OPERATOR_RESPONSE option option" where
  "ParseWhiteListOperatorResponse v = if_pointer (\<lambda>r. do {
     r1 \<leftarrow> if_cstring v ''operator_type'' (\<lambda>s r. r\<lparr>wl_operator_type := s\<rparr>) r;
     r2 \<leftarrow> if_cstring v ''state'' (\<lambda>s r. r\<lparr>wl_state := s\<rparr>) r1;
     x \<leftarrow> Value_at v ''dldb_rec'';
     Some (if \<not> isNull x then r2\<lparr>wl_record_count := of_nat (Value_size x)\<rparr> else r2) })"

text \<open>
  \<^verbatim>\<open>sscanf\<close> stores through \<^verbatim>\<open>int\<close> pointers into 16-bit members: each store also overwrites
  the member behind, and the last one of \<^verbatim>\<open>struTMOverdule\<close> the low half of \<^verbatim>\<open>bUsingTimeSeg\<close>.
  \<open>tm_mem\<close> is the memory of the three members in units of 16 bits.
\<close>

fun store_ints :: "nat \<Rightarrow> int list \<Rightarrow> uint16 list \<Rightarrow> uint16 list" where
  "store_ints i [] mem = mem"
| "store_ints i (v # vs) mem =
     store_ints (Suc i) vs (mem[i := of_int v, Suc i := ucast (drop_bit 16 (of_int v :: uint32))])"

definition VZ_TM_shorts :: "VZ_TM \<Rightarrow> uint16 list" where
  "VZ_TM_shorts t = [nYear t, nMonth t, nMDay t, nHour t, nMin t, nSec t]"

definition VZ_TM_of :: "uint16 list \<Rightarrow> VZ_TM" where
  "VZ_TM_of m = \<lparr>nYear = m ! 0, nMonth = m ! 1, nMDay = m ! 2, nHour = m ! 3, nMin = m ! 4, nSec = m ! 5\<rparr>"

definition tm_mem :: "VZ_LPR_WLIST_VEHICLE \<Rightarrow> uint16 list" where
  "tm_mem w = VZ_TM_shorts (struTMEnable w) @ VZ_TM_shorts (struTMOverdule w) @
     [ucast (bUsingTimeSeg w), ucast (drop_bit 16 (bUsingTimeSeg w))]"

definition set_tm_mem :: "uint16 list \<Rightarrow> VZ_LPR_WLIST_VEHICLE \<Rightarrow> VZ_LPR_WLIST_VEHICLE" where
  "set_tm_mem m w = w\<lparr>struTMEnable := VZ_TM_of m, struTMOverdule := VZ_TM_of (drop 6 m),
     bUsingTimeSeg := ucast (m ! 12) OR push_bit 16 (ucast (m ! 13))\<rparr>"

definition ParseWhiteListRecordResponse :: "Value \<Rightarrow> VZ_LPR_WLIST_VEHICLE \<Rightarrow> VZ_LPR_WLIST_VEHICLE option" where
  "ParseWhiteListRecordResponse item w = do {
     w1 \<leftarrow> if_int item [''index''] (\<lambda>i w. w\<lparr>uVehicleID := of_int i\<rparr>) w;
     w2 \<leftarrow> if_string item [''plate'']
       (\<lambda>s w. Some (w\<lparr>strPlateID := strncpy (strPlateID w) s (VZ_LPR_WLIST_LP_MAX_LEN - 1)\<rparr>)) w1;
     w3 \<leftarrow> if_int item [''ustomer_id''] (\<lambda>i w. w\<lparr>uCustomerID := of_int i\<rparr>) w2;
     w4 \<leftarrow> if_int item [''enable''] (\<lambda>i w. w\<lparr>bEnable := of_int i\<rparr>) w3;
     w5 \<leftarrow> if_string item [''enable_time'']
       (\<lambda>s w. Some ((set_tm_mem (store_ints 0 (sscanf time_format s) (tm_mem w)) w)\<lparr>bEnableTMEnable := 1\<rparr>)) w4;
     w6 \<leftarrow> if_string item [''overdue_time'']
       (\<lambda>s w. Some ((set_tm_mem (store_ints 6 (sscanf time_format s) (tm_mem w)) w)\<lparr>bEnableTMOverdule := 1\<rparr>)) w5;
     w7 \<leftarrow> if_int item [''time_seg_enable''] (\<lambda>i w. w\<lparr>bUsingTimeSeg := of_int i\<rparr>) w6;
     w8 \<leftarrow> if_int item [''need_alarm''] (\<lambda>i w. w\<lparr>bAlarm := of_int i\<rparr>) w7;
     w9 \<leftarrow> if_string item [''vehicle_code'']
       (\<lambda>s w. Some (w\<lparr>strCode := strncpy (strCode w) s (VZ_LPR_WLIST_VEHICLE_CODE_LEN - 1)\<rparr>)) w8;
     if_string item [''vehicle_comment'']
       (\<lambda>s w. Some (w\<lparr>strComment := strncpy (strComment w) s (VZ_LPR_WLIST_VEHICLE_COMMENT_LEN - 1)\<rparr>)) w9 }"

definition nth_or_0 :: "int list \<Rightarrow> nat \<Rightarrow> int" where
  "nth_or_0 xs i = (if i < length xs then xs ! i else 0)"

definition set_BDTime :: "int list \<Rightarrow> TH_PlateResult \<Rightarrow> TH_PlateResult" where
  "set_BDTime t r = r\<lparr>struBDTime :=
     \<lparr>bdt_sec = of_int (nth_or_0 t 5), bdt_min = of_int (nth_or_0 t 4), bdt_hour = of_int (nth_or_0 t 3),
      bdt_mday = of_int (nth_or_0 t 2), bdt_mon = of_int (nth_or_0 t 1), bdt_year = of_int (nth_or_0 t 0)\<rparr>\<rparr>"

definition ParsePlate :: "Value \<Rightarrow> TH_PlateResult \<Rightarrow> TH_PlateResult option" where
  "ParsePlate plate r = do {
     r \<leftarrow> if_string plate [''license''] (\<lambda>s r. map_option (\<lambda>a. r\<lparr>license := a\<rparr>) (strcpy (license r) s)) r;
     r \<leftarrow> if_string plate [''colorValue''] (\<lambda>s r. map_option (\<lambda>a. r\<lparr>plate_color := a\<rparr>) (strcpy (plate_color r) s)) r;
     r \<leftarrow> if_int plate [''colorType''] (\<lambda>i r. r\<lparr>nColor := i\<rparr>) r;
     r \<leftarrow> if_int plate [''type''] (\<lambda>i r. r\<lparr>nType := i\<rparr>) r;
     r \<leftarrow> if_int plate [''confidence''] (\<lambda>i r. r\<lparr>nConfidence := i\<rparr>) r;
     r \<leftarrow> if_int plate [''bright''] (\<lambda>i r. r\<lparr>nBright := i\<rparr>) r;
     r \<leftarrow> if_int plate [''direction''] (\<lambda>i r. r\<lparr>nDirection := i\<rparr>) r;
     r \<leftarrow> if_int plate [''location'', ''RECT'', ''left''] (\<lambda>i r. r\<lparr>rcLocation := (rcLocation r)\<lparr>rect_left := i\<rparr>\<rparr>) r;
     r \<leftarrow> if_int plate [''location'', ''RECT'', ''top''] (\<lambda>i r. r\<lparr>rcLocation := (rcLocation r)\<lparr>rect_top := i\<rparr>\<rparr>) r;
     r \<leftarrow> if_int plate [''location'', ''RECT'', ''right''] (\<lambda>i r. r\<lparr>rcLocation := (rcLocation r)\<lparr>rect_right := i\<rparr>\<rparr>) r;
     r \<leftarrow> if_int plate [''location'', ''RECT'', ''bottom''] (\<lambda>i r. r\<lparr>rcLocation := (rcLocation r)\<lparr>rect_bottom := i\<rparr>\<rparr>) r;
     r \<leftarrow> if_int plate [''timeUsed''] (\<lambda>i r. r\<lparr>nTime := i\<rparr>) r;
     r \<leftarrow> if_int plate [''carBright''] (\<lambda>i r. r\<lparr>nCarBright := of_int i\<rparr>) r;
     r \<leftarrow> if_int plate [''carColor''] (\<lambda>i r. r\<lparr>nCarColor := of_int i\<rparr>) r;
     r \<leftarrow> if_int plate [''timeStamp'', ''Timeval'', ''sec''] (\<lambda>i r. r\<lparr>uTVSec := of_int i\<rparr>) r;
     r \<leftarrow> if_int plate [''timeStamp'', ''Timeval'', ''usec''] (\<lambda>i r. r\<lparr>uTVUSec := of_int i\<rparr>) r;
     if_int plate [''triggerType''] (\<lambda>i r. r\<lparr>uBitsTrigType := of_int i\<rparr>) r }"

definition ParsePlateResultResponse ::
  "Value \<Rightarrow> TH_PlateResult \<times> int \<times> int \<Rightarrow> (TH_PlateResult \<times> int \<times> int) option" where
  "ParsePlateResultResponse v = (\<lambda>(result, full, clip). do {
     plate \<leftarrow> Value_at v ''PlateResult'';
     r \<leftarrow> ParsePlate plate result;
     r \<leftarrow> if_int v [''id''] (\<lambda>i r. r\<lparr>uId := of_int i\<rparr>) r;
     r \<leftarrow> if_string v [''timeString''] (\<lambda>s r. Some (set_BDTime (sscanf time_format s) r)) r;
     full \<leftarrow> if_int v [''fullImgSize''] (\<lambda>i x. i) full;
     clip \<leftarrow> if_int v [''clipImgSize''] (\<lambda>i x. i) clip;
     Some (r, full, clip) })"

section \<open>Reading what was written\<close>

fun last_member :: "(string \<times> Value) list \<Rightarrow> string \<Rightarrow> Value option" where
  "last_member [] j = None"
| "last_member ((k, x) # kvs) j =
     (case last_member kvs j of Some y \<Rightarrow> Some y | None \<Rightarrow> if cstr j = cstr k then Some x else None)"

lemma set_members_at:
  "object_ok v \<Longrightarrow> \<exists>v'. set_members kvs v = Some v' \<and> object_ok v' \<and>
     (\<forall>j. Value_at v' j = (case last_member kvs j of Some x \<Rightarrow> Some x | None \<Rightarrow> Value_at v j))"
proof (induction kvs v rule: set_members.induct)
  case (2 k x kvs v)
  obtain v1 where v1: "resolveReference_set v k x = Some v1" "object_ok v1"
    "\<forall>j. Value_at v1 j = (if cstr j = cstr k then Some x else Value_at v j)"
    using resolveReference_set_ok [OF 2(2)] by blast
  from 2(1) [OF v1(1,2)] obtain v2 where "set_members kvs v1 = Some v2" "object_ok v2"
    "\<forall>j. Value_at v2 j = (case last_member kvs j of Some x \<Rightarrow> Some x | None \<Rightarrow> Value_at v1 j)" by auto
  with v1 show ?case by (auto split: option.splits)
qed simp

lemma Value_at_null [simp]: "Value_at nullValue k = Some nullValue"
  by (simp add: Value_at_def)

lemma set_members_new:
  "\<exists>v'. set_members kvs nullValue = Some v' \<and> object_ok v' \<and>
     (\<forall>j. Value_at v' j = Some (case last_member kvs j of Some x \<Rightarrow> x | None \<Rightarrow> nullValue))"
  using set_members_at [of nullValue kvs] by (force split: option.splits)

lemma digits_uintToString: "list_all isdigit (uintToString n)" "uintToString n \<noteq> []"
proof (induction n rule: uintToString.induct)
  case (1 n)
  have d: "isdigit (digit_char k)" if "k < 10" for k using that by (simp add: isdigit_def of_char_digit)
  show "list_all isdigit (uintToString n)"
    using 1 by (subst uintToString.simps) (auto simp: d)
  show "uintToString n \<noteq> []" by (subst uintToString.simps) auto
qed

lemma scan_digits_print:
  assumes "r = [] \<or> \<not> isdigit (hd r)"
  shows "scan_digits (uintToString n @ r) = Some (n, r)"
proof -
  have t: "takeWhile isdigit (uintToString n @ r) = uintToString n" "dropWhile isdigit (uintToString n @ r) = r"
    using digits_uintToString(1) [of n] assms
    by (auto simp: list_all_iff takeWhile_eq_Nil_iff) (cases r; auto)+
  show ?thesis unfolding scan_digits_def t
    using digits_uintToString(2) [of n] uintToString_value [of n] by (auto split: list.splits)
qed

lemma digit_not: "isdigit c \<Longrightarrow> \<not> isspace c \<and> c \<noteq> CHR ''-'' \<and> c \<noteq> CHR ''+''"
  by (auto simp: isdigit_def isspace_def)

lemma scan_int_nat:
  assumes "r = [] \<or> \<not> isdigit (hd r)"
  shows "scan_int (uintToString n @ r) = Some (int n, r)"
proof -
  obtain c cs where c: "uintToString n = c # cs" "isdigit c"
    using digits_uintToString [of n] by (cases "uintToString n") auto
  then show ?thesis using digit_not [OF c(2)] scan_digits_print [OF assms, of n] by (simp add: scan_int_def)
qed

lemma scan_int_fmt:
  assumes "r = [] \<or> \<not> isdigit (hd r)"
  shows "scan_int (fmt_d v @ r) = Some (v, r)"
proof (cases "v < 0")
  case True
  then show ?thesis using scan_digits_print [OF assms, of "nat (- v)"]
    by (simp add: fmt_d_def scan_int_def isspace_def)
next
  case False
  then show ?thesis using scan_int_nat [OF assms, of "nat v"] by (simp add: fmt_d_def)
qed

lemma scan_zero_digit:
  assumes "d < 10" and "r = [] \<or> \<not> isdigit (hd r)"
  shows "scan_int (CHR ''0'' # uintToString d @ r) = Some (int d, r)"
proof -
  have u: "uintToString d = [digit_char d]" using assms(1) by (simp add: uintToString.simps)
  have d: "isdigit (digit_char d)" "isdigit (CHR ''0'')" using assms(1) by (simp_all add: isdigit_def of_char_digit)
  have t: "takeWhile isdigit (digit_char d # r) = [digit_char d]" "dropWhile isdigit (digit_char d # r) = r"
    using d assms(2) by (cases r; simp)+
  show ?thesis using d t assms(1)
    by (simp add: u scan_int_def scan_digits_def digit_not digits_value_def of_char_digit)
qed

lemma scan_int_fmt_02d:
  "r = [] \<or> \<not> isdigit (hd r) \<Longrightarrow> scan_int (fmt_02d v @ r) = Some (v, r)"
  using scan_zero_digit [of "nat v" r] scan_int_fmt [of r v] by (auto simp: fmt_02d_def fmt_d_def)

lemma dropWhile_space_fmt: "dropWhile isspace (fmt_02d v @ r) = fmt_02d v @ r"
proof -
  obtain c cs where c: "uintToString (nat (abs v)) = c # cs" "isdigit c"
    using digits_uintToString [of "nat (abs v)"] by (cases "uintToString (nat (abs v))") auto
  then show ?thesis using digit_not [OF c(2)]
    by (auto simp: fmt_02d_def fmt_d_def abs_if isspace_def split: if_splits)
qed

lemma sscanf_print_time:
  "sscanf time_format (print_time t) =
     [sint (nYear t), sint (nMonth t), sint (nMDay t), sint (nHour t), sint (nMin t), sint (nSec t)]"
proof -
  have nd: "\<not> isdigit (CHR ''-'')" "\<not> isdigit (CHR '':'')" "\<not> isdigit (CHR '' '')" "isspace (CHR '' '')"
    by (simp_all add: isdigit_def isspace_def)
  show ?thesis
    using scan_int_fmt_02d [of "[]"]
    by (simp add: time_format_def print_time_def scan_int_fmt scan_int_fmt_02d nd dropWhile_space_fmt)
qed

text \<open>The readers on an object that is known by its members.\<close>

lemma path_single [simp]: "path v [k] = Value_at v k"
  by (cases "Value_at v k") simp_all

lemma if_int_UInt:
  "Value_at v k = Some (Value_UInt n) \<Longrightarrow> unat n < 2 ^ 31 \<Longrightarrow> if_int v [k] f r = Some (f (uint n) r)"
proof -
  assume a: "Value_at v k = Some (Value_UInt n)" and "unat n < 2 ^ 31"
  then have "int (unat n) < int (2 ^ 31)" by (simp only: of_nat_less_iff)
  then have "uint n \<le> maxInt" by (simp add: maxInt_def)
  with a show ?thesis by (simp add: if_int_def Value_UInt_def isInt_def asInt_def uint_up_ucast is_up)
qed

lemma if_int_null: "Value_at v k = Some nullValue \<Longrightarrow> if_int v [k] f r = Some r"
  by (simp add: if_int_def isInt_def)

lemma cstr_idem [simp]: "cstr (cstr s) = cstr s"
  by (simp add: cstr_def)

lemma if_string_cstr:
  "Value_at v k = Some (Value_cstr s) \<Longrightarrow> if_string v [k] f r = f (cstr s) r"
  by (simp add: if_string_def Value_cstr_def isString_def asCString_def)

lemma cstr_append_NUL: "cstr (cstr s @ CHR 0x00 # t) = cstr s"
  by (simp add: cstr_def takeWhile_append)

lemma cstr_strncpy:
  assumes "length (cstr s) \<le> n" and "length dst = Suc n" and "dst ! n = CHR 0x00"
  shows "cstr (strncpy dst (cstr s) n) = cstr s"
proof (cases "length (cstr s) = n")
  case True
  then have "strncpy dst (cstr s) n = cstr s @ CHR 0x00 # []"
    using assms(2,3) by (simp add: strncpy_def Cons_nth_drop_Suc [symmetric])
  then show ?thesis by (simp add: cstr_append_NUL)
next
  case False
  then obtain k where "n = length (cstr s) + Suc k" using assms(1) by (metis add_Suc_right le_neq_implies_less less_imp_Suc_add)
  then have "strncpy dst (cstr s) n = cstr s @ CHR 0x00 # (replicate k (CHR 0x00) @ drop n dst)"
    by (simp add: strncpy_def)
  then show ?thesis by (simp only: cstr_append_NUL)
qed

lemma length_strncpy: "n \<le> length dst \<Longrightarrow> length (strncpy dst s n) = length dst"
  by (simp add: strncpy_def)

lemma of_int_sint16 [simp]: "(of_int (sint x) :: uint16) = x" for x :: uint16
  by simp

definition overflow :: "uint16 \<Rightarrow> uint16" where
  "overflow x = ucast (drop_bit 16 (of_int (sint x) :: uint32))"

lemma store_enable:
  "set_tm_mem (store_ints 0 [sint (nYear t), sint (nMonth t), sint (nMDay t), sint (nHour t), sint (nMin t), sint (nSec t)]
     (tm_mem w)) w =
   w\<lparr>struTMEnable := t, struTMOverdule := (struTMOverdule w)\<lparr>nYear := overflow (nSec t)\<rparr>,
     bUsingTimeSeg := bUsingTimeSeg (set_tm_mem (tm_mem w) w)\<rparr>"
  by (simp add: tm_mem_def VZ_TM_shorts_def set_tm_mem_def VZ_TM_of_def overflow_def eval_nat_numeral)

lemma VZ_TM_of_shorts: "VZ_TM_of (VZ_TM_shorts t @ m) = t"
  by (simp add: VZ_TM_of_def VZ_TM_shorts_def eval_nat_numeral)

lemma store_overdule:
  "\<exists>seg. set_tm_mem (store_ints 6 [sint (nYear t), sint (nMonth t), sint (nMDay t), sint (nHour t), sint (nMin t), sint (nSec t)]
     (tm_mem w)) w = w\<lparr>struTMOverdule := t, bUsingTimeSeg := seg\<rparr>"
proof -
  have "\<exists>a b. store_ints 6 [sint (nYear t), sint (nMonth t), sint (nMDay t), sint (nHour t), sint (nMin t), sint (nSec t)]
     (tm_mem w) = VZ_TM_shorts (struTMEnable w) @ VZ_TM_shorts t @ [a, b]"
    by (simp add: tm_mem_def VZ_TM_shorts_def eval_nat_numeral)
  moreover have "drop 6 (VZ_TM_shorts (struTMEnable w) @ VZ_TM_shorts t @ [a, b]) = VZ_TM_shorts t @ [a, b]" for a b
    by (simp add: VZ_TM_shorts_def)
  ultimately show ?thesis by (auto simp: set_tm_mem_def VZ_TM_of_shorts)
qed

section \<open>Properties\<close>

definition WLIST_VEHICLE_ok :: "VZ_LPR_WLIST_VEHICLE \<Rightarrow> bool" where
  "WLIST_VEHICLE_ok w \<longleftrightarrow>
     length (strPlateID w) = 32 \<and> strPlateID w ! 31 = CHR 0x00 \<and> length (strCode w) = 32 \<and> strCode w ! 31 = CHR 0x00 \<and>
     length (strComment w) = 64 \<and> strComment w ! 63 = CHR 0x00"

lemma length_cstr_less: "length s = Suc n \<Longrightarrow> s ! n = CHR 0x00 \<Longrightarrow> length (cstr s) \<le> n"
proof (rule ccontr)
  let ?P = "\<lambda>c. c \<noteq> CHR 0x00"
  assume s: "length s = Suc n" "s ! n = CHR 0x00" "\<not> length (cstr s) \<le> n"
  then have n: "n < length (takeWhile ?P s)" by (simp add: cstr_def)
  have "?P (takeWhile ?P s ! n)" using set_takeWhileD [OF nth_mem [OF n]] by simp
  then show False using takeWhile_nth [OF n] s(2) by simp
qed

lemma cstr_print_time: "cstr (print_time t) = print_time t"
proof -
  have "isdigit c \<Longrightarrow> c \<noteq> CHR 0x00" for c by (auto simp: isdigit_def)
  then have u: "c \<in> set (uintToString n) \<Longrightarrow> c \<noteq> CHR 0x00" for c n
    using digits_uintToString(1) [of n] by (auto simp: list_all_iff)
  have "c \<in> set (fmt_d v) \<Longrightarrow> c \<noteq> CHR 0x00" "c \<in> set (fmt_02d v) \<Longrightarrow> c \<noteq> CHR 0x00" for c v
    using u by (auto simp: fmt_d_def fmt_02d_def split: if_splits)
  then show ?thesis unfolding cstr_def by (subst takeWhile_eq_all_conv) (auto simp: print_time_def)
qed

lemma import_record_read:
  assumes "WLIST_VEHICLE_ok item" and "WLIST_VEHICLE_ok w"
    and "unat (uVehicleID item) < 2 ^ 31" and "unat (bEnable item) < 2 ^ 31"
    and "unat (bUsingTimeSeg item) < 2 ^ 31" and "unat (bAlarm item) < 2 ^ 31"
  shows "\<exists>v rec w'. GeneratImportWlistVehicleCmd item nullValue = Some v \<and> Value_at v ''dldb_rec'' = Some rec \<and>
    ParseWhiteListRecordResponse rec w = Some w' \<and>
    uVehicleID w' = uVehicleID item \<and> cstr (strPlateID w') = cstr (strPlateID item) \<and>
    bEnable w' = bEnable item \<and> struTMEnable w' = struTMEnable item \<and> struTMOverdule w' = struTMOverdule item \<and>
    bUsingTimeSeg w' = bUsingTimeSeg item \<and> bAlarm w' = bAlarm item \<and>
    cstr (strCode w') = cstr (strCode item) \<and> cstr (strComment w') = cstr (strComment item) \<and>
    uCustomerID w' = uCustomerID w"
proof -
  let ?kvs = "[(''index'', Value_UInt (uVehicleID item)), (''plate'', Value_cstr (strPlateID item)),
        (''customer_id'', Value_UInt (uCustomerID item)), (''enable'', Value_UInt (bEnable item)),
        (''enable_time'', Value_cstr (print_time (struTMEnable item))),
        (''overdue_time'', Value_cstr (print_time (struTMOverdule item))),
        (''time_seg_enable'', Value_UInt (bUsingTimeSeg item)), (''need_alarm'', Value_UInt (bAlarm item)),
        (''vehicle_code'', Value_cstr (strCode item)), (''vehicle_comment'', Value_cstr (strComment item))]"
  obtain rec where rec: "set_members ?kvs nullValue = Some rec"
    "\<forall>j. Value_at rec j = Some (case last_member ?kvs j of Some x \<Rightarrow> x | None \<Rightarrow> nullValue)"
    using set_members_new [of ?kvs] by auto
  obtain v1 where v1: "set_members [(''cmd'', Value_cstr ''white_list_operator''), (''operator_type'', Value_cstr ''update_or_add'')]
      nullValue = Some v1" "object_ok v1" using set_members_new by blast
  obtain v where v: "set_members [(''dldb_rec'', rec)] v1 = Some v" "Value_at v ''dldb_rec'' = Some rec"
    using set_members_at [OF v1(2), of "[(''dldb_rec'', rec)]"] by auto
  have gen: "GeneratImportWlistVehicleCmd item nullValue = Some v"
    using rec(1) v1(1) v(1) by (simp add: GeneratImportWlistVehicleCmd_def del: set_members.simps)
  have m: "Value_at rec ''index'' = Some (Value_UInt (uVehicleID item))" "Value_at rec ''plate'' = Some (Value_cstr (strPlateID item))"
    "Value_at rec ''ustomer_id'' = Some nullValue" "Value_at rec ''enable'' = Some (Value_UInt (bEnable item))"
    "Value_at rec ''enable_time'' = Some (Value_cstr (print_time (struTMEnable item)))"
    "Value_at rec ''overdue_time'' = Some (Value_cstr (print_time (struTMOverdule item)))"
    "Value_at rec ''time_seg_enable'' = Some (Value_UInt (bUsingTimeSeg item))"
    "Value_at rec ''need_alarm'' = Some (Value_UInt (bAlarm item))"
    "Value_at rec ''vehicle_code'' = Some (Value_cstr (strCode item))"
    "Value_at rec ''vehicle_comment'' = Some (Value_cstr (strComment item))"
    using rec(2) by (simp_all add: cstr_def)
  have len: "length (cstr (strPlateID item)) \<le> 31" "length (cstr (strCode item)) \<le> 31" "length (cstr (strComment item)) \<le> 63"
    using assms(1) length_cstr_less by (simp_all add: WLIST_VEHICLE_ok_def)
  note str = cstr_strncpy [OF len(1)] cstr_strncpy [OF len(2)] cstr_strncpy [OF len(3)]
  obtain seg where seg: "\<And>w. set_tm_mem (store_ints 6 (sscanf time_format (print_time (struTMOverdule item))) (tm_mem w)) w =
      w\<lparr>struTMOverdule := struTMOverdule item, bUsingTimeSeg := seg w\<rparr>"
    unfolding sscanf_print_time using store_overdule by metis
  note enable = store_enable [of "struTMEnable item", folded sscanf_print_time]
  show ?thesis
    using assms(2) str
    by - (rule exI [of _ v], rule exI [of _ rec],
       simp add: gen v(2) ParseWhiteListRecordResponse_def if_int_UInt [OF m(1) assms(3)] if_string_cstr [OF m(2)]
         if_int_null [OF m(3)] if_int_UInt [OF m(4) assms(4)] if_string_cstr [OF m(5)] if_string_cstr [OF m(6)]
         if_int_UInt [OF m(7) assms(5)] if_int_UInt [OF m(8) assms(6)] if_string_cstr [OF m(9)] if_string_cstr [OF m(10)]
         cstr_print_time seg enable WLIST_VEHICLE_ok_def VZ_LPR_WLIST_LP_MAX_LEN_def
         VZ_LPR_WLIST_VEHICLE_CODE_LEN_def VZ_LPR_WLIST_VEHICLE_COMMENT_LEN_def)
qed

text \<open>
  A white list entry that was written into an import command and is read
  back from its record has the same number, plate, flags, times, code and comment, for all
  entries with terminated strings and flags below \<open>2 ^ 31\<close>; the customer number is never read
  back, because the reader asks for another member name than the writer uses.
\<close>

theorem whitelist_record_roundtrip:
  assumes "WLIST_VEHICLE_ok item" and "WLIST_VEHICLE_ok w"
    and "unat (uVehicleID item) < 2 ^ 31" and "unat (bEnable item) < 2 ^ 31"
    and "unat (bUsingTimeSeg item) < 2 ^ 31" and "unat (bAlarm item) < 2 ^ 31"
  shows "\<exists>v rec w'. GeneratImportWlistVehicleCmd item nullValue = Some v \<and> Value_at v ''dldb_rec'' = Some rec \<and>
    ParseWhiteListRecordResponse rec w = Some w' \<and>
    uVehicleID w' = uVehicleID item \<and> cstr (strPlateID w') = cstr (strPlateID item) \<and>
    bEnable w' = bEnable item \<and> struTMEnable w' = struTMEnable item \<and> struTMOverdule w' = struTMOverdule item \<and>
    bUsingTimeSeg w' = bUsingTimeSeg item \<and> bAlarm w' = bAlarm item \<and>
    cstr (strCode w') = cstr (strCode item) \<and> cstr (strComment w') = cstr (strComment item) \<and>
    uCustomerID w' = uCustomerID w"
  by (rule import_record_read [OF assms])

definition demo_vehicle :: VZ_LPR_WLIST_VEHICLE where
  "demo_vehicle = \<lparr>uVehicleID = 7, strPlateID = ''A1'' @ replicate 30 (CHR 0x00), uCustomerID = 5, bEnable = 1,
     bEnableTMEnable = 1, bEnableTMOverdule = 1,
     struTMEnable = \<lparr>nYear = 2016, nMonth = 5, nMDay = 1, nHour = 0, nMin = 30, nSec = 59\<rparr>,
     struTMOverdule = \<lparr>nYear = 2017, nMonth = 5, nMDay = 1, nHour = 0, nMin = 30, nSec = 59\<rparr>,
     bUsingTimeSeg = 0, bAlarm = 1, iColor = 0, iPlateType = 0, strCode = replicate 32 (CHR 0x00),
     strComment = replicate 64 (CHR 0x00)\<rparr>"

lemma demo_vehicle_ok: "WLIST_VEHICLE_ok demo_vehicle"
  by (simp add: demo_vehicle_def WLIST_VEHICLE_ok_def nth_append)

theorem whitelist_record_roundtrip_witness:
  "\<exists>v rec w'. GeneratImportWlistVehicleCmd demo_vehicle nullValue = Some v \<and> Value_at v ''dldb_rec'' = Some rec \<and>
    ParseWhiteListRecordResponse rec (demo_vehicle\<lparr>uCustomerID := 0, bAlarm := 0\<rparr>) = Some w' \<and>
    bAlarm w' = 1 \<and> uCustomerID w' = 0"
proof -
  have "WLIST_VEHICLE_ok (demo_vehicle\<lparr>uCustomerID := 0, bAlarm := 0\<rparr>)"
    using demo_vehicle_ok by (simp add: WLIST_VEHICLE_ok_def)
  from whitelist_record_roundtrip [OF demo_vehicle_ok this] show ?thesis
    by (fastforce simp: demo_vehicle_def)
qed

text \<open>What holds of every result of a parser, if it has one.\<close>

definition valid :: "('r \<Rightarrow> bool) \<Rightarrow> 'r option \<Rightarrow> bool" where
  "valid P m \<longleftrightarrow> (\<forall>r. m = Some r \<longrightarrow> P r)"

lemma valid_bind: "valid P m \<Longrightarrow> (\<And>x. P x \<Longrightarrow> valid P (k x)) \<Longrightarrow> valid P (m \<bind> k)"
  by (cases m) (auto simp: valid_def)

lemma valid_if_int: "P r \<Longrightarrow> (\<And>i. P (f i r)) \<Longrightarrow> valid P (if_int v ks f r)"
  by (auto simp: valid_def if_int_def bind_eq_Some_conv split: if_splits)

lemma valid_if_string: "P r \<Longrightarrow> (\<And>s. valid P (f s r)) \<Longrightarrow> valid P (if_string v ks f r)"
  by (auto simp: valid_def if_string_def bind_eq_Some_conv split: if_splits)

lemma valid_map: "(\<And>x. P (f x)) \<Longrightarrow> valid P (map_option f m)"
  by (auto simp: valid_def)

lemma ParsePlate_license:
  assumes "Value_at plate ''license'' = Some (Value_cstr s)" and "length (cstr s) < length (license r)"
  shows "valid (\<lambda>x. cstr (license x) = cstr s) (ParsePlate plate r)"
proof -
  obtain a where a: "strcpy (license r) (cstr s) = Some a" "cstr a = cstr s"
    using assms(2) by (simp add: strcpy_def cstr_append_NUL)
  show ?thesis unfolding ParsePlate_def if_string_cstr [OF assms(1)] a(1)
    by (simp only: option.map Option.bind.simps)
       (intro valid_bind valid_if_int valid_if_string valid_map; simp add: a(2))
qed

lemma ParsePlate_overflow:
  "Value_at plate ''license'' = Some (Value_cstr s) \<Longrightarrow> length (license r) \<le> length (cstr s) \<Longrightarrow> ParsePlate plate r = None"
  by (simp add: ParsePlate_def if_string_cstr strcpy_def)

text \<open>
  The plate of a result is copied into an array of sixteen characters without
  a check: a device that reports a longer one makes the parser write behind the array.
  Shorter ones are copied whole.
\<close>

theorem license_copy_overflows:
  assumes "length (license r) = 16" and "Value_at v ''PlateResult'' = Some plate"
    and "Value_at plate ''license'' = Some (Value_cstr s)"
  shows "(16 \<le> length (cstr s) \<longrightarrow> ParsePlateResultResponse v (r, full, clip) = None) \<and>
    (length (cstr s) < 16 \<longrightarrow>
      (\<forall>r' full' clip'. ParsePlateResultResponse v (r, full, clip) = Some (r', full', clip') \<longrightarrow>
        cstr (license r') = cstr s))"
proof (intro conjI impI allI)
  assume "16 \<le> length (cstr s)"
  then show "ParsePlateResultResponse v (r, full, clip) = None"
    using ParsePlate_overflow [OF assms(3), of r] assms(1,2) by (simp add: ParsePlateResultResponse_def)
next
  fix r' full' clip'
  assume "length (cstr s) < 16"
    and p: "ParsePlateResultResponse v (r, full, clip) = Some (r', full', clip')"
  then have "valid (\<lambda>x. cstr (license x) = cstr s) (ParsePlate plate r)"
    using ParsePlate_license [OF assms(3)] assms(1) by simp
  then have "valid (\<lambda>x. cstr (license x) = cstr s)
      (do { r \<leftarrow> ParsePlate plate r; r \<leftarrow> if_int v [''id''] (\<lambda>i r. r\<lparr>uId := of_int i\<rparr>) r;
            if_string v [''timeString''] (\<lambda>s r. Some (set_BDTime (sscanf time_format s) r)) r })"
    by (intro valid_bind valid_if_int valid_if_string) (auto simp: valid_def set_BDTime_def)
  with p assms(2) show "cstr (license r') = cstr s"
    by (auto simp: ParsePlateResultResponse_def valid_def bind_eq_Some_conv)
qed

definition demo_plate :: TH_PlateResult where
  "demo_plate = \<lparr>license = replicate 16 (CHR 0x00), plate_color = replicate 8 (CHR 0x00), nColor = 0, nType = 0,
     nConfidence = 0, nBright = 0, nDirection = 0,
     rcLocation = \<lparr>rect_left = 0, rect_top = 0, rect_right = 0, rect_bottom = 0\<rparr>, nTime = 0, uTVSec = 0, uTVUSec = 0,
     uBitsTrigType = 0, nCarBright = 0, nCarColor = 0, uId = 0,
     struBDTime = \<lparr>bdt_sec = 0, bdt_min = 0, bdt_hour = 0, bdt_mday = 0, bdt_mon = 0, bdt_year = 0\<rparr>\<rparr>"

theorem license_copy_overflows_witness:
  "ParsePlateResultResponse
     (objectValue [(''PlateResult'', objectValue [(''license'', Value_cstr ''0123456789ABCDEF'')])]) (demo_plate, 0, 0) = None"
  using license_copy_overflows [of demo_plate
      "objectValue [(''PlateResult'', objectValue [(''license'', Value_cstr ''0123456789ABCDEF'')])]"
      "objectValue [(''license'', Value_cstr ''0123456789ABCDEF'')]" "''0123456789ABCDEF''" 0 0]
  by (simp add: demo_plate_def Value_at_def cstr_def)

end
