(* ===== verification/Vz_Sessionmanager.thy ===== *)
theory Vz_Sessionmanager
  imports Vz_Session Vz_Internalmessage
begin

text \<open>
  \<^verbatim>\<open>src/src/vzsdk/sessionmanager.{h,cpp}\<close>: the async layer.  It owns the sessions by their
  number, carries out the requests of the queue layer on them and turns their signals
  into messages for the queue layer.  A handler returns the new state and its effects in
  order, and \<open>None\<close> where the code casts the message data to a class it does not have.
  Arguments: \<open>fmt_g\<close> prints a double, \<open>parse\<close> is \<^verbatim>\<open>Json::Reader::parse\<close> on the text (\<open>None\<close> for
  a syntax error), \<open>st\<close> the state \<^verbatim>\<open>Connect\<close> leaves the socket in and \<open>sent\<close> what \<^verbatim>\<open>Send\<close> returns.
\<close>

section \<open>State\<close>

record SessionManager =
  async_thread :: bool
  async_sessions :: "(uint32 \<times> session) list"
  unequal_session_id :: uint32

datatype sm_effect =
    QueuePost uint32 Stanza
  | SessionEffect uint32 session_event
  | AsyncPostDelayed int uint32 Stanza
  | AsyncThreadStart
  | AsyncThreadStop
  | LogReaderError

type_synonym sm_result = "SessionManager \<times> sm_effect list"

definition SessionManager_new :: "uint32 \<Rightarrow> SessionManager" where
  "SessionManager_new counter = \<lparr>async_thread = False, async_sessions = [], unequal_session_id = counter\<rparr>"

definition InitAsyncThread :: "bool \<Rightarrow> SessionManager \<Rightarrow> bool \<times> sm_result" where
  "InitAsyncThread started m =
     (if async_thread m then (False, m, []) else (started, m\<lparr>async_thread := True\<rparr>, [AsyncThreadStart]))"

definition SessionManager_Start :: "bool \<Rightarrow> SessionManager \<Rightarrow> bool \<times> sm_result" where
  "SessionManager_Start started m = InitAsyncThread started m"

section \<open>The map of sessions\<close>

text \<open>
  The signals of a session reach the manager exactly while it is in the map, so binding
  and unbinding them is the insertion and the removal.
\<close>

definition AddSession :: "session \<Rightarrow> SessionManager \<Rightarrow> bool \<times> SessionManager" where
  "AddSession s m =
     (if stdmap_find (session_id s) (async_sessions m) \<noteq> None then (False, m)
      else (True, m\<lparr>async_sessions := stdmap_insert (session_id s) s (async_sessions m)\<rparr>))"

definition RemoveSession :: "uint32 \<Rightarrow> SessionManager \<Rightarrow> bool \<times> SessionManager" where
  "RemoveSession sid m =
     (if stdmap_find sid (async_sessions m) = None then (False, m)
      else (True, m\<lparr>async_sessions := stdmap_erase sid (async_sessions m)\<rparr>))"

definition FindSession :: "uint32 \<Rightarrow> SessionManager \<Rightarrow> session option" where
  "FindSession sid m = stdmap_find sid (async_sessions m)"

text \<open>A call on the session object that the map holds: the object is updated in place.\<close>

definition update_session :: "uint32 \<Rightarrow> session \<Rightarrow> SessionManager \<Rightarrow> SessionManager" where
  "update_session sid s m = m\<lparr>async_sessions := stdmap_set sid s (async_sessions m)\<rparr>"

text \<open>The sessions that are connected are stopped; then the map is cleared.\<close>

primrec stop_sessions :: "(uint32 \<times> session) list \<Rightarrow> sm_effect list" where
  "stop_sessions [] = []"
| "stop_sessions (e # es) =
     (if Session_GetState (snd e) = CS_CONNECTED
      then map (SessionEffect (fst e)) (snd (snd (Session_Stop (snd e)))) else []) @ stop_sessions es"

definition SessionManager_Stop :: "SessionManager \<Rightarrow> bool \<times> sm_result" where
  "SessionManager_Stop m =
     (True, m\<lparr>async_sessions := []\<rparr>, stop_sessions (async_sessions m) @ [AsyncThreadStop])"

section \<open>Requests from the queue layer\<close>

definition OnConnectMessage ::
  "ConnState \<Rightarrow> SessionManager \<Rightarrow> uint32 \<Rightarrow> Stanza \<Rightarrow> sm_result option" where
  "OnConnectMessage st m mid d =
     (case stanza_body d of
        ConnectBody addr \<Rightarrow>
          (case Session_new (unequal_session_id m) 0 of (s, counter) \<Rightarrow>
             case Session_Start s addr mid st of (r, s', ev) \<Rightarrow>
               let m1 = m\<lparr>unequal_session_id := counter\<rparr>;
                   (add_res, m2) = AddSession s m1
               in Some (if add_res then update_session (session_id s) s' m2 else m2,
                        map (SessionEffect (session_id s)) ev))
      | _ \<Rightarrow> None)"

definition OnDisconnectMessage :: "SessionManager \<Rightarrow> uint32 \<Rightarrow> Stanza \<Rightarrow> sm_result option" where
  "OnDisconnectMessage m mid d =
     (case FindSession (stanza_session d) m of
        Some s \<Rightarrow>
          (case Session_Stop s of (r, s', ev) \<Rightarrow>
             let m1 = snd (RemoveSession (stanza_session d) (update_session (stanza_session d) s' m))
             in Some (m1, map (SessionEffect (session_id s)) ev @
                          [QueuePost mid (Stanza_new RES_DISCONNECTED_EVENT_SUCCEED (session_id s'))]))
      | None \<Rightarrow>
          Some (m, [QueuePost mid (Stanza_new RES_DISCONNECTED_EVENT_FAILURE (stanza_session d))]))"

definition OnRequestMessage ::
  "host_order \<Rightarrow> (rat \<Rightarrow> string) \<Rightarrow> nat option \<Rightarrow> SessionManager \<Rightarrow> uint32 \<Rightarrow> Stanza \<Rightarrow> sm_result option" where
  "OnRequestMessage h fmt_g sent m mid d =
     (case stanza_body d of
        RequestBody req_json is_push \<Rightarrow>
          (case FindSession (stanza_session d) m of
             Some s \<Rightarrow>
               let req_str = bytes_of_string (FastWriter_write fmt_g req_json) in
               (case AsyncWrite h s (Some req_str) (of_nat (length req_str)) PACKET_TYPE_JSON sent of (s', ev) \<Rightarrow>
                  Some (update_session (stanza_session d) s' m,
                        map (SessionEffect (session_id s)) ev @
                        (if is_push then [QueuePost mid (Stanza_new RES_PUSH_SUCCEED (stanza_session d))] else [])))
           | None \<Rightarrow> Some (m, [QueuePost mid (Stanza_new RES_SESSION_NOT_FOUND (stanza_session d))]))
      | _ \<Rightarrow> None)"

text \<open>The attempt is repeated every two seconds; a session that is not closed is left alone.\<close>

definition OnReconnectMessage ::
  "ConnState \<Rightarrow> SessionManager \<Rightarrow> uint32 \<Rightarrow> Stanza \<Rightarrow> sm_result option" where
  "OnReconnectMessage st m mid d =
     (case stanza_body d of
        ConnectBody addr \<Rightarrow>
          let session_ptr = FindSession (stanza_session d) m;
              again = AsyncPostDelayed 2000 mid d
          in if \<not> (case session_ptr of Some s \<Rightarrow> Session_GetState s = CS_CLOSED | None \<Rightarrow> True)
             then Some (m, [again])
             else (case Session_new (unequal_session_id m) (stanza_session d) of (s, counter) \<Rightarrow>
                     case Session_Start s addr (stanza_session d) st of (r, s', ev) \<Rightarrow>
                       let m1 = m\<lparr>unequal_session_id := counter\<rparr>;
                           (add_res, m2) = AddSession s m1
                       in Some (if add_res then update_session (session_id s) s' m2 else m2,
                                again # map (SessionEffect (session_id s)) ev))
      | _ \<Rightarrow> None)"

definition OnRemoveSessionMessage :: "SessionManager \<Rightarrow> Stanza \<Rightarrow> sm_result" where
  "OnRemoveSessionMessage m d = (snd (RemoveSession (stanza_session d) m), [])"

definition SessionManager_OnMessage ::
  "host_order \<Rightarrow> (rat \<Rightarrow> string) \<Rightarrow> ConnState \<Rightarrow> nat option \<Rightarrow> SessionManager \<Rightarrow> uint32 \<Rightarrow> Stanza \<Rightarrow> sm_result option" where
  "SessionManager_OnMessage h fmt_g st sent m mid d =
     (if stanza_type d = RES_RECONNECT_EVENT then OnReconnectMessage st m mid d
      else if stanza_type d = REQ_CONNECT_SERVER then OnConnectMessage st m mid d
      else if stanza_type d = REQ_DISCONNECT_SERVER then OnDisconnectMessage m mid d
      else if stanza_type d = REQ_SEND_REQUESTION then OnRequestMessage h fmt_g sent m mid d
      else if stanza_type d = REQ_REMOVE_SESSION_EVENT then Some (OnRemoveSessionMessage m d)
      else Some (m, []))"

section \<open>Signals of the sessions\<close>

fun FindEndString :: "bytes \<Rightarrow> nat" where
  "FindEndString [] = 0"
| "FindEndString (b # data) = (if b = 0 then 0 else Suc (FindEndString data))"

definition OnSessionPacketEvent :: "(string \<Rightarrow> Value option) \<Rightarrow> uint32 \<Rightarrow> bytes \<Rightarrow> sm_effect list" where
  "OnSessionPacketEvent parse sid data =
     (case parse (string_of_bytes (take (FindEndString data) data)) of
        None \<Rightarrow> [LogReaderError]
      | Some json_res \<Rightarrow> [QueuePost 0 (ResponseData_new sid json_res (string_of_bytes data))])"

definition OnSessionConnectedEvent :: "uint32 \<Rightarrow> uint32 \<Rightarrow> sm_effect list" where
  "OnSessionConnectedEvent sid cid = [QueuePost cid (Stanza_new RES_CONNECTED_EVENT sid)]"

definition OnSessionCloseEvent :: "uint32 \<Rightarrow> int \<Rightarrow> uint32 \<Rightarrow> sm_effect list" where
  "OnSessionCloseEvent sid code cid =
     [QueuePost cid (Stanza_new REQ_REMOVE_SESSION_EVENT sid),
      QueuePost cid (Stanza_new RES_DISCONNECTED_EVENT_FAILURE sid)]"

text \<open>What one event of a bound session does: a signal runs its slot.\<close>

fun session_slot :: "(string \<Rightarrow> Value option) \<Rightarrow> uint32 \<Rightarrow> session_event \<Rightarrow> sm_effect list" where
  "session_slot parse key (SignalSessionPacketEvent sid data ty) = OnSessionPacketEvent parse sid data"
| "session_slot parse key (SignalSessionConnectedEvent sid cid) = OnSessionConnectedEvent sid cid"
| "session_slot parse key (SignalSessionCloseEvent sid code cid) = OnSessionCloseEvent sid code cid"
| "session_slot parse key ev = [SessionEffect key ev]"

definition session_slots :: "(string \<Rightarrow> Value option) \<Rightarrow> uint32 \<Rightarrow> session_event list \<Rightarrow> sm_effect list" where
  "session_slots parse key evs = concat (map (session_slot parse key) evs)"

section \<open>Runs of the async thread\<close>

text \<open>
  A step is a message of the queue layer, or an event of the socket or the timer of a
  session that is in the map.
\<close>

inductive manager_step ::
  "host_order \<Rightarrow> (rat \<Rightarrow> string) \<Rightarrow> (nat \<Rightarrow> uint32) \<Rightarrow> (string \<Rightarrow> Value option) \<Rightarrow>
     SessionManager \<Rightarrow> SessionManager \<Rightarrow> sm_effect list \<Rightarrow> bool"
  for h fmt_g tm parse where
  message: "SessionManager_OnMessage h fmt_g st sent m mid d = Some (m', es) \<Longrightarrow>
    (\<forall>k ev. SessionEffect k ev \<in> set es \<longrightarrow> send_contract ev) \<Longrightarrow>
    (\<forall>v p. stanza_body d = RequestBody v p \<longrightarrow> length (FastWriter_write fmt_g v) < 2 ^ 32) \<Longrightarrow>
    manager_step h fmt_g tm parse m m' es"
| event: "FindSession k m = Some s \<Longrightarrow> session_step h tm s x s' ev \<Longrightarrow>
    manager_step h fmt_g tm parse m (update_session k s' m) (session_slots parse k ev)"
| stop: "SessionManager_Stop m = (r, m', es) \<Longrightarrow> manager_step h fmt_g tm parse m m' es"

inductive manager_run ::
  "host_order \<Rightarrow> (rat \<Rightarrow> string) \<Rightarrow> (nat \<Rightarrow> uint32) \<Rightarrow> (string \<Rightarrow> Value option) \<Rightarrow>
     SessionManager \<Rightarrow> SessionManager \<Rightarrow> sm_effect list \<Rightarrow> bool"
  for h fmt_g tm parse where
  run_nil: "manager_run h fmt_g tm parse m m []"
| run_snoc: "manager_run h fmt_g tm parse m m1 es \<Longrightarrow> manager_step h fmt_g tm parse m1 m2 es' \<Longrightarrow>
    manager_run h fmt_g tm parse m m2 (es @ es')"


section \<open>The invariant\<close>

definition SessionManager_ok :: "SessionManager \<Rightarrow> bool" where
  "SessionManager_ok m \<longleftrightarrow> stdmap_ok (async_sessions m) \<and>
     (\<forall>k s. FindSession k m = Some s \<longrightarrow> session_id s = k \<and> session_ok s)"

lemma SessionManager_okD:
  "SessionManager_ok m \<Longrightarrow> FindSession k m = Some s \<Longrightarrow> session_id s = k \<and> session_ok s"
  by (simp add: SessionManager_ok_def)

lemma FindSession_update [simp]:
  "SessionManager_ok m \<Longrightarrow> FindSession j (update_session k s m) = (if j = k then Some s else FindSession j m)"
  by (simp add: SessionManager_ok_def FindSession_def update_session_def sm_find)

lemma FindSession_Remove:
  "stdmap_ok (async_sessions m) \<Longrightarrow>
   FindSession j (snd (RemoveSession k m)) = (if j = k then None else FindSession j m)"
  by (auto simp: FindSession_def RemoveSession_def sm_find)

lemma FindSession_Add:
  "stdmap_ok (async_sessions m) \<Longrightarrow> AddSession s m = (r, m') \<Longrightarrow>
   FindSession j m' = (if j = session_id s \<and> r then Some s else FindSession j m) \<and>
   (r \<longleftrightarrow> FindSession (session_id s) m = None)"
  by (auto simp: FindSession_def AddSession_def sm_find split: if_splits)

lemma update_session_ok:
  "SessionManager_ok m \<Longrightarrow> session_id s = k \<Longrightarrow> session_ok s \<Longrightarrow> SessionManager_ok (update_session k s m)"
  by (auto simp: SessionManager_ok_def FindSession_def update_session_def sm_find sm_inv)

lemma RemoveSession_ok: "SessionManager_ok m \<Longrightarrow> SessionManager_ok (snd (RemoveSession k m))"
  by (auto simp: SessionManager_ok_def FindSession_def RemoveSession_def sm_find sm_inv)

lemma counter_ok [simp]:
  "SessionManager_ok (m\<lparr>unequal_session_id := c\<rparr>) = SessionManager_ok m"
  "FindSession k (m\<lparr>unequal_session_id := c\<rparr>) = FindSession k m"
  by (simp_all add: SessionManager_ok_def FindSession_def)

lemma AddSession_ok:
  "SessionManager_ok m \<Longrightarrow> session_ok s \<Longrightarrow> AddSession s m = (r, m') \<Longrightarrow> SessionManager_ok m'"
  by (auto simp: SessionManager_ok_def FindSession_def AddSession_def sm_find sm_inv split: if_splits)

lemma Session_Stop_ok:
  "Session_Stop s = (r, s', ev) \<Longrightarrow> session_id s' = session_id s \<and> session_ok s' = session_ok s"
  by (auto simp: Session_Stop_def UinitSocket_def Let_def session_ok_def split: if_splits)

lemma Session_Start_ok:
  "Session_Start s addr cid st = (r, s', ev) \<Longrightarrow> session_id s' = session_id s \<and> session_ok s' = session_ok s"
  by (auto simp: Session_Start_def InitSocket_def Let_def session_ok_def split: if_splits)

lemma TryToWriteData_id: "TryToWriteData s sent = (s', ev) \<Longrightarrow> session_id s' = session_id s"
  by (auto simp: TryToWriteData_def Let_def split: if_splits option.splits)

lemma AsyncWrite_id: "AsyncWrite h s d n t sent = (s', ev) \<Longrightarrow> session_id s' = session_id s"
  by (auto simp: AsyncWrite_def Let_def dest!: TryToWriteData_id)

lemma AsyncWaitNextHeadrtbeatEvent_id:
  "AsyncWaitNextHeadrtbeatEvent tm s = (s', ev) \<Longrightarrow> session_id s' = session_id s"
  by (auto simp: AsyncWaitNextHeadrtbeatEvent_def read_Time_def OnCloseEvent_def UinitSocket_def Let_def
      split: if_splits)

lemma OnReadEvent_id:
  assumes "session_ok s" and "OnReadEvent h tm s recvs = (s', ev)"
  shows "session_id s' = session_id s"
proof -
  obtain ps rest where pf: "parse_frames (buf_data (read_buffer s) @ concat recvs) = (ps, rest)" by fastforce
  obtain s1 e1 where hp: "handle_packets tm s ps = (s1, e1)" by fastforce
  obtain m c where "s1 = set_clock m c s" using handle_packets_frame [of tm s ps] hp by auto
  then show ?thesis using OnReadEvent_spec [OF assms(1) pf hp, of h] assms(2) by auto
qed

lemma session_step_id:
  assumes "session_step h tm s x s' ev" and "session_ok s"
  shows "session_id s' = session_id s"
  using assms(1)
proof cases
  case (timer sent)
  then obtain s1 e1 e2 where "AsyncWrite h s None 0 PACKET_TYPE_HEARTBEAT sent = (s1, e1)"
    "AsyncWaitNextHeadrtbeatEvent tm s1 = (s', e2)"
    by (auto simp: Session_OnMessage_def WriteHeartbeat_def split: prod.splits)
  then show ?thesis using AsyncWrite_id AsyncWaitNextHeadrtbeatEvent_id by metis
next
  case connected
  then show ?thesis
    by (auto simp: OnConnectEvent_def split: prod.splits dest: AsyncWaitNextHeadrtbeatEvent_id)
qed (use assms(2) in \<open>auto simp: OnWriteEvent_def OnCloseEvent_def UinitSocket_def Let_def
      dest: Session_Start_ok Session_Stop_ok OnReadEvent_id TryToWriteData_id AsyncWrite_id\<close>)

text \<open>The two handlers that create a session.\<close>

lemma start_session_ok:
  assumes ok: "SessionManager_ok m" and new: "Session_new c sid = (s, counter)"
    and start: "Session_Start s addr cid st = (r, s', ev)"
    and add: "AddSession s (m\<lparr>unequal_session_id := counter\<rparr>) = (add_res, m2)"
  shows "SessionManager_ok (if add_res then update_session (session_id s) s' m2 else m2)"
proof -
  have s: "session_ok s" using Session_new_ok [of c sid] new by simp
  have "SessionManager_ok m2" using AddSession_ok [OF _ s add] ok by simp
  then show ?thesis using Session_Start_ok [OF start] s update_session_ok by auto
qed

lemma OnConnectMessage_ok:
  "SessionManager_ok m \<Longrightarrow> OnConnectMessage st m mid d = Some (m', es) \<Longrightarrow> SessionManager_ok m'"
  by (auto simp: OnConnectMessage_def Let_def split: stanza_body.splits prod.splits if_splits
      dest: start_session_ok)

lemma OnReconnectMessage_ok:
  "SessionManager_ok m \<Longrightarrow> OnReconnectMessage st m mid d = Some (m', es) \<Longrightarrow> SessionManager_ok m'"
  by (auto simp: OnReconnectMessage_def Let_def split: stanza_body.splits prod.splits if_splits option.splits
      dest: start_session_ok)

lemma OnDisconnectMessage_ok:
  assumes "SessionManager_ok m" and "OnDisconnectMessage m mid d = Some (m', es)"
  shows "SessionManager_ok m'"
proof (cases "FindSession (stanza_session d) m")
  case (Some s)
  obtain r s' ev where st: "Session_Stop s = (r, s', ev)" by (metis prod.exhaust)
  have "SessionManager_ok (update_session (stanza_session d) s' m)"
    using SessionManager_okD [OF assms(1) Some] Session_Stop_ok [OF st] assms(1) by (intro update_session_ok) auto
  then show ?thesis using assms(2) Some st RemoveSession_ok by (auto simp: OnDisconnectMessage_def Let_def)
qed (use assms in \<open>simp add: OnDisconnectMessage_def\<close>)


lemma OnRequestMessage_write:
  assumes ok: "SessionManager_ok m" and body: "stanza_body d = RequestBody v push"
    and s: "FindSession (stanza_session d) m = Some s" and len: "length (FastWriter_write fmt_g v) < 2 ^ 32"
    and res: "OnRequestMessage h fmt_g sent m mid d = Some (m', es)"
    and sends: "\<forall>k ev. SessionEffect k ev \<in> set es \<longrightarrow> send_contract ev"
  obtains s' ev where "m' = update_session (stanza_session d) s' m"
    "es = map (SessionEffect (stanza_session d)) ev @
       (if push then [QueuePost mid (Stanza_new RES_PUSH_SUCCEED (stanza_session d))] else [])"
    "session_ok s'" "session_id s' = stanza_session d"
    "wire ev @ buf_data (write_buffer s') =
       buf_data (write_buffer s) @ frame PACKET_TYPE_JSON (bytes_of_string (FastWriter_write fmt_g v))"
proof -
  let ?p = "bytes_of_string (FastWriter_write fmt_g v)"
  have sid: "session_id s = stanza_session d" "session_ok s" using SessionManager_okD [OF ok s] by auto
  obtain s' ev where w: "AsyncWrite h s (Some ?p) (of_nat (length ?p)) PACKET_TYPE_JSON sent = (s', ev)" by fastforce
  have r: "m' = update_session (stanza_session d) s' m"
    "es = map (SessionEffect (stanza_session d)) ev @
       (if push then [QueuePost mid (Stanza_new RES_PUSH_SUCCEED (stanza_session d))] else [])"
    using res w by (auto simp: OnRequestMessage_def body s sid Let_def)
  have n: "length ?p = unat (of_nat (length ?p) :: uint32)" using len by (simp add: unat_of_nat)
  have c: "list_all send_contract ev" using sends r(2) by (auto simp: list_all_iff)
  show thesis
    using that [OF r] AsyncWrite_spec [OF sid(2) _ n w c] AsyncWrite_id [OF w] sid by auto
qed

lemma OnRequestMessage_none:
  "stanza_body d = RequestBody v push \<Longrightarrow> FindSession (stanza_session d) m = None \<Longrightarrow>
   OnRequestMessage h fmt_g sent m mid d = Some (m, [QueuePost mid (Stanza_new RES_SESSION_NOT_FOUND (stanza_session d))])"
  by (simp add: OnRequestMessage_def)

lemma OnRequestMessage_ok:
  assumes "SessionManager_ok m" and "OnRequestMessage h fmt_g sent m mid d = Some (m', es)"
    and "\<forall>k ev. SessionEffect k ev \<in> set es \<longrightarrow> send_contract ev"
    and "\<forall>v p. stanza_body d = RequestBody v p \<longrightarrow> length (FastWriter_write fmt_g v) < 2 ^ 32"
  shows "SessionManager_ok m'"
proof -
  obtain v p where b: "stanza_body d = RequestBody v p"
    using assms(2) by (cases "stanza_body d") (auto simp: OnRequestMessage_def)
  show ?thesis
  proof (cases "FindSession (stanza_session d) m")
    case (Some s)
    have "length (FastWriter_write fmt_g v) < 2 ^ 32" using assms(4) b by blast
    then show ?thesis
      using OnRequestMessage_write [OF assms(1) b Some _ assms(2,3)] update_session_ok [OF assms(1)] by metis
  qed (use assms(1,2) OnRequestMessage_none [OF b] in auto)
qed

lemma manager_step_ok:
  assumes "manager_step h fmt_g tm parse m m' es" and "SessionManager_ok m"
  shows "SessionManager_ok m'"
  using assms(1)
proof cases
  case (message st sent mid d)
  from message(1) consider "OnReconnectMessage st m mid d = Some (m', es)"
    | "OnConnectMessage st m mid d = Some (m', es)" | "OnDisconnectMessage m mid d = Some (m', es)"
    | "OnRequestMessage h fmt_g sent m mid d = Some (m', es)"
    | "m' = snd (RemoveSession (stanza_session d) m)" | "m' = m"
    unfolding SessionManager_OnMessage_def OnRemoveSessionMessage_def by (simp split: if_split_asm)
  then show ?thesis
  proof cases
    case 4
    then show ?thesis using OnRequestMessage_ok [OF assms(2) _ message(2,3)] by blast
  qed (use assms(2) OnReconnectMessage_ok OnConnectMessage_ok OnDisconnectMessage_ok RemoveSession_ok in blast)+
next
  case (event k s x s' ev)
  then show ?thesis
    using SessionManager_okD [OF assms(2) event(3)] session_step_id [OF event(4)] session_step_spec [OF event(4)]
      update_session_ok [OF assms(2), of s' k] by simp
qed (auto simp: SessionManager_Stop_def SessionManager_ok_def FindSession_def)

lemma manager_run_ok:
  "manager_run h fmt_g tm parse m m' es \<Longrightarrow> SessionManager_ok m \<Longrightarrow> SessionManager_ok m'"
  by (induction rule: manager_run.induct) (auto dest: manager_step_ok)

lemma SessionManager_new_ok: "SessionManager_ok (SessionManager_new c)"
  by (simp add: SessionManager_new_def SessionManager_ok_def FindSession_def)

section \<open>Properties\<close>

text \<open>The messages for the queue layer among the effects.\<close>

fun queue_posts :: "sm_effect list \<Rightarrow> (uint32 \<times> Stanza) list" where
  "queue_posts [] = []"
| "queue_posts (QueuePost i d # es) = (i, d) # queue_posts es"
| "queue_posts (_ # es) = queue_posts es"

lemma queue_posts_append [simp]: "queue_posts (xs @ ys) = queue_posts xs @ queue_posts ys"
  by (induction xs rule: queue_posts.induct) auto

definition posted_response :: "(string \<Rightarrow> Value option) \<Rightarrow> uint32 \<Rightarrow> uint8 \<times> bytes \<Rightarrow> (uint32 \<times> Stanza) list" where
  "posted_response parse sid x =
     (if fst x = PACKET_TYPE_JSON \<or> fst x = PACKET_TYPE_BINARY then
        (case parse (cstr (string_of_bytes (snd x))) of
           None \<Rightarrow> [] | Some v \<Rightarrow> [(0, ResponseData_new sid v (string_of_bytes (snd x)))])
      else [])"

lemma FindEndString_cstr: "string_of_bytes (take (FindEndString data) data) = cstr (string_of_bytes data)"
proof (induction data)
  case (Cons b data)
  have "unat b < 256" using unsigned_less [of b] by simp
  then have "(of_char (char_of (unat b) :: char) :: nat) = unat b" by simp
  moreover have "(of_char (CHR 0x00) :: nat) = 0" by simp
  ultimately have "(char_of (unat b) = CHR 0x00) \<longleftrightarrow> b = 0"
    by (metis of_char_eq_iff unat_eq_zero)
  with Cons show ?case by (simp add: string_of_bytes_def cstr_def)
qed (simp add: string_of_bytes_def cstr_def)

lemma queue_posts_delivered:
  "queue_posts (session_slots parse k (delivered sid ps)) = concat (map (posted_response parse sid) ps)"
  by (induction ps)
     (auto simp: delivered_def session_slots_def posted_response_def OnSessionPacketEvent_def FindEndString_cstr
       PACKET_TYPE_HEARTBEAT_def PACKET_TYPE_JSON_def PACKET_TYPE_BINARY_def split: option.splits)


lemma read_event_posts:
  assumes "SessionManager_ok m" and "FindSession k m = Some s"
    and "parse_frames (buf_data (read_buffer s) @ concat recvs) = (packets, rest)"
    and "OnReadEvent h tm s recvs = (s', ev)"
  shows "queue_posts (session_slots parse k ev) = concat (map (posted_response parse k) packets) \<and>
    SessionManager_ok (update_session k s' m) \<and> buf_data (read_buffer s') = rest"
proof -
  have s: "session_id s = k" "session_ok s" using SessionManager_okD [OF assms(1,2)] by auto
  obtain s1 e1 where hp: "handle_packets tm s packets = (s1, e1)" by fastforce
  from OnReadEvent_spec [OF s(2) assms(3) hp, of h] assms(4)
  have "ev = snd (handle_packets tm s packets)" "buf_data (read_buffer s') = rest" using hp by auto
  moreover have "SessionManager_ok (update_session k s' m)"
    using session_ok_OnReadEvent(1) [OF s(2) assms(4)] OnReadEvent_id [OF s(2) assms(4)] s(1) assms(1)
    by (intro update_session_ok) auto
  ultimately show ?thesis by (simp add: handle_packets_delivered queue_posts_delivered s(1))
qed

text \<open>
  C5 (refinement).  When the socket of a session delivers bytes in whatever pieces, the
  manager posts to the queue layer exactly one response per JSON or binary packet of the
  byte stream whose text before the first NUL the JSON reader accepts, in the order of the
  stream, with the number of the session, the parsed value and the whole packet.
\<close>

theorem received_packets_posted:
  assumes "SessionManager_ok m" and "FindSession k m = Some s"
    and "parse_frames (buf_data (read_buffer s) @ concat recvs) = (packets, rest)"
    and "OnReadEvent h tm s recvs = (s', ev)"
  shows "queue_posts (session_slots parse k ev) = concat (map (posted_response parse k) packets) \<and>
    SessionManager_ok (update_session k s' m) \<and> buf_data (read_buffer s') = rest"
  by (rule read_event_posts [OF assms])

definition demo_manager :: SessionManager where
  "demo_manager = \<lparr>async_thread = True, async_sessions = [(5, fst (Session_new 1 5))], unequal_session_id = 1\<rparr>"

lemma demo_manager_ok: "SessionManager_ok demo_manager"
  "FindSession 5 demo_manager = Some (fst (Session_new 1 5))"
  by (auto simp: demo_manager_def SessionManager_ok_def FindSession_def stdmap_ok_def Session_new_ok split: if_splits)
     (simp_all add: Session_new_def Let_def)

theorem received_packets_posted_witness:
  "\<exists>s' ev. OnReadEvent HostLittle (\<lambda>n. 0) (fst (Session_new 1 5)) [[0x56, 0x5A, 0, 0, 0], [0, 0, 1, 0x37]] = (s', ev) \<and>
     queue_posts (session_slots (\<lambda>t. if t = ''7'' then Some (Value_Int 7) else None) 5 ev) =
       [(0, ResponseData_new 5 (Value_Int 7) ''7'')]"
proof -
  let ?s = "fst (Session_new 1 5)"
  obtain s' ev where r: "OnReadEvent HostLittle (\<lambda>n. 0) ?s [[0x56, 0x5A, 0, 0, 0], [0, 0, 1, 0x37]] = (s', ev)"
    by fastforce
  have f: "[0x56, 0x5A, 0, 0, 0, 0, 0, 1, 0x37] = frames [(0, [0x37])] @ ([] :: bytes)"
    by (simp add: frame_def be32_def HEADER_V_def HEADER_Z_def shr_byte_def)
  have "parse_frames (frames [(0, [0x37])] @ []) = ([(0, [0x37])], [])"
    by (rule parse_frames_frames) simp_all
  then have "parse_frames (buf_data (read_buffer ?s) @ concat [[0x56, 0x5A, 0, 0, 0], [0, 0, 1, 0x37]]) = ([(0, [0x37])], [])"
    using f by (simp add: Session_new_def Let_def ByteBuffer_default_ok)
  from received_packets_posted [OF demo_manager_ok this r,
      of "\<lambda>t. if t = ''7'' then Some (Value_Int 7) else None"]
  have q: "queue_posts (session_slots (\<lambda>t. if t = ''7'' then Some (Value_Int 7) else None) 5 ev) =
      posted_response (\<lambda>t. if t = ''7'' then Some (Value_Int 7) else None) 5 (0, [0x37])" by simp
  have "(char_of (55 :: nat) :: char) = CHR ''7''" by (simp add: char_of_def bit_0)
  with q r show ?thesis
    by (intro exI [of _ s'] exI [of _ ev]) (simp add: posted_response_def PACKET_TYPE_JSON_def cstr_def string_of_bytes_def
        del: OnReadEvent.simps)
qed

text \<open>
  C10 (functional).  A request for a known session appends exactly one frame of type JSON
  with the text of the request to what the session still has to send, whatever part of it
  the socket takes at once, is acknowledged at once exactly if it is a push request, and
  leaves the other sessions alone.  A request for an unknown session changes nothing and is
  answered with \<^verbatim>\<open>RES_SESSION_NOT_FOUND\<close>.
\<close>

theorem request_writes_one_frame:
  assumes "SessionManager_ok m" and "stanza_body d = RequestBody v push" and "stanza_type d = REQ_SEND_REQUESTION"
    and "length (FastWriter_write fmt_g v) < 2 ^ 32"
    and "SessionManager_OnMessage h fmt_g st sent m mid d = Some (m', es)"
    and "\<forall>k ev. SessionEffect k ev \<in> set es \<longrightarrow> send_contract ev"
  shows "case FindSession (stanza_session d) m of
      None \<Rightarrow> m' = m \<and> es = [QueuePost mid (Stanza_new RES_SESSION_NOT_FOUND (stanza_session d))]
    | Some s \<Rightarrow> \<exists>s' ev. FindSession (stanza_session d) m' = Some s' \<and>
        wire ev @ buf_data (write_buffer s') =
          buf_data (write_buffer s) @ frame PACKET_TYPE_JSON (bytes_of_string (FastWriter_write fmt_g v)) \<and>
        es = map (SessionEffect (stanza_session d)) ev @
          (if push then [QueuePost mid (Stanza_new RES_PUSH_SUCCEED (stanza_session d))] else []) \<and>
        (\<forall>j. j \<noteq> stanza_session d \<longrightarrow> FindSession j m' = FindSession j m)"
proof -
  have r: "OnRequestMessage h fmt_g sent m mid d = Some (m', es)"
    using assms(3,5) by (simp add: SessionManager_OnMessage_def stanza_types)
  show ?thesis
  proof (cases "FindSession (stanza_session d) m")
    case None
    then show ?thesis using OnRequestMessage_none [OF assms(2) None] r by simp
  next
    case (Some s)
    from OnRequestMessage_write [OF assms(1,2) Some assms(4) r assms(6)] obtain s' ev where
      w: "m' = update_session (stanza_session d) s' m"
      "wire ev @ buf_data (write_buffer s') =
         buf_data (write_buffer s) @ frame PACKET_TYPE_JSON (bytes_of_string (FastWriter_write fmt_g v))"
      "es = map (SessionEffect (stanza_session d)) ev @
         (if push then [QueuePost mid (Stanza_new RES_PUSH_SUCCEED (stanza_session d))] else [])" .
    show ?thesis unfolding Some option.case
      by (rule exI [of _ s'], rule exI [of _ ev]) (simp add: w FindSession_update [OF assms(1)])
  qed
qed

theorem request_writes_one_frame_witness:
  "SessionManager_OnMessage HostBig (\<lambda>x. []) CS_CLOSED None demo_manager 4 (RequestData_new 9 nullValue False) =
     Some (demo_manager, [QueuePost 4 (Stanza_new RES_SESSION_NOT_FOUND 9)])"
proof -
  let ?d = "RequestData_new 9 nullValue False"
  have f: "FindSession 9 demo_manager = None" by (simp add: demo_manager_def FindSession_def)
  obtain m' es where r: "SessionManager_OnMessage HostBig (\<lambda>x. []) CS_CLOSED None demo_manager 4 ?d = Some (m', es)"
    using f by (simp add: SessionManager_OnMessage_def stanza_types RequestData_new_def OnRequestMessage_def)
  have "\<forall>k ev. SessionEffect k ev \<in> set es \<longrightarrow> send_contract ev"
    using r f by (auto simp: SessionManager_OnMessage_def stanza_types RequestData_new_def OnRequestMessage_def)
  from request_writes_one_frame [OF demo_manager_ok(1) _ _ _ r this, of nullValue False] r f
  show ?thesis by (simp add: RequestData_new_def FastWriter_write_def)
qed


text \<open>
  A disconnect request closes the socket of its session unless it is
  closed, removes exactly this session and answers \<^verbatim>\<open>RES_DISCONNECTED_EVENT_SUCCEED\<close>; for an
  unknown session it changes nothing and answers \<^verbatim>\<open>RES_DISCONNECTED_EVENT_FAILURE\<close>.  The
  answer carries the number of the request and of the session, and is the only message.
\<close>

theorem disconnect_answers:
  assumes "SessionManager_ok m" and "stanza_type d = REQ_DISCONNECT_SERVER"
  shows "\<exists>m' es. SessionManager_OnMessage h fmt_g st sent m mid d = Some (m', es) \<and> SessionManager_ok m' \<and>
    (\<forall>j. FindSession j m' = (if j = stanza_session d then None else FindSession j m)) \<and>
    queue_posts es = [(mid, Stanza_new
      (if FindSession (stanza_session d) m = None then RES_DISCONNECTED_EVENT_FAILURE
       else RES_DISCONNECTED_EVENT_SUCCEED) (stanza_session d))] \<and>
    (SessionEffect (stanza_session d) SocketClose \<in> set es \<longleftrightarrow>
      (\<exists>s. FindSession (stanza_session d) m = Some s \<and> Session_GetState s \<noteq> CS_CLOSED))"
proof -
  have r: "SessionManager_OnMessage h fmt_g st sent m mid d = OnDisconnectMessage m mid d"
    using assms(2) by (simp add: SessionManager_OnMessage_def stanza_types)
  show ?thesis
  proof (cases "FindSession (stanza_session d) m")
    case None
    then show ?thesis using assms(1) by (auto simp: r OnDisconnectMessage_def)
  next
    case (Some s)
    let ?k = "stanza_session d"
    obtain r' s' ev where st: "Session_Stop s = (r', s', ev)" by (metis prod.exhaust)
    have id: "session_id s = ?k" "session_id s' = ?k" "session_ok s'"
      using SessionManager_okD [OF assms(1) Some] Session_Stop_ok [OF st] by auto
    let ?u = "update_session ?k s' m"
    have u: "SessionManager_ok ?u" using update_session_ok [OF assms(1) id(2,3)] .
    then have f: "FindSession j (snd (RemoveSession ?k ?u)) = (if j = ?k then None else FindSession j m)" for j
      using FindSession_Remove [of ?u j ?k] assms(1) by (simp add: SessionManager_ok_def [of ?u])
    have ev: "ev = (if Session_GetState s \<noteq> CS_CLOSED then [SocketClose] else [])"
      using st by (auto simp: Session_Stop_def UinitSocket_def Session_GetState_def Let_def split: if_splits option.splits)
    have "queue_posts (map (SessionEffect k) ev) = []" for k by (simp add: ev)
    then show ?thesis
      using RemoveSession_ok [OF u, of ?k] f ev id
      by (auto simp: r OnDisconnectMessage_def Some st Let_def)
  qed
qed

theorem disconnect_answers_witness:
  "\<exists>m' es. SessionManager_OnMessage HostBig (\<lambda>x. []) CS_CLOSED None demo_manager 4 (ReqDisconnectData_new 5) = Some (m', es) \<and>
     FindSession 5 m' = None \<and> queue_posts es = [(4, Stanza_new RES_DISCONNECTED_EVENT_SUCCEED 5)]"
  using disconnect_answers [OF demo_manager_ok(1), of "ReqDisconnectData_new 5" HostBig "\<lambda>x. []" CS_CLOSED None 4]
  by (auto simp: ReqDisconnectData_new_def Stanza_new_def demo_manager_ok(2))

text \<open>
  C24 (invariant).  In every run of the async layer, whatever requests, socket events and
  timers it consists of, the sessions are filed under their own numbers, in ascending
  order, and every one of them satisfies the invariant of a session.
\<close>

theorem session_table_invariant:
  assumes "manager_run h fmt_g tm parse (SessionManager_new counter) m es"
  shows "sorted_wrt (<) (map fst (async_sessions m)) \<and>
    (\<forall>k s. (k, s) \<in> set (async_sessions m) \<longrightarrow> session_id s = k \<and> session_ok s)"
proof -
  have ok: "SessionManager_ok m" using manager_run_ok [OF assms SessionManager_new_ok] .
  then have map: "stdmap_ok (async_sessions m)" by (simp add: SessionManager_ok_def)
  show ?thesis
    using SessionManager_okD [OF ok] sm.entries_sorted [OF map]
    by (simp add: FindSession_def sm.find_entries [OF map])
qed

theorem session_table_invariant_witness:
  "\<exists>m es. manager_run HostBig (\<lambda>x. []) (\<lambda>n. 0) (\<lambda>t. None) (SessionManager_new 7) m es \<and>
     (\<forall>k s. (k, s) \<in> set (async_sessions m) \<longrightarrow> session_id s = k \<and> session_ok s) \<and> es \<noteq> []"
proof -
  let ?d = "ReqConnectData_new SocketAddress_nil"
  have c: "SessionManager_OnMessage HostBig (\<lambda>x. []) CS_CONNECTING None (SessionManager_new 7) 3 ?d =
      Some (\<lparr>async_thread = False, async_sessions = [(8, (fst (Session_new 7 0))
              \<lparr>async_socket := Some CS_CONNECTING, socket_slots := True, connect_id := 3\<rparr>)], unequal_session_id = 8\<rparr>,
            [SessionEffect 8 (SocketConnect SocketAddress_nil)])" (is "_ = Some (?m, ?es)")
    by (simp add: SessionManager_OnMessage_def stanza_types ReqConnectData_new_def OnConnectMessage_def AddSession_def
        stdmap_insert_def update_session_def Session_new_def Session_Start_def InitSocket_def SessionManager_new_def)
  have "manager_step HostBig (\<lambda>x. []) (\<lambda>n. 0) (\<lambda>t. None) (SessionManager_new 7) ?m ?es"
    by (rule message [OF c]) (simp_all add: ReqConnectData_new_def)
  from run_snoc [OF run_nil this]
  have r: "manager_run HostBig (\<lambda>x. []) (\<lambda>n. 0) (\<lambda>t. None) (SessionManager_new 7) ?m ?es" by simp
  show ?thesis
    by (rule exI [of _ ?m], rule exI [of _ ?es]) (use r session_table_invariant [OF r] in blast)
qed

end
