(* ===== verification/Vz_Pushhandle.thy ===== *)
theory Vz_Pushhandle
  imports Vz_Internalmessage Vz_Commandanalysis Vz_Task
begin

text \<open>
  \<^verbatim>\<open>src/src/vzsdk/vzsdkpushhandle.{h,cpp}\<close> and \<^verbatim>\<open>commfunc.h\<close>: the listeners for what a device
  sends unasked, recognition results, serial data and changes of the connection.  A
  callback and its user data are numbers, a null callback is \<open>None\<close>.  \<open>None\<close> as the result of
  a handler: an exception, a null or uninitialised pointer, or a stanza read as a
  \<^verbatim>\<open>ResponseData\<close> that is none.
\<close>

section \<open>State\<close>

record IvsPushHandle =
  ivs_callback :: "nat option"
  ivs_userdata :: nat
  ivs_recongnition :: bool
  ivs_session :: uint32

record SerialPushHandle =
  ser_func :: "nat option"
  ser_userdata :: nat

record ChangeConnPushHandle =
  cc_session :: uint32
  cc_callback :: "nat option"
  cc_userdata :: nat

record ResumePushHandle =
  res_session :: uint32
  recv_record_id_set :: "int set"
  max_record_id :: int
  cur_max_record_id :: int
  res_recognition :: bool
  enable_getrecord :: bool
  plate_func :: "nat option"
  res_userdata :: nat
  enable_image :: bool
  res_queue_layer :: bool

datatype push_object =
    IvsObject IvsPushHandle
  | SerialObject SerialPushHandle
  | ChangeConnObject ChangeConnPushHandle
  | ResumeObject ResumePushHandle

record PushHandle =
  cmd_key :: string
  push_object :: push_object

datatype VZ_LPRC_RESULT_TYPE =
    VZ_LPRC_RESULT_REALTIME | VZ_LPRC_RESULT_STABLE | VZ_LPRC_RESULT_FORCE_TRIGGER
  | VZ_LPRC_RESULT_IO_TRIGGER | VZ_LPRC_RESULT_VLOOP_TRIGGER | VZ_LPRC_RESULT_MULTI_TRIGGER

datatype VZ_LPRC_COMMON_NOTIFY =
    VZ_LPRC_NO_ERR | VZ_LPRC_ACCESS_DENIED | VZ_LPRC_NETWORK_ERR | VZ_LPRC_ONLINE | VZ_LPRC_OFFLINE | VZ_LPRC_IO_INPUT

text \<open>
  The calls out of a handler.  \<open>PlateCallback f sid user plate type image clip\<close> passes each image as
  its offset in the packet (\<open>None\<close> for a null pointer) and its size.
\<close>

datatype push_effect =
    PlateCallback nat uint32 nat TH_PlateResult VZ_LPRC_RESULT_TYPE "nat option \<times> int" "int option \<times> int"
  | SerialCallback nat uint32 bytes nat
  | ConnCallback nat uint32 nat VZ_LPRC_COMMON_NOTIFY
  | SignalChangeConnStatus VZ_LPRC_COMMON_NOTIFY
  | SignalGetResumeInfo
  | RecordCallback nat uint32 nat int
  | RecognitionAddRecordID uint32
  | QueuePostDelayed int uint32 Stanza

type_synonym push_result = "(bool \<times> push_object \<times> push_effect list) option"

definition GetResultTypeFromTrigBits :: "uint32 \<Rightarrow> VZ_LPRC_RESULT_TYPE" where
  "GetResultTypeFromTrigBits bits =
     (if bits = 1 then VZ_LPRC_RESULT_STABLE
      else if bits = 2 then VZ_LPRC_RESULT_IO_TRIGGER
      else if bits = 4 then VZ_LPRC_RESULT_FORCE_TRIGGER
      else if bits = 8 then VZ_LPRC_RESULT_VLOOP_TRIGGER
      else VZ_LPRC_RESULT_MULTI_TRIGGER)"

section \<open>Constructors and setters\<close>

definition SESSION_ID_INVALUE :: uint32 where "SESSION_ID_INVALUE = - 1"

definition IvsPushHandle_new :: IvsPushHandle where
  "IvsPushHandle_new = \<lparr>ivs_callback = None, ivs_userdata = 0, ivs_recongnition = False,
     ivs_session = SESSION_ID_INVALUE\<rparr>"

definition SetPlateCallBack :: "nat option \<Rightarrow> nat \<Rightarrow> IvsPushHandle \<Rightarrow> IvsPushHandle" where
  "SetPlateCallBack f u o1 = o1\<lparr>ivs_callback := f, ivs_userdata := u\<rparr>"

definition Ivs_SetSessionID :: "uint32 \<Rightarrow> IvsPushHandle \<Rightarrow> IvsPushHandle" where
  "Ivs_SetSessionID sid o1 = o1\<lparr>ivs_session := sid\<rparr>"

definition SerialPushHandle_new :: SerialPushHandle where
  "SerialPushHandle_new = \<lparr>ser_func = None, ser_userdata = 0\<rparr>"

definition SetSerialRecvCallBack :: "nat option \<Rightarrow> nat \<Rightarrow> SerialPushHandle \<Rightarrow> SerialPushHandle" where
  "SetSerialRecvCallBack f u o1 = o1\<lparr>ser_func := f, ser_userdata := u\<rparr>"

definition SetConnCallBack :: "nat option \<Rightarrow> nat \<Rightarrow> ChangeConnPushHandle \<Rightarrow> ChangeConnPushHandle" where
  "SetConnCallBack f u o1 = o1\<lparr>cc_callback := f, cc_userdata := u\<rparr>"

text \<open>\<open>o0\<close> is the uninitialised memory: the constructor sets neither the session, nor the start, nor the recognition module.\<close>

definition ResumePushHandle_new :: "ResumePushHandle \<Rightarrow> ResumePushHandle" where
  "ResumePushHandle_new o0 = o0\<lparr>recv_record_id_set := {}, enable_getrecord := True, plate_func := None,
     res_userdata := 0, enable_image := False, cur_max_record_id := 0, res_queue_layer := False,
     res_recognition := False\<rparr>"

definition AddRecordID :: "int \<Rightarrow> ResumePushHandle \<Rightarrow> ResumePushHandle" where
  "AddRecordID rid o1 = o1\<lparr>recv_record_id_set := insert rid (recv_record_id_set o1)\<rparr>"

definition Resume_SetCallBack :: "nat option \<Rightarrow> nat \<Rightarrow> ResumePushHandle \<Rightarrow> ResumePushHandle" where
  "Resume_SetCallBack f u o1 = o1\<lparr>plate_func := f, res_userdata := u\<rparr>"

definition DisConnecting :: "ResumePushHandle \<Rightarrow> ResumePushHandle" where
  "DisConnecting o1 = o1\<lparr>enable_getrecord := False\<rparr>"

definition Resume_SlotChangeConnStatus :: "VZ_LPRC_COMMON_NOTIFY \<Rightarrow> ResumePushHandle \<Rightarrow> ResumePushHandle" where
  "Resume_SlotChangeConnStatus status o1 = (case status of
      VZ_LPRC_ONLINE \<Rightarrow> o1\<lparr>enable_getrecord := True\<rparr>
    | VZ_LPRC_OFFLINE \<Rightarrow> o1\<lparr>enable_getrecord := False\<rparr>
    | _ \<Rightarrow> o1)"

section \<open>Handling a message\<close>

text \<open>\<open>plate0\<close> is the content of the uninitialised result structure.\<close>

definition Ivs_HandleMessageData ::
  "(rat \<Rightarrow> string) \<Rightarrow> TH_PlateResult \<Rightarrow> string \<Rightarrow> IvsPushHandle \<Rightarrow> Stanza \<Rightarrow> push_result" where
  "Ivs_HandleMessageData fmt_g plate0 key o1 response = do {
     res_obj \<leftarrow> res_obj_json response;
     if isNull res_obj then Some (False, IvsObject o1, []) else do {
       cmd \<leftarrow> Value_at res_obj JSON_REQ_CMD;
       if isNull cmd then Some (False, IvsObject o1, []) else do {
         res_cmd \<leftarrow> asString fmt_g cmd;
         if \<not> (stanza_session response = ivs_session o1 \<and> stanza_type response = RES_STANZA_EVENT \<and> res_cmd = key)
         then Some (False, IvsObject o1, [])
         else do {
           (plate, full, clip) \<leftarrow> ParsePlateResultResponse (res_json response) (plate0, 0, 0);
           let len = length (cstr (res_data response));
               pImage = (if 0 < full then Some (len + 1) else None);
               pClip = (if 0 < clip then Some (int len + full + 1) else None)
           in Some (True, IvsObject o1,
                (if ivs_recongnition o1 then [RecognitionAddRecordID (uId plate)] else []) @
                (case ivs_callback o1 of
                   None \<Rightarrow> []
                 | Some f \<Rightarrow> [PlateCallback f (ivs_session o1) (ivs_userdata o1) plate
                     (GetResultTypeFromTrigBits (uBitsTrigType plate)) (pImage, full) (pClip, clip)])) } } } }"

definition TTRANSMISSION_0 :: TTRANSMISSION_RESPONSE where
  "TTRANSMISSION_0 = \<lparr>tt_subcmd = None, tt_response = None, tt_datalen = 0, tt_comm = 0, tt_data = None\<rparr>"

text \<open>\<open>qbuf0\<close> is the uninitialised buffer of the decoder.\<close>

definition Serial_HandleMessageData ::
  "(rat \<Rightarrow> string) \<Rightarrow> bytes \<Rightarrow> string \<Rightarrow> SerialPushHandle \<Rightarrow> Stanza \<Rightarrow> push_result" where
  "Serial_HandleMessageData fmt_g qbuf0 key o1 response = do {
     res_obj \<leftarrow> res_obj_json response;
     if isNull res_obj then Some (False, SerialObject o1, []) else do {
       cmd \<leftarrow> Value_at res_obj JSON_REQ_CMD;
       if isNull cmd then Some (False, SerialObject o1, []) else do {
         res_cmd \<leftarrow> json_cmd fmt_g (res_json response);
         if \<not> (stanza_type response = RES_STANZA_EVENT \<and> res_cmd = key) then Some (False, SerialObject o1, [])
         else do {
           p \<leftarrow> ParseTTransmissionResponse (res_json response) (Some TTRANSMISSION_0);
           v \<leftarrow> p;
           subcmd \<leftarrow> tt_subcmd v;
           if subcmd = ''send'' then do {
             pdata \<leftarrow> tt_data v;
             let decode_result = fst (DecodeFromArray qbuf0 (bytes_of_string pdata) (length pdata) DO_LAX)
             in Some (True, SerialObject o1,
                  (case ser_func o1 of
                     None \<Rightarrow> []
                   | Some f \<Rightarrow> [SerialCallback f (tt_comm v) decode_result (ser_userdata o1)])) }
           else Some (True, SerialObject o1, []) } } } }"

definition ChangeConn_HandleMessageData :: "ChangeConnPushHandle \<Rightarrow> Stanza \<Rightarrow> push_result" where
  "ChangeConn_HandleMessageData o1 response =
     (let notify = (if stanza_session response = cc_session o1 then
                      if stanza_type response = RES_CONNECTED_EVENT then VZ_LPRC_ONLINE
                      else if stanza_type response = RES_DISCONNECTED_EVENT_FAILURE then VZ_LPRC_OFFLINE
                      else VZ_LPRC_NO_ERR
                    else VZ_LPRC_NO_ERR)
      in Some (False, ChangeConnObject o1,
           if notify = VZ_LPRC_NO_ERR then []
           else SignalChangeConnStatus notify #
             (case cc_callback o1 of
                None \<Rightarrow> [] | Some f \<Rightarrow> [ConnCallback f (cc_session o1) (cc_userdata o1) notify])))"

definition PostResumeReq :: "ResumePushHandle \<Rightarrow> push_effect list" where
  "PostResumeReq o1 =
     (if res_queue_layer o1
      then [QueuePostDelayed 10000 (res_session o1) (Stanza_new RES_RESUME_TASK_EVENT (res_session o1))] else [])"

text \<open>
  The loop over the record numbers from \<open>rid\<close> to the current maximum.  A record that was
  received is skipped; any other one is fetched through the recognition module and reported.
\<close>

function resume_loop :: "nat \<Rightarrow> int \<Rightarrow> ResumePushHandle \<Rightarrow> (ResumePushHandle \<times> push_effect list) option" where
  "resume_loop f rid o1 =
     (if rid \<le> cur_max_record_id o1 then
        if rid \<in> recv_record_id_set o1 then
          resume_loop f (rid + 1)
            (o1\<lparr>max_record_id := rid, recv_record_id_set := recv_record_id_set o1 - {rid}\<rparr>)
        else if res_recognition o1 then
          (case resume_loop f (rid + 1) (o1\<lparr>max_record_id := rid\<rparr>) of
             None \<Rightarrow> None
           | Some (o2, ev) \<Rightarrow> Some (o2, RecordCallback f (res_session o1) (res_userdata o1) rid # ev))
        else None
      else Some (o1, []))"
  by pat_completeness auto
termination
  by (relation "measure (\<lambda>(f, rid, o1). nat (cur_max_record_id o1 + 1 - rid))") auto

declare resume_loop.simps [simp del]

text \<open>
  \<open>info\<close> is what the slot of \<^verbatim>\<open>SignalGetResumeInfo\<close> sets: the callback, its data and the
  largest record number of the device; \<open>None\<close> if no slot is connected.
\<close>

definition Resume_HandleResponse ::
  "(nat option \<times> nat \<times> int) option \<Rightarrow> ResumePushHandle \<Rightarrow> Stanza \<Rightarrow> push_result" where
  "Resume_HandleResponse info o1 response =
     (if stanza_type response \<noteq> RES_RESUME_TASK_EVENT \<or> stanza_session response \<noteq> res_session o1
      then Some (False, ResumeObject o1, [])
      else let o2 = (case info of
                       None \<Rightarrow> o1
                     | Some (f, u, cur) \<Rightarrow> (Resume_SetCallBack f u o1)\<lparr>cur_max_record_id := cur\<rparr>)
           in case plate_func o2 of
                None \<Rightarrow> Some (True, ResumeObject o2, SignalGetResumeInfo # PostResumeReq o2)
              | Some f \<Rightarrow>
                  if \<not> enable_getrecord o2
                  then Some (True, ResumeObject o2, SignalGetResumeInfo # PostResumeReq o2)
                  else (case (if 0 < cur_max_record_id o2 then resume_loop f (max_record_id o2 + 1) o2
                              else Some (o2, [])) of
                          None \<Rightarrow> None
                        | Some (o3, ev) \<Rightarrow> Some (True, ResumeObject o3, SignalGetResumeInfo # ev @ PostResumeReq o3)))"

definition Resume_HandleMessageData ::
  "(nat option \<times> nat \<times> int) option \<Rightarrow> ResumePushHandle \<Rightarrow> Stanza \<Rightarrow> push_result" where
  "Resume_HandleMessageData info o1 response =
     (let o2 = (if stanza_type response = RES_DISCONNECTED_EVENT_SUCCEED \<or>
                   stanza_type response = RES_DISCONNECTED_EVENT_FAILURE
                then o1\<lparr>enable_getrecord := False\<rparr> else o1)
      in if stanza_session response = res_session o2 \<and> stanza_type response = RES_RESUME_TASK_EVENT
         then Resume_HandleResponse info o2 response
         else Some (False, ResumeObject o2, []))"

record push_env =
  env_fmt :: "rat \<Rightarrow> string"
  env_plate :: TH_PlateResult
  env_qbuf :: bytes
  env_info :: "(nat option \<times> nat \<times> int) option"

text \<open>The virtual call.\<close>

definition HandleMessageData :: "push_env \<Rightarrow> PushHandle \<Rightarrow> Stanza \<Rightarrow> push_result" where
  "HandleMessageData env ph response = (case push_object ph of
      IvsObject o1 \<Rightarrow> Ivs_HandleMessageData (env_fmt env) (env_plate env) (cmd_key ph) o1 response
    | SerialObject o1 \<Rightarrow> Serial_HandleMessageData (env_fmt env) (env_qbuf env) (cmd_key ph) o1 response
    | ChangeConnObject o1 \<Rightarrow> ChangeConn_HandleMessageData o1 response
    | ResumeObject o1 \<Rightarrow> Resume_HandleMessageData (env_info env) o1 response)"

section \<open>Properties\<close>

lemma resume_loop_spec:
  assumes "res_recognition o1"
  shows "resume_loop f rid o1 = Some
    (o1\<lparr>max_record_id := (if rid \<le> cur_max_record_id o1 then cur_max_record_id o1 else max_record_id o1),
        recv_record_id_set := recv_record_id_set o1 - {rid..cur_max_record_id o1}\<rparr>,
     map (RecordCallback f (res_session o1) (res_userdata o1))
       (filter (\<lambda>i. i \<notin> recv_record_id_set o1) [rid..cur_max_record_id o1]))"
  using assms
proof (induction f rid o1 rule: resume_loop.induct)
  case (1 f rid o1)
  show ?case
  proof (cases "rid \<le> cur_max_record_id o1")
    case True
    let ?c = "cur_max_record_id o1" and ?s = "recv_record_id_set o1"
    have up: "[rid..?c] = rid # [rid + 1..?c]" using True by (simp add: upto.simps)
    have set: "{rid..?c} = insert rid {rid + 1..?c}" using True by auto
    have last: "\<not> rid + 1 \<le> ?c \<Longrightarrow> rid = ?c" using True by simp
    show ?thesis
    proof (cases "rid \<in> ?s")
      case recv: True
      let ?o = "o1\<lparr>max_record_id := rid, recv_record_id_set := ?s - {rid}\<rparr>"
      have f: "filter (\<lambda>i. i \<in> ?s \<longrightarrow> i = rid) [rid + 1..?c] = filter (\<lambda>i. i \<notin> ?s) [rid + 1..?c]"
        by (rule filter_cong) auto
      have s: "?s - {rid} - {rid + 1..?c} = ?s - {rid..?c}" using set by auto
      have "resume_loop f rid o1 = resume_loop f (rid + 1) ?o"
        using True recv by (subst resume_loop.simps) simp
      also have "\<dots> = Some (o1\<lparr>max_record_id := ?c, recv_record_id_set := ?s - {rid..?c}\<rparr>,
          map (RecordCallback f (res_session o1) (res_userdata o1)) (filter (\<lambda>i. i \<notin> ?s) [rid + 1..?c]))"
        using 1(1) [OF True recv] 1(3) last by (auto simp: f s)
      finally show ?thesis using recv True by (simp add: up)
    next
      case False
      have s: "?s - {rid + 1..?c} = ?s - {rid..?c}" using set False by auto
      have "resume_loop f (rid + 1) (o1\<lparr>max_record_id := rid\<rparr>) =
          Some (o1\<lparr>max_record_id := ?c, recv_record_id_set := ?s - {rid..?c}\<rparr>,
          map (RecordCallback f (res_session o1) (res_userdata o1)) (filter (\<lambda>i. i \<notin> ?s) [rid + 1..?c]))"
        using 1(2) [OF True False] 1(3) last by (auto simp: s)
      then show ?thesis using True False 1(3) by (subst resume_loop.simps) (simp add: up)
    qed
  next
    case False
    then show ?thesis by (subst resume_loop.simps) simp
  qed
qed

lemma resume_loop_uninitialised:
  "\<not> res_recognition o1 \<Longrightarrow> \<exists>i. rid \<le> i \<and> i \<le> cur_max_record_id o1 \<and> i \<notin> recv_record_id_set o1 \<Longrightarrow>
   resume_loop f rid o1 = None"
proof (induction f rid o1 rule: resume_loop.induct)
  case (1 f rid o1)
  from 1(4) obtain i where i: "rid \<le> i" "i \<le> cur_max_record_id o1" "i \<notin> recv_record_id_set o1" by blast
  then have r: "rid \<le> cur_max_record_id o1" by simp
  show ?case
  proof (cases "rid \<in> recv_record_id_set o1")
    case True
    then have "rid + 1 \<le> i" using i by (metis add1_zle_eq order_le_less)
    then have "resume_loop f (rid + 1) (o1\<lparr>max_record_id := rid, recv_record_id_set := recv_record_id_set o1 - {rid}\<rparr>) = None"
      using 1(1) [OF r True] 1(3) i by auto
    then show ?thesis using r True by (subst resume_loop.simps) simp
  qed (use r 1(3) in \<open>subst resume_loop.simps, simp\<close>)
qed

text \<open>
  A resume event of its session makes the handle report exactly the
  records between its mark and the device's largest number that were not received, each
  once and in ascending order, move the mark to that number, forget the received numbers it
  has passed, and ask for the next resume event; provided that the recognition module is
  set.  If it is not, which is how the constructor leaves it, and a record is missing, the
  call goes through an uninitialised pointer.
\<close>

theorem resume_reports_missing_records:
  assumes "stanza_type d = RES_RESUME_TASK_EVENT" and "stanza_session d = res_session o1"
    and "enable_getrecord o1" and "0 < cur" and "max_record_id o1 \<le> cur"
  shows "(res_recognition o1 \<longrightarrow> (\<exists>o2. Resume_HandleMessageData (Some (Some f, u, cur)) o1 d =
        Some (True, ResumeObject o2,
          SignalGetResumeInfo #
          map (RecordCallback f (res_session o1) u)
            (filter (\<lambda>i. i \<notin> recv_record_id_set o1) [max_record_id o1 + 1..cur]) @
          (if res_queue_layer o1
           then [QueuePostDelayed 10000 (res_session o1) (Stanza_new RES_RESUME_TASK_EVENT (res_session o1))] else [])) \<and>
        max_record_id o2 = cur \<and> recv_record_id_set o2 = recv_record_id_set o1 - {max_record_id o1 + 1..cur})) \<and>
    (\<not> res_recognition o1 \<and> (\<exists>i. max_record_id o1 < i \<and> i \<le> cur \<and> i \<notin> recv_record_id_set o1) \<longrightarrow>
      Resume_HandleMessageData (Some (Some f, u, cur)) o1 d = None)"
proof -
  let ?o = "(Resume_SetCallBack (Some f) u o1)\<lparr>cur_max_record_id := cur\<rparr>"
  have step: "Resume_HandleMessageData (Some (Some f, u, cur)) o1 d =
      (case resume_loop f (max_record_id o1 + 1) ?o of None \<Rightarrow> None
       | Some (o3, ev) \<Rightarrow> Some (True, ResumeObject o3, SignalGetResumeInfo # ev @ PostResumeReq o3))"
    using assms by (simp add: Resume_HandleMessageData_def Resume_HandleResponse_def Resume_SetCallBack_def stanza_types)
  show ?thesis
  proof (intro conjI impI)
    assume r: "res_recognition o1"
    show "\<exists>o2. Resume_HandleMessageData (Some (Some f, u, cur)) o1 d =
        Some (True, ResumeObject o2,
          SignalGetResumeInfo #
          map (RecordCallback f (res_session o1) u)
            (filter (\<lambda>i. i \<notin> recv_record_id_set o1) [max_record_id o1 + 1..cur]) @
          (if res_queue_layer o1
           then [QueuePostDelayed 10000 (res_session o1) (Stanza_new RES_RESUME_TASK_EVENT (res_session o1))] else [])) \<and>
        max_record_id o2 = cur \<and> recv_record_id_set o2 = recv_record_id_set o1 - {max_record_id o1 + 1..cur}"
      unfolding step using r assms(5)
      by (simp add: resume_loop_spec Resume_SetCallBack_def PostResumeReq_def)
  next
    assume "\<not> res_recognition o1 \<and> (\<exists>i. max_record_id o1 < i \<and> i \<le> cur \<and> i \<notin> recv_record_id_set o1)"
    then have "resume_loop f (max_record_id o1 + 1) ?o = None"
      by (intro resume_loop_uninitialised) (auto simp: Resume_SetCallBack_def add1_zle_eq)
    then show "Resume_HandleMessageData (Some (Some f, u, cur)) o1 d = None" by (simp add: step)
  qed
qed

definition demo_resume :: ResumePushHandle where
  "demo_resume = \<lparr>res_session = 5, recv_record_id_set = {11, 13}, max_record_id = 10, cur_max_record_id = 0,
     res_recognition = True, enable_getrecord = True, plate_func = None, res_userdata = 0, enable_image = False,
     res_queue_layer = False\<rparr>"

theorem resume_reports_missing_records_witness:
  "\<exists>o2. Resume_HandleMessageData (Some (Some 3, 4, 14)) demo_resume (Stanza_new RES_RESUME_TASK_EVENT 5) =
     Some (True, ResumeObject o2, [SignalGetResumeInfo, RecordCallback 3 5 4 12, RecordCallback 3 5 4 14]) \<and>
     max_record_id o2 = 14"
proof -
  have "[11..14] = [11, 12, 13, 14 :: int]" by (simp add: upto.simps)
  then show ?thesis
    using resume_reports_missing_records [of "Stanza_new RES_RESUME_TASK_EVENT 5" demo_resume 14 3 4]
    by (auto simp: demo_resume_def Stanza_new_def)
qed

end
