(* ===== verification/Vz_Pushmanager.thy ===== *)
theory Vz_Pushmanager
  imports Vz_Pushhandle
begin

text \<open>
  \<^verbatim>\<open>src/src/vzsdk/vzsdkpushmanager.{h,cpp}\<close>: the task that takes what no request waits for.
  On the queue thread it decides by the command whether a listener may want the message and
  posts it to the push thread; there it offers the message to the handles in the order of
  their registration.  The handles are shared objects: \<open>heap\<close> holds them by address and the
  manager a list of addresses.
\<close>

section \<open>State\<close>

record PushManagerTask =
  pm_id :: uint32
  pm_thread :: "nat option"
  is_register :: bool
  push_handle_keys :: "string set"
  push_handles :: "nat list"

type_synonym handle_heap = "nat \<Rightarrow> PushHandle"

definition PushManagerTask_new :: "nat \<Rightarrow> uint32 \<Rightarrow> nat option \<Rightarrow> PushManagerTask \<times> uint32" where
  "PushManagerTask_new current counter push_thread =
     (let t = fst (Task_new ReqTask 50000 current push_thread counter None []) in
      (\<lparr>pm_id = task_id t, pm_thread = task_thread t, is_register = False, push_handle_keys = {}, push_handles = []\<rparr>,
       counter + 1))"

definition AddPushHandle :: "handle_heap \<Rightarrow> nat \<Rightarrow> PushManagerTask \<Rightarrow> PushManagerTask" where
  "AddPushHandle heap a m =
     m\<lparr>push_handles := push_handles m @ [a],
       push_handle_keys := insert (cmd_key (heap a)) (push_handle_keys m)\<rparr>"

definition RemovePushHandle :: "handle_heap \<Rightarrow> nat \<Rightarrow> PushManagerTask \<Rightarrow> PushManagerTask" where
  "RemovePushHandle heap a m =
     m\<lparr>push_handle_keys := push_handle_keys m - {cmd_key (heap a)},
       push_handles := remove1 a (push_handles m)\<rparr>"

text \<open>The first run posts the task to the queue layer; the result says whether it does.\<close>

definition PushManager_SyncProcessTask :: "PushManagerTask \<Rightarrow> PushManagerTask \<times> bool" where
  "PushManager_SyncProcessTask m =
     (case pm_thread m of
        None \<Rightarrow> (m, False)
      | Some _ \<Rightarrow> if is_register m then (m, False) else (m\<lparr>is_register := True\<rparr>, True))"

section \<open>On the queue thread\<close>

definition pm_post :: "PushManagerTask \<Rightarrow> Stanza \<Rightarrow> task_post option" where
  "pm_post m d = (case pm_thread m of
      None \<Rightarrow> None | Some th \<Rightarrow> Some \<lparr>post_thread = th, post_id = pm_id m, post_data = d\<rparr>)"

text \<open>The returned value and the post; \<open>None\<close> for an exception of the JSON library.\<close>

definition PushManager_HandleResponse ::
  "(rat \<Rightarrow> string) \<Rightarrow> PushManagerTask \<Rightarrow> Stanza \<Rightarrow> (bool \<times> task_post option) option" where
  "PushManager_HandleResponse fmt_g m d =
     (case pm_thread m of
        None \<Rightarrow> Some (False, None)
      | Some _ \<Rightarrow>
          (case json_cmd fmt_g (res_json d) of
             None \<Rightarrow> None
           | Some res_cmd \<Rightarrow>
               Some (if res_cmd \<in> push_handle_keys m then (True, pm_post m d) else (False, None))))"

definition HandleChangeConn :: "PushManagerTask \<Rightarrow> Stanza \<Rightarrow> bool \<times> task_post option" where
  "HandleChangeConn m d =
     (if pm_thread m \<noteq> None \<and> ''change_conn_status'' \<in> push_handle_keys m
      then (True, pm_post m d) else (False, None))"

definition PushManager_HandleMessage ::
  "(rat \<Rightarrow> string) \<Rightarrow> PushManagerTask \<Rightarrow> uint32 \<Rightarrow> Stanza \<Rightarrow> (bool \<times> task_post option) option" where
  "PushManager_HandleMessage fmt_g m mid d =
     (if mid = 0 \<and> stanza_type d = RES_STANZA_EVENT then PushManager_HandleResponse fmt_g m d
      else if stanza_type d = RES_DISCONNECTED_EVENT_FAILURE \<or> stanza_type d = RES_CONNECTED_EVENT
      then Some (False, snd (HandleChangeConn m d))
      else if stanza_type d = RES_RESUME_TASK_EVENT then Some (pm_thread m \<noteq> None, pm_post m d)
      else Some (False, None))"

section \<open>On the push thread\<close>

fun push_loop ::
  "push_env \<Rightarrow> nat list \<Rightarrow> handle_heap \<Rightarrow> Stanza \<Rightarrow> (handle_heap \<times> push_effect list) option" where
  "push_loop env [] heap d = Some (heap, [])"
| "push_loop env (a # as) heap d =
     (case HandleMessageData env (heap a) d of
        None \<Rightarrow> None
      | Some (taken, obj, ev) \<Rightarrow>
          let heap' = heap(a := (heap a)\<lparr>push_object := obj\<rparr>) in
          if taken then Some (heap', ev)
          else (case push_loop env as heap' d of
                  None \<Rightarrow> None
                | Some (heap'', ev') \<Rightarrow> Some (heap'', ev @ ev')))"

definition ProcessPushEvent ::
  "push_env \<Rightarrow> PushManagerTask \<Rightarrow> handle_heap \<Rightarrow> Stanza option \<Rightarrow> (handle_heap \<times> push_effect list) option" where
  "ProcessPushEvent env m heap d = (case d of
      None \<Rightarrow> Some (heap, []) | Some response \<Rightarrow> push_loop env (push_handles m) heap response)"

definition PushManager_OnMessage ::
  "push_env \<Rightarrow> PushManagerTask \<Rightarrow> handle_heap \<Rightarrow> Stanza option \<Rightarrow> (handle_heap \<times> push_effect list) option" where
  "PushManager_OnMessage env m heap d = ProcessPushEvent env m heap d"

section \<open>Which handle takes a response\<close>

text \<open>A response of a session whose command is the given string.\<close>

definition command_response :: "uint32 \<Rightarrow> string \<Rightarrow> Stanza \<Rightarrow> bool" where
  "command_response sid cmd d \<longleftrightarrow> stanza_type d = RES_STANZA_EVENT \<and> stanza_session d = sid \<and>
     isObject (res_json d) \<and> Value_at (res_json d) JSON_REQ_CMD = Some (stringValue cmd)"

lemma command_responseD:
  assumes "command_response sid cmd d"
  shows "stanza_type d = RES_STANZA_EVENT" "stanza_session d = sid" "res_obj_json d = Some (res_json d)"
    "\<not> isNull (res_json d)" "Value_at (res_json d) JSON_REQ_CMD = Some (stringValue cmd)"
    "json_cmd fmt_g (res_json d) = Some cmd"
proof -
  obtain v s where v: "stanza_body d = ResponseBody v s" "isObject v"
    using assms by (auto simp: command_response_def res_json_def isObject_def split: stanza_body.splits if_splits)
  then have r: "res_json d = v"
    by (cases v) (simp_all add: res_json_def isLegJson_def type_index_def isNull_def isObject_def)
  then show "res_obj_json d = Some (res_json d)" "\<not> isNull (res_json d)"
    using v by (auto simp: res_obj_json_def isNull_def isObject_def)
  show "stanza_type d = RES_STANZA_EVENT" "stanza_session d = sid"
    "Value_at (res_json d) JSON_REQ_CMD = Some (stringValue cmd)" "json_cmd fmt_g (res_json d) = Some cmd"
    using assms by (simp_all add: command_response_def json_cmd_def asString_def)
qed

lemma isNull_string [simp]: "\<not> isNull (stringValue s)"
  by (simp add: isNull_def)

text \<open>The handles that take a response of a session with a command.\<close>

definition takes :: "uint32 \<Rightarrow> string \<Rightarrow> PushHandle \<Rightarrow> bool" where
  "takes sid cmd ph \<longleftrightarrow> cmd_key ph = cmd \<and>
     (case push_object ph of IvsObject o1 \<Rightarrow> ivs_session o1 = sid | SerialObject o1 \<Rightarrow> True | _ \<Rightarrow> False)"

lemma not_takes:
  assumes "command_response sid cmd d" and "\<not> takes sid cmd ph"
  shows "HandleMessageData env ph d = Some (False, push_object ph, [])"
proof (cases "push_object ph")
  case (IvsObject o1)
  then show ?thesis using assms(2) command_responseD [OF assms(1)]
    by (auto simp: takes_def HandleMessageData_def Ivs_HandleMessageData_def asString_def)
next
  case (SerialObject o1)
  then show ?thesis using assms(2) command_responseD [OF assms(1)]
    by (simp add: takes_def HandleMessageData_def Serial_HandleMessageData_def)
next
  case (ChangeConnObject o1)
  then show ?thesis using command_responseD(1) [OF assms(1)]
    by (simp add: HandleMessageData_def ChangeConn_HandleMessageData_def stanza_types)
next
  case (ResumeObject o1)
  then show ?thesis using command_responseD(1) [OF assms(1)]
    by (simp add: HandleMessageData_def Resume_HandleMessageData_def stanza_types)
qed

lemma taken_flag:
  assumes "command_response sid cmd d" and "takes sid cmd ph"
    and "HandleMessageData env ph d = Some (taken, obj, ev)"
  shows "taken \<and> obj = push_object ph"
proof (cases "push_object ph")
  case (IvsObject o1)
  then show ?thesis using assms(2,3) command_responseD [OF assms(1)]
    by (auto simp: takes_def HandleMessageData_def Ivs_HandleMessageData_def asString_def bind_eq_Some_conv Let_def)
next
  case (SerialObject o1)
  then show ?thesis using assms(2,3) command_responseD [OF assms(1)]
    by (auto simp: takes_def HandleMessageData_def Serial_HandleMessageData_def bind_eq_Some_conv Let_def split: if_splits)
qed (use assms(2) in \<open>simp_all add: takes_def\<close>)

lemma push_loop_first:
  assumes "command_response sid cmd d"
  shows "push_loop env as heap d =
     (case find (\<lambda>a. takes sid cmd (heap a)) as of
        None \<Rightarrow> Some (heap, [])
      | Some a \<Rightarrow> map_option (\<lambda>(taken, obj, ev). (heap, ev)) (HandleMessageData env (heap a) d))"
proof (induction as)
  case (Cons a as)
  have same: "heap(a := heap a\<lparr>push_object := push_object (heap a)\<rparr>) = heap" by simp
  show ?case
  proof (cases "takes sid cmd (heap a)")
    case True
    then show ?thesis
      using taken_flag [OF assms True, of env] same
      by (cases "HandleMessageData env (heap a) d") (auto simp: Let_def)
  next
    case False
    then show ?thesis using Cons by (simp add: not_takes [OF assms] same Let_def split: option.splits)
  qed
qed simp

lemma bytes_of_string_of_bytes [simp]: "bytes_of_string (string_of_bytes bs) = bs"
proof -
  have "of_char (char_of (unat b) :: char) = b" for b :: byte
  proof -
    have "unat b < 256" using unsigned_less [of b] by simp
    then have "(of_char (char_of (unat b) :: char) :: nat) = unat b" by simp
    then have "(of_nat (of_char (char_of (unat b) :: char)) :: byte) = b" by simp
    then show ?thesis by (simp only: of_nat_of_char)
  qed
  then show ?thesis by (simp add: bytes_of_string_def string_of_bytes_def comp_def map_idI)
qed

lemma length_string_of_bytes: "length (string_of_bytes bs) = length bs"
  by (simp add: string_of_bytes_def)

lemma cstr_base64: "cstr (string_of_bytes (Base64_Encode data)) = string_of_bytes (Base64_Encode data)"
proof -
  have nz: "char_of (unat b) \<noteq> CHR 0x00" if "b \<noteq> 0" for b :: byte
  proof -
    have "unat b < 256" using unsigned_less [of b] by simp
    then have "(of_char (char_of (unat b) :: char) :: nat) = unat b" by simp
    moreover have "(of_char (CHR 0x00) :: nat) = 0" by simp
    ultimately show ?thesis using that by (metis unat_eq_zero)
  qed
  have "\<forall>b \<in> set (Base64_Encode data). char_of (unat b) \<noteq> CHR 0x00" using base64_no_NUL [of data] nz by metis
  then show ?thesis unfolding cstr_def by (subst takeWhile_eq_all_conv) (simp add: string_of_bytes_def)
qed

section \<open>Properties\<close>

text \<open>
  Serial data that a device sends is decoded to the bytes it encoded, whatever
  they are, and passed to exactly one callback, that of the serial handle registered first.
  The session of the response plays no part: with several devices, or after the callback
  was set again, the other callbacks never get the data.
\<close>

theorem serial_data_to_first_handle:
  assumes "command_response sid ''ttransmission'' d"
    and "Value_at (res_json d) ''subcmd'' = Some (Value_cstr ''send'')"
    and "Value_at (res_json d) ''response'' = Some nullValue"
    and "Value_at (res_json d) ''datalen'' = Some nullValue"
    and "Value_at (res_json d) ''comm'' = Some (Value_UInt comm)"
    and "Value_at (res_json d) ''data'' = Some (Value_cstr (string_of_bytes (Base64_Encode bytes)))"
    and "push_handles m = before @ a # after"
    and "\<forall>b \<in> set before. cmd_key (heap b) \<noteq> ''ttransmission''"
    and "cmd_key (heap a) = ''ttransmission''" and "push_object (heap a) = SerialObject o1" and "ser_func o1 = Some f"
    and "length (env_qbuf env) = 4"
  shows "ProcessPushEvent env m heap (Some d) = Some (heap, [SerialCallback f comm bytes (ser_userdata o1)])"
proof -
  have "find (\<lambda>b. takes sid ''ttransmission'' (heap b)) (before @ a # after) = Some a"
    using assms(8-10) by (induction before) (auto simp: takes_def)
  then have "push_loop env (push_handles m) heap d =
      map_option (\<lambda>(taken, obj, ev). (heap, ev)) (HandleMessageData env (heap a) d)"
    using push_loop_first [OF assms(1), of env "push_handles m" heap] assms(7) by simp
  moreover have "if_uint (res_json d) ''comm'' g r = Some (g comm r)" for g and r :: TTRANSMISSION_RESPONSE
    using assms(5) by (simp add: if_uint_def Value_UInt_def asUInt_def isUInt_def isNull_def maxUInt_def uint_up_ucast is_up)
      (use uint_bounded [of comm] in simp)
  then have p: "ParseTTransmissionResponse (res_json d) (Some TTRANSMISSION_0) =
      Some (Some (TTRANSMISSION_0\<lparr>tt_subcmd := Some ''send'', tt_comm := comm,
        tt_data := Some (string_of_bytes (Base64_Encode bytes))\<rparr>))"
    using assms(2-4,6) cstr_base64
    by (simp add: ParseTTransmissionResponse_def if_pointer_def if_cstring_def if_uint_def [of _ "''datalen''"]
        Value_cstr_def isNull_def asCString_def cstr_def [of "''send''"])
  have "fst (DecodeFromArray (env_qbuf env) (Base64_Encode bytes) (length (Base64_Encode bytes)) DO_LAX) = bytes"
    using decode_lax_encode [OF assms(12)] .
  then have "HandleMessageData env (heap a) d =
      Some (True, SerialObject o1, [SerialCallback f comm bytes (ser_userdata o1)])"
    using command_responseD [OF assms(1)] assms(9-11)
    by (simp add: HandleMessageData_def Serial_HandleMessageData_def p length_string_of_bytes)
  ultimately show ?thesis by (simp add: ProcessPushEvent_def)
qed

definition demo_serial_response :: Stanza where
  "demo_serial_response = ResponseData_new 9 (objectValue [(''cmd'', stringValue ''ttransmission''), (''comm'', Value_UInt 1),
     (''data'', Value_cstr (string_of_bytes (Base64_Encode [1, 2, 3]))), (''subcmd'', Value_cstr ''send'')]) []"

definition demo_heap :: handle_heap where
  "demo_heap a = \<lparr>cmd_key = ''ttransmission'', push_object = SerialObject \<lparr>ser_func = Some a, ser_userdata = 0\<rparr>\<rparr>"

definition demo_push :: PushManagerTask where
  "demo_push = \<lparr>pm_id = 2, pm_thread = Some 1, is_register = True, push_handle_keys = {''ttransmission''}, push_handles = [7, 8]\<rparr>"

theorem serial_data_to_first_handle_witness:
  "ProcessPushEvent \<lparr>env_fmt = (\<lambda>x. []), env_plate = demo_plate, env_qbuf = [0, 0, 0, 0], env_info = None\<rparr>
     demo_push demo_heap (Some demo_serial_response) = Some (demo_heap, [SerialCallback 7 1 [1, 2, 3] 0])"
proof -
  let ?ms = "[(''cmd'', stringValue ''ttransmission''), (''comm'', Value_UInt 1),
     (''data'', Value_cstr (string_of_bytes (Base64_Encode [1, 2, 3]))), (''subcmd'', Value_cstr ''send'')]"
  have r: "res_json demo_serial_response = objectValue ?ms"
    by (simp add: demo_serial_response_def ResponseData_new_def)
  have "command_response 9 ''ttransmission'' demo_serial_response"
    by (simp add: command_response_def r isObject_def Value_at_def cstr_def JSON_REQ_CMD_def)
       (simp add: demo_serial_response_def ResponseData_new_def)
  from serial_data_to_first_handle [OF this, of 1 "[1, 2, 3]" demo_push "[]" 7 "[8]" demo_heap "\<lparr>ser_func = Some 7, ser_userdata = 0\<rparr>" 7
      "\<lparr>env_fmt = (\<lambda>x. []), env_plate = demo_plate, env_qbuf = [0, 0, 0, 0], env_info = None\<rparr>"]
  show ?thesis by (simp add: r Value_at_def cstr_def demo_push_def demo_heap_def)
qed

text \<open>
  Removing one handle forgets its command although other handles with the same
  command stay registered: no response with that command reaches the push thread any more
  until a handle with the command is added again.
\<close>

theorem removing_handle_silences_others:
  assumes "b \<in> set (push_handles m)" and "b \<noteq> a" and "cmd_key (heap b) = cmd_key (heap a)"
    and "command_response sid (cmd_key (heap a)) d" and "pm_thread m = Some th"
  shows "b \<in> set (push_handles (RemovePushHandle heap a m)) \<and>
    PushManager_HandleMessage fmt_g (RemovePushHandle heap a m) 0 d = Some (False, None) \<and>
    PushManager_HandleMessage fmt_g (AddPushHandle heap b m) 0 d =
      Some (True, Some \<lparr>post_thread = th, post_id = pm_id m, post_data = d\<rparr>)"
proof -
  have "b \<in> set (remove1 a (push_handles m))" using assms(1,2) by simp
  then show ?thesis
    using command_responseD [OF assms(4)] assms(3,5)
    by (simp add: RemovePushHandle_def AddPushHandle_def PushManager_HandleMessage_def PushManager_HandleResponse_def pm_post_def)
qed

theorem removing_handle_silences_others_witness:
  "PushManager_HandleMessage (\<lambda>x. []) (RemovePushHandle demo_heap 8 demo_push) 0 demo_serial_response = Some (False, None)"
proof -
  have "command_response 9 (cmd_key (demo_heap 8)) demo_serial_response"
    by (simp add: command_response_def demo_serial_response_def ResponseData_new_def isObject_def Value_at_def cstr_def
        JSON_REQ_CMD_def demo_heap_def)
  with removing_handle_silences_others [of 7 demo_push 8 demo_heap 9 demo_serial_response 1 "\<lambda>x. []"]
  show ?thesis by (simp add: demo_push_def demo_heap_def)
qed

lemma push_loop_misread:
  assumes "stanza_body d = PlainStanza" and "stanza_type d = RES_CONNECTED_EVENT \<or> stanza_type d = RES_DISCONNECTED_EVENT_FAILURE"
  shows "\<exists>a \<in> set as. (case push_object (heap a) of IvsObject _ \<Rightarrow> True | SerialObject _ \<Rightarrow> True | _ \<Rightarrow> False) \<Longrightarrow>
    push_loop env as heap d = None"
proof (induction as arbitrary: heap)
  case (Cons a as)
  have none: "res_obj_json d = None" using assms(1) by (simp add: res_obj_json_def)
  show ?case
  proof (cases "HandleMessageData env (heap a) d")
    case (Some x)
    then obtain taken obj ev where x: "HandleMessageData env (heap a) d = Some (taken, obj, ev)" by (cases x) auto
    have no: "\<not> (case push_object (heap a) of IvsObject _ \<Rightarrow> True | SerialObject _ \<Rightarrow> True | _ \<Rightarrow> False)"
      using x none by (auto simp: HandleMessageData_def Ivs_HandleMessageData_def Serial_HandleMessageData_def split: push_object.splits)
    have t: "\<not> taken \<and> (case obj of IvsObject _ \<Rightarrow> True | SerialObject _ \<Rightarrow> True | _ \<Rightarrow> False) =
        (case push_object (heap a) of IvsObject _ \<Rightarrow> True | SerialObject _ \<Rightarrow> True | _ \<Rightarrow> False)"
      using x no assms(2)
      by (auto simp: HandleMessageData_def ChangeConn_HandleMessageData_def Resume_HandleMessageData_def Let_def stanza_types
          split: push_object.splits if_splits)
    let ?h = "heap(a := heap a\<lparr>push_object := obj\<rparr>)"
    obtain b where b: "b \<in> set as" "case push_object (heap b) of IvsObject _ \<Rightarrow> True | SerialObject _ \<Rightarrow> True | _ \<Rightarrow> False"
      using Cons.prems no by auto
    then have "b \<noteq> a" using no by auto
    then have "push_loop env as ?h d = None" using Cons.IH [of ?h] b by (metis fun_upd_other)
    then show ?thesis using x t by simp
  qed simp
qed simp

text \<open>
  When the connection of a device comes up or breaks and a listener for
  connection changes is registered, the stanza is posted to the push thread, where it is read
  as a response with JSON data, which it is not, as soon as a listener for recognition results or
  serial data is registered, too.
\<close>

theorem connection_event_misread:
  assumes "ty = RES_CONNECTED_EVENT \<or> ty = RES_DISCONNECTED_EVENT_FAILURE"
    and "''change_conn_status'' \<in> push_handle_keys m" and "pm_thread m = Some th"
    and "a \<in> set (push_handles m)" and "push_object (heap a) = IvsObject o1 \<or> push_object (heap a) = SerialObject o2"
  shows "PushManager_HandleMessage fmt_g m mid (Stanza_new ty sid) =
      Some (False, Some \<lparr>post_thread = th, post_id = pm_id m, post_data = Stanza_new ty sid\<rparr>) \<and>
    ProcessPushEvent env m heap (Some (Stanza_new ty sid)) = None"
proof -
  have "\<exists>a \<in> set (push_handles m). (case push_object (heap a) of IvsObject _ \<Rightarrow> True | SerialObject _ \<Rightarrow> True | _ \<Rightarrow> False)"
    using assms(4,5) by force
  from push_loop_misread [OF _ _ this, of "Stanza_new ty sid"] assms(1)
  have "push_loop env (push_handles m) heap (Stanza_new ty sid) = None" by (simp add: Stanza_new_def)
  then show ?thesis using assms(1-3)
    by (auto simp: PushManager_HandleMessage_def HandleChangeConn_def ProcessPushEvent_def pm_post_def Stanza_new_def stanza_types)
qed

theorem connection_event_misread_witness:
  "ProcessPushEvent \<lparr>env_fmt = (\<lambda>x. []), env_plate = demo_plate, env_qbuf = [0, 0, 0, 0], env_info = None\<rparr>
     (demo_push\<lparr>push_handle_keys := {''change_conn_status'', ''ttransmission''}\<rparr>) demo_heap
     (Some (Stanza_new RES_CONNECTED_EVENT 9)) = None"
  using connection_event_misread [of RES_CONNECTED_EVENT
      "demo_push\<lparr>push_handle_keys := {''change_conn_status'', ''ttransmission''}\<rparr>" 1 7 demo_heap IvsPushHandle_new
      "\<lparr>ser_func = Some 7, ser_userdata = 0\<rparr>"]
  by (simp add: demo_push_def demo_heap_def)

end
