(* ===== verification/Vz_Queuelayer.thy ===== *)
theory Vz_Queuelayer
  imports Vz_Pushmanager Vz_Sessionmanager
begin

text \<open>
  \<^verbatim>\<open>src/src/vzsdk/queuelayer.{h,cpp}\<close>: the layer between the callers and the async layer.  It
  keeps the tasks in flight by their number, hands their requests to the session manager and
  offers every answer to the tasks, the oldest first, and then to the push manager.  A
  handler runs on the queue thread and returns the new state and its effects in order; \<open>None\<close>
  is an exception that leaves the thread, or a message cast to a class it does not have.
\<close>

section \<open>State and messages\<close>

record QueueLayer =
  tasks :: "(uint32 \<times> Task) list"
  push_task :: bool

datatype queue_data =
    ReqTaskStanza Task
  | ReqPushManagerStanza
  | RemoveTaskStanza Task
  | PlainData Stanza

definition queue_type :: "queue_data \<Rightarrow> uint32" where
  "queue_type d = (case d of
      ReqTaskStanza t \<Rightarrow> message_type t
    | ReqPushManagerStanza \<Rightarrow> REQ_ADD_PUSH_TASK
    | RemoveTaskStanza t \<Rightarrow> REQ_REMOVE_TASK_EVENT
    | PlainData s \<Rightarrow> stanza_type s)"

text \<open>
  Effects: a message for the session manager on its own thread or on the queue thread, a
  direct call of its \<^verbatim>\<open>RemoveSession\<close>, and a message for the thread that waits for a task.
\<close>

datatype ql_effect =
    ManagerPost uint32 "Stanza option"
  | ManagerPostOnQueue uint32 Stanza
  | ManagerRemoveSession uint32
  | TaskPost task_post

type_synonym ql_result = "(QueueLayer \<times> ql_effect list) option"

definition QueueLayer_new :: QueueLayer where
  "QueueLayer_new = \<lparr>tasks = [], push_task = False\<rparr>"

section \<open>The table of tasks\<close>

definition AddTask :: "Task \<Rightarrow> QueueLayer \<Rightarrow> bool \<times> QueueLayer" where
  "AddTask t q =
     (if stdmap_find (task_id t) (tasks q) \<noteq> None then (False, q)
      else (True, q\<lparr>tasks := stdmap_insert (task_id t) t (tasks q)\<rparr>))"

definition RemoveTask :: "uint32 \<Rightarrow> QueueLayer \<Rightarrow> bool \<times> QueueLayer" where
  "RemoveTask i q =
     (if tasks q = [] then (False, q)
      else if stdmap_find i (tasks q) = None then (False, q)
      else (True, q\<lparr>tasks := stdmap_erase i (tasks q)\<rparr>))"

definition FindTask :: "uint32 \<Rightarrow> QueueLayer \<Rightarrow> Task option" where
  "FindTask i q = stdmap_find i (tasks q)"

definition QueueLayer_Stop :: "QueueLayer \<Rightarrow> QueueLayer" where
  "QueueLayer_Stop q = q\<lparr>tasks := []\<rparr>"

section \<open>Requests\<close>

definition OnTranslateToAsyncLayer :: "QueueLayer \<Rightarrow> queue_data \<Rightarrow> ql_result" where
  "OnTranslateToAsyncLayer q d =
     (case d of
        ReqTaskStanza t \<Rightarrow> Some (snd (AddTask t q), [ManagerPost (task_id t) (message_data t)])
      | _ \<Rightarrow> None)"

definition OnRemoveTaskMessage :: "QueueLayer \<Rightarrow> queue_data \<Rightarrow> ql_result" where
  "OnRemoveTaskMessage q d =
     (case d of RemoveTaskStanza t \<Rightarrow> Some (snd (RemoveTask (task_id t) q), []) | _ \<Rightarrow> None)"

definition OnAddPushTaskMessage :: "QueueLayer \<Rightarrow> queue_data \<Rightarrow> ql_result" where
  "OnAddPushTaskMessage q d =
     (case d of ReqPushManagerStanza \<Rightarrow> Some (q\<lparr>push_task := True\<rparr>, []) | _ \<Rightarrow> None)"

text \<open>The task stanzas carry no session.\<close>

definition QueueLayer_RemoveSession :: "QueueLayer \<Rightarrow> queue_data \<Rightarrow> ql_result" where
  "QueueLayer_RemoveSession q d =
     (case d of
        PlainData s \<Rightarrow> Some (q, [ManagerRemoveSession (stanza_session s)])
      | _ \<Rightarrow> Some (q, [ManagerRemoveSession NULL_SESSION_ID]))"

definition OnReqMessage :: "QueueLayer \<Rightarrow> queue_data \<Rightarrow> ql_result" where
  "OnReqMessage q d =
     (if queue_type d = REQ_CONNECT_SERVER \<or> queue_type d = REQ_SEND_REQUESTION \<or> queue_type d = REQ_DISCONNECT_SERVER
      then OnTranslateToAsyncLayer q d
      else if queue_type d = REQ_REMOVE_TASK_EVENT then OnRemoveTaskMessage q d
      else if queue_type d = REQ_ADD_PUSH_TASK then OnAddPushTaskMessage q d
      else if queue_type d = REQ_REMOVE_SESSION_EVENT then QueueLayer_RemoveSession q d
      else Some (q, []))"

section \<open>Answers\<close>

text \<open>The tasks in ascending order of their numbers, until one takes the message.\<close>

fun offer :: "(rat \<Rightarrow> string) \<Rightarrow> (uint32 \<times> Task) list \<Rightarrow> uint32 \<Rightarrow> Stanza \<Rightarrow> handled" where
  "offer fmt_g [] mid s = Some None"
| "offer fmt_g (e # es) mid s =
     (case HandleMessage fmt_g (snd e) mid s of
        None \<Rightarrow> None
      | Some (Some p) \<Rightarrow> Some (Some p)
      | Some None \<Rightarrow> offer fmt_g es mid s)"

text \<open>\<open>pm\<close> is the push manager in its current state.\<close>

definition OntranslateToSyncLayer ::
  "(rat \<Rightarrow> string) \<Rightarrow> PushManagerTask \<Rightarrow> QueueLayer \<Rightarrow> uint32 \<Rightarrow> queue_data \<Rightarrow> ql_result" where
  "OntranslateToSyncLayer fmt_g pm q mid d =
     (case d of
        PlainData s \<Rightarrow>
          (case offer fmt_g (tasks q) mid s of
             None \<Rightarrow> None
           | Some (Some p) \<Rightarrow> Some (q, [TaskPost p])
           | Some None \<Rightarrow>
               if push_task q then
                 (case PushManager_HandleMessage fmt_g pm mid s of
                    None \<Rightarrow> None
                  | Some (r, None) \<Rightarrow> Some (q, [])
                  | Some (r, Some p) \<Rightarrow> Some (q, [TaskPost p]))
               else Some (q, []))
      | _ \<Rightarrow> None)"

definition QueueLayer_ReConnect :: "QueueLayer \<Rightarrow> queue_data \<Rightarrow> ql_result" where
  "QueueLayer_ReConnect q d =
     (case d of
        PlainData s \<Rightarrow>
          (case stanza_body s of
             ConnectBody addr \<Rightarrow>
               Some (q, [ManagerPostOnQueue RES_RECONNECT_EVENT (s\<lparr>stanza_type := RES_RECONNECT_EVENT\<rparr>)])
           | _ \<Rightarrow> None)
      | _ \<Rightarrow> None)"

definition OnResMessage ::
  "(rat \<Rightarrow> string) \<Rightarrow> PushManagerTask \<Rightarrow> QueueLayer \<Rightarrow> uint32 \<Rightarrow> queue_data \<Rightarrow> ql_result" where
  "OnResMessage fmt_g pm q mid d =
     (if queue_type d = RES_DISCONNECTED_EVENT_SUCCEED \<or> queue_type d = RES_DISCONNECTED_EVENT_FAILURE \<or>
         queue_type d = RES_CONNECTED_EVENT \<or> queue_type d = RES_STANZA_EVENT \<or>
         queue_type d = RES_PUSH_SUCCEED \<or> queue_type d = RES_RESUME_TASK_EVENT
      then OntranslateToSyncLayer fmt_g pm q mid d
      else if queue_type d = RES_RECONNECT_EVENT then QueueLayer_ReConnect q d
      else Some (q, []))"

definition QueueLayer_OnMessage ::
  "(rat \<Rightarrow> string) \<Rightarrow> PushManagerTask \<Rightarrow> QueueLayer \<Rightarrow> uint32 \<Rightarrow> queue_data \<Rightarrow> ql_result" where
  "QueueLayer_OnMessage fmt_g pm q mid d =
     (if queue_type d > REQ_RES_BREAK then OnResMessage fmt_g pm q mid d
      else if queue_type d < REQ_RES_BREAK then OnReqMessage q d
      else Some (q, []))"

section \<open>Posting a task\<close>

text \<open>The message that \<^verbatim>\<open>Post\<close> and \<^verbatim>\<open>AsyncRemoveTask\<close> put into the queue of the queue thread.\<close>

definition QueueLayer_Post_task :: "Task \<Rightarrow> uint32 \<times> queue_data" where
  "QueueLayer_Post_task t = (task_id t, ReqTaskStanza t)"

definition AsyncRemoveTask :: "Task \<Rightarrow> uint32 \<times> queue_data" where
  "AsyncRemoveTask t = (task_id t, RemoveTaskStanza t)"

section \<open>Runs of the queue thread\<close>

text \<open>The push manager may change between two messages.\<close>

inductive queue_run ::
  "(rat \<Rightarrow> string) \<Rightarrow> QueueLayer \<Rightarrow> (PushManagerTask \<times> uint32 \<times> queue_data) list \<Rightarrow> QueueLayer \<Rightarrow> ql_effect list list \<Rightarrow> bool"
  for fmt_g where
  run_nil: "queue_run fmt_g q [] q []"
| run_snoc: "queue_run fmt_g q ins q1 ess \<Longrightarrow> QueueLayer_OnMessage fmt_g pm q1 mid d = Some (q2, es) \<Longrightarrow>
    queue_run fmt_g q (ins @ [(pm, mid, d)]) q2 (ess @ [es])"

inductive_cases queue_run_snocE: "queue_run fmt_g q (ins @ [x]) q2 ess"

section \<open>The invariant\<close>

definition QueueLayer_ok :: "QueueLayer \<Rightarrow> bool" where
  "QueueLayer_ok q \<longleftrightarrow> stdmap_ok (tasks q) \<and> (\<forall>i t. FindTask i q = Some t \<longrightarrow> task_id t = i)"

lemma QueueLayer_new_ok: "QueueLayer_ok QueueLayer_new"
  by (simp add: QueueLayer_ok_def QueueLayer_new_def FindTask_def)

lemma AddTask_ok: "QueueLayer_ok q \<Longrightarrow> QueueLayer_ok (snd (AddTask t q))"
  by (auto simp: QueueLayer_ok_def AddTask_def FindTask_def sm_find sm_inv)

lemma RemoveTask_ok: "QueueLayer_ok q \<Longrightarrow> QueueLayer_ok (snd (RemoveTask i q))"
  by (auto simp: QueueLayer_ok_def RemoveTask_def FindTask_def sm_find sm_inv)

lemma FindTask_Add:
  "QueueLayer_ok q \<Longrightarrow> FindTask i (snd (AddTask t q)) =
     (if i = task_id t \<and> FindTask i q = None then Some t else FindTask i q)"
  by (auto simp: QueueLayer_ok_def AddTask_def FindTask_def sm_find)

lemma FindTask_Remove:
  "QueueLayer_ok q \<Longrightarrow> FindTask i (snd (RemoveTask j q)) = (if i = j then None else FindTask i q)"
  by (auto simp: QueueLayer_ok_def RemoveTask_def FindTask_def sm_find)

text \<open>What a message does to the table and which task it reaches, for every kind of message.\<close>

lemma HandleMessage_post:
  "HandleMessage fmt_g t mid s = Some (Some p) \<Longrightarrow>
   post_id p = task_id t \<and> task_thread t = Some (post_thread p) \<and> post_data p = s"
  by (auto simp: HandleMessage_def Task_HandleMessage_def DisconnectTask_HandleMessage_def ReqTask_HandleMessage_def
      ReqTask_HandleResponse_def ReqRecordTask_HandleResponse_def ReqPushTask_HandleMessage_def post_to_def
      split: task_kind.splits option.splits if_splits)

lemma offer_post:
  "offer fmt_g es mid s = Some (Some p) \<Longrightarrow>
   \<exists>(i, t) \<in> set es. post_id p = task_id t \<and> task_thread t = Some (post_thread p) \<and> post_data p = s"
proof (induction es)
  case (Cons e es)
  show ?case
  proof (cases "HandleMessage fmt_g (snd e) mid s")
    case (Some r)
    show ?thesis
    proof (cases r)
      case None
      then show ?thesis using Cons Some by auto
    next
      case (Some p')
      then show ?thesis using Cons.prems \<open>HandleMessage fmt_g (snd e) mid s = Some r\<close>
        by (auto simp: case_prod_unfold dest!: HandleMessage_post)
    qed
  qed (use Cons.prems in simp)
qed simp

definition registered_post :: "PushManagerTask \<Rightarrow> QueueLayer \<Rightarrow> Stanza \<Rightarrow> task_post \<Rightarrow> bool" where
  "registered_post pm q s p \<longleftrightarrow> post_data p = s \<and>
     ((\<exists>t. FindTask (post_id p) q = Some t \<and> task_thread t = Some (post_thread p)) \<or>
      push_task q \<and> post_id p = pm_id pm \<and> pm_thread pm = Some (post_thread p))"

lemma pm_post_spec: "pm_post pm s = Some p \<Longrightarrow>
  post_data p = s \<and> post_id p = pm_id pm \<and> pm_thread pm = Some (post_thread p)"
  by (auto simp: pm_post_def split: option.splits)

lemma PushManager_post:
  "PushManager_HandleMessage fmt_g pm mid s = Some (r, Some p) \<Longrightarrow>
   post_data p = s \<and> post_id p = pm_id pm \<and> pm_thread pm = Some (post_thread p)"
  by (auto simp: PushManager_HandleMessage_def PushManager_HandleResponse_def HandleChangeConn_def
      split: if_splits option.splits dest!: pm_post_spec)

lemma OntranslateToSyncLayer_spec:
  assumes "QueueLayer_ok q" and "OntranslateToSyncLayer fmt_g pm q mid d = Some (q', es)"
  shows "q' = q \<and> (es = [] \<or> (\<exists>s p. d = PlainData s \<and> es = [TaskPost p] \<and> registered_post pm q s p))"
proof -
  obtain s where d: "d = PlainData s" using assms(2) by (cases d) (auto simp: OntranslateToSyncLayer_def)
  obtain r where r: "offer fmt_g (tasks q) mid s = Some r"
    using assms(2) by (cases "offer fmt_g (tasks q) mid s") (auto simp: OntranslateToSyncLayer_def d)
  show ?thesis
  proof (cases r)
    case None
    then show ?thesis using assms(2) r
      by (auto simp: OntranslateToSyncLayer_def d registered_post_def split: if_splits option.splits prod.splits
          dest!: PushManager_post)
  next
    case (Some p)
    obtain i t where t: "(i, t) \<in> set (tasks q)" "post_id p = task_id t" "task_thread t = Some (post_thread p)" "post_data p = s"
      using offer_post [of fmt_g "tasks q" mid s p] r Some by auto
    have ok: "stdmap_ok (tasks q)" using assms(1) by (simp add: QueueLayer_ok_def)
    then have "FindTask i q = Some t" using t(1) sm.find_entries [OF ok, of i t] by (simp add: FindTask_def)
    moreover have "task_id t = i" using assms(1) calculation by (simp add: QueueLayer_ok_def)
    ultimately have "registered_post pm q s p" using t(2-4) by (simp add: registered_post_def)
    then show ?thesis using assms(2) r Some by (auto simp: OntranslateToSyncLayer_def d)
  qed
qed

lemma OnMessage_cases:
  assumes "QueueLayer_OnMessage fmt_g pm q mid d = Some (q', es)"
  obtains "OntranslateToSyncLayer fmt_g pm q mid d = Some (q', es)" | "QueueLayer_ReConnect q d = Some (q', es)"
    | "OnTranslateToAsyncLayer q d = Some (q', es)" | "OnRemoveTaskMessage q d = Some (q', es)"
    | "OnAddPushTaskMessage q d = Some (q', es)" | "QueueLayer_RemoveSession q d = Some (q', es)" | "q' = q" "es = []"
proof -
  have "OnResMessage fmt_g pm q mid d \<in> {OntranslateToSyncLayer fmt_g pm q mid d, QueueLayer_ReConnect q d, Some (q, [])}"
    unfolding OnResMessage_def by simp
  moreover have "OnReqMessage q d \<in> {OnTranslateToAsyncLayer q d, OnRemoveTaskMessage q d, OnAddPushTaskMessage q d,
      QueueLayer_RemoveSession q d, Some (q, [])}"
    unfolding OnReqMessage_def by simp
  moreover have "QueueLayer_OnMessage fmt_g pm q mid d \<in> {OnResMessage fmt_g pm q mid d, OnReqMessage q d, Some (q, [])}"
    unfolding QueueLayer_OnMessage_def by simp
  ultimately have "Some (q', es) \<in> {OntranslateToSyncLayer fmt_g pm q mid d, QueueLayer_ReConnect q d,
      OnTranslateToAsyncLayer q d, OnRemoveTaskMessage q d, OnAddPushTaskMessage q d, QueueLayer_RemoveSession q d, Some (q, [])}"
    unfolding assms by (elim insertE emptyE; simp)
  then show thesis using that by auto
qed

lemma QueueLayer_OnMessage_spec:
  assumes ok: "QueueLayer_ok q" and m: "QueueLayer_OnMessage fmt_g pm q mid d = Some (q', es)"
  shows "QueueLayer_ok q' \<and>
    (\<forall>p. TaskPost p \<in> set es \<longrightarrow> es = [TaskPost p] \<and> q' = q \<and> (\<exists>s. d = PlainData s \<and> registered_post pm q s p)) \<and>
    (\<forall>i. FindTask i q' = FindTask i q \<or>
       (\<exists>t. d = ReqTaskStanza t \<and> task_id t = i \<and> FindTask i q' = Some t) \<or>
       (\<exists>t. d = RemoveTaskStanza t \<and> task_id t = i \<and> FindTask i q' = None))"
proof -
  from m consider (sync) "OntranslateToSyncLayer fmt_g pm q mid d = Some (q', es)"
    | (reconnect) "QueueLayer_ReConnect q d = Some (q', es)" | (async) "OnTranslateToAsyncLayer q d = Some (q', es)"
    | (remove) "OnRemoveTaskMessage q d = Some (q', es)" | (push) "OnAddPushTaskMessage q d = Some (q', es)"
    | (session) "QueueLayer_RemoveSession q d = Some (q', es)" | (none) "q' = q" "es = []"
    by (rule OnMessage_cases)
  then show ?thesis
  proof cases
    case sync
    then show ?thesis using OntranslateToSyncLayer_spec [OF ok sync] ok by auto
  next
    case async
    then obtain t where t: "d = ReqTaskStanza t" "q' = snd (AddTask t q)" "es = [ManagerPost (task_id t) (message_data t)]"
      by (cases d) (auto simp: OnTranslateToAsyncLayer_def)
    then show ?thesis using AddTask_ok [OF ok] FindTask_Add [OF ok] by simp
  next
    case remove
    then obtain t where t: "d = RemoveTaskStanza t" "q' = snd (RemoveTask (task_id t) q)" "es = []"
      by (cases d) (auto simp: OnRemoveTaskMessage_def)
    then show ?thesis using RemoveTask_ok [OF ok] FindTask_Remove [OF ok] by simp
  next
    case push
    then have "q' = q\<lparr>push_task := True\<rparr>" "es = []" by (cases d; simp add: OnAddPushTaskMessage_def)+
    then show ?thesis using ok by (simp add: QueueLayer_ok_def FindTask_def)
  qed (use ok in \<open>auto simp: QueueLayer_ReConnect_def QueueLayer_RemoveSession_def
         split: queue_data.splits stanza_body.splits\<close>)
qed

lemmas OnMessage_ok = QueueLayer_OnMessage_spec [THEN conjunct1]
  and OnMessage_posts = QueueLayer_OnMessage_spec [THEN conjunct2, THEN conjunct1, rule_format]
  and OnMessage_table = QueueLayer_OnMessage_spec [THEN conjunct2, THEN conjunct2, rule_format]

lemma queue_run_ok: "queue_run fmt_g q ins q' ess \<Longrightarrow> QueueLayer_ok q \<Longrightarrow> QueueLayer_ok q'"
  by (induction rule: queue_run.induct) (auto dest: OnMessage_ok)

section \<open>Properties\<close>

text \<open>The tasks that wait for a response of a session with a command.\<close>

definition awaits :: "uint32 \<Rightarrow> string \<Rightarrow> Task \<Rightarrow> bool" where
  "awaits sid cmd t \<longleftrightarrow> task_thread t \<noteq> None \<and> data_session t = sid \<and>
     (case task_kind t of
        ReqTask \<Rightarrow> req_cmd t = cmd
      | ReqRecordTask \<Rightarrow> cmd = ''ivs_result'' \<and> req_cmd t = ''get_record''
      | _ \<Rightarrow> False)"

lemma HandleMessage_response:
  assumes "command_response sid cmd s" and "task_id t \<noteq> 0"
  shows "HandleMessage fmt_g t 0 s =
    (if awaits sid cmd t then Some (Some \<lparr>post_thread = the (task_thread t), post_id = task_id t, post_data = s\<rparr>)
     else Some None)"
  using assms(2) command_responseD(1,2) [OF assms(1)] command_responseD(6) [OF assms(1), of fmt_g]
  by (cases "task_thread t"; cases "task_kind t")
     (simp_all add: awaits_def HandleMessage_def Task_HandleMessage_def DisconnectTask_HandleMessage_def
       ReqTask_HandleMessage_def ReqTask_HandleResponse_def ReqRecordTask_HandleResponse_def
       ReqPushTask_HandleMessage_def post_to_def)

lemma offer_response:
  assumes "command_response sid cmd s"
  shows "\<forall>e \<in> set es. task_id (snd e) = fst e \<and> fst e \<noteq> 0 \<Longrightarrow> offer fmt_g es 0 s =
    Some (map_option (\<lambda>(i, t). \<lparr>post_thread = the (task_thread t), post_id = i, post_data = s\<rparr>)
      (find (\<lambda>e. awaits sid cmd (snd e)) es))"
  by (induction es) (auto simp: HandleMessage_response [OF assms])

lemma find_oldest:
  assumes "stdmap_ok m" and "find P m = Some (i, t)" and "(j, t') \<in> set m" and "P (j, t')"
  shows "i \<le> j"
  using assms
proof (induction m)
  case (Cons e m)
  then show ?case by (auto simp: stdmap_ok_def split: if_splits intro: less_imp_le)
qed simp

lemma OnMessage_response:
  assumes "QueueLayer_ok q" and "FindTask 0 q = None" and "command_response sid cmd s"
  shows "QueueLayer_OnMessage fmt_g pm q 0 (PlainData s) = Some (q,
      case find (\<lambda>e. awaits sid cmd (snd e)) (tasks q) of
        Some (i, t) \<Rightarrow> [TaskPost \<lparr>post_thread = the (task_thread t), post_id = i, post_data = s\<rparr>]
      | None \<Rightarrow> if push_task q \<and> pm_thread pm \<noteq> None \<and> cmd \<in> push_handle_keys pm
          then [TaskPost \<lparr>post_thread = the (pm_thread pm), post_id = pm_id pm, post_data = s\<rparr>] else []) \<and>
    (\<forall>i t j t'. find (\<lambda>e. awaits sid cmd (snd e)) (tasks q) = Some (i, t) \<and> (j, t') \<in> set (tasks q) \<and> awaits sid cmd t' \<longrightarrow>
      i \<le> j)"
proof -
  have map: "stdmap_ok (tasks q)" using assms(1) by (simp add: QueueLayer_ok_def)
  have "\<forall>e \<in> set (tasks q). task_id (snd e) = fst e \<and> fst e \<noteq> 0"
  proof
    fix e assume "e \<in> set (tasks q)"
    then have "FindTask (fst e) q = Some (snd e)" using sm.find_entries [OF map, of "fst e" "snd e"] by (simp add: FindTask_def)
    then show "task_id (snd e) = fst e \<and> fst e \<noteq> 0" using assms(1,2) by (auto simp: QueueLayer_ok_def)
  qed
  note offer = offer_response [OF assms(3) this]
  have ty: "stanza_type s = RES_STANZA_EVENT" and c: "json_cmd fmt_g (res_json s) = Some cmd"
    using command_responseD [OF assms(3)] by auto
  have "QueueLayer_OnMessage fmt_g pm q 0 (PlainData s) = OntranslateToSyncLayer fmt_g pm q 0 (PlainData s)"
    by (simp add: QueueLayer_OnMessage_def OnResMessage_def queue_type_def ty stanza_types)
  moreover have "OntranslateToSyncLayer fmt_g pm q 0 (PlainData s) = Some (q,
      case find (\<lambda>e. awaits sid cmd (snd e)) (tasks q) of
        Some (i, t) \<Rightarrow> [TaskPost \<lparr>post_thread = the (task_thread t), post_id = i, post_data = s\<rparr>]
      | None \<Rightarrow> if push_task q \<and> pm_thread pm \<noteq> None \<and> cmd \<in> push_handle_keys pm
          then [TaskPost \<lparr>post_thread = the (pm_thread pm), post_id = pm_id pm, post_data = s\<rparr>] else [])"
    by (auto simp: OntranslateToSyncLayer_def offer PushManager_HandleMessage_def PushManager_HandleResponse_def ty c pm_post_def
        split: option.splits)
  ultimately show ?thesis using find_oldest [OF map] by fastforce
qed

text \<open>
  C3 (functional).  A response that belongs to no task number goes to exactly one waiting
  thread: that of the oldest task that waits for this command of this session; if there
  is none, to the push thread exactly if the command has a listener.  The table of tasks
  does not change.
\<close>

theorem response_to_oldest_task:
  assumes "QueueLayer_ok q" and "FindTask 0 q = None" and "command_response sid cmd s"
  shows "QueueLayer_OnMessage fmt_g pm q 0 (PlainData s) = Some (q,
      case find (\<lambda>e. awaits sid cmd (snd e)) (tasks q) of
        Some (i, t) \<Rightarrow> [TaskPost \<lparr>post_thread = the (task_thread t), post_id = i, post_data = s\<rparr>]
      | None \<Rightarrow> if push_task q \<and> pm_thread pm \<noteq> None \<and> cmd \<in> push_handle_keys pm
          then [TaskPost \<lparr>post_thread = the (pm_thread pm), post_id = pm_id pm, post_data = s\<rparr>] else []) \<and>
    (\<forall>i t j t'. find (\<lambda>e. awaits sid cmd (snd e)) (tasks q) = Some (i, t) \<and> (j, t') \<in> set (tasks q) \<and> awaits sid cmd t' \<longrightarrow>
      i \<le> j)"
  by (rule OnMessage_response [OF assms])

definition demo_task :: "uint32 \<Rightarrow> nat \<Rightarrow> Task" where
  "demo_task i th = \<lparr>task_kind = ReqTask, task_id = i, task_timeout = 5000, task_thread = Some th,
     message_data = Some (RequestData_new 9 nullValue False), req_cmd = ''getsn''\<rparr>"

definition demo_queue :: QueueLayer where
  "demo_queue = \<lparr>tasks = [(3, demo_task 3 30), (4, demo_task 4 40)], push_task = False\<rparr>"

lemma demo_queue_ok: "QueueLayer_ok demo_queue"
  by (auto simp: demo_queue_def QueueLayer_ok_def FindTask_def stdmap_ok_def demo_task_def split: if_splits)

definition demo_response :: Stanza where
  "demo_response = ResponseData_new 9 (objectValue [(''cmd'', stringValue ''getsn'')]) []"

lemma demo_response_command: "command_response 9 ''getsn'' demo_response"
  by (simp add: command_response_def demo_response_def ResponseData_new_def isObject_def Value_at_def cstr_def JSON_REQ_CMD_def)

theorem response_to_oldest_task_witness:
  "QueueLayer_OnMessage (\<lambda>x. []) demo_push demo_queue 0 (PlainData demo_response) =
     Some (demo_queue, [TaskPost \<lparr>post_thread = 30, post_id = 3, post_data = demo_response\<rparr>])"
proof -
  have "FindTask 0 demo_queue = None" by (simp add: demo_queue_def FindTask_def)
  from response_to_oldest_task [OF demo_queue_ok this demo_response_command, of "\<lambda>x. []" demo_push]
  show ?thesis by (simp add: demo_queue_def awaits_def demo_task_def data_session_def RequestData_new_def)
qed

lemma run_keeps_out:
  assumes "queue_run fmt_g q ins q' ess" and "QueueLayer_ok q" and "FindTask i q = None"
    and "\<forall>(pm, mid, d) \<in> set ins. pm_id pm \<noteq> i \<and> (\<forall>t. d = ReqTaskStanza t \<longrightarrow> task_id t \<noteq> i)"
  shows "FindTask i q' = None \<and> (\<forall>es \<in> set ess. \<forall>p. TaskPost p \<in> set es \<longrightarrow> post_id p \<noteq> i)"
  using assms
proof (induction rule: queue_run.induct)
  case (run_snoc q ins q1 ess pm mid d q2 es)
  then have 1: "FindTask i q1 = None" "\<forall>es \<in> set ess. \<forall>p. TaskPost p \<in> set es \<longrightarrow> post_id p \<noteq> i"
    and i: "pm_id pm \<noteq> i" "\<forall>t. d = ReqTaskStanza t \<longrightarrow> task_id t \<noteq> i" by auto
  have q1: "QueueLayer_ok q1" using queue_run_ok [OF run_snoc(1) run_snoc(4)] .
  have "post_id p \<noteq> i" if "TaskPost p \<in> set es" for p
    using OnMessage_posts [OF q1 run_snoc(2) that] 1(1) i(1) by (auto simp: registered_post_def)
  moreover have "FindTask i q2 = None" using OnMessage_table [OF q1 run_snoc(2), of i] 1(1) i(2) by auto
  ultimately show ?case using 1(2) by auto
qed simp

text \<open>
  C6 (safety).  In every run of the queue thread from its start: an answer is delivered to at
  most one thread, and that is the thread of a task that is in the table, or of the
  registered push manager, and delivering it changes nothing; and once a task has been
  removed, no answer is delivered for it whatever messages follow, unless the same number
  is posted again or is the push manager's.
\<close>

theorem answers_only_to_registered_tasks:
  assumes "queue_run fmt_g QueueLayer_new ins q ess"
  shows "(\<forall>pm mid d q' es p. QueueLayer_OnMessage fmt_g pm q mid d = Some (q', es) \<and> TaskPost p \<in> set es \<longrightarrow>
      es = [TaskPost p] \<and> q' = q \<and> d = PlainData (post_data p) \<and>
      ((\<exists>t. FindTask (post_id p) q = Some t \<and> task_id t = post_id p \<and> task_thread t = Some (post_thread p)) \<or>
       push_task q \<and> post_id p = pm_id pm \<and> pm_thread pm = Some (post_thread p))) \<and>
    (\<forall>pm mid t q1 es1 later q2 ess2.
      QueueLayer_OnMessage fmt_g pm q mid (RemoveTaskStanza t) = Some (q1, es1) \<and> queue_run fmt_g q1 later q2 ess2 \<and>
      (\<forall>(pm, mid, d) \<in> set later. pm_id pm \<noteq> task_id t \<and> (\<forall>t'. d = ReqTaskStanza t' \<longrightarrow> task_id t' \<noteq> task_id t)) \<longrightarrow>
      (\<forall>es \<in> set ess2. \<forall>p. TaskPost p \<in> set es \<longrightarrow> post_id p \<noteq> task_id t))"
proof -
  have ok: "QueueLayer_ok q" using queue_run_ok [OF assms QueueLayer_new_ok] .
  show ?thesis
  proof (intro conjI allI impI)
    fix pm mid d q' es p
    assume a: "QueueLayer_OnMessage fmt_g pm q mid d = Some (q', es) \<and> TaskPost p \<in> set es"
    from OnMessage_posts [OF ok conjunct1 [OF a] conjunct2 [OF a]]
    obtain s where s: "es = [TaskPost p]" "q' = q" "d = PlainData s" "registered_post pm q s p" by (elim conjE exE)
    have id: "FindTask i q = Some t \<Longrightarrow> task_id t = i" for i t using ok by (simp add: QueueLayer_ok_def)
    show "es = [TaskPost p]" "q' = q" by (rule s)+
    show "d = PlainData (post_data p)" using s(3,4) by (simp add: registered_post_def)
    show "(\<exists>t. FindTask (post_id p) q = Some t \<and> task_id t = post_id p \<and> task_thread t = Some (post_thread p)) \<or>
       push_task q \<and> post_id p = pm_id pm \<and> pm_thread pm = Some (post_thread p)"
      using s(4) id unfolding registered_post_def by blast
  next
    fix pm :: PushManagerTask and mid t q1 es1 later q2 ess2
    assume a: "QueueLayer_OnMessage fmt_g pm q mid (RemoveTaskStanza t) = Some (q1, es1) \<and> queue_run fmt_g q1 later q2 ess2 \<and>
      (\<forall>(pm, mid, d) \<in> set later. pm_id pm \<noteq> task_id t \<and> (\<forall>t'. d = ReqTaskStanza t' \<longrightarrow> task_id t' \<noteq> task_id t))"
    then have "q1 = snd (RemoveTask (task_id t) q)"
      by (simp add: QueueLayer_OnMessage_def queue_type_def OnReqMessage_def OnRemoveTaskMessage_def stanza_types)
    then have "FindTask (task_id t) q1 = None" "QueueLayer_ok q1"
      using FindTask_Remove [OF ok] RemoveTask_ok [OF ok] by simp_all
    then show "\<forall>es \<in> set ess2. \<forall>p. TaskPost p \<in> set es \<longrightarrow> post_id p \<noteq> task_id t"
      using run_keeps_out [of fmt_g q1 later q2 ess2 "task_id t"] a by auto
  qed
qed

theorem answers_only_to_registered_tasks_witness:
  "\<exists>q es p. QueueLayer_OnMessage (\<lambda>x. []) demo_push q 0 (PlainData demo_response) = Some (q, es) \<and>
     es = [TaskPost p] \<and> (\<exists>t. FindTask (post_id p) q = Some t \<and> task_thread t = Some (post_thread p))"
proof -
  let ?q = "\<lparr>tasks = [(3, demo_task 3 30)], push_task = False\<rparr>"
  let ?p = "\<lparr>post_thread = 30, post_id = 3, post_data = demo_response\<rparr>"
  have "QueueLayer_OnMessage (\<lambda>x. []) demo_push QueueLayer_new 3 (ReqTaskStanza (demo_task 3 30)) =
      Some (?q, [ManagerPost 3 (message_data (demo_task 3 30))])"
    by (simp add: QueueLayer_OnMessage_def queue_type_def message_type_def demo_task_def OnReqMessage_def
        OnTranslateToAsyncLayer_def AddTask_def QueueLayer_new_def stdmap_insert_def stanza_types)
  from run_snoc [OF run_nil this]
  have r: "queue_run (\<lambda>x. []) QueueLayer_new [(demo_push, 3, ReqTaskStanza (demo_task 3 30))] ?q
      [[ManagerPost 3 (message_data (demo_task 3 30))]]" by simp
  have ok: "QueueLayer_ok ?q" using queue_run_ok [OF r QueueLayer_new_ok] .
  have "HandleMessage (\<lambda>x. []) (demo_task 3 30) 0 demo_response = Some (Some ?p)"
    by (subst HandleMessage_response [OF demo_response_command])
       (simp_all add: demo_task_def awaits_def data_session_def RequestData_new_def)
  then have m: "QueueLayer_OnMessage (\<lambda>x. []) demo_push ?q 0 (PlainData demo_response) = Some (?q, [TaskPost ?p])"
    using command_responseD(1) [OF demo_response_command]
    by (simp add: QueueLayer_OnMessage_def OnResMessage_def OntranslateToSyncLayer_def queue_type_def stanza_types)
  from answers_only_to_registered_tasks [OF r, THEN conjunct1, rule_format, of demo_push 0 "PlainData demo_response" ?q "[TaskPost ?p]" ?p] m
  show ?thesis by (intro exI [of _ ?q] exI [of _ "[TaskPost ?p]"] exI [of _ ?p]) (auto simp: demo_push_def)
qed

lemma Value_at_not_object: "\<not> isObject v \<Longrightarrow> \<not> isNull v \<Longrightarrow> Value_at v k = None"
  by (cases v) (simp_all add: Value_at_def isObject_def isNull_def)

lemma res_json_not_null: "stanza_body s = ResponseBody v data \<Longrightarrow> res_json s = v"
  by (cases v) (simp_all add: res_json_def isLegJson_def type_index_def isNull_def)

lemma offer_bad_response:
  assumes "json_cmd fmt_g (res_json s) = None"
  shows "\<forall>e \<in> set es. task_id (snd e) \<noteq> 0 \<Longrightarrow> offer fmt_g es 0 s = None \<or> offer fmt_g es 0 s = Some None"
proof (induction es)
  case (Cons e es)
  have "HandleMessage fmt_g (snd e) 0 s = None \<or> HandleMessage fmt_g (snd e) 0 s = Some None"
    using Cons.prems assms
    by (cases "task_thread (snd e)"; cases "task_kind (snd e)")
       (simp_all add: HandleMessage_def Task_HandleMessage_def DisconnectTask_HandleMessage_def ReqTask_HandleMessage_def
         ReqTask_HandleResponse_def ReqRecordTask_HandleResponse_def ReqPushTask_HandleMessage_def)
  then show ?case using Cons by auto
qed simp

text \<open>
  A device that sends a JSON text whose root is neither an object nor null, such
  as \<^verbatim>\<open>[1]\<close> or \<^verbatim>\<open>"x"\<close>, makes the JSON library throw on the queue thread, whatever tasks are
  waiting: the command is looked up in the value without a check of its type.
\<close>

theorem non_object_response_throws:
  assumes "QueueLayer_ok q" and "FindTask 0 q = None" and "push_task q" and "pm_thread pm = Some th"
    and "\<not> isObject v" and "\<not> isNull v"
  shows "QueueLayer_OnMessage fmt_g pm q 0 (PlainData (ResponseData_new sid v data)) = None"
proof -
  let ?s = "ResponseData_new sid v data"
  have map: "stdmap_ok (tasks q)" using assms(1) by (simp add: QueueLayer_ok_def)
  have ids: "\<forall>e \<in> set (tasks q). task_id (snd e) \<noteq> 0"
  proof
    fix e assume "e \<in> set (tasks q)"
    then have f: "FindTask (fst e) q = Some (snd e)" using sm.find_entries [OF map, of "fst e" "snd e"] by (simp add: FindTask_def)
    then have "task_id (snd e) = fst e" using assms(1) by (simp add: QueueLayer_ok_def)
    then show "task_id (snd e) \<noteq> 0" using f assms(2) by auto
  qed
  have bad: "json_cmd fmt_g (res_json ?s) = None"
    using Value_at_not_object [OF assms(5,6)] by (simp add: json_cmd_def ResponseData_new_def)
  have "PushManager_HandleMessage fmt_g pm 0 ?s = None"
    using assms(4) bad by (simp add: PushManager_HandleMessage_def PushManager_HandleResponse_def ResponseData_new_def)
  then show ?thesis
    using offer_bad_response [OF bad ids] assms(3)
    by (auto simp: QueueLayer_OnMessage_def OnResMessage_def OntranslateToSyncLayer_def queue_type_def
        ResponseData_new_def stanza_types)
qed

theorem non_object_response_throws_witness:
  "QueueLayer_OnMessage (\<lambda>x. []) demo_push (demo_queue\<lparr>push_task := True\<rparr>) 0
     (PlainData (ResponseData_new 7 (arrayValue [Value_Int 1]) ''[1]'')) = None"
proof -
  have "QueueLayer_ok (demo_queue\<lparr>push_task := True\<rparr>)" "FindTask 0 (demo_queue\<lparr>push_task := True\<rparr>) = None"
    using demo_queue_ok by (simp_all add: QueueLayer_ok_def FindTask_def demo_queue_def)
  from non_object_response_throws [OF this, of demo_push 1 "arrayValue [Value_Int 1]"]
  show ?thesis by (simp add: demo_push_def isObject_def isNull_def)
qed

end
