(* ===== verification/Vz_Service.thy ===== *)
theory Vz_Service
  imports Vz_Pushmanager Vz_Sessionmanager
begin

text \<open>
  \<^verbatim>\<open>src/src/vzsdk/vzsdkservice.{h,cpp}\<close>, \<^verbatim>\<open>vzmodulebase.{h,cpp}\<close> and \<^verbatim>\<open>vzconnectdev.{h,cpp}\<close>: the
  service of one device, the way its modules run a task, and the module that connects.
  \<open>Sdk\<close> is the state all services share, with the trace of what they did to the layers below.
  What the calling thread receives while it waits for a task, and the clock, are arguments by the
  number of the task, the table of sessions is an argument where the code reads it.
\<close>

section \<open>State\<close>

datatype sdk_effect =
    TaskPosted Task
  | TaskRemoved Task
  | QueuePosted uint32 Stanza
  | QueueDelayed int uint32 Stanza
  | WlistCallback nat uint32 nat VZ_LPR_WLIST_VEHICLE

record Sdk =
  task_counter :: uint32
  push_manager :: "PushManagerTask option"
  handles :: handle_heap
  next_handle :: nat
  sdk_trace :: "sdk_effect list"

record sdk_env =
  se_fmt :: "rat \<Rightarrow> string"
  se_current :: nat
  se_start :: "uint32 \<Rightarrow> uint32"
  se_turns :: "uint32 \<Rightarrow> (wait_msg option \<times> uint32) list"
  se_sessions :: SessionManager

record VzConnectDev =
  connect_data :: "Stanza option"
  change_conn_pushhandle :: "nat option"

record VzRecognition =
  ivs_handle :: nat
  rg_enable_image :: bool
  resume_handle :: nat
  resume_enable_image :: bool
  resume_plate_func :: "nat option"
  resume_user_data :: nat

record VzWlistDev =
  wl_func :: "nat option"
  wl_user_data :: nat

record VzsdkService =
  connect_dev :: VzConnectDev
  recongition :: VzRecognition
  whist_dev :: VzWlistDev
  conn_callback :: "nat option"
  conn_user_data :: nat

text \<open>
  A call returns, or is still waiting when the turns are used up, or does not return
  because of an exception or an invalid pointer.
\<close>

datatype 'a call = Ret 'a | Blocked | Faulted

definition emit :: "sdk_effect \<Rightarrow> Sdk \<Rightarrow> Sdk" where
  "emit e st = st\<lparr>sdk_trace := sdk_trace st @ [e]\<rparr>"

definition DEFAULT_RESULT_TIMEOUT :: int where "DEFAULT_RESULT_TIMEOUT = 0"

definition DEFAULT_TIMEOUT :: uint32 where "DEFAULT_TIMEOUT = 5000"

definition REQ_SUCCEED :: int where "REQ_SUCCEED = 0"

definition SESSION_NOT_FOUND :: int where "SESSION_NOT_FOUND = - 2"

definition UNKOWN_ERROR :: int where "UNKOWN_ERROR = - 3"

definition REQ_FAILED :: int where "REQ_FAILED = - 4"

lemmas result_codes =
  DEFAULT_RESULT_TIMEOUT_def REQ_SUCCEED_def SESSION_NOT_FOUND_def UNKOWN_ERROR_def REQ_FAILED_def

section \<open>Push handles of the services\<close>

definition new_handle :: "string \<Rightarrow> push_object \<Rightarrow> Sdk \<Rightarrow> nat \<times> Sdk" where
  "new_handle key obj st =
     (next_handle st,
      st\<lparr>handles := (handles st)(next_handle st := \<lparr>cmd_key = key, push_object = obj\<rparr>), next_handle := next_handle st + 1\<rparr>)"

definition Service_AddPushHandle :: "nat \<Rightarrow> Sdk \<Rightarrow> Sdk" where
  "Service_AddPushHandle a st = (case push_manager st of
      None \<Rightarrow> st | Some m \<Rightarrow> st\<lparr>push_manager := Some (AddPushHandle (handles st) a m)\<rparr>)"

definition Service_RemovePushHandle :: "nat \<Rightarrow> Sdk \<Rightarrow> Sdk" where
  "Service_RemovePushHandle a st = (case push_manager st of
      None \<Rightarrow> st | Some m \<Rightarrow> st\<lparr>push_manager := Some (RemovePushHandle (handles st) a m)\<rparr>)"

text \<open>A call on the object behind a handle; the cast to another class of handle is invalid.\<close>

definition set_object :: "nat \<Rightarrow> push_object \<Rightarrow> Sdk \<Rightarrow> Sdk" where
  "set_object a obj st = st\<lparr>handles := (handles st)(a := (handles st a)\<lparr>push_object := obj\<rparr>)\<rparr>"

definition on_ivs :: "(IvsPushHandle \<Rightarrow> IvsPushHandle) \<Rightarrow> nat \<Rightarrow> Sdk \<Rightarrow> Sdk option" where
  "on_ivs f a st = (case push_object (handles st a) of
      IvsObject o1 \<Rightarrow> Some (set_object a (IvsObject (f o1)) st) | _ \<Rightarrow> None)"

definition on_resume :: "(ResumePushHandle \<Rightarrow> ResumePushHandle) \<Rightarrow> nat \<Rightarrow> Sdk \<Rightarrow> Sdk option" where
  "on_resume f a st = (case push_object (handles st a) of
      ResumeObject o1 \<Rightarrow> Some (set_object a (ResumeObject (f o1)) st) | _ \<Rightarrow> None)"

definition on_change_conn :: "(ChangeConnPushHandle \<Rightarrow> ChangeConnPushHandle) \<Rightarrow> nat \<Rightarrow> Sdk \<Rightarrow> Sdk option" where
  "on_change_conn f a st = (case push_object (handles st a) of
      ChangeConnObject o1 \<Rightarrow> Some (set_object a (ChangeConnObject (f o1)) st) | _ \<Rightarrow> None)"

section \<open>Running a task\<close>

definition SyncProcessTask :: "sdk_env \<Rightarrow> Task \<Rightarrow> Sdk \<Rightarrow> wait_result \<times> Sdk" where
  "SyncProcessTask env t st =
     (let r = WaitTaskDone (se_start env (task_id t)) t (se_turns env (task_id t));
          st1 = emit (TaskPosted t) st
      in (r, if r = StillWaiting then st1 else emit (TaskRemoved t) st1))"

definition GetSessionID :: "VzConnectDev \<Rightarrow> uint32" where
  "GetSessionID c = (case connect_data c of None \<Rightarrow> SESSION_ID_INVALUE | Some d \<Rightarrow> stanza_session d)"

definition Service_GetSessionID :: "VzsdkService \<Rightarrow> uint32" where
  "Service_GetSessionID svc = GetSessionID (connect_dev svc)"

definition GetConnState :: "sdk_env \<Rightarrow> VzConnectDev \<Rightarrow> ConnState" where
  "GetConnState env c = (case FindSession (GetSessionID c) (se_sessions env) of
      Some s \<Rightarrow> Session_GetState s | None \<Rightarrow> CS_CLOSED)"

definition GetIsConn :: "sdk_env \<Rightarrow> VzsdkService \<Rightarrow> bool" where
  "GetIsConn env svc \<longleftrightarrow> GetConnState env (connect_dev svc) = CS_CONNECTED"

text \<open>\<open>None\<close>: the constructor of the task throws.\<close>

definition SyncProcessReqTask ::
  "sdk_env \<Rightarrow> VzsdkService \<Rightarrow> Value \<Rightarrow> nat option \<Rightarrow> Sdk \<Rightarrow> wait_result option \<times> Sdk" where
  "SyncProcessReqTask env svc req_json thread st =
     (if Service_GetSessionID svc = 0 then (Some NullMessage, st)
      else case ReqTask_new (se_fmt env) ReqTask DEFAULT_TIMEOUT (se_current env) thread (task_counter st)
                  (Service_GetSessionID svc) req_json of
             None \<Rightarrow> (None, st)
           | Some (t, counter) \<Rightarrow>
               (case SyncProcessTask env t (st\<lparr>task_counter := counter\<rparr>) of (r, st') \<Rightarrow> (Some r, st')))"

text \<open>The test that follows every wait: without a message, or without its handler, the call has failed.\<close>

definition on_message :: "wait_result option \<Rightarrow> 'a \<Rightarrow> (Stanza option \<Rightarrow> 'a call) \<Rightarrow> 'a call" where
  "on_message r failed k = (case r of
      None \<Rightarrow> Faulted
    | Some StillWaiting \<Rightarrow> Blocked
    | Some NullMessage \<Rightarrow> Ret failed
    | Some (Returned m) \<Rightarrow> if wm_handler m then k (wm_data m) else Ret failed)"

definition PostReqTask :: "sdk_env \<Rightarrow> VzsdkService \<Rightarrow> Value \<Rightarrow> Sdk \<Rightarrow> bool call \<times> Sdk" where
  "PostReqTask env svc req_json st =
     (if Service_GetSessionID svc = 0 then (Ret False, st)
      else if \<not> GetIsConn env svc then (Ret False, st)
      else case ReqPushTask_new DEFAULT_TIMEOUT (se_current env) (task_counter st) (Service_GetSessionID svc) req_json of
             (t, counter) \<Rightarrow>
               (case SyncProcessTask env t (st\<lparr>task_counter := counter\<rparr>) of
                  (r, st') \<Rightarrow> (on_message (Some r) False (\<lambda>d. Ret True), st')))"

text \<open>
  The two shapes of a module operation: generate the command, post it and answer by
  whether it was taken; or generate the command, wait for the response and read it.
\<close>

definition post_request :: "sdk_env \<Rightarrow> VzsdkService \<Rightarrow> Value option \<Rightarrow> Sdk \<Rightarrow> int call \<times> Sdk" where
  "post_request env svc req st = (case req of
      None \<Rightarrow> (Faulted, st)
    | Some req_json \<Rightarrow>
        (case PostReqTask env svc req_json st of
           (Ret ok, st') \<Rightarrow> (Ret (if ok then REQ_SUCCEED else - 1), st')
         | (Blocked, st') \<Rightarrow> (Blocked, st')
         | (Faulted, st') \<Rightarrow> (Faulted, st')))"

definition sync_request ::
  "sdk_env \<Rightarrow> VzsdkService \<Rightarrow> Value option \<Rightarrow> 'a \<Rightarrow> (Stanza option \<Rightarrow> 'a call) \<Rightarrow> Sdk \<Rightarrow> 'a call \<times> Sdk" where
  "sync_request env svc req failed k st = (case req of
      None \<Rightarrow> (Faulted, st)
    | Some req_json \<Rightarrow>
        (case SyncProcessReqTask env svc req_json None st of (r, st') \<Rightarrow> (on_message r failed k, st')))"

section \<open>Connecting\<close>

text \<open>The getter takes the callback by value, so the variables of its caller stay null.\<close>

definition Service_GetCommonNotifyCallBack :: "VzsdkService \<Rightarrow> nat option \<times> nat \<Rightarrow> nat option \<times> nat" where
  "Service_GetCommonNotifyCallBack svc out = out"

definition ReConnectServer :: "VzConnectDev \<Rightarrow> Sdk \<Rightarrow> int \<times> VzConnectDev \<times> Sdk" where
  "ReConnectServer c st = (case connect_data c of
      None \<Rightarrow> (sint SESSION_ID_INVALUE, c, st)
    | Some d \<Rightarrow>
        let d' = d\<lparr>stanza_type := RES_RECONNECT_EVENT\<rparr>
        in (REQ_SUCCEED, c\<lparr>connect_data := Some d'\<rparr>, emit (QueuePosted RES_RECONNECT_EVENT d') st))"

definition ChangeConn :: "VzsdkService \<Rightarrow> Sdk \<Rightarrow> VzsdkService \<times> Sdk" where
  "ChangeConn svc st =
     (let (f, u) = Service_GetCommonNotifyCallBack svc (None, 0);
          obj = SetConnCallBack f u \<lparr>cc_session = Service_GetSessionID svc, cc_callback = None, cc_userdata = 0\<rparr>;
          (a, st1) = new_handle ''change_conn_status'' (ChangeConnObject obj) st
      in (svc\<lparr>connect_dev := (connect_dev svc)\<lparr>change_conn_pushhandle := Some a\<rparr>\<rparr>, Service_AddPushHandle a st1))"

definition set_connect_data :: "Stanza option \<Rightarrow> VzsdkService \<Rightarrow> VzsdkService" where
  "set_connect_data d svc = svc\<lparr>connect_dev := (connect_dev svc)\<lparr>connect_data := d\<rparr>\<rparr>"

definition ConnectServer ::
  "sdk_env \<Rightarrow> SocketAddress \<Rightarrow> VzsdkService \<Rightarrow> Sdk \<Rightarrow> int call \<times> VzsdkService \<times> Sdk" where
  "ConnectServer env remote_address svc st =
     (let (t, counter) = ConnectTask_new DEFAULT_TIMEOUT (se_current env) (task_counter st) remote_address;
          (r, st1) = SyncProcessTask env t (st\<lparr>task_counter := counter\<rparr>);
          d = ReqConnectData_new remote_address;
          svc1 = set_connect_data (Some d) svc
      in (case on_message (Some r) None (\<lambda>stanza. Ret (Some stanza)) of
            Blocked \<Rightarrow> (Blocked, svc, st1)
          | Faulted \<Rightarrow> (Faulted, svc1, st1)
          | Ret None \<Rightarrow> (Ret DEFAULT_RESULT_TIMEOUT, svc1, st1)
          | Ret (Some None) \<Rightarrow> (Ret (sint SESSION_ID_INVALUE), svc1, st1)
          | Ret (Some (Some stanza)) \<Rightarrow>
              let svc2 = set_connect_data (Some (d\<lparr>stanza_session := stanza_session stanza\<rparr>)) svc
              in if GetConnState env (connect_dev svc2) = CS_CONNECTED then
                   let (_, c, st2) = ReConnectServer (connect_dev svc2) st1;
                       (svc3, st3) = ChangeConn (svc2\<lparr>connect_dev := c\<rparr>) st2
                   in (Ret (sint (stanza_session stanza)), svc3, st3)
                 else (Ret (sint SESSION_ID_INVALUE),
                       set_connect_data (Some (d\<lparr>stanza_session := SESSION_ID_INVALUE\<rparr>)) svc, st1)))"

text \<open>
  The signal \<^verbatim>\<open>SignalDeviceDisconnecing\<close> runs the slot of the recognition module, if that is
  still alive.
\<close>

definition SlotDisConnecting :: "VzRecognition \<Rightarrow> Sdk \<Rightarrow> Sdk option" where
  "SlotDisConnecting rg st = on_resume DisConnecting (resume_handle rg) st"

definition DisconnectServer :: "sdk_env \<Rightarrow> VzRecognition option \<Rightarrow> VzConnectDev \<Rightarrow> Sdk \<Rightarrow> int call \<times> Sdk" where
  "DisconnectServer env rg c st = (case connect_data c of
      None \<Rightarrow> (Faulted, st)
    | Some d \<Rightarrow>
        if stanza_session d = SESSION_ID_INVALUE then (Ret (sint SESSION_ID_INVALUE), st)
        else (case (case rg of None \<Rightarrow> Some st | Some rg \<Rightarrow> SlotDisConnecting rg st) of
               None \<Rightarrow> (Faulted, st)
             | Some st1 \<Rightarrow>
                 let (t, counter) = DisconnectTask_new DEFAULT_TIMEOUT (se_current env) (task_counter st1) (stanza_session d);
                     (r, st2) = SyncProcessTask env t (st1\<lparr>task_counter := counter\<rparr>)
                 in (on_message (Some r) DEFAULT_RESULT_TIMEOUT (\<lambda>stanza. case stanza of
                        None \<Rightarrow> Faulted
                      | Some s \<Rightarrow>
                          if stanza_type s = RES_DISCONNECTED_EVENT_SUCCEED then Ret REQ_SUCCEED
                          else if stanza_type s = RES_DISCONNECTED_EVENT_FAILURE then Ret SESSION_NOT_FOUND
                          else Ret UNKOWN_ERROR), st2)))"

text \<open>\<open>IPAddress_ToString\<close> gives the text that \<^verbatim>\<open>inet_ntop\<close> makes of the address.\<close>

definition GetIP :: "(address_family \<Rightarrow> bytes \<Rightarrow> string option) \<Rightarrow> VzConnectDev \<Rightarrow> string call" where
  "GetIP ntop c = (case connect_data c of
      None \<Rightarrow> Faulted
    | Some d \<Rightarrow> (case stanza_body d of ConnectBody a \<Rightarrow> Ret (IPAddress_ToString ntop (sa_ip a)) | _ \<Rightarrow> Faulted))"

definition ConnectDev_SetCommonNotifyCallBack :: "nat option \<Rightarrow> nat \<Rightarrow> VzConnectDev \<Rightarrow> Sdk \<Rightarrow> Sdk option" where
  "ConnectDev_SetCommonNotifyCallBack f u c st = (case change_conn_pushhandle c of
      None \<Rightarrow> None | Some a \<Rightarrow> on_change_conn (SetConnCallBack f u) a st)"

section \<open>The service\<close>

text \<open>
  The constructor and \<^verbatim>\<open>Start\<close>, which creates the modules; \<open>o0\<close> is uninitialised memory of the
  resume handle and \<open>r0\<close> of the recognition module.
\<close>

definition VzRecognition_new :: "ResumePushHandle \<Rightarrow> VzRecognition \<Rightarrow> Sdk \<Rightarrow> VzRecognition \<times> Sdk" where
  "VzRecognition_new o0 r0 st =
     (let (a, st1) = new_handle ''ivs_result'' (IvsObject IvsPushHandle_new) st;
          (b, st2) = new_handle ''resume_rec'' (ResumeObject (ResumePushHandle_new o0)) st1
      in (r0\<lparr>ivs_handle := a, resume_handle := b, rg_enable_image := False\<rparr>, st2))"

definition VzsdkService_Start :: "ResumePushHandle \<Rightarrow> VzRecognition \<Rightarrow> Sdk \<Rightarrow> VzsdkService \<times> Sdk" where
  "VzsdkService_Start o0 r0 st =
     (case VzRecognition_new o0 r0 st of (rg, st1) \<Rightarrow>
        (\<lparr>connect_dev = \<lparr>connect_data = None, change_conn_pushhandle = None\<rparr>, recongition = rg,
          whist_dev = \<lparr>wl_func = None, wl_user_data = 0\<rparr>, conn_callback = None, conn_user_data = 0\<rparr>, st1))"

definition VzsdkService_Stop :: "sdk_env \<Rightarrow> VzsdkService \<Rightarrow> Sdk \<Rightarrow> bool call \<times> Sdk" where
  "VzsdkService_Stop env svc st =
     (case DisconnectServer env (Some (recongition svc)) (connect_dev svc) st of
        (Ret _, st') \<Rightarrow> (Ret True, st')
      | (Blocked, st') \<Rightarrow> (Blocked, st')
      | (Faulted, st') \<Rightarrow> (Faulted, st'))"

text \<open>
  The destructor stops the service; then its members are destroyed, the recognition module
  before the connection module, whose destructor disconnects once more.
\<close>

definition VzsdkService_destroy :: "sdk_env \<Rightarrow> VzsdkService \<Rightarrow> Sdk \<Rightarrow> bool call \<times> Sdk" where
  "VzsdkService_destroy env svc st =
     (case VzsdkService_Stop env svc st of
        (Ret _, st1) \<Rightarrow>
          (case DisconnectServer env None (connect_dev svc) st1 of
             (Ret _, st2) \<Rightarrow> (Ret True, st2)
           | (Blocked, st2) \<Rightarrow> (Blocked, st2)
           | (Faulted, st2) \<Rightarrow> (Faulted, st2))
      | (Blocked, st1) \<Rightarrow> (Blocked, st1)
      | (Faulted, st1) \<Rightarrow> (Faulted, st1))"

definition Service_SetCommonNotifyCallBack :: "nat option \<Rightarrow> nat \<Rightarrow> VzsdkService \<Rightarrow> VzsdkService" where
  "Service_SetCommonNotifyCallBack f u svc = svc\<lparr>conn_callback := f, conn_user_data := u\<rparr>"

section \<open>What running a task does\<close>

text \<open>The state after a task that was posted and whose wait has ended.\<close>

definition task_ran :: "Task \<Rightarrow> Sdk \<Rightarrow> Sdk" where
  "task_ran t st = st\<lparr>task_counter := task_counter st + 1, sdk_trace := sdk_trace st @ [TaskPosted t, TaskRemoved t]\<rparr>"

lemma task_ran_simps [simp]:
  "task_counter (task_ran t st) = task_counter st + 1" "push_manager (task_ran t st) = push_manager st"
  "handles (task_ran t st) = handles st" "next_handle (task_ran t st) = next_handle st"
  "sdk_trace (task_ran t st) = sdk_trace st @ [TaskPosted t, TaskRemoved t]"
  by (simp_all add: task_ran_def)

text \<open>What the wait for a task of the environment ends with.\<close>

definition waited :: "sdk_env \<Rightarrow> Task \<Rightarrow> wait_result" where
  "waited env t = WaitTaskDone (se_start env (task_id t)) t (se_turns env (task_id t))"

lemma SyncProcessTask_waited:
  "SyncProcessTask env t st =
     (waited env t, if waited env t = StillWaiting then emit (TaskPosted t) st else emit (TaskRemoved t) (emit (TaskPosted t) st))"
  by (simp add: SyncProcessTask_def waited_def Let_def)

lemma SyncProcessTask_ended:
  assumes "waited env t = Returned m"
  shows "SyncProcessTask env t (st\<lparr>task_counter := task_counter st + 1\<rparr>) = (Returned m, task_ran t st)"
  using assms by (simp add: SyncProcessTask_waited emit_def task_ran_def)

text \<open>The task of a request.\<close>

definition request_task :: "sdk_env \<Rightarrow> task_kind \<Rightarrow> uint32 \<Rightarrow> Value \<Rightarrow> uint32 \<Rightarrow> string \<Rightarrow> Task" where
  "request_task env k sid req counter cmd =
     \<lparr>task_kind = k, task_id = counter + 1, task_timeout = DEFAULT_TIMEOUT, task_thread = Some (se_current env),
      message_data = Some (RequestData_new sid req False), req_cmd = cmd\<rparr>"

lemma ReqTask_new_request:
  "json_cmd (se_fmt env) req = Some cmd \<Longrightarrow>
   ReqTask_new (se_fmt env) k DEFAULT_TIMEOUT (se_current env) None counter sid req =
     Some (request_task env k sid req counter cmd, counter + 1)"
  by (simp add: ReqTask_new_def Task_new_def request_task_def)

lemma SyncProcessReqTask_ended:
  assumes "Service_GetSessionID svc \<noteq> 0" and "json_cmd (se_fmt env) req = Some cmd"
    and "waited env (request_task env ReqTask (Service_GetSessionID svc) req (task_counter st) cmd) = Returned m"
  shows "SyncProcessReqTask env svc req None st =
    (Some (Returned m), task_ran (request_task env ReqTask (Service_GetSessionID svc) req (task_counter st) cmd) st)"
  using assms SyncProcessTask_ended [OF assms(3), of st]
  by (simp add: SyncProcessReqTask_def ReqTask_new_request)

lemma sync_request_ended:
  assumes "Service_GetSessionID svc \<noteq> 0" and "json_cmd (se_fmt env) req = Some cmd"
    and "waited env (request_task env ReqTask (Service_GetSessionID svc) req (task_counter st) cmd) = Returned m"
  shows "sync_request env svc (Some req) failed k st =
    (if wm_handler m then k (wm_data m) else Ret failed,
     task_ran (request_task env ReqTask (Service_GetSessionID svc) req (task_counter st) cmd) st)"
  using SyncProcessReqTask_ended [OF assms] by (simp add: sync_request_def on_message_def)

lemma sync_request_response:
  assumes "Service_GetSessionID svc = sid" and "sid \<noteq> 0" and "json_cmd (se_fmt env) req = Some cmd"
    and "waited env (request_task env ReqTask sid req (task_counter st) cmd) = Returned \<lparr>wm_handler = True, wm_id = i, wm_data = d\<rparr>"
  shows "sync_request env svc (Some req) failed k st = (k d, task_ran (request_task env ReqTask sid req (task_counter st) cmd) st)"
  using sync_request_ended [of svc env req cmd st "\<lparr>wm_handler = True, wm_id = i, wm_data = d\<rparr>" failed k] assms by simp

section \<open>Properties\<close>

text \<open>
  C4 (functional).  How a module runs a request.  Without a session, number 0, it does
  nothing and there is no message.  Otherwise it posts exactly one task, with the next
  number, the deadline of five seconds and the request on the session of the service, its
  result is that of the wait, and the task is withdrawn exactly if the wait has ended.
\<close>

theorem module_task_protocol:
  assumes "SyncProcessReqTask env svc req thread st = (Some r, st')"
  shows "if Service_GetSessionID svc = 0 then r = NullMessage \<and> st' = st
    else \<exists>t. task_kind t = ReqTask \<and> task_id t = task_counter st + 1 \<and> task_timeout t = 5000 \<and>
      message_data t = Some (RequestData_new (Service_GetSessionID svc) req False) \<and>
      json_cmd (se_fmt env) req = Some (req_cmd t) \<and>
      r = WaitTaskDone (se_start env (task_id t)) t (se_turns env (task_id t)) \<and>
      st' = st\<lparr>task_counter := task_counter st + 1,
        sdk_trace := sdk_trace st @ TaskPosted t # (if r = StillWaiting then [] else [TaskRemoved t])\<rparr>"
proof (cases "Service_GetSessionID svc = 0")
  case False
  with assms obtain t counter where t: "ReqTask_new (se_fmt env) ReqTask DEFAULT_TIMEOUT (se_current env) thread (task_counter st)
      (Service_GetSessionID svc) req = Some (t, counter)"
    by (auto simp: SyncProcessReqTask_def split: option.splits)
  have s: "task_kind t = ReqTask" "task_id t = task_counter st + 1" "task_timeout t = 5000"
    "message_data t = Some (RequestData_new (Service_GetSessionID svc) req False)"
    "json_cmd (se_fmt env) req = Some (req_cmd t)" "counter = task_counter st + 1"
    using t by (auto simp: ReqTask_new_def Task_new_def DEFAULT_TIMEOUT_def split: option.splits)
  have "r = waited env t" "st' = (if r = StillWaiting then emit (TaskPosted t) (st\<lparr>task_counter := counter\<rparr>)
      else emit (TaskRemoved t) (emit (TaskPosted t) (st\<lparr>task_counter := counter\<rparr>)))"
    using assms False t by (auto simp: SyncProcessReqTask_def SyncProcessTask_waited)
  then show ?thesis using False s by (auto simp: waited_def emit_def)
qed (use assms in \<open>simp add: SyncProcessReqTask_def\<close>)

definition demo_service :: VzsdkService where
  "demo_service = \<lparr>connect_dev = \<lparr>connect_data = Some ((ReqConnectData_new SocketAddress_nil)\<lparr>stanza_session := 5\<rparr>),
      change_conn_pushhandle = None\<rparr>,
    recongition = \<lparr>ivs_handle = 0, rg_enable_image = False, resume_handle = 1, resume_enable_image = False,
      resume_plate_func = None, resume_user_data = 0\<rparr>,
    whist_dev = \<lparr>wl_func = Some 3, wl_user_data = 4\<rparr>, conn_callback = None, conn_user_data = 0\<rparr>"

definition demo_sdk :: Sdk where
  "demo_sdk = \<lparr>task_counter = 1, push_manager = None,
     handles = (\<lambda>a. \<lparr>cmd_key = [], push_object = SerialObject SerialPushHandle_new\<rparr>), next_handle = 0, sdk_trace = []\<rparr>"

text \<open>An environment in which every task gets the given message at once.\<close>

definition demo_env :: "Stanza option \<Rightarrow> sdk_env" where
  "demo_env d = \<lparr>se_fmt = (\<lambda>x. []), se_current = 7, se_start = (\<lambda>i. 0),
     se_turns = (\<lambda>i. [(Some \<lparr>wm_handler = True, wm_id = i, wm_data = d\<rparr>, 0)]), se_sessions = SessionManager_new 0\<rparr>"

lemma demo_session [simp]: "Service_GetSessionID demo_service = 5"
  by (simp add: demo_service_def Service_GetSessionID_def GetSessionID_def)

lemma waited_demo:
  "task_thread t = Some th \<Longrightarrow> waited (demo_env d) t = Returned \<lparr>wm_handler = True, wm_id = task_id t, wm_data = d\<rparr>"
  by (simp add: waited_def demo_env_def WaitTaskDone_defs)

theorem module_task_protocol_witness:
  "\<exists>t st'. SyncProcessReqTask (demo_env None) demo_service (objectValue [(''cmd'', stringValue ''getsn'')]) None demo_sdk =
      (Some (Returned \<lparr>wm_handler = True, wm_id = 2, wm_data = None\<rparr>), st') \<and>
     sdk_trace st' = [TaskPosted t, TaskRemoved t] \<and> req_cmd t = ''getsn''"
proof -
  let ?req = "objectValue [(''cmd'', stringValue ''getsn'')]" and ?m = "\<lparr>wm_handler = True, wm_id = 2, wm_data = None\<rparr>"
  have c: "json_cmd f ?req = Some ''getsn''" for f
    by (simp add: json_cmd_def Value_at_def cstr_def JSON_REQ_CMD_def asString_def)
  obtain st' where r: "SyncProcessReqTask (demo_env None) demo_service ?req None demo_sdk = (Some (Returned ?m), st')"
    using SyncProcessReqTask_ended [of demo_service "demo_env None" ?req "''getsn''" demo_sdk] c
    by (simp add: waited_demo request_task_def demo_sdk_def)
  from module_task_protocol [OF r] show ?thesis
    using r c by (auto simp: demo_sdk_def)
qed

end
