(* ===== verification/Vz_Devices.thy ===== *)
theory Vz_Devices
  imports Vz_Service Vz_Jsonreader
begin

text \<open>
  The modules of a device: \<^verbatim>\<open>src/src/vzsdk/vziodev.cpp\<close>, \<^verbatim>\<open>vzserialdev.cpp\<close>, \<^verbatim>\<open>vzmaintendev.cpp\<close>,
  \<^verbatim>\<open>vzwlistdev.cpp\<close> and \<^verbatim>\<open>vzrecognition.cpp\<close>.  An operation generates a command, runs a task
  with it and reads the response.  What it stores through the pointers of its caller is part
  of the result; \<open>None\<close> means that nothing is stored.
\<close>

section \<open>Reading a response\<close>

text \<open>\<^verbatim>\<open>response->res_json()\<close>, where the cast of the message to \<^verbatim>\<open>ResponseData\<close> may be wrong.\<close>

definition response_json :: "Stanza \<Rightarrow> Value option" where
  "response_json s = (case stanza_body s of ResponseBody _ _ \<Rightarrow> Some (res_json s) | _ \<Rightarrow> None)"

definition ret_or_fault :: "'a option \<Rightarrow> 'a call" where
  "ret_or_fault x = (case x of None \<Rightarrow> Faulted | Some a \<Rightarrow> Ret a)"

text \<open>\<^verbatim>\<open>strcmp(s, lit) == 0\<close>; a member that the response does not have is a null pointer.\<close>

definition strcmp_eq :: "string option \<Rightarrow> string \<Rightarrow> bool option" where
  "strcmp_eq s lit = map_option (\<lambda>x. x = lit) s"

text \<open>\<^verbatim>\<open>strcmp(a, x) == 0 && strcmp(b, y) == 0\<close> as the result code.\<close>

definition both_equal :: "string option \<Rightarrow> string \<Rightarrow> string option \<Rightarrow> string \<Rightarrow> int option" where
  "both_equal a x b y = do {
     p \<leftarrow> strcmp_eq a x;
     if \<not> p then Some REQ_FAILED else do {
       q \<leftarrow> strcmp_eq b y;
       Some (if q then REQ_SUCCEED else REQ_FAILED) } }"

text \<open>\<open>if (response != NULL)\<close> around the reading of the value.\<close>

definition if_response :: "'a \<Rightarrow> (Stanza \<Rightarrow> Value \<Rightarrow> 'a option) \<Rightarrow> Stanza option \<Rightarrow> 'a call" where
  "if_response failed f d = (case d of
      None \<Rightarrow> Ret failed
    | Some s \<Rightarrow> ret_or_fault (Option.bind (response_json s) (f s)))"

definition must_response :: "(Stanza \<Rightarrow> Value \<Rightarrow> 'a option) \<Rightarrow> Stanza option \<Rightarrow> 'a call" where
  "must_response f d = (case d of
      None \<Rightarrow> Faulted
    | Some s \<Rightarrow> ret_or_fault (Option.bind (response_json s) (f s)))"

section \<open>Inputs and outputs\<close>

definition SetIOOutputAuto :: "sdk_env \<Rightarrow> VzsdkService \<Rightarrow> uint32 \<Rightarrow> int \<Rightarrow> Sdk \<Rightarrow> int call \<times> Sdk" where
  "SetIOOutputAuto env svc chn_id duration =
     post_request env svc (GeneratSetGPIOAutoCmd (sint chn_id) duration nullValue)"

definition SetIOOutput :: "sdk_env \<Rightarrow> VzsdkService \<Rightarrow> uint32 \<Rightarrow> int \<Rightarrow> Sdk \<Rightarrow> int call \<times> Sdk" where
  "SetIOOutput env svc chn_id nOutput st =
     (case GeneratSetIOOutputCmd (sint chn_id) nOutput nullValue of
        None \<Rightarrow> (Faulted, st)
      | Some (ok, req) \<Rightarrow> if ok then post_request env svc (Some req) st else (Ret (- 1), st))"

definition GPIO_0 :: GPIO_RESPONSE where "GPIO_0 = \<lparr>gpio_number = 0, gpio_val = 0\<rparr>"

definition GetGPIOValue :: "sdk_env \<Rightarrow> VzsdkService \<Rightarrow> int \<Rightarrow> Sdk \<Rightarrow> (int \<times> int option) call \<times> Sdk" where
  "GetGPIOValue env svc gpioIn =
     sync_request env svc (GeneratGetGPIOValueCmd gpioIn nullValue) (REQ_FAILED, None)
       (if_response (REQ_FAILED, None) (\<lambda>s v. do {
          p \<leftarrow> ParseGPIOResponse v (Some GPIO_0);
          gpio \<leftarrow> p;
          Some (REQ_SUCCEED, Some (sint (gpio_val gpio))) }))"

definition SetOfflineCheck :: "sdk_env \<Rightarrow> VzsdkService \<Rightarrow> Sdk \<Rightarrow> int call \<times> Sdk" where
  "SetOfflineCheck env svc =
     sync_request env svc (GeneratOfflineCheckCmd 2 nullValue) REQ_FAILED
       (if_response REQ_FAILED (\<lambda>s v. do {
          p \<leftarrow> ParseOfflineResponse v (Some \<lparr>off_subcmd = None, off_response = None\<rparr>);
          offline \<leftarrow> p;
          ok \<leftarrow> strcmp_eq (off_response offline) ''ok'';
          Some (if ok then REQ_SUCCEED else REQ_FAILED) }))"

definition CancelOfflineCheck :: "sdk_env \<Rightarrow> VzsdkService \<Rightarrow> Sdk \<Rightarrow> int call \<times> Sdk" where
  "CancelOfflineCheck env svc = post_request env svc (GeneratSetOfflineCheckCmd 2 nullValue)"

section \<open>Serial ports\<close>

definition SerialStart :: "sdk_env \<Rightarrow> VzsdkService \<Rightarrow> uint32 \<Rightarrow> Sdk \<Rightarrow> int call \<times> Sdk" where
  "SerialStart env svc serial_port st =
     (case GeneratSerialStartCmd serial_port nullValue of
        None \<Rightarrow> (Faulted, st)
      | Some (ok, req) \<Rightarrow>
          if \<not> ok then (Ret REQ_FAILED, st)
          else sync_request env svc (Some req) REQ_FAILED
            (if_response REQ_FAILED (\<lambda>s v. do {
               p \<leftarrow> ParseTTransmissionResponse v (Some TTRANSMISSION_0);
               r \<leftarrow> p;
               both_equal (tt_subcmd r) ''init'' (tt_response r) ''ok'' })) st)"

definition SerialSend :: "sdk_env \<Rightarrow> VzsdkService \<Rightarrow> uint32 \<Rightarrow> bytes \<Rightarrow> uint32 \<Rightarrow> Sdk \<Rightarrow> int call \<times> Sdk" where
  "SerialSend env svc serial_port data size_data st =
     (case GeneratSerialSendCmd serial_port data (sint size_data) nullValue of
        None \<Rightarrow> (Faulted, st)
      | Some (ok, req) \<Rightarrow> if \<not> ok then (Ret REQ_FAILED, st) else post_request env svc (Some req) st)"

definition SerialStop :: "sdk_env \<Rightarrow> VzsdkService \<Rightarrow> Sdk \<Rightarrow> int call \<times> Sdk" where
  "SerialStop env svc =
     sync_request env svc (GeneratSerialStopCmd nullValue) REQ_FAILED
       (if_response REQ_FAILED (\<lambda>s v. do {
          p \<leftarrow> ParseTTransmissionResponse v (Some TTRANSMISSION_0);
          r \<leftarrow> p;
          both_equal (tt_subcmd r) ''uninit'' (tt_response r) ''ok'' }))"

definition SerialDev_SetSerialRecvCallBack :: "nat option \<Rightarrow> nat \<Rightarrow> Sdk \<Rightarrow> Sdk" where
  "SerialDev_SetSerialRecvCallBack f u st =
     (let (a, st1) = new_handle ''ttransmission'' (SerialObject (SetSerialRecvCallBack f u SerialPushHandle_new)) st
      in Service_AddPushHandle a st1)"

section \<open>Maintenance\<close>

definition JSON_VALUE :: string where "JSON_VALUE = ''value''"

definition GetDeviceSN :: "sdk_env \<Rightarrow> VzsdkService \<Rightarrow> Sdk \<Rightarrow> (int \<times> string option) call \<times> Sdk" where
  "GetDeviceSN env svc =
     sync_request env svc (GeneratGetDeviceSN (sint (Service_GetSessionID svc)) nullValue) (REQ_FAILED, None)
       (must_response (\<lambda>s v. do {
          x \<leftarrow> Value_at v JSON_VALUE;
          sn \<leftarrow> asString (se_fmt env) x;
          Some (REQ_SUCCEED, Some sn) }))"

section \<open>White list\<close>

definition WL_OPERATOR_0 :: WHITE_LIST_OPERATOR_RESPONSE where
  "WL_OPERATOR_0 = \<lparr>wl_operator_type = None, wl_state = None, wl_record_count = 0\<rparr>"

definition VZ_TM_0 :: VZ_TM where
  "VZ_TM_0 = \<lparr>nYear = 0, nMonth = 0, nMDay = 0, nHour = 0, nMin = 0, nSec = 0\<rparr>"

definition WLIST_VEHICLE_0 :: VZ_LPR_WLIST_VEHICLE where
  "WLIST_VEHICLE_0 = \<lparr>uVehicleID = 0, strPlateID = replicate VZ_LPR_WLIST_LP_MAX_LEN (CHR 0x00), uCustomerID = 0,
     bEnable = 0, bEnableTMEnable = 0, bEnableTMOverdule = 0, struTMEnable = VZ_TM_0, struTMOverdule = VZ_TM_0,
     bUsingTimeSeg = 0, bAlarm = 0, iColor = 0, iPlateType = 0,
     strCode = replicate VZ_LPR_WLIST_VEHICLE_CODE_LEN (CHR 0x00),
     strComment = replicate VZ_LPR_WLIST_VEHICLE_COMMENT_LEN (CHR 0x00)\<rparr>"

definition wlist_operator :: "string \<Rightarrow> Value \<Rightarrow> int option" where
  "wlist_operator op v = do {
     p \<leftarrow> ParseWhiteListOperatorResponse v (Some WL_OPERATOR_0);
     r \<leftarrow> p;
     both_equal (wl_operator_type r) op (wl_state r) ''succeed'' }"

definition ImportWlistVehicle :: "sdk_env \<Rightarrow> VzsdkService \<Rightarrow> VZ_LPR_WLIST_VEHICLE \<Rightarrow> Sdk \<Rightarrow> int call \<times> Sdk" where
  "ImportWlistVehicle env svc wlist =
     sync_request env svc (GeneratImportWlistVehicleCmd wlist nullValue) REQ_FAILED
       (if_response REQ_FAILED (\<lambda>s v. wlist_operator ''update_or_add'' v))"

definition DeleteWlistVehicle :: "sdk_env \<Rightarrow> VzsdkService \<Rightarrow> string \<Rightarrow> Sdk \<Rightarrow> int call \<times> Sdk" where
  "DeleteWlistVehicle env svc plate_code =
     sync_request env svc (GeneratDeleteWlistVehicleCmd plate_code nullValue) REQ_FAILED
       (if_response REQ_FAILED (\<lambda>s v. wlist_operator ''delete'' v))"

text \<open>
  \<^verbatim>\<open>res_value["dldb_rec"][i]\<close> for an array; an index behind its end makes a null value there.
  A count taken from a value that is not an array makes the library throw.
\<close>

definition array_at :: "Value \<Rightarrow> nat \<Rightarrow> Value option" where
  "array_at v i = (case v of
      arrayValue xs \<Rightarrow> Some (if i < length xs then xs ! i else nullValue)
    | nullValue \<Rightarrow> Some nullValue
    | _ \<Rightarrow> None)"

text \<open>The records for which the callback is called, in order, and whether the loop ends without an exception.\<close>

fun query_records :: "Value \<Rightarrow> nat list \<Rightarrow> VZ_LPR_WLIST_VEHICLE list \<times> bool" where
  "query_records recs [] = ([], True)"
| "query_records recs (i # is) =
     (case Option.bind (array_at recs i) (\<lambda>x. ParseWhiteListRecordResponse x WLIST_VEHICLE_0) of
        None \<Rightarrow> ([], False)
      | Some w \<Rightarrow> let (ws, ok) = query_records recs is in (w # ws, ok))"

definition query_response :: "nat option \<Rightarrow> Value \<Rightarrow> (int call \<times> VZ_LPR_WLIST_VEHICLE list) option" where
  "query_response func v = do {
     p \<leftarrow> ParseWhiteListOperatorResponse v (Some WL_OPERATOR_0);
     r \<leftarrow> p;
     ok \<leftarrow> strcmp_eq (wl_operator_type r) ''select'';
     if \<not> ok then Some (Ret REQ_FAILED, [])
     else if func = None then Some (Ret REQ_SUCCEED, [])
     else do {
       recs \<leftarrow> Value_at v ''dldb_rec'';
       let (ws, fine) = query_records recs [0..<nat (sint (wl_record_count r))]
       in Some (if fine then Ret REQ_SUCCEED else Faulted, ws) } }"

definition wlist_callback :: "VzsdkService \<Rightarrow> VZ_LPR_WLIST_VEHICLE \<Rightarrow> sdk_effect" where
  "wlist_callback svc w =
     WlistCallback (the (wl_func (whist_dev svc))) (Service_GetSessionID svc) (wl_user_data (whist_dev svc)) w"

definition QueryWlistVehicle :: "sdk_env \<Rightarrow> VzsdkService \<Rightarrow> string \<Rightarrow> Sdk \<Rightarrow> int call \<times> Sdk" where
  "QueryWlistVehicle env svc plate_code st =
     (let (r, st1) = sync_request env svc (GeneratQueryWlistVehicleCmd plate_code nullValue) (Ret REQ_FAILED, [])
            (if_response (Ret REQ_FAILED, []) (\<lambda>s v. query_response (wl_func (whist_dev svc)) v)) st
      in (case r of
            Ret (ret, ws) \<Rightarrow> (ret, st1\<lparr>sdk_trace := sdk_trace st1 @ map (wlist_callback svc) ws\<rparr>)
          | Blocked \<Rightarrow> (Blocked, st1)
          | Faulted \<Rightarrow> (Faulted, st1)))"

definition SetWlistRecvCallBack :: "nat option \<Rightarrow> nat \<Rightarrow> VzsdkService \<Rightarrow> VzsdkService" where
  "SetWlistRecvCallBack f u svc = svc\<lparr>whist_dev := \<lparr>wl_func = f, wl_user_data = u\<rparr>\<rparr>"

section \<open>Recognition\<close>

text \<open>\<^verbatim>\<open>memcpy\<close> out of the string of the response, whose storage ends with a NUL.\<close>

definition copy_out :: "string \<Rightarrow> int \<Rightarrow> int \<Rightarrow> string option" where
  "copy_out s off n =
     (if 0 \<le> off \<and> 0 \<le> n \<and> off + n \<le> int (length s) + 1
      then Some (take (nat n) (drop (nat off) (s @ [CHR 0x00]))) else None)"

text \<open>A null destination is not copied to.\<close>

definition copy_image :: "bool \<Rightarrow> string \<Rightarrow> int \<Rightarrow> int \<Rightarrow> string option option" where
  "copy_image wanted s off n = (if wanted then map_option Some (copy_out s off n) else Some None)"

record record_result =
  rr_plate :: TH_PlateResult
  rr_full_size :: int
  rr_clip_size :: int
  rr_full :: "string option"
  rr_clip :: "string option"

definition GetRecord ::
  "sdk_env \<Rightarrow> VzsdkService \<Rightarrow> int \<Rightarrow> bool \<Rightarrow> TH_PlateResult \<Rightarrow> int \<Rightarrow> bool \<Rightarrow> int \<Rightarrow> bool \<Rightarrow> Sdk \<Rightarrow>
     (int \<times> record_result option) call \<times> Sdk" where
  "GetRecord env svc record_id need_image plate_result full_size fullimage clip_size clipimage st =
     (case GeneratGetRecordByIdCmd record_id need_image nullValue of
        None \<Rightarrow> (Faulted, st)
      | Some req_json \<Rightarrow>
          if Service_GetSessionID svc = 0 then (Ret (sint SESSION_ID_INVALUE, None), st)
          else (case ReqTask_new (se_fmt env) ReqRecordTask DEFAULT_TIMEOUT (se_current env) None (task_counter st)
                        (Service_GetSessionID svc) req_json of
                  None \<Rightarrow> (Faulted, st)
                | Some (t, counter) \<Rightarrow>
                    let (r, st1) = SyncProcessTask env t (st\<lparr>task_counter := counter\<rparr>)
                    in (on_message (Some r) (REQ_FAILED, None) (must_response (\<lambda>s v. do {
                          (plate, full, clip) \<leftarrow> ParsePlateResultResponse v (plate_result, full_size, clip_size);
                          let len = int (length (cstr (res_data s)));
                          img \<leftarrow> copy_image fullimage (res_data s) (len + 1) full;
                          img2 \<leftarrow> copy_image clipimage (res_data s) (len + full + 1) clip;
                          Some (REQ_SUCCEED, Some \<lparr>rr_plate = plate, rr_full_size = full, rr_clip_size = clip,
                            rr_full = img, rr_clip = img2\<rparr>) })), st1)))"

text \<open>\<open>r0\<close> is the uninitialised structure; the number is compared as unsigned.\<close>

definition GetImage ::
  "sdk_env \<Rightarrow> VzsdkService \<Rightarrow> RECORD_RESPONSE \<Rightarrow> int \<Rightarrow> Sdk \<Rightarrow> (int \<times> (int \<times> string) option) call \<times> Sdk" where
  "GetImage env svc r0 image_id =
     sync_request env svc (GeneratGetImageByIdCmd image_id nullValue) (REQ_FAILED, None)
       (must_response (\<lambda>s v. do {
          p \<leftarrow> ParseRecordResponse v (Some r0);
          responese \<leftarrow> p;
          if rec_id responese \<noteq> of_int image_id then Some (REQ_FAILED, None)
          else do {
            let len = int (length (cstr (res_data s)));
            image \<leftarrow> copy_out (res_data s) (len + 1) (uint (rec_size responese));
            Some (REQ_SUCCEED, Some (sint (rec_size responese), image)) } }))"

definition ForceTrigger :: "sdk_env \<Rightarrow> VzsdkService \<Rightarrow> Sdk \<Rightarrow> int call \<times> Sdk" where
  "ForceTrigger env svc = post_request env svc (GeneratForceTrigger nullValue)"

text \<open>\<open>m0\<close> is the uninitialised structure.\<close>

definition GetMaxRecordID :: "sdk_env \<Rightarrow> VzsdkService \<Rightarrow> uint32 \<Rightarrow> Sdk \<Rightarrow> int call \<times> Sdk" where
  "GetMaxRecordID env svc m0 =
     sync_request env svc (GeneraGetMaxRecordID nullValue) REQ_FAILED
       (must_response (\<lambda>s v. map_option sint (ParseMaxRecResponse v m0)))"

definition FORMAT_JSON :: int where "FORMAT_JSON = 1"

definition FULL_AND_SMALL_IMG :: int where "FULL_AND_SMALL_IMG = 2"

definition ReciveIvsResult ::
  "sdk_env \<Rightarrow> uint32 \<Rightarrow> nat \<Rightarrow> bool \<Rightarrow> int \<Rightarrow> bool \<Rightarrow> int \<Rightarrow> bool \<Rightarrow> Sdk \<Rightarrow> int call \<times> Sdk" where
  "ReciveIvsResult env sid handle enable_result format enable_img img_type sync_task st =
     (if sid = 0 then (Ret (sint SESSION_ID_INVALUE), st)
      else case GeneratIVSResult enable_result format enable_img img_type nullValue of
             None \<Rightarrow> (Faulted, st)
           | Some req_json \<Rightarrow>
               let st1 = Service_AddPushHandle handle st;
                   (t, counter) = ReqPushTask_new DEFAULT_TIMEOUT (se_current env) (task_counter st1) sid req_json;
                   st2 = st1\<lparr>task_counter := counter\<rparr>
               in if sync_task then
                    let (r, st3) = SyncProcessTask env t st2
                    in (on_message (Some r) DEFAULT_RESULT_TIMEOUT (\<lambda>d. Ret REQ_SUCCEED), st3)
                  else (Ret REQ_SUCCEED, emit (TaskPosted t) st2))"

definition SetReciveIvsResultCallback ::
  "sdk_env \<Rightarrow> VzsdkService \<Rightarrow> nat option \<Rightarrow> nat \<Rightarrow> int \<Rightarrow> Sdk \<Rightarrow> int call \<times> VzsdkService \<times> Sdk" where
  "SetReciveIvsResultCallback env svc func user enable st =
     (let rg = (recongition svc)\<lparr>rg_enable_image := (enable \<noteq> 0)\<rparr>; svc1 = svc\<lparr>recongition := rg\<rparr> in
      case on_ivs (\<lambda>o1. Ivs_SetSessionID (Service_GetSessionID svc) (SetPlateCallBack func user o1)) (ivs_handle rg) st of
        None \<Rightarrow> (Faulted, svc1, st)
      | Some st1 \<Rightarrow>
          let (r, st2) = ReciveIvsResult env (Service_GetSessionID svc) (ivs_handle rg) True FORMAT_JSON
                (rg_enable_image rg) FULL_AND_SMALL_IMG True (Service_AddPushHandle (ivs_handle rg) st1)
          in (case r of Ret _ \<Rightarrow> (Ret REQ_SUCCEED, svc1, st2) | Blocked \<Rightarrow> (Blocked, svc1, st2) | Faulted \<Rightarrow> (Faulted, svc1, st2)))"

definition SlotRecvChangeConnStatus ::
  "sdk_env \<Rightarrow> VzsdkService \<Rightarrow> VZ_LPRC_COMMON_NOTIFY \<Rightarrow> Sdk \<Rightarrow> int call \<times> Sdk" where
  "SlotRecvChangeConnStatus env svc status st =
     (if status = VZ_LPRC_ONLINE
      then ReciveIvsResult env (Service_GetSessionID svc) (ivs_handle (recongition svc)) True FORMAT_JSON
             (rg_enable_image (recongition svc)) FULL_AND_SMALL_IMG False st
      else (Ret REQ_SUCCEED, st))"

definition ResumeRecord :: "sdk_env \<Rightarrow> VzsdkService \<Rightarrow> uint32 \<Rightarrow> Sdk \<Rightarrow> int call \<times> Sdk" where
  "ResumeRecord env svc m0 st =
     (let (r, st1) = GetMaxRecordID env svc m0 st; a = resume_handle (recongition svc); sid = Service_GetSessionID svc in
      case r of
        Blocked \<Rightarrow> (Blocked, st1)
      | Faulted \<Rightarrow> (Faulted, st1)
      | Ret max_rec_id \<Rightarrow>
          (case on_resume (\<lambda>o1. o1\<lparr>max_record_id := max_rec_id, res_session := sid, res_queue_layer := True\<rparr>) a
                  (Service_AddPushHandle a st1) of
             None \<Rightarrow> (Faulted, st1)
           | Some st2 \<Rightarrow> (Ret REQ_SUCCEED, emit (QueueDelayed 5000 sid (Stanza_new RES_RESUME_TASK_EVENT sid)) st2)))"

definition SetResumRecordCallback ::
  "sdk_env \<Rightarrow> VzsdkService \<Rightarrow> uint32 \<Rightarrow> nat option \<Rightarrow> nat \<Rightarrow> bool \<Rightarrow> Sdk \<Rightarrow> int call \<times> VzsdkService \<times> Sdk" where
  "SetResumRecordCallback env svc m0 func user enable st =
     (let svc1 = svc\<lparr>recongition := (recongition svc)\<lparr>resume_plate_func := func, resume_user_data := user,
            resume_enable_image := enable\<rparr>\<rparr>;
          (r, st1) = ResumeRecord env svc1 m0 st
      in (r, svc1, st1))"

text \<open>The user data is taken by value, and the flag of the module is overwritten instead of the caller's.\<close>

definition GetResumRecodCallback :: "VzRecognition \<Rightarrow> nat option \<times> VzRecognition" where
  "GetResumRecodCallback rg = (resume_plate_func rg, rg\<lparr>resume_enable_image := rg_enable_image rg\<rparr>)"

definition addRecordID :: "VzRecognition \<Rightarrow> int \<Rightarrow> Sdk \<Rightarrow> Sdk option" where
  "addRecordID rg rid st = on_resume (AddRecordID rid) (resume_handle rg) st"

definition SlotRecvGetResumeInfo :: "sdk_env \<Rightarrow> VzsdkService \<Rightarrow> uint32 \<Rightarrow> Sdk \<Rightarrow> unit call \<times> Sdk" where
  "SlotRecvGetResumeInfo env svc m0 st =
     (let rg = recongition svc; a = resume_handle rg in
      case on_resume (Resume_SetCallBack (resume_plate_func rg) (resume_user_data rg)) a st of
        None \<Rightarrow> (Faulted, st)
      | Some st1 \<Rightarrow>
          let (r, st2) = GetMaxRecordID env svc m0 st1
          in (case r of
                Blocked \<Rightarrow> (Blocked, st2)
              | Faulted \<Rightarrow> (Faulted, st2)
              | Ret cur \<Rightarrow> (case on_resume (\<lambda>o1. o1\<lparr>cur_max_record_id := cur\<rparr>) a st2 of
                              None \<Rightarrow> (Faulted, st2) | Some st3 \<Rightarrow> (Ret (), st3))))"

section \<open>What the operations send and read\<close>

lemma set_members_cmd:
  "\<exists>req. set_members ((''cmd'', Value_cstr c) # kvs) nullValue = Some req \<and>
     (last_member kvs ''cmd'' = None \<longrightarrow> json_cmd f req = Some (cstr c))"
proof -
  obtain req where r: "set_members ((''cmd'', Value_cstr c) # kvs) nullValue = Some req"
    "\<forall>j. Value_at req j = Some (case last_member ((''cmd'', Value_cstr c) # kvs) j of Some x \<Rightarrow> x | None \<Rightarrow> nullValue)"
    using set_members_new by blast
  then show ?thesis
    by (auto simp: json_cmd_def JSON_REQ_CMD_def asString_def Value_cstr_def split: option.splits simp del: set_members.simps)
qed

lemma response_json_new [simp]: "response_json (ResponseData_new sid v data) = Some v"
  by (simp add: response_json_def ResponseData_new_def)

lemma res_data_new [simp]: "res_data (ResponseData_new sid v data) = data"
  by (simp add: res_data_def ResponseData_new_def)

lemma if_uint_number:
  "Value_at v k = Some x \<Longrightarrow> \<not> isNull x \<Longrightarrow> asUInt x = Some (uint n) \<Longrightarrow> if_uint v k assign r = Some (assign n r)"
  by (simp add: if_uint_def)

lemma copy_out_behind_text:
  assumes "CHR 0x00 \<notin> set text"
  shows "copy_out (text @ CHR 0x00 # img) (int (length (cstr (text @ CHR 0x00 # img))) + 1) n =
    (if 0 \<le> n \<and> n \<le> int (length img) + 1 then Some (take (nat n) (img @ [CHR 0x00])) else None)"
proof -
  have "cstr (text @ CHR 0x00 # img) = text"
    using assms unfolding cstr_def by (subst takeWhile_append2) auto
  then show ?thesis by (auto simp: copy_out_def nat_add_distrib)
qed

section \<open>Properties\<close>

text \<open>
  C26 (roundtrip).  A device that answers the request for an image with its number, its size (JSON numbers of whatever kind the
  reader made of them) and the image behind the NUL of the text is read correctly: the caller gets exactly the
  image and its size.  A size that is larger than what the packet holds is not checked: the
  copy runs behind the end of the packet.
\<close>

theorem image_roundtrip:
  assumes "Service_GetSessionID svc = sid" and "sid \<noteq> 0" and "GeneratGetImageByIdCmd iid nullValue = Some req"
    and "waited env (request_task env ReqTask sid req (task_counter st) ''get_image'') =
      Returned \<lparr>wm_handler = True, wm_id = i, wm_data = Some (ResponseData_new sid v (text @ CHR 0x00 # img))\<rparr>"
    and "Value_at v ''id'' = Some x" and "\<not> isNull x" and "asUInt x = Some (uint (of_int iid :: uint32))"
    and "Value_at v ''size'' = Some y" and "\<not> isNull y" and "asUInt y = Some (uint (n :: uint32))"
    and "CHR 0x00 \<notin> set text"
  shows "fst (GetImage env svc r0 iid st) =
    (if unat n = length img then Ret (REQ_SUCCEED, Some (sint n, img))
     else if unat n \<le> length img + 1 then Ret (REQ_SUCCEED, Some (sint n, take (unat n) (img @ [CHR 0x00])))
     else Faulted) \<and> json_cmd (se_fmt env) req = Some ''get_image''"
proof -
  have c: "json_cmd (se_fmt env) req = Some ''get_image''"
    using set_members_cmd [of "''get_image''" "[(''id'', Value_Int iid)]" "se_fmt env"] assms(3)
    by (auto simp: GeneratGetImageByIdCmd_def cstr_def)
  have r: "ParseRecordResponse v (Some r0) = Some (Some (r0\<lparr>rec_id := of_int iid, rec_size := n\<rparr>))"
    by (simp add: ParseRecordResponse_def if_pointer_def if_uint_number [OF assms(5-7)] if_uint_number [OF assms(8-10)])
  note s = sync_request_response [OF assms(1,2) c assms(4)]
  have n: "copy_out (text @ CHR 0x00 # img) (int (length (cstr (text @ CHR 0x00 # img))) + 1) (uint n) =
      (if unat n \<le> length img + 1 then Some (take (unat n) (img @ [CHR 0x00])) else None)"
  proof -
    have "uint n \<le> int (length img) + 1 \<longleftrightarrow> unat n \<le> length img + 1"
      unfolding unat_eq_nat_uint nat_le_iff by (simp add: add.commute)
    then show ?thesis by (subst copy_out_behind_text [OF assms(11)]) simp
  qed
  have "fst (GetImage env svc r0 iid st) =
      (if unat n \<le> length img + 1 then Ret (REQ_SUCCEED, Some (sint n, take (unat n) (img @ [CHR 0x00]))) else Faulted)"
    unfolding GetImage_def assms(3) s by (simp add: must_response_def r n ret_or_fault_def Let_def)
  then show ?thesis using c by simp
qed

text \<open>The answer as a device writes it, and the value that the reader makes of its text.\<close>

definition demo_image_text :: string where
  "demo_image_text = FastWriter_write (\<lambda>d. []) (objectValue [(''id'', uintValue 3), (''size'', uintValue 2)])"

definition demo_image_value :: Value where
  "demo_image_value = objectValue [(''id'', intValue 3), (''size'', intValue 2)]"

theorem image_roundtrip_witness:
  "Reader_parse (\<lambda>s. None) demo_image_text = Some demo_image_value \<and>
   fst (GetImage (demo_env (Some (ResponseData_new 5 demo_image_value
       (demo_image_text @ CHR 0x00 # [CHR 0xFF, CHR 0xD8])))) demo_service \<lparr>rec_id = 0, rec_size = 0\<rparr> 3 demo_sdk) =
     Ret (REQ_SUCCEED, Some (2, [CHR 0xFF, CHR 0xD8]))"
proof -
  let ?sent = "objectValue [(''id'', uintValue 3), (''size'', uintValue 2)]"
  let ?env = "demo_env (Some (ResponseData_new 5 demo_image_value (demo_image_text @ CHR 0x00 # [CHR 0xFF, CHR 0xD8])))"
  have "printable ?sent" by (simp add: stdmap_ok_def no_nul_def)
  from Reader_parse_reads [OF reads_written [OF this, of "[CHR 0x0A]" "\<lambda>s. None" "\<lambda>d. []"]]
  have parsed: "Reader_parse (\<lambda>s. None) demo_image_text = Some demo_image_value"
    by (simp add: demo_image_text_def demo_image_value_def FastWriter_write_def read_integer_def maxInt_def)
  obtain req where req: "GeneratGetImageByIdCmd 3 nullValue = Some req"
    using set_members_new [of "[(''cmd'', Value_cstr ''get_image''), (''id'', Value_Int 3)]"] by (auto simp: GeneratGetImageByIdCmd_def)
  have w: "waited ?env (request_task ?env ReqTask 5 req (task_counter demo_sdk) ''get_image'') =
      Returned \<lparr>wm_handler = True, wm_id = task_counter demo_sdk + 1,
        wm_data = Some (ResponseData_new 5 demo_image_value (demo_image_text @ CHR 0x00 # [CHR 0xFF, CHR 0xD8]))\<rparr>"
    by (subst waited_demo [of _ "se_current ?env"]) (simp_all add: request_task_def)
  have v: "Value_at demo_image_value ''id'' = Some (intValue 3)" "Value_at demo_image_value ''size'' = Some (intValue 2)"
    "\<not> isNull (intValue 3)" "\<not> isNull (intValue 2)" "asUInt (intValue 3) = Some (uint (of_int 3 :: uint32))"
    "asUInt (intValue 2) = Some (uint (2 :: uint32))" "CHR 0x00 \<notin> set demo_image_text"
    by code_simp+
  from image_roundtrip [OF demo_session _ req w v(1,3,5,2,4,6,7)] parsed show ?thesis by simp
qed

text \<open>Entries with terminated strings and flags below \<open>2 ^ 31\<close>, and the record of an entry in an import command.\<close>

definition importable :: "VZ_LPR_WLIST_VEHICLE \<Rightarrow> bool" where
  "importable item \<longleftrightarrow> WLIST_VEHICLE_ok item \<and> unat (uVehicleID item) < 2 ^ 31 \<and> unat (bEnable item) < 2 ^ 31 \<and>
     unat (bUsingTimeSeg item) < 2 ^ 31 \<and> unat (bAlarm item) < 2 ^ 31"

definition record_of :: "VZ_LPR_WLIST_VEHICLE \<Rightarrow> Value \<Rightarrow> bool" where
  "record_of item rec \<longleftrightarrow>
     (\<exists>v. GeneratImportWlistVehicleCmd item nullValue = Some v \<and> Value_at v ''dldb_rec'' = Some rec)"

definition same_entry :: "VZ_LPR_WLIST_VEHICLE \<Rightarrow> VZ_LPR_WLIST_VEHICLE \<Rightarrow> bool" where
  "same_entry item w \<longleftrightarrow> uVehicleID w = uVehicleID item \<and> cstr (strPlateID w) = cstr (strPlateID item) \<and>
     bEnable w = bEnable item \<and> struTMEnable w = struTMEnable item \<and> struTMOverdule w = struTMOverdule item \<and>
     bUsingTimeSeg w = bUsingTimeSeg item \<and> bAlarm w = bAlarm item \<and>
     cstr (strCode w) = cstr (strCode item) \<and> cstr (strComment w) = cstr (strComment item)"

lemma record_read:
  assumes "importable item" and "record_of item rec"
  shows "\<exists>w. ParseWhiteListRecordResponse rec WLIST_VEHICLE_0 = Some w \<and> same_entry item w"
proof -
  have "WLIST_VEHICLE_ok WLIST_VEHICLE_0"
    by (simp add: WLIST_VEHICLE_ok_def WLIST_VEHICLE_0_def VZ_LPR_WLIST_LP_MAX_LEN_def
        VZ_LPR_WLIST_VEHICLE_CODE_LEN_def VZ_LPR_WLIST_VEHICLE_COMMENT_LEN_def)
  from import_record_read [OF _ this, of item] assms show ?thesis
    by (auto simp: importable_def record_of_def same_entry_def)
qed

lemma query_records_array:
  assumes "list_all2 record_of items recs" and "list_all importable items" and "set is \<subseteq> {..<length recs}"
  shows "\<exists>ws. query_records (arrayValue recs) is = (ws, True) \<and> list_all2 (\<lambda>i w. same_entry (items ! i) w) is ws"
  using assms(3)
proof (induction "is")
  case (Cons i "is")
  have i: "i < length recs" "i < length items" using Cons.prems assms(1) by (simp_all add: list_all2_lengthD)
  have "record_of (items ! i) (recs ! i)" using assms(1) i by (simp add: list_all2_conv_all_nth)
  moreover have "importable (items ! i)" using assms(2) i by (simp add: list_all_length)
  ultimately obtain w where "ParseWhiteListRecordResponse (recs ! i) WLIST_VEHICLE_0 = Some w" "same_entry (items ! i) w"
    using record_read by blast
  then show ?case using Cons i by (auto simp: array_at_def)
qed simp

lemma if_cstring_cstr: "Value_at v k = Some (Value_cstr s) \<Longrightarrow> if_cstring v k assign r = Some (assign (Some (cstr s)) r)"
  by (simp add: if_cstring_def Value_cstr_def isNull_def asCString_def)

lemma if_cstring_null: "Value_at v k = Some nullValue \<Longrightarrow> if_cstring v k assign r = Some r"
  by (simp add: if_cstring_def isNull_def)

text \<open>
  A query of the white list hands every record of the response to the
  callback, in the order of the response and each once, and a record that has the content
  of an imported entry arrives with the fields of that entry.
\<close>

theorem query_reports_entries:
  assumes "Service_GetSessionID svc = sid" and "sid \<noteq> 0" and "GeneratQueryWlistVehicleCmd plate nullValue = Some req"
    and "waited env (request_task env ReqTask sid req (task_counter st) ''white_list_operator'') =
      Returned \<lparr>wm_handler = True, wm_id = i, wm_data = Some (ResponseData_new sid v data)\<rparr>"
    and "Value_at v ''operator_type'' = Some (Value_cstr ''select'')" and "Value_at v ''state'' = Some nullValue"
    and "Value_at v ''dldb_rec'' = Some (arrayValue recs)" and "length recs < 2 ^ 31"
    and "list_all2 record_of items recs" and "list_all importable items"
    and "wl_func (whist_dev svc) = Some f"
  shows "\<exists>t ws. QueryWlistVehicle env svc plate st = (Ret REQ_SUCCEED, st\<lparr>task_counter := task_counter st + 1,
      sdk_trace := sdk_trace st @ [TaskPosted t, TaskRemoved t] @ map (WlistCallback f sid (wl_user_data (whist_dev svc))) ws\<rparr>) \<and>
    list_all2 same_entry items ws"
proof -
  let ?t = "request_task env ReqTask sid req (task_counter st) ''white_list_operator''"
  have c: "json_cmd (se_fmt env) req = Some ''white_list_operator''"
    using set_members_cmd [of "''white_list_operator''" "[(''operator_type'', Value_cstr ''select''),
       (''sub_type'', Value_cstr ''plate''), (''plate'', Value_cstr plate)]" "se_fmt env"] assms(3)
    by (auto simp: GeneratQueryWlistVehicleCmd_def cstr_def)
  have len: "length items = length recs" using assms(9) by (rule list_all2_lengthD)
  have n: "nat (sint (of_nat (length recs) :: uint32)) = length recs"
    using sint_diff_of_nat [of "length recs" 0] assms(8) by simp
  have p: "ParseWhiteListOperatorResponse v (Some WL_OPERATOR_0) =
      Some (Some \<lparr>wl_operator_type = Some ''select'', wl_state = None, wl_record_count = of_nat (length recs)\<rparr>)"
    by (simp add: assms(7) if_cstring_cstr [OF assms(5)] if_cstring_null [OF assms(6)] ParseWhiteListOperatorResponse_def if_pointer_def WL_OPERATOR_0_def isNull_def Value_size_def cstr_def)
  obtain ws where ws: "query_records (arrayValue recs) [0..<length recs] = (ws, True)"
      "list_all2 (\<lambda>i w. same_entry (items ! i) w) [0..<length recs] ws"
    using query_records_array [OF assms(9,10), of "[0..<length recs]"] by (auto simp: subset_iff)
  have q: "query_response (Some f) v = Some (Ret REQ_SUCCEED, ws)"
    using ws(1) by (simp add: query_response_def p strcmp_eq_def assms(7) n)
  have "QueryWlistVehicle env svc plate st = (Ret REQ_SUCCEED, st\<lparr>task_counter := task_counter st + 1,
      sdk_trace := sdk_trace st @ [TaskPosted ?t, TaskRemoved ?t] @ map (WlistCallback f sid (wl_user_data (whist_dev svc))) ws\<rparr>)"
    unfolding QueryWlistVehicle_def assms(3) sync_request_response [OF assms(1,2) c assms(4)]
    by (simp add: if_response_def ret_or_fault_def assms(1,11) q wlist_callback_def task_ran_def)
  moreover have "list_all2 same_entry items ws"
    using ws(2) len by (simp add: list_all2_conv_all_nth)
  ultimately show ?thesis by blast
qed

theorem query_reports_entries_witness:
  "\<exists>rec v st' t w. record_of demo_vehicle rec \<and>
     QueryWlistVehicle (demo_env (Some (ResponseData_new 5 v []))) demo_service ''A1'' demo_sdk = (Ret REQ_SUCCEED, st') \<and>
     sdk_trace st' = [TaskPosted t, TaskRemoved t, WlistCallback 3 5 4 w] \<and> same_entry demo_vehicle w"
proof -
  have im: "importable demo_vehicle" using demo_vehicle_ok by (simp add: importable_def) (simp add: demo_vehicle_def)
  then obtain rec where rec: "record_of demo_vehicle rec"
    using import_record_read [OF demo_vehicle_ok demo_vehicle_ok] by (auto simp: record_of_def importable_def)
  let ?v = "objectValue [(''dldb_rec'', arrayValue [rec]), (''operator_type'', Value_cstr ''select'')]"
  let ?env = "demo_env (Some (ResponseData_new 5 ?v []))"
  obtain req where req: "GeneratQueryWlistVehicleCmd ''A1'' nullValue = Some req"
    using set_members_new unfolding GeneratQueryWlistVehicleCmd_def by blast
  have w: "waited ?env (request_task ?env ReqTask 5 req (task_counter demo_sdk) ''white_list_operator'') =
      Returned \<lparr>wm_handler = True, wm_id = task_counter demo_sdk + 1, wm_data = Some (ResponseData_new 5 ?v [])\<rparr>"
    by (subst waited_demo [of _ "se_current ?env"]) (simp_all add: request_task_def)
  from query_reports_entries [OF demo_session _ req w, of "[rec]" "[demo_vehicle]" 3] rec im
  obtain t ws where q: "QueryWlistVehicle ?env demo_service ''A1'' demo_sdk = (Ret REQ_SUCCEED, demo_sdk\<lparr>task_counter := task_counter demo_sdk + 1,
      sdk_trace := sdk_trace demo_sdk @ [TaskPosted t, TaskRemoved t] @ map (WlistCallback 3 5 (wl_user_data (whist_dev demo_service))) ws\<rparr>)"
      "list_all2 same_entry [demo_vehicle] ws"
    by (auto simp: Value_at_def cstr_def demo_service_def)
  then obtain x where "ws = [x]" "same_entry demo_vehicle x" by (auto simp: list_all2_Cons1)
  moreover have "sdk_trace demo_sdk = []" "wl_user_data (whist_dev demo_service) = 4"
    by (simp_all add: demo_sdk_def demo_service_def)
  ultimately show ?thesis
    using q(1) rec by - (rule exI [of _ rec], rule exI [of _ ?v],
      rule exI [of _ "demo_sdk\<lparr>task_counter := task_counter demo_sdk + 1,
        sdk_trace := [TaskPosted t, TaskRemoved t, WlistCallback 3 5 4 x]\<rparr>"],
      rule exI [of _ t], rule exI [of _ x], simp)
qed

text \<open>
  The operations that wait for an acknowledgement compare members of the response
  with \<^verbatim>\<open>strcmp\<close> without checking that the response has them: a response with the right command
  but without \<^verbatim>\<open>subcmd\<close>, \<^verbatim>\<open>response\<close> or \<^verbatim>\<open>operator_type\<close> makes the calling thread read
  through a null pointer.
\<close>

theorem missing_member_faults:
  assumes "Service_GetSessionID svc = sid" and "sid \<noteq> 0" and "wm_handler m"
    and "wm_data m = Some (ResponseData_new sid (objectValue [(''cmd'', c)]) data)"
  shows "(GeneratSerialStartCmd 0 nullValue = Some (True, req) \<and>
      waited env (request_task env ReqTask sid req (task_counter st) ''ttransmission'') = Returned m \<longrightarrow>
      fst (SerialStart env svc 0 st) = Faulted) \<and>
    (GeneratOfflineCheckCmd 2 nullValue = Some req \<and>
      waited env (request_task env ReqTask sid req (task_counter st) ''offline'') = Returned m \<longrightarrow>
      fst (SetOfflineCheck env svc st) = Faulted) \<and>
    (GeneratDeleteWlistVehicleCmd plate nullValue = Some req \<and>
      waited env (request_task env ReqTask sid req (task_counter st) ''white_list_operator'') = Returned m \<longrightarrow>
      fst (DeleteWlistVehicle env svc plate st) = Faulted)"
proof -
  let ?v = "objectValue [(''cmd'', c)]"
  obtain i where m: "m = \<lparr>wm_handler = True, wm_id = i, wm_data = Some (ResponseData_new sid ?v data)\<rparr>"
    using assms(3,4) by (cases m) auto
  have n: "Value_at ?v k = Some nullValue" if "k \<in> {''subcmd'', ''response'', ''datalen'', ''comm'', ''data'', ''operator_type'', ''state'', ''dldb_rec''}" for k
    using that by (auto simp: Value_at_def cstr_def)
  have u: "if_uint ?v k f r = Some r" if "Value_at ?v k = Some nullValue" for k and f :: "uint32 \<Rightarrow> TTRANSMISSION_RESPONSE \<Rightarrow> _" and r
    using that by (simp add: if_uint_def isNull_def)
  have 1: "fst (SerialStart env svc 0 st) = Faulted" if g: "GeneratSerialStartCmd 0 nullValue = Some (True, req)"
      "waited env (request_task env ReqTask sid req (task_counter st) ''ttransmission'') = Returned m"
  proof -
    have "json_cmd (se_fmt env) req = Some ''ttransmission''"
      using g(1) set_members_cmd [of "''ttransmission''" "[(''subcmd'', Value_cstr ''init''),
           (''data'', Value_cstr (serial_name 0)), (''datalen'', Value_Int (int (length (serial_name 0))))]" "se_fmt env"]
      by (auto simp: GeneratSerialStartCmd_def cstr_def)
    note s = sync_request_response [OF assms(1,2) this g(2) [unfolded m]]
    show ?thesis unfolding SerialStart_def g(1)
      by (simp add: s if_response_def ParseTTransmissionResponse_def if_pointer_def if_cstring_null n u TTRANSMISSION_0_def
          both_equal_def strcmp_eq_def ret_or_fault_def)
  qed
  have 2: "fst (SetOfflineCheck env svc st) = Faulted" if g: "GeneratOfflineCheckCmd 2 nullValue = Some req"
      "waited env (request_task env ReqTask sid req (task_counter st) ''offline'') = Returned m"
  proof -
    have "json_cmd (se_fmt env) req = Some ''offline''"
      using g(1) set_members_cmd [of "''offline''" "[(''interval'', Value_UInt 2)]" "se_fmt env"]
      by (auto simp: GeneratOfflineCheckCmd_def cstr_def)
    note s = sync_request_response [OF assms(1,2) this g(2) [unfolded m]]
    show ?thesis unfolding SetOfflineCheck_def g(1)
      by (simp add: s if_response_def ParseOfflineResponse_def if_pointer_def if_cstring_null n strcmp_eq_def ret_or_fault_def)
  qed
  have 3: "fst (DeleteWlistVehicle env svc plate st) = Faulted" if g: "GeneratDeleteWlistVehicleCmd plate nullValue = Some req"
      "waited env (request_task env ReqTask sid req (task_counter st) ''white_list_operator'') = Returned m"
  proof -
    have "json_cmd (se_fmt env) req = Some ''white_list_operator''"
      using g(1) set_members_cmd [of "''white_list_operator''" "[(''operator_type'', Value_cstr ''delete''),
       (''plate'', Value_cstr plate)]" "se_fmt env"] by (auto simp: GeneratDeleteWlistVehicleCmd_def cstr_def)
    note s = sync_request_response [OF assms(1,2) this g(2) [unfolded m]]
    show ?thesis unfolding DeleteWlistVehicle_def g(1)
      by (simp add: s if_response_def wlist_operator_def ParseWhiteListOperatorResponse_def if_pointer_def if_cstring_null n
          WL_OPERATOR_0_def isNull_def both_equal_def strcmp_eq_def ret_or_fault_def)
  qed
  show ?thesis using 1 2 3 by blast
qed

theorem missing_member_faults_witness:
  "fst (SetOfflineCheck (demo_env (Some (ResponseData_new 5 (objectValue [(''cmd'', Value_cstr ''offline'')]) []))) demo_service demo_sdk) = Faulted"
proof -
  let ?d = "ResponseData_new 5 (objectValue [(''cmd'', Value_cstr ''offline'')]) []"
  obtain req where req: "GeneratOfflineCheckCmd 2 nullValue = Some req"
    using set_members_new unfolding GeneratOfflineCheckCmd_def by blast
  have "waited (demo_env (Some ?d)) (request_task (demo_env (Some ?d)) ReqTask 5 req (task_counter demo_sdk) ''offline'') =
      Returned \<lparr>wm_handler = True, wm_id = task_counter demo_sdk + 1, wm_data = Some ?d\<rparr>"
    by (subst waited_demo [of _ "se_current (demo_env (Some ?d))"]) (simp_all add: request_task_def)
  with missing_member_faults [OF demo_session, of "\<lparr>wm_handler = True, wm_id = task_counter demo_sdk + 1, wm_data = Some ?d\<rparr>"
      "Value_cstr ''offline''" "[]" req "demo_env (Some ?d)" demo_sdk] req
  show ?thesis by simp
qed

end
