(* ===== verification/Vz_Devicemanage.thy ===== *)
theory Vz_Devicemanage
  imports Vz_Devices Vz_Queuelayer
begin

text \<open>
  \<^verbatim>\<open>src/src/vzsdk/vztcpdevicemanage.{h,cpp}\<close>: the table of the services by session number.
\<close>

section \<open>The table of services\<close>

record VzTcpDeviceManage =
  vzsdk_service_map :: "(int \<times> VzsdkService) list"
  dm_callback :: "nat option"
  dm_user_data :: nat

definition VzTcpDeviceManage_new :: VzTcpDeviceManage where
  "VzTcpDeviceManage_new = \<lparr>vzsdk_service_map = [], dm_callback = None, dm_user_data = 0\<rparr>"

definition ExistService :: "int \<Rightarrow> VzTcpDeviceManage \<Rightarrow> bool" where
  "ExistService sid m \<longleftrightarrow> stdmap_find sid (vzsdk_service_map m) \<noteq> None"

definition GetService :: "int \<Rightarrow> VzTcpDeviceManage \<Rightarrow> VzsdkService option" where
  "GetService sid m = (if ExistService sid m then stdmap_find sid (vzsdk_service_map m) else None)"

text \<open>The first service whose device has the address; a service without connect data faults.\<close>

fun find_ip ::
  "(address_family \<Rightarrow> bytes \<Rightarrow> string option) \<Rightarrow> string \<Rightarrow> (int \<times> VzsdkService) list \<Rightarrow> VzsdkService option call" where
  "find_ip ntop ip [] = Ret None"
| "find_ip ntop ip ((k, svc) # es) = (case GetIP ntop (connect_dev svc) of
      Ret dev_ip \<Rightarrow> if ip = dev_ip then Ret (Some svc) else find_ip ntop ip es
    | Blocked \<Rightarrow> Blocked
    | Faulted \<Rightarrow> Faulted)"

definition GetService_ip ::
  "(address_family \<Rightarrow> bytes \<Rightarrow> string option) \<Rightarrow> string \<Rightarrow> VzTcpDeviceManage \<Rightarrow> VzsdkService option call" where
  "GetService_ip ntop ip m = find_ip ntop ip (vzsdk_service_map m)"

text \<open>Erasing the entry destroys the service.\<close>

definition RemoveService :: "sdk_env \<Rightarrow> int \<Rightarrow> VzTcpDeviceManage \<Rightarrow> Sdk \<Rightarrow> bool call \<times> VzTcpDeviceManage \<times> Sdk" where
  "RemoveService env sid m st =
     (case stdmap_find sid (vzsdk_service_map m) of
        None \<Rightarrow> (Ret False, m, st)
      | Some svc \<Rightarrow>
          let (r, st1) = VzsdkService_destroy env svc st
          in (r, m\<lparr>vzsdk_service_map := stdmap_erase sid (vzsdk_service_map m)\<rparr>, st1))"

text \<open>A service that is not filed, because its number is taken, is destroyed when the call ends.\<close>

definition CreateNewService ::
  "sdk_env \<Rightarrow> ResumePushHandle \<Rightarrow> VzRecognition \<Rightarrow> SocketAddress \<Rightarrow> VzTcpDeviceManage \<Rightarrow> Sdk \<Rightarrow>
     int call \<times> VzTcpDeviceManage \<times> Sdk" where
  "CreateNewService env o0 r0 addr m st =
     (let (svc0, st0) = VzsdkService_Start o0 r0 st;
          (r, svc, st1) = ConnectServer env addr svc0 st0
      in (case r of
            Blocked \<Rightarrow> (Blocked, m, st1)
          | Faulted \<Rightarrow> (Faulted, m, st1)
          | Ret sid \<Rightarrow>
              if sid \<noteq> sint SESSION_ID_INVALUE then
                let svc1 = Service_SetCommonNotifyCallBack (dm_callback m) (dm_user_data m) svc;
                    m1 = m\<lparr>vzsdk_service_map := stdmap_insert sid svc1 (vzsdk_service_map m)\<rparr>
                in if ExistService sid m then
                     let (d, st2) = VzsdkService_destroy env svc1 st1
                     in (case d of Ret _ \<Rightarrow> (Ret sid, m1, st2) | Blocked \<Rightarrow> (Blocked, m1, st2) | Faulted \<Rightarrow> (Faulted, m1, st2))
                   else (Ret sid, m1, st1)
              else
                let (d, st2) = VzsdkService_Stop env svc st1
                in (case d of
                      Ret _ \<Rightarrow>
                        (case VzsdkService_destroy env svc st2 of
                           (Ret _, st3) \<Rightarrow> (Ret sid, m, st3)
                         | (Blocked, st3) \<Rightarrow> (Blocked, m, st3)
                         | (Faulted, st3) \<Rightarrow> (Faulted, m, st3))
                    | Blocked \<Rightarrow> (Blocked, m, st2)
                    | Faulted \<Rightarrow> (Faulted, m, st2))))"

definition CloseService :: "sdk_env \<Rightarrow> int \<Rightarrow> VzTcpDeviceManage \<Rightarrow> Sdk \<Rightarrow> bool call \<times> VzTcpDeviceManage \<times> Sdk" where
  "CloseService env sid m st =
     (case GetService sid m of
        None \<Rightarrow> (Ret False, m, st)
      | Some svc \<Rightarrow>
          let (r, st1) = VzsdkService_Stop env svc st
          in (case r of
                Ret _ \<Rightarrow>
                  (case RemoveService env sid m st1 of
                     (Ret _, m2, st2) \<Rightarrow> (Ret True, m2, st2)
                   | (Blocked, m2, st2) \<Rightarrow> (Blocked, m2, st2)
                   | (Faulted, m2, st2) \<Rightarrow> (Faulted, m2, st2))
              | Blocked \<Rightarrow> (Blocked, m, st1)
              | Faulted \<Rightarrow> (Faulted, m, st1)))"

text \<open>The loop over the services; \<open>False\<close> when it runs into a service without a handle.\<close>

fun set_callbacks :: "nat option \<Rightarrow> nat \<Rightarrow> (int \<times> VzsdkService) list \<Rightarrow> Sdk \<Rightarrow> bool \<times> (int \<times> VzsdkService) list \<times> Sdk" where
  "set_callbacks f u [] st = (True, [], st)"
| "set_callbacks f u ((k, svc) # es) st =
     (let svc1 = Service_SetCommonNotifyCallBack f u svc in
      case ConnectDev_SetCommonNotifyCallBack f u (connect_dev svc) st of
        None \<Rightarrow> (False, (k, svc1) # es, st)
      | Some st1 \<Rightarrow> let (ok, es', st2) = set_callbacks f u es st1 in (ok, (k, svc1) # es', st2))"

definition Manage_SetCommonNotifyCallBack ::
  "nat option \<Rightarrow> nat \<Rightarrow> VzTcpDeviceManage \<Rightarrow> Sdk \<Rightarrow> unit call \<times> VzTcpDeviceManage \<times> Sdk" where
  "Manage_SetCommonNotifyCallBack f u m st =
     (let (ok, es, st1) = set_callbacks f u (vzsdk_service_map m) st
      in (if ok then Ret () else Faulted,
          m\<lparr>dm_callback := f, dm_user_data := u, vzsdk_service_map := es\<rparr>, st1))"

text \<open>\<open>started\<close> says whether the threads of the layers below could be started.\<close>

definition Manage_Start :: "nat \<Rightarrow> nat \<Rightarrow> bool \<Rightarrow> Sdk \<Rightarrow> bool \<times> Sdk" where
  "Manage_Start current push_thread started st =
     (let (pm, counter) = PushManagerTask_new current (task_counter st) (Some push_thread);
          pm1 = (if started then fst (PushManager_SyncProcessTask pm) else pm)
      in (started, st\<lparr>task_counter := counter, push_manager := Some pm1\<rparr>))"

text \<open>The services are destroyed in the order in which \<^verbatim>\<open>std::map::clear\<close> visits them.\<close>

fun destroy_services :: "sdk_env \<Rightarrow> VzsdkService list \<Rightarrow> Sdk \<Rightarrow> bool call \<times> Sdk" where
  "destroy_services env [] st = (Ret True, st)"
| "destroy_services env (svc # svcs) st = (case VzsdkService_destroy env svc st of
      (Ret _, st1) \<Rightarrow> destroy_services env svcs st1
    | (Blocked, st1) \<Rightarrow> (Blocked, st1)
    | (Faulted, st1) \<Rightarrow> (Faulted, st1))"

definition Manage_Stop :: "sdk_env \<Rightarrow> VzsdkService list \<Rightarrow> VzTcpDeviceManage \<Rightarrow> Sdk \<Rightarrow> bool call \<times> VzTcpDeviceManage \<times> Sdk" where
  "Manage_Stop env order m st =
     (let (r, st1) = destroy_services env order st in (r, m\<lparr>vzsdk_service_map := []\<rparr>, st1))"

section \<open>Opening and closing\<close>

lemma GetService_find: "GetService sid m = stdmap_find sid (vzsdk_service_map m)"
  by (simp add: GetService_def ExistService_def)

text \<open>The service that is created, and the task that connects it.\<close>

definition connect_task :: "sdk_env \<Rightarrow> SocketAddress \<Rightarrow> uint32 \<Rightarrow> Task" where
  "connect_task env addr counter =
     \<lparr>task_kind = ConnectTask, task_id = counter + 1, task_timeout = DEFAULT_TIMEOUT, task_thread = Some (se_current env),
      message_data = Some (ReqConnectData_new addr), req_cmd = []\<rparr>"

lemma ConnectTask_new_task:
  "ConnectTask_new DEFAULT_TIMEOUT (se_current env) counter addr = (connect_task env addr counter, counter + 1)"
  by (simp add: ConnectTask_new_def Task_new_def connect_task_def)

lemma ConnectServer_timeout:
  assumes "waited env (connect_task env addr (task_counter st)) = Returned m" and "\<not> wm_handler m"
  shows "ConnectServer env addr svc st =
    (Ret 0, set_connect_data (Some (ReqConnectData_new addr)) svc, task_ran (connect_task env addr (task_counter st)) st)"
  using assms SyncProcessTask_ended [OF assms(1), of st]
  by (simp add: ConnectServer_def ConnectTask_new_task on_message_def DEFAULT_RESULT_TIMEOUT_def)

lemma Service_AddPushHandle_simps [simp]:
  "handles (Service_AddPushHandle a st) = handles st" "sdk_trace (Service_AddPushHandle a st) = sdk_trace st"
  by (simp_all add: Service_AddPushHandle_def split: option.splits)

lemma ChangeConn_spec:
  assumes "Service_GetSessionID svc = sid"
  shows "\<exists>svc' st'. ChangeConn svc st = (svc', st') \<and> Service_GetSessionID svc' = sid \<and>
    change_conn_pushhandle (connect_dev svc') = Some (next_handle st) \<and> sdk_trace st' = sdk_trace st \<and>
    handles st' = (handles st)(next_handle st := \<lparr>cmd_key = ''change_conn_status'',
      push_object = ChangeConnObject \<lparr>cc_session = sid, cc_callback = None, cc_userdata = 0\<rparr>\<rparr>)"
  using assms by (simp add: ChangeConn_def Service_GetCommonNotifyCallBack_def SetConnCallBack_def new_handle_def Let_def
      Service_GetSessionID_def GetSessionID_def)

lemma ConnectServer_connected:
  assumes "waited env (connect_task env addr (task_counter st)) = Returned m" and "wm_handler m"
    and "wm_data m = Some stanza" and "stanza_session stanza = sid"
    and "FindSession sid (se_sessions env) = Some s" and "Session_GetState s = CS_CONNECTED"
  shows "\<exists>svc' st'. ConnectServer env addr svc st = (Ret (sint sid), svc', st') \<and>
    Service_GetSessionID svc' = sid \<and> change_conn_pushhandle (connect_dev svc') = Some (next_handle st) \<and>
    handles st' = (handles st)(next_handle st := \<lparr>cmd_key = ''change_conn_status'',
      push_object = ChangeConnObject \<lparr>cc_session = sid, cc_callback = None, cc_userdata = 0\<rparr>\<rparr>) \<and>
    (\<exists>t d. sdk_trace st' = sdk_trace st @ [TaskPosted t, TaskRemoved t, QueuePosted RES_RECONNECT_EVENT d] \<and>
      stanza_session d = sid)"
proof -
  let ?t = "connect_task env addr (task_counter st)"
  let ?d = "(ReqConnectData_new addr)\<lparr>stanza_session := sid, stanza_type := RES_RECONNECT_EVENT\<rparr>"
  let ?svc = "set_connect_data (Some ?d) svc" and ?st = "emit (QueuePosted RES_RECONNECT_EVENT ?d) (task_ran ?t st)"
  have "Service_GetSessionID ?svc = sid"
    by (simp add: Service_GetSessionID_def GetSessionID_def set_connect_data_def)
  from ChangeConn_spec [OF this, of ?st]
  obtain svc' st' where c: "ChangeConn ?svc ?st = (svc', st')" "Service_GetSessionID svc' = sid"
    "change_conn_pushhandle (connect_dev svc') = Some (next_handle ?st)" "sdk_trace st' = sdk_trace ?st"
    "handles st' = (handles ?st)(next_handle ?st := \<lparr>cmd_key = ''change_conn_status'',
      push_object = ChangeConnObject \<lparr>cc_session = sid, cc_callback = None, cc_userdata = 0\<rparr>\<rparr>)" by blast
  have "GetConnState env (connect_dev (set_connect_data (Some ((ReqConnectData_new addr)\<lparr>stanza_session := sid\<rparr>)) svc)) = CS_CONNECTED"
    using assms(5,6) by (simp add: GetConnState_def GetSessionID_def set_connect_data_def)
  then have "ConnectServer env addr svc st = (Ret (sint sid), svc', st')"
    using assms(2-4) SyncProcessTask_ended [OF assms(1), of st] c(1)
    by (simp add: ConnectServer_def ConnectTask_new_task on_message_def ReConnectServer_def set_connect_data_def Let_def)
  moreover have "sdk_trace st' = sdk_trace st @ [TaskPosted ?t, TaskRemoved ?t, QueuePosted RES_RECONNECT_EVENT ?d]"
    using c(4) by (simp add: emit_def)
  moreover have "next_handle ?st = next_handle st" "handles ?st = handles st" "stanza_session ?d = sid" by (simp_all add: emit_def)
  ultimately show ?thesis using c(2,3,5)
    by - (rule exI [of _ svc'], rule exI [of _ st'], intro conjI exI [of _ ?t] exI [of _ ?d], simp_all)
qed

lemma VzsdkService_Start_state:
  "VzsdkService_Start o0 r0 st = (svc, st') \<Longrightarrow>
     task_counter st' = task_counter st \<and> sdk_trace st' = sdk_trace st \<and> next_handle st' = next_handle st + 2 \<and>
     change_conn_pushhandle (connect_dev svc) = None"
  by (auto simp: VzsdkService_Start_def VzRecognition_new_def new_handle_def)

lemma CreateNewService_timeout:
  assumes "waited env (connect_task env addr (task_counter st)) = Returned m'" and "\<not> wm_handler m'"
    and "GetService 0 m = None"
  shows "\<exists>svc st'. CreateNewService env o0 r0 addr m st =
      (Ret 0, m\<lparr>vzsdk_service_map := stdmap_insert 0 svc (vzsdk_service_map m)\<rparr>, st') \<and>
    Service_GetSessionID svc = 0 \<and> change_conn_pushhandle (connect_dev svc) = None"
proof -
  obtain svc0 st0 where st: "VzsdkService_Start o0 r0 st = (svc0, st0)" by fastforce
  note s = VzsdkService_Start_state [OF st]
  have "ConnectServer env addr svc0 st0 =
      (Ret 0, set_connect_data (Some (ReqConnectData_new addr)) svc0, task_ran (connect_task env addr (task_counter st0)) st0)"
    using ConnectServer_timeout [of env addr st0 m' svc0] assms(1,2) s by simp
  moreover have "\<not> ExistService 0 m" using assms(3) by (simp add: GetService_find ExistService_def)
  ultimately show ?thesis using st s
    by (auto simp: CreateNewService_def SESSION_ID_INVALUE_def Service_GetSessionID_def GetSessionID_def set_connect_data_def
        Service_SetCommonNotifyCallBack_def ReqConnectData_new_def NULL_SESSION_ID_def)
qed

lemma CreateNewService_connected:
  assumes "waited env (connect_task env addr (task_counter st)) = Returned m'" and "wm_handler m'"
    and "wm_data m' = Some stanza" and "stanza_session stanza = sid" and "0 < sint sid"
    and "FindSession sid (se_sessions env) = Some s" and "Session_GetState s = CS_CONNECTED"
    and "GetService (sint sid) m = None"
  shows "\<exists>svc a st'. CreateNewService env o0 r0 addr m st =
      (Ret (sint sid), m\<lparr>vzsdk_service_map := stdmap_insert (sint sid) svc (vzsdk_service_map m)\<rparr>, st') \<and>
    Service_GetSessionID svc = sid \<and> change_conn_pushhandle (connect_dev svc) = Some a \<and>
    push_object (handles st' a) = ChangeConnObject \<lparr>cc_session = sid, cc_callback = None, cc_userdata = 0\<rparr> \<and>
    (\<exists>t d. sdk_trace st' = sdk_trace st @ [TaskPosted t, TaskRemoved t, QueuePosted RES_RECONNECT_EVENT d] \<and>
      stanza_session d = sid)"
proof -
  obtain svc0 st0 where st: "VzsdkService_Start o0 r0 st = (svc0, st0)" by fastforce
  note s = VzsdkService_Start_state [OF st]
  obtain svc' st' where c: "ConnectServer env addr svc0 st0 = (Ret (sint sid), svc', st')"
    "Service_GetSessionID svc' = sid" "change_conn_pushhandle (connect_dev svc') = Some (next_handle st0)"
    "handles st' = (handles st0)(next_handle st0 := \<lparr>cmd_key = ''change_conn_status'',
      push_object = ChangeConnObject \<lparr>cc_session = sid, cc_callback = None, cc_userdata = 0\<rparr>\<rparr>)"
    "\<exists>t d. sdk_trace st' = sdk_trace st0 @ [TaskPosted t, TaskRemoved t, QueuePosted RES_RECONNECT_EVENT d] \<and>
      stanza_session d = sid"
    using ConnectServer_connected [of env addr st0 m' stanza sid s svc0] assms(1-4,6,7) s by auto
  have "\<not> ExistService (sint sid) m" using assms(8) by (simp add: GetService_find ExistService_def)
  moreover have "sint sid \<noteq> - 1" using assms(5) by simp
  ultimately show ?thesis using st c s
    by (auto simp: CreateNewService_def SESSION_ID_INVALUE_def Service_SetCommonNotifyCallBack_def Service_GetSessionID_def)
qed

text \<open>Every wait for a task ends, and an answer has data.\<close>

definition answering :: "sdk_env \<Rightarrow> bool" where
  "answering env \<longleftrightarrow> (\<forall>t. task_thread t \<noteq> None \<longrightarrow>
     (\<exists>m. waited env t = Returned m \<and> (wm_handler m \<longrightarrow> wm_data m \<noteq> None)))"

definition resumable :: "VzsdkService \<Rightarrow> Sdk \<Rightarrow> bool" where
  "resumable svc st \<longleftrightarrow> (\<exists>o1. push_object (handles st (resume_handle (recongition svc))) = ResumeObject o1)"

text \<open>What disconnecting appends to the trace.\<close>

definition disconnected :: "uint32 \<Rightarrow> Sdk \<Rightarrow> Sdk \<Rightarrow> bool" where
  "disconnected sid st st' \<longleftrightarrow> (\<exists>t. message_data t = Some (ReqDisconnectData_new sid) \<and>
     sdk_trace st' = sdk_trace st @ [TaskPosted t, TaskRemoved t])"

lemma DisconnectServer_ended:
  assumes "answering env" and "connect_data c = Some d" and "stanza_session d \<noteq> SESSION_ID_INVALUE"
    and "case rg of None \<Rightarrow> st1 = st | Some rg \<Rightarrow> SlotDisConnecting rg st = Some st1"
  shows "\<exists>r st'. DisconnectServer env rg c st = (Ret r, st') \<and> disconnected (stanza_session d) st1 st' \<and> handles st' = handles st1"
proof -
  obtain t where t: "DisconnectTask_new DEFAULT_TIMEOUT (se_current env) (task_counter st1) (stanza_session d) = (t, task_counter st1 + 1)"
    "task_thread t = Some (se_current env)" "message_data t = Some (ReqDisconnectData_new (stanza_session d))"
    by (simp add: DisconnectTask_new_def Task_new_def)
  obtain m where m: "waited env t = Returned m" "wm_handler m \<longrightarrow> wm_data m \<noteq> None"
    using assms(1) t(2) unfolding answering_def by fastforce
  have "DisconnectServer env rg c st = (on_message (Some (Returned m)) DEFAULT_RESULT_TIMEOUT (\<lambda>stanza. case stanza of
        None \<Rightarrow> Faulted
      | Some s \<Rightarrow> if stanza_type s = RES_DISCONNECTED_EVENT_SUCCEED then Ret REQ_SUCCEED
          else if stanza_type s = RES_DISCONNECTED_EVENT_FAILURE then Ret SESSION_NOT_FOUND else Ret UNKOWN_ERROR),
      task_ran t st1)"
    using assms(2-4) SyncProcessTask_ended [OF m(1), of st1] t(1)
    by (cases rg) (simp_all add: DisconnectServer_def)
  moreover have "disconnected (stanza_session d) st1 (task_ran t st1)"
    using t(3) unfolding disconnected_def by (intro exI [of _ t]) simp
  ultimately show ?thesis using m(2) by (auto simp: on_message_def)
qed

lemma SlotDisConnecting_resumable:
  assumes "resumable svc st"
  shows "\<exists>st1. SlotDisConnecting (recongition svc) st = Some st1 \<and> resumable svc st1 \<and> sdk_trace st1 = sdk_trace st"
  using assms by (auto simp: SlotDisConnecting_def resumable_def on_resume_def set_object_def)

lemma disconnected_trans:
  "sdk_trace st1 = sdk_trace st \<Longrightarrow> disconnected sid st1 st' = disconnected sid st st'"
  by (simp add: disconnected_def)

lemma VzsdkService_Stop_ended:
  assumes "answering env" and "connect_data (connect_dev svc) = Some d" and "stanza_session d \<noteq> SESSION_ID_INVALUE"
    and "resumable svc st"
  shows "\<exists>st'. VzsdkService_Stop env svc st = (Ret True, st') \<and> disconnected (stanza_session d) st st' \<and> resumable svc st'"
proof -
  obtain st1 where st1: "SlotDisConnecting (recongition svc) st = Some st1" "resumable svc st1" "sdk_trace st1 = sdk_trace st"
    using SlotDisConnecting_resumable [OF assms(4)] by blast
  have "\<exists>r st'. DisconnectServer env (Some (recongition svc)) (connect_dev svc) st = (Ret r, st') \<and>
      disconnected (stanza_session d) st1 st' \<and> handles st' = handles st1"
    by (rule DisconnectServer_ended [OF assms(1-3)]) (simp add: st1(1))
  then obtain r st' where d: "DisconnectServer env (Some (recongition svc)) (connect_dev svc) st = (Ret r, st')"
    "disconnected (stanza_session d) st1 st'" "handles st' = handles st1" by blast
  have "disconnected (stanza_session d) st st'" using d(2) disconnected_trans [OF st1(3)] by simp
  moreover have "resumable svc st'" using st1(2) d(3) by (simp add: resumable_def)
  ultimately show ?thesis by (simp add: VzsdkService_Stop_def d(1))
qed

lemma VzsdkService_destroy_ended:
  assumes "answering env" and "connect_data (connect_dev svc) = Some d" and "stanza_session d \<noteq> SESSION_ID_INVALUE"
    and "resumable svc st"
  shows "\<exists>st1 st'. VzsdkService_destroy env svc st = (Ret True, st') \<and> disconnected (stanza_session d) st st1 \<and>
    disconnected (stanza_session d) st1 st'"
proof -
  obtain st1 where st1: "VzsdkService_Stop env svc st = (Ret True, st1)" "disconnected (stanza_session d) st st1"
    using VzsdkService_Stop_ended [OF assms] by blast
  obtain r st' where "DisconnectServer env None (connect_dev svc) st1 = (Ret r, st')" "disconnected (stanza_session d) st1 st'"
    using DisconnectServer_ended [OF assms(1-3), where rg = None and ?st1.0 = st1 and st = st1] by auto
  with st1 show ?thesis by (auto simp: VzsdkService_destroy_def)
qed

lemma CloseService_ended:
  assumes "answering env" and "GetService sid m = Some svc" and "connect_data (connect_dev svc) = Some d"
    and "stanza_session d \<noteq> SESSION_ID_INVALUE" and "resumable svc st"
  shows "\<exists>st1 st2 st3. CloseService env sid m st =
      (Ret True, m\<lparr>vzsdk_service_map := stdmap_erase sid (vzsdk_service_map m)\<rparr>, st3) \<and>
    disconnected (stanza_session d) st st1 \<and> disconnected (stanza_session d) st1 st2 \<and> disconnected (stanza_session d) st2 st3"
proof -
  obtain st1 where st1: "VzsdkService_Stop env svc st = (Ret True, st1)" "disconnected (stanza_session d) st st1" "resumable svc st1"
    using VzsdkService_Stop_ended [OF assms(1,3-5)] by blast
  obtain st2 st3 where "VzsdkService_destroy env svc st1 = (Ret True, st3)" "disconnected (stanza_session d) st1 st2"
    "disconnected (stanza_session d) st2 st3"
    using VzsdkService_destroy_ended [OF assms(1,3,4) st1(3)] by blast
  with st1 show ?thesis using assms(2) by (auto simp: CloseService_def RemoveService_def GetService_find)
qed

end
