(* ===== verification/Vz_Capi.thy ===== *)
theory Vz_Capi
  imports Vz_Devicemanage
begin

text \<open>
  \<^verbatim>\<open>src/src/vzsdk/vzlprtcpsdk.cpp\<close>: the C interface of the SDK.  \<open>Api\<close> holds its global variables:
  the device manager, the last error and the address that \<^verbatim>\<open>VzLPRTcp_GetIP\<close> keeps in a
  static variable.  A pointer argument that may be null is an option or a flag.
\<close>

section \<open>State\<close>

datatype VZ_LPRC_LASTERROR_TYPE =
    VZ_LPRC_LASTERROR_SUCCESS | VZ_LPRC_LASTERROR_NOT_SETUP | VZ_LPRC_LASTERROR_CREATE_FAILED
  | VZ_LPRC_LASTERROR_CONNECT_FAILED | VZ_LPRC_LASTERROR_INVALID_HANDLE | VZ_LPRC_LASTERROR_INVALID_IP
  | VZ_LPRC_LASTERROR_NOT_FOUND_IP | VZ_LPRC_LASTERROR_INVALID_PSTATUS | VZ_LPRC_LASTERROR_REALPLAY_FAILED
  | VZ_LPRC_LASTERROR_NOT_FOUND_PLAYHANDLE | VZ_LPRC_LASTERROR_CALLBACK_ERROR | VZ_LPRC_LASTERROR_IMAGEFORMAT_ERROR
  | VZ_LPRC_LASTERROR_NULL_IMGINFO | VZ_LPRC_LASTERROR_WRONG_IMGINFO_DSTBUF | VZ_LPRC_LASTERROR_IOOUTPUT_ERROR
  | VZ_LPRC_LASTERROR_INVALID_SERIALHANDLE | VZ_LPRC_LASTERROR_INVALID_WHITELIST | VZ_LPRC_LASTERROR_INVALID_FILENAME
  | VZ_LPRC_LASTERROR_SEARCHSET_ERROR | VZ_LPRC_LASTERROR_GETPLATE_ERROR | VZ_LPRC_LASTERROR_PLATESIZE_ERROR
  | VZ_LPRC_LASTERROR_ENCODE_TYPE_ERROR | VZ_LPRC_LASTERROR_GPIO_STATUS_ERROR | VZ_LPRC_LASTERROR_GPIO_NUMBER_ERROR
  | VZ_LPRC_LASTERROR_INVALID_FILEPATH | VZ_LPRC_LASTERROR_EDITION_ERROR | VZ_LPRC_LASTERROR_DBERROR_PLATEID_EXISTS
  | VZ_LPRC_LASTERROR_DBERROR_INSERT_CUSTOMERINFO_FAILED | VZ_LPRC_LASTERROR_DBERROR_INSERT_VEHICLEINFO_FAILED | VZ_LPRC_LASTERROR_DBERROR_UPDATE_CUSTOMERINFO_FAILED
  | VZ_LPRC_LASTERROR_DBERROR_UPDATE_VEHICLEINFO_FAILED | VZ_LPRC_LASTERROR_DBERROR_PLATEID_EMPTY | VZ_LPRC_LASTERROR_DBERROR_ROW_NOT_CHANGED
  | VZ_LPRC_LASTERROR_DBERROR_CUSTOMERINFO_NOT_CHANGED | VZ_LPRC_LASTERROR_DBERROR_VEHICLEINFO_NOT_CHANGED | VZ_LPRC_LASTERROR_DBERROR_CUSTOMER_VEHICLE_NOT_MATCH
  | VZ_LPRC_LASTERROR_DBERROR_SQLERRORCODESERVERGONE | VZ_LPRC_LASTERROR_GETDEVICE_ERROR | VZ_LPRC_LASTERROR_INVALID_PARAM

record Api =
  vztcp_device_manage :: "VzTcpDeviceManage option"
  g_LastError :: VZ_LPRC_LASTERROR_TYPE
  device_ip :: "string option"

type_synonym 'a api_result = "'a call \<times> Api \<times> Sdk"

definition vzsdk_success :: int where "vzsdk_success = 0"

definition vzsdk_failed :: int where "vzsdk_failed = - 1"

definition SetLastError :: "int \<Rightarrow> VZ_LPRC_LASTERROR_TYPE \<Rightarrow> Api \<Rightarrow> Api" where
  "SetLastError ret e api = (if ret \<noteq> vzsdk_success then api\<lparr>g_LastError := e\<rparr> else api)"

definition CheckManage :: "Api \<Rightarrow> bool \<times> Api" where
  "CheckManage api =
     (let ret = (if vztcp_device_manage api \<noteq> None then vzsdk_success else vzsdk_failed)
      in (ret = vzsdk_success, SetLastError ret VZ_LPRC_LASTERROR_NOT_SETUP api))"

definition api_service :: "int \<Rightarrow> Api \<Rightarrow> VzsdkService option" where
  "api_service handle api = Option.bind (vztcp_device_manage api) (GetService handle)"

definition CheckDevice :: "int \<Rightarrow> Api \<Rightarrow> bool \<times> Api" where
  "CheckDevice handle api =
     (let (exist_manage, api1) = CheckManage api in
      if exist_manage then
        (if api_service handle api1 \<noteq> None then (True, api1)
         else (exist_manage, SetLastError vzsdk_failed VZ_LPRC_LASTERROR_INVALID_HANDLE api1))
      else (exist_manage, api1))"

section \<open>Calls on one device\<close>

text \<open>
  The shape of the calls: check the handle, look the service up and run an operation of one
  of its modules on it.  The service is stored back because it is shared with the table.
\<close>

definition put_service :: "int \<Rightarrow> VzsdkService \<Rightarrow> Api \<Rightarrow> Api" where
  "put_service handle svc api =
     api\<lparr>vztcp_device_manage := map_option (\<lambda>m. m\<lparr>vzsdk_service_map := stdmap_set handle svc (vzsdk_service_map m)\<rparr>)
       (vztcp_device_manage api)\<rparr>"

definition device_call ::
  "int \<Rightarrow> 'a \<Rightarrow> (VzsdkService \<Rightarrow> Sdk \<Rightarrow> 'a call \<times> VzsdkService \<times> Sdk) \<Rightarrow> Api \<Rightarrow> Sdk \<Rightarrow> 'a api_result" where
  "device_call handle failed f api st =
     (let (ok, api1) = CheckDevice handle api in
      if \<not> ok then (Ret failed, api1, st)
      else (case api_service handle api1 of
              None \<Rightarrow> (Ret failed, api1, st)
            | Some svc \<Rightarrow> let (r, svc', st') = f svc st in (r, put_service handle svc' api1, st')))"

definition device_op ::
  "int \<Rightarrow> 'a \<Rightarrow> (VzsdkService \<Rightarrow> Sdk \<Rightarrow> 'a call \<times> Sdk) \<Rightarrow> Api \<Rightarrow> Sdk \<Rightarrow> 'a api_result" where
  "device_op handle failed f =
     device_call handle failed (\<lambda>svc st. let (r, st') = f svc st in (r, svc, st'))"

section \<open>Setting up and opening\<close>

definition VzLPRTcp_Setup :: "nat \<Rightarrow> nat \<Rightarrow> bool \<Rightarrow> Api \<Rightarrow> Sdk \<Rightarrow> int \<times> Api \<times> Sdk" where
  "VzLPRTcp_Setup current push_thread started api st =
     (vzsdk_success, api\<lparr>vztcp_device_manage := Some VzTcpDeviceManage_new\<rparr>,
      snd (Manage_Start current push_thread started st))"

text \<open>The destructor of the manager stops it once more, without services.\<close>

definition VzLPRTcp_Cleanup :: "sdk_env \<Rightarrow> VzsdkService list \<Rightarrow> Api \<Rightarrow> Sdk \<Rightarrow> unit api_result" where
  "VzLPRTcp_Cleanup env order api st = (case vztcp_device_manage api of
      None \<Rightarrow> (Ret (), api, st)
    | Some m \<Rightarrow>
        (case Manage_Stop env order m st of
           (Ret _, _, st1) \<Rightarrow> (Ret (), api\<lparr>vztcp_device_manage := None\<rparr>, st1)
         | (Blocked, m1, st1) \<Rightarrow> (Blocked, api\<lparr>vztcp_device_manage := Some m1\<rparr>, st1)
         | (Faulted, m1, st1) \<Rightarrow> (Faulted, api\<lparr>vztcp_device_manage := Some m1\<rparr>, st1)))"

text \<open>\<open>addr\<close> is the \<^verbatim>\<open>SocketAddress\<close> that the connection module makes of the arguments, the text of the IP and the port.\<close>

definition VzLPRTcp_Open ::
  "sdk_env \<Rightarrow> ResumePushHandle \<Rightarrow> VzRecognition \<Rightarrow> SocketAddress \<Rightarrow> Api \<Rightarrow> Sdk \<Rightarrow> int api_result" where
  "VzLPRTcp_Open env o0 r0 addr api st = (case vztcp_device_manage api of
      None \<Rightarrow> (Faulted, api, st)
    | Some m \<Rightarrow>
        (case CreateNewService env o0 r0 addr m st of
           (Ret ret, m1, st1) \<Rightarrow>
             (Ret (if ret > 0 then ret else 0),
              SetLastError ret VZ_LPRC_LASTERROR_CREATE_FAILED (api\<lparr>vztcp_device_manage := Some m1\<rparr>), st1)
         | (Blocked, m1, st1) \<Rightarrow> (Blocked, api\<lparr>vztcp_device_manage := Some m1\<rparr>, st1)
         | (Faulted, m1, st1) \<Rightarrow> (Faulted, api\<lparr>vztcp_device_manage := Some m1\<rparr>, st1)))"

definition VzLPRTcp_Close :: "sdk_env \<Rightarrow> int \<Rightarrow> Api \<Rightarrow> Sdk \<Rightarrow> int api_result" where
  "VzLPRTcp_Close env handle api st =
     (let (ok, api1) = CheckDevice handle api in
      if \<not> ok then (Ret vzsdk_failed, api1, st)
      else (case vztcp_device_manage api1 of
              None \<Rightarrow> (Faulted, api1, st)
            | Some m \<Rightarrow>
                (case CloseService env handle m st of
                   (Ret was_open, m1, st1) \<Rightarrow>
                     (Ret (if was_open then vzsdk_success else vzsdk_failed), api1\<lparr>vztcp_device_manage := Some m1\<rparr>, st1)
                 | (Blocked, m1, st1) \<Rightarrow> (Blocked, api1\<lparr>vztcp_device_manage := Some m1\<rparr>, st1)
                 | (Faulted, m1, st1) \<Rightarrow> (Faulted, api1\<lparr>vztcp_device_manage := Some m1\<rparr>, st1))))"

definition VzLPRTcp_CloseByIP ::
  "sdk_env \<Rightarrow> (address_family \<Rightarrow> bytes \<Rightarrow> string option) \<Rightarrow> string \<Rightarrow> Api \<Rightarrow> Sdk \<Rightarrow> int api_result" where
  "VzLPRTcp_CloseByIP env ntop ip api st = (case vztcp_device_manage api of
      None \<Rightarrow> (Faulted, api, st)
    | Some m \<Rightarrow>
        (case GetService_ip ntop ip m of
           Blocked \<Rightarrow> (Blocked, api, st)
         | Faulted \<Rightarrow> (Faulted, api, st)
         | Ret None \<Rightarrow> (Ret vzsdk_failed, SetLastError vzsdk_failed VZ_LPRC_LASTERROR_INVALID_IP api, st)
         | Ret (Some svc) \<Rightarrow>
             let sid = GetSessionID (connect_dev svc) in
             if sid = NULL_SESSION_ID
             then (Ret vzsdk_failed, SetLastError vzsdk_failed VZ_LPRC_LASTERROR_INVALID_IP api, st)
             else (case VzLPRTcp_Close env (sint sid) api st of
                     (Ret ret, api1, st1) \<Rightarrow> (Ret ret, SetLastError ret VZ_LPRC_LASTERROR_INVALID_IP api1, st1)
                   | (Blocked, api1, st1) \<Rightarrow> (Blocked, api1, st1)
                   | (Faulted, api1, st1) \<Rightarrow> (Faulted, api1, st1))))"

definition VzLPRTcp_GetLastError :: "Api \<Rightarrow> VZ_LPRC_LASTERROR_TYPE" where
  "VzLPRTcp_GetLastError api = g_LastError api"

definition VzLPRTcp_SetCommonNotifyCallBack :: "nat option \<Rightarrow> nat \<Rightarrow> Api \<Rightarrow> Sdk \<Rightarrow> int api_result" where
  "VzLPRTcp_SetCommonNotifyCallBack f u api st =
     (let (ok, api1) = CheckManage api in
      case vztcp_device_manage api1 of
        None \<Rightarrow> (Ret vzsdk_failed, api1, st)
      | Some m \<Rightarrow>
          (case Manage_SetCommonNotifyCallBack f u m st of
             (Ret _, m1, st1) \<Rightarrow> (Ret vzsdk_failed, api1\<lparr>vztcp_device_manage := Some m1\<rparr>, st1)
           | (Blocked, m1, st1) \<Rightarrow> (Blocked, api1\<lparr>vztcp_device_manage := Some m1\<rparr>, st1)
           | (Faulted, m1, st1) \<Rightarrow> (Faulted, api1\<lparr>vztcp_device_manage := Some m1\<rparr>, st1)))"

section \<open>The functions of a device\<close>

text \<open>The serial number is copied without its terminating NUL.\<close>

definition set_error_of ::
  "('a \<Rightarrow> int) \<Rightarrow> VZ_LPRC_LASTERROR_TYPE \<Rightarrow> 'a api_result \<Rightarrow> 'a api_result" where
  "set_error_of code e = (\<lambda>(r, api, st). case r of
      Ret x \<Rightarrow> (Ret x, SetLastError (code x) e api, st) | Blocked \<Rightarrow> (Blocked, api, st) | Faulted \<Rightarrow> (Faulted, api, st))"

definition VzLPRTcp_GetDeviceSN :: "sdk_env \<Rightarrow> int \<Rightarrow> bool \<Rightarrow> Api \<Rightarrow> Sdk \<Rightarrow> (int \<times> string option) api_result" where
  "VzLPRTcp_GetDeviceSN env handle pSN api st =
     (let (ok, api1) = CheckDevice handle api in
      if \<not> ok then (Ret (vzsdk_failed, None), api1, st)
      else if \<not> pSN
      then (Ret (vzsdk_failed, None), SetLastError vzsdk_failed VZ_LPRC_LASTERROR_INVALID_PARAM api1, st)
      else set_error_of fst VZ_LPRC_LASTERROR_GETDEVICE_ERROR
        (device_op handle (vzsdk_failed, None) (GetDeviceSN env) api st))"

definition VzLPRTcp_IsConnected :: "sdk_env \<Rightarrow> int \<Rightarrow> bool \<Rightarrow> Api \<Rightarrow> Sdk \<Rightarrow> (int \<times> bool option) api_result" where
  "VzLPRTcp_IsConnected env handle pStatus api st =
     (let (ok, api1) = CheckDevice handle api in
      if \<not> ok then (Ret (vzsdk_failed, None), api1, st)
      else if \<not> pStatus
      then (Ret (vzsdk_failed, None), SetLastError vzsdk_failed VZ_LPRC_LASTERROR_INVALID_PARAM api1, st)
      else set_error_of fst VZ_LPRC_LASTERROR_INVALID_PSTATUS
        (device_op handle (vzsdk_failed, None)
           (\<lambda>svc st. (Ret (vzsdk_success, Some (GetConnState env (connect_dev svc) = CS_CONNECTED)), st)) api st))"

definition VzLPRTcp_SetPlateInfoCallBack ::
  "sdk_env \<Rightarrow> int \<Rightarrow> nat option \<Rightarrow> nat \<Rightarrow> int \<Rightarrow> Api \<Rightarrow> Sdk \<Rightarrow> int api_result" where
  "VzLPRTcp_SetPlateInfoCallBack env handle func user enable =
     device_call handle vzsdk_failed (\<lambda>svc. SetReciveIvsResultCallback env svc func user enable)"

text \<open>\<open>write\<close> says whether the file could be written.\<close>

definition VzLPRTcp_ImageSaveToJpeg ::
  "(string \<Rightarrow> bytes \<Rightarrow> bool) \<Rightarrow> bytes option \<Rightarrow> int \<Rightarrow> string option \<Rightarrow> Api \<Rightarrow> int \<times> Api" where
  "VzLPRTcp_ImageSaveToJpeg write img nsize name api = (case (img, name) of
      (Some buf, Some file) \<Rightarrow>
        if nsize \<le> 0 \<or> file = [] then (vzsdk_failed, SetLastError vzsdk_failed VZ_LPRC_LASTERROR_INVALID_PARAM api)
        else (if write file (take (nat nsize) buf) then vzsdk_success else vzsdk_failed, api)
    | _ \<Rightarrow> (vzsdk_failed, SetLastError vzsdk_failed VZ_LPRC_LASTERROR_INVALID_PARAM api))"

definition VzLPRTcp_ForceTrigger :: "sdk_env \<Rightarrow> int \<Rightarrow> Api \<Rightarrow> Sdk \<Rightarrow> int api_result" where
  "VzLPRTcp_ForceTrigger env handle = device_op handle vzsdk_failed (ForceTrigger env)"

text \<open>The sizes are uninitialised variables and no image is asked for.\<close>

definition VzLPRTcp_LoadRecordById ::
  "sdk_env \<Rightarrow> int \<times> int \<Rightarrow> int \<Rightarrow> int \<Rightarrow> TH_PlateResult \<Rightarrow> Api \<Rightarrow> Sdk \<Rightarrow> (int \<times> record_result option) api_result" where
  "VzLPRTcp_LoadRecordById env sizes handle rid result api st =
     (let (ok, api1) = CheckDevice handle api in
      if ok \<and> api_service handle api1 = None
      then (Ret (vzsdk_failed, None), SetLastError vzsdk_failed VZ_LPRC_LASTERROR_INVALID_HANDLE api1, st)
      else device_op handle (vzsdk_failed, None)
        (\<lambda>svc. GetRecord env svc rid False result (fst sizes) False (snd sizes) False) api st)"

definition VzLPRTcp_GetIP ::
  "(address_family \<Rightarrow> bytes \<Rightarrow> string option) \<Rightarrow> int \<Rightarrow> Api \<Rightarrow> string option call \<times> Api" where
  "VzLPRTcp_GetIP ntop handle api =
     (let (ok, api1) = CheckDevice handle api in
      if \<not> ok then (Ret None, api1)
      else (case api_service handle api1 of
              None \<Rightarrow> (Ret None, api1)
            | Some svc \<Rightarrow>
                (case device_ip api1 of
                   Some ip \<Rightarrow> (Ret (Some ip), api1)
                 | None \<Rightarrow>
                     (case GetIP ntop (connect_dev svc) of
                        Ret ip \<Rightarrow> (Ret (Some ip), api1\<lparr>device_ip := Some ip\<rparr>)
                      | Blocked \<Rightarrow> (Blocked, api1)
                      | Faulted \<Rightarrow> (Faulted, api1)))))"

definition VzLPRTcp_LoadImageById ::
  "sdk_env \<Rightarrow> RECORD_RESPONSE \<Rightarrow> int \<Rightarrow> int \<Rightarrow> bool \<Rightarrow> Api \<Rightarrow> Sdk \<Rightarrow> (int \<times> (int \<times> string) option) api_result" where
  "VzLPRTcp_LoadImageById env r0 handle iid pointers api st =
     (let (ok, api1) = CheckDevice handle api in
      if \<not> ok then (Ret (vzsdk_failed, None), api1, st)
      else if \<not> pointers
      then (Ret (vzsdk_failed, None), SetLastError vzsdk_failed VZ_LPRC_LASTERROR_INVALID_PARAM api1, st)
      else device_op handle (vzsdk_failed, None) (\<lambda>svc. GetImage env svc r0 iid) api st)"

text \<open>The callback is set whether the port could be opened or not.\<close>

definition VzLPRTcp_SerialStart :: "sdk_env \<Rightarrow> int \<Rightarrow> int \<Rightarrow> nat option \<Rightarrow> nat \<Rightarrow> Api \<Rightarrow> Sdk \<Rightarrow> int api_result" where
  "VzLPRTcp_SerialStart env handle port func user =
     device_op handle vzsdk_failed (\<lambda>svc st.
       let (r, st1) = SerialStart env svc (of_int port) st
       in (case r of Ret x \<Rightarrow> (Ret x, SerialDev_SetSerialRecvCallBack func user st1) | _ \<Rightarrow> (r, st1)))"

definition VzLPRTcp_SerialSend :: "sdk_env \<Rightarrow> int \<Rightarrow> int \<Rightarrow> bytes \<Rightarrow> uint32 \<Rightarrow> Api \<Rightarrow> Sdk \<Rightarrow> int api_result" where
  "VzLPRTcp_SerialSend env handle port data nsize =
     device_op handle vzsdk_failed (\<lambda>svc. SerialSend env svc (of_int port) data nsize)"

definition VzLPRTcp_SerialStop :: "sdk_env \<Rightarrow> int \<Rightarrow> Api \<Rightarrow> Sdk \<Rightarrow> int api_result" where
  "VzLPRTcp_SerialStop env handle = device_op handle vzsdk_failed (SerialStop env)"

definition VzLPRTcp_SetIOOutputAuto :: "sdk_env \<Rightarrow> int \<Rightarrow> uint32 \<Rightarrow> int \<Rightarrow> Api \<Rightarrow> Sdk \<Rightarrow> int api_result" where
  "VzLPRTcp_SetIOOutputAuto env handle chn duration =
     device_op handle vzsdk_failed (\<lambda>svc. SetIOOutputAuto env svc chn duration)"

definition VzLPRTcp_SetIOOutput :: "sdk_env \<Rightarrow> int \<Rightarrow> uint32 \<Rightarrow> int \<Rightarrow> Api \<Rightarrow> Sdk \<Rightarrow> int api_result" where
  "VzLPRTcp_SetIOOutput env handle chn output =
     device_op handle vzsdk_failed (\<lambda>svc. SetIOOutput env svc chn output)"

definition VzLPRTcp_GetGPIOValue :: "sdk_env \<Rightarrow> int \<Rightarrow> int \<Rightarrow> Api \<Rightarrow> Sdk \<Rightarrow> (int \<times> int option) api_result" where
  "VzLPRTcp_GetGPIOValue env handle gpio =
     device_op handle (vzsdk_failed, None) (\<lambda>svc. GetGPIOValue env svc gpio)"

definition VzLPRTcp_SetOfflineCheck :: "sdk_env \<Rightarrow> int \<Rightarrow> Api \<Rightarrow> Sdk \<Rightarrow> int api_result" where
  "VzLPRTcp_SetOfflineCheck env handle = device_op handle vzsdk_failed (SetOfflineCheck env)"

definition VzLPRTcp_CancelOfflineCheck :: "sdk_env \<Rightarrow> int \<Rightarrow> Api \<Rightarrow> Sdk \<Rightarrow> int api_result" where
  "VzLPRTcp_CancelOfflineCheck env handle = device_op handle vzsdk_failed (CancelOfflineCheck env)"

definition VzLPRTcp_ImportWlistVehicle :: "sdk_env \<Rightarrow> int \<Rightarrow> VZ_LPR_WLIST_VEHICLE \<Rightarrow> Api \<Rightarrow> Sdk \<Rightarrow> int api_result" where
  "VzLPRTcp_ImportWlistVehicle env handle w =
     device_op handle vzsdk_failed (\<lambda>svc. ImportWlistVehicle env svc w)"

definition VzLPRTcp_DeleteWlistVehicle :: "sdk_env \<Rightarrow> int \<Rightarrow> string \<Rightarrow> Api \<Rightarrow> Sdk \<Rightarrow> int api_result" where
  "VzLPRTcp_DeleteWlistVehicle env handle plate =
     device_op handle vzsdk_failed (\<lambda>svc. DeleteWlistVehicle env svc plate)"

definition VzLPRTcp_QueryWlistVehicle :: "sdk_env \<Rightarrow> int \<Rightarrow> string \<Rightarrow> Api \<Rightarrow> Sdk \<Rightarrow> int api_result" where
  "VzLPRTcp_QueryWlistVehicle env handle plate =
     device_op handle vzsdk_failed (\<lambda>svc. QueryWlistVehicle env svc plate)"

definition VzLPRTcp_SetWlistInfoCallBack :: "int \<Rightarrow> nat option \<Rightarrow> nat \<Rightarrow> Api \<Rightarrow> Sdk \<Rightarrow> int api_result" where
  "VzLPRTcp_SetWlistInfoCallBack handle func user =
     device_call handle vzsdk_failed (\<lambda>svc st. (Ret vzsdk_success, SetWlistRecvCallBack func user svc, st))"

text \<open>Control leaves the function at its end without a return value, which is undefined.\<close>

definition VzLPRTcp_SetOfflinePlateInfoCallBack ::
  "sdk_env \<Rightarrow> uint32 \<Rightarrow> int \<Rightarrow> nat option \<Rightarrow> nat \<Rightarrow> int \<Rightarrow> Api \<Rightarrow> Sdk \<Rightarrow> int api_result" where
  "VzLPRTcp_SetOfflinePlateInfoCallBack env m0 handle func user enable api st =
     (let (ok, api1) = CheckDevice handle api in
      if \<not> ok then (Ret vzsdk_failed, api1, st)
      else let (r, api2, st2) = device_call handle vzsdk_failed
                 (\<lambda>svc. SetResumRecordCallback env svc m0 func user (enable \<noteq> 0)) api st
           in (if r = Blocked then Blocked else Faulted, api2, st2))"

section \<open>Properties\<close>

lemma api_service_Some: "vztcp_device_manage api = Some m \<Longrightarrow> api_service h api = GetService h m"
  by (simp add: api_service_def)

lemma CheckDevice_unknown:
  assumes "api_service h api = None"
  shows "CheckDevice h api = (vztcp_device_manage api \<noteq> None,
    api\<lparr>g_LastError := if vztcp_device_manage api = None then VZ_LPRC_LASTERROR_NOT_SETUP else VZ_LPRC_LASTERROR_INVALID_HANDLE\<rparr>)"
proof -
  have "api_service h (api\<lparr>g_LastError := e\<rparr>) = None" for e using assms by (simp add: api_service_def)
  then show ?thesis
    using assms by (cases "vztcp_device_manage api") (simp_all add: CheckDevice_def CheckManage_def SetLastError_def
        vzsdk_success_def vzsdk_failed_def)
qed

lemma CheckDevice_known:
  assumes "api_service h api = Some svc"
  shows "CheckDevice h api = (True, api)"
proof -
  have "vztcp_device_manage api \<noteq> None" using assms by (auto simp: api_service_def bind_eq_Some_conv)
  then show ?thesis using assms by (simp add: CheckDevice_def CheckManage_def SetLastError_def vzsdk_success_def)
qed

lemma device_call_unknown:
  assumes "api_service h api = None"
  shows "device_call h failed f api st = (Ret failed, snd (CheckDevice h api), st)"
proof -
  have "api_service h (snd (CheckDevice h api)) = None" using assms by (simp add: CheckDevice_unknown [OF assms] api_service_def)
  then show ?thesis by (simp add: device_call_def split_beta)
qed

text \<open>
  C13 (safety).  A call with a handle that is not open does nothing but set the last error,
  \<^verbatim>\<open>NOT_SETUP\<close> or \<^verbatim>\<open>INVALID_HANDLE\<close>: it returns a failure, sends nothing to any device and
  changes neither the devices nor their listeners.  The check of the handle itself answers
  true for every handle once the library is set up.
\<close>

theorem unknown_handle_refused:
  assumes "api_service h api = None"
  shows "\<exists>api'. CheckDevice h api = (vztcp_device_manage api \<noteq> None, api') \<and>
    vztcp_device_manage api' = vztcp_device_manage api \<and> device_ip api' = device_ip api \<and>
    g_LastError api' = (if vztcp_device_manage api = None then VZ_LPRC_LASTERROR_NOT_SETUP else VZ_LPRC_LASTERROR_INVALID_HANDLE) \<and>
    VzLPRTcp_Close env h api st = (Ret (- 1), api', st) \<and>
    VzLPRTcp_ForceTrigger env h api st = (Ret (- 1), api', st) \<and>
    VzLPRTcp_SetPlateInfoCallBack env h f u en api st = (Ret (- 1), api', st) \<and>
    VzLPRTcp_SerialStart env h port f u api st = (Ret (- 1), api', st) \<and>
    VzLPRTcp_SerialSend env h port data n api st = (Ret (- 1), api', st) \<and>
    VzLPRTcp_SetIOOutput env h chn out api st = (Ret (- 1), api', st) \<and>
    VzLPRTcp_ImportWlistVehicle env h w api st = (Ret (- 1), api', st) \<and>
    VzLPRTcp_QueryWlistVehicle env h plate api st = (Ret (- 1), api', st) \<and>
    VzLPRTcp_SetWlistInfoCallBack h f u api st = (Ret (- 1), api', st) \<and>
    VzLPRTcp_GetIP ntop h api = (Ret None, api')"
proof -
  let ?a = "snd (CheckDevice h api)"
  note c = CheckDevice_unknown [OF assms]
  have "api_service h ?a = None" using assms by (simp add: c api_service_def)
  moreover have "CloseService env h m st = (Ret False, m, st)" "m\<lparr>vzsdk_service_map := vzsdk_service_map m\<rparr> = m"
    if "vztcp_device_manage api = Some m" for m
    using assms that by (simp_all add: CloseService_def api_service_def)
  ultimately show ?thesis
    by (intro exI [of _ ?a]) (auto simp: c VzLPRTcp_Close_def vzsdk_failed_def VzLPRTcp_ForceTrigger_def VzLPRTcp_SetPlateInfoCallBack_def
        VzLPRTcp_SerialStart_def VzLPRTcp_SerialSend_def VzLPRTcp_SetIOOutput_def VzLPRTcp_ImportWlistVehicle_def
        VzLPRTcp_QueryWlistVehicle_def VzLPRTcp_SetWlistInfoCallBack_def VzLPRTcp_GetIP_def device_op_def
        device_call_unknown [OF assms] split: option.splits)
qed

definition demo_api :: Api where
  "demo_api = \<lparr>vztcp_device_manage = Some \<lparr>vzsdk_service_map = [(5, demo_service)], dm_callback = Some 9, dm_user_data = 0\<rparr>,
     g_LastError = VZ_LPRC_LASTERROR_SUCCESS, device_ip = None\<rparr>"

lemma demo_api_service: "api_service h demo_api = (if h = 5 then Some demo_service else None)"
  by (simp add: demo_api_def api_service_def GetService_find)

theorem unknown_handle_refused_witness:
  "\<exists>api'. CheckDevice 6 demo_api = (True, api') \<and> g_LastError api' = VZ_LPRC_LASTERROR_INVALID_HANDLE \<and>
     VzLPRTcp_ForceTrigger (demo_env None) 6 demo_api demo_sdk = (Ret (- 1), api', demo_sdk)"
proof -
  have "api_service 6 demo_api = None" by (simp add: demo_api_service)
  from unknown_handle_refused [OF this, of "demo_env None" demo_sdk] show ?thesis
    by (simp add: demo_api_def) blast
qed

definition api_ok :: "Api \<Rightarrow> bool" where
  "api_ok api \<longleftrightarrow> (\<forall>m. vztcp_device_manage api = Some m \<longrightarrow> stdmap_ok (vzsdk_service_map m))"

lemma api_service_insert:
  assumes "stdmap_ok (vzsdk_service_map m)" and "GetService k m = None"
    and "vztcp_device_manage api' = Some (m\<lparr>vzsdk_service_map := stdmap_insert k svc (vzsdk_service_map m)\<rparr>)"
    and "vztcp_device_manage api = Some m"
  shows "api_service h api' = (if h = k then Some svc else api_service h api)" "api_ok api'"
  using assms sm.find_insert [OF assms(1), of h k svc] sm.inv_insert [OF assms(1)]
  by (simp_all add: api_service_def GetService_find api_ok_def)

text \<open>
  C11 (functional).  Opening a device whose connection comes up returns its session number as
  the handle, files a service with this session under it, leaves the other handles alone and
  asks the queue layer to watch the connection.  Two things are not as they should be: the
  last error is set to \<^verbatim>\<open>CREATE_FAILED\<close> by this success, and the listener for connection changes of
  the new device has no callback even if one was set before.
\<close>

theorem open_connected_device:
  assumes "vztcp_device_manage api = Some m" and "api_ok api"
    and "waited env (connect_task env addr (task_counter st)) = Returned w" and "wm_handler w"
    and "wm_data w = Some stanza" and "stanza_session stanza = sid" and "0 < sint sid"
    and "FindSession sid (se_sessions env) = Some s" and "Session_GetState s = CS_CONNECTED"
    and "api_service (sint sid) api = None"
  shows "\<exists>api' st' svc a. VzLPRTcp_Open env o0 r0 addr api st = (Ret (sint sid), api', st') \<and> api_ok api' \<and>
    (\<forall>h. api_service h api' = (if h = sint sid then Some svc else api_service h api)) \<and>
    Service_GetSessionID svc = sid \<and>
    (\<exists>t d. sdk_trace st' = sdk_trace st @ [TaskPosted t, TaskRemoved t, QueuePosted RES_RECONNECT_EVENT d] \<and>
      stanza_session d = sid) \<and>
    VzLPRTcp_GetLastError api' = VZ_LPRC_LASTERROR_CREATE_FAILED \<and>
    change_conn_pushhandle (connect_dev svc) = Some a \<and>
    push_object (handles st' a) = ChangeConnObject \<lparr>cc_session = sid, cc_callback = None, cc_userdata = 0\<rparr>"
proof -
  have m: "stdmap_ok (vzsdk_service_map m)" "GetService (sint sid) m = None"
    using assms(1,2,10) by (simp_all add: api_ok_def api_service_def)
  obtain svc a st' where c: "CreateNewService env o0 r0 addr m st =
      (Ret (sint sid), m\<lparr>vzsdk_service_map := stdmap_insert (sint sid) svc (vzsdk_service_map m)\<rparr>, st')"
    "Service_GetSessionID svc = sid" "change_conn_pushhandle (connect_dev svc) = Some a"
    "push_object (handles st' a) = ChangeConnObject \<lparr>cc_session = sid, cc_callback = None, cc_userdata = 0\<rparr>"
    "\<exists>t d. sdk_trace st' = sdk_trace st @ [TaskPosted t, TaskRemoved t, QueuePosted RES_RECONNECT_EVENT d] \<and>
      stanza_session d = sid"
    using CreateNewService_connected [OF assms(3-9) m(2), of o0 r0] by blast
  let ?api = "api\<lparr>vztcp_device_manage := Some (m\<lparr>vzsdk_service_map := stdmap_insert (sint sid) svc (vzsdk_service_map m)\<rparr>),
    g_LastError := VZ_LPRC_LASTERROR_CREATE_FAILED\<rparr>"
  have o: "VzLPRTcp_Open env o0 r0 addr api st = (Ret (sint sid), ?api, st')"
    using assms(7) by (simp add: VzLPRTcp_Open_def assms(1) c(1) SetLastError_def vzsdk_success_def)
  have "\<forall>h. api_service h ?api = (if h = sint sid then Some svc else api_service h api)" "api_ok ?api"
    using api_service_insert [OF m _ assms(1), of ?api svc] by simp_all
  moreover have "VzLPRTcp_GetLastError ?api = VZ_LPRC_LASTERROR_CREATE_FAILED" by (simp add: VzLPRTcp_GetLastError_def)
  ultimately show ?thesis using o c(2-5) by blast
qed

definition demo_net :: sdk_env where
  "demo_net = (demo_env (Some (Stanza_new RES_CONNECTED_EVENT 8)))
     \<lparr>se_sessions := \<lparr>async_thread = True, async_sessions = [(8, (fst (Session_new 1 8))\<lparr>async_socket := Some CS_CONNECTED\<rparr>)],
        unequal_session_id = 8\<rparr>\<rparr>"

lemma demo_api_ok: "api_ok demo_api"
  by (simp add: api_ok_def demo_api_def stdmap_ok_def)

theorem open_connected_device_witness:
  "\<exists>api' st' svc. VzLPRTcp_Open demo_net demo_resume (recongition demo_service) SocketAddress_nil demo_api demo_sdk = (Ret 8, api', st') \<and>
     api_service 8 api' = Some svc \<and> Service_GetSessionID svc = 8 \<and> api_service 5 api' = Some demo_service"
proof -
  let ?t = "connect_task demo_net SocketAddress_nil (task_counter demo_sdk)"
  have w: "waited demo_net ?t = Returned \<lparr>wm_handler = True, wm_id = task_id ?t, wm_data = Some (Stanza_new RES_CONNECTED_EVENT 8)\<rparr>"
    by (simp add: demo_net_def demo_env_def waited_def connect_task_def WaitTaskDone_defs)
  have f: "FindSession 8 (se_sessions demo_net) = Some ((fst (Session_new 1 8))\<lparr>async_socket := Some CS_CONNECTED\<rparr>)"
    by (simp add: demo_net_def FindSession_def)
  have m: "vztcp_device_manage demo_api = Some \<lparr>vzsdk_service_map = [(5, demo_service)], dm_callback = Some 9, dm_user_data = 0\<rparr>"
    by (simp add: demo_api_def)
  from open_connected_device [OF m demo_api_ok w _ _ _ _ f, of "Stanza_new RES_CONNECTED_EVENT 8" demo_resume "recongition demo_service"] show ?thesis
    by (force simp: Stanza_new_def Session_GetState_def demo_api_service)
qed

text \<open>
  Opening a device that does not answer in time returns 0, as documented, but
  leaves the last error as it was and files a service under the handle 0.  From then on the
  handle 0 passes the checks, and setting the callback for connection changes reads through the null
  handle of this service.
\<close>

theorem open_timeout_files_handle_0:
  assumes "vztcp_device_manage api = Some m" and "api_ok api" and "api_service 0 api = None"
    and "waited env (connect_task env addr (task_counter st)) = Returned w" and "\<not> wm_handler w"
  shows "\<exists>api' st' svc. VzLPRTcp_Open env o0 r0 addr api st = (Ret 0, api', st') \<and>
    VzLPRTcp_GetLastError api' = VzLPRTcp_GetLastError api \<and> api_service 0 api' = Some svc \<and>
    CheckDevice 0 api' = (True, api') \<and> Service_GetSessionID svc = 0 \<and>
    (vzsdk_service_map m = [] \<longrightarrow> fst (VzLPRTcp_SetCommonNotifyCallBack f u api' st') = Faulted)"
proof -
  have m: "stdmap_ok (vzsdk_service_map m)" "GetService 0 m = None"
    using assms(1-3) by (simp_all add: api_ok_def api_service_def)
  obtain svc st' where c: "CreateNewService env o0 r0 addr m st =
      (Ret 0, m\<lparr>vzsdk_service_map := stdmap_insert 0 svc (vzsdk_service_map m)\<rparr>, st')"
    "Service_GetSessionID svc = 0" "change_conn_pushhandle (connect_dev svc) = None"
    using CreateNewService_timeout [OF assms(4,5) m(2), of o0 r0] by blast
  let ?api = "api\<lparr>vztcp_device_manage := Some (m\<lparr>vzsdk_service_map := stdmap_insert 0 svc (vzsdk_service_map m)\<rparr>)\<rparr>"
  have o: "VzLPRTcp_Open env o0 r0 addr api st = (Ret 0, ?api, st')"
    by (simp add: VzLPRTcp_Open_def assms(1) c(1) SetLastError_def vzsdk_success_def)
  have a: "api_service 0 ?api = Some svc"
    using api_service_insert(1) [OF m _ assms(1), of ?api svc 0] by simp
  have "fst (VzLPRTcp_SetCommonNotifyCallBack f u ?api st') = Faulted" if "vzsdk_service_map m = []"
    using that c(3) by (simp add: VzLPRTcp_SetCommonNotifyCallBack_def CheckManage_def SetLastError_def
        Manage_SetCommonNotifyCallBack_def stdmap_insert_def ConnectDev_SetCommonNotifyCallBack_def)
  with o a c(2) CheckDevice_known [OF a] show ?thesis
    by - (rule exI [of _ ?api], rule exI [of _ st'], rule exI [of _ svc], simp add: VzLPRTcp_GetLastError_def)
qed

theorem open_timeout_files_handle_0_witness:
  "\<exists>api' st'. VzLPRTcp_Open ((demo_env None)\<lparr>se_turns := \<lambda>i. [(None, 5001)]\<rparr>) demo_resume (recongition demo_service) SocketAddress_nil demo_api demo_sdk =
      (Ret 0, api', st') \<and> CheckDevice 0 api' = (True, api') \<and> VzLPRTcp_GetLastError api' = VZ_LPRC_LASTERROR_SUCCESS"
proof -
  let ?env = "(demo_env None)\<lparr>se_turns := \<lambda>i. [(None, 5001)]\<rparr>"
  let ?t = "connect_task ?env SocketAddress_nil (task_counter demo_sdk)"
  have m: "vztcp_device_manage demo_api = Some \<lparr>vzsdk_service_map = [(5, demo_service)], dm_callback = Some 9, dm_user_data = 0\<rparr>"
    "api_service 0 demo_api = None" "VzLPRTcp_GetLastError demo_api = VZ_LPRC_LASTERROR_SUCCESS"
    by (simp_all add: demo_api_service) (simp_all add: demo_api_def VzLPRTcp_GetLastError_def)
  have "TimeUntil 5001 (TimeAfter 0 5000) < 0" by (simp add: TimeUntil_def TimeAfter_def TimeDiff_def)
  then have w: "waited ?env ?t = Returned wait_msg_new" "\<not> wm_handler wait_msg_new"
    by (simp_all add: demo_env_def waited_def connect_task_def WaitTaskDone_defs wait_msg_new_def DEFAULT_TIMEOUT_def)
  from open_timeout_files_handle_0 [OF m(1) demo_api_ok m(2) w, of demo_resume "recongition demo_service" None 0] m(3) show ?thesis by auto
qed

text \<open>
  C12 (functional).  Closing an open device returns 0 when the layers below answer, its handle is
  unknown afterwards and the other handles are not affected.  The device is disconnected three
  times, by the call itself, by the destructor of the service and by that of its connection.
\<close>

theorem close_device:
  assumes "api_ok api" and "answering env" and "api_service h api = Some svc"
    and "connect_data (connect_dev svc) = Some d" and "stanza_session d \<noteq> SESSION_ID_INVALUE" and "resumable svc st"
  shows "\<exists>api' st1 st2 st3. VzLPRTcp_Close env h api st = (Ret 0, api', st3) \<and> api_ok api' \<and>
    (\<forall>k. api_service k api' = (if k = h then None else api_service k api)) \<and>
    VzLPRTcp_GetLastError api' = VzLPRTcp_GetLastError api \<and>
    disconnected (stanza_session d) st st1 \<and> disconnected (stanza_session d) st1 st2 \<and> disconnected (stanza_session d) st2 st3"
proof -
  obtain m where m: "vztcp_device_manage api = Some m" "GetService h m = Some svc"
    using assms(3) by (auto simp: api_service_def bind_eq_Some_conv)
  have ok: "stdmap_ok (vzsdk_service_map m)" using assms(1) m(1) by (simp add: api_ok_def)
  let ?m = "m\<lparr>vzsdk_service_map := stdmap_erase h (vzsdk_service_map m)\<rparr>"
  let ?api = "api\<lparr>vztcp_device_manage := Some ?m\<rparr>"
  obtain st1 st2 st3 where c: "CloseService env h m st = (Ret True, ?m, st3)" "disconnected (stanza_session d) st st1"
    "disconnected (stanza_session d) st1 st2" "disconnected (stanza_session d) st2 st3"
    using CloseService_ended [OF assms(2) m(2) assms(4-6)] by blast
  have "VzLPRTcp_Close env h api st = (Ret 0, ?api, st3)"
    by (simp add: VzLPRTcp_Close_def CheckDevice_known [OF assms(3)] m(1) c(1) vzsdk_success_def)
  moreover have "api_ok ?api" "\<forall>k. api_service k ?api = (if k = h then None else api_service k api)"
    using sm.inv_erase [OF ok] sm.find_erase [OF ok] m(1) by (simp_all add: api_ok_def api_service_def GetService_find)
  moreover have "VzLPRTcp_GetLastError ?api = VzLPRTcp_GetLastError api" by (simp add: VzLPRTcp_GetLastError_def)
  ultimately show ?thesis using c(2-4) by blast
qed

theorem close_device_witness:
  "\<exists>api' st'. VzLPRTcp_Close (demo_env (Some (Stanza_new RES_DISCONNECTED_EVENT_SUCCEED 5))) 5 demo_api
       (demo_sdk\<lparr>handles := \<lambda>a. \<lparr>cmd_key = ''resume_rec'', push_object = ResumeObject demo_resume\<rparr>\<rparr>) = (Ret 0, api', st') \<and>
     api_service 5 api' = None"
proof -
  let ?env = "demo_env (Some (Stanza_new RES_DISCONNECTED_EVENT_SUCCEED 5))"
  let ?st = "demo_sdk\<lparr>handles := \<lambda>a. \<lparr>cmd_key = ''resume_rec'', push_object = ResumeObject demo_resume\<rparr>\<rparr>"
  have a: "answering ?env" unfolding answering_def using waited_demo by fastforce
  have s: "api_service 5 demo_api = Some demo_service" "resumable demo_service ?st"
    "connect_data (connect_dev demo_service) = Some ((ReqConnectData_new SocketAddress_nil)\<lparr>stanza_session := 5\<rparr>)"
    by (simp_all add: demo_api_service resumable_def demo_service_def)
  from close_device [OF demo_api_ok a s(1,3) _ s(2)] show ?thesis by (auto simp: SESSION_ID_INVALUE_def)
qed

end
