(* ===== verification/Vz_Physicalsocket.thy ===== *)
theory Vz_Physicalsocket
  imports Vz_Socketaddress Vz_Session
begin

text \<open>
  \<^verbatim>\<open>PhysicalSocket\<close> and \<^verbatim>\<open>SocketDispatcher\<close> of \<^verbatim>\<open>src/src/event/physicalsocketserver.cpp\<close>, POSIX branch: a
  socket of the operating system with the events the \<^verbatim>\<open>select\<close> loop watches for it.  What a
  system call returns and the value of \<^verbatim>\<open>errno\<close> after it are arguments \<open>(result, errno)\<close>.  An operation
  returns its result, the new socket and what it does outside the object, in order; \<open>sk_async\<close>
  says that the object is a \<^verbatim>\<open>SocketDispatcher\<close>, whose virtual functions also enter it into the
  server and take it out.
\<close>

unbundle bit_operations_syntax

section \<open>Constants\<close>

definition INVALID_SOCKET :: int where "INVALID_SOCKET = -1"

definition SOCKET_ERROR :: int where "SOCKET_ERROR = -1"

text \<open>Values of \<^verbatim>\<open>errno\<close> on Linux.\<close>

definition EINTR :: int where "EINTR = 4"
definition EBADF :: int where "EBADF = 9"
definition EWOULDBLOCK :: int where "EWOULDBLOCK = 11"
definition ECONNRESET :: int where "ECONNRESET = 104"
definition ENOTCONN :: int where "ENOTCONN = 107"
definition EALREADY :: int where "EALREADY = 114"
definition EINPROGRESS :: int where "EINPROGRESS = 115"

lemmas errno_defs = EINTR_def EBADF_def EWOULDBLOCK_def ECONNRESET_def ENOTCONN_def EALREADY_def EINPROGRESS_def

definition IsBlockingError :: "int \<Rightarrow> bool" where
  "IsBlockingError e \<longleftrightarrow> e = EWOULDBLOCK \<or> e = EINPROGRESS"

definition DE_READ :: "32 word" where "DE_READ = 0x01"
definition DE_WRITE :: "32 word" where "DE_WRITE = 0x02"
definition DE_CONNECT :: "32 word" where "DE_CONNECT = 0x04"
definition DE_CLOSE :: "32 word" where "DE_CLOSE = 0x08"
definition DE_ACCEPT :: "32 word" where "DE_ACCEPT = 0x10"

lemmas DE_defs = DE_READ_def DE_WRITE_def DE_CONNECT_def DE_CLOSE_def DE_ACCEPT_def

section \<open>Sockets\<close>

datatype socket_type = SOCK_STREAM | SOCK_DGRAM

record PhysicalSocket =
  sk_async :: bool
  sk_fd :: int
  enabled_events :: "8 word"
  sk_udp :: bool
  sk_error :: int
  sk_state :: ConnState
  sk_resolver :: "nat option"

datatype sock_call =
    OpenSocket address_family socket_type
  | CloseSocket int
  | AddDispatcher
  | RemoveDispatcher
  | ResolverStart nat SocketAddress
  | ResolverDestroy nat
  | SignalClose int

definition enable :: "32 word \<Rightarrow> PhysicalSocket \<Rightarrow> PhysicalSocket" where
  "enable ev sk = sk\<lparr>enabled_events := enabled_events sk OR ucast ev\<rparr>"

definition disable :: "32 word \<Rightarrow> PhysicalSocket \<Rightarrow> PhysicalSocket" where
  "disable ev sk = sk\<lparr>enabled_events := enabled_events sk AND NOT (ucast ev)\<rparr>"

text \<open>\<open>udp0\<close> is the content of the member \<^verbatim>\<open>udp_\<close>, which is not set for an invalid socket.\<close>

definition PhysicalSocket_new :: "bool \<Rightarrow> int \<Rightarrow> bool \<Rightarrow> socket_type \<Rightarrow> PhysicalSocket" where
  "PhysicalSocket_new async s udp0 so_type =
     (if s = INVALID_SOCKET
      then \<lparr>sk_async = async, sk_fd = s, enabled_events = 0, sk_udp = udp0, sk_error = 0, sk_state = CS_CLOSED,
            sk_resolver = None\<rparr>
      else \<lparr>sk_async = async, sk_fd = s, enabled_events = ucast (DE_READ OR DE_WRITE), sk_udp = (so_type = SOCK_DGRAM),
            sk_error = 0, sk_state = CS_CONNECTED, sk_resolver = None\<rparr>)"

definition Socket_Close :: "int \<times> int \<Rightarrow> PhysicalSocket \<Rightarrow> int \<times> PhysicalSocket \<times> sock_call list" where
  "Socket_Close os_close sk =
     (if sk_fd sk = INVALID_SOCKET then (0, sk, [])
      else (fst os_close,
            sk\<lparr>sk_error := snd os_close, sk_fd := INVALID_SOCKET, sk_state := CS_CLOSED, enabled_events := 0,
               sk_resolver := None\<rparr>,
            (if sk_async sk then [RemoveDispatcher] else []) @ CloseSocket (sk_fd sk) #
            (case sk_resolver sk of Some r \<Rightarrow> [ResolverDestroy r] | None \<Rightarrow> [])))"

definition Socket_Create ::
  "address_family \<Rightarrow> socket_type \<Rightarrow> int \<times> int \<Rightarrow> int \<times> int \<Rightarrow> PhysicalSocket \<Rightarrow> bool \<times> PhysicalSocket \<times> sock_call list" where
  "Socket_Create fam ty os_close os_socket sk =
     (let (_, sk1, out) = Socket_Close os_close sk;
          sk2 = sk1\<lparr>sk_fd := fst os_socket, sk_udp := (ty = SOCK_DGRAM), sk_error := snd os_socket\<rparr>;
          sk3 = (if sk_udp sk2 then sk2\<lparr>enabled_events := ucast (DE_READ OR DE_WRITE)\<rparr> else sk2);
          ok = (fst os_socket \<noteq> INVALID_SOCKET)
      in (ok, sk3, out @ [OpenSocket fam ty] @ (if ok \<and> sk_async sk then [AddDispatcher] else [])))"

definition Bind :: "int \<times> int \<Rightarrow> PhysicalSocket \<Rightarrow> int \<times> PhysicalSocket" where
  "Bind os_bind sk = (fst os_bind, sk\<lparr>sk_error := snd os_bind\<rparr>)"

definition DoConnect ::
  "int \<times> int \<Rightarrow> int \<times> int \<Rightarrow> SocketAddress \<Rightarrow> PhysicalSocket \<Rightarrow> int \<times> PhysicalSocket \<times> sock_call list" where
  "DoConnect os_socket os_connect connect_addr sk =
     (let (ok, sk1, out) =
            (if sk_fd sk = INVALID_SOCKET
             then Socket_Create (family (sa_ip connect_addr)) SOCK_STREAM (0, 0) os_socket sk else (True, sk, []))
      in if \<not> ok then (SOCKET_ERROR, sk1, out)
         else let sk2 = sk1\<lparr>sk_error := snd os_connect\<rparr> in
              if fst os_connect = 0 then (0, enable (DE_READ OR DE_WRITE) (sk2\<lparr>sk_state := CS_CONNECTED\<rparr>), out)
              else if IsBlockingError (sk_error sk2)
              then (0, enable (DE_READ OR DE_WRITE) (enable DE_CONNECT (sk2\<lparr>sk_state := CS_CONNECTING\<rparr>)), out)
              else (SOCKET_ERROR, sk2, out))"

definition Socket_Connect ::
  "nat \<Rightarrow> int \<times> int \<Rightarrow> int \<times> int \<Rightarrow> SocketAddress \<Rightarrow> PhysicalSocket \<Rightarrow> int \<times> PhysicalSocket \<times> sock_call list" where
  "Socket_Connect new_resolver os_socket os_connect addr sk =
     (if sk_state sk \<noteq> CS_CLOSED then (SOCKET_ERROR, sk\<lparr>sk_error := EALREADY\<rparr>, [])
      else if IsUnresolvedIP addr
      then (0, sk\<lparr>sk_resolver := Some new_resolver, sk_state := CS_CONNECTING\<rparr>, [ResolverStart new_resolver addr])
      else DoConnect os_socket os_connect addr sk)"

definition Socket_Send :: "int \<times> int \<Rightarrow> PhysicalSocket \<Rightarrow> int \<times> PhysicalSocket" where
  "Socket_Send os_send sk =
     (let sent = fst os_send; sk1 = sk\<lparr>sk_error := snd os_send\<rparr>
      in (sent, if sent < 0 \<and> IsBlockingError (sk_error sk1) then enable DE_WRITE sk1 else sk1))"

definition Socket_SendTo :: "int \<times> int \<Rightarrow> PhysicalSocket \<Rightarrow> int \<times> PhysicalSocket" where
  "Socket_SendTo os_sendto sk =
     (let sent = fst os_sendto; sk1 = sk\<lparr>sk_error := snd os_sendto\<rparr>
      in (sent, if sent < 0 \<and> IsBlockingError (sk_error sk1) then enable DE_WRITE sk1 else sk1))"

text \<open>An orderly shutdown of the peer is reported as an operation that would block.\<close>

definition Socket_Recv :: "nat \<Rightarrow> int \<times> int \<Rightarrow> PhysicalSocket \<Rightarrow> int \<times> PhysicalSocket" where
  "Socket_Recv len os_recv sk =
     (let received = fst os_recv in
      if received = 0 \<and> len \<noteq> 0 then (SOCKET_ERROR, (enable DE_READ sk)\<lparr>sk_error := EWOULDBLOCK\<rparr>)
      else let sk1 = sk\<lparr>sk_error := snd os_recv\<rparr>; success = (received \<ge> 0 \<or> IsBlockingError (sk_error sk1))
           in (received, if sk_udp sk1 \<or> success then enable DE_READ sk1 else sk1))"

definition Socket_RecvFrom :: "int \<times> int \<Rightarrow> PhysicalSocket \<Rightarrow> int \<times> PhysicalSocket" where
  "Socket_RecvFrom os_recvfrom sk =
     (let received = fst os_recvfrom; sk1 = sk\<lparr>sk_error := snd os_recvfrom\<rparr>;
          success = (received \<ge> 0 \<or> IsBlockingError (sk_error sk1))
      in (received, if sk_udp sk1 \<or> success then enable DE_READ sk1 else sk1))"

definition Socket_Listen :: "int \<times> int \<Rightarrow> PhysicalSocket \<Rightarrow> int \<times> PhysicalSocket" where
  "Socket_Listen os_listen sk =
     (let sk1 = sk\<lparr>sk_error := snd os_listen\<rparr>
      in (fst os_listen, if fst os_listen = 0 then enable DE_ACCEPT (sk1\<lparr>sk_state := CS_CONNECTING\<rparr>) else sk1))"

text \<open>The accepted socket is wrapped in a new dispatcher; its type is the one the system reports.\<close>

definition Socket_Accept :: "int \<times> int \<Rightarrow> bool \<Rightarrow> socket_type \<Rightarrow> PhysicalSocket \<Rightarrow> PhysicalSocket option \<times> PhysicalSocket" where
  "Socket_Accept os_accept udp0 so_type sk =
     (let sk1 = sk\<lparr>sk_error := snd os_accept\<rparr> in
      if fst os_accept = INVALID_SOCKET then (None, sk1)
      else (Some (PhysicalSocket_new True (fst os_accept) udp0 so_type), enable DE_ACCEPT sk1))"

definition EstimateMTU :: "host_order \<Rightarrow> SocketAddress \<Rightarrow> int \<times> int \<Rightarrow> int \<Rightarrow> PhysicalSocket \<Rightarrow> int \<times> uint16 option \<times> PhysicalSocket" where
  "EstimateMTU h remote os_getsockopt optval sk =
     (if IsAnyIP h remote then (-1, None, sk\<lparr>sk_error := ENOTCONN\<rparr>)
      else if fst os_getsockopt < 0 then (fst os_getsockopt, None, sk\<lparr>sk_error := snd os_getsockopt\<rparr>)
      else (0, Some (of_int optval), sk))"

text \<open>
  The resolver \<open>r\<close> has finished with \<open>err\<close> and the address \<open>addr\<close>.
\<close>

definition OnResolveResult ::
  "nat \<Rightarrow> int \<Rightarrow> SocketAddress \<Rightarrow> int \<times> int \<Rightarrow> int \<times> int \<Rightarrow> int \<times> int \<Rightarrow> PhysicalSocket \<Rightarrow> PhysicalSocket \<times> sock_call list" where
  "OnResolveResult r err addr os_close os_socket os_connect sk =
     (if sk_resolver sk \<noteq> Some r then (sk, [])
      else let (e, sk1, out) =
                 (if err = 0 then DoConnect os_socket os_connect addr sk
                  else (let (_, sk', out') = Socket_Close os_close sk in (err, sk', out')))
           in if e \<noteq> 0 then (sk1\<lparr>sk_error := e\<rparr>, out @ [SignalClose e]) else (sk1, out))"

datatype Option = OPT_DONTFRAGMENT | OPT_RCVBUF | OPT_SNDBUF | OPT_NODELAY | OPT_IPV6_V6ONLY

datatype sockopt = SO_IP_MTU_DISCOVER | SO_SO_RCVBUF | SO_SO_SNDBUF | SO_TCP_NODELAY

definition TranslateOption :: "Option \<Rightarrow> sockopt option" where
  "TranslateOption opt = (case opt of
      OPT_DONTFRAGMENT \<Rightarrow> Some SO_IP_MTU_DISCOVER
    | OPT_RCVBUF \<Rightarrow> Some SO_SO_RCVBUF
    | OPT_SNDBUF \<Rightarrow> Some SO_SO_SNDBUF
    | OPT_NODELAY \<Rightarrow> Some SO_TCP_NODELAY
    | OPT_IPV6_V6ONLY \<Rightarrow> None)"

definition IP_PMTUDISC_DONT :: int where "IP_PMTUDISC_DONT = 0"

definition IP_PMTUDISC_DO :: int where "IP_PMTUDISC_DO = 2"

text \<open>\<open>os_get\<close> and \<open>os_set\<close> are the system calls: an option to its result and value, an option and a value to the result.\<close>

definition GetOption :: "(sockopt \<Rightarrow> int \<times> int) \<Rightarrow> Option \<Rightarrow> int \<times> int option" where
  "GetOption os_get opt = (case TranslateOption opt of
      None \<Rightarrow> (-1, None)
    | Some so \<Rightarrow> let (ret, v) = os_get so in
        if ret = -1 then (ret, None)
        else (ret, Some (if opt = OPT_DONTFRAGMENT then (if v \<noteq> IP_PMTUDISC_DONT then 1 else 0) else v)))"

definition SetOption :: "(sockopt \<Rightarrow> int \<Rightarrow> int) \<Rightarrow> Option \<Rightarrow> int \<Rightarrow> int" where
  "SetOption os_set opt v = (case TranslateOption opt of
      None \<Rightarrow> -1
    | Some so \<Rightarrow> os_set so (if opt = OPT_DONTFRAGMENT then (if v \<noteq> 0 then IP_PMTUDISC_DO else IP_PMTUDISC_DONT) else v))"

section \<open>Dispatching\<close>

definition IsDescriptorClosed :: "int \<times> int \<Rightarrow> bool" where
  "IsDescriptorClosed os_peek =
     (if fst os_peek > 0 then False
      else if fst os_peek = 0 then True
      else snd os_peek = EBADF \<or> snd os_peek = ECONNRESET)"

definition GetRequestedEvents :: "PhysicalSocket \<Rightarrow> 32 word" where
  "GetRequestedEvents sk = ucast (enabled_events sk)"

definition has :: "32 word \<Rightarrow> 32 word \<Rightarrow> bool" where
  "has ff ev \<longleftrightarrow> ff AND ev \<noteq> 0"

definition Socket_OnPreEvent :: "32 word \<Rightarrow> PhysicalSocket \<Rightarrow> PhysicalSocket" where
  "Socket_OnPreEvent ff sk =
     (let sk1 = (if has ff DE_CONNECT then sk\<lparr>sk_state := CS_CONNECTED\<rparr> else sk)
      in if has ff DE_CLOSE then sk1\<lparr>sk_state := CS_CLOSED\<rparr> else sk1)"

section \<open>The states of a socket\<close>

text \<open>
  One operation on a socket.  The system calls on an invalid descriptor fail with \<^verbatim>\<open>EBADF\<close>; the
  server reports events only for descriptors.
\<close>

definition os_ok :: "PhysicalSocket \<Rightarrow> int \<times> int \<Rightarrow> bool" where
  "os_ok sk r \<longleftrightarrow> (sk_fd sk = INVALID_SOCKET \<longrightarrow> r = (-1, EBADF))"

inductive sock_step :: "PhysicalSocket \<Rightarrow> PhysicalSocket \<Rightarrow> bool" where
  "Socket_Create fam ty c r sk = (ok, sk', out) \<Longrightarrow> sock_step sk sk'"
| "os_ok sk r \<Longrightarrow> Bind r sk = (res, sk') \<Longrightarrow> sock_step sk sk'"
| "Socket_Connect n so co addr sk = (res, sk', out) \<Longrightarrow> sock_step sk sk'"
| "os_ok sk r \<Longrightarrow> Socket_Send r sk = (res, sk') \<Longrightarrow> sock_step sk sk'"
| "os_ok sk r \<Longrightarrow> Socket_SendTo r sk = (res, sk') \<Longrightarrow> sock_step sk sk'"
| "os_ok sk r \<Longrightarrow> Socket_Recv len r sk = (res, sk') \<Longrightarrow> sock_step sk sk'"
| "os_ok sk r \<Longrightarrow> Socket_RecvFrom r sk = (res, sk') \<Longrightarrow> sock_step sk sk'"
| "os_ok sk r \<Longrightarrow> Socket_Listen r sk = (res, sk') \<Longrightarrow> sock_step sk sk'"
| "os_ok sk r \<Longrightarrow> Socket_Accept r udp0 ty sk = (res, sk') \<Longrightarrow> sock_step sk sk'"
| "Socket_Close r sk = (res, sk', out) \<Longrightarrow> sock_step sk sk'"
| "OnResolveResult n err addr c so co sk = (sk', out) \<Longrightarrow> sock_step sk sk'"
| "sk_fd sk \<noteq> INVALID_SOCKET \<Longrightarrow> sock_step sk (Socket_OnPreEvent ff sk)"
| "sock_step sk (disable ev sk)"
| "sock_step sk (sk\<lparr>enabled_events := 0\<rparr>)"

inductive sock_reachable :: "PhysicalSocket \<Rightarrow> bool" where
  "sock_reachable (PhysicalSocket_new async s udp0 ty)"
| "sock_reachable sk \<Longrightarrow> sock_step sk sk' \<Longrightarrow> sock_reachable sk'"

text \<open>The events a socket may ask for.\<close>

definition watchable :: "8 word" where "watchable = 0x17"

definition sock_ok :: "PhysicalSocket \<Rightarrow> bool" where
  "sock_ok sk \<longleftrightarrow> enabled_events sk AND watchable = enabled_events sk \<and>
     (sk_fd sk = INVALID_SOCKET \<longrightarrow>
        sk_state sk = CS_CLOSED \<or> sk_state sk = CS_CONNECTING \<and> sk_resolver sk \<noteq> None)"

lemma watchable_OR: "x AND watchable = x \<Longrightarrow> y AND watchable = y \<Longrightarrow> (x OR y) AND watchable = x OR y"
  by (simp add: bit.conj_disj_distrib2)

lemma watchable_AND: "x AND watchable = x \<Longrightarrow> (x AND y) AND watchable = x AND y"
  by (metis and.assoc and.commute)

lemma watchable_events [simp]:
  "ucast DE_READ AND watchable = ucast DE_READ" "ucast DE_WRITE AND watchable = ucast DE_WRITE"
  "ucast DE_CONNECT AND watchable = ucast DE_CONNECT" "ucast DE_ACCEPT AND watchable = ucast DE_ACCEPT"
  "ucast (DE_READ OR DE_WRITE) AND watchable = ucast (DE_READ OR DE_WRITE)"
  by (simp_all add: DE_defs watchable_def)

lemma sock_ok_enable:
  "sock_ok sk \<Longrightarrow> ucast ev AND watchable = ucast ev \<Longrightarrow> sock_ok (enable ev sk)"
  by (auto simp: sock_ok_def enable_def watchable_OR)

lemma sock_ok_disable: "sock_ok sk \<Longrightarrow> sock_ok (disable ev sk)"
  by (auto simp: sock_ok_def disable_def watchable_AND)

lemma sock_ok_zero: "sock_ok sk \<Longrightarrow> sock_ok (sk\<lparr>enabled_events := 0\<rparr>)"
  by (simp add: sock_ok_def)

lemma sock_ok_error [simp]: "sock_ok (sk\<lparr>sk_error := e\<rparr>) = sock_ok sk"
  by (simp add: sock_ok_def)

lemma enable_simps [simp]:
  "sk_fd (enable ev sk) = sk_fd sk" "sk_udp (enable ev sk) = sk_udp sk" "sk_state (enable ev sk) = sk_state sk"
  "sk_resolver (enable ev sk) = sk_resolver sk" "sk_error (enable ev sk) = sk_error sk"
  by (simp_all add: enable_def)

lemma sock_ok_Close: "sock_ok sk \<Longrightarrow> Socket_Close r sk = (res, sk', out) \<Longrightarrow> sock_ok sk' \<and> sk_fd sk' = INVALID_SOCKET"
  by (auto simp: Socket_Close_def sock_ok_def split: if_splits)

lemma sock_ok_Create:
  assumes "sock_ok sk" and "Socket_Create fam ty c r sk = (ok, sk', out)"
  shows "sock_ok sk' \<and> (ok \<longleftrightarrow> sk_fd sk' \<noteq> INVALID_SOCKET)"
proof -
  obtain res sk1 out1 where c: "Socket_Close c sk = (res, sk1, out1)" using prod_cases3 by blast
  then have "sock_ok sk1" "sk_fd sk1 = INVALID_SOCKET" using sock_ok_Close [OF assms(1)] by auto
  then show ?thesis
    using assms(2) c by (auto simp: Socket_Create_def Let_def sock_ok_def split: if_splits)
qed

lemma sock_ok_connected:
  "sock_ok sk \<Longrightarrow> sk_fd sk \<noteq> INVALID_SOCKET \<Longrightarrow> sock_ok (sk\<lparr>sk_state := st, sk_error := e\<rparr>)"
  "sock_ok sk \<Longrightarrow> sk_fd sk \<noteq> INVALID_SOCKET \<Longrightarrow> sock_ok (sk\<lparr>sk_error := e, sk_state := st\<rparr>)"
  by (simp_all add: sock_ok_def)

lemma sock_ok_DoConnect:
  assumes "sock_ok sk" and "DoConnect so co addr sk = (res, sk', out)"
  shows "sock_ok sk'"
proof -
  obtain ok sk1 out1 where c: "(if sk_fd sk = INVALID_SOCKET
      then Socket_Create (family (sa_ip addr)) SOCK_STREAM (0, 0) so sk else (True, sk, [])) = (ok, sk1, out1)"
    using prod_cases3 by blast
  then have ok: "sock_ok sk1" "ok \<longleftrightarrow> sk_fd sk1 \<noteq> INVALID_SOCKET"
    using sock_ok_Create [OF assms(1)] assms(1) by (auto split: if_splits)
  have "sk' = sk1 \<or> ok \<and> (\<exists>st evs. sk' = enable (DE_READ OR DE_WRITE) (sk1\<lparr>sk_error := snd co, sk_state := st\<rparr>) \<or>
      sk' = enable (DE_READ OR DE_WRITE) (enable DE_CONNECT (sk1\<lparr>sk_error := snd co, sk_state := st\<rparr>)) \<or>
      sk' = sk1\<lparr>sk_error := snd co\<rparr>)"
    using assms(2) unfolding DoConnect_def c by (auto simp: Let_def split: if_splits)
  then show ?thesis
    using ok by (auto intro!: sock_ok_enable sock_ok_connected)
qed

lemma sock_ok_step: "sock_step sk sk' \<Longrightarrow> sock_ok sk \<Longrightarrow> sock_ok sk'"
proof (induction rule: sock_step.induct)
  case (1 fam ty c r sk ok sk' out)
  then show ?case using sock_ok_Create by blast
next
  case (3 n so co addr sk res sk' out)
  show ?case
  proof (cases "sk_state sk \<noteq> CS_CLOSED \<or> IsUnresolvedIP addr")
    case True
    then show ?thesis using 3 by (auto simp: Socket_Connect_def sock_ok_def split: if_splits)
  next
    case False
    then show ?thesis using 3 sock_ok_DoConnect [of sk so co addr] by (simp add: Socket_Connect_def)
  qed
next
  case (10 r sk res sk' out)
  then show ?case using sock_ok_Close by blast
next
  case (11 n err addr c so co sk sk' out)
  obtain e sk1 out1 where d: "DoConnect so co addr sk = (e, sk1, out1)" using prod_cases3 by blast
  obtain e2 sk2 out2 where c: "Socket_Close c sk = (e2, sk2, out2)" using prod_cases3 by blast
  show ?case
    using 11 sock_ok_DoConnect [OF _ d] sock_ok_Close [OF _ c]
    by (simp add: OnResolveResult_def d c split: if_splits) auto
next
  case (12 sk ff)
  then show ?case by (simp add: Socket_OnPreEvent_def sock_ok_def Let_def)
next
  case (13 sk ev)
  then show ?case by (rule sock_ok_disable)
next
  case (8 sk r res sk')
  show ?case
  proof (cases "fst r = 0")
    case True
    then have "sk_fd sk \<noteq> INVALID_SOCKET" using 8(1) by (auto simp: os_ok_def)
    then show ?thesis
      using 8 True by (auto simp: Socket_Listen_def Let_def intro!: sock_ok_enable sock_ok_connected)
  qed (use 8 in \<open>auto simp: Socket_Listen_def Let_def\<close>)
next
  case (6 sk r len res sk')
  then show ?case by (auto simp: Socket_Recv_def Let_def sock_ok_enable split: if_splits)
qed (auto simp: Bind_def Socket_Send_def Socket_SendTo_def Socket_RecvFrom_def
    Socket_Accept_def Let_def sock_ok_enable sock_ok_zero split: if_splits)

text \<open>
  In every state an object can reach through its operations it asks only
  for the four events that can be watched, never for a close, and without a descriptor it is
  closed or waits for the address of its host: a connected socket has a descriptor.
\<close>

theorem socket_invariant:
  assumes "sock_reachable sk"
  shows "enabled_events sk AND watchable = enabled_events sk \<and>
    (sk_fd sk = INVALID_SOCKET \<longrightarrow>
       sk_state sk = CS_CLOSED \<or> sk_state sk = CS_CONNECTING \<and> sk_resolver sk \<noteq> None)"
proof -
  from assms have "sock_ok sk"
  proof induction
    case (1 async s udp0 ty)
    then show ?case by (auto simp: PhysicalSocket_new_def sock_ok_def)
  qed (rule sock_ok_step)
  then show ?thesis by (simp add: sock_ok_def)
qed

theorem socket_invariant_witness:
  "\<exists>sk. sock_reachable sk \<and> sk_fd sk = INVALID_SOCKET \<and> sk_state sk = CS_CONNECTING \<and>
     enabled_events sk AND watchable = enabled_events sk"
proof -
  let ?a = "SocketAddress_nil\<lparr>hostname := ''camera''\<rparr>"
  let ?s = "PhysicalSocket_new True INVALID_SOCKET False SOCK_STREAM"
  obtain sk where sk: "Socket_Connect 0 (0, 0) (0, 0) ?a ?s = (0, sk, [ResolverStart 0 ?a])"
      "sk_fd sk = INVALID_SOCKET" "sk_state sk = CS_CONNECTING"
    by (simp add: Socket_Connect_def PhysicalSocket_new_def IsUnresolvedIP_def SocketAddress_nil_def IPIsUnspec_def IPAddress_nil_def)
  then have "sock_reachable sk" using sock_reachable.intros sock_step.intros(3) by blast
  then show ?thesis using socket_invariant [of sk] sk by blast
qed

text \<open>
  A closed socket that is connected to a host name cannot be used again when
  the name is not found: the handlers are told that it is closed, but the object
  stays in the state of connecting, closing it does nothing, and every later attempt to
  connect fails with \<^verbatim>\<open>EALREADY\<close>.
\<close>

theorem failed_resolution_wedges_socket:
  assumes "sk_fd sk = INVALID_SOCKET" and "sk_state sk = CS_CLOSED" and "IsUnresolvedIP addr" and "err \<noteq> 0"
  shows "\<exists>sk1 sk2. Socket_Connect r so co addr sk = (0, sk1, [ResolverStart r addr]) \<and>
    OnResolveResult r err addr' c so' co' sk1 = (sk2, [SignalClose err]) \<and>
    sk_state sk2 = CS_CONNECTING \<and> Socket_Close c' sk2 = (0, sk2, []) \<and>
    (\<forall>r' so'' co'' addr''. Socket_Connect r' so'' co'' addr'' sk2 = (SOCKET_ERROR, sk2\<lparr>sk_error := EALREADY\<rparr>, []))"
  using assms by (simp add: Socket_Connect_def OnResolveResult_def Socket_Close_def)

theorem failed_resolution_wedges_socket_witness:
  "\<exists>sk1 sk2 out. Socket_Connect 3 (0, 0) (0, 0) (SocketAddress_nil\<lparr>hostname := ''camera''\<rparr>)
       (PhysicalSocket_new True INVALID_SOCKET False SOCK_STREAM) = (0, sk1, out) \<and>
     OnResolveResult 3 (-2) SocketAddress_nil (0, 0) (0, 0) (0, 0) sk1 = (sk2, [SignalClose (-2)]) \<and>
     sk_state sk2 = CS_CONNECTING"
proof -
  let ?a = "SocketAddress_nil\<lparr>hostname := ''camera''\<rparr>"
  let ?s = "PhysicalSocket_new True INVALID_SOCKET False SOCK_STREAM"
  have "sk_fd ?s = INVALID_SOCKET" "sk_state ?s = CS_CLOSED" "IsUnresolvedIP ?a"
    by (simp_all add: PhysicalSocket_new_def IsUnresolvedIP_def SocketAddress_nil_def IPIsUnspec_def IPAddress_nil_def)
  from failed_resolution_wedges_socket [OF this, of "-2" 3 "(0, 0)" "(0, 0)" SocketAddress_nil "(0, 0)" "(0, 0)" "(0, 0)" "(0, 0)"]
  show ?thesis by fastforce
qed

end
