(* ===== verification/Vz_Socketserver.thy ===== *)
theory Vz_Socketserver
  imports Vz_Physicalsocket Vz_Messagequeue Vz_Stdmap
begin

text \<open>
  \<^verbatim>\<open>PhysicalSocketServer\<close> and the dispatchers of \<^verbatim>\<open>src/src/event/physicalsocketserver.{h,cpp}\<close>, POSIX
  branch: the \<^verbatim>\<open>select\<close> loop every thread of the SDK sleeps in.  Dispatchers are objects with a number;
  the server holds the list of the watched ones.  Arguments: \<open>slot i sig\<close> is what the handlers
  connected to a signal of the object \<open>i\<close> do to the state, \<open>sel k\<close> the \<open>k\<close>-th call of \<^verbatim>\<open>select\<close> on the
  read and write sets and the timeout, \<open>so_error\<close> and \<open>peek\<close> the answers of \<^verbatim>\<open>getsockopt\<close> and of
  \<^verbatim>\<open>recv\<close> with \<^verbatim>\<open>MSG_PEEK\<close> for a descriptor, \<open>now k\<close> the readings of the clock.
\<close>

unbundle bit_operations_syntax

section \<open>Dispatchers\<close>

datatype sock_signal = SigConnect | SigRead | SigWrite | SigClose int | SigPosix int

text \<open>A pipe carries the wake-up; \<open>ev_pipe\<close> is the number of bytes in it.\<close>

record EventDispatcher =
  ev_fd :: int
  fSignaled :: bool
  ev_pipe :: nat

definition EventDispatcher_new :: "int \<Rightarrow> EventDispatcher" where
  "EventDispatcher_new fd = \<lparr>ev_fd = fd, fSignaled = False, ev_pipe = 0\<rparr>"

definition Event_Signal :: "bool \<Rightarrow> EventDispatcher \<Rightarrow> EventDispatcher" where
  "Event_Signal written d =
     (if \<not> fSignaled d then (if written then d\<lparr>ev_pipe := Suc (ev_pipe d), fSignaled := True\<rparr> else d) else d)"

definition Event_OnPreEvent :: "EventDispatcher \<Rightarrow> EventDispatcher" where
  "Event_OnPreEvent d = (if fSignaled d then d\<lparr>ev_pipe := ev_pipe d - 4, fSignaled := False\<rparr> else d)"

text \<open>The flags and the pipe of the handler of POSIX signals, and the user's handlers by signal number.\<close>

definition kNumPosixSignals :: nat where "kNumPosixSignals = 128"

record PosixSignalHandler =
  received_signal :: "bool list"
  sig_fd :: int
  sig_pipe :: nat

definition PosixSignalHandler_new :: "int \<Rightarrow> PosixSignalHandler" where
  "PosixSignalHandler_new fd = \<lparr>received_signal = replicate kNumPosixSignals False, sig_fd = fd, sig_pipe = 0\<rparr>"

definition IsSignalSet :: "int \<Rightarrow> PosixSignalHandler \<Rightarrow> bool" where
  "IsSignalSet signum p =
     (if 0 \<le> signum \<and> nat signum < length (received_signal p) then received_signal p ! nat signum else False)"

definition ClearSignal :: "int \<Rightarrow> PosixSignalHandler \<Rightarrow> PosixSignalHandler" where
  "ClearSignal signum p =
     (if 0 \<le> signum \<and> nat signum < length (received_signal p)
      then p\<lparr>received_signal := (received_signal p)[nat signum := False]\<rparr> else p)"

definition OnPosixSignalReceived :: "bool \<Rightarrow> int \<Rightarrow> PosixSignalHandler \<Rightarrow> PosixSignalHandler" where
  "OnPosixSignalReceived written signum p =
     (if signum < 0 \<or> length (received_signal p) \<le> nat signum then p
      else p\<lparr>received_signal := (received_signal p)[nat signum := True],
             sig_pipe := (if written then Suc (sig_pipe p) else sig_pipe p)\<rparr>)"

datatype dispatcher =
    SocketD PhysicalSocket
  | SignalerD EventDispatcher
  | FileD int "32 word"
  | PosixD "(int \<times> nat) list"

record Server =
  ss_dispatchers :: "nat list"
  ss_objects :: "nat \<Rightarrow> dispatcher"
  ss_wakeup :: nat
  ss_fWait :: bool
  ss_signals :: PosixSignalHandler
  ss_signal_dispatcher :: "nat option"

type_synonym slot = "nat \<Rightarrow> sock_signal \<Rightarrow> Server \<Rightarrow> Server"

definition put_object :: "nat \<Rightarrow> dispatcher \<Rightarrow> Server \<Rightarrow> Server" where
  "put_object i d w = w\<lparr>ss_objects := (ss_objects w)(i := d)\<rparr>"

definition map_sock :: "nat \<Rightarrow> (PhysicalSocket \<Rightarrow> PhysicalSocket) \<Rightarrow> Server \<Rightarrow> Server" where
  "map_sock i f w = (case ss_objects w i of SocketD sk \<Rightarrow> put_object i (SocketD (f sk)) w | _ \<Rightarrow> w)"

definition GetDescriptor :: "Server \<Rightarrow> nat \<Rightarrow> int" where
  "GetDescriptor w i = (case ss_objects w i of
      SocketD sk \<Rightarrow> sk_fd sk | SignalerD d \<Rightarrow> ev_fd d | FileD fd flags \<Rightarrow> fd | PosixD hs \<Rightarrow> sig_fd (ss_signals w))"

definition Requested :: "Server \<Rightarrow> nat \<Rightarrow> 32 word" where
  "Requested w i = (case ss_objects w i of
      SocketD sk \<Rightarrow> GetRequestedEvents sk | SignalerD d \<Rightarrow> DE_READ | FileD fd flags \<Rightarrow> flags | PosixD hs \<Rightarrow> DE_READ)"

definition DescriptorClosed :: "(int \<Rightarrow> int \<times> int) \<Rightarrow> Server \<Rightarrow> nat \<Rightarrow> bool" where
  "DescriptorClosed peek w i = (case ss_objects w i of SocketD sk \<Rightarrow> IsDescriptorClosed (peek (sk_fd sk)) | _ \<Rightarrow> False)"

definition Server_Add :: "nat \<Rightarrow> Server \<Rightarrow> Server" where
  "Server_Add i w = (if i \<in> set (ss_dispatchers w) then w else w\<lparr>ss_dispatchers := ss_dispatchers w @ [i]\<rparr>)"

text \<open>\<open>None\<close>: the dispatcher is not in the list and \<^verbatim>\<open>erase\<close> is applied to the end of the vector.\<close>

definition Server_Remove :: "nat \<Rightarrow> Server \<Rightarrow> Server option" where
  "Server_Remove i w = (if i \<in> set (ss_dispatchers w) then Some (w\<lparr>ss_dispatchers := remove1 i (ss_dispatchers w)\<rparr>) else None)"

definition Server_WakeUp :: "bool \<Rightarrow> Server \<Rightarrow> Server" where
  "Server_WakeUp written w = (case ss_objects w (ss_wakeup w) of
      SignalerD d \<Rightarrow> put_object (ss_wakeup w) (SignalerD (Event_Signal written d)) w | _ \<Rightarrow> w)"

definition Server_new :: "nat \<Rightarrow> int \<Rightarrow> PosixSignalHandler \<Rightarrow> (nat \<Rightarrow> dispatcher) \<Rightarrow> Server" where
  "Server_new i fd sigs objs =
     Server_Add i \<lparr>ss_dispatchers = [], ss_objects = objs(i := SignalerD (EventDispatcher_new fd)), ss_wakeup = i,
       ss_fWait = False, ss_signals = sigs, ss_signal_dispatcher = None\<rparr>"

text \<open>Creating, wrapping and closing a socket that the server watches.\<close>

definition CreateAsyncSocket :: "address_family \<Rightarrow> socket_type \<Rightarrow> bool \<Rightarrow> int \<times> int \<Rightarrow> nat \<Rightarrow> Server \<Rightarrow> nat option \<times> Server" where
  "CreateAsyncSocket fam ty udp0 os_socket i w =
     (let (ok, sk, out) = Socket_Create fam ty (0, 0) os_socket (PhysicalSocket_new True INVALID_SOCKET udp0 ty)
      in if ok then (Some i, Server_Add i (put_object i (SocketD sk) w)) else (None, w))"

definition WrapSocket :: "int \<Rightarrow> bool \<Rightarrow> socket_type \<Rightarrow> nat \<Rightarrow> Server \<Rightarrow> Server" where
  "WrapSocket s udp0 so_type i w = Server_Add i (put_object i (SocketD (PhysicalSocket_new True s udp0 so_type)) w)"

definition Server_CloseSocket :: "int \<times> int \<Rightarrow> nat \<Rightarrow> Server \<Rightarrow> Server option" where
  "Server_CloseSocket os_close i w = (case ss_objects w i of
      SocketD sk \<Rightarrow>
        if sk_fd sk = INVALID_SOCKET then Some w
        else map_option (put_object i (SocketD (fst (snd (Socket_Close os_close sk))))) (Server_Remove i w)
    | _ \<Rightarrow> None)"

definition CreateFile :: "int \<Rightarrow> 32 word \<Rightarrow> nat \<Rightarrow> Server \<Rightarrow> Server" where
  "CreateFile fd flags0 i w = Server_Add i (put_object i (FileD fd (flags0 OR DE_READ)) w)"

definition set_readable :: "bool \<Rightarrow> 32 word \<Rightarrow> 32 word" where
  "set_readable v flags = (if v then flags OR DE_READ else flags AND NOT DE_READ)"

definition set_writable :: "bool \<Rightarrow> 32 word \<Rightarrow> 32 word" where
  "set_writable v flags = (if v then flags OR DE_WRITE else flags AND NOT DE_WRITE)"

section \<open>Events\<close>

definition OnPreEvent :: "nat \<Rightarrow> 32 word \<Rightarrow> Server \<Rightarrow> Server" where
  "OnPreEvent i ff w = (case ss_objects w i of
      SocketD sk \<Rightarrow> put_object i (SocketD (Socket_OnPreEvent ff sk)) w
    | SignalerD d \<Rightarrow> put_object i (SignalerD (Event_OnPreEvent d)) w
    | FileD fd flags \<Rightarrow> w
    | PosixD hs \<Rightarrow> w\<lparr>ss_signals := (ss_signals w)\<lparr>sig_pipe := sig_pipe (ss_signals w) - 16\<rparr>\<rparr>)"

definition Socket_OnEvent :: "slot \<Rightarrow> nat \<Rightarrow> 32 word \<Rightarrow> int \<Rightarrow> Server \<Rightarrow> Server" where
  "Socket_OnEvent slot i ff err w =
     (let w1 = (if has ff DE_CONNECT then slot i SigConnect (map_sock i (disable DE_CONNECT) w) else w);
          w2 = (if has ff DE_ACCEPT then slot i SigRead (map_sock i (disable DE_ACCEPT) w1) else w1);
          w3 = (if has ff DE_READ then slot i SigRead (map_sock i (disable DE_READ) w2) else w2);
          w4 = (if has ff DE_WRITE then slot i SigWrite (map_sock i (disable DE_WRITE) w3) else w3)
      in if has ff DE_CLOSE then slot i (SigClose err) (map_sock i (enabled_events_update (\<lambda>_. 0)) w4) else w4)"

definition File_OnEvent :: "slot \<Rightarrow> nat \<Rightarrow> 32 word \<Rightarrow> int \<Rightarrow> Server \<Rightarrow> Server" where
  "File_OnEvent slot i ff err w =
     (let w1 = (if has ff DE_READ then slot i SigRead w else w);
          w2 = (if has ff DE_WRITE then slot i SigWrite w1 else w1)
      in if has ff DE_CLOSE then slot i (SigClose err) w2 else w2)"

text \<open>One turn of the loop over the signal numbers: clear the flag, then call the handler, if any.\<close>

definition posix_signal :: "slot \<Rightarrow> nat \<Rightarrow> Server \<Rightarrow> nat \<Rightarrow> Server" where
  "posix_signal slot i w signum =
     (if IsSignalSet (int signum) (ss_signals w)
      then let w1 = w\<lparr>ss_signals := ClearSignal (int signum) (ss_signals w)\<rparr> in
           case ss_objects w1 i of
             PosixD hs \<Rightarrow> if stdmap_find (int signum) hs = None then w1 else slot i (SigPosix (int signum)) w1
           | _ \<Rightarrow> w1
      else w)"

definition Posix_OnEvent :: "slot \<Rightarrow> nat \<Rightarrow> Server \<Rightarrow> Server" where
  "Posix_OnEvent slot i w = foldl (posix_signal slot i) w [0..<kNumPosixSignals]"

definition OnEvent :: "slot \<Rightarrow> nat \<Rightarrow> 32 word \<Rightarrow> int \<Rightarrow> Server \<Rightarrow> Server" where
  "OnEvent slot i ff err w = (case ss_objects w i of
      SocketD sk \<Rightarrow> Socket_OnEvent slot i ff err w
    | SignalerD d \<Rightarrow> w\<lparr>ss_fWait := False\<rparr>
    | FileD fd flags \<Rightarrow> File_OnEvent slot i ff err w
    | PosixD hs \<Rightarrow> Posix_OnEvent slot i w)"

section \<open>The loop\<close>

definition request_fds :: "bool \<Rightarrow> Server \<Rightarrow> int list \<times> int list \<Rightarrow> nat \<Rightarrow> int list \<times> int list" where
  "request_fds process_io w = (\<lambda>(rd, wr) i.
     if \<not> process_io \<and> i \<noteq> ss_wakeup w then (rd, wr)
     else let fd = GetDescriptor w i; ff = Requested w i
          in (if has ff (DE_READ OR DE_ACCEPT) then List.insert fd rd else rd,
              if has ff (DE_WRITE OR DE_CONNECT) then List.insert fd wr else wr))"

definition ready_events :: "32 word \<Rightarrow> bool \<Rightarrow> int \<Rightarrow> bool \<Rightarrow> bool \<Rightarrow> 32 word" where
  "ready_events requested closed errcode readable writable =
     (if readable then
        (if has requested DE_ACCEPT then DE_ACCEPT else if errcode \<noteq> 0 \<or> closed then DE_CLOSE else DE_READ) else 0) OR
     (if writable then
        (if has requested DE_CONNECT then (if errcode = 0 then DE_CONNECT else DE_CLOSE) else DE_WRITE) else 0)"

definition dispatch_one ::
  "slot \<Rightarrow> (int \<Rightarrow> int) \<Rightarrow> (int \<Rightarrow> int \<times> int) \<Rightarrow> nat \<Rightarrow> bool \<Rightarrow> bool \<Rightarrow> Server \<Rightarrow> Server" where
  "dispatch_one slot so_error peek i readable writable w =
     (let errcode = so_error (GetDescriptor w i);
          ff = ready_events (Requested w i) (DescriptorClosed peek w i) errcode readable writable
      in if ff \<noteq> 0 then OnEvent slot i ff errcode (OnPreEvent i ff w) else w)"

text \<open>The loop over the positions of the vector, which the handlers may change.\<close>

function dispatch_loop ::
  "slot \<Rightarrow> (int \<Rightarrow> int) \<Rightarrow> (int \<Rightarrow> int \<times> int) \<Rightarrow> nat \<Rightarrow> int list \<Rightarrow> int list \<Rightarrow> Server \<Rightarrow> int list \<times> int list \<times> Server" where
  "dispatch_loop slot so_error peek i rd wr w =
     (if length (ss_dispatchers w) \<le> i then (rd, wr, w)
      else let d = ss_dispatchers w ! i; fd = GetDescriptor w d in
           if fd \<notin> set rd \<and> fd \<notin> set wr then dispatch_loop slot so_error peek (Suc i) rd wr w
           else dispatch_loop slot so_error peek (Suc i) (removeAll fd rd) (removeAll fd wr)
                  (dispatch_one slot so_error peek d (fd \<in> set rd) (fd \<in> set wr) w))"
  by pat_completeness auto

termination
proof (relation "measures [\<lambda>(slot, so_error, peek, i, rd, wr, w). length rd + length wr,
    \<lambda>(slot, so_error, peek, i, rd, wr, w). length (ss_dispatchers w) - i]", goal_cases)
  case (3 slot so_error peek i rd wr w d fd)
  have "length (removeAll fd rd) + length (removeAll fd wr) < length rd + length wr"
  proof (cases "fd \<in> set rd")
    case True
    then show ?thesis by (intro add_less_le_mono length_removeAll_less) simp_all
  next
    case False
    then have "fd \<in> set wr" using 3 by simp
    then show ?thesis by (intro add_le_less_mono length_removeAll_less) simp_all
  qed
  then show ?case by simp
qed auto

declare dispatch_loop.simps [simp del]

text \<open>Moments and durations in seconds and microseconds.\<close>

type_synonym timeval = "int \<times> int"

definition timeval_of_ms :: "int \<Rightarrow> timeval" where
  "timeval_of_ms cms = (sgn cms * (\<bar>cms\<bar> div 1000), sgn cms * (\<bar>cms\<bar> mod 1000) * 1000)"

definition stop_time :: "timeval \<Rightarrow> timeval \<Rightarrow> timeval" where
  "stop_time now w =
     (let s = fst now + fst w; u = snd now + snd w in if u \<ge> 1000000 then (s + 1, u - 1000000) else (s, u))"

definition remaining_time :: "timeval \<Rightarrow> timeval \<Rightarrow> timeval" where
  "remaining_time stop now =
     (if fst stop > fst now \<or> (fst stop = fst now \<and> snd stop > snd now)
      then (let s = fst stop - fst now; u = snd stop - snd now in if u < 0 then (s - 1, u + 1000000) else (s, u))
      else (0, 0))"

record select_result =
  sel_n :: int
  sel_errno :: int
  sel_read :: "int list"
  sel_write :: "int list"

datatype wait_outcome = WaitReturned bool | WaitRunning

type_synonym selector = "nat \<Rightarrow> int list \<Rightarrow> int list \<Rightarrow> timeval option \<Rightarrow> select_result"

record wait_env =
  we_select :: selector
  we_error :: "nat \<Rightarrow> int \<Rightarrow> int"
  we_peek :: "nat \<Rightarrow> int \<Rightarrow> int \<times> int"
  we_now :: "nat \<Rightarrow> timeval"

text \<open>
  \<open>turns\<close> bounds the number of turns: \<open>WaitRunning\<close> is the state of a loop that is still waiting after
  them.  \<open>k\<close> counts the turns; the sets keep what the last turn left in them.
\<close>

fun socket_wait_loop ::
  "slot \<Rightarrow> wait_env \<Rightarrow> bool \<Rightarrow> timeval option \<Rightarrow> nat \<Rightarrow> nat \<Rightarrow> int list \<Rightarrow> int list \<Rightarrow> timeval option \<Rightarrow> Server \<Rightarrow>
   wait_outcome \<times> Server" where
  "socket_wait_loop slot env process_io stop 0 k rd wr wait w = (if ss_fWait w then WaitRunning else WaitReturned True, w)"
| "socket_wait_loop slot env process_io stop (Suc turns) k rd wr wait w =
     (if \<not> ss_fWait w then (WaitReturned True, w)
      else let (rd1, wr1) = foldl (request_fds process_io w) (rd, wr) (ss_dispatchers w);
               r = we_select env k rd1 wr1 wait;
               wait' = map_option (\<lambda>st. remaining_time st (we_now env (Suc k))) stop
           in if sel_n r < 0 then
                (if sel_errno r \<noteq> EINTR then (WaitReturned False, w)
                 else socket_wait_loop slot env process_io stop turns (Suc k) (sel_read r) (sel_write r) wait' w)
              else if sel_n r = 0 then (WaitReturned True, w)
              else let (rd2, wr2, w2) = dispatch_loop slot (we_error env k) (we_peek env k) 0 (sel_read r) (sel_write r) w
                   in socket_wait_loop slot env process_io stop turns (Suc k) rd2 wr2 wait' w2)"

definition Server_Wait :: "slot \<Rightarrow> wait_env \<Rightarrow> nat \<Rightarrow> int \<Rightarrow> bool \<Rightarrow> Server \<Rightarrow> wait_outcome \<times> Server" where
  "Server_Wait slot env turns cmsWait process_io w =
     (if cmsWait = kForever
      then socket_wait_loop slot env process_io None turns 0 [] [] None (w\<lparr>ss_fWait := True\<rparr>)
      else let tv = timeval_of_ms cmsWait
           in socket_wait_loop slot env process_io (Some (stop_time (we_now env 0) tv)) turns 0 [] [] (Some tv)
                (w\<lparr>ss_fWait := True\<rparr>))"

text \<open>The handlers of POSIX signals: \<open>None\<close> as the handler stands for \<^verbatim>\<open>SIG_IGN\<close> and \<^verbatim>\<open>SIG_DFL\<close>.\<close>

definition SetPosixSignalHandler :: "bool \<Rightarrow> nat \<Rightarrow> int \<Rightarrow> nat option \<Rightarrow> Server \<Rightarrow> bool \<times> Server" where
  "SetPosixSignalHandler installed new_obj signum handler w =
     (case handler of
        None \<Rightarrow>
          if \<not> installed then (False, w)
          else (case ss_signal_dispatcher w of
                  None \<Rightarrow> (True, w)
                | Some i \<Rightarrow>
                    (case ss_objects w i of
                       PosixD hs \<Rightarrow>
                         let hs' = stdmap_erase signum hs; w1 = put_object i (PosixD hs') w in
                         if hs' = [] then
                           (True, w1\<lparr>ss_signal_dispatcher := None, ss_dispatchers := remove1 i (ss_dispatchers w1)\<rparr>)
                         else (True, w1)
                     | _ \<Rightarrow> (True, w)))
      | Some hnd \<Rightarrow>
          let (i, w1) = (case ss_signal_dispatcher w of
                 None \<Rightarrow> (new_obj, (Server_Add new_obj (put_object new_obj (PosixD []) w))\<lparr>ss_signal_dispatcher := Some new_obj\<rparr>)
               | Some i \<Rightarrow> (i, w));
              w2 = (case ss_objects w1 i of PosixD hs \<Rightarrow> put_object i (PosixD (stdmap_set signum hnd hs)) w1 | _ \<Rightarrow> w1)
          in (installed, w2))"

section \<open>The time to wait\<close>

definition microseconds :: "timeval \<Rightarrow> int" where
  "microseconds tv = fst tv * 1000000 + snd tv"

definition normalised :: "timeval \<Rightarrow> bool" where
  "normalised tv \<longleftrightarrow> 0 \<le> snd tv \<and> snd tv < 1000000"

lemma timeval_of_ms_exact:
  assumes "0 \<le> cms"
  shows "microseconds (timeval_of_ms cms) = cms * 1000 \<and> normalised (timeval_of_ms cms)"
proof (cases "cms = 0")
  case False
  then have "sgn cms = 1" "\<bar>cms\<bar> = cms" using assms by simp_all
  moreover have "cms = cms div 1000 * 1000 + cms mod 1000" "0 \<le> cms mod 1000" "cms mod 1000 < 1000" by simp_all
  ultimately show ?thesis unfolding timeval_of_ms_def microseconds_def normalised_def by (simp only: fst_conv snd_conv) linarith
qed (simp add: timeval_of_ms_def microseconds_def normalised_def)

lemma stop_time_exact:
  "normalised a \<Longrightarrow> normalised b \<Longrightarrow> microseconds (stop_time a b) = microseconds a + microseconds b \<and> normalised (stop_time a b)"
  by (auto simp: stop_time_def microseconds_def normalised_def Let_def)

lemma remaining_time_exact:
  "normalised a \<Longrightarrow> normalised b \<Longrightarrow>
   microseconds (remaining_time a b) = max 0 (microseconds a - microseconds b) \<and> normalised (remaining_time a b)"
  by (auto simp: remaining_time_def microseconds_def normalised_def Let_def max_def)

text \<open>
  The timeouts that \<^verbatim>\<open>Wait\<close> passes to \<^verbatim>\<open>select\<close> are exact to the microsecond: after an
  interruption the rest is what is left of the requested milliseconds since the start,
  never negative, and always a valid \<^verbatim>\<open>timeval\<close>.
\<close>

theorem wait_timeout_exact:
  assumes "0 \<le> cmsWait" and "normalised start" and "normalised now"
  shows "microseconds (timeval_of_ms cmsWait) = cmsWait * 1000 \<and>
    microseconds (remaining_time (stop_time start (timeval_of_ms cmsWait)) now) =
      max 0 (cmsWait * 1000 - (microseconds now - microseconds start)) \<and>
    normalised (remaining_time (stop_time start (timeval_of_ms cmsWait)) now)"
proof -
  note t = timeval_of_ms_exact [OF assms(1)]
  note s = stop_time_exact [OF assms(2) conjunct2 [OF t]]
  note r = remaining_time_exact [OF conjunct2 [OF s] assms(3)]
  show ?thesis using t s r by simp
qed

theorem wait_timeout_exact_witness:
  "microseconds (remaining_time (stop_time (10, 900000) (timeval_of_ms 250)) (11, 0)) = 150000"
proof -
  have "microseconds (remaining_time (stop_time (10, 900000) (timeval_of_ms 250)) (11, 0)) =
      max 0 (250 * 1000 - (microseconds (11, 0) - microseconds (10, 900000)))"
    using wait_timeout_exact [of 250 "(10, 900000)" "(11, 0)"] by (simp add: normalised_def)
  then show ?thesis by (simp add: microseconds_def)
qed

section \<open>Connecting\<close>

lemma has_simps [simp]:
  "has DE_CONNECT DE_CONNECT" "\<not> has DE_CONNECT DE_CLOSE" "\<not> has DE_CONNECT DE_READ" "\<not> has DE_CONNECT DE_WRITE"
  "\<not> has DE_CONNECT DE_ACCEPT" "has DE_CLOSE DE_CLOSE" "\<not> has DE_CLOSE DE_CONNECT" "\<not> has DE_CLOSE DE_READ"
  "\<not> has DE_CLOSE DE_WRITE" "\<not> has DE_CLOSE DE_ACCEPT" "has DE_READ DE_READ" "\<not> has DE_READ DE_CONNECT"
  "\<not> has DE_READ DE_CLOSE" "\<not> has DE_READ DE_WRITE" "\<not> has DE_READ DE_ACCEPT"
  "has DE_READ (DE_READ OR DE_ACCEPT)" "\<not> has DE_READ (DE_WRITE OR DE_CONNECT)"
  by (simp_all add: has_def DE_defs)

lemma DE_nonzero [simp]: "DE_CONNECT \<noteq> 0" "DE_CLOSE \<noteq> 0" "DE_READ \<noteq> 0"
  by (simp_all add: DE_defs)

text \<open>
  A connection in progress has exactly one outcome.  After a connect that
  does not complete at once, the socket is watched for writing; when the system reports it
  writable, the socket is connected and the handlers get the connect signal if there is no error, and
  otherwise it is closed, is watched for nothing and they get the close signal with
  the error code of the connection.
\<close>

theorem connect_outcome:
  assumes "sk_fd sk \<noteq> INVALID_SOCKET" and "sk_state sk = CS_CLOSED" and "enabled_events sk = 0"
    and "\<not> IsUnresolvedIP addr" and "Socket_Connect r so (-1, EINPROGRESS) addr sk = (res, sk1, out)"
    and "ss_objects w i = SocketD sk1" and "err = so_error (sk_fd sk)"
  shows "res = 0 \<and> sk_state sk1 = CS_CONNECTING \<and> has (Requested w i) (DE_WRITE OR DE_CONNECT) \<and>
    dispatch_one slot so_error peek i False True w =
      (if err = 0
       then slot i SigConnect (put_object i (SocketD (sk1\<lparr>sk_state := CS_CONNECTED, enabled_events := ucast (DE_READ OR DE_WRITE)\<rparr>)) w)
       else slot i (SigClose err) (put_object i (SocketD (sk1\<lparr>sk_state := CS_CLOSED, enabled_events := 0\<rparr>)) w))"
proof -
  have c: "res = 0" "sk_fd sk1 = sk_fd sk" "sk_state sk1 = CS_CONNECTING" "enabled_events sk1 = 0x07"
    using assms(1-5) by (auto simp: Socket_Connect_def DoConnect_def IsBlockingError_def errno_defs enable_def DE_defs)
  have q: "has (Requested w i) DE_CONNECT" "has (Requested w i) (DE_WRITE OR DE_CONNECT)"
    using assms(6) c(4) by (simp_all add: Requested_def GetRequestedEvents_def has_def DE_defs)
  have e: "(7 :: 8 word) AND NOT (ucast DE_CONNECT) = ucast (DE_READ OR DE_WRITE)"
    by (simp add: DE_defs)
  show ?thesis
    using c q assms(6,7)
    by (simp add: dispatch_one_def GetDescriptor_def ready_events_def OnPreEvent_def Socket_OnPreEvent_def put_object_def
        OnEvent_def Socket_OnEvent_def map_sock_def disable_def e)
qed

theorem connect_outcome_witness:
  "\<exists>sk1 out. Socket_Connect 0 (0, 0) (-1, EINPROGRESS) SocketAddress_nil
       (fst (snd (Socket_Create AF_INET SOCK_STREAM (0, 0) (5, 0) (PhysicalSocket_new True INVALID_SOCKET False SOCK_STREAM)))) = (0, sk1, out) \<and>
     dispatch_one (\<lambda>i sig w. if sig = SigConnect then w\<lparr>ss_fWait := True\<rparr> else w) (\<lambda>fd. 0) (\<lambda>fd. (0, 0)) 1 False True
       ((Server_new 0 3 (PosixSignalHandler_new 4) (\<lambda>i. FileD 0 0))\<lparr>ss_objects := \<lambda>i. SocketD sk1\<rparr>) =
     (put_object 1 (SocketD (sk1\<lparr>sk_state := CS_CONNECTED, enabled_events := ucast (DE_READ OR DE_WRITE)\<rparr>))
       ((Server_new 0 3 (PosixSignalHandler_new 4) (\<lambda>i. FileD 0 0))\<lparr>ss_objects := \<lambda>i. SocketD sk1\<rparr>))\<lparr>ss_fWait := True\<rparr>"
proof -
  define sk where "sk = fst (snd (Socket_Create AF_INET SOCK_STREAM (0, 0) (5, 0) (PhysicalSocket_new True INVALID_SOCKET False SOCK_STREAM)))"
  have sk: "sk_fd sk = 5" "sk_state sk = CS_CLOSED" "enabled_events sk = 0"
    by (simp_all add: sk_def Socket_Create_def Socket_Close_def PhysicalSocket_new_def Let_def)
  have a: "\<not> IsUnresolvedIP SocketAddress_nil" by (simp add: IsUnresolvedIP_def SocketAddress_nil_def)
  obtain res sk1 out where c: "Socket_Connect 0 (0, 0) (-1, EINPROGRESS) SocketAddress_nil sk = (res, sk1, out)"
    using prod_cases3 by blast
  let ?w = "(Server_new 0 3 (PosixSignalHandler_new 4) (\<lambda>i. FileD 0 0))\<lparr>ss_objects := \<lambda>i. SocketD sk1\<rparr>"
  have "sk_fd sk \<noteq> INVALID_SOCKET" "ss_objects ?w 1 = SocketD sk1" using sk(1) by (simp_all add: INVALID_SOCKET_def)
  from connect_outcome [OF this(1) sk(2,3) a c this(2), of 0 "\<lambda>fd. 0" "\<lambda>i sig w. if sig = SigConnect then w\<lparr>ss_fWait := True\<rparr> else w" "\<lambda>fd. (0, 0)"]
  show ?thesis using c unfolding sk_def by auto
qed

section \<open>Waiting for a wake-up only\<close>

text \<open>What the manual promises of \<^verbatim>\<open>select\<close>: it only takes descriptors out of the sets.\<close>

definition select_contract :: "wait_env \<Rightarrow> bool" where
  "select_contract env \<longleftrightarrow> (\<forall>k rd wr t. set (sel_read (we_select env k rd wr t)) \<subseteq> set rd \<and>
     set (sel_write (we_select env k rd wr t)) \<subseteq> set wr)"

text \<open>The wake-up dispatcher is there and no other dispatcher has its descriptor.\<close>

definition has_signaler :: "EventDispatcher \<Rightarrow> Server \<Rightarrow> bool" where
  "has_signaler d w \<longleftrightarrow> ss_objects w (ss_wakeup w) = SignalerD d \<and>
     (\<forall>i \<in> set (ss_dispatchers w). i \<noteq> ss_wakeup w \<longrightarrow> GetDescriptor w i \<noteq> ev_fd d)"

definition woken :: "EventDispatcher \<Rightarrow> Server \<Rightarrow> Server" where
  "woken d w = (put_object (ss_wakeup w) (SignalerD (Event_OnPreEvent d)) w)\<lparr>ss_fWait := False\<rparr>"

lemma dispatch_loop_quiet:
  "(\<forall>i \<in> set (ss_dispatchers w). GetDescriptor w i \<notin> set rd \<union> set wr) \<Longrightarrow>
   dispatch_loop slot so_error peek i rd wr w = (rd, wr, w)"
proof (induction slot so_error peek i rd wr w rule: dispatch_loop.induct)
  case (1 slot so_error peek i rd wr w)
  then show ?case by (subst dispatch_loop.simps) (simp add: Let_def)
qed

lemma dispatch_one_signaler:
  assumes "has_signaler d w"
  shows "dispatch_one slot so_error peek (ss_wakeup w) True False w = woken d w"
  using assms
  by (simp add: dispatch_one_def has_signaler_def Requested_def DescriptorClosed_def GetDescriptor_def ready_events_def
      OnPreEvent_def OnEvent_def put_object_def woken_def Let_def)

lemma dispatch_loop_signaler:
  assumes "has_signaler d w" and "set rd \<subseteq> {ev_fd d}"
  shows "dispatch_loop slot so_error peek i rd [] w =
    (if rd \<noteq> [] \<and> ss_wakeup w \<in> set (drop i (ss_dispatchers w)) then ([], [], woken d w) else (rd, [], w))"
  using assms
proof (induction "length (ss_dispatchers w) - i" arbitrary: i)
  case 0
  then show ?case by (subst dispatch_loop.simps) simp
next
  case (Suc n)
  define j where "j = ss_dispatchers w ! i"
  have i: "i < length (ss_dispatchers w)" using Suc.hyps(2) by simp
  then have d: "drop i (ss_dispatchers w) = j # drop (Suc i) (ss_dispatchers w)" "j \<in> set (ss_dispatchers w)"
    by (simp_all add: j_def Cons_nth_drop_Suc)
  have ih: "dispatch_loop slot so_error peek (Suc i) rd [] w =
      (if rd \<noteq> [] \<and> ss_wakeup w \<in> set (drop (Suc i) (ss_dispatchers w)) then ([], [], woken d w) else (rd, [], w))"
    using Suc.hyps(1) [of "Suc i"] Suc.hyps(2) Suc.prems by simp
  show ?case
  proof (cases "j = ss_wakeup w \<and> rd \<noteq> []")
    case True
    have fd: "GetDescriptor w j = ev_fd d" using True Suc.prems(1) by (simp add: GetDescriptor_def has_signaler_def)
    moreover have "ev_fd d \<in> set rd" "removeAll (ev_fd d) rd = []"
      using True Suc.prems(2) by (cases rd; auto simp: filter_empty_conv removeAll_filter_not_eq)+
    moreover have "dispatch_loop slot so_error peek (Suc i) [] [] (woken d w) = ([], [], woken d w)"
      by (rule dispatch_loop_quiet) simp
    ultimately show ?thesis
      using i True dispatch_one_signaler [OF Suc.prems(1), of slot so_error peek] d(1)
      by (subst dispatch_loop.simps) (simp add: Let_def j_def [symmetric])
  next
    case False
    have "GetDescriptor w j \<notin> set rd"
      using False Suc.prems d(2) by (cases rd) (auto simp: has_signaler_def)
    then show ?thesis using i ih d(1) False by (subst dispatch_loop.simps) (auto simp: Let_def j_def [symmetric])
  qed
qed

lemma request_fds_signaler:
  assumes "has_signaler d w" and "set rd \<subseteq> {ev_fd d}"
  shows "\<exists>rd'. foldl (request_fds False w) (rd, []) is = (rd', []) \<and> set rd' \<subseteq> {ev_fd d}"
  using assms(2)
proof (induction "is" arbitrary: rd)
  case (Cons i "is")
  have "\<exists>rd1. request_fds False w (rd, []) i = (rd1, []) \<and> set rd1 \<subseteq> {ev_fd d}"
    using Cons.prems assms(1) by (auto simp: request_fds_def has_signaler_def GetDescriptor_def Requested_def)
  then show ?case using Cons.IH by auto
qed simp

lemma wait_loop_woken: "socket_wait_loop slot env process_io stop turns k rd wr wait (woken d w) = (WaitReturned True, woken d w)"
  by (cases turns) (simp_all add: woken_def)

lemma quiet_wait_loop:
  assumes "select_contract env" and "has_signaler d w" and "ss_fWait w"
  shows "set rd \<subseteq> {ev_fd d} \<Longrightarrow>
    socket_wait_loop slot env False stop turns k rd [] wait w \<in>
      {(WaitRunning, w), (WaitReturned False, w), (WaitReturned True, w), (WaitReturned True, woken d w)} \<and>
    socket_wait_loop slot env False stop turns k rd [] wait w = socket_wait_loop slot' env False stop turns k rd [] wait w"
proof (induction turns arbitrary: k rd wait)
  case (Suc turns)
  obtain rd1 where rd1: "foldl (request_fds False w) (rd, []) (ss_dispatchers w) = (rd1, [])" "set rd1 \<subseteq> {ev_fd d}"
    using request_fds_signaler [OF assms(2) Suc.prems] by blast
  define r where "r = we_select env k rd1 [] wait"
  have r: "set (sel_read r) \<subseteq> {ev_fd d}" "sel_write r = []"
    using assms(1) [unfolded select_contract_def, rule_format, of k rd1 "[]" wait] rd1(2) by (auto simp: r_def)
  note loop = dispatch_loop_signaler [OF assms(2) r(1), of _ "we_error env k" "we_peek env k" 0]
  show ?case
  proof (cases "0 < sel_n r \<and> sel_read r \<noteq> [] \<and> ss_wakeup w \<in> set (ss_dispatchers w)")
    case True
    then show ?thesis using loop by (simp add: assms(3) rd1(1) r_def [symmetric] r(2) wait_loop_woken)
  next
    case False
    then show ?thesis
      using loop Suc.IH [OF r(1), of "Suc k" "map_option (\<lambda>st. remaining_time st (we_now env (Suc k))) stop"]
      by (auto simp: assms(3) rd1(1) r_def [symmetric] r(2) Let_def)
  qed
qed (simp add: assms(3))

text \<open>
  \<^verbatim>\<open>Wait\<close> without I/O, in which a thread sleeps while another one answers its
  \<^verbatim>\<open>Send\<close>, calls no handler: whatever the system reports, the result does not depend on the
  connected slots, no object and no list changes except that the wake-up is reset, and that
  happens only together with the return.
\<close>

theorem wait_without_io_calls_no_handler:
  assumes "select_contract env" and "has_signaler d w" and "Server_Wait slot env turns cmsWait False w = (res, w')"
  shows "Server_Wait slot' env turns cmsWait False w = (res, w') \<and>
    (w' = w\<lparr>ss_fWait := True\<rparr> \<or> res = WaitReturned True \<and> w' = woken d (w\<lparr>ss_fWait := True\<rparr>))"
proof -
  have g: "GetDescriptor (w\<lparr>ss_fWait := True\<rparr>) i = GetDescriptor w i" for i
    by (simp add: GetDescriptor_def split: dispatcher.split)
  have s: "has_signaler d (w\<lparr>ss_fWait := True\<rparr>)" "ss_fWait (w\<lparr>ss_fWait := True\<rparr>)"
    using assms(2) by (simp_all add: has_signaler_def g)
  note q = quiet_wait_loop [OF assms(1) s, of "[]" slot _ turns 0 _ slot']
  show ?thesis
    using q [of None None] q [of "Some (stop_time (we_now env 0) (timeval_of_ms cmsWait))" "Some (timeval_of_ms cmsWait)"] assms(3)
    unfolding Server_Wait_def Let_def by (cases "cmsWait = kForever") auto
qed

definition demo_server :: Server where
  "demo_server = Server_WakeUp True (Server_Add 1 (put_object 1 (SocketD (PhysicalSocket_new True 7 False SOCK_STREAM))
     (Server_new 0 3 (PosixSignalHandler_new 4) (\<lambda>i. FileD 0 0))))"

definition sample_env :: wait_env where
  "sample_env = \<lparr>we_select = \<lambda>k rd wr t. \<lparr>sel_n = int (length rd), sel_errno = 0, sel_read = rd, sel_write = []\<rparr>,
     we_error = \<lambda>k fd. 0, we_peek = \<lambda>k fd. (1, 0), we_now = \<lambda>k. (int k, 0)\<rparr>"

theorem wait_without_io_calls_no_handler_witness:
  "\<exists>w'. Server_Wait (\<lambda>i sig w. w) sample_env 2 kForever False demo_server = (WaitReturned True, w') \<and>
     Server_Wait (\<lambda>i sig w. w\<lparr>ss_dispatchers := []\<rparr>) sample_env 2 kForever False demo_server = (WaitReturned True, w')"
proof -
  have c: "select_contract sample_env" by (simp add: select_contract_def sample_env_def)
  have s: "has_signaler \<lparr>ev_fd = 3, fSignaled = True, ev_pipe = 1\<rparr> demo_server"
    by (simp add: has_signaler_def demo_server_def Server_WakeUp_def Server_Add_def Server_new_def put_object_def GetDescriptor_def
        Event_Signal_def EventDispatcher_new_def PhysicalSocket_new_def INVALID_SOCKET_def)
  obtain w' where w: "Server_Wait (\<lambda>i sig w. w) sample_env 2 kForever False demo_server = (WaitReturned True, w')"
    by (simp add: Server_Wait_def demo_server_def sample_env_def numeral_2_eq_2 Server_WakeUp_def Server_Add_def Server_new_def put_object_def
        request_fds_def GetDescriptor_def Requested_def dispatch_loop.simps dispatch_one_def DescriptorClosed_def ready_events_def
        OnEvent_def OnPreEvent_def)
  show ?thesis
    using wait_without_io_calls_no_handler [OF c s w, of "\<lambda>i sig w. w\<lparr>ss_dispatchers := []\<rparr>"] w by blast
qed

section \<open>A descriptor closed by the handler of another one\<close>

text \<open>
  The sets of descriptors are not cleared between the turns of the loop.  When two
  sockets are readable and the handler of the first closes the second, the descriptor of the
  second stays in the read set, although no dispatcher has it any more, and the next
  \<^verbatim>\<open>select\<close> is asked for a closed descriptor, for which it fails with \<^verbatim>\<open>EBADF\<close>; \<^verbatim>\<open>Wait\<close> then returns
  false.
\<close>

theorem closed_descriptor_stays_in_set:
  assumes "ss_dispatchers w = [a, b]" and "a \<noteq> b" and "ss_objects w a = SocketD ska" and "ss_objects w b = SocketD skb"
    and "sk_fd ska \<noteq> sk_fd skb" and "sk_fd skb \<noteq> INVALID_SOCKET" and "\<not> has (GetRequestedEvents ska) DE_ACCEPT"
    and "so_error (sk_fd ska) = 0" and "\<not> IsDescriptorClosed (peek (sk_fd ska))"
    and "\<And>w. slot a SigRead w = (case Server_CloseSocket c b w of Some w' \<Rightarrow> w' | None \<Rightarrow> w)"
  shows "\<exists>w'. dispatch_loop slot so_error peek 0 [sk_fd ska, sk_fd skb] [] w = ([sk_fd skb], [], w') \<and>
    ss_dispatchers w' = [a] \<and> GetDescriptor w' a = sk_fd ska \<and>
    sk_fd skb \<in> set (fst (foldl (request_fds True w') ([sk_fd skb], []) (ss_dispatchers w')))"
proof -
  let ?sk = "disable DE_READ ska"
  let ?w = "put_object b (SocketD (fst (snd (Socket_Close c skb)))) ((put_object a (SocketD ?sk) w)\<lparr>ss_dispatchers := [a]\<rparr>)"
  have one: "dispatch_one slot so_error peek a True False w = ?w"
    using assms
    by (simp add: dispatch_one_def GetDescriptor_def Requested_def DescriptorClosed_def ready_events_def OnPreEvent_def
        Socket_OnPreEvent_def put_object_def OnEvent_def Socket_OnEvent_def map_sock_def Server_CloseSocket_def Server_Remove_def)
  have w': "ss_dispatchers ?w = [a]" "GetDescriptor ?w a = sk_fd ska"
    using assms(2) by (simp_all add: put_object_def GetDescriptor_def disable_def)
  have "dispatch_loop slot so_error peek 0 [sk_fd ska, sk_fd skb] [] w = dispatch_loop slot so_error peek (Suc 0) [sk_fd skb] [] ?w"
    using assms(1,3,5) one by (subst dispatch_loop.simps) (simp add: GetDescriptor_def)
  also have "\<dots> = ([sk_fd skb], [], ?w)"
    by (subst dispatch_loop.simps) (simp add: w'(1))
  finally have "dispatch_loop slot so_error peek 0 [sk_fd ska, sk_fd skb] [] w = ([sk_fd skb], [], ?w)" .
  moreover have "sk_fd skb \<in> set (fst (foldl (request_fds True ?w) ([sk_fd skb], []) (ss_dispatchers ?w)))"
    unfolding w' by (simp add: request_fds_def Let_def)
  ultimately show ?thesis using w' by blast
qed

theorem closed_descriptor_stays_in_set_witness:
  "\<exists>w'. dispatch_loop (\<lambda>i sig w. case Server_CloseSocket (0, 0) 2 w of Some w' \<Rightarrow> w' | None \<Rightarrow> w) (\<lambda>fd. 0) (\<lambda>fd. (1, 0)) 0 [7, 8] []
       \<lparr>ss_dispatchers = [1, 2], ss_objects = \<lambda>i. SocketD (PhysicalSocket_new True (int i + 6) False SOCK_STREAM), ss_wakeup = 0,
         ss_fWait = True, ss_signals = PosixSignalHandler_new 4, ss_signal_dispatcher = None\<rparr> = ([8], [], w')"
proof -
  let ?sk = "\<lambda>i. PhysicalSocket_new True (int i + 6) False SOCK_STREAM"
  let ?w = "\<lparr>ss_dispatchers = [1, 2], ss_objects = \<lambda>i. SocketD (?sk i), ss_wakeup = 0,
         ss_fWait = True, ss_signals = PosixSignalHandler_new 4, ss_signal_dispatcher = None\<rparr>"
  have f: "sk_fd (PhysicalSocket_new True k False SOCK_STREAM) = k" for k by (simp add: PhysicalSocket_new_def)
  have "\<not> has (GetRequestedEvents (?sk 1)) DE_ACCEPT"
    by (simp add: PhysicalSocket_new_def INVALID_SOCKET_def GetRequestedEvents_def has_def DE_defs)
  then show ?thesis
    using closed_descriptor_stays_in_set [of ?w 1 2 "?sk 1" "?sk 2" "\<lambda>fd. 0" "\<lambda>fd. (1, 0)"
        "\<lambda>i sig w. case Server_CloseSocket (0, 0) 2 w of Some w' \<Rightarrow> w' | None \<Rightarrow> w" "(0, 0)"]
    by (auto simp: f INVALID_SOCKET_def IsDescriptorClosed_def)
qed

end
