(* ===== verification/Vz_Thread.thy ===== *)
theory Vz_Thread
  imports Vz_Messagequeue
begin

text \<open>
  \<^verbatim>\<open>src/src/event/thread.{h,cpp}\<close>, POSIX branch: a message queue with a thread of the operating system
  that serves it, and the synchronous \<^verbatim>\<open>Send\<close> between threads.  The first part has the
  operations on one thread object.  The second part is the protocol of \<^verbatim>\<open>Send\<close> as a step
  relation on all threads: a step is what one thread does inside one critical section,
  or a call or return of a handler; the frames of a thread are the calls it is in.
\<close>

section \<open>Thread objects\<close>

datatype ThreadPriority = PRIORITY_IDLE | PRIORITY_NORMAL | PRIORITY_ABOVE_NORMAL | PRIORITY_HIGH

record 'd Thread =
  th_queue :: "'d MessageQueue"
  th_name :: string
  th_priority :: ThreadPriority
  th_started :: bool
  th_owned :: bool
  th_delete_self :: bool

text \<open>\<open>ptr\<close> is what \<^verbatim>\<open>sprintf\<close> prints for the address of the object, cut to the buffer.\<close>

definition SetName :: "string \<Rightarrow> string option \<Rightarrow> 'd Thread \<Rightarrow> bool \<times> 'd Thread" where
  "SetName name ptr t =
     (if th_started t then (False, t)
      else (True, t\<lparr>th_name := name @ (case ptr of Some p \<Rightarrow> take 15 p | None \<Rightarrow> [])\<rparr>))"

definition Thread_new :: "string \<Rightarrow> 'd Thread" where
  "Thread_new ptr = snd (SetName ''Thread'' (Some ptr)
     \<lparr>th_queue = MessageQueue_new, th_name = [], th_priority = PRIORITY_NORMAL, th_started = False, th_owned = True,
      th_delete_self = False\<rparr>)"

definition SetPriority :: "ThreadPriority \<Rightarrow> 'd Thread \<Rightarrow> bool \<times> 'd Thread" where
  "SetPriority p t = (if th_started t then (False, t) else (True, t\<lparr>th_priority := p\<rparr>))"

text \<open>The scheduling parameter \<^verbatim>\<open>Start\<close> asks for; \<open>created\<close> says that \<^verbatim>\<open>pthread_create\<close> succeeded.\<close>

definition sched_priority :: "ThreadPriority \<Rightarrow> int option" where
  "sched_priority p = (case p of
      PRIORITY_NORMAL \<Rightarrow> None | PRIORITY_IDLE \<Rightarrow> None | PRIORITY_HIGH \<Rightarrow> Some 6 | PRIORITY_ABOVE_NORMAL \<Rightarrow> Some 4)"

definition Start :: "bool \<Rightarrow> 'd Thread \<Rightarrow> bool \<times> int option \<times> 'd Thread" where
  "Start created t =
     (if \<not> th_owned t then (False, None, t)
      else if th_started t then (False, None, t)
      else if \<not> created then (False, sched_priority (th_priority t), t)
      else (True, sched_priority (th_priority t), t\<lparr>th_started := True\<rparr>))"

text \<open>The flag says that the caller waits for the end of the other thread.\<close>

definition Join :: "'d Thread \<Rightarrow> bool \<times> 'd Thread" where
  "Join t = (if th_started t then (True, t\<lparr>th_started := False\<rparr>) else (False, t))"

definition Stop :: "'d Thread \<Rightarrow> bool \<times> 'd Thread" where
  "Stop t = Join (t\<lparr>th_queue := Quit (th_queue t)\<rparr>)"

definition Release :: "'d Thread \<Rightarrow> 'd Thread" where
  "Release t = t\<lparr>th_delete_self := True\<rparr>"

text \<open>\<open>current\<close> is the thread-specific pointer of the caller, \<open>self\<close> the number of the object.\<close>

definition WrapCurrentWithThreadManager :: "nat \<Rightarrow> nat option \<Rightarrow> 'd Thread \<Rightarrow> bool \<times> nat option \<times> 'd Thread" where
  "WrapCurrentWithThreadManager self current t =
     (if th_started t then (False, current, t)
      else (True, Some self, t\<lparr>th_owned := False, th_started := True\<rparr>))"

definition UnwrapCurrent :: "'d Thread \<Rightarrow> nat option \<times> 'd Thread" where
  "UnwrapCurrent t = (None, t\<lparr>th_started := False\<rparr>)"

definition WrapCurrentThread :: "nat \<Rightarrow> string \<Rightarrow> nat option \<Rightarrow> nat \<times> nat option \<times> 'd Thread option" where
  "WrapCurrentThread new_obj ptr current =
     (case current of
        Some i \<Rightarrow> (i, current, None)
      | None \<Rightarrow> (case WrapCurrentWithThreadManager new_obj current (Thread_new ptr) of
                   (_, current', t) \<Rightarrow> (new_obj, current', Some t)))"

definition AutoThread_new :: "nat \<Rightarrow> nat option \<Rightarrow> nat option" where
  "AutoThread_new self current = (if current = None then Some self else current)"

definition AutoThread_destroy :: "nat \<Rightarrow> nat option \<Rightarrow> nat option" where
  "AutoThread_destroy self current = (if current = Some self then None else current)"

text \<open>
  \<^verbatim>\<open>ProcessMessages\<close>.  Every turn is one call of \<^verbatim>\<open>Get\<close> with the timeout in the first
  component of the result: what it returns, whether the queue is quitting then, and the
  clock after the message was dispatched.  The dispatched messages are collected.
\<close>

datatype 'd get_turn = GotMessage "'d Message" uint32 | GotNone bool

fun process_loop :: "int \<Rightarrow> uint32 \<Rightarrow> int \<Rightarrow> 'd get_turn list \<Rightarrow> int list \<times> 'd Message list \<times> bool option" where
  "process_loop cmsLoop msEnd cmsNext [] = ([cmsNext], [], None)"
| "process_loop cmsLoop msEnd cmsNext (GotNone quitting # ts) = ([cmsNext], [], Some (\<not> quitting))"
| "process_loop cmsLoop msEnd cmsNext (GotMessage m now # ts) =
     (if cmsLoop \<noteq> kForever
      then (let next' = TimeUntil now msEnd in
            if next' < 0 then ([cmsNext], [m], Some True)
            else case process_loop cmsLoop msEnd next' ts of (asked, ms, res) \<Rightarrow> (cmsNext # asked, m # ms, res))
      else case process_loop cmsLoop msEnd cmsNext ts of (asked, ms, res) \<Rightarrow> (cmsNext # asked, m # ms, res))"

definition ProcessMessages :: "uint32 \<Rightarrow> int \<Rightarrow> 'd get_turn list \<Rightarrow> int list \<times> 'd Message list \<times> bool option" where
  "ProcessMessages now cmsLoop ts =
     process_loop cmsLoop (if cmsLoop = kForever then 0 else TimeAfter now (of_int cmsLoop)) cmsLoop ts"

text \<open>Without a time limit the loop dispatches everything \<^verbatim>\<open>Get\<close> delivers and ends when it delivers nothing.\<close>

lemma ProcessMessages_forever:
  "ProcessMessages now kForever (map (\<lambda>(m, t). GotMessage m t) ms @ GotNone quitting # rest) =
   (replicate (Suc (length ms)) kForever, map fst ms, Some (\<not> quitting))"
proof -
  have "process_loop kForever e kForever (map (\<lambda>(m, t). GotMessage m t) ms @ GotNone quitting # rest) =
      (replicate (Suc (length ms)) kForever, map fst ms, Some (\<not> quitting))" for e
    by (induction ms) auto
  then show ?thesis by (simp add: ProcessMessages_def)
qed

section \<open>Synchronous sends\<close>

text \<open>
  The number of a send stands for its variable \<^verbatim>\<open>ready\<close>.  A thread is a stack of the calls it is in: a \<^verbatim>\<open>Send\<close> that has passed the test
  of \<^verbatim>\<open>fStop_\<close>, a \<^verbatim>\<open>Send\<close> whose message is in the list of the other thread, a \<^verbatim>\<open>Get\<close>, or a handler that \<^verbatim>\<open>ReceiveSends\<close>
  runs; with an empty stack it runs other code, is not started or has left its loop.  \<open>call_pos\<close> says where
  a \<^verbatim>\<open>Send\<close> or \<^verbatim>\<open>Get\<close> is.  \<^verbatim>\<open>WakeUp\<close> sets the flag \<open>woken\<close> of the socket server of a thread, and \<^verbatim>\<open>Wait\<close> without a timeout
  returns only when it is set, which it resets (the pipe of \<^verbatim>\<open>Signaler\<close>).  The logs record, by thread, what was
  appended to its list, taken off it, handled to the end and cleared.
\<close>

record 'd SendMessage =
  sm_thread :: nat
  sm_msg :: "'d Message"
  sm_ready :: nat

datatype call_pos = At_notify nat | At_test | At_receive | At_wait

datatype 'd call_frame = Entering nat "'d Message" | Sending nat call_pos bool | Getting call_pos | Handling "'d SendMessage"

record 'd Threads =
  sendlist :: "nat \<Rightarrow> 'd SendMessage list"
  has_sends :: "nat \<Rightarrow> bool"
  stopping :: "nat \<Rightarrow> bool"
  call_frames :: "nat \<Rightarrow> 'd call_frame list"
  ready :: "nat \<Rightarrow> bool"
  woken :: "nat \<Rightarrow> bool"
  next_send :: nat
  sent_log :: "nat \<Rightarrow> 'd SendMessage list"
  received_log :: "nat \<Rightarrow> 'd SendMessage list"
  done_log :: "nat \<Rightarrow> 'd SendMessage list"
  cleared_log :: "nat \<Rightarrow> 'd SendMessage list"

definition Threads_new :: "'d Threads" where
  "Threads_new = \<lparr>sendlist = \<lambda>t. [], has_sends = \<lambda>t. False, stopping = \<lambda>t. False, call_frames = \<lambda>t. [], ready = \<lambda>k. False,
     woken = \<lambda>t. False, next_send = 0, sent_log = \<lambda>t. [], received_log = \<lambda>t. [], done_log = \<lambda>t. [], cleared_log = \<lambda>t. []\<rparr>"

definition set_frames :: "nat \<Rightarrow> 'd call_frame list \<Rightarrow> 'd Threads \<Rightarrow> 'd Threads" where
  "set_frames t fs s = s\<lparr>call_frames := (call_frames s)(t := fs)\<rparr>"

definition wake :: "nat \<Rightarrow> bool \<Rightarrow> 'd Threads \<Rightarrow> 'd Threads" where
  "wake t b s = s\<lparr>woken := (woken s)(t := b)\<rparr>"

text \<open>
  \<^verbatim>\<open>Send\<close> of thread \<open>c\<close> to thread \<open>t\<close>: the test of \<^verbatim>\<open>fStop_\<close>, after which it returns at once (the stack is unchanged), the
  critical section that appends the message, \<^verbatim>\<open>WakeUp\<close>, and the test of the wait loop.  A direct call of the handler is
  \<open>None\<close>: it is code of \<open>c\<close>.  \<open>waited\<close> in the frame says that the loop ran at least once.
\<close>

definition Send_check :: "nat \<Rightarrow> nat \<Rightarrow> 'd Message \<Rightarrow> 'd Threads \<Rightarrow> 'd Threads option" where
  "Send_check c t m s =
     (if stopping s t then Some s
      else if c = t then None
      else Some (set_frames c (Entering t m # call_frames s c) s))"

definition Send_append :: "nat \<Rightarrow> 'd Threads \<Rightarrow> 'd Threads option" where
  "Send_append c s = (case call_frames s c of
      Entering t m # fs \<Rightarrow>
        (let smsg = \<lparr>sm_thread = c, sm_msg = m, sm_ready = next_send s\<rparr>
         in Some (set_frames c (Sending (next_send s) (At_notify t) False # fs)
              (s\<lparr>sendlist := (sendlist s)(t := sendlist s t @ [smsg]), has_sends := (has_sends s)(t := True),
                 next_send := Suc (next_send s), sent_log := (sent_log s)(t := sent_log s t @ [smsg])\<rparr>)))
    | _ \<Rightarrow> None)"

definition Send_notify :: "nat \<Rightarrow> 'd Threads \<Rightarrow> 'd Threads option" where
  "Send_notify c s = (case call_frames s c of
      Sending k (At_notify t) waited # fs \<Rightarrow> Some (wake t True (set_frames c (Sending k At_test waited # fs) s))
    | _ \<Rightarrow> None)"

definition Send_loop :: "nat \<Rightarrow> 'd Threads \<Rightarrow> 'd Threads option" where
  "Send_loop c s = (case call_frames s c of
      Sending k At_test waited # fs \<Rightarrow> if \<not> ready s k then Some (set_frames c (Sending k At_receive waited # fs) s) else None
    | _ \<Rightarrow> None)"

definition Send_return :: "nat \<Rightarrow> 'd Threads \<Rightarrow> 'd Threads option" where
  "Send_return c s = (case call_frames s c of
      Sending k At_test waited # fs \<Rightarrow>
        if ready s k then Some (if waited then wake c True (set_frames c fs s) else set_frames c fs s) else None
    | _ \<Rightarrow> None)"

text \<open>
  The turns of \<^verbatim>\<open>ReceiveSends\<close>, which \<^verbatim>\<open>Send\<close> and \<^verbatim>\<open>Get\<close> call: take a message off the list, and after its handler set the variable
  of the sender and wake it; without messages the flag is reset and the caller goes on, \<^verbatim>\<open>Send\<close> to \<^verbatim>\<open>Wait\<close> and \<^verbatim>\<open>Get\<close> to the
  posted messages.
\<close>

fun receiving :: "'d call_frame list \<Rightarrow> bool" where
  "receiving (Sending k At_receive waited # fs) = True"
| "receiving (Getting At_receive # fs) = True"
| "receiving _ = False"

fun after_receive :: "'d call_frame list \<Rightarrow> 'd call_frame list" where
  "after_receive (Sending k At_receive waited # fs) = Sending k At_wait waited # fs"
| "after_receive (Getting At_receive # fs) = Getting At_test # fs"
| "after_receive fs = fs"

definition Receive_front :: "nat \<Rightarrow> 'd Threads \<Rightarrow> 'd Threads option" where
  "Receive_front t s =
     (if receiving (call_frames s t) \<and> has_sends s t then
        (case sendlist s t of
           smsg # rest \<Rightarrow> Some (set_frames t (Handling smsg # call_frames s t)
             (s\<lparr>sendlist := (sendlist s)(t := rest), received_log := (received_log s)(t := received_log s t @ [smsg])\<rparr>))
         | [] \<Rightarrow> None)
      else None)"

definition Receive_done :: "nat \<Rightarrow> 'd Threads \<Rightarrow> 'd Threads option" where
  "Receive_done t s = (case call_frames s t of
      Handling smsg # fs \<Rightarrow>
        Some (wake (sm_thread smsg) True (set_frames t fs
          (s\<lparr>ready := (ready s)(sm_ready smsg := True), done_log := (done_log s)(t := done_log s t @ [smsg])\<rparr>)))
    | _ \<Rightarrow> None)"

definition Receive_end :: "nat \<Rightarrow> 'd Threads \<Rightarrow> 'd Threads option" where
  "Receive_end t s =
     (if receiving (call_frames s t) \<and> (\<not> has_sends s t \<or> sendlist s t = [])
      then Some (set_frames t (after_receive (call_frames s t)) (s\<lparr>has_sends := (has_sends s)(t := False)\<rparr>)) else None)"

text \<open>\<^verbatim>\<open>Wait\<close> without a timeout, in \<^verbatim>\<open>Send\<close> and in \<^verbatim>\<open>Get\<close>.\<close>

definition Wait_return :: "nat \<Rightarrow> 'd Threads \<Rightarrow> 'd Threads option" where
  "Wait_return t s =
     (if woken s t then
        (case call_frames s t of
           Sending k At_wait waited # fs \<Rightarrow> Some (wake t False (set_frames t (Sending k At_test True # fs) s))
         | Getting At_wait # fs \<Rightarrow> Some (wake t False (set_frames t (Getting At_receive # fs) s))
         | _ \<Rightarrow> None)
      else None)"

text \<open>
  \<^verbatim>\<open>Get\<close>: it is called by the code of a thread outside of handlers of sent messages, and returns with a posted message or because
  the queue is quitting, else it waits; a \<^verbatim>\<open>Wait\<close> that ends for another reason than \<^verbatim>\<open>WakeUp\<close> lets it go on or return.
\<close>

definition Get_enter :: "nat \<Rightarrow> 'd Threads \<Rightarrow> 'd Threads option" where
  "Get_enter t s = (if call_frames s t = [] then Some (set_frames t [Getting At_receive] s) else None)"

definition Get_return :: "nat \<Rightarrow> 'd Threads \<Rightarrow> 'd Threads option" where
  "Get_return t s = (case call_frames s t of Getting At_test # fs \<Rightarrow> Some (set_frames t fs s) | _ \<Rightarrow> None)"

definition Get_wait :: "nat \<Rightarrow> 'd Threads \<Rightarrow> 'd Threads option" where
  "Get_wait t s = (case call_frames s t of
      Getting At_test # fs \<Rightarrow> if stopping s t then None else Some (set_frames t (Getting At_wait # fs) s)
    | _ \<Rightarrow> None)"

definition Get_timeout :: "bool \<Rightarrow> bool \<Rightarrow> nat \<Rightarrow> 'd Threads \<Rightarrow> 'd Threads option" where
  "Get_timeout returns consumed t s = (case call_frames s t of
      Getting At_wait # fs \<Rightarrow>
        Some (wake t (woken s t \<and> \<not> consumed) (set_frames t (if returns then fs else Getting At_receive # fs) s))
    | _ \<Rightarrow> None)"

definition Thread_Clear :: "nat \<Rightarrow> nat option \<Rightarrow> uint32 \<Rightarrow> 'd Threads \<Rightarrow> 'd Threads" where
  "Thread_Clear t handler i s =
     (let hit = (\<lambda>smsg. Match (sm_msg smsg) handler i); gone = filter hit (sendlist s t)
      in s\<lparr>sendlist := (sendlist s)(t := filter (\<lambda>smsg. \<not> hit smsg) (sendlist s t)),
           ready := (\<lambda>k. ready s k \<or> k \<in> sm_ready ` set gone),
           cleared_log := (cleared_log s)(t := cleared_log s t @ gone),
           woken := (\<lambda>u. woken s u \<or> u \<in> sm_thread ` set gone)\<rparr>)"

definition Thread_Quit :: "nat \<Rightarrow> 'd Threads \<Rightarrow> 'd Threads" where
  "Thread_Quit t s = wake t True (s\<lparr>stopping := (stopping s)(t := True)\<rparr>)"

text \<open>
  The steps a thread makes inside \<^verbatim>\<open>Send\<close> and \<^verbatim>\<open>Get\<close>, and the end of a handler; and all steps: the code of a thread, that is
  outside of \<^verbatim>\<open>Send\<close> and \<^verbatim>\<open>Get\<close> or in a handler, may also send, get, clear and quit.
\<close>

definition runs_code :: "'d Threads \<Rightarrow> nat \<Rightarrow> bool" where
  "runs_code s t \<longleftrightarrow> (case call_frames s t of [] \<Rightarrow> True | Handling m # fs \<Rightarrow> True | _ \<Rightarrow> False)"

definition blocked :: "'d Threads \<Rightarrow> nat \<Rightarrow> bool" where
  "blocked s t \<longleftrightarrow> (\<exists>k pos waited fs. call_frames s t = Sending k pos waited # fs)"

inductive serve_step :: "nat \<Rightarrow> 'd Threads \<Rightarrow> 'd Threads \<Rightarrow> bool" where
  append: "Send_append c s = Some s' \<Longrightarrow> serve_step c s s'"
| notify: "Send_notify c s = Some s' \<Longrightarrow> serve_step c s s'"
| loop: "Send_loop c s = Some s' \<Longrightarrow> serve_step c s s'"
| send_return: "Send_return c s = Some s' \<Longrightarrow> serve_step c s s'"
| receive: "Receive_front c s = Some s' \<Longrightarrow> serve_step c s s'"
| receive_done: "Receive_done c s = Some s' \<Longrightarrow> serve_step c s s'"
| receive_end: "Receive_end c s = Some s' \<Longrightarrow> serve_step c s s'"
| wait_return: "Wait_return c s = Some s' \<Longrightarrow> serve_step c s s'"
| get_quit: "stopping s c \<Longrightarrow> Get_return c s = Some s' \<Longrightarrow> serve_step c s s'"
| get_wait: "Get_wait c s = Some s' \<Longrightarrow> serve_step c s s'"

inductive thread_step :: "nat \<Rightarrow> 'd Threads \<Rightarrow> 'd Threads \<Rightarrow> bool" where
  serve: "serve_step c s s' \<Longrightarrow> thread_step c s s'"
| send: "runs_code s c \<Longrightarrow> Send_check c t m s = Some s' \<Longrightarrow> thread_step c s s'"
| get: "Get_enter c s = Some s' \<Longrightarrow> thread_step c s s'"
| get_message: "Get_return c s = Some s' \<Longrightarrow> thread_step c s s'"
| timeout: "Get_timeout returns consumed c s = Some s' \<Longrightarrow> thread_step c s s'"
| clear: "runs_code s c \<Longrightarrow> thread_step c s (Thread_Clear t handler i s)"
| quit: "runs_code s c \<Longrightarrow> thread_step c s (Thread_Quit t s)"

inductive thread_reachable :: "'d Threads \<Rightarrow> bool" where
  init: "thread_reachable Threads_new"
| step: "thread_reachable s \<Longrightarrow> thread_step c s s' \<Longrightarrow> thread_reachable s'"

subsection \<open>Invariants\<close>

text \<open>The calls of a thread that concern messages: its sends under way and the messages it handles.\<close>

datatype 'd message_call = SendCall nat | HandleCall "'d SendMessage"

fun frame_calls :: "'d call_frame \<Rightarrow> 'd message_call list" where
  "frame_calls (Sending k pos waited) = [SendCall k]"
| "frame_calls (Handling m) = [HandleCall m]"
| "frame_calls _ = []"

definition calls :: "'d Threads \<Rightarrow> nat \<Rightarrow> 'd message_call list" where
  "calls s t = concat (map frame_calls (call_frames s t))"

definition known_sends :: "'d Threads \<Rightarrow> bool" where
  "known_sends s \<longleftrightarrow> (\<forall>t. (\<forall>m \<in> set (sent_log s t). sm_ready m < next_send s) \<and>
     sorted_wrt (<) (map sm_ready (sent_log s t)) \<and>
     (\<forall>m. HandleCall m \<in> set (calls s t) \<longrightarrow> m \<in> set (received_log s t)) \<and>
     set (done_log s t) \<subseteq> set (received_log s t))"

definition list_order :: "'d Threads \<Rightarrow> bool" where
  "list_order s \<longleftrightarrow> (\<forall>t. filter (\<lambda>m. m \<notin> set (cleared_log s t)) (sent_log s t) = received_log s t @ sendlist s t \<and>
     set (cleared_log s t) \<subseteq> set (sent_log s t) \<and> (sendlist s t \<noteq> [] \<longrightarrow> has_sends s t))"

definition ready_ok :: "'d Threads \<Rightarrow> bool" where
  "ready_ok s \<longleftrightarrow>
     (\<forall>k. ready s k \<longleftrightarrow> (\<exists>t. k \<in> sm_ready ` (set (done_log s t) \<union> set (cleared_log s t)))) \<and>
     (\<forall>t m. m \<in> set (received_log s t) \<longrightarrow> m \<in> set (done_log s t) \<or> HandleCall m \<in> set (calls s t)) \<and>
     (\<forall>c k. SendCall k \<in> set (calls s c) \<longrightarrow> (\<exists>t m. m \<in> set (sent_log s t) \<and> sm_ready m = k \<and> sm_thread m = c))"

definition later_send :: "'d message_call \<Rightarrow> 'd message_call \<Rightarrow> bool" where
  "later_send x y \<longleftrightarrow> (\<forall>k m. x = SendCall k \<longrightarrow> y = HandleCall m \<longrightarrow> sm_ready m < k)"

definition frame_order :: "'d Threads \<Rightarrow> bool" where
  "frame_order s \<longleftrightarrow> (\<forall>t. sorted_wrt later_send (calls s t))"

definition unique_sends :: "'d Threads \<Rightarrow> bool" where
  "unique_sends s \<longleftrightarrow> (\<forall>t u. \<forall>m \<in> set (sent_log s t). \<forall>n \<in> set (sent_log s u). sm_ready m = sm_ready n \<longrightarrow> t = u \<and> m = n)"

lemmas inv_defs = known_sends_def list_order_def ready_ok_def frame_order_def unique_sends_def

definition thread_inv :: "'d Threads \<Rightarrow> bool" where
  "thread_inv s \<longleftrightarrow> known_sends s \<and> list_order s \<and> ready_ok s \<and> frame_order s \<and> unique_sends s"

lemma thread_invD:
  assumes "thread_inv s"
  shows "known_sends s" "list_order s" "ready_ok s" "frame_order s" "unique_sends s"
  using assms by (simp_all add: thread_inv_def)

text \<open>The steps that only move a thread inside a call keep the calls.\<close>

lemma thread_inv_same:
  assumes "thread_inv s" and "calls s' = calls s" and "sendlist s' = sendlist s" and "ready s' = ready s" and "next_send s' = next_send s"
    and "sent_log s' = sent_log s" and "received_log s' = received_log s" and "done_log s' = done_log s" and "cleared_log s' = cleared_log s"
    and "\<And>t. sendlist s t \<noteq> [] \<Longrightarrow> has_sends s t \<Longrightarrow> has_sends s' t"
  shows "thread_inv s'"
  using assms by (auto simp: thread_inv_def inv_defs)

lemma set_frames_simps [simp]:
  "sendlist (set_frames t fs s) = sendlist s" "has_sends (set_frames t fs s) = has_sends s" "stopping (set_frames t fs s) = stopping s"
  "ready (set_frames t fs s) = ready s" "woken (set_frames t fs s) = woken s" "next_send (set_frames t fs s) = next_send s"
  "sent_log (set_frames t fs s) = sent_log s" "received_log (set_frames t fs s) = received_log s"
  "done_log (set_frames t fs s) = done_log s" "cleared_log (set_frames t fs s) = cleared_log s"
  "call_frames (set_frames t fs s) = (call_frames s)(t := fs)"
  by (simp_all add: set_frames_def)

lemma wake_simps [simp]:
  "sendlist (wake t b s) = sendlist s" "has_sends (wake t b s) = has_sends s" "stopping (wake t b s) = stopping s"
  "ready (wake t b s) = ready s" "woken (wake t b s) = (woken s)(t := b)" "next_send (wake t b s) = next_send s"
  "sent_log (wake t b s) = sent_log s" "received_log (wake t b s) = received_log s"
  "done_log (wake t b s) = done_log s" "cleared_log (wake t b s) = cleared_log s" "call_frames (wake t b s) = call_frames s"
  by (simp_all add: wake_def)

lemma calls_set_frames: "calls (set_frames t fs s) = (calls s)(t := concat (map frame_calls fs))"
  by (auto simp: calls_def fun_eq_iff)

lemma calls_same:
  "concat (map frame_calls fs) = calls s t \<Longrightarrow> calls (set_frames t fs s) = calls s"
  "calls (wake t b s) = calls s"
  by (auto simp: calls_set_frames) (simp add: calls_def fun_eq_iff)

lemma calls_other [simp]: "calls (s\<lparr>has_sends := h\<rparr>) = calls s" "calls (s\<lparr>stopping := b\<rparr>) = calls s"
  by (simp_all add: calls_def fun_eq_iff)

lemma calls_after_receive: "concat (map frame_calls (after_receive fs)) = concat (map frame_calls fs)"
  by (induction fs rule: after_receive.induct) simp_all

lemma thread_inv_moves:
  assumes "thread_inv s"
  shows "Send_check c t m s = Some s' \<Longrightarrow> thread_inv s'" "Send_notify c s = Some s' \<Longrightarrow> thread_inv s'"
    "Send_loop c s = Some s' \<Longrightarrow> thread_inv s'" "Receive_end c s = Some s' \<Longrightarrow> thread_inv s'"
    "Wait_return c s = Some s' \<Longrightarrow> thread_inv s'" "Get_enter c s = Some s' \<Longrightarrow> thread_inv s'"
    "Get_return c s = Some s' \<Longrightarrow> thread_inv s'" "Get_wait c s = Some s' \<Longrightarrow> thread_inv s'"
    "Get_timeout returns consumed c s = Some s' \<Longrightarrow> thread_inv s'" "thread_inv (Thread_Quit t s)"
proof -
  note same = thread_inv_same [OF assms]
  note splits = list.splits call_frame.splits call_pos.splits if_splits
  show "Send_check c t m s = Some s' \<Longrightarrow> thread_inv s'"
    by (rule same) (auto simp: Send_check_def calls_set_frames calls_def [of s c] split: if_splits)
  show "Send_notify c s = Some s' \<Longrightarrow> thread_inv s'"
    by (rule same) (auto simp: Send_notify_def calls_same calls_set_frames calls_def [of s c] split: splits)
  show "Send_loop c s = Some s' \<Longrightarrow> thread_inv s'"
    by (rule same) (auto simp: Send_loop_def calls_set_frames calls_def [of s c] split: splits)
  show "Receive_end c s = Some s' \<Longrightarrow> thread_inv s'"
    by (rule same) (auto simp: Receive_end_def calls_set_frames calls_after_receive calls_def [of s c] split: if_splits)
  show "Wait_return c s = Some s' \<Longrightarrow> thread_inv s'"
    by (rule same) (auto simp: Wait_return_def calls_same calls_set_frames calls_def [of s c] split: splits)
  show "Get_enter c s = Some s' \<Longrightarrow> thread_inv s'"
    by (rule same) (auto simp: Get_enter_def calls_set_frames calls_def [of s c] split: splits)
  show "Get_return c s = Some s' \<Longrightarrow> thread_inv s'"
    by (rule same) (auto simp: Get_return_def calls_set_frames calls_def [of s c] split: splits)
  show "Get_wait c s = Some s' \<Longrightarrow> thread_inv s'"
    by (rule same) (auto simp: Get_wait_def calls_set_frames calls_def [of s c] split: splits)
  show "Get_timeout returns consumed c s = Some s' \<Longrightarrow> thread_inv s'"
    by (rule same) (auto simp: Get_timeout_def calls_same calls_set_frames calls_def [of s c] split: splits)
  show "thread_inv (Thread_Quit t s)"
    by (rule same) (simp_all add: Thread_Quit_def calls_same)
qed

lemma received_sent: "list_order s \<Longrightarrow> m \<in> set (received_log s t) \<or> m \<in> set (sendlist s t) \<Longrightarrow> m \<in> set (sent_log s t)"
  unfolding list_order_def by (metis UnI1 UnI2 filter_is_subset set_append subsetD)

lemma known_handling:
  "known_sends s \<Longrightarrow> list_order s \<Longrightarrow> HandleCall m \<in> set (calls s t) \<Longrightarrow> sm_ready m < next_send s"
  using received_sent [of s m t] unfolding known_sends_def by blast

lemma thread_inv_append:
  assumes "thread_inv s" and "Send_append c s = Some s'"
  shows "thread_inv s'"
proof -
  obtain t m fs where f: "call_frames s c = Entering t m # fs"
    using assms(2) by (auto simp: Send_append_def split: list.splits call_frame.splits)
  define smsg where "smsg = \<lparr>sm_thread = c, sm_msg = m, sm_ready = next_send s\<rparr>"
  have s': "s' = set_frames c (Sending (next_send s) (At_notify t) False # fs)
      (s\<lparr>sendlist := (sendlist s)(t := sendlist s t @ [smsg]), has_sends := (has_sends s)(t := True),
         next_send := Suc (next_send s), sent_log := (sent_log s)(t := sent_log s t @ [smsg])\<rparr>)"
    using assms(2) f by (simp add: Send_append_def smsg_def Let_def)
  have c: "calls s' = (calls s)(c := SendCall (next_send s) # calls s c)"
    using f by (auto simp: s' calls_def fun_eq_iff)
  note inv = thread_invD [OF assms(1)]
  have fresh: "smsg \<notin> set (sent_log s u)" for u
    using inv(1) unfolding known_sends_def smsg_def by fastforce
  have "known_sends s'"
    using inv(1) unfolding known_sends_def c by (auto simp: s' smsg_def sorted_wrt_append less_Suc_eq)
  moreover have "list_order s'"
    using inv(2) fresh by (auto simp: list_order_def s')
  moreover have "ready_ok s'"
    using inv(3) unfolding ready_ok_def c by (force simp: s' smsg_def)
  moreover have "frame_order s'"
    using inv(4) known_handling [OF inv(1,2)] unfolding frame_order_def c by (auto simp: later_send_def)
  moreover have "unique_sends s'"
  proof -
    have "sm_ready m \<noteq> next_send s" if "m \<in> set (sent_log s u)" for m u
      using inv(1) that unfolding known_sends_def by (metis less_irrefl)
    then show ?thesis using inv(5) unfolding unique_sends_def by (auto simp: s' smsg_def) metis+
  qed
  ultimately show ?thesis by (simp add: thread_inv_def)
qed

lemma thread_inv_send_return:
  assumes "thread_inv s" and "Send_return c s = Some s'"
  shows "thread_inv s'"
proof -
  obtain k waited fs where f: "call_frames s c = Sending k At_test waited # fs"
      "s' = (if waited then wake c True (set_frames c fs s) else set_frames c fs s)"
    using assms(2) by (auto simp: Send_return_def split: list.splits call_frame.splits call_pos.splits if_splits)
  have old: "calls s c = SendCall k # concat (map frame_calls fs)" using f(1) by (simp add: calls_def)
  have c: "calls s' = (calls s)(c := tl (calls s c))" by (simp add: f(2) calls_same calls_set_frames old)
  have logs: "sendlist s' = sendlist s" "has_sends s' = has_sends s" "ready s' = ready s" "next_send s' = next_send s" "sent_log s' = sent_log s"
    "received_log s' = received_log s" "done_log s' = done_log s" "cleared_log s' = cleared_log s" by (simp_all add: f(2))
  have sub: "x \<in> set (calls s' u) \<Longrightarrow> x \<in> set (calls s u)" for x u using old by (auto simp: c split: if_splits)
  have handled: "HandleCall m \<in> set (calls s' u) \<longleftrightarrow> HandleCall m \<in> set (calls s u)" for m u using old by (auto simp: c)
  have "sorted_wrt later_send (calls s' u)" for u
    using thread_invD(4) [OF assms(1)] old unfolding frame_order_def c by (cases "u = c") (auto dest: spec [of _ c])
  then have "frame_order s'" by (simp add: frame_order_def)
  moreover have "ready_ok s'" using thread_invD(3) [OF assms(1)] sub unfolding ready_ok_def logs handled by meson
  moreover have "known_sends s'" "list_order s'" "unique_sends s'"
    using thread_invD(1,2,5) [OF assms(1)] unfolding known_sends_def list_order_def unique_sends_def logs handled by simp_all
  ultimately show ?thesis by (simp add: thread_inv_def)
qed

lemma thread_inv_receive:
  assumes "thread_inv s" and "Receive_front t s = Some s'"
  shows "thread_inv s'"
proof -
  obtain m rest where l: "sendlist s t = m # rest" "has_sends s t"
      "s' = set_frames t (Handling m # call_frames s t)
         (s\<lparr>sendlist := (sendlist s)(t := rest), received_log := (received_log s)(t := received_log s t @ [m])\<rparr>)"
    using assms(2) by (auto simp: Receive_front_def split: list.splits if_splits)
  have c: "calls s' = (calls s)(t := HandleCall m # calls s t)" by (auto simp: l(3) calls_def fun_eq_iff)
  have "known_sends s'" using thread_invD(1) [OF assms(1)] l unfolding known_sends_def c by auto
  moreover have "list_order s'" using thread_invD(2) [OF assms(1)] l by (auto simp: list_order_def)
  moreover have "ready_ok s'" using thread_invD(3) [OF assms(1)] l unfolding ready_ok_def c by auto
  moreover have "frame_order s'" using thread_invD(4) [OF assms(1)] unfolding frame_order_def c by (auto simp: later_send_def)
  moreover have "unique_sends s'" using thread_invD(5) [OF assms(1)] by (simp add: unique_sends_def l(3))
  ultimately show ?thesis by (simp add: thread_inv_def)
qed

lemma thread_inv_done:
  assumes "thread_inv s" and "Receive_done t s = Some s'"
  shows "thread_inv s'"
proof -
  obtain m fs where f: "call_frames s t = Handling m # fs"
      "s' = wake (sm_thread m) True (set_frames t fs
        (s\<lparr>ready := (ready s)(sm_ready m := True), done_log := (done_log s)(t := done_log s t @ [m])\<rparr>))"
    using assms(2) by (auto simp: Receive_done_def split: list.splits call_frame.splits)
  have old: "calls s t = HandleCall m # concat (map frame_calls fs)" using f(1) by (simp add: calls_def)
  have c: "calls s' = (calls s)(t := tl (calls s t))" using f by (auto simp: calls_def fun_eq_iff)
  have "m \<in> set (received_log s t)" using thread_invD(1) [OF assms(1)] old by (auto simp: known_sends_def dest!: spec [of _ t])
  then have "known_sends s'" using thread_invD(1) [OF assms(1)] old unfolding known_sends_def c by (auto simp: f(2))
  moreover have "list_order s'" using thread_invD(2) [OF assms(1)] by (simp add: list_order_def f(2))
  moreover have "frame_order s'"
    using thread_invD(4) [OF assms(1)] old unfolding frame_order_def c by (auto dest: spec [of _ t])
  moreover have "ready_ok s'"
  proof -
    note r = thread_invD(3) [OF assms(1), unfolded ready_ok_def]
    have "ready s' k \<longleftrightarrow> (\<exists>u. k \<in> sm_ready ` (set (done_log s' u) \<union> set (cleared_log s' u)))" for k
    proof (cases "k = sm_ready m")
      case True
      then show ?thesis by (auto simp: f(2) intro!: exI [of _ t])
    next
      case False
      then have "k \<in> sm_ready ` (set (done_log s' u) \<union> set (cleared_log s' u)) \<longleftrightarrow>
          k \<in> sm_ready ` (set (done_log s u) \<union> set (cleared_log s u))" for u
        by (auto simp: f(2))
      then show ?thesis using r False by (simp add: f(2))
    qed
    moreover have "u \<in> set (received_log s' v) \<Longrightarrow> u \<in> set (done_log s' v) \<or> HandleCall u \<in> set (calls s' v)" for u v
      using r old by (auto simp: f(2) c [unfolded f(2)] dest!: spec [of _ v])
    moreover have "SendCall k \<in> set (calls s' d) \<Longrightarrow> \<exists>u v. v \<in> set (sent_log s' u) \<and> sm_ready v = k \<and> sm_thread v = d" for d k
    proof -
      assume "SendCall k \<in> set (calls s' d)"
      then have "SendCall k \<in> set (calls s d)" using old by (auto simp: c split: if_splits)
      then show ?thesis using r by (simp add: f(2))
    qed
    ultimately show ?thesis unfolding ready_ok_def by blast
  qed
  moreover have "unique_sends s'" using thread_invD(5) [OF assms(1)] by (simp add: unique_sends_def f(2))
  ultimately show ?thesis by (simp add: thread_inv_def)
qed

lemma thread_inv_clear: "thread_inv s \<Longrightarrow> thread_inv (Thread_Clear t handler i s)"
proof -
  assume inv: "thread_inv s"
  define hit where "hit = (\<lambda>m :: 'a SendMessage. Match (sm_msg m) handler i)"
  define s' where "s' = Thread_Clear t handler i s"
  note r = thread_invD(3) [OF inv, unfolded ready_ok_def]
  note l = thread_invD(2) [OF inv]
  have s': "s' = s\<lparr>sendlist := (sendlist s)(t := filter (\<lambda>m. \<not> hit m) (sendlist s t)),
      ready := (\<lambda>k. ready s k \<or> k \<in> sm_ready ` set (filter hit (sendlist s t))),
      cleared_log := (cleared_log s)(t := cleared_log s t @ filter hit (sendlist s t)),
      woken := (\<lambda>u. woken s u \<or> u \<in> sm_thread ` set (filter hit (sendlist s t)))\<rparr>"
    by (simp add: s'_def Thread_Clear_def hit_def Let_def)
  have calls: "calls s' = calls s" by (simp add: calls_def fun_eq_iff s')
  have "known_sends s'" using thread_invD(1) [OF inv] unfolding known_sends_def calls by (auto simp: s')
  moreover have "frame_order s'" using thread_invD(4) [OF inv] unfolding frame_order_def calls by simp
  moreover have "list_order s'"
  proof -
    have "sorted_wrt (<) (map sm_ready (sent_log s t))" using thread_invD(1) [OF inv] by (simp add: known_sends_def)
    then have "distinct (map sm_ready (sent_log s t))" by (simp add: strict_sorted_iff)
    then have "distinct (sent_log s t)" by (rule distinct_map [THEN iffD1, THEN conjunct1])
    then have d: "distinct (received_log s t @ sendlist s t)" using l by (metis distinct_filter list_order_def)
    have "filter (\<lambda>m. m \<notin> set (cleared_log s' t)) (sent_log s' t) =
        filter (\<lambda>m. \<not> (m \<in> set (sendlist s t) \<and> hit m)) (filter (\<lambda>m. m \<notin> set (cleared_log s t)) (sent_log s t))"
      by (auto simp: s' intro: filter_cong)
    also have "\<dots> = filter (\<lambda>m. \<not> (m \<in> set (sendlist s t) \<and> hit m)) (received_log s t @ sendlist s t)"
      using l by (simp add: list_order_def)
    also have "\<dots> = received_log s t @ filter (\<lambda>m. \<not> hit m) (sendlist s t)"
    proof -
      have "filter (\<lambda>m. \<not> (m \<in> set (sendlist s t) \<and> hit m)) (received_log s t) = received_log s t"
        using d by (auto simp: filter_id_conv)
      moreover have "filter (\<lambda>m. \<not> (m \<in> set (sendlist s t) \<and> hit m)) (sendlist s t) = filter (\<lambda>m. \<not> hit m) (sendlist s t)"
        by (rule filter_cong) simp_all
      ultimately show ?thesis by simp
    qed
    finally have "filter (\<lambda>m. m \<notin> set (cleared_log s' t)) (sent_log s' t) = received_log s' t @ sendlist s' t"
      by (simp add: s')
    moreover have "set (cleared_log s' t) \<subseteq> set (sent_log s' t)"
      using l received_sent [OF l] by (auto simp: s' list_order_def)
    moreover have "sendlist s' t \<noteq> [] \<longrightarrow> has_sends s' t" using l by (cases "sendlist s t") (auto simp: s' list_order_def)
    moreover have "filter (\<lambda>m. m \<notin> set (cleared_log s' u)) (sent_log s' u) = received_log s' u @ sendlist s' u \<and>
        set (cleared_log s' u) \<subseteq> set (sent_log s' u) \<and> (sendlist s' u \<noteq> [] \<longrightarrow> has_sends s' u)" if "u \<noteq> t" for u
      using l that by (simp add: s' list_order_def)
    ultimately show ?thesis unfolding list_order_def by metis
  qed
  moreover have "ready_ok s'"
  proof -
    have "ready s' k \<longleftrightarrow> (\<exists>u. k \<in> sm_ready ` (set (done_log s' u) \<union> set (cleared_log s' u)))" for k
    proof -
      have "(\<exists>u. k \<in> sm_ready ` (set (done_log s' u) \<union> set (cleared_log s' u))) \<longleftrightarrow>
          (\<exists>u. k \<in> sm_ready ` (set (done_log s u) \<union> set (cleared_log s u))) \<or> k \<in> sm_ready ` set (filter hit (sendlist s t))"
        unfolding s' by (auto split: if_splits)
      then show ?thesis using r by (simp add: s')
    qed
    then show ?thesis using r unfolding ready_ok_def calls by (simp add: s')
  qed
  moreover have "unique_sends s'" using thread_invD(5) [OF inv] by (simp add: unique_sends_def s')
  ultimately show ?thesis by (simp add: thread_inv_def s'_def)
qed

lemma thread_inv_serve: "thread_inv s \<Longrightarrow> serve_step c s s' \<Longrightarrow> thread_inv s'"
  by (erule serve_step.cases)
    (auto intro: thread_inv_append thread_inv_moves thread_inv_send_return thread_inv_receive thread_inv_done)

lemma thread_inv_reachable: "thread_reachable s \<Longrightarrow> thread_inv s"
proof (induction rule: thread_reachable.induct)
  case init
  then show ?case by (simp add: Threads_new_def thread_inv_def inv_defs calls_def)
next
  case (step s c s')
  from step(2) show ?case
    by cases (use step.IH in \<open>auto intro: thread_inv_serve thread_inv_moves thread_inv_clear\<close>)
qed

subsection \<open>No wakeup is lost\<close>

text \<open>
  A \<^verbatim>\<open>Wait\<close> in a handler can consume the wakeup that is meant for a \<^verbatim>\<open>Send\<close> below it on the stack; the \<^verbatim>\<open>Send\<close> that waited wakes its own thread
  again when it returns.  \<open>owes\<close> says that whoever is ready has been woken, or will be by a call above it.
\<close>

fun owes :: "(nat \<Rightarrow> bool) \<Rightarrow> bool \<Rightarrow> 'd call_frame list \<Rightarrow> bool" where
  "owes rd b [] = True"
| "owes rd b (Sending k pos waited # fs) \<longleftrightarrow> (pos = At_receive \<or> pos = At_wait \<longrightarrow> rd k \<longrightarrow> b) \<and> owes rd (b \<or> waited) fs"
| "owes rd b (f # fs) = owes rd b fs"

fun code_top :: "'d call_frame list \<Rightarrow> bool" where
  "code_top [] = True"
| "code_top (Handling m # fs) = True"
| "code_top _ = False"

fun stack_ok :: "'d call_frame list \<Rightarrow> bool" where
  "stack_ok [] = True"
| "stack_ok (Getting pos # fs) \<longleftrightarrow> pos \<in> {At_receive, At_test, At_wait} \<and> fs = []"
| "stack_ok (Handling m # fs) \<longleftrightarrow> receiving fs \<and> stack_ok fs"
| "stack_ok (f # fs) \<longleftrightarrow> code_top fs \<and> stack_ok fs"

text \<open>A thread that will \<^verbatim>\<open>Wait\<close> without looking at its list again.\<close>

fun listening :: "'d call_frame list \<Rightarrow> bool" where
  "listening (Sending k At_wait waited # fs) = True"
| "listening (Getting At_wait # fs) = True"
| "listening (Getting At_test # fs) = True"
| "listening _ = False"

definition notified :: "'d Threads \<Rightarrow> nat \<Rightarrow> bool" where
  "notified s t \<longleftrightarrow> (\<exists>c k waited fs. call_frames s c = Sending k (At_notify t) waited # fs)"

definition wake_inv :: "'d Threads \<Rightarrow> bool" where
  "wake_inv s \<longleftrightarrow> (\<forall>t. stack_ok (call_frames s t) \<and> owes (ready s) (woken s t) (call_frames s t) \<and>
     (listening (call_frames s t) \<longrightarrow> sendlist s t \<noteq> [] \<longrightarrow> woken s t \<or> notified s t))"

lemma wake_invD:
  assumes "wake_inv s"
  shows "stack_ok (call_frames s t)" "owes (ready s) (woken s t) (call_frames s t)"
    "listening (call_frames s t) \<Longrightarrow> sendlist s t \<noteq> [] \<Longrightarrow> woken s t \<or> notified s t"
  using assms by (simp_all add: wake_inv_def)

lemma owes_change:
  "owes rd b fs \<Longrightarrow> (b \<Longrightarrow> b') \<Longrightarrow> (\<And>k pos waited. Sending k pos waited \<in> set fs \<Longrightarrow> rd' k \<Longrightarrow> rd k \<or> b') \<Longrightarrow> owes rd' b' fs"
proof (induction rd b fs arbitrary: b' rule: owes.induct)
  case (2 rd b k pos waited fs)
  have "owes rd' (b' \<or> waited) fs"
    by (rule "2.IH") (use 2 in auto)
  then show ?case using 2 by auto
qed auto

lemma listening_not_code: "code_top fs \<Longrightarrow> \<not> listening fs" "receiving fs \<Longrightarrow> \<not> listening fs"
  by (induction fs rule: listening.induct) auto

lemma notified_frames:
  assumes "notified s u" and "\<And>v. v \<noteq> t \<Longrightarrow> call_frames s' v = call_frames s v"
    and "\<And>k waited fs. call_frames s t \<noteq> Sending k (At_notify u) waited # fs"
  shows "notified s' u"
  using assms unfolding notified_def by metis

text \<open>What changes only one thread, and does not remove a pending \<^verbatim>\<open>WakeUp\<close>, needs to be looked at for this thread only.\<close>

lemma wake_inv_local:
  assumes "wake_inv s" and "\<And>u. u \<noteq> t \<Longrightarrow> call_frames s' u = call_frames s u" and "ready s' = ready s"
    and "\<And>u. u \<noteq> t \<Longrightarrow> woken s u \<Longrightarrow> woken s' u" and "\<And>u. sendlist s' u \<noteq> [] \<Longrightarrow> sendlist s u \<noteq> [] \<or> notified s' u"
    and "\<And>u k waited fs. call_frames s t = Sending k (At_notify u) waited # fs \<Longrightarrow> woken s' u"
    and "stack_ok (call_frames s' t)" and "owes (ready s) (woken s' t) (call_frames s' t)"
    and "listening (call_frames s' t) \<Longrightarrow> sendlist s' t \<noteq> [] \<Longrightarrow> woken s' t \<or> notified s' t \<or> notified s t"
  shows "wake_inv s'"
proof -
  have n: "notified s' u \<or> woken s' u" if "notified s u" for u
    using notified_frames [OF that assms(2)] assms(6) by blast
  have "stack_ok (call_frames s' u) \<and> owes (ready s') (woken s' u) (call_frames s' u) \<and>
      (listening (call_frames s' u) \<longrightarrow> sendlist s' u \<noteq> [] \<longrightarrow> woken s' u \<or> notified s' u)" for u
  proof (cases "u = t")
    case True
    then show ?thesis using assms(3,7-9) n [of t] by auto
  next
    case False
    note same = assms(2) [OF False] and inv = wake_invD [OF assms(1), of u]
    have "owes (ready s') (woken s' u) (call_frames s' u)"
      unfolding same assms(3) by (rule owes_change [OF inv(2)]) (use assms(4) [OF False] in auto)
    then show ?thesis using inv assms(4) [OF False] assms(5) [of u] n [of u] unfolding same by blast
  qed
  then show ?thesis unfolding wake_inv_def by blast
qed

lemma wake_inv_calls:
  assumes "wake_inv s"
  shows "runs_code s c \<Longrightarrow> Send_check c t m s = Some s' \<Longrightarrow> wake_inv s'" "Send_append c s = Some s' \<Longrightarrow> wake_inv s'"
    "Send_notify c s = Some s' \<Longrightarrow> wake_inv s'" "Send_loop c s = Some s' \<Longrightarrow> wake_inv s'" "Send_return c s = Some s' \<Longrightarrow> wake_inv s'"
    "Receive_front c s = Some s' \<Longrightarrow> wake_inv s'" "Wait_return c s = Some s' \<Longrightarrow> wake_inv s'"
    "Get_enter c s = Some s' \<Longrightarrow> wake_inv s'" "Get_return c s = Some s' \<Longrightarrow> wake_inv s'" "Get_wait c s = Some s' \<Longrightarrow> wake_inv s'"
    "Get_timeout returns consumed c s = Some s' \<Longrightarrow> wake_inv s'" "wake_inv (Thread_Quit t s)"
proof -
  note inv = wake_invD [OF assms, of c]
  note splits = list.splits call_frame.splits call_pos.splits if_splits
  note loc = wake_inv_local [OF assms, where t = c]
  show "wake_inv s'" if r: "runs_code s c" and s: "Send_check c t m s = Some s'"
  proof (cases "stopping s t")
    case False
    have top: "code_top (call_frames s c)" using r by (auto simp: runs_code_def split: list.splits call_frame.splits)
    have s': "s' = set_frames c (Entering t m # call_frames s c) s" using s False by (auto simp: Send_check_def split: if_splits)
    show ?thesis by (rule loc) (use inv top in \<open>auto simp: s'\<close>)
  qed (use s assms in \<open>simp add: Send_check_def\<close>)
  show "wake_inv s'" if s: "Send_append c s = Some s'"
  proof -
    obtain t m fs where f: "call_frames s c = Entering t m # fs"
      using s by (auto simp: Send_append_def split: list.splits call_frame.splits)
    have "call_frames s' c = Sending (next_send s) (At_notify t) False # fs" using s f by (auto simp: Send_append_def Let_def)
    then have n: "notified s' t" unfolding notified_def by blast
    show ?thesis by (rule loc) (use s inv f n in \<open>auto simp: Send_append_def Let_def split: if_splits\<close>)
  qed
  show "wake_inv s'" if s: "Send_notify c s = Some s'"
  proof -
    obtain k t w fs where f: "call_frames s c = Sending k (At_notify t) w # fs"
        "s' = wake t True (set_frames c (Sending k At_test w # fs) s)"
      using s by (auto simp: Send_notify_def split: splits)
    have "owes (ready s) (woken s' c) (call_frames s' c)"
      by (rule owes_change [where rd = "ready s" and b = "woken s c"]) (use inv(2) f in auto)
    then show ?thesis by (intro loc) (use inv(1) f in auto)
  qed
  show "wake_inv s'" if s: "Send_loop c s = Some s'"
    by (rule loc) (use s inv in \<open>auto simp: Send_loop_def split: splits\<close>)
  show "wake_inv s'" if s: "Send_return c s = Some s'"
  proof -
    obtain k w fs where f: "call_frames s c = Sending k At_test w # fs"
        "s' = (if w then wake c True (set_frames c fs s) else set_frames c fs s)"
      using s by (auto simp: Send_return_def split: splits)
    have "\<not> listening fs" using inv(1) f(1) listening_not_code(1) by auto
    then show ?thesis by (intro loc) (use inv f in auto)
  qed
  show "wake_inv s'" if s: "Receive_front c s = Some s'"
  proof -
    obtain m rest where f: "receiving (call_frames s c)" "sendlist s c = m # rest"
      "s' = set_frames c (Handling m # call_frames s c)
         (s\<lparr>sendlist := (sendlist s)(c := rest), received_log := (received_log s)(c := received_log s c @ [m])\<rparr>)"
      using s by (auto simp: Receive_front_def split: list.splits if_splits)
    show ?thesis by (rule loc) (use inv f in \<open>auto split: if_splits\<close>)
  qed
  show "wake_inv s'" if s: "Wait_return c s = Some s'"
    by (rule loc) (use s inv in \<open>auto simp: Wait_return_def split: splits\<close>)
  show "wake_inv s'" if s: "Get_enter c s = Some s'"
    by (rule loc) (use s inv in \<open>auto simp: Get_enter_def split: splits\<close>)
  show "wake_inv s'" if s: "Get_return c s = Some s'"
    by (rule loc) (use s inv in \<open>auto simp: Get_return_def split: splits\<close>)
  show "wake_inv s'" if s: "Get_wait c s = Some s'"
    by (rule loc) (use s inv in \<open>auto simp: Get_wait_def split: splits\<close>)
  show "wake_inv s'" if s: "Get_timeout returns consumed c s = Some s'"
    by (rule loc) (use s inv in \<open>auto simp: Get_timeout_def split: splits\<close>)
  show "wake_inv (Thread_Quit t s)"
  proof -
    have n: "notified (Thread_Quit t s) u = notified s u" for u by (simp add: notified_def Thread_Quit_def)
    have "owes (ready s) (woken (Thread_Quit t s) u) (call_frames s u)" for u
      by (rule owes_change [OF wake_invD(2) [OF assms]]) (auto simp: Thread_Quit_def)
    then show ?thesis using wake_invD(1,3) [OF assms] unfolding wake_inv_def n by (auto simp: Thread_Quit_def)
  qed
qed

lemma sender_of:
  assumes "thread_inv s" and "Sending k pos waited \<in> set (call_frames s c)" and "m \<in> set (sent_log s t)" and "sm_ready m = k"
  shows "sm_thread m = c"
proof -
  have "SendCall k \<in> set (calls s c)" using assms(2) by (force simp: calls_def)
  then obtain u n where "n \<in> set (sent_log s u)" "sm_ready n = k" "sm_thread n = c"
    using thread_invD(3) [OF assms(1)] unfolding ready_ok_def by blast
  then show ?thesis using thread_invD(5) [OF assms(1)] assms(3,4) unfolding unique_sends_def by metis
qed

text \<open>Whoever sets the variables of sends wakes their threads.\<close>

lemma owes_ready:
  assumes "thread_inv s" and "owes (ready s) (woken s u) fs" and "set fs \<subseteq> set (call_frames s u)" and "woken s u \<Longrightarrow> b"
    and "\<And>k. rd k \<Longrightarrow> ready s k \<or> (\<exists>m t. m \<in> set (sent_log s t) \<and> sm_ready m = k \<and> (sm_thread m = u \<longrightarrow> b))"
  shows "owes rd b fs"
proof (rule owes_change [OF assms(2,4)])
  fix k pos waited
  assume "Sending k pos waited \<in> set fs" "rd k"
  then show "ready s k \<or> b" using assms(5) [of k] sender_of [OF assms(1), of k pos waited u] assms(3) by blast
qed

lemma wake_inv_done:
  assumes "thread_inv s" and "wake_inv s" and "Receive_done t s = Some s'"
  shows "wake_inv s'"
proof -
  obtain m fs where f: "call_frames s t = Handling m # fs"
      "s' = wake (sm_thread m) True (set_frames t fs
        (s\<lparr>ready := (ready s)(sm_ready m := True), done_log := (done_log s)(t := done_log s t @ [m])\<rparr>))"
    using assms(3) by (auto simp: Receive_done_def split: list.splits call_frame.splits)
  have "HandleCall m \<in> set (calls s t)" using f(1) by (simp add: calls_def)
  then have m: "m \<in> set (sent_log s t)"
    using thread_invD(1,2) [OF assms(1)] received_sent [of s m t] unfolding known_sends_def by blast
  have frames: "call_frames s' u = (if u = t then fs else call_frames s u)" for u by (simp add: f(2))
  have "owes (ready s') (woken s' u) (call_frames s' u)" for u
  proof (rule owes_ready [OF assms(1)])
    show "owes (ready s) (woken s u) (call_frames s' u)" using wake_invD(2) [OF assms(2), of u] f(1) by (auto simp: frames)
    show "set (call_frames s' u) \<subseteq> set (call_frames s u)" using f(1) by (auto simp: frames)
    show "woken s' u" if "woken s u" using that by (simp add: f(2))
    show "ready s k \<or> (\<exists>n v. n \<in> set (sent_log s v) \<and> sm_ready n = k \<and> (sm_thread n = u \<longrightarrow> woken s' u))" if "ready s' k" for k
      using that m by (auto simp: f(2) split: if_splits)
  qed
  moreover have top: "receiving fs" "stack_ok fs" using wake_invD(1) [OF assms(2), of t] f(1) by simp_all
  then have "stack_ok (call_frames s' u)" for u using wake_invD(1) [OF assms(2), of u] by (simp add: frames)
  moreover have "woken s' u \<or> notified s' u" if l: "listening (call_frames s' u)" "sendlist s' u \<noteq> []" for u
  proof -
    have "u \<noteq> t" using l(1) listening_not_code(2) [OF top(1)] by (auto simp: frames)
    then have "woken s u \<or> notified s u" using l wake_invD(3) [OF assms(2), of u] by (simp add: frames) (simp add: f(2))
    moreover have "notified s' u" if "notified s u"
      by (rule notified_frames [OF that, of t]) (use f(1) in \<open>auto simp: frames\<close>)
    ultimately show ?thesis by (auto simp: f(2))
  qed
  ultimately show ?thesis unfolding wake_inv_def by blast
qed

lemma wake_inv_clear:
  assumes "thread_inv s" and "wake_inv s"
  shows "wake_inv (Thread_Clear t handler i s)"
proof -
  let ?s = "Thread_Clear t handler i s"
  define gone where "gone = filter (\<lambda>m. Match (sm_msg m) handler i) (sendlist s t)"
  have s': "ready ?s = (\<lambda>k. ready s k \<or> k \<in> sm_ready ` set gone)" "woken ?s = (\<lambda>u. woken s u \<or> u \<in> sm_thread ` set gone)"
    "call_frames ?s = call_frames s" "sendlist ?s u \<noteq> [] \<Longrightarrow> sendlist s u \<noteq> []" for u
    by (auto simp: Thread_Clear_def Let_def gone_def split: if_splits)
  have sent: "m \<in> set (sent_log s t)" if "m \<in> set gone" for m
    using that received_sent [OF thread_invD(2) [OF assms(1)], of m t] by (simp add: gone_def)
  have "owes (ready ?s) (woken ?s u) (call_frames s u)" for u
    by (rule owes_ready [OF assms(1) wake_invD(2) [OF assms(2)]]) (use sent in \<open>auto simp: s'\<close>)
  moreover have "woken ?s u \<or> notified ?s u" if l: "listening (call_frames ?s u)" "sendlist ?s u \<noteq> []" for u
  proof -
    have "woken s u \<or> notified s u" using l(1) s'(4) [OF l(2)] wake_invD(3) [OF assms(2), of u] by (simp add: s'(3))
    moreover have "notified ?s u = notified s u" by (simp add: notified_def s'(3))
    ultimately show ?thesis by (auto simp: s'(2))
  qed
  ultimately show ?thesis using wake_invD(1) [OF assms(2)] unfolding wake_inv_def by (simp add: s'(3))
qed

lemma wake_inv_end:
  assumes "thread_inv s" and "wake_inv s" and "Receive_end t s = Some s'"
  shows "wake_inv s'"
proof -
  have s': "receiving (call_frames s t)" "sendlist s t = []"
    "s' = set_frames t (after_receive (call_frames s t)) (s\<lparr>has_sends := (has_sends s)(t := False)\<rparr>)"
    using assms(3) thread_invD(2) [OF assms(1)] by (auto simp: Receive_end_def list_order_def split: if_splits)
  note inv = wake_invD [OF assms(2), of t]
  show ?thesis
    using s'(1) by (intro wake_inv_local [OF assms(2), of t]; cases "call_frames s t" rule: receiving.cases)
      (use s'(2) inv in \<open>auto simp: s'(3)\<close>)
qed

lemma wake_inv_reachable: "thread_reachable s \<Longrightarrow> wake_inv s"
proof (induction rule: thread_reachable.induct)
  case init
  then show ?case by (simp add: Threads_new_def wake_inv_def)
next
  case (step s c s')
  note i = thread_inv_reachable [OF step(1)]
  from step(2) show ?case
  proof cases
    case serve
    then show ?thesis
      by cases (use step.IH in \<open>auto intro: wake_inv_calls wake_inv_done [OF i] wake_inv_end [OF i]\<close>)
  qed (use step.IH in \<open>auto intro: wake_inv_calls wake_inv_clear [OF i]\<close>)
qed

subsection \<open>What the protocol guarantees\<close>

lemma finished_ready:
  assumes "thread_inv s" and "m \<in> set (done_log s t) \<or> m \<in> set (cleared_log s t)"
  shows "ready s (sm_ready m)"
proof -
  have "sm_ready m \<in> sm_ready ` (set (done_log s t) \<union> set (cleared_log s t))" using assms(2) by blast
  then show ?thesis using thread_invD(3) [OF assms(1)] unfolding ready_ok_def by blast
qed

lemma ready_message:
  assumes "thread_inv s" and "m \<in> set (sent_log s t)" and "ready s (sm_ready m)"
  shows "m \<in> set (done_log s t) \<or> m \<in> set (cleared_log s t)"
proof -
  obtain u n where n: "n \<in> set (done_log s u) \<or> n \<in> set (cleared_log s u)" "sm_ready n = sm_ready m"
    using assms(3) thread_invD(3) [OF assms(1)] unfolding ready_ok_def by force
  have "n \<in> set (sent_log s u)"
    using n(1) thread_invD(1,2) [OF assms(1)] received_sent [OF thread_invD(2) [OF assms(1)], of n u]
    unfolding known_sends_def list_order_def by blast
  then have "u = t" "n = m" using thread_invD(5) [OF assms(1)] assms(2) n(2) unfolding unique_sends_def by metis+
  then show ?thesis using n(1) by simp
qed

lemma sending_message:
  assumes "thread_inv s" and "call_frames s c = Sending k pos waited # fs"
  shows "\<exists>t m. m \<in> set (sent_log s t) \<and> sm_ready m = k \<and> sm_thread m = c"
proof -
  have "SendCall k \<in> set (calls s c)" using assms(2) by (simp add: calls_def)
  then show ?thesis using thread_invD(3) [OF assms(1)] unfolding ready_ok_def by blast
qed

text \<open>
  C20 (safety).  \<^verbatim>\<open>Send\<close> is synchronous: when it returns from its wait loop, the message it appended was handled to the end by
  the thread it was sent to, or was cleared from the list of that thread.  It returns without waiting only if it finds the
  other thread quitting, and then it has changed nothing.
\<close>

theorem send_is_synchronous:
  assumes "thread_reachable s"
  shows "(Send_return c s = Some s' \<longrightarrow>
      (\<exists>k waited fs t m. call_frames s c = Sending k At_test waited # fs \<and> m \<in> set (sent_log s t) \<and> sm_thread m = c \<and> sm_ready m = k \<and>
        (m \<in> set (done_log s t) \<or> m \<in> set (cleared_log s t)))) \<and>
    (Send_check c t m s = Some s' \<longrightarrow> (if stopping s t then s' = s else c \<noteq> t \<and> call_frames s' c = Entering t m # call_frames s c))"
proof (intro conjI impI)
  note inv = thread_inv_reachable [OF assms]
  assume "Send_return c s = Some s'"
  then obtain k waited fs where f: "call_frames s c = Sending k At_test waited # fs" "ready s k"
    by (auto simp: Send_return_def split: list.splits call_frame.splits call_pos.splits if_splits)
  from sending_message [OF inv f(1)] show "\<exists>k waited fs t m. call_frames s c = Sending k At_test waited # fs \<and>
      m \<in> set (sent_log s t) \<and> sm_thread m = c \<and> sm_ready m = k \<and> (m \<in> set (done_log s t) \<or> m \<in> set (cleared_log s t))"
    using ready_message [OF inv] f by blast
qed (auto simp: Send_check_def split: if_splits)

text \<open>
  C19 (invariant).  The messages sent to a thread are taken off its list in the order in which
  they were sent, none twice and none lost: what was sent and not cleared is what was received, followed by
  what still waits; what was received was handled to the end or is being handled; and the
  flag that makes the thread look at its list is set while there is something in it.
\<close>

theorem sends_received_in_order:
  assumes "thread_reachable s"
  shows "filter (\<lambda>m. m \<notin> set (cleared_log s t)) (sent_log s t) = received_log s t @ sendlist s t \<and>
    distinct (sent_log s t) \<and>
    (\<forall>m \<in> set (received_log s t). m \<in> set (done_log s t) \<or> Handling m \<in> set (call_frames s t)) \<and>
    (sendlist s t \<noteq> [] \<longrightarrow> has_sends s t)"
proof -
  note inv = thread_inv_reachable [OF assms(1)]
  have "sorted_wrt (<) (map sm_ready (sent_log s t))" using thread_invD(1) [OF inv] by (simp add: known_sends_def)
  then have "distinct (map sm_ready (sent_log s t))" by (simp add: strict_sorted_iff)
  then have "distinct (sent_log s t)" by (rule distinct_map [THEN iffD1, THEN conjunct1])
  moreover have "Handling m \<in> set (call_frames s t)" if h: "HandleCall m \<in> set (calls s t)" for m
  proof -
    obtain f where "f \<in> set (call_frames s t)" "HandleCall m \<in> set (frame_calls f)" using h by (auto simp: calls_def)
    moreover from this(2) have "f = Handling m" by (cases f) simp_all
    ultimately show ?thesis by simp
  qed
  then have "\<forall>m \<in> set (received_log s t). m \<in> set (done_log s t) \<or> Handling m \<in> set (call_frames s t)"
    using thread_invD(3) [OF inv] unfolding ready_ok_def by blast
  ultimately show ?thesis using thread_invD(2) [OF inv] unfolding list_order_def by blast
qed

text \<open>A thread that cannot go on stands in \<^verbatim>\<open>Wait\<close> and was not woken, or runs other code.\<close>

lemma stuck_thread:
  assumes "\<And>s'. \<not> serve_step t s s'" and "stack_ok (call_frames s t)"
  shows "call_frames s t = [] \<or> (\<exists>k waited fs. call_frames s t = Sending k At_wait waited # fs \<and> \<not> woken s t) \<or>
    (\<exists>fs. call_frames s t = Getting At_wait # fs \<and> \<not> woken s t)"
proof (cases "call_frames s t")
  case (Cons f fs)
  have rec: "\<not> receiving (call_frames s t)"
  proof
    assume "receiving (call_frames s t)"
    then have "Receive_front t s \<noteq> None \<or> Receive_end t s \<noteq> None"
      by (cases "sendlist s t") (auto simp: Receive_front_def Receive_end_def)
    then show False using assms(1) serve_step.receive serve_step.receive_end by blast
  qed
  show ?thesis
  proof (cases f)
    case (Entering u m)
    then have "Send_append t s \<noteq> None" using Cons by (simp add: Send_append_def Let_def)
    then show ?thesis using assms(1) serve_step.append by blast
  next
    case (Sending k pos waited)
    have "Send_notify t s = None" "Send_loop t s = None" "Send_return t s = None" "Wait_return t s = None"
      by (rule ccontr, use assms(1) serve_step.notify serve_step.loop serve_step.send_return serve_step.wait_return in blast)+
    then show ?thesis using Cons Sending rec
      by (cases pos) (auto simp: Send_notify_def Send_loop_def Send_return_def Wait_return_def split: if_splits)
  next
    case (Getting pos)
    have "Get_wait t s = None" "Wait_return t s = None"
      by (rule ccontr, use assms(1) serve_step.get_wait serve_step.wait_return in blast)+
    moreover have "\<not> (stopping s t \<and> Get_return t s \<noteq> None)" using assms(1) serve_step.get_quit by blast
    ultimately show ?thesis using Cons Getting rec assms(2)
      by (cases pos) (auto simp: Get_wait_def Get_return_def Wait_return_def split: if_splits)
  next
    case (Handling m)
    then have "Receive_done t s \<noteq> None" using Cons by (simp add: Receive_done_def)
    then show ?thesis using assms(1) serve_step.receive_done by blast
  qed
qed simp

text \<open>
  C21 (liveness).  Threads that wait for each other in \<^verbatim>\<open>Send\<close>, in whatever circle and however deep their handlers are nested, are never
  stuck: as long as one of them is in \<^verbatim>\<open>Send\<close>, some thread can make the next step inside \<^verbatim>\<open>Send\<close> or \<^verbatim>\<open>Get\<close> or end a handler, unless a
  message waits for a thread that is neither in \<^verbatim>\<open>Get\<close> nor in \<^verbatim>\<open>Send\<close>.  A waiting thread serves its own list, and
  no wakeup is lost, although one \<^verbatim>\<open>Wait\<close> may consume the wakeup of another.
\<close>

theorem sends_never_deadlock:
  assumes "thread_reachable s" and "blocked s c"
  shows "(\<exists>t s'. serve_step t s s') \<or> (\<exists>t. sendlist s t \<noteq> [] \<and> call_frames s t = [])"
proof (rule ccontr)
  assume "\<not> ?thesis"
  then have stuck: "\<And>t s'. \<not> serve_step t s s'" and served: "\<And>t. call_frames s t = [] \<Longrightarrow> sendlist s t = []" by blast+
  note inv = thread_inv_reachable [OF assms(1)] and wake = wake_invD [OF wake_inv_reachable [OF assms(1)]]
  note at = stuck_thread [OF stuck wake(1)]
  have n: "\<not> notified s t" for t
  proof
    assume "notified s t"
    then obtain c k waited fs where "call_frames s c = Sending k (At_notify t) waited # fs" unfolding notified_def by blast
    then show False using at [of c] by auto
  qed
  have empty: "sendlist s t = []" for t
  proof (rule ccontr)
    assume "sendlist s t \<noteq> []"
    then show False using at [of t] served [of t] wake(3) [of t] n [of t] by auto
  qed
  have waits: "call_frames s t = Sending k pos waited # fs \<Longrightarrow> \<not> ready s k" for t k pos waited fs
    using at [of t] wake(2) [of t] by auto
  define A where "A = {j. j < next_send s \<and> \<not> ready s j \<and> (\<exists>t. j \<in> sm_ready ` set (sent_log s t))}"
  have open_send: "j \<in> A" if "call_frames s t = Sending j pos waited # fs" for t j pos waited fs
    using sending_message [OF inv that] waits [OF that] thread_invD(1) [OF inv] unfolding A_def known_sends_def by blast
  have fin: "finite A" unfolding A_def by simp
  have "A \<noteq> {}" using assms(2) open_send unfolding blocked_def by blast
  then obtain t m where m: "m \<in> set (sent_log s t)" "sm_ready m = Max A" "\<not> ready s (Max A)"
    using Max_in [OF fin] unfolding A_def by auto
  have "m \<notin> set (cleared_log s t)" "m \<notin> set (done_log s t)" using m finished_ready [OF inv, of m t] by auto
  moreover have "m \<in> set (received_log s t)"
  proof -
    have "m \<in> set (filter (\<lambda>m. m \<notin> set (cleared_log s t)) (sent_log s t))" using m(1) calculation(1) by simp
    also have "filter (\<lambda>m. m \<notin> set (cleared_log s t)) (sent_log s t) = received_log s t @ sendlist s t"
      using thread_invD(2) [OF inv] by (simp add: list_order_def)
    finally show ?thesis by (simp add: empty)
  qed
  ultimately have h: "HandleCall m \<in> set (calls s t)" using thread_invD(3) [OF inv] unfolding ready_ok_def by blast
  then obtain f fs where f: "call_frames s t = f # fs" by (cases "call_frames s t") (auto simp: calls_def)
  obtain j pos waited where j: "f = Sending j pos waited"
    using at [of t] f h wake(1) [of t] by (auto simp: calls_def)
  have le: "j \<le> Max A" using open_send f j fin by simp
  have "sorted_wrt later_send (SendCall j # concat (map frame_calls fs))"
    using thread_invD(4) [OF inv] f j unfolding frame_order_def calls_def by (metis append_Cons append_Nil concat.simps(2) frame_calls.simps(1) list.simps(9))
  then have "\<forall>y \<in> set (concat (map frame_calls fs)). later_send (SendCall j) y" unfolding sorted_wrt.simps by (rule conjunct1)
  moreover have "HandleCall m \<in> set (concat (map frame_calls fs))" using h f j by (simp add: calls_def)
  ultimately have "later_send (SendCall j) (HandleCall m)" by blast
  then show False using m(2) le by (simp add: later_send_def)
qed

subsection \<open>Two threads that send to each other\<close>

definition demo_msg :: "nat Message" where
  "demo_msg = \<lparr>phandler = Some 1, message_id = 5, pdata = None, ts_sensitive = 0\<rparr>"

definition steps :: "('d Threads \<Rightarrow> 'd Threads option) list \<Rightarrow> 'd Threads \<Rightarrow> 'd Threads" where
  "steps fs s = foldl (\<lambda>s f. the (f s)) s fs"

text \<open>Thread 0 sends to thread 1 and thread 1 to thread 0; then thread 0 receives in its wait loop and answers.\<close>

definition demo_crossed :: "nat Threads" where
  "demo_crossed = steps [Send_check 0 1 demo_msg, Send_append 0, Send_check 1 0 demo_msg, Send_append 1] Threads_new"

definition demo_answered :: "nat Threads" where
  "demo_answered = steps [Send_notify 0, Send_notify 1, Send_loop 0, Receive_front 0, Receive_done 0] demo_crossed"

lemma reach_serve:
  assumes "thread_reachable s" and "f s \<noteq> None"
    and "f \<in> {Send_append c, Send_notify c, Send_loop c, Send_return c, Receive_front c, Receive_done c, Receive_end c, Wait_return c}"
  shows "thread_reachable (the (f s))"
proof -
  obtain s' where "f s = Some s'" using assms(2) by blast
  then have "serve_step c s s'" using assms(3) by (auto intro: serve_step.intros)
  then show ?thesis using thread_reachable.step [OF assms(1) thread_step.serve] \<open>f s = Some s'\<close> by simp
qed

lemma reach_send:
  assumes "thread_reachable s" and "Send_check c t m s \<noteq> None" and "runs_code s c"
  shows "thread_reachable (the (Send_check c t m s))"
  using thread_reachable.step [OF assms(1) thread_step.send [OF assms(3)]] assms(2) by fastforce

lemmas demo_simps = demo_crossed_def steps_def Send_check_def Send_append_def Send_notify_def Send_loop_def Threads_new_def
  Receive_front_def Receive_done_def Send_return_def runs_code_def Let_def

lemma demo_reachable: "thread_reachable demo_crossed" "thread_reachable demo_answered"
proof -
  show c: "thread_reachable demo_crossed"
    unfolding demo_crossed_def steps_def foldl_Cons foldl_Nil
    by (intro reach_serve [where c = 1 and f = "Send_append 1"] reach_send reach_serve [where c = 0 and f = "Send_append 0"] thread_reachable.init)
      (simp_all add: demo_simps)
  show "thread_reachable demo_answered"
    unfolding demo_answered_def steps_def foldl_Cons foldl_Nil
    by (intro reach_serve [where c = 0 and f = "Receive_done 0"] reach_serve [where c = 0 and f = "Receive_front 0"]
        reach_serve [where c = 0 and f = "Send_loop 0"] reach_serve [where c = 1 and f = "Send_notify 1"]
        reach_serve [where c = 0 and f = "Send_notify 0"] c) (simp_all add: demo_simps)
qed

theorem send_is_synchronous_witness:
  "\<exists>m. m \<in> set (sent_log demo_answered 0) \<and> sm_thread m = 1 \<and>
     (m \<in> set (done_log demo_answered 0) \<or> m \<in> set (cleared_log demo_answered 0))"
proof -
  have r: "Send_return 1 demo_answered \<noteq> None" and
    l: "\<And>t m. m \<in> set (sent_log demo_answered t) \<Longrightarrow> sm_thread m = 1 \<Longrightarrow> t = 0"
    by (auto simp: demo_answered_def demo_simps split: if_splits)
  then obtain s' where s': "Send_return 1 demo_answered = Some s'" by blast
  from send_is_synchronous [OF demo_reachable(2), of 1 s', THEN conjunct1] s' show ?thesis using l by blast
qed

theorem sends_received_in_order_witness:
  "sent_log demo_answered 1 = received_log demo_answered 1 @ sendlist demo_answered 1 \<and> sendlist demo_answered 1 \<noteq> []"
proof -
  have "cleared_log demo_answered 1 = []" "sendlist demo_answered 1 \<noteq> []"
    by (simp_all add: demo_answered_def demo_simps)
  then show ?thesis using sends_received_in_order [OF demo_reachable(2), of 1] by simp
qed

theorem sends_never_deadlock_witness:
  "blocked demo_crossed 0 \<and> blocked demo_crossed 1 \<and> (\<exists>t s'. serve_step t demo_crossed s')"
proof -
  have b: "blocked demo_crossed 0" "blocked demo_crossed 1" by (auto simp: demo_simps blocked_def)
  have "\<not> (\<exists>t. sendlist demo_crossed t \<noteq> [] \<and> call_frames demo_crossed t = [])" by (simp add: demo_simps)
  then show ?thesis using sends_never_deadlock [OF demo_reachable(1) b(1)] b by blast
qed

end
