(* ===== verification/Vz_Signalthread.thy ===== *)
theory Vz_Signalthread
  imports Vz_Socketaddress
begin

text \<open>
  \<^verbatim>\<open>src/src/base/signalthread.{h,cpp}\<close> and the resolver of \<^verbatim>\<open>nethelpers.cpp\<close>: an object of the main
  thread with a worker thread, counted references and a message that reports the end of the
  work.  A method runs under the object's lock, so it is one step; \<open>st_running\<close> says that the
  worker has not yet finished \<^verbatim>\<open>Run\<close>, \<open>st_posted\<close> counts the messages to the object in the queue of the main
  thread, which the destructor of the handler removes.
\<close>

section \<open>Operations\<close>

datatype ST_State = kInit | kRunning | kReleasing | kComplete | kStopping

record SignalThread =
  st_state :: ST_State
  refcount :: int
  st_main :: bool
  st_running :: bool
  st_posted :: nat
  st_deleted :: bool

datatype st_effect = DoWorkStart | WorkerStart | WorkerQuit | DoWorkStop | WorkerStop | DoWorkDone | DoSignalWorkDone | DeleteObject

definition SignalThread_new :: SignalThread where
  "SignalThread_new = \<lparr>st_state = kInit, refcount = 1, st_main = True, st_running = False, st_posted = 0, st_deleted = False\<rparr>"

text \<open>The guard \<^verbatim>\<open>EnterExit\<close> around a method.\<close>

definition enter_exit :: "(SignalThread \<Rightarrow> SignalThread \<times> st_effect list) \<Rightarrow> SignalThread \<Rightarrow> SignalThread \<times> st_effect list" where
  "enter_exit body s =
     (case body (s\<lparr>refcount := refcount s + 1\<rparr>) of (s1, out) \<Rightarrow>
        let s2 = s1\<lparr>refcount := refcount s1 - 1\<rparr> in
        if refcount s2 = 0 then (s2\<lparr>st_deleted := True, st_posted := 0\<rparr>, out @ [DeleteObject]) else (s2, out))"

definition ST_Start :: "SignalThread \<Rightarrow> SignalThread \<times> st_effect list" where
  "ST_Start = enter_exit (\<lambda>s.
     if st_state s = kInit \<or> st_state s = kComplete
     then (s\<lparr>st_state := kRunning, st_running := True\<rparr>, [DoWorkStart, WorkerStart]) else (s, []))"

text \<open>The worker at the end of \<^verbatim>\<open>Run\<close>.\<close>

definition Run_post :: "SignalThread \<Rightarrow> SignalThread \<times> st_effect list" where
  "Run_post = enter_exit (\<lambda>s.
     (s\<lparr>st_running := False, st_posted := (if st_main s then Suc (st_posted s) else st_posted s)\<rparr>, []))"

definition ST_Destroy :: "bool \<Rightarrow> SignalThread \<Rightarrow> SignalThread \<times> st_effect list" where
  "ST_Destroy wait = enter_exit (\<lambda>s.
     if st_state s = kInit \<or> st_state s = kComplete then (s\<lparr>refcount := refcount s - 1\<rparr>, [])
     else if st_state s = kRunning \<or> st_state s = kReleasing then
       (let s1 = s\<lparr>st_state := kStopping\<rparr>; out = [WorkerQuit, DoWorkStop] in
        if wait then
          (let (s2, out2) = (if st_running s1 then Run_post s1 else (s1, []))
           in (s2\<lparr>refcount := refcount s2 - 1\<rparr>, out @ out2 @ [WorkerStop]))
        else (s1, out))
     else (s, []))"

definition ST_Release :: "SignalThread \<Rightarrow> SignalThread \<times> st_effect list" where
  "ST_Release = enter_exit (\<lambda>s.
     if st_state s = kComplete then (s\<lparr>refcount := refcount s - 1\<rparr>, [])
     else if st_state s = kRunning then (s\<lparr>st_state := kReleasing\<rparr>, [])
     else (s, []))"

text \<open>The main thread takes \<^verbatim>\<open>ST_MSG_WORKER_DONE\<close> off its queue.\<close>

definition ST_OnMessage :: "SignalThread \<Rightarrow> SignalThread \<times> st_effect list" where
  "ST_OnMessage s0 = enter_exit (\<lambda>s.
     let do_delete = (st_state s \<noteq> kRunning);
         s1 = (if st_state s = kRunning then s\<lparr>st_state := kComplete\<rparr> else s);
         out = DoWorkDone # (if st_state s1 \<noteq> kStopping then [WorkerStop, DoSignalWorkDone] else [])
     in (if do_delete then s1\<lparr>refcount := refcount s1 - 1\<rparr> else s1, out)) (s0\<lparr>st_posted := st_posted s0 - 1\<rparr>)"

definition OnMainThreadDestroyed :: "SignalThread \<Rightarrow> SignalThread \<times> st_effect list" where
  "OnMainThreadDestroyed s0 = enter_exit (\<lambda>s. (s\<lparr>st_main := False\<rparr>, [])) (s0\<lparr>st_posted := 0\<rparr>)"

text \<open>
  \<^verbatim>\<open>ResolveHostname\<close> and the two callbacks of \<^verbatim>\<open>AsyncResolver\<close>; \<open>getaddrinfo\<close> is the system's resolver: an
  error code, or the families and addresses it found.
\<close>

definition ResolveHostname :: "(string \<Rightarrow> int + (address_family \<times> IPAddress option) list) \<Rightarrow> string \<Rightarrow> address_family \<Rightarrow> int \<times> IPAddress list" where
  "ResolveHostname getaddrinfo name fam = (case getaddrinfo name of
      Inl ret \<Rightarrow> (ret, [])
    | Inr infos \<Rightarrow> (0, List.map_filter (\<lambda>(f, ip). if fam = AF_UNSPEC \<or> f = fam then ip else None) infos))"

definition AsyncResolver_DoWork ::
  "(string \<Rightarrow> int + (address_family \<times> IPAddress option) list) \<Rightarrow> SocketAddress \<Rightarrow> int \<times> IPAddress list" where
  "AsyncResolver_DoWork getaddrinfo addr = ResolveHostname getaddrinfo (cstr (hostname addr)) (family (sa_ip addr))"

definition AsyncResolver_OnWorkDone :: "IPAddress list \<Rightarrow> SocketAddress \<Rightarrow> SocketAddress" where
  "AsyncResolver_OnWorkDone addresses addr = (case addresses of ip # _ \<Rightarrow> SetIP ip addr | [] \<Rightarrow> addr)"

section \<open>The life of the object\<close>

inductive st_step :: "SignalThread \<Rightarrow> st_effect list \<Rightarrow> SignalThread \<Rightarrow> bool" where
  "\<not> st_deleted s \<Longrightarrow> ST_Start s = (s', out) \<Longrightarrow> st_step s out s'"
| "\<not> st_deleted s \<Longrightarrow> ST_Destroy wait s = (s', out) \<Longrightarrow> st_step s out s'"
| "\<not> st_deleted s \<Longrightarrow> ST_Release s = (s', out) \<Longrightarrow> st_step s out s'"
| "st_running s \<Longrightarrow> Run_post s = (s', out) \<Longrightarrow> st_step s out s'"
| "0 < st_posted s \<Longrightarrow> ST_OnMessage s = (s', out) \<Longrightarrow> st_step s out s'"
| "st_main s \<Longrightarrow> \<not> st_deleted s \<Longrightarrow> OnMainThreadDestroyed s = (s', out) \<Longrightarrow> st_step s out s'"

inductive st_run :: "st_effect list \<Rightarrow> SignalThread \<Rightarrow> bool" where
  "st_run [] SignalThread_new"
| "st_run es s \<Longrightarrow> st_step s out s' \<Longrightarrow> st_run (es @ out) s'"

definition st_ok :: "SignalThread \<Rightarrow> bool" where
  "st_ok s \<longleftrightarrow>
     (if st_deleted s then refcount s = 0 \<and> \<not> st_running s \<and> st_posted s = 0
      else refcount s = 1 \<and>
        (if st_state s = kInit \<or> st_state s = kComplete then \<not> st_running s \<and> st_posted s = 0
         else st_posted s = (if \<not> st_running s \<and> st_main s then 1 else 0)))"

lemma enter_exit_alive:
  assumes "body (s\<lparr>refcount := refcount s + 1\<rparr>) = (s1, out1)" and "refcount s1 = 2" and "enter_exit body s = (s', out)"
  shows "s' = s1\<lparr>refcount := 1\<rparr> \<and> out = out1"
  using assms by (simp add: enter_exit_def Let_def)

lemma enter_exit_last:
  assumes "body (s\<lparr>refcount := refcount s + 1\<rparr>) = (s1, out1)" and "refcount s1 = 1" and "enter_exit body s = (s', out)"
  shows "s' = s1\<lparr>refcount := 0, st_deleted := True, st_posted := 0\<rparr> \<and> out = out1 @ [DeleteObject]"
  using assms by (simp add: enter_exit_def Let_def)

lemmas st_ops = ST_Start_def ST_Destroy_def ST_Release_def ST_OnMessage_def OnMainThreadDestroyed_def Run_post_def enter_exit_def Let_def

text \<open>A step of an object keeps it well-formed, happens to a live object only, and deletes it at most once.\<close>

definition st_good :: "SignalThread \<Rightarrow> st_effect list \<Rightarrow> SignalThread \<Rightarrow> bool" where
  "st_good s out s' \<longleftrightarrow> \<not> st_deleted s \<and> st_ok s' \<and> count_list out DeleteObject = (if st_deleted s' then 1 else 0)"

lemma st_good_Start: "st_ok s \<Longrightarrow> \<not> st_deleted s \<Longrightarrow> ST_Start s = (s', out) \<Longrightarrow> st_good s out s'"
  by (cases "st_state s") (auto simp: st_ops st_ok_def st_good_def)

lemma Destroy_idle:
  assumes "st_ok s" and "\<not> st_deleted s" and "st_state s = kInit \<or> st_state s = kComplete"
  shows "ST_Destroy wait s = (s\<lparr>refcount := 0, st_deleted := True, st_posted := 0\<rparr>, [DeleteObject])"
  using assms by (auto simp: ST_Destroy_def enter_exit_def Let_def st_ok_def)

lemma Run_post_eq:
  assumes "refcount s = rc" and "0 < rc"
  shows "Run_post s = (s\<lparr>st_running := False, st_posted := (if st_main s then Suc (st_posted s) else st_posted s)\<rparr>, [])"
  using assms by (simp add: Run_post_def enter_exit_def Let_def)

lemma Destroy_busy:
  assumes "st_ok s" and "\<not> st_deleted s" and "st_state s = kRunning \<or> st_state s = kReleasing"
  shows "ST_Destroy wait s =
    (if wait then (s\<lparr>st_state := kStopping, st_running := False, refcount := 0, st_deleted := True, st_posted := 0\<rparr>,
        [WorkerQuit, DoWorkStop, WorkerStop, DeleteObject])
     else (s\<lparr>st_state := kStopping\<rparr>, [WorkerQuit, DoWorkStop]))"
proof -
  have "refcount s = 1" using assms(1,2) by (simp add: st_ok_def)
  then show ?thesis
    using assms(3) by (auto simp: ST_Destroy_def enter_exit_def Let_def Run_post_eq)
qed

lemma st_good_Destroy:
  assumes "st_ok s" and "\<not> st_deleted s" and "ST_Destroy wait s = (s', out)"
  shows "st_good s out s'"
proof (cases "st_state s = kStopping")
  case True
  then have "s' = s\<lparr>refcount := refcount s\<rparr>" "out = []" using assms by (auto simp: ST_Destroy_def enter_exit_def st_ok_def)
  then show ?thesis using assms(1,2) by (simp add: st_good_def)
next
  case False
  then consider "st_state s = kInit \<or> st_state s = kComplete" | "st_state s = kRunning \<or> st_state s = kReleasing"
    by (cases "st_state s") auto
  then show ?thesis
  proof cases
    case 1
    have "(s', out) = (s\<lparr>refcount := 0, st_deleted := True, st_posted := 0\<rparr>, [DeleteObject])"
      unfolding assms(3) [symmetric] by (rule Destroy_idle [OF assms(1,2) 1])
    moreover have "\<not> st_running s" using 1 assms(1,2) by (auto simp: st_ok_def)
    ultimately show ?thesis using assms(2) by (simp add: st_good_def st_ok_def)
  next
    case 2
    note d = Destroy_busy [OF assms(1,2) 2, of wait, unfolded assms(3)]
    have "refcount s = 1" "st_posted s = (if \<not> st_running s \<and> st_main s then 1 else 0)"
      using 2 assms(1,2) by (auto simp: st_ok_def)
    then show ?thesis using d assms(2) by (cases wait) (simp_all add: st_good_def st_ok_def)
  qed
qed

lemma st_good_Release: "st_ok s \<Longrightarrow> \<not> st_deleted s \<Longrightarrow> ST_Release s = (s', out) \<Longrightarrow> st_good s out s'"
  by (cases "st_state s") (auto simp: st_ops st_ok_def st_good_def)

lemma st_good_Run: "st_ok s \<Longrightarrow> st_running s \<Longrightarrow> Run_post s = (s', out) \<Longrightarrow> st_good s out s'"
  by (cases "st_state s") (auto simp: st_ops st_ok_def st_good_def split: if_splits)

lemma st_good_OnMessage: "st_ok s \<Longrightarrow> 0 < st_posted s \<Longrightarrow> ST_OnMessage s = (s', out) \<Longrightarrow> st_good s out s'"
  by (cases "st_state s") (auto simp: st_ops st_ok_def st_good_def split: if_splits)

lemma st_good_main:
  "st_ok s \<Longrightarrow> \<not> st_deleted s \<Longrightarrow> OnMainThreadDestroyed s = (s', out) \<Longrightarrow> st_good s out s'"
  by (cases "st_state s") (auto simp: st_ops st_ok_def st_good_def split: if_splits)

lemma st_good_step: "st_step s out s' \<Longrightarrow> st_ok s \<Longrightarrow> st_good s out s'"
  by (induction rule: st_step.induct)
     (blast intro: st_good_Start st_good_Destroy st_good_Release st_good_Run st_good_OnMessage st_good_main)+



end
