(* ===== verification/Vz_Stream.thy ===== *)
theory Vz_Stream
  imports Vz_Prelude
begin

text \<open>
  \<^verbatim>\<open>src/src/base/stream.{h,cpp}\<close>: the streams in memory.  \<^verbatim>\<open>FifoBuffer\<close> is a ring buffer that refines a
  bounded queue of bytes (the locale \<open>bounded_queue\<close>); \<^verbatim>\<open>MemoryStream\<close> and \<^verbatim>\<open>StringStream\<close> are byte arrays with
  a position; \<^verbatim>\<open>WriteAll\<close>, \<^verbatim>\<open>ReadAll\<close>, \<^verbatim>\<open>ReadLine\<close> and \<^verbatim>\<open>Flow\<close> run over any stream, whose
  operations are arguments.  A null pointer for a count is left out: it only drops the count.
\<close>

datatype StreamResult = SR_ERROR | SR_SUCCESS | SR_BLOCK | SR_EOS

datatype StreamState = SS_CLOSED | SS_OPENING | SS_OPEN

datatype stream_event = SE_OPEN | SE_READ | SE_WRITE | SE_CLOSE

section \<open>FifoBuffer\<close>

record FifoBuffer =
  ff_state :: StreamState
  ff_buffer :: bytes
  ff_length :: nat
  ff_data :: nat
  ff_pos :: nat

text \<open>The new block is not initialised: \<open>block\<close> is what it holds.\<close>

definition FifoBuffer_new :: "bytes \<Rightarrow> FifoBuffer" where
  "FifoBuffer_new block = \<lparr>ff_state = SS_OPEN, ff_buffer = block, ff_length = length block, ff_data = 0, ff_pos = 0\<rparr>"

definition GetBuffered :: "FifoBuffer \<Rightarrow> nat" where
  "GetBuffered f = ff_data f"

definition SetCapacity :: "bytes \<Rightarrow> FifoBuffer \<Rightarrow> bool \<times> FifoBuffer" where
  "SetCapacity block f =
     (let nsize = length block in
      if ff_data f > nsize then (False, f)
      else if nsize \<noteq> ff_length f then
        (let copy = ff_data f; tail_copy = min copy (ff_length f - ff_pos f);
             b1 = write_at 0 (take tail_copy (drop (ff_pos f) (ff_buffer f))) block;
             b2 = write_at tail_copy (take (copy - tail_copy) (ff_buffer f)) b1
         in (True, f\<lparr>ff_buffer := b2, ff_pos := 0, ff_length := nsize\<rparr>))
      else (True, f))"

definition ReadOffsetLocked :: "nat \<Rightarrow> nat \<Rightarrow> FifoBuffer \<Rightarrow> StreamResult \<times> bytes" where
  "ReadOffsetLocked n offset f =
     (if offset \<ge> ff_data f then (if ff_state f \<noteq> SS_CLOSED then SR_BLOCK else SR_EOS, [])
      else let available = ff_data f - offset; read_position = (ff_pos f + offset) mod ff_length f;
               copy = min n available; tail_copy = min copy (ff_length f - read_position)
           in (SR_SUCCESS, take tail_copy (drop read_position (ff_buffer f)) @ take (copy - tail_copy) (ff_buffer f)))"

definition WriteOffsetLocked :: "bytes \<Rightarrow> nat \<Rightarrow> FifoBuffer \<Rightarrow> StreamResult \<times> nat \<times> FifoBuffer" where
  "WriteOffsetLocked data offset f =
     (if ff_state f = SS_CLOSED then (SR_EOS, 0, f)
      else if ff_data f + offset \<ge> ff_length f then (SR_BLOCK, 0, f)
      else let available = ff_length f - ff_data f - offset;
               write_position = (ff_pos f + ff_data f + offset) mod ff_length f;
               copy = min (length data) available; tail_copy = min copy (ff_length f - write_position);
               b1 = write_at write_position (take tail_copy data) (ff_buffer f);
               b2 = write_at 0 (take (copy - tail_copy) (drop tail_copy data)) b1
           in (SR_SUCCESS, copy, f\<lparr>ff_buffer := b2\<rparr>))"

definition Fifo_Read :: "nat \<Rightarrow> FifoBuffer \<Rightarrow> StreamResult \<times> bytes \<times> FifoBuffer \<times> stream_event list" where
  "Fifo_Read n f =
     (let was_writable = (ff_data f < ff_length f) in
      case ReadOffsetLocked n 0 f of (result, data) \<Rightarrow>
        if result = SR_SUCCESS
        then (result, data,
              f\<lparr>ff_pos := (ff_pos f + length data) mod ff_length f, ff_data := ff_data f - length data\<rparr>,
              if \<not> was_writable \<and> length data > 0 then [SE_WRITE] else [])
        else (result, [], f, []))"

definition Fifo_Write :: "bytes \<Rightarrow> FifoBuffer \<Rightarrow> StreamResult \<times> nat \<times> FifoBuffer \<times> stream_event list" where
  "Fifo_Write data f =
     (let was_readable = (ff_data f > 0) in
      case WriteOffsetLocked data 0 f of (result, copy, f1) \<Rightarrow>
        if result = SR_SUCCESS
        then (result, copy, f1\<lparr>ff_data := ff_data f + copy\<rparr>, if \<not> was_readable \<and> copy > 0 then [SE_READ] else [])
        else (result, 0, f1, []))"

definition Fifo_Close :: "FifoBuffer \<Rightarrow> FifoBuffer" where
  "Fifo_Close f = f\<lparr>ff_state := SS_CLOSED\<rparr>"

text \<open>The position and size of the block that can be read, and of the one that can be written.\<close>

definition GetReadData :: "FifoBuffer \<Rightarrow> nat \<times> nat" where
  "GetReadData f =
     (ff_pos f, if ff_pos f + ff_data f \<le> ff_length f then ff_data f else ff_length f - ff_pos f)"

definition ConsumeReadData :: "nat \<Rightarrow> FifoBuffer \<Rightarrow> FifoBuffer \<times> stream_event list" where
  "ConsumeReadData n f =
     (f\<lparr>ff_pos := (ff_pos f + n) mod ff_length f, ff_data := ff_data f - n\<rparr>,
      if \<not> ff_data f < ff_length f \<and> n > 0 then [SE_WRITE] else [])"

definition GetWriteBuffer :: "FifoBuffer \<Rightarrow> (nat \<times> nat) option \<times> FifoBuffer" where
  "GetWriteBuffer f =
     (if ff_state f = SS_CLOSED then (None, f)
      else let f1 = (if ff_data f = 0 then f\<lparr>ff_pos := 0\<rparr> else f);
               write_position = (ff_pos f1 + ff_data f1) mod ff_length f1
           in (Some (write_position,
                 if write_position > ff_pos f1 \<or> ff_data f1 = 0 then ff_length f1 - write_position
                 else ff_pos f1 - write_position), f1))"

definition ConsumeWriteBuffer :: "nat \<Rightarrow> FifoBuffer \<Rightarrow> FifoBuffer \<times> stream_event list" where
  "ConsumeWriteBuffer n f =
     (f\<lparr>ff_data := ff_data f + n\<rparr>, if \<not> ff_data f > 0 \<and> n > 0 then [SE_READ] else [])"

definition GetWriteRemaining :: "FifoBuffer \<Rightarrow> nat" where
  "GetWriteRemaining f = ff_length f - ff_data f"

section \<open>The ring as a queue\<close>

definition fifo_ok :: "FifoBuffer \<Rightarrow> bool" where
  "fifo_ok f \<longleftrightarrow> length (ff_buffer f) = ff_length f \<and> ff_data f \<le> ff_length f \<and>
     (ff_pos f < ff_length f \<or> ff_pos f = 0 \<and> ff_length f = 0)"

definition fifo_content :: "FifoBuffer \<Rightarrow> bytes" where
  "fifo_content f = take (ff_data f) (drop (ff_pos f) (ff_buffer f) @ take (ff_pos f) (ff_buffer f))"

lemma nth_write_at:
  "off + length xs \<le> length mem \<Longrightarrow> i < length mem \<Longrightarrow>
   write_at off xs mem ! i = (if off \<le> i \<and> i < off + length xs then xs ! (i - off) else mem ! i)"
  by (auto simp: write_at_def nth_append)

text \<open>Reading and writing a piece that may wrap around the end of the ring.\<close>

lemma ring_read_nth:
  assumes "p < length b" and "n \<le> length b" and "i < n" and "t = min n (length b - p)"
  shows "(take t (drop p b) @ take (n - t) b) ! i = b ! ((p + i) mod length b)"
proof (cases "p + i < length b")
  case True
  then show ?thesis using assms by (auto simp: nth_append)
next
  case False
  then have "(p + i) mod length b = p + i - length b" using assms by (simp add: mod_if)
  moreover have "t = length b - p" "t \<le> i" "i - t < n - t" using assms False by auto
  ultimately show ?thesis using assms(1,2) False by (simp add: nth_append add.commute)
qed

lemma ring_write_nth:
  assumes "p < length b" and "n \<le> length b" and "n \<le> length d" and "t = min n (length b - p)" and "i < length b"
  shows "write_at 0 (take (n - t) (drop t d)) (write_at p (take t d) b) ! ((p + i) mod length b) =
    (if i < n then d ! i else b ! ((p + i) mod length b))"
proof -
  have l: "p + t \<le> length b" "length (take t d) = t" "length (take (n - t) (drop t d)) = n - t" using assms by auto
  then have b1: "length (write_at p (take t d) b) = length b" by simp
  have n: "n - t \<le> length b" using assms(2) by simp
  show ?thesis
  proof (cases "p + i < length b")
    case True
    have inner: "write_at p (take t d) b ! (p + i) = (if i < t then take t d ! i else b ! (p + i))"
      using nth_write_at [of p "take t d" b "p + i", unfolded l(2)] l(1) True by simp
    have "n - t \<le> p + i" "i < t \<longleftrightarrow> i < n" using True assms(1,2,4) by auto
    then show ?thesis
      using nth_write_at [of 0 "take (n - t) (drop t d)" "write_at p (take t d) b" "p + i"] inner l b1 n True by simp
  next
    case False
    define j where "j = p + i - length b"
    have j: "(p + i) mod length b = j" "j < p" "j < length b" using False assms(1,5) by (auto simp: mod_if j_def)
    have inner: "write_at p (take t d) b ! j = b ! j"
      using nth_write_at [of p "take t d" b j] l j by simp
    have k: "j < n - t \<longleftrightarrow> i < n" "i < n \<Longrightarrow> t + j = i" using False assms(1,2,4,5) by (auto simp: j_def)
    have "write_at 0 (take (n - t) (drop t d)) (write_at p (take t d) b) ! j =
      (if j < n - t then take (n - t) (drop t d) ! j else b ! j)"
      using nth_write_at [of 0 "take (n - t) (drop t d)" "write_at p (take t d) b" j, unfolded l(3)] inner b1 n j by simp
    moreover have "t \<le> length d" using assms(3,4) by simp
    ultimately show ?thesis using k j(1) assms(3) by simp
  qed
qed

lemma ring_write_length:
  assumes "p < length b" and "n \<le> length b" and "n \<le> length d" and "t = min n (length b - p)"
  shows "length (write_at 0 (take (n - t) (drop t d)) (write_at p (take t d) b)) = length b"
proof -
  have "p + length (take t d) \<le> length b" "0 + length (take (n - t) (drop t d)) \<le> length b" using assms by auto
  then show ?thesis by simp
qed

lemma fifo_content_length: "fifo_ok f \<Longrightarrow> length (fifo_content f) = ff_data f"
  by (auto simp: fifo_content_def fifo_ok_def)

text \<open>The byte number \<open>i\<close> of the content is at the position \<open>ff_pos + i\<close> of the ring.\<close>

lemma fifo_content_nth:
  assumes "fifo_ok f" and "i < ff_data f"
  shows "fifo_content f ! i = ff_buffer f ! ((ff_pos f + i) mod ff_length f)"
proof -
  have ok: "length (ff_buffer f) = ff_length f" "ff_pos f < ff_length f" "i < ff_length f"
    using assms by (auto simp: fifo_ok_def)
  then have "fifo_content f = take (ff_data f) (rotate (ff_pos f) (ff_buffer f))"
    by (simp add: fifo_content_def rotate_drop_take)
  then show ?thesis using assms(2) ok by (simp add: nth_rotate)
qed

lemma ReadOffset_content:
  assumes "fifo_ok f" and "offset < ff_data f"
  shows "ReadOffsetLocked n offset f = (SR_SUCCESS, take n (drop offset (fifo_content f)))"
proof -
  define p where "p = (ff_pos f + offset) mod ff_length f"
  define c where "c = min n (ff_data f - offset)"
  define t where "t = min c (length (ff_buffer f) - p)"
  have ok: "length (ff_buffer f) = ff_length f" "ff_data f \<le> ff_length f" "0 < ff_length f"
    using assms by (auto simp: fifo_ok_def)
  have p: "p < length (ff_buffer f)" and c: "c \<le> length (ff_buffer f)" using ok by (simp_all add: p_def c_def)
  have "take t (drop p (ff_buffer f)) @ take (c - t) (ff_buffer f) = take n (drop offset (fifo_content f))"
  proof (rule nth_equalityI)
    have "t \<le> c" "t \<le> length (ff_buffer f) - p" by (simp_all add: t_def)
    then have lc: "length (take t (drop p (ff_buffer f)) @ take (c - t) (ff_buffer f)) = c" using c by simp
    then show "length (take t (drop p (ff_buffer f)) @ take (c - t) (ff_buffer f)) = length (take n (drop offset (fifo_content f)))"
      using fifo_content_length [OF assms(1)] by (simp add: c_def min.commute)
    fix i
    assume "i < length (take t (drop p (ff_buffer f)) @ take (c - t) (ff_buffer f))"
    then have i: "i < c" unfolding lc .
    have "(take t (drop p (ff_buffer f)) @ take (c - t) (ff_buffer f)) ! i = ff_buffer f ! ((p + i) mod ff_length f)"
      using ring_read_nth [OF p c i t_def] ok(1) by simp
    also have "(p + i) mod ff_length f = (ff_pos f + (offset + i)) mod ff_length f"
      by (simp add: p_def mod_add_left_eq add.assoc)
    also have "ff_buffer f ! \<dots> = take n (drop offset (fifo_content f)) ! i"
      using fifo_content_nth [OF assms(1), of "offset + i"] i fifo_content_length [OF assms(1)] assms(2)
      by (simp add: c_def less_diff_conv add.commute)
    finally show "(take t (drop p (ff_buffer f)) @ take (c - t) (ff_buffer f)) ! i = take n (drop offset (fifo_content f)) ! i" .
  qed
  then show ?thesis
    using assms(2) ok(1) by (simp add: ReadOffsetLocked_def Let_def p_def c_def t_def)
qed

lemma fifo_drop:
  assumes "fifo_ok f" and "n \<le> ff_data f" and "f' = f\<lparr>ff_pos := (ff_pos f + n) mod ff_length f, ff_data := ff_data f - n\<rparr>"
    and "0 < ff_length f"
  shows "fifo_ok f' \<and> fifo_content f' = drop n (fifo_content f)"
proof -
  have ok: "fifo_ok f'" using assms by (auto simp: fifo_ok_def)
  have "fifo_content f' = drop n (fifo_content f)"
  proof (rule nth_equalityI)
    show "length (fifo_content f') = length (drop n (fifo_content f))"
      using fifo_content_length [OF ok] fifo_content_length [OF assms(1)] assms(3) by simp
    fix i
    assume "i < length (fifo_content f')"
    then have i: "i < ff_data f - n" "i < ff_data f'" using fifo_content_length [OF ok] assms(3) by simp_all
    have "fifo_content f' ! i = ff_buffer f ! (((ff_pos f + n) mod ff_length f + i) mod ff_length f)"
      using fifo_content_nth [OF ok i(2)] assms(3) by simp
    also have "\<dots> = ff_buffer f ! ((ff_pos f + (n + i)) mod ff_length f)" by (simp add: mod_add_left_eq add.assoc)
    also have "\<dots> = drop n (fifo_content f) ! i"
      using fifo_content_nth [OF assms(1), of "n + i"] i fifo_content_length [OF assms(1)] by simp
    finally show "fifo_content f' ! i = drop n (fifo_content f) ! i" .
  qed
  then show ?thesis using ok by simp
qed

lemma WriteOffset_content:
  assumes "fifo_ok f" and "ff_state f \<noteq> SS_CLOSED" and "ff_data f < ff_length f"
    and "c = min (length data) (ff_length f - ff_data f)"
  shows "\<exists>f'. WriteOffsetLocked data 0 f = (SR_SUCCESS, c, f') \<and> ff_data f' = ff_data f \<and> ff_length f' = ff_length f \<and>
    ff_state f' = ff_state f \<and>
    fifo_ok (f'\<lparr>ff_data := ff_data f + c\<rparr>) \<and>
    fifo_content (f'\<lparr>ff_data := ff_data f + c\<rparr>) = fifo_content f @ take c data"
proof -
  define L where "L = length (ff_buffer f)"
  define p where "p = (ff_pos f + ff_data f) mod L"
  define t where "t = min c (length (ff_buffer f) - p)"
  define b where "b = write_at 0 (take (c - t) (drop t data)) (write_at p (take t data) (ff_buffer f))"
  define f' where "f' = f\<lparr>ff_buffer := b\<rparr>"
  define g where "g = f'\<lparr>ff_data := ff_data f + c\<rparr>"
  have L: "ff_length f = L" "0 < L" "ff_data f < L" "ff_pos f < L" using assms(1,3) by (auto simp: fifo_ok_def L_def)
  have p: "p < length (ff_buffer f)" "c \<le> length (ff_buffer f)" "c \<le> length data"
    using L assms(4) by (simp_all add: p_def L_def [symmetric])
  have "length b = L" unfolding b_def L_def by (rule ring_write_length [OF p t_def])
  then have ok: "fifo_ok g" using assms(1,4) L by (auto simp: fifo_ok_def g_def f'_def)
  have nth: "b ! ((p + i) mod L) = (if i < c then data ! i else ff_buffer f ! ((p + i) mod L))" if "i < L" for i
    unfolding b_def L_def using ring_write_nth [OF p t_def] that unfolding L_def by simp
  have "fifo_content g = fifo_content f @ take c data"
  proof (rule nth_equalityI)
    show "length (fifo_content g) = length (fifo_content f @ take c data)"
      using fifo_content_length [OF ok] fifo_content_length [OF assms(1)] p(3) by (simp add: g_def)
    fix i
    assume "i < length (fifo_content g)"
    then have i: "i < ff_data f + c" "i < ff_data g" using fifo_content_length [OF ok] by (simp_all add: g_def)
    have g: "fifo_content g ! i = b ! ((ff_pos f + i) mod L)"
      using fifo_content_nth [OF ok i(2)] L(1) by (simp add: g_def f'_def)
    show "fifo_content g ! i = (fifo_content f @ take c data) ! i"
    proof (cases "i < ff_data f")
      case True
      define k where "k = L - ff_data f + i"
      have "(p + k) mod L = (ff_pos f + ff_data f + k) mod L" by (simp add: p_def mod_add_left_eq)
      also have "ff_pos f + ff_data f + k = ff_pos f + i + L" using L(3) by (simp add: k_def)
      finally have "(p + k) mod L = (ff_pos f + i) mod L" by simp
      moreover have "k < L" "\<not> k < c" using True L assms(4) by (auto simp: k_def)
      ultimately have "fifo_content g ! i = ff_buffer f ! ((ff_pos f + i) mod L)" using g nth [of k] by simp
      then show ?thesis
        using fifo_content_nth [OF assms(1) True] True L(1) fifo_content_length [OF assms(1)] by (simp add: nth_append)
    next
      case False
      have "(p + (i - ff_data f)) mod L = (ff_pos f + ff_data f + (i - ff_data f)) mod L" by (simp add: p_def mod_add_left_eq)
      then have "(p + (i - ff_data f)) mod L = (ff_pos f + i) mod L" using False by simp
      moreover have "i - ff_data f < L" "i - ff_data f < c" using i(1) False p(2) by (auto simp: L_def)
      ultimately have "fifo_content g ! i = data ! (i - ff_data f)" using g nth [of "i - ff_data f"] by simp
      then show ?thesis
        using False fifo_content_length [OF assms(1)] \<open>i - ff_data f < c\<close> by (simp add: nth_append)
    qed
  qed
  moreover have "WriteOffsetLocked data 0 f = (SR_SUCCESS, c, f')"
    using assms(2,3) unfolding WriteOffsetLocked_def Let_def f'_def b_def t_def p_def L(1) [unfolded L_def] L_def assms(4)
    by simp
  ultimately show ?thesis using ok by (auto simp: g_def f'_def)
qed

text \<open>Reading consumes the front of the content, writing appends what fits.\<close>

lemma Fifo_Read_content:
  assumes "fifo_ok f"
  shows "case Fifo_Read n f of (r, d, f', ev) \<Rightarrow>
    fifo_ok f' \<and> ff_length f' = ff_length f \<and> ff_state f' = ff_state f \<and> d = take n (fifo_content f) \<and>
    fifo_content f' = drop n (fifo_content f) \<and>
    r = (if fifo_content f \<noteq> [] then SR_SUCCESS else if ff_state f \<noteq> SS_CLOSED then SR_BLOCK else SR_EOS)"
proof (cases "ff_data f = 0")
  case True
  then have "fifo_content f = []" using fifo_content_length [OF assms] by simp
  then show ?thesis using True assms by (simp add: Fifo_Read_def ReadOffsetLocked_def)
next
  case False
  have ne: "fifo_content f \<noteq> []" using fifo_content_length [OF assms] False by auto
  have L: "0 < ff_length f" using False assms by (auto simp: fifo_ok_def)
  define d where "d = take n (fifo_content f)"
  have r: "ReadOffsetLocked n 0 f = (SR_SUCCESS, d)" using ReadOffset_content [OF assms, of 0 n] False by (simp add: d_def)
  have ld: "length d = min n (ff_data f)" using fifo_content_length [OF assms] by (simp add: d_def min.commute)
  then have "length d \<le> ff_data f" by simp
  note drop = fifo_drop [OF assms this refl L]
  have "drop (length d) (fifo_content f) = drop n (fifo_content f)"
    using ld fifo_content_length [OF assms] by (simp add: min_def)
  then show ?thesis using drop ne by (simp add: Fifo_Read_def Let_def r d_def [symmetric])
qed

lemma Fifo_Write_content:
  assumes "fifo_ok f" and "ff_state f \<noteq> SS_CLOSED"
  shows "case Fifo_Write data f of (r, c, f', ev) \<Rightarrow>
    fifo_ok f' \<and> ff_length f' = ff_length f \<and> ff_state f' = ff_state f \<and>
    c = min (length data) (ff_length f - length (fifo_content f)) \<and>
    fifo_content f' = fifo_content f @ take c data \<and>
    r = (if length (fifo_content f) < ff_length f then SR_SUCCESS else SR_BLOCK)"
proof (cases "ff_data f < ff_length f")
  case True
  from WriteOffset_content [OF assms True refl, of data] obtain f' where
    f': "WriteOffsetLocked data 0 f = (SR_SUCCESS, min (length data) (ff_length f - ff_data f), f')"
      "ff_data f' = ff_data f" "ff_length f' = ff_length f" "ff_state f' = ff_state f"
      "fifo_ok (f'\<lparr>ff_data := ff_data f + min (length data) (ff_length f - ff_data f)\<rparr>)"
      "fifo_content (f'\<lparr>ff_data := ff_data f + min (length data) (ff_length f - ff_data f)\<rparr>) =
         fifo_content f @ take (min (length data) (ff_length f - ff_data f)) data" by blast
  show ?thesis
    using True f'(3-6) fifo_content_length [OF assms(1)] unfolding Fifo_Write_def Let_def f'(1) by simp
next
  case False
  then have "ff_data f = ff_length f" using assms(1) by (auto simp: fifo_ok_def)
  then show ?thesis using assms fifo_content_length [OF assms(1)] by (simp add: Fifo_Write_def WriteOffsetLocked_def)
qed

lemma SetCapacity_content:
  assumes "fifo_ok f" and "ff_data f \<le> length block"
  shows "\<exists>f'. SetCapacity block f = (True, f') \<and> fifo_ok f' \<and> ff_length f' = length block \<and>
    fifo_content f' = fifo_content f"
proof (cases "length block = ff_length f")
  case True
  then show ?thesis using assms by (simp add: SetCapacity_def)
next
  case False
  define t where "t = min (ff_data f) (ff_length f - ff_pos f)"
  define b where "b = write_at t (take (ff_data f - t) (ff_buffer f)) (write_at 0 (take t (drop (ff_pos f) (ff_buffer f))) block)"
  have ok: "length (ff_buffer f) = ff_length f" "ff_data f \<le> ff_length f" "ff_pos f \<le> ff_length f"
    using assms(1) by (auto simp: fifo_ok_def)
  have t: "t \<le> ff_data f" "t \<le> ff_length f - ff_pos f" by (simp_all add: t_def)
  define xs where "xs = take t (drop (ff_pos f) (ff_buffer f))"
  define ys where "ys = take (ff_data f - t) (ff_buffer f)"
  have l: "length xs = t" "length ys = ff_data f - t" using t ok by (simp_all add: xs_def ys_def)
  have b: "b = xs @ ys @ drop (ff_data f) block"
    using l t by (simp add: b_def write_at_def xs_def [symmetric] ys_def [symmetric])
  have c: "fifo_content f = xs @ ys"
    using ok by (auto simp: fifo_content_def xs_def ys_def t_def min_def)
  define f' where "f' = f\<lparr>ff_buffer := b, ff_pos := 0, ff_length := length block\<rparr>"
  have "SetCapacity block f = (True, f')"
    using assms(2) False by (simp add: SetCapacity_def Let_def f'_def b_def t_def)
  moreover have "fifo_ok f'" using l t assms(2) by (auto simp: fifo_ok_def f'_def b)
  moreover have "fifo_content f' = take (ff_data f) b" by (simp add: fifo_content_def f'_def)
  then have "fifo_content f' = fifo_content f" using l t unfolding b c by simp
  ultimately show ?thesis by (intro exI [of _ f']) (simp add: f'_def)
qed

section \<open>The contract of a byte queue\<close>

text \<open>
  What a bounded queue promises to its users: the operations of the implementation are \<open>rd\<close>, \<open>wr\<close>, \<open>rs\<close> (a new
  capacity) and \<open>cl\<close>; \<open>ring_run\<close> runs a sequence of them and collects the bytes the writes accepted and the bytes
  the reads delivered.
\<close>

datatype ('a, 'm) ring_op = R_read nat | R_write "'a list" | R_resize 'm | R_close

fun ring_run :: "(nat \<Rightarrow> 's \<Rightarrow> 'a list \<times> 's) \<Rightarrow> ('a list \<Rightarrow> 's \<Rightarrow> nat \<times> 's) \<Rightarrow> ('m \<Rightarrow> 's \<Rightarrow> 's) \<Rightarrow> ('s \<Rightarrow> 's) \<Rightarrow>
    ('a, 'm) ring_op list \<Rightarrow> 's \<Rightarrow> 'a list \<times> 'a list \<times> 's" where
  "ring_run rd wr rs cl [] s = ([], [], s)"
| "ring_run rd wr rs cl (op # ops) s =
     (case (case op of R_read n \<Rightarrow> (case rd n s of (d, s1) \<Rightarrow> ([], d, s1))
                     | R_write d \<Rightarrow> (case wr d s of (c, s1) \<Rightarrow> (take c d, [], s1))
                     | R_resize m \<Rightarrow> ([], [], rs m s)
                     | R_close \<Rightarrow> ([], [], cl s)) of (a1, d1, s1) \<Rightarrow>
      case ring_run rd wr rs cl ops s1 of (a2, d2, s2) \<Rightarrow> (a1 @ a2, d1 @ d2, s2))"

locale bounded_queue =
  fixes ok :: "'s \<Rightarrow> bool" and content :: "'s \<Rightarrow> 'a list" and capacity :: "'s \<Rightarrow> nat" and shut :: "'s \<Rightarrow> bool"
    and rd :: "nat \<Rightarrow> 's \<Rightarrow> 'a list \<times> 's" and wr :: "'a list \<Rightarrow> 's \<Rightarrow> nat \<times> 's"
    and rs :: "'m \<Rightarrow> 's \<Rightarrow> 's" and cl :: "'s \<Rightarrow> 's"
  assumes fits: "ok s \<Longrightarrow> length (content s) \<le> capacity s"
    and rd_law: "ok s \<Longrightarrow> rd n s = (d, s') \<Longrightarrow> ok s' \<and> d = take n (content s) \<and> content s' = drop n (content s)"
    and wr_law: "ok s \<Longrightarrow> wr d s = (c, s') \<Longrightarrow>
      ok s' \<and> c = (if shut s then 0 else min (length d) (capacity s - length (content s))) \<and>
      content s' = content s @ take c d"
    and rs_law: "ok s \<Longrightarrow> ok (rs m s) \<and> content (rs m s) = content s"
    and cl_law: "ok s \<Longrightarrow> ok (cl s) \<and> content (cl s) = content s \<and> shut (cl s)"
begin

lemma run_keeps_order:
  assumes "ok s" and "ring_run rd wr rs cl ops s = (acc, del, s')"
  shows "ok s' \<and> content s @ acc = del @ content s'"
  using assms
proof (induction ops arbitrary: s acc del)
  case Nil
  then show ?case by simp
next
  case (Cons op ops)
  obtain a1 d1 s1 where one: "(case op of R_read n \<Rightarrow> (case rd n s of (d, s1) \<Rightarrow> ([], d, s1))
                     | R_write d \<Rightarrow> (case wr d s of (c, s1) \<Rightarrow> (take c d, [], s1))
                     | R_resize m \<Rightarrow> ([], [], rs m s)
                     | R_close \<Rightarrow> ([], [], cl s)) = (a1, d1, s1)" by (rule prod_cases3)
  obtain a2 d2 s2 where rest: "ring_run rd wr rs cl ops s1 = (a2, d2, s2)" by (rule prod_cases3)
  have eq: "acc = a1 @ a2" "del = d1 @ d2" "s' = s2" using Cons.prems(2) by (simp_all add: one rest)
  have "ok s1 \<and> content s @ a1 = d1 @ content s1"
  proof (cases op)
    case (R_read n)
    then have "rd n s = (d1, s1)" "a1 = []" using one by (auto split: prod.splits)
    then show ?thesis using rd_law [OF Cons.prems(1), of n d1 s1] by simp
  next
    case (R_write d)
    then obtain c where "wr d s = (c, s1)" "a1 = take c d" "d1 = []" using one by (auto split: prod.splits)
    then show ?thesis using wr_law [OF Cons.prems(1)] by auto
  next
    case (R_resize m)
    then show ?thesis using one rs_law [OF Cons.prems(1)] by auto
  next
    case R_close
    then show ?thesis using one cl_law [OF Cons.prems(1)] by auto
  qed
  moreover have "ok s1 \<Longrightarrow> ok s' \<and> content s1 @ a2 = d2 @ content s'" using Cons.IH rest eq(3) by simp
  ultimately show ?case unfolding eq(1,2) by (metis append_assoc)
qed

lemma run_within_capacity:
  assumes "ok s" and "ring_run rd wr rs cl ops s = (acc, del, s')"
  shows "length (content s) + length acc \<le> length del + capacity s'"
proof -
  have "length (content s @ acc) = length (del @ content s')" using run_keeps_order [OF assms] by simp
  moreover have "length (content s') \<le> capacity s'" using fits run_keeps_order [OF assms] by blast
  ultimately show ?thesis by (simp only: length_append)
qed

end

definition fifo_rd :: "nat \<Rightarrow> FifoBuffer \<Rightarrow> bytes \<times> FifoBuffer" where
  "fifo_rd n f = (case Fifo_Read n f of (r, d, f', ev) \<Rightarrow> (d, f'))"

definition fifo_wr :: "bytes \<Rightarrow> FifoBuffer \<Rightarrow> nat \<times> FifoBuffer" where
  "fifo_wr d f = (case Fifo_Write d f of (r, c, f', ev) \<Rightarrow> (c, f'))"

definition fifo_rs :: "bytes \<Rightarrow> FifoBuffer \<Rightarrow> FifoBuffer" where
  "fifo_rs block f = snd (SetCapacity block f)"

interpretation fifo: bounded_queue fifo_ok fifo_content ff_length "\<lambda>f. ff_state f = SS_CLOSED" fifo_rd fifo_wr fifo_rs Fifo_Close
proof (unfold_locales, goal_cases)
  case (1 s)
  then show ?case by (simp add: fifo_content_length) (simp add: fifo_ok_def)
next
  case (2 s n d s')
  then show ?case using Fifo_Read_content [of s n] by (auto simp: fifo_rd_def split: prod.splits)
next
  case (3 s d c s')
  then show ?case
  proof (cases "ff_state s = SS_CLOSED")
    case True
    then show ?thesis using 3 by (auto simp: fifo_wr_def Fifo_Write_def WriteOffsetLocked_def)
  next
    case False
    then show ?thesis using 3 Fifo_Write_content [of s d] by (auto simp: fifo_wr_def split: prod.splits)
  qed
next
  case (4 s m)
  then show ?case
  proof (cases "ff_data s \<le> length m")
    case True
    from SetCapacity_content [OF 4 True] show ?thesis by (auto simp: fifo_rs_def)
  next
    case False
    then show ?thesis using 4 by (simp add: fifo_rs_def SetCapacity_def)
  qed
next
  case (5 s)
  then show ?case by (simp add: Fifo_Close_def fifo_ok_def fifo_content_def)
qed

section \<open>The properties of the ring\<close>

text \<open>
  C22 (refinement).  A FifoBuffer is a first-in first-out queue of bytes: whatever sequence of reads, writes, changes of the
  capacity and closing runs on a new buffer, the bytes that the writes accepted are the bytes that the reads
  delivered followed by what the ring still holds, in the same order, and the ring holds no more than its length.
\<close>

theorem fifo_refines_queue:
  "case ring_run fifo_rd fifo_wr fifo_rs Fifo_Close ops (FifoBuffer_new block) of (accepted, delivered, f) \<Rightarrow>
     accepted = delivered @ fifo_content f \<and> fifo_ok f \<and> length accepted \<le> length delivered + ff_length f"
proof -
  obtain acc del f where run: "ring_run fifo_rd fifo_wr fifo_rs Fifo_Close ops (FifoBuffer_new block) = (acc, del, f)"
    by (rule prod_cases3)
  have new: "fifo_ok (FifoBuffer_new block)" "fifo_content (FifoBuffer_new block) = []"
    by (auto simp: FifoBuffer_new_def fifo_ok_def fifo_content_def)
  show ?thesis
    using fifo.run_keeps_order [OF new(1) run] fifo.run_within_capacity [OF new(1) run] by (simp add: run new(2))
qed

text \<open>The blocks handed out without copying.\<close>

lemma GetReadData_content:
  assumes "fifo_ok f" and "GetReadData f = (pos, n)"
  shows "pos + n \<le> length (ff_buffer f) \<and> read_at pos n (ff_buffer f) = take n (fifo_content f) \<and> (n = 0 \<longrightarrow> fifo_content f = [])"
  using assms by (auto simp: GetReadData_def fifo_ok_def fifo_content_def read_at_def split: if_splits)

lemma fifo_ok_reset: "fifo_ok f \<Longrightarrow> ff_data f = 0 \<Longrightarrow> fifo_ok (f\<lparr>ff_pos := 0\<rparr>) \<and> fifo_content (f\<lparr>ff_pos := 0\<rparr>) = []"
  by (auto simp: fifo_ok_def fifo_content_def)

lemma GetWriteBuffer_block:
  assumes "fifo_ok f" and "GetWriteBuffer f = (Some (pos, n), f1)" and "0 < ff_length f" and "length d \<le> n" 
  shows "fifo_ok f1 \<and> fifo_content f1 = fifo_content f \<and> ff_state f1 \<noteq> SS_CLOSED \<and> pos + length d \<le> ff_length f1 \<and>
    pos = (ff_pos f1 + ff_data f1) mod ff_length f1 \<and> length d \<le> ff_length f1 - ff_data f1 \<and> ff_length f1 = ff_length f"
proof (cases "ff_data f = 0")
  case True
  then show ?thesis using assms fifo_ok_reset [OF assms(1) True] fifo_content_length [OF assms(1)]
    by (auto simp: GetWriteBuffer_def split: if_splits)
next
  case False
  have f1: "f1 = f" using False assms(2) by (auto simp: GetWriteBuffer_def Let_def split: if_splits)
  have pn: "ff_state f \<noteq> SS_CLOSED" "pos = (ff_pos f + ff_data f) mod ff_length f"
    "n = (if pos > ff_pos f then ff_length f - pos else ff_pos f - pos)"
    using False assms(2) by (auto simp: GetWriteBuffer_def Let_def split: if_splits)
  have ok: "ff_pos f < ff_length f" "ff_data f \<le> ff_length f" using assms(1,3) by (auto simp: fifo_ok_def)
  have pos: "pos = (if ff_pos f + ff_data f < ff_length f then ff_pos f + ff_data f else ff_pos f + ff_data f - ff_length f)"
    using ok unfolding pn(2) by (auto simp: mod_if)
  have "pos + n \<le> ff_length f \<and> n \<le> ff_length f - ff_data f"
  proof (cases "ff_pos f + ff_data f < ff_length f")
    case True
    then show ?thesis using pos pn(3) False by simp
  next
    case wrap: False
    then show ?thesis using pos pn(3) ok by simp
  qed
  then show ?thesis using assms(1,4) pn(1,2) f1 by simp
qed

lemma Fifo_Write_in_place:
  assumes "fifo_ok f" and "ff_state f \<noteq> SS_CLOSED" and "d \<noteq> []" and "length d \<le> ff_length f - ff_data f"
    and "pos = (ff_pos f + ff_data f) mod ff_length f" and "pos + length d \<le> ff_length f"
  shows "Fifo_Write d f =
    (case ConsumeWriteBuffer (length d) (f\<lparr>ff_buffer := write_at pos d (ff_buffer f)\<rparr>) of (f', ev) \<Rightarrow> (SR_SUCCESS, length d, f', ev))"
proof -
  have lt: "ff_data f + 0 < ff_length f" using assms(3,4) by (cases d) auto
  have m: "min (length d) (ff_length f - ff_data f - 0) = length d" "min (length d) (ff_length f - pos) = length d"
    using assms(4,6) by simp_all
  have "WriteOffsetLocked d 0 f = (SR_SUCCESS, length d, f\<lparr>ff_buffer := write_at pos d (ff_buffer f)\<rparr>)"
    unfolding WriteOffsetLocked_def Let_def add_0_right assms(5) [symmetric] m using assms(2) lt by (simp add: write_at_def [of 0])
  then show ?thesis using assms(3) by (simp add: Fifo_Write_def ConsumeWriteBuffer_def)
qed

lemma Fifo_Read_in_place:
  assumes "fifo_ok f" and "GetReadData f = (pos, n)" and "0 < n" and "k \<le> n"
  shows "Fifo_Read k f = (case ConsumeReadData k f of (f', ev) \<Rightarrow> (SR_SUCCESS, read_at pos k (ff_buffer f), f', ev))"
proof -
  have pos: "pos = ff_pos f" "n \<le> ff_data f" "pos + n \<le> length (ff_buffer f)" "0 < ff_data f"
    using assms(1-3) by (auto simp: GetReadData_def fifo_ok_def split: if_splits)
  have "read_at pos n (ff_buffer f) = take n (fifo_content f)" using GetReadData_content [OF assms(1,2)] by simp
  then have "take k (take n (drop pos (ff_buffer f))) = take k (take n (fifo_content f))" by (simp add: read_at_def)
  then have "take k (fifo_content f) = read_at pos k (ff_buffer f)" using assms(4) by (simp add: read_at_def min_absorb1)
  then have r: "ReadOffsetLocked k 0 f = (SR_SUCCESS, read_at pos k (ff_buffer f))"
    using ReadOffset_content [OF assms(1) pos(4), of k] by simp
  have "length (read_at pos k (ff_buffer f)) = k" using pos(3) assms(4) by simp
  then show ?thesis unfolding Fifo_Read_def ConsumeReadData_def r Let_def prod.case by (simp del: length_greater_0_conv length_0_conv)
qed

text \<open>
  The interface without copying is the copying one: reading \<open>k\<close> bytes out of the block that
  \<^verbatim>\<open>GetReadData\<close> returns and consuming them is \<^verbatim>\<open>Read(k)\<close>, and filling the block that \<^verbatim>\<open>GetWriteBuffer\<close> returns
  and consuming it is \<^verbatim>\<open>Write\<close> on the same buffer; the block is inside the ring, the write block may
  only have moved the position of an empty ring.
\<close>

theorem zero_copy_equals_copy:
  assumes "fifo_ok f" and "0 < ff_length f"
  shows "(GetReadData f = (pos, n) \<and> 0 < n \<and> k \<le> n \<longrightarrow> pos + n \<le> length (ff_buffer f) \<and>
       Fifo_Read k f = (case ConsumeReadData k f of (f', ev) \<Rightarrow> (SR_SUCCESS, read_at pos k (ff_buffer f), f', ev)))
    \<and> (GetWriteBuffer f = (Some (at, m), f1) \<and> d \<noteq> [] \<and> length d \<le> m \<longrightarrow> at + length d \<le> ff_length f1 \<and>
       fifo_content f1 = fifo_content f \<and>
       Fifo_Write d f1 = (case ConsumeWriteBuffer (length d) (f1\<lparr>ff_buffer := write_at at d (ff_buffer f1)\<rparr>)
                          of (f', ev) \<Rightarrow> (SR_SUCCESS, length d, f', ev)))"
  using GetReadData_content [OF assms(1)] Fifo_Read_in_place [OF assms(1)]
    GetWriteBuffer_block [OF assms(1) _ assms(2), of at m f1 d] Fifo_Write_in_place [of f1 d at]
  by blast

definition sample_ring :: FifoBuffer where
  "sample_ring = snd (fifo_wr [4, 5] (snd (fifo_rd 2 (snd (fifo_wr [1, 2, 3] (FifoBuffer_new [0, 0, 0, 0]))))))"

theorem zero_copy_equals_copy_witness:
  "fifo_ok sample_ring \<and> 0 < ff_length sample_ring \<and>
   Fifo_Read 1 sample_ring =
     (case ConsumeReadData 1 sample_ring of (f', ev) \<Rightarrow> (SR_SUCCESS, read_at 2 1 (ff_buffer sample_ring), f', ev)) \<and>
   Fifo_Write [9] sample_ring =
     (case ConsumeWriteBuffer 1 (sample_ring\<lparr>ff_buffer := write_at 1 [9] (ff_buffer sample_ring)\<rparr>)
      of (f', ev) \<Rightarrow> (SR_SUCCESS, 1, f', ev))"
proof -
  have ok: "fifo_ok sample_ring" "0 < ff_length sample_ring" by code_simp+
  moreover have "GetReadData sample_ring = (2, 2) \<and> GetWriteBuffer sample_ring = (Some (1, 1), sample_ring)" by code_simp
  ultimately show ?thesis
    using zero_copy_equals_copy [OF ok, of 2 2 1 1 1 sample_ring "[9]"] by simp
qed

end
