(* ===== verification/Vz_Streamio.thy ===== *)
theory Vz_Streamio
  imports Vz_Stream
begin

text \<open>
  \<^verbatim>\<open>src/src/base/stream.cpp\<close>, the code that runs over any stream: \<^verbatim>\<open>WriteAll\<close>, \<^verbatim>\<open>ReadAll\<close>, \<^verbatim>\<open>ReadLine\<close>,
  \<^verbatim>\<open>Flow\<close> and \<^verbatim>\<open>StreamSegment\<close>, and the streams \<^verbatim>\<open>MemoryStream\<close>, \<^verbatim>\<open>ExternalMemoryStream\<close> and
  \<^verbatim>\<open>StringStream\<close>.  The virtual \<^verbatim>\<open>Read\<close> and \<^verbatim>\<open>Write\<close> of the stream at hand are the arguments \<open>rd\<close> and \<open>wr\<close>;
  what the loops rely on is the contract \<open>stream_source\<close> and \<open>stream_sink\<close>, which the concrete streams
  meet.  The loops take fuel, since a stream that succeeds with no bytes keeps them running.
\<close>

unbundle bit_operations_syntax

section \<open>MemoryStreamBase, MemoryStream, ExternalMemoryStream\<close>

text \<open>
  \<open>ms_external\<close> tells an \<^verbatim>\<open>ExternalMemoryStream\<close>, which keeps the \<^verbatim>\<open>DoReserve\<close> of the base class, from a
  \<^verbatim>\<open>MemoryStream\<close>, which allocates; \<open>raw\<close> is what fresh memory holds.  \<open>ms_buffer\<close> is the memory that was allocated, or
  given by the caller, and \<open>ms_capacity\<close> the field \<^verbatim>\<open>buffer_length_\<close> that the code goes by; \<open>ms_fault\<close> records that a
  \<^verbatim>\<open>memcpy\<close> left the memory.  No subtraction of the code wraps in a well-formed stream.
\<close>

record MemoryStream =
  ms_external :: bool
  ms_buffer :: bytes
  ms_capacity :: nat
  ms_data :: nat
  ms_seek :: nat
  ms_fault :: bool

definition MemoryStream_empty :: MemoryStream where
  "MemoryStream_empty = \<lparr>ms_external = False, ms_buffer = [], ms_capacity = 0, ms_data = 0, ms_seek = 0, ms_fault = False\<rparr>"

definition MemoryStream_SetData :: "bytes \<Rightarrow> MemoryStream" where
  "MemoryStream_SetData d = \<lparr>ms_external = False, ms_buffer = d, ms_capacity = length d, ms_data = length d, ms_seek = 0,
     ms_fault = False\<rparr>"

definition ExternalMemoryStream_SetData :: "bytes \<Rightarrow> MemoryStream" where
  "ExternalMemoryStream_SetData d = \<lparr>ms_external = True, ms_buffer = d, ms_capacity = length d, ms_data = length d, ms_seek = 0,
     ms_fault = False\<rparr>"

text \<open>\<^verbatim>\<open>memcpy\<close> out of the memory of a stream and into it.\<close>

definition ms_load :: "nat \<Rightarrow> nat \<Rightarrow> MemoryStream \<Rightarrow> bytes \<times> MemoryStream" where
  "ms_load off k m =
     (read_at off k (ms_buffer m), if off + k \<le> length (ms_buffer m) then m else m\<lparr>ms_fault := True\<rparr>)"

definition ms_store :: "nat \<Rightarrow> bytes \<Rightarrow> MemoryStream \<Rightarrow> MemoryStream" where
  "ms_store off d m =
     (if off + length d \<le> length (ms_buffer m) then m\<lparr>ms_buffer := write_at off d (ms_buffer m)\<rparr> else m\<lparr>ms_fault := True\<rparr>)"

definition DoReserve :: "(nat \<Rightarrow> byte) \<Rightarrow> nat \<Rightarrow> MemoryStream \<Rightarrow> StreamResult \<times> MemoryStream" where
  "DoReserve raw n m =
     (if ms_capacity m \<ge> n then (SR_SUCCESS, m)
      else if ms_external m then (SR_EOS, m)
      else case ms_load 0 (ms_data m) m of (d, m1) \<Rightarrow>
        (SR_SUCCESS, (ms_store 0 d (m1\<lparr>ms_buffer := map raw [0..<n]\<rparr>))\<lparr>ms_capacity := n\<rparr>))"

definition MS_Read :: "nat \<Rightarrow> MemoryStream \<Rightarrow> StreamResult \<times> bytes \<times> MemoryStream" where
  "MS_Read n m =
     (if ms_seek m \<ge> ms_data m then (SR_EOS, [], m)
      else let available = ms_data m - ms_seek m; k = (if n > available then available else n)
           in case ms_load (ms_seek m) k m of (d, m1) \<Rightarrow> (SR_SUCCESS, d, m1\<lparr>ms_seek := ms_seek m + k\<rparr>))"

text \<open>\<^verbatim>\<open>Write\<close>, the part before and the part after the growth of the buffer.\<close>

definition MS_put :: "bytes \<Rightarrow> MemoryStream \<Rightarrow> StreamResult \<times> nat \<times> MemoryStream" where
  "MS_put d m =
     (let available = ms_capacity m - ms_seek m; k = (if length d > available then available else length d);
          m1 = ms_store (ms_seek m) (take k d) m; pos = ms_seek m + k
      in (SR_SUCCESS, k, m1\<lparr>ms_seek := pos, ms_data := (if ms_data m < pos then pos else ms_data m)\<rparr>))"

definition MS_Write :: "(nat \<Rightarrow> byte) \<Rightarrow> bytes \<Rightarrow> MemoryStream \<Rightarrow> StreamResult \<times> nat \<times> MemoryStream" where
  "MS_Write raw d m =
     (if ms_capacity m - ms_seek m = 0 then
        (let new_length = max (((ms_seek m + length d) OR 0xFF) + 1) (ms_capacity m * 2) in
         case DoReserve raw new_length m of (r, m1) \<Rightarrow> if r \<noteq> SR_SUCCESS then (r, 0, m1) else MS_put d m1)
      else MS_put d m)"

definition MS_SetPosition :: "nat \<Rightarrow> MemoryStream \<Rightarrow> bool \<times> MemoryStream" where
  "MS_SetPosition p m = (if p > ms_data m then (False, m) else (True, m\<lparr>ms_seek := p\<rparr>))"

definition MS_GetPosition :: "MemoryStream \<Rightarrow> nat" where
  "MS_GetPosition m = ms_seek m"

definition MS_GetSize :: "MemoryStream \<Rightarrow> nat" where
  "MS_GetSize m = ms_data m"

definition MS_GetAvailable :: "MemoryStream \<Rightarrow> nat" where
  "MS_GetAvailable m = ms_data m - ms_seek m"

definition MS_ReserveSize :: "(nat \<Rightarrow> byte) \<Rightarrow> nat \<Rightarrow> MemoryStream \<Rightarrow> bool \<times> MemoryStream" where
  "MS_ReserveSize raw n m = (case DoReserve raw n m of (r, m1) \<Rightarrow> (r = SR_SUCCESS, m1))"

section \<open>StringStream\<close>

record StringStream =
  ss_str :: bytes
  ss_pos :: nat
  ss_read_only :: bool

definition StringStream_new :: "bytes \<Rightarrow> StringStream" where
  "StringStream_new s = \<lparr>ss_str = s, ss_pos = 0, ss_read_only = False\<rparr>"

definition StringStream_const :: "bytes \<Rightarrow> StringStream" where
  "StringStream_const s = \<lparr>ss_str = s, ss_pos = 0, ss_read_only = True\<rparr>"

definition SS_Read :: "nat \<Rightarrow> StringStream \<Rightarrow> StreamResult \<times> bytes \<times> StringStream" where
  "SS_Read n s =
     (let available = min n (length (ss_str s) - ss_pos s) in
      if available = 0 then (SR_EOS, [], s)
      else (SR_SUCCESS, read_at (ss_pos s) available (ss_str s), s\<lparr>ss_pos := ss_pos s + available\<rparr>))"

definition SS_Write :: "bytes \<Rightarrow> StringStream \<Rightarrow> StreamResult \<times> nat \<times> StringStream" where
  "SS_Write d s =
     (if ss_read_only s then (SR_ERROR, 0, s)
      else (SR_SUCCESS, length d, s\<lparr>ss_str := ss_str s @ d\<rparr>))"

definition SS_SetPosition :: "nat \<Rightarrow> StringStream \<Rightarrow> bool \<times> StringStream" where
  "SS_SetPosition p s = (if p > length (ss_str s) then (False, s) else (True, s\<lparr>ss_pos := p\<rparr>))"

definition SS_GetSize :: "StringStream \<Rightarrow> nat" where
  "SS_GetSize s = length (ss_str s)"

definition SS_GetAvailable :: "StringStream \<Rightarrow> nat" where
  "SS_GetAvailable s = length (ss_str s) - ss_pos s"

definition SS_ReserveSize :: "nat \<Rightarrow> StringStream \<Rightarrow> bool" where
  "SS_ReserveSize n s = (\<not> ss_read_only s)"

section \<open>The loops over a stream\<close>

type_synonym 's stream_read = "nat \<Rightarrow> 's \<Rightarrow> StreamResult \<times> bytes \<times> 's"
type_synonym 's stream_write = "bytes \<Rightarrow> 's \<Rightarrow> StreamResult \<times> nat \<times> 's"

text \<open>The loop of \<^verbatim>\<open>WriteAll\<close>, with \<open>data\<close> what is still to be written; the middle of the result is \<^verbatim>\<open>total_written\<close>.\<close>

fun WriteAll :: "'s stream_write \<Rightarrow> nat \<Rightarrow> bytes \<Rightarrow> nat \<Rightarrow> 's \<Rightarrow> (StreamResult \<times> nat \<times> 's) option" where
  "WriteAll wr fuel data written s =
     (if written < length data then
        (case fuel of 0 \<Rightarrow> None
         | Suc k \<Rightarrow> (case wr (drop written data) s of (r, c, s1) \<Rightarrow>
             if r \<noteq> SR_SUCCESS then Some (r, written, s1) else WriteAll wr k data (written + c) s1))
      else Some (SR_SUCCESS, written, s))"

fun ReadAll :: "'s stream_read \<Rightarrow> nat \<Rightarrow> nat \<Rightarrow> bytes \<Rightarrow> 's \<Rightarrow> (StreamResult \<times> bytes \<times> 's) option" where
  "ReadAll rd fuel buffer_len got s =
     (if length got < buffer_len then
        (case fuel of 0 \<Rightarrow> None
         | Suc k \<Rightarrow> (case rd (buffer_len - length got) s of (r, d, s1) \<Rightarrow>
             if r \<noteq> SR_SUCCESS then Some (r, got, s1) else ReadAll rd k buffer_len (got @ d) s1))
      else Some (SR_SUCCESS, got, s))"

text \<open>
  \<^verbatim>\<open>ReadLine\<close>: a read of one byte that succeeds stores it in \<^verbatim>\<open>ch\<close>; should it deliver none, \<^verbatim>\<open>ch\<close> is not
  initialised and its value is \<open>junk\<close>.
\<close>

fun ReadLine_loop :: "byte \<Rightarrow> 's stream_read \<Rightarrow> nat \<Rightarrow> bytes \<Rightarrow> 's \<Rightarrow> (StreamResult \<times> bytes \<times> 's) option" where
  "ReadLine_loop junk rd 0 line s = None"
| "ReadLine_loop junk rd (Suc k) line s =
     (case rd 1 s of (r, d, s1) \<Rightarrow>
        if r \<noteq> SR_SUCCESS then Some (r, line, s1)
        else let ch = (case d of [] \<Rightarrow> junk | c # _ \<Rightarrow> c) in
             if ch = 10 then Some (r, line, s1) else ReadLine_loop junk rd k (line @ [ch]) s1)"

definition ReadLine :: "byte \<Rightarrow> 's stream_read \<Rightarrow> nat \<Rightarrow> 's \<Rightarrow> (StreamResult \<times> bytes \<times> 's) option" where
  "ReadLine junk rd fuel s =
     (case ReadLine_loop junk rd fuel [] s of None \<Rightarrow> None
      | Some (r, line, s1) \<Rightarrow> Some (if line \<noteq> [] then SR_SUCCESS else r, line, s1))"

text \<open>
  \<^verbatim>\<open>Flow\<close>: \<open>buf\<close> is the filled part of the buffer, so its length is \<^verbatim>\<open>read_pos\<close>.  \<open>flow_fill\<close> and \<open>flow_drain\<close>
  are the two inner loops; their first component is the result with which \<^verbatim>\<open>Flow\<close> returns, if it does.  \<open>flow_loop\<close> is the outer
  loop and returns the bytes that were read and not written.  \<open>data_len\<close> is \<open>None\<close> for the null pointer, else the valid part of the
  buffer; when \<^verbatim>\<open>Flow\<close> returns it is the part that \<^verbatim>\<open>*data_len\<close> counts at the start of the buffer, where the unwritten bytes are moved.
  Without \<^verbatim>\<open>data_len\<close> they are neither moved nor counted.
\<close>

fun flow_fill :: "'s stream_read \<Rightarrow> nat \<Rightarrow> nat \<Rightarrow> bytes \<Rightarrow> 's \<Rightarrow> (StreamResult option \<times> bool \<times> bytes \<times> 's) option" where
  "flow_fill rd buffer_len fuel buf s =
     (if length buf < buffer_len then
        (case fuel of 0 \<Rightarrow> None
         | Suc k \<Rightarrow> (case rd (buffer_len - length buf) s of (r, d, s1) \<Rightarrow>
             if r = SR_EOS then Some (None, True, buf, s1)
             else if r \<noteq> SR_SUCCESS then Some (Some r, False, buf, s1)
             else flow_fill rd buffer_len k (buf @ d) s1))
      else Some (None, False, buf, s))"

fun flow_drain :: "'s stream_write \<Rightarrow> nat \<Rightarrow> bytes \<Rightarrow> nat \<Rightarrow> 's \<Rightarrow> (StreamResult option \<times> bytes \<times> 's) option" where
  "flow_drain wr fuel buf write_pos s =
     (if write_pos < length buf then
        (case fuel of 0 \<Rightarrow> None
         | Suc k \<Rightarrow> (case wr (drop write_pos buf) s of (r, c, s1) \<Rightarrow>
             if r \<noteq> SR_SUCCESS then Some (Some r, drop write_pos buf, s1)
             else flow_drain wr k buf (write_pos + c) s1))
      else Some (None, [], s))"

fun flow_loop :: "'s stream_read \<Rightarrow> 't stream_write \<Rightarrow> nat \<Rightarrow> nat \<Rightarrow> nat \<Rightarrow> bytes \<Rightarrow> 's \<Rightarrow> 't \<Rightarrow>
    (StreamResult \<times> bytes \<times> 's \<times> 't) option" where
  "flow_loop rd wr buffer_len inner 0 buf src snk = None"
| "flow_loop rd wr buffer_len inner (Suc k) buf src snk =
     (case flow_fill rd buffer_len inner buf src of None \<Rightarrow> None
      | Some (Some r, eos, buf1, src1) \<Rightarrow> Some (r, buf1, src1, snk)
      | Some (None, eos, buf1, src1) \<Rightarrow>
          (case flow_drain wr inner buf1 0 snk of None \<Rightarrow> None
           | Some (Some r, rest, snk1) \<Rightarrow> Some (r, rest, src1, snk1)
           | Some (None, _, snk1) \<Rightarrow>
               if eos then Some (SR_SUCCESS, [], src1, snk1)
               else flow_loop rd wr buffer_len inner k [] src1 snk1))"

definition Flow :: "'s stream_read \<Rightarrow> 't stream_write \<Rightarrow> nat \<Rightarrow> nat \<Rightarrow> nat \<Rightarrow> bytes option \<Rightarrow> 's \<Rightarrow> 't \<Rightarrow>
    (StreamResult \<times> bytes option \<times> 's \<times> 't) option" where
  "Flow rd wr buffer_len inner fuel data_len src snk =
     (case flow_loop rd wr buffer_len inner fuel (case data_len of Some buf \<Rightarrow> buf | None \<Rightarrow> []) src snk of None \<Rightarrow> None
      | Some (r, left, src1, snk1) \<Rightarrow> Some (r, (case data_len of Some _ \<Rightarrow> Some left | None \<Rightarrow> None), src1, snk1))"

declare WriteAll.simps [simp del] ReadAll.simps [simp del] flow_fill.simps [simp del] flow_drain.simps [simp del]

section \<open>StreamSegment\<close>

text \<open>\<^verbatim>\<open>SIZE_UNKNOWN\<close> is \<open>None\<close>.\<close>

record 's StreamSegment =
  sg_stream :: 's
  sg_start :: "nat option"
  sg_pos :: nat
  sg_length :: "nat option"

definition StreamSegment_new :: "('s \<Rightarrow> nat option) \<Rightarrow> 's \<Rightarrow> nat option \<Rightarrow> 's StreamSegment" where
  "StreamSegment_new get_position s len = \<lparr>sg_stream = s, sg_start = get_position s, sg_pos = 0, sg_length = len\<rparr>"

definition Segment_Read :: "'s stream_read \<Rightarrow> nat \<Rightarrow> 's StreamSegment \<Rightarrow> StreamResult \<times> bytes \<times> 's StreamSegment" where
  "Segment_Read rd n g =
     (case sg_length g of
        Some len \<Rightarrow> if sg_pos g \<ge> len then (SR_EOS, [], g)
          else (case rd (min n (len - sg_pos g)) (sg_stream g) of (r, d, s1) \<Rightarrow>
                  (r, d, g\<lparr>sg_stream := s1, sg_pos := (if r = SR_SUCCESS then sg_pos g + length d else sg_pos g)\<rparr>))
      | None \<Rightarrow> (case rd n (sg_stream g) of (r, d, s1) \<Rightarrow>
                  (r, d, g\<lparr>sg_stream := s1, sg_pos := (if r = SR_SUCCESS then sg_pos g + length d else sg_pos g)\<rparr>)))"

definition Segment_SetPosition :: "(nat \<Rightarrow> 's \<Rightarrow> bool \<times> 's) \<Rightarrow> nat \<Rightarrow> 's StreamSegment \<Rightarrow> bool \<times> 's StreamSegment" where
  "Segment_SetPosition set_position p g =
     (case sg_start g of None \<Rightarrow> (False, g)
      | Some start \<Rightarrow>
          if (case sg_length g of None \<Rightarrow> False | Some len \<Rightarrow> p > len) then (False, g)
          else (case set_position (start + p) (sg_stream g) of (ok, s1) \<Rightarrow>
                  if \<not> ok then (False, g\<lparr>sg_stream := s1\<rparr>) else (True, g\<lparr>sg_stream := s1, sg_pos := p\<rparr>)))"

definition Segment_GetPosition :: "('s \<Rightarrow> nat option) \<Rightarrow> 's StreamSegment \<Rightarrow> nat option" where
  "Segment_GetPosition get_position g =
     (case sg_start g of None \<Rightarrow> None
      | Some start \<Rightarrow> (case get_position (sg_stream g) of None \<Rightarrow> None | Some p \<Rightarrow> Some (p - start)))"

definition Segment_GetSize :: "('s \<Rightarrow> nat option) \<Rightarrow> 's StreamSegment \<Rightarrow> nat option" where
  "Segment_GetSize get_size g =
     (case get_size (sg_stream g) of None \<Rightarrow> None
      | Some n \<Rightarrow> (let n1 = (case sg_start g of None \<Rightarrow> n | Some start \<Rightarrow> n - start)
                  in Some (case sg_length g of None \<Rightarrow> n1 | Some len \<Rightarrow> min n1 len)))"

definition Segment_GetAvailable :: "('s \<Rightarrow> nat option) \<Rightarrow> 's StreamSegment \<Rightarrow> nat option" where
  "Segment_GetAvailable get_available g =
     (case get_available (sg_stream g) of None \<Rightarrow> None
      | Some n \<Rightarrow> Some (case sg_length g of None \<Rightarrow> n | Some len \<Rightarrow> min n (len - sg_pos g)))"

section \<open>What the loops rely on\<close>

text \<open>
  \<open>rest\<close> is what a source still has to deliver, \<open>sent\<close> what a sink has taken.  A read that succeeds delivers a non-empty piece of
  what was asked for, a read that reports the end had nothing left; a write that succeeds takes a non-empty
  piece of what it was given; anything else changes neither.
\<close>

locale stream_source =
  fixes ok :: "'s \<Rightarrow> bool" and rest :: "'s \<Rightarrow> bytes" and rd :: "'s stream_read"
  assumes rd_ok: "ok s \<Longrightarrow> rd n s = (r, d, s') \<Longrightarrow> ok s'"
    and rd_success: "ok s \<Longrightarrow> rd n s = (SR_SUCCESS, d, s') \<Longrightarrow> rest s = d @ rest s' \<and> length d \<le> n \<and> (0 < n \<longrightarrow> d \<noteq> [])"
    and rd_other: "ok s \<Longrightarrow> rd n s = (r, d, s') \<Longrightarrow> r \<noteq> SR_SUCCESS \<Longrightarrow> rest s' = rest s"
    and rd_eos: "ok s \<Longrightarrow> rd n s = (SR_EOS, d, s') \<Longrightarrow> 0 < n \<Longrightarrow> rest s = []"
begin

lemma read_all:
  assumes "ok s" and "length got \<le> n" and "n - length got \<le> fuel"
  shows "\<exists>r d s'. ReadAll rd fuel n got s = Some (r, got @ d, s') \<and> ok s' \<and> rest s = d @ rest s' \<and> length (got @ d) \<le> n \<and>
    (r = SR_SUCCESS \<longleftrightarrow> length (got @ d) = n) \<and> (r = SR_EOS \<longrightarrow> rest s' = [])"
  using assms
proof (induction fuel arbitrary: got s)
  case 0
  then show ?case by (auto simp: ReadAll.simps)
next
  case (Suc fuel)
  show ?case
  proof (cases "length got < n")
    case False
    then show ?thesis using Suc.prems by (auto simp: ReadAll.simps)
  next
    case True
    obtain r d s1 where one: "rd (n - length got) s = (r, d, s1)" by (rule prod_cases3)
    have ok1: "ok s1" using rd_ok [OF Suc.prems(1) one] .
    show ?thesis
    proof (cases "r = SR_SUCCESS")
      case False
      have "rest s1 = rest s" using rd_other [OF Suc.prems(1) one False] .
      moreover have "r = SR_EOS \<Longrightarrow> rest s = []" using rd_eos [OF Suc.prems(1)] one True by auto
      ultimately show ?thesis using False True ok1 by (auto simp: ReadAll.simps one)
    next
      case succ: True
      have d: "rest s = d @ rest s1" "length d \<le> n - length got" "d \<noteq> []"
        using rd_success [OF Suc.prems(1)] one succ True by auto
      have "length (got @ d) \<le> n" "n - length (got @ d) \<le> fuel" using d True Suc.prems(3) by (cases d; simp)+
      from Suc.IH [OF ok1 this] obtain r' d' s' where *:
        "ReadAll rd fuel n (got @ d) s1 = Some (r', (got @ d) @ d', s')" "ok s'" "rest s1 = d' @ rest s'"
        "length ((got @ d) @ d') \<le> n" "r' = SR_SUCCESS \<longleftrightarrow> length ((got @ d) @ d') = n" "r' = SR_EOS \<longrightarrow> rest s' = []"
        by blast
      have "ReadAll rd (Suc fuel) n got s = Some (r', got @ (d @ d'), s')"
        using True succ *(1) by (simp add: ReadAll.simps [of rd "Suc fuel"] one)
      then show ?thesis using *(2-6) d(1) by (intro exI [of _ r'] exI [of _ "d @ d'"] exI [of _ s']) simp
    qed
  qed
qed

lemma fill:
  assumes "ok s" and "length buf \<le> n" and "n - length buf \<le> fuel"
  shows "\<exists>r eos d s'. flow_fill rd n fuel buf s = Some (r, eos, buf @ d, s') \<and> ok s' \<and> rest s = d @ rest s' \<and>
    length (buf @ d) \<le> n \<and> r \<noteq> Some SR_SUCCESS \<and> (eos \<longrightarrow> rest s' = []) \<and> (r = None \<and> \<not> eos \<longrightarrow> length (buf @ d) = n)"
  using assms
proof (induction fuel arbitrary: buf s)
  case 0
  then show ?case by (auto simp: flow_fill.simps)
next
  case (Suc fuel)
  show ?case
  proof (cases "length buf < n")
    case False
    then show ?thesis using Suc.prems by (auto simp: flow_fill.simps)
  next
    case True
    obtain r d s1 where one: "rd (n - length buf) s = (r, d, s1)" by (rule prod_cases3)
    have ok1: "ok s1" using rd_ok [OF Suc.prems(1) one] .
    show ?thesis
    proof (cases "r = SR_SUCCESS")
      case False
      have "rest s1 = rest s" using rd_other [OF Suc.prems(1) one False] .
      moreover have "r = SR_EOS \<Longrightarrow> rest s = []" using rd_eos [OF Suc.prems(1)] one True by auto
      ultimately show ?thesis using False True ok1 by (cases "r = SR_EOS") (auto simp: flow_fill.simps one)
    next
      case succ: True
      have d: "rest s = d @ rest s1" "length d \<le> n - length buf" "d \<noteq> []"
        using rd_success [OF Suc.prems(1)] one succ True by auto
      have "length (buf @ d) \<le> n" "n - length (buf @ d) \<le> fuel" using d True Suc.prems(3) by (cases d; simp)+
      from Suc.IH [OF ok1 this] obtain r' eos d' s' where *:
        "flow_fill rd n fuel (buf @ d) s1 = Some (r', eos, (buf @ d) @ d', s')" "ok s'" "rest s1 = d' @ rest s'"
        "length ((buf @ d) @ d') \<le> n" "r' \<noteq> Some SR_SUCCESS" "eos \<longrightarrow> rest s' = []"
        "r' = None \<and> \<not> eos \<longrightarrow> length ((buf @ d) @ d') = n" by blast
      have "flow_fill rd n (Suc fuel) buf s = Some (r', eos, buf @ (d @ d'), s')"
        using True succ *(1) by (simp add: flow_fill.simps [of rd n "Suc fuel"] one)
      then show ?thesis using *(2-7) d(1) by (intro exI [of _ r'] exI [of _ eos] exI [of _ "d @ d'"] exI [of _ s']) simp
    qed
  qed
qed

lemma fill_never_stops:
  assumes "\<And>m t e d t'. rd m t = (e, d, t') \<Longrightarrow> e = SR_SUCCESS \<or> e = SR_EOS"
    and "flow_fill rd n fuel buf s = Some (r, x)"
  shows "r = None"
  using assms(2)
proof (induction fuel arbitrary: buf s)
  case 0
  then show ?case by (simp add: flow_fill.simps split: if_splits)
next
  case (Suc fuel)
  obtain e d t where one: "rd (n - length buf) s = (e, d, t)" by (rule prod_cases3)
  then show ?case using assms(1) [OF one] Suc by (auto simp: flow_fill.simps [of rd n "Suc fuel"] split: if_splits)
qed

lemma read_line:
  assumes "\<And>m t e d t'. rd m t = (e, d, t') \<Longrightarrow> e = SR_SUCCESS \<or> e = SR_EOS" and "ok s" and "length (rest s) < fuel"
  shows "\<exists>s'. ReadLine_loop junk rd fuel line s =
      Some (if 10 \<in> set (rest s) then SR_SUCCESS else SR_EOS, line @ takeWhile (\<lambda>c. c \<noteq> 10) (rest s), s') \<and>
    ok s' \<and> rest s' = tl (dropWhile (\<lambda>c. c \<noteq> 10) (rest s))"
  using assms(2,3)
proof (induction fuel arbitrary: line s)
  case 0
  then show ?case by simp
next
  case (Suc fuel)
  obtain e d s1 where one: "rd 1 s = (e, d, s1)" by (rule prod_cases3)
  have ok1: "ok s1" using rd_ok [OF Suc.prems(1) one] .
  show ?case
  proof (cases "e = SR_SUCCESS")
    case False
    then have "e = SR_EOS" using assms(1) [OF one] by simp
    then have "rest s = []" "rest s1 = rest s" using rd_eos [OF Suc.prems(1)] rd_other [OF Suc.prems(1)] one by auto
    then show ?thesis using False \<open>e = SR_EOS\<close> ok1 one by simp
  next
    case True
    have "rest s = d @ rest s1" "length d \<le> 1" "d \<noteq> []" using rd_success [OF Suc.prems(1) one [unfolded True]] by auto
    then obtain c where c: "d = [c]" "rest s = c # rest s1" by (cases d) auto
    show ?thesis
    proof (cases "c = 10")
      case nl: True
      then show ?thesis using True ok1 one c by simp
    next
      case False
      have "length (rest s1) < fuel" using Suc.prems(2) c(2) by simp
      from Suc.IH [OF ok1 this, of "line @ [c]"] show ?thesis using True False one c by auto
    qed
  qed
qed

lemma segment:
  "stream_source (\<lambda>g. ok (sg_stream g)) (\<lambda>g. case sg_length g of None \<Rightarrow> rest (sg_stream g)
      | Some len \<Rightarrow> take (len - sg_pos g) (rest (sg_stream g))) (Segment_Read rd)"
proof (unfold_locales, goal_cases)
  case (1 s n r d s')
  then show ?case by (auto simp: Segment_Read_def dest: rd_ok split: option.splits prod.splits if_splits)
next
  case (2 s n d s')
  then show ?case
  proof (cases "sg_length s")
    case None
    then show ?thesis using 2 rd_success [OF 2(1)] by (auto simp: Segment_Read_def split: prod.splits)
  next
    case (Some len)
    then obtain s1 where one: "rd (min n (len - sg_pos s)) (sg_stream s) = (SR_SUCCESS, d, s1)" "sg_pos s < len"
      "s' = s\<lparr>sg_stream := s1, sg_pos := sg_pos s + length d\<rparr>"
      using 2(2) by (auto simp: Segment_Read_def split: if_splits prod.splits)
    have "rest (sg_stream s) = d @ rest s1" "length d \<le> min n (len - sg_pos s)" "0 < n \<longrightarrow> d \<noteq> []"
      using rd_success [OF 2(1) one(1)] one(2) by auto
    then show ?thesis using Some one(2,3) by simp
  qed
next
  case (3 s n r d s')
  then show ?case using rd_other [OF 3(1)] by (auto simp: Segment_Read_def split: option.splits prod.splits if_splits)
next
  case (4 s n d s')
  then show ?case using rd_eos [OF 4(1)] by (auto simp: Segment_Read_def split: option.splits prod.splits if_splits)
qed

end

locale stream_sink =
  fixes ok :: "'t \<Rightarrow> bool" and sent :: "'t \<Rightarrow> bytes" and wr :: "'t stream_write"
  assumes wr_ok: "ok s \<Longrightarrow> wr d s = (r, c, s') \<Longrightarrow> ok s'"
    and wr_success: "ok s \<Longrightarrow> wr d s = (SR_SUCCESS, c, s') \<Longrightarrow>
      sent s' = sent s @ take c d \<and> c \<le> length d \<and> (d \<noteq> [] \<longrightarrow> 0 < c)"
    and wr_other: "ok s \<Longrightarrow> wr d s = (r, c, s') \<Longrightarrow> r \<noteq> SR_SUCCESS \<Longrightarrow> sent s' = sent s"
begin

lemma drain:
  assumes "ok s" and "pos \<le> length buf" and "length buf - pos \<le> fuel"
  shows "\<exists>r left s'. flow_drain wr fuel buf pos s = Some (r, left, s') \<and> ok s' \<and> sent s @ drop pos buf = sent s' @ left \<and>
    (r = None \<longrightarrow> left = []) \<and> r \<noteq> Some SR_SUCCESS \<and> length left \<le> length buf"
  using assms
proof (induction fuel arbitrary: pos s)
  case 0
  then show ?case by (auto simp: flow_drain.simps)
next
  case (Suc fuel)
  show ?case
  proof (cases "pos < length buf")
    case False
    then show ?thesis using Suc.prems by (auto simp: flow_drain.simps)
  next
    case True
    obtain r c s1 where one: "wr (drop pos buf) s = (r, c, s1)" by (rule prod_cases3)
    have ok1: "ok s1" using wr_ok [OF Suc.prems(1) one] .
    show ?thesis
    proof (cases "r = SR_SUCCESS")
      case False
      then show ?thesis using wr_other [OF Suc.prems(1) one False] True ok1 by (auto simp: flow_drain.simps one)
    next
      case succ: True
      have c: "sent s1 = sent s @ take c (drop pos buf)" "c \<le> length buf - pos" "0 < c"
        using wr_success [OF Suc.prems(1) one [unfolded succ]] True by auto
      have "pos + c \<le> length buf" "length buf - (pos + c) \<le> fuel" using c True Suc.prems(3) by simp_all
      from Suc.IH [OF ok1 this] obtain r' left s' where *:
        "flow_drain wr fuel buf (pos + c) s1 = Some (r', left, s')" "ok s'" "sent s1 @ drop (pos + c) buf = sent s' @ left"
        "r' = None \<longrightarrow> left = []" "r' \<noteq> Some SR_SUCCESS" "length left \<le> length buf" by blast
      have "sent s @ drop pos buf = sent s1 @ drop (pos + c) buf"
        by (simp add: c(1)) (metis add.commute append_take_drop_id drop_drop)
      moreover have "flow_drain wr (Suc fuel) buf pos s = Some (r', left, s')"
        using True succ *(1) by (simp add: flow_drain.simps [of wr "Suc fuel"] one)
      ultimately show ?thesis using *(2-6) by (intro exI [of _ r'] exI [of _ left] exI [of _ s']) simp
    qed
  qed
qed

lemma write_all:
  assumes "ok s" and "pos \<le> length data" and "length data - pos \<le> fuel"
  shows "\<exists>r n s'. WriteAll wr fuel data pos s = Some (r, n, s') \<and> ok s' \<and> n \<le> length data \<and> pos \<le> n \<and>
    sent s' = sent s @ take (n - pos) (drop pos data) \<and> (r = SR_SUCCESS \<longleftrightarrow> n = length data)"
  using assms
proof (induction fuel arbitrary: pos s)
  case 0
  then show ?case by (auto simp: WriteAll.simps)
next
  case (Suc fuel)
  show ?case
  proof (cases "pos < length data")
    case False
    then show ?thesis using Suc.prems by (auto simp: WriteAll.simps)
  next
    case True
    obtain r c s1 where one: "wr (drop pos data) s = (r, c, s1)" by (rule prod_cases3)
    have ok1: "ok s1" using wr_ok [OF Suc.prems(1) one] .
    show ?thesis
    proof (cases "r = SR_SUCCESS")
      case False
      then show ?thesis using wr_other [OF Suc.prems(1) one False] True ok1 by (auto simp: WriteAll.simps one)
    next
      case succ: True
      have c: "sent s1 = sent s @ take c (drop pos data)" "c \<le> length data - pos" "0 < c"
        using wr_success [OF Suc.prems(1) one [unfolded succ]] True by auto
      have "pos + c \<le> length data" "length data - (pos + c) \<le> fuel" using c True Suc.prems(3) by simp_all
      from Suc.IH [OF ok1 this] obtain r' n s' where *:
        "WriteAll wr fuel data (pos + c) s1 = Some (r', n, s')" "ok s'" "n \<le> length data" "pos + c \<le> n"
        "sent s' = sent s1 @ take (n - (pos + c)) (drop (pos + c) data)" "r' = SR_SUCCESS \<longleftrightarrow> n = length data" by blast
      have "take c (drop pos data) @ take (n - (pos + c)) (drop (pos + c) data) = take (c + (n - (pos + c))) (drop pos data)"
        by (simp add: take_add add.commute)
      moreover have "c + (n - (pos + c)) = n - pos" using *(4) by simp
      ultimately have "sent s' = sent s @ take (n - pos) (drop pos data)" using *(5) c(1) by simp
      moreover have "WriteAll wr (Suc fuel) data pos s = Some (r', n, s')"
        using True succ *(1) by (simp add: WriteAll.simps [of wr "Suc fuel"] one)
      ultimately show ?thesis using *(2-4,6) by (intro exI [of _ r'] exI [of _ n] exI [of _ s']) simp
    qed
  qed
qed

lemma drain_never_stops:
  assumes "\<And>d t. ok t \<Longrightarrow> fst (wr d t) = SR_SUCCESS" and "ok s" and "flow_drain wr fuel buf pos s = Some (r, x)"
  shows "r = None"
  using assms(2,3)
proof (induction fuel arbitrary: pos s)
  case 0
  then show ?case by (simp add: flow_drain.simps split: if_splits)
next
  case (Suc fuel)
  obtain e c t where one: "wr (drop pos buf) s = (e, c, t)" by (rule prod_cases3)
  then show ?case
    using assms(1) [OF Suc.prems(1), of "drop pos buf"] wr_ok [OF Suc.prems(1) one] Suc
    by (auto simp: flow_drain.simps [of wr "Suc fuel"] split: if_splits)
qed

end

locale stream_copy = stream_source ok rest rd + sink: stream_sink ok' sent wr
  for ok :: "'s \<Rightarrow> bool" and rest :: "'s \<Rightarrow> bytes" and rd :: "'s stream_read"
    and ok' :: "'t \<Rightarrow> bool" and sent :: "'t \<Rightarrow> bytes" and wr :: "'t stream_write"
begin

text \<open>Whatever stops the loop, every byte was sent once, or is left in the buffer or in the source.\<close>

lemma flow:
  assumes "ok src" and "ok' snk" and "length buf \<le> n" and "0 < n" and "n \<le> inner" and "length buf + length (rest src) < fuel"
  shows "\<exists>r left src' snk'. flow_loop rd wr n inner fuel buf src snk = Some (r, left, src', snk') \<and> ok src' \<and> ok' snk' \<and>
    sent snk @ buf @ rest src = sent snk' @ left @ rest src' \<and> length left \<le> n \<and> (r = SR_SUCCESS \<longrightarrow> left = [] \<and> rest src' = [])"
  using assms(1-3,6)
proof (induction fuel arbitrary: buf src snk)
  case 0
  then show ?case by simp
next
  case (Suc fuel)
  have "n - length buf \<le> inner" using assms(5) by simp
  from fill [OF Suc.prems(1,3) this] obtain r eos d src1 where f:
    "flow_fill rd n inner buf src = Some (r, eos, buf @ d, src1)" "ok src1" "rest src = d @ rest src1"
    "r \<noteq> Some SR_SUCCESS" "eos \<longrightarrow> rest src1 = []" "r = None \<and> \<not> eos \<longrightarrow> length (buf @ d) = n" "length (buf @ d) \<le> n" by blast
  show ?case
  proof (cases r)
    case (Some e)
    then show ?thesis using f Suc.prems(2) by simp
  next
    case None
    have "length (buf @ d) - 0 \<le> inner" using f(7) assms(5) by simp
    from sink.drain [OF Suc.prems(2) le0 this] obtain r' left snk1 where g:
      "flow_drain wr inner (buf @ d) 0 snk = Some (r', left, snk1)" "ok' snk1" "sent snk @ (buf @ d) = sent snk1 @ left"
      "r' = None \<longrightarrow> left = []" "r' \<noteq> Some SR_SUCCESS" "length left \<le> length (buf @ d)" by auto
    have sum: "sent snk @ buf @ rest src = sent snk1 @ left @ rest src1" using g(3) f(3) by (metis append_assoc)
    show ?thesis
    proof (cases "r' = None \<and> \<not> eos")
      case False
      then show ?thesis using None f g sum by (cases r') auto
    next
      case again: True
      then have "length [] + length (rest src1) < fuel"
        using f(3,6) None assms(4) Suc.prems(4) by auto
      from Suc.IH [OF f(2) g(2) _ this] obtain r2 left2 src2 snk2 where h:
        "flow_loop rd wr n inner fuel [] src1 snk1 = Some (r2, left2, src2, snk2)" "ok src2" "ok' snk2"
        "sent snk1 @ [] @ rest src1 = sent snk2 @ left2 @ rest src2" "length left2 \<le> n" "r2 = SR_SUCCESS \<longrightarrow> left2 = [] \<and> rest src2 = []"
        by auto
      have "flow_loop rd wr n inner (Suc fuel) buf src snk = Some (r2, left2, src2, snk2)"
        using None again f(1) g(1) h(1) by simp
      then show ?thesis using h(2-6) sum again g(4) by simp
    qed
  qed
qed

lemma flow_never_stops:
  assumes "\<And>m t e d t'. rd m t = (e, d, t') \<Longrightarrow> e = SR_SUCCESS \<or> e = SR_EOS" and "\<And>d t. ok' t \<Longrightarrow> fst (wr d t) = SR_SUCCESS"
    and "ok src" and "ok' snk" and "length buf \<le> n" and "n \<le> inner"
    and "flow_loop rd wr n inner fuel buf src snk = Some (r, x)"
  shows "r = SR_SUCCESS"
  using assms(3-5,7)
proof (induction fuel arbitrary: buf src snk)
  case 0
  then show ?case by simp
next
  case (Suc fuel)
  have "n - length buf \<le> inner" using assms(6) by simp
  from fill [OF Suc.prems(1,3) this] obtain r1 eos d src1 where f:
    "flow_fill rd n inner buf src = Some (r1, eos, buf @ d, src1)" "ok src1" "length (buf @ d) \<le> n" by blast
  have n1: "r1 = None" using fill_never_stops [OF assms(1) f(1)] .
  have "length (buf @ d) - 0 \<le> inner" using f(3) assms(6) by simp
  from sink.drain [OF Suc.prems(2) le0 this] obtain r2 left snk1 where g:
    "flow_drain wr inner (buf @ d) 0 snk = Some (r2, left, snk1)" "ok' snk1" by blast
  have "r2 = None" using sink.drain_never_stops [OF assms(2) Suc.prems(2) g(1)] .
  then show ?case using Suc.IH [OF f(2) g(2), of "[]"] Suc.prems(4) f(1) g(1) n1 by (auto split: if_splits)
qed

end

section \<open>The concrete streams meet the contract\<close>

definition ss_ok :: "StringStream \<Rightarrow> bool" where
  "ss_ok s \<longleftrightarrow> ss_pos s \<le> length (ss_str s)"

definition ss_rest :: "StringStream \<Rightarrow> bytes" where
  "ss_rest s = drop (ss_pos s) (ss_str s)"

definition ms_ok :: "MemoryStream \<Rightarrow> bool" where
  "ms_ok m \<longleftrightarrow> ms_seek m \<le> ms_data m \<and> ms_data m \<le> ms_capacity m \<and> ms_capacity m = length (ms_buffer m) \<and> \<not> ms_fault m"

definition ms_content :: "MemoryStream \<Rightarrow> bytes" where
  "ms_content m = take (ms_data m) (ms_buffer m)"

definition ms_rest :: "MemoryStream \<Rightarrow> bytes" where
  "ms_rest m = drop (ms_seek m) (take (ms_data m) (ms_buffer m))"

definition ms_sent :: "MemoryStream \<Rightarrow> bytes" where
  "ms_sent m = take (ms_seek m) (ms_buffer m)"

definition fifo_stream_rd :: "FifoBuffer stream_read" where
  "fifo_stream_rd n f = (case Fifo_Read n f of (r, d, f', ev) \<Rightarrow> (r, d, f'))"

definition fifo_stream_wr :: "FifoBuffer stream_write" where
  "fifo_stream_wr d f = (case Fifo_Write d f of (r, c, f', ev) \<Rightarrow> (r, c, f'))"

lemma drop_piece:
  assumes "d = take n (drop p xs)"
  shows "drop p xs = d @ drop (p + length d) xs"
proof -
  have "drop (p + length d) xs = drop (length d) (drop p xs)" by (simp add: add.commute)
  also have "\<dots> = drop n (drop p xs)" unfolding assms by (cases "n \<le> length (drop p xs)") simp_all
  finally show ?thesis unfolding assms by (simp only: append_take_drop_id)
qed

interpretation string_source: stream_source ss_ok ss_rest SS_Read
proof (unfold_locales, goal_cases)
  case (2 s n d s')
  then have "s' = s\<lparr>ss_pos := ss_pos s + length d\<rparr>" "d = take n (ss_rest s)" "0 < n \<longrightarrow> d \<noteq> []"
    by (auto simp: SS_Read_def ss_rest_def ss_ok_def read_at_def min_def Let_def split: if_splits)
  then show ?case using drop_piece [of d n "ss_pos s" "ss_str s"] by (simp add: ss_rest_def)
qed (auto simp: SS_Read_def ss_ok_def ss_rest_def Let_def split: if_splits)

interpretation string_sink: stream_sink "\<lambda>_. True" ss_str SS_Write
  by unfold_locales (auto simp: SS_Write_def split: if_splits)

lemma le_or_nat: "(m :: nat) \<le> m OR n"
proof -
  have "int m \<le> int m OR int n" using or_greater_eq [of "int n" "int m"] by simp
  then have "int m \<le> int (m OR n)" by (simp add: of_nat_or_eq)
  then show ?thesis by simp
qed

lemma MS_Read_content:
  assumes "ms_ok m"
  shows "MS_Read n m = (if ms_rest m = [] then (SR_EOS, [], m)
    else (SR_SUCCESS, take n (ms_rest m), m\<lparr>ms_seek := ms_seek m + length (take n (ms_rest m))\<rparr>))"
  using assms by (auto simp: MS_Read_def ms_load_def ms_ok_def ms_rest_def read_at_def Let_def drop_take min_def)

interpretation memory_source: stream_source ms_ok ms_rest MS_Read
proof (unfold_locales, goal_cases)
  case (2 s n d s')
  then have s': "s' = s\<lparr>ms_seek := ms_seek s + length d\<rparr>" "0 < n \<longrightarrow> d \<noteq> []" "length d \<le> n"
    "d = take n (drop (ms_seek s) (take (ms_data s) (ms_buffer s)))"
    by (auto simp: MS_Read_content ms_rest_def split: if_splits)
  have r: "ms_rest s' = drop (ms_seek s + length d) (take (ms_data s) (ms_buffer s))" by (simp add: s'(1) ms_rest_def)
  show ?case unfolding r ms_rest_def [of s] using drop_piece [OF s'(4)] s'(2,3) by blast
qed (auto simp: MS_Read_content ms_ok_def ms_rest_def split: if_splits)

lemma DoReserve_ok:
  assumes "ms_ok m" and "DoReserve raw n m = (r, m')"
  shows "ms_ok m' \<and> ms_seek m' = ms_seek m \<and> ms_data m' = ms_data m \<and>
    take (ms_data m) (ms_buffer m') = take (ms_data m) (ms_buffer m) \<and> (r = SR_SUCCESS \<longrightarrow> n \<le> ms_capacity m')"
proof -
  consider "r = SR_SUCCESS" "m' = m" "n \<le> ms_capacity m" | "r = SR_EOS" "m' = m"
    | "r = SR_SUCCESS" "ms_capacity m < n" "m' = (ms_store 0 (take (ms_data m) (ms_buffer m)) (m\<lparr>ms_buffer := map raw [0..<n]\<rparr>))\<lparr>ms_capacity := n\<rparr>"
    using assms by (auto simp: DoReserve_def ms_load_def read_at_def ms_ok_def split: if_splits)
  then show ?thesis
  proof cases
    case 3
    have "length (write_at 0 (take (ms_data m) (ms_buffer m)) (map raw [0..<n])) = n"
      using 3(2) assms(1) by (simp add: ms_ok_def)
    moreover have "take (ms_data m) (write_at 0 (take (ms_data m) (ms_buffer m)) (map raw [0..<n])) = take (ms_data m) (ms_buffer m)"
      using assms(1) by (simp add: write_at_def ms_ok_def)
    ultimately show ?thesis using 3 assms(1) by (simp add: ms_ok_def ms_store_def)
  qed (use assms(1) in simp_all)
qed

lemma take_write_at:
  assumes "off \<le> n" and "n \<le> length mem" and "off + length xs \<le> length mem"
  shows "take (if n < off + length xs then off + length xs else n) (write_at off xs mem) = write_at off xs (take n mem)"
  using assms by (auto simp: write_at_def drop_take min_def)

lemma MS_put_ok:
  assumes "ms_ok m" and "MS_put d m = (r, c, m')"
  shows "r = SR_SUCCESS \<and> ms_ok m' \<and> ms_sent m' = ms_sent m @ take c d \<and> c \<le> length d \<and>
    (d \<noteq> [] \<and> ms_seek m < ms_capacity m \<longrightarrow> 0 < c) \<and> ms_content m' = write_at (ms_seek m) (take c d) (ms_content m) \<and>
    ms_seek m' = ms_seek m + c"
proof -
  define k where "k = min (length d) (ms_capacity m - ms_seek m)"
  have k: "k \<le> length d" "ms_seek m + k \<le> length (ms_buffer m)" using assms(1) by (auto simp: k_def ms_ok_def)
  then have put: "r = SR_SUCCESS" "c = k" "m' = m\<lparr>ms_buffer := write_at (ms_seek m) (take k d) (ms_buffer m),
      ms_seek := ms_seek m + k, ms_data := (if ms_data m < ms_seek m + k then ms_seek m + k else ms_data m)\<rparr>"
    using assms(2) by (auto simp: MS_put_def ms_store_def Let_def k_def min_def split: if_splits)
  have l: "length (write_at (ms_seek m) (take k d) (ms_buffer m)) = length (ms_buffer m)" using k by simp
  have "take (ms_seek m + k) (write_at (ms_seek m) (take k d) (ms_buffer m)) = take (ms_seek m) (ms_buffer m) @ take k d"
    using k by (simp add: write_at_def)
  moreover have "ms_ok m'" using assms(1) k l by (simp add: put(3) ms_ok_def)
  moreover have "ms_content m' = write_at (ms_seek m) (take k d) (ms_content m)"
  proof -
    have lk: "length (take k d) = k" using k(1) by simp
    have "take (if ms_data m < ms_seek m + k then ms_seek m + k else ms_data m) (write_at (ms_seek m) (take k d) (ms_buffer m)) =
        write_at (ms_seek m) (take k d) (take (ms_data m) (ms_buffer m))"
      using take_write_at [of "ms_seek m" "ms_data m" "ms_buffer m" "take k d", unfolded lk] assms(1) k(2) by (simp add: ms_ok_def)
    then show ?thesis unfolding put(3) ms_content_def by simp
  qed
  ultimately show ?thesis using put k by (auto simp: ms_sent_def k_def)
qed

lemma MS_Write_ok:
  assumes ok: "ms_ok m" and w: "MS_Write raw d m = (r, c, m')"
  shows "ms_ok m'"
    and "r = SR_SUCCESS \<Longrightarrow> ms_sent m' = ms_sent m @ take c d \<and> c \<le> length d \<and> (d \<noteq> [] \<longrightarrow> 0 < c) \<and>
      ms_content m' = write_at (ms_seek m) (take c d) (ms_content m) \<and> ms_seek m' = ms_seek m + c"
    and "r \<noteq> SR_SUCCESS \<Longrightarrow> ms_sent m' = ms_sent m \<and> ms_content m' = ms_content m \<and> ms_seek m' = ms_seek m"
proof -
  have main: "ms_ok m' \<and> (r = SR_SUCCESS \<longrightarrow> ms_sent m' = ms_sent m @ take c d \<and> c \<le> length d \<and> (d \<noteq> [] \<longrightarrow> 0 < c) \<and>
      ms_content m' = write_at (ms_seek m) (take c d) (ms_content m) \<and> ms_seek m' = ms_seek m + c) \<and>
    (r \<noteq> SR_SUCCESS \<longrightarrow> ms_sent m' = ms_sent m \<and> ms_content m' = ms_content m \<and> ms_seek m' = ms_seek m)"
  proof (cases "ms_capacity m - ms_seek m = 0")
    case False
    then show ?thesis using MS_put_ok [OF ok] w by (simp add: MS_Write_def)
  next
    case True
    define n where "n = max (((ms_seek m + length d) OR 0xFF) + 1) (ms_capacity m * 2)"
    obtain r1 m1 where res: "DoReserve raw n m = (r1, m1)" by (rule prod.exhaust)
    note d = DoReserve_ok [OF ok res]
    have le: "ms_seek m \<le> ms_data m" using ok by (simp add: ms_ok_def)
    have "take (ms_seek m) (take (ms_data m) (ms_buffer m1)) = take (ms_seek m) (take (ms_data m) (ms_buffer m))" using d by simp
    then have sent: "ms_sent m1 = ms_sent m" using d unfolding take_take min_absorb1 [OF le] ms_sent_def by simp
    have content: "ms_content m1 = ms_content m" "ms_seek m1 = ms_seek m" using d by (simp_all add: ms_content_def)
    have "ms_seek m + length d < n" using le_or_nat [of "ms_seek m + length d" 255] by (simp add: n_def)
    then have room: "r1 = SR_SUCCESS \<Longrightarrow> ms_seek m1 < ms_capacity m1" using d by auto
    have "MS_Write raw d m = (if r1 \<noteq> SR_SUCCESS then (r1, 0, m1) else MS_put d m1)"
      unfolding MS_Write_def Let_def n_def [symmetric] res using True by simp
    then show ?thesis
      using w d sent content room MS_put_ok [of m1 d r c m'] by (cases "r1 = SR_SUCCESS") auto
  qed
  then show "ms_ok m'"
    and "r = SR_SUCCESS \<Longrightarrow> ms_sent m' = ms_sent m @ take c d \<and> c \<le> length d \<and> (d \<noteq> [] \<longrightarrow> 0 < c) \<and>
      ms_content m' = write_at (ms_seek m) (take c d) (ms_content m) \<and> ms_seek m' = ms_seek m + c"
    and "r \<noteq> SR_SUCCESS \<Longrightarrow> ms_sent m' = ms_sent m \<and> ms_content m' = ms_content m \<and> ms_seek m' = ms_seek m" by blast+
qed

interpretation memory_sink: stream_sink ms_ok ms_sent "MS_Write raw" for raw
  by unfold_locales (use MS_Write_ok in blast)+

interpretation fifo_source: stream_source fifo_ok fifo_content fifo_stream_rd
proof (unfold_locales, goal_cases)
  case (1 s n r d s')
  then show ?case using Fifo_Read_content [OF 1(1), of n] by (auto simp: fifo_stream_rd_def split: prod.splits)
next
  case (2 s n d s')
  then show ?case using Fifo_Read_content [OF 2(1), of n] by (auto simp: fifo_stream_rd_def split: prod.splits if_splits)
next
  case (3 s n r d s')
  then show ?case using Fifo_Read_content [OF 3(1), of n] by (auto simp: fifo_stream_rd_def split: prod.splits if_splits)
next
  case (4 s n d s')
  then show ?case using Fifo_Read_content [OF 4(1), of n] by (auto simp: fifo_stream_rd_def split: prod.splits if_splits)
qed

interpretation fifo_sink: stream_sink fifo_ok fifo_content fifo_stream_wr
proof -
  have main: "fifo_ok f' \<and> (r = SR_SUCCESS \<longrightarrow> fifo_content f' = fifo_content f @ take c d \<and> c \<le> length d \<and> (d \<noteq> [] \<longrightarrow> 0 < c)) \<and>
      (r \<noteq> SR_SUCCESS \<longrightarrow> fifo_content f' = fifo_content f)"
    if ok: "fifo_ok f" and w: "fifo_stream_wr d f = (r, c, f')" for f d r c f'
  proof (cases "ff_state f = SS_CLOSED")
    case True
    then show ?thesis using ok w by (auto simp: fifo_stream_wr_def Fifo_Write_def WriteOffsetLocked_def)
  next
    case False
    then show ?thesis using Fifo_Write_content [OF ok False, of d] w
      by (auto simp: fifo_stream_wr_def split: prod.splits if_splits)
  qed
  show "stream_sink fifo_ok fifo_content fifo_stream_wr" by unfold_locales (use main in blast)+
qed

interpretation memory_to_fifo: stream_copy ms_ok ms_rest MS_Read fifo_ok fifo_content fifo_stream_wr ..

interpretation fifo_to_memory: stream_copy fifo_ok fifo_content fifo_stream_rd ms_ok ms_sent "MS_Write raw" for raw ..

interpretation segment_source: stream_source "\<lambda>g. ss_ok (sg_stream g)"
    "\<lambda>g. case sg_length g of None \<Rightarrow> ss_rest (sg_stream g) | Some len \<Rightarrow> take (len - sg_pos g) (ss_rest (sg_stream g))"
    "Segment_Read SS_Read"
  by (rule string_source.segment)

interpretation writable_sink: stream_sink "\<lambda>s. \<not> ss_read_only s" ss_str SS_Write
  by unfold_locales (auto simp: SS_Write_def split: if_splits)

interpretation segment_to_string: stream_copy "\<lambda>g. ss_ok (sg_stream g)"
    "\<lambda>g. case sg_length g of None \<Rightarrow> ss_rest (sg_stream g) | Some len \<Rightarrow> take (len - sg_pos g) (ss_rest (sg_stream g))"
    "Segment_Read SS_Read" "\<lambda>s. \<not> ss_read_only s" ss_str SS_Write ..

section \<open>The properties of the loops\<close>

text \<open>
  C23 (liveness).  \<^verbatim>\<open>Flow\<close> from a memory stream into a FIFO ends, and wherever it stops (the FIFO is full or closed, or
  everything is copied) every byte is accounted for: what the FIFO held, what was in the buffer
  and what the source still had is, in this order, what the FIFO holds, what was read and not written, and what the source
  still has.  A caller that passes \<^verbatim>\<open>data_len\<close> gets the unwritten bytes back in the buffer, so nothing is lost; for one that passes the
  null pointer exactly these bytes, no more than the buffer holds, are lost, none if \<^verbatim>\<open>Flow\<close> reports success.  As many rounds as
  there are bytes, plus one, are enough fuel.
\<close>

theorem flow_accounts_for_bytes:
  assumes "ms_ok src" and "fifo_ok snk" and "buf = (case data_len of Some b \<Rightarrow> b | None \<Rightarrow> [])" and "length buf \<le> n" and "0 < n"
    and "n \<le> inner" and "length buf + length (ms_rest src) < fuel"
  shows "\<exists>r unwritten src' snk'.
    Flow MS_Read fifo_stream_wr n inner fuel data_len src snk =
      Some (r, (case data_len of Some _ \<Rightarrow> Some unwritten | None \<Rightarrow> None), src', snk') \<and>
    ms_ok src' \<and> fifo_ok snk' \<and> fifo_content snk @ buf @ ms_rest src = fifo_content snk' @ unwritten @ ms_rest src' \<and>
    length unwritten \<le> n \<and> (r = SR_SUCCESS \<longrightarrow> unwritten = [] \<and> ms_rest src' = [])"
  using memory_to_fifo.flow [OF assms(1,2,4-7)] by (auto simp: Flow_def assms(3))

text \<open>With the null pointer the byte 4, which the full FIFO did not take, is lost: only 5 can still be read.\<close>

theorem flow_accounts_for_bytes_witness:
  "\<exists>r unwritten src' snk'. Flow MS_Read fifo_stream_wr 2 2 10 None (MemoryStream_SetData [1, 2, 3, 4, 5]) (FifoBuffer_new [0, 0, 0]) =
      Some (r, None, src', snk') \<and> fifo_content snk' = [1, 2, 3] \<and> ms_rest src' = [5] \<and> unwritten = [4] \<and>
    fifo_ok snk' \<and> [1, 2, 3, 4, 5] = fifo_content snk' @ unwritten @ ms_rest src'"
proof -
  let ?src = "MemoryStream_SetData [1, 2, 3, 4, 5]" and ?snk = "FifoBuffer_new [0, 0, 0]"
  have ok: "ms_ok ?src" "fifo_ok ?snk" "length ([] :: bytes) \<le> 2" "length ([] :: bytes) + length (ms_rest ?src) < 10"
    by code_simp+
  have eq: "fifo_content ?snk @ [] @ ms_rest ?src = [1, 2, 3, 4, 5]"
    by code_simp
  have run: "case Flow MS_Read fifo_stream_wr 2 2 10 None ?src ?snk of None \<Rightarrow> False
    | Some (r, given, src', snk') \<Rightarrow> fifo_content snk' = [1, 2, 3] \<and> ms_rest src' = [5]" by code_simp
  from flow_accounts_for_bytes [of ?src ?snk "[]" None 2 2 10, OF ok(1,2) _ ok(3) _ _ ok(4), unfolded eq option.case, OF refl]
  obtain r unwritten src' snk' where f: "Flow MS_Read fifo_stream_wr 2 2 10 None ?src ?snk = Some (r, None, src', snk')" "fifo_ok snk'"
    "[1, 2, 3, 4, 5] = fifo_content snk' @ unwritten @ ms_rest src'" by (metis zero_less_numeral order_refl)
  moreover have "fifo_content snk' = [1, 2, 3]" "ms_rest src' = [5]" using run by (simp_all add: f(1))
  moreover from this f(3) have "unwritten = [4]" by simp
  ultimately show ?thesis by blast
qed

text \<open>
  \<^verbatim>\<open>Flow\<close> from a segment of a string into a writable string ends with success and appends exactly the
  segment: at most \<^verbatim>\<open>length\<close> bytes of the string from its position on, however
  small the buffer is.
\<close>

theorem flow_copies_segment:
  assumes "ss_ok src" and "\<not> ss_read_only snk" and "0 < n" and "n \<le> inner" and "length (take len (ss_rest src)) < fuel"
  shows "\<exists>src' snk'. Flow (Segment_Read SS_Read) SS_Write n inner fuel None
      (StreamSegment_new (\<lambda>s. Some (ss_pos s)) src (Some len)) snk = Some (SR_SUCCESS, None, src', snk') \<and>
    ss_str snk' = ss_str snk @ take len (ss_rest src)"
proof -
  define g where "g = StreamSegment_new (\<lambda>s. Some (ss_pos s)) src (Some len)"
  have g: "ss_ok (sg_stream g)" "sg_stream g = src" "sg_length g = Some len" "sg_pos g = 0"
    using assms(1) by (simp_all add: g_def StreamSegment_new_def)
  have small: "length ([] :: bytes) \<le> n" by simp
  have fuel: "length [] + length (case sg_length g of None \<Rightarrow> ss_rest (sg_stream g)
      | Some len \<Rightarrow> take (len - sg_pos g) (ss_rest (sg_stream g))) < fuel" using assms(5) g by simp
  from segment_to_string.flow [OF g(1) assms(2) small assms(3,4) fuel] obtain r left src' snk' where f:
    "flow_loop (Segment_Read SS_Read) SS_Write n inner fuel [] g snk = Some (r, left, src', snk')"
    "ss_str snk @ [] @ take len (ss_rest src) = ss_str snk' @ left @ (case sg_length src' of None \<Rightarrow> ss_rest (sg_stream src')
      | Some len \<Rightarrow> take (len - sg_pos src') (ss_rest (sg_stream src')))"
    "r = SR_SUCCESS \<longrightarrow> left = [] \<and> (case sg_length src' of None \<Rightarrow> ss_rest (sg_stream src')
      | Some len \<Rightarrow> take (len - sg_pos src') (ss_rest (sg_stream src'))) = []"
    unfolding g(2-4) by auto
  have "r = SR_SUCCESS"
  proof (rule segment_to_string.flow_never_stops [OF _ _ g(1) assms(2) small assms(4) f(1)])
    fix m t e d t'
    assume "Segment_Read SS_Read m t = (e, d, t')"
    then show "e = SR_SUCCESS \<or> e = SR_EOS"
      by (auto simp: Segment_Read_def SS_Read_def Let_def split: option.splits if_splits)
  qed (simp add: SS_Write_def)
  then show ?thesis using f unfolding g_def by (auto simp: Flow_def)
qed

theorem flow_copies_segment_witness:
  "\<exists>src' snk'. Flow (Segment_Read SS_Read) SS_Write 2 2 9 None
      (StreamSegment_new (\<lambda>s. Some (ss_pos s)) (StringStream_const [7, 8, 9, 10, 11, 12]) (Some 5)) (StringStream_new [1]) =
      Some (SR_SUCCESS, None, src', snk') \<and> ss_str snk' = [1, 7, 8, 9, 10, 11]"
proof -
  have ok: "ss_ok (StringStream_const [7, 8, 9, 10, 11, 12])" "\<not> ss_read_only (StringStream_new [1])"
    "length (take 5 (ss_rest (StringStream_const [7, 8, 9, 10, 11, 12]))) < 9" by code_simp+
  have eq: "ss_str (StringStream_new [1]) @ take 5 (ss_rest (StringStream_const [7, 8, 9, 10, 11, 12])) = [1, 7, 8, 9, 10, 11]"
    by code_simp
  show ?thesis using flow_copies_segment [OF ok(1,2) _ _ ok(3), of 2 2] unfolding eq by simp
qed

text \<open>
  \<^verbatim>\<open>ReadLine\<close> on a string ends, returns the bytes up to the next line feed and steps over it; only when
  nothing is left does it report the end of the stream, so an empty line and the end of the text differ.
\<close>

theorem read_line_splits:
  assumes "ss_ok s" and "length (ss_rest s) < fuel"
  shows "\<exists>s'. ReadLine junk SS_Read fuel s =
      Some (if ss_rest s = [] then SR_EOS else SR_SUCCESS, takeWhile (\<lambda>c. c \<noteq> 10) (ss_rest s), s') \<and>
    ss_ok s' \<and> ss_rest s' = tl (dropWhile (\<lambda>c. c \<noteq> 10) (ss_rest s))"
proof -
  have only: "e = SR_SUCCESS \<or> e = SR_EOS" if "SS_Read m t = (e, d, t')" for m t e d t'
    using that by (auto simp: SS_Read_def Let_def split: if_splits)
  obtain s' where l: "ReadLine_loop junk SS_Read fuel [] s =
      Some (if 10 \<in> set (ss_rest s) then SR_SUCCESS else SR_EOS, [] @ takeWhile (\<lambda>c. c \<noteq> 10) (ss_rest s), s')"
    "ss_ok s'" "ss_rest s' = tl (dropWhile (\<lambda>c. c \<noteq> 10) (ss_rest s))"
  proof -
    have "\<exists>s'. ReadLine_loop junk SS_Read fuel [] s =
        Some (if 10 \<in> set (ss_rest s) then SR_SUCCESS else SR_EOS, [] @ takeWhile (\<lambda>c. c \<noteq> 10) (ss_rest s), s') \<and>
      ss_ok s' \<and> ss_rest s' = tl (dropWhile (\<lambda>c. c \<noteq> 10) (ss_rest s))"
      by (rule string_source.read_line [OF _ assms]) (rule only)
    then show thesis using that by blast
  qed
  have "takeWhile (\<lambda>c. c \<noteq> 10) (ss_rest s) = [] \<Longrightarrow> ss_rest s \<noteq> [] \<Longrightarrow> 10 \<in> set (ss_rest s)"
    by (cases "ss_rest s") (auto split: if_splits)
  then show ?thesis using l by (auto simp: ReadLine_def)
qed

theorem read_line_splits_witness:
  "\<exists>s'. ReadLine 0 SS_Read 9 (StringStream_const [104, 105, 10, 10, 33]) = Some (SR_SUCCESS, [104, 105], s') \<and>
     ss_ok s' \<and> ss_rest s' = [10, 33]"
proof -
  have ok: "ss_ok (StringStream_const [104, 105, 10, 10, 33])" "length (ss_rest (StringStream_const [104, 105, 10, 10, 33])) < 9"
    by code_simp+
  have r: "ss_rest (StringStream_const [104, 105, 10, 10, 33]) = [104, 105, 10, 10, 33]" by code_simp
  show ?thesis using read_line_splits [OF ok, of 0] unfolding r by simp
qed



end
