(* ===== verification/Vz_Stringencode.thy ===== *)
theory Vz_Stringencode
  imports Vz_Prelude
begin

text \<open>
  \<^verbatim>\<open>src/src/base/stringencode.cpp\<close>: escaping, percent, URL, XML and HTML encoding, hexadecimal text, UTF-8 and the
  splitting of strings.  A routine that fills \<^verbatim>\<open>buffer\<close> is a function from \<^verbatim>\<open>buflen\<close> and the source to the bytes
  it stores before the closing NUL; the value it returns is their number.  Its loop stores one sequence
  per source character; \<open>encoding_loop\<close> and \<open>decoding_loop\<close> are these loops, the steps are the bodies.
  The locale \<open>char_codec\<close> says when a decoder undoes an encoder.
\<close>

section \<open>The loops\<close>

text \<open>
  \<^verbatim>\<open>while ((srcpos < srclen) && (bufpos + 1 < buflen))\<close>: the body stores \<open>enc ch\<close>, or leaves the loop when that and the
  NUL do not fit (for a single character the loop condition is that test).
\<close>

fun encoding_loop :: "(byte \<Rightarrow> bytes) \<Rightarrow> nat \<Rightarrow> bytes \<Rightarrow> bytes \<Rightarrow> bytes" where
  "encoding_loop enc buflen [] out = out"
| "encoding_loop enc buflen (ch # src) out =
     (if length out + 1 < buflen then
        if length out + length (enc ch) \<ge> buflen then out else encoding_loop enc buflen src (out @ enc ch)
      else out)"

text \<open>
  The body of a decoder gets the room in the buffer, the character and the rest of the source and says what it stores and how
  many more characters it has consumed, or \<open>None\<close> when it leaves the loop.
\<close>

type_synonym decode_step = "nat \<Rightarrow> byte \<Rightarrow> bytes \<Rightarrow> (bytes \<times> nat) option"

fun decoding_loop :: "decode_step \<Rightarrow> nat \<Rightarrow> bytes \<Rightarrow> bytes \<Rightarrow> bytes" where
  "decoding_loop step buflen [] out = out"
| "decoding_loop step buflen (ch # src) out =
     (if length out + 1 < buflen then
        (case step (buflen - length out) ch src of None \<Rightarrow> out
         | Some (seq, k) \<Rightarrow> decoding_loop step buflen (drop k src) (out @ seq))
      else out)"

section \<open>Hexadecimal digits\<close>

definition HEX :: bytes where
  "HEX = bytes_of_string ''0123456789abcdef''"

definition hex_encode :: "byte \<Rightarrow> byte" where
  "hex_encode v = (if v < 16 then HEX ! unat v else 33)"

definition hex_decode :: "byte \<Rightarrow> byte option" where
  "hex_decode ch =
     (if 48 \<le> ch \<and> ch \<le> 57 then Some (ch - 48)
      else if 65 \<le> ch \<and> ch \<le> 90 then Some ((ch - 65) + 10)
      else if 97 \<le> ch \<and> ch \<le> 122 then Some ((ch - 97) + 10)
      else None)"

definition hi_nibble :: "byte \<Rightarrow> byte" where
  "hi_nibble ch = drop_bit 4 ch AND 0xF"

definition lo_nibble :: "byte \<Rightarrow> byte" where
  "lo_nibble ch = ch AND 0xF"

text \<open>The test for two digits that the percent decoders share.\<close>

definition hex_pair :: "bytes \<Rightarrow> byte option" where
  "hex_pair src =
     (case src of a # b # _ \<Rightarrow>
        (case hex_decode a of None \<Rightarrow> None
         | Some h1 \<Rightarrow> (case hex_decode b of None \<Rightarrow> None | Some h2 \<Rightarrow> Some (push_bit 4 h1 OR h2)))
      | _ \<Rightarrow> None)"

section \<open>Escapes and percent encoding\<close>

text \<open>\<^verbatim>\<open>strchr\<close> finds the closing NUL too.\<close>

definition strchr :: "bytes \<Rightarrow> byte \<Rightarrow> bool" where
  "strchr illegal ch \<longleftrightarrow> ch = 0 \<or> ch \<in> set illegal"

definition escape_seq :: "bytes \<Rightarrow> byte \<Rightarrow> byte \<Rightarrow> bytes" where
  "escape_seq illegal esc ch = (if ch = esc \<or> strchr illegal ch then [esc, ch] else [ch])"

definition escape :: "nat \<Rightarrow> bytes \<Rightarrow> bytes \<Rightarrow> byte \<Rightarrow> bytes" where
  "escape buflen source illegal esc =
     (if buflen = 0 then [] else encoding_loop (escape_seq illegal esc) buflen source [])"

definition unescape_step :: "byte \<Rightarrow> decode_step" where
  "unescape_step esc room ch src = (if ch = esc \<and> src \<noteq> [] then Some ([src ! 0], 1) else Some ([ch], 0))"

definition unescape :: "nat \<Rightarrow> bytes \<Rightarrow> byte \<Rightarrow> bytes" where
  "unescape buflen source esc = (if buflen = 0 then [] else decoding_loop (unescape_step esc) buflen source [])"

definition encode_char :: "bytes \<Rightarrow> byte \<Rightarrow> byte \<Rightarrow> bytes" where
  "encode_char illegal esc ch =
     (if ch \<noteq> esc \<and> \<not> strchr illegal ch then [ch]
      else [esc, hex_encode (hi_nibble ch), hex_encode (lo_nibble ch)])"

definition encode :: "nat \<Rightarrow> bytes \<Rightarrow> bytes \<Rightarrow> byte \<Rightarrow> bytes" where
  "encode buflen source illegal esc =
     (if buflen = 0 then [] else encoding_loop (encode_char illegal esc) buflen source [])"

definition percent_step :: "byte \<Rightarrow> decode_step" where
  "percent_step esc room ch src =
     (if ch = esc then (case hex_pair src of Some v \<Rightarrow> Some ([v], 2) | None \<Rightarrow> Some ([ch], 0)) else Some ([ch], 0))"

definition decode :: "nat \<Rightarrow> bytes \<Rightarrow> byte \<Rightarrow> bytes" where
  "decode buflen source esc = (if buflen = 0 then [] else decoding_loop (percent_step esc) buflen source [])"

section \<open>URLs\<close>

definition URL_UNSAFE :: byte where "URL_UNSAFE = 0x1"
definition XML_UNSAFE :: byte where "XML_UNSAFE = 0x2"
definition HTML_UNSAFE :: byte where "HTML_UNSAFE = 0x2"

definition ASCII_CLASS :: bytes where
  "ASCII_CLASS =
    [1,1,1,1,1,1,1,1,1,1,1,1,1,1,1,1,1,1,1,1,1,1,1,1,1,1,1,1,1,1,1,1,
     1,0,3,1,1,1,3,2,0,0,0,1,1,0,0,1,0,0,0,0,0,0,0,0,0,0,1,1,3,1,3,1,
     1,0,0,0,0,0,0,0,0,0,0,0,0,0,0,0,0,0,0,0,0,0,0,0,0,0,0,1,1,1,1,0,
     1,0,0,0,0,0,0,0,0,0,0,0,0,0,0,0,0,0,0,0,0,0,0,0,0,0,0,1,1,1,0,1]"

definition unsafe :: "byte \<Rightarrow> byte \<Rightarrow> bool" where
  "unsafe cls ch \<longleftrightarrow> ch < 128 \<and> (ASCII_CLASS ! unat ch) AND cls \<noteq> 0"

definition url_char :: "byte \<Rightarrow> bytes" where
  "url_char ch =
     (if unsafe URL_UNSAFE ch then [37, hex_encode (hi_nibble ch), hex_encode (lo_nibble ch)] else [ch])"

definition url_encode :: "nat \<Rightarrow> bytes \<Rightarrow> bytes" where
  "url_encode buflen source = (if buflen = 0 then [] else encoding_loop url_char buflen source [])"

text \<open>What \<^verbatim>\<open>url_encode\<close> and \<^verbatim>\<open>url_decode\<close> return without a buffer.\<close>

definition url_encode_size :: "nat \<Rightarrow> nat" where
  "url_encode_size srclen = srclen * 3 + 1"

definition url_decode_size :: "nat \<Rightarrow> nat" where
  "url_decode_size srclen = srclen + 1"

definition url_step :: decode_step where
  "url_step room ch src = (if ch = 43 then Some ([32], 0) else percent_step 37 room ch src)"

definition url_decode :: "nat \<Rightarrow> bytes \<Rightarrow> bytes" where
  "url_decode buflen source = (if buflen = 0 then [] else decoding_loop url_step buflen source [])"

section \<open>UTF-8\<close>

definition utf8_decode :: "bytes \<Rightarrow> (nat \<times> uint64) option" where
  "utf8_decode s =
     (if s ! 0 AND 0x80 = 0 then Some (1, ucast (s ! 0))
      else if length s < 2 \<or> s ! 1 AND 0xC0 \<noteq> 0x80 then None
      else let v1 = ucast (s ! 1 AND 0x3F) :: uint64 in
      if s ! 0 AND 0xE0 = 0xC0 then Some (2, push_bit 6 (ucast (s ! 0 AND 0x1F)) OR v1)
      else if length s < 3 \<or> s ! 2 AND 0xC0 \<noteq> 0x80 then None
      else let v2 = push_bit 6 v1 OR ucast (s ! 2 AND 0x3F) in
      if s ! 0 AND 0xF0 = 0xE0 then Some (3, push_bit 12 (ucast (s ! 0 AND 0x0F)) OR v2)
      else if length s < 4 \<or> s ! 3 AND 0xC0 \<noteq> 0x80 then None
      else let v3 = push_bit 6 v2 OR ucast (s ! 3 AND 0x3F) in
      if s ! 0 AND 0xF8 = 0xF0 then Some (4, push_bit 18 (ucast (s ! 0 AND 0x07)) OR v3) else None)"

definition utf8_encode :: "nat \<Rightarrow> uint64 \<Rightarrow> bytes" where
  "utf8_encode buflen v =
     (if v \<le> 0x7F \<and> buflen \<ge> 1 then [ucast v]
      else if v \<le> 0x7FF \<and> buflen \<ge> 2 then [0xC0 OR shr_byte 6 v, 0x80 OR ucast (v AND 0x3F)]
      else if v \<le> 0xFFFF \<and> buflen \<ge> 3 then
        [0xE0 OR shr_byte 12 v, 0x80 OR ucast (drop_bit 6 v AND 0x3F), 0x80 OR ucast (v AND 0x3F)]
      else if v \<le> 0x1FFFFF \<and> buflen \<ge> 4 then
        [0xF0 OR shr_byte 18 v, 0x80 OR ucast (drop_bit 12 v AND 0x3F), 0x80 OR ucast (drop_bit 6 v AND 0x3F),
         0x80 OR ucast (v AND 0x3F)]
      else [])"

section \<open>XML and HTML\<close>

definition xml_seq :: "byte \<Rightarrow> bytes" where
  "xml_seq ch =
     (if ch = 60 then bytes_of_string ''&lt;'' else if ch = 62 then bytes_of_string ''&gt;''
      else if ch = 39 then bytes_of_string ''&apos;'' else if ch = 34 then bytes_of_string ''&quot;''
      else bytes_of_string ''&amp;'')"

definition xml_char :: "byte \<Rightarrow> bytes" where
  "xml_char ch = (if unsafe XML_UNSAFE ch then xml_seq ch else [ch])"

definition xml_encode :: "nat \<Rightarrow> bytes \<Rightarrow> bytes" where
  "xml_encode buflen source = (if buflen = 0 then [] else encoding_loop xml_char buflen source [])"

text \<open>
  \<^verbatim>\<open>strtoul\<close> on the bytes from its argument on, up to what memory holds: white space, a sign, in base 16 a prefix
  \<^verbatim>\<open>0x\<close>, then digits; the value saturates at \<^verbatim>\<open>ULONG_MAX\<close> and a minus negates it; without a digit it
  is 0 and nothing is consumed.
\<close>

definition digit_val :: "nat \<Rightarrow> byte \<Rightarrow> nat option" where
  "digit_val base ch =
     (let d = (if 48 \<le> ch \<and> ch \<le> 57 then unat ch - 48 else if 65 \<le> ch \<and> ch \<le> 90 then unat ch - 55
               else if 97 \<le> ch \<and> ch \<le> 122 then unat ch - 87 else 99)
      in if d < base then Some d else None)"

fun digits :: "nat \<Rightarrow> bytes \<Rightarrow> nat \<Rightarrow> nat \<Rightarrow> nat \<times> nat" where
  "digits base [] v n = (v, n)"
| "digits base (ch # cs) v n =
     (case digit_val base ch of None \<Rightarrow> (v, n) | Some d \<Rightarrow> digits base cs (v * base + d) (Suc n))"

definition byte_space :: "byte \<Rightarrow> bool" where
  "byte_space c \<longleftrightarrow> c = 32 \<or> 9 \<le> c \<and> c \<le> 13"

definition strtoul :: "nat \<Rightarrow> bytes \<Rightarrow> uint64 \<times> nat" where
  "strtoul base mem =
     (let sp = length (takeWhile byte_space mem); m1 = drop sp mem;
          sg = (if m1 \<noteq> [] \<and> (m1 ! 0 = 43 \<or> m1 ! 0 = 45) then 1 else 0);
          neg = (m1 \<noteq> [] \<and> m1 ! 0 = 45); m2 = drop sg m1;
          px = (if base = 16 \<and> length m2 > 2 \<and> m2 ! 0 = 48 \<and> (m2 ! 1 = 120 \<or> m2 ! 1 = 88) \<and>
                   digit_val 16 (m2 ! 2) \<noteq> None then 2 else 0);
          (v, n) = digits base (drop px m2) 0 0;
          w = of_nat (min v (2 ^ 64 - 1))
      in if n = 0 then (0, 0) else (if neg \<and> v < 2 ^ 64 then - w else w, sp + sg + px + n))"

text \<open>\<open>starts s src\<close> is \<^verbatim>\<open>memcmp(source + srcpos, s, |s|) == 0\<close> after the test that so many characters are left.\<close>

definition starts :: "string \<Rightarrow> bytes \<Rightarrow> bool" where
  "starts s src \<longleftrightarrow> length s \<le> length src \<and> take (length s) src = bytes_of_string s"

text \<open>\<open>after\<close> is what memory holds behind the source: \<^verbatim>\<open>strtoul\<close> reads on there.\<close>

definition xml_number :: "bytes \<Rightarrow> nat \<Rightarrow> bytes \<Rightarrow> (bytes \<times> nat) option" where
  "xml_number after room src =
     (let hex = (length src > 1 \<and> src ! 1 = 120);
          off = (if hex then 2 else 1);
          (val, n) = strtoul (if hex then 16 else 10) (drop off src @ after);
          ptr = off + n
      in if ptr < length src \<and> src ! ptr = 59 then
           (case utf8_encode room val of [] \<Rightarrow> None | seq \<Rightarrow> Some (seq, ptr + 1))
         else None)"

definition xml_step :: "bytes \<Rightarrow> decode_step" where
  "xml_step after room ch src =
     (if ch \<noteq> 38 then Some ([ch], 0)
      else if starts ''lt;'' src then Some ([60], 3)
      else if starts ''gt;'' src then Some ([62], 3)
      else if starts ''apos;'' src then Some ([39], 5)
      else if starts ''quot;'' src then Some ([34], 5)
      else if starts ''amp;'' src then Some ([38], 4)
      else if src \<noteq> [] \<and> src ! 0 = 35 then xml_number after room src
      else None)"

definition xml_decode :: "bytes \<Rightarrow> nat \<Rightarrow> bytes \<Rightarrow> bytes" where
  "xml_decode after buflen source = (if buflen = 0 then [] else decoding_loop (xml_step after) buflen source [])"

definition html_decode :: "bytes \<Rightarrow> nat \<Rightarrow> bytes \<Rightarrow> bytes" where
  "html_decode after buflen source = xml_decode after buflen source"

fun decimal :: "nat \<Rightarrow> bytes" where
  "decimal n = (if n < 10 then [of_nat (48 + n)] else decimal (n div 10) @ [of_nat (48 + n mod 10)])"

declare decimal.simps [simp del]

definition html_ascii :: "byte \<Rightarrow> bytes" where
  "html_ascii ch =
     (if unsafe HTML_UNSAFE ch then (if ch = 39 then bytes_of_string ''&#39;'' else xml_seq ch) else [ch])"

text \<open>The sequence for the character at the start of a non-empty source, and how many more characters it takes.\<close>

definition html_char :: "byte \<Rightarrow> bytes \<Rightarrow> bytes \<times> nat" where
  "html_char ch src =
     (if ch < 128 then (html_ascii ch, 0)
      else let (val, n) = (case utf8_decode (ch # src) of Some (vallen, v) \<Rightarrow> (unat v, vallen - 1) | None \<Rightarrow> (unat ch, 0))
           in (bytes_of_string ''&#'' @ decimal val @ [59], n))"

fun html_encode_loop :: "nat \<Rightarrow> bytes \<Rightarrow> bytes \<Rightarrow> bytes" where
  "html_encode_loop buflen [] out = out"
| "html_encode_loop buflen (ch # src) out =
     (if length out + 1 < buflen then
        (case html_char ch src of (seq, n) \<Rightarrow>
           if length out + length seq \<ge> buflen then out else html_encode_loop buflen (drop n src) (out @ seq))
      else out)"

definition html_encode :: "nat \<Rightarrow> bytes \<Rightarrow> bytes" where
  "html_encode buflen source = (if buflen = 0 then [] else html_encode_loop buflen source [])"

section \<open>Hexadecimal text\<close>

text \<open>A delimiter 0 means none.  The source is not empty in the recursion; no delimiter follows the last byte.\<close>

fun hex_bytes :: "byte \<Rightarrow> bytes \<Rightarrow> bytes" where
  "hex_bytes delimiter [] = []"
| "hex_bytes delimiter (ch # src) =
     hex_encode (hi_nibble ch) # hex_encode (lo_nibble ch) #
     (if delimiter \<noteq> 0 \<and> src \<noteq> [] then delimiter # hex_bytes delimiter src else hex_bytes delimiter src)"

definition hex_encode_with_delimiter :: "nat \<Rightarrow> bytes \<Rightarrow> byte \<Rightarrow> bytes" where
  "hex_encode_with_delimiter buflen source delimiter =
     (if buflen = 0 then []
      else let needed = (if delimiter \<noteq> 0 then length source * 3 else length source * 2 + 1)
           in if buflen < needed then [] else hex_bytes delimiter source)"

definition hex_encode_string :: "bytes \<Rightarrow> byte \<Rightarrow> bytes" where
  "hex_encode_string source delimiter = hex_encode_with_delimiter (length source * 3) source delimiter"

text \<open>The loop of the decoder; \<open>None\<close> is \<^verbatim>\<open>return 0\<close>.\<close>

fun hex_decode_loop :: "byte \<Rightarrow> bytes \<Rightarrow> bytes option" where
  "hex_decode_loop delimiter [] = Some []"
| "hex_decode_loop delimiter [a] = None"
| "hex_decode_loop delimiter (a # b # src) =
     (case hex_pair [a, b] of None \<Rightarrow> None
      | Some v \<Rightarrow>
          if delimiter \<noteq> 0 \<and> length src > 1 then
            (if src ! 0 \<noteq> delimiter then None else map_option (Cons v) (hex_decode_loop delimiter (tl src)))
          else map_option (Cons v) (hex_decode_loop delimiter src))"

definition hex_decode_with_delimiter :: "nat \<Rightarrow> bytes \<Rightarrow> byte \<Rightarrow> bytes" where
  "hex_decode_with_delimiter buflen source delimiter =
     (if buflen = 0 then []
      else let needed = (if delimiter \<noteq> 0 then (length source + 1) div 3 else length source div 2)
           in if buflen < needed then [] else (case hex_decode_loop delimiter source of None \<Rightarrow> [] | Some out \<Rightarrow> out))"

section \<open>Transformations of strings\<close>

definition transform :: "nat \<Rightarrow> bytes \<Rightarrow> (nat \<Rightarrow> bytes \<Rightarrow> bytes) \<Rightarrow> bytes" where
  "transform maxlen source t = t (maxlen + 1) source"

definition s_transform :: "(nat \<Rightarrow> nat) \<Rightarrow> bytes \<Rightarrow> (nat \<Rightarrow> bytes \<Rightarrow> bytes) \<Rightarrow> bytes" where
  "s_transform estimate source t = t (estimate (length source)) source"

section \<open>Fields of a string\<close>

text \<open>\<open>cur\<close> is the piece of the source between \<^verbatim>\<open>last\<close> and \<^verbatim>\<open>i\<close>.\<close>

fun tokenize_loop :: "byte \<Rightarrow> bytes \<Rightarrow> bytes \<Rightarrow> bytes list" where
  "tokenize_loop delimiter [] cur = (if cur \<noteq> [] then [cur] else [])"
| "tokenize_loop delimiter (ch # src) cur =
     (if ch = delimiter then (if cur \<noteq> [] then cur # tokenize_loop delimiter src [] else tokenize_loop delimiter src [])
      else tokenize_loop delimiter src (cur @ [ch]))"

definition tokenize :: "bytes \<Rightarrow> byte \<Rightarrow> bytes list" where
  "tokenize source delimiter = tokenize_loop delimiter source []"

definition tokenize_append :: "bytes \<Rightarrow> byte \<Rightarrow> bytes list \<Rightarrow> bytes list" where
  "tokenize_append source delimiter fields = fields @ tokenize source delimiter"

fun find_from :: "byte \<Rightarrow> bytes \<Rightarrow> nat option" where
  "find_from c [] = None"
| "find_from c (x # xs) = (if x = c then Some 0 else map_option Suc (find_from c xs))"

lemma find_from_less: "find_from c xs = Some i \<Longrightarrow> i < length xs"
  by (induction xs arbitrary: i) (auto split: if_splits)

function tokenize_marks_loop :: "byte \<Rightarrow> byte \<Rightarrow> byte \<Rightarrow> bytes \<Rightarrow> bytes list \<Rightarrow> bytes list" where
  "tokenize_marks_loop delimiter start_mark end_mark remain fields =
     (if remain = [] then tokenize_append remain delimiter fields
      else case find_from start_mark remain of
        None \<Rightarrow> tokenize_append remain delimiter fields
      | Some start_pos \<Rightarrow>
          (let pre_mark = (if start_pos > 0 then take (start_pos - 1) remain else []);
               rest = drop (start_pos + 1) remain
           in case find_from end_mark rest of
                None \<Rightarrow> tokenize_append remain delimiter fields
              | Some n \<Rightarrow>
                  tokenize_marks_loop delimiter start_mark end_mark (drop (n + 1) rest)
                    (tokenize_append pre_mark delimiter fields @ [take n rest])))"
  by pat_completeness auto
termination
  by (relation "measure (\<lambda>(_, _, _, remain, _). length remain)") (auto dest!: find_from_less)

declare tokenize_marks_loop.simps [simp del]

definition tokenize_marks :: "bytes \<Rightarrow> byte \<Rightarrow> byte \<Rightarrow> byte \<Rightarrow> bytes list" where
  "tokenize_marks source delimiter start_mark end_mark = tokenize_marks_loop delimiter start_mark end_mark source []"

fun split_loop :: "byte \<Rightarrow> bytes \<Rightarrow> bytes \<Rightarrow> bytes list" where
  "split_loop delimiter [] cur = [cur]"
| "split_loop delimiter (ch # src) cur =
     (if ch = delimiter then cur # split_loop delimiter src [] else split_loop delimiter src (cur @ [ch]))"

definition split :: "bytes \<Rightarrow> byte \<Rightarrow> bytes list" where
  "split source delimiter = split_loop delimiter source []"

text \<open>\<^verbatim>\<open>char\<close> is signed.\<close>

definition make_char_safe_for_filename :: "byte \<Rightarrow> byte" where
  "make_char_safe_for_filename c =
     (if sint c < 32 then 95 else if c \<in> {60, 62, 58, 34, 47, 92, 124, 42, 63} then 95 else c)"

section \<open>The encoders\<close>

lemma encoding_loop_prefix:
  assumes "\<And>c. enc c \<noteq> []"
  shows "\<exists>k. encoding_loop enc buflen src out = out @ concat (map enc (take k src)) \<and>
    (length out < buflen \<longrightarrow> length (encoding_loop enc buflen src out) < buflen)"
proof (induction src arbitrary: out)
  case Nil
  then show ?case by simp
next
  case (Cons ch src)
  show ?case
  proof (cases "length out + 1 < buflen \<and> length out + length (enc ch) < buflen")
    case True
    then have step: "encoding_loop enc buflen (ch # src) out = encoding_loop enc buflen src (out @ enc ch)"
      and fits: "length (out @ enc ch) < buflen" by auto
    obtain k where k: "encoding_loop enc buflen src (out @ enc ch) = (out @ enc ch) @ concat (map enc (take k src))"
      "length (encoding_loop enc buflen src (out @ enc ch)) < buflen"
      using Cons.IH [of "out @ enc ch"] fits by blast
    have "encoding_loop enc buflen (ch # src) out = out @ concat (map enc (take (Suc k) (ch # src)))"
      unfolding step k(1) by simp
    then show ?thesis using k(2) unfolding step by metis
  next
    case False
    then have "encoding_loop enc buflen (ch # src) out = out @ concat (map enc (take 0 (ch # src)))" by auto
    then show ?thesis by (metis append.right_neutral concat.simps(1) list.simps(8) take0)
  qed
qed

lemma encoding_loop_full:
  assumes "\<And>c. enc c \<noteq> []" and "length out + length (concat (map enc src)) < buflen"
  shows "encoding_loop enc buflen src out = out @ concat (map enc src)"
  using assms(2)
proof (induction src arbitrary: out)
  case (Cons ch src)
  have "0 < length (enc ch)" using assms(1) by (simp only: length_greater_0_conv not_False_eq_True)
  then have "length out + 1 < buflen" using Cons.prems by (simp only: concat.simps list.map length_append)
  moreover have "length (out @ enc ch) + length (concat (map enc src)) < buflen" using Cons.prems by simp
  ultimately show ?case using Cons.IH [of "out @ enc ch"] Cons.prems by simp
qed simp

text \<open>
  A decoder undoes an encoder when its body, run on the start of the sequence of a character, stores the character and
  consumes the sequence.
\<close>

locale char_codec =
  fixes enc :: "byte \<Rightarrow> bytes" and step :: decode_step
  assumes enc_step: "2 \<le> room \<Longrightarrow> \<exists>ch src k. enc c = ch # src \<and> step room ch (src @ rest) = Some ([c], k) \<and> k = length src"
begin

lemma enc_not_Nil: "enc c \<noteq> []"
  using enc_step [of 2 c "[]"] by auto

lemma decode_encode:
  assumes "length out + length s < buflen"
  shows "decoding_loop step buflen (concat (map enc s)) out = out @ s"
  using assms
proof (induction s arbitrary: out)
  case (Cons c s)
  have room: "2 \<le> buflen - length out" using Cons.prems by simp
  obtain ch src where e: "enc c = ch # src" "step (buflen - length out) ch (src @ concat (map enc s)) = Some ([c], length src)"
    using enc_step [OF room] by blast
  then show ?case using Cons.IH [of "out @ [c]"] Cons.prems by simp
qed simp

lemma codec_roundtrip:
  assumes "length (concat (map enc s)) < n" and "length s < m"
  shows "decoding_loop step m (encoding_loop enc n s []) [] = s"
proof -
  have "encoding_loop enc n s [] = concat (map enc s)"
    using encoding_loop_full [where out = "[]", OF enc_not_Nil] assms(1) by simp
  then show ?thesis using decode_encode [where out = "[]"] assms(2) by simp
qed

end

section \<open>The codecs\<close>

lemma hex_digit_val:
  assumes "v < 16"
  shows "hex_decode (hex_encode v) = Some v"
proof -
  have "unat v < 16" using assms by (simp add: word_less_nat_alt)
  then have "v \<in> set (map of_nat [0..<16])" by (auto simp: image_iff intro!: bexI [of _ "unat v"])
  moreover have "list_all (\<lambda>v. hex_decode (hex_encode v) = Some v) (map of_nat [0..<16])" by code_simp
  ultimately show ?thesis by (simp only: list_all_iff)
qed

lemma nibbles: "hi_nibble c < 16" "lo_nibble c < 16" "push_bit 4 (hi_nibble c) OR lo_nibble c = c"
proof -
  have "x AND 0xF < (16 :: byte)" for x using word_and_le1 [of x 15] by (rule le_less_trans) simp
  then show "hi_nibble c < 16" "lo_nibble c < 16" by (simp_all add: hi_nibble_def lo_nibble_def)
  show "push_bit 4 (hi_nibble c) OR lo_nibble c = c"
  proof -
    have m: "(0xF :: byte) = mask 4" by (simp add: mask_eq_exp_minus_1)
    show ?thesis unfolding hi_nibble_def lo_nibble_def m take_bit_eq_mask [symmetric]
      by (rule bit_word_eqI) (auto simp: bit_simps)
  qed
qed

lemma hex_nibbles: "hex_pair (hex_encode (hi_nibble c) # hex_encode (lo_nibble c) # r) = Some c"
  by (simp add: hex_pair_def hex_digit_val nibbles)

interpretation escape_codec: char_codec "escape_seq illegal esc" "unescape_step esc" for illegal esc
  by unfold_locales (auto simp: escape_seq_def unescape_step_def)

interpretation percent_codec: char_codec "encode_char illegal esc" "percent_step esc" for illegal esc
  by unfold_locales (auto simp: encode_char_def percent_step_def hex_nibbles)

lemma url_unsafe [simp]: "unsafe URL_UNSAFE 43" "unsafe URL_UNSAFE 37"
  by (simp_all add: unsafe_def URL_UNSAFE_def ASCII_CLASS_def)

interpretation url_codec: char_codec url_char url_step
  by unfold_locales (auto simp: url_char_def url_step_def percent_step_def hex_nibbles)

lemma xml_unsafe: "unsafe XML_UNSAFE c \<longleftrightarrow> c \<in> {60, 62, 39, 34, 38}"
proof -
  have f: "filter (\<lambda>(i, x). x AND 2 \<noteq> 0) (enumerate 0 ASCII_CLASS) = [(34, 3), (38, 3), (39, 2), (60, 3), (62, 3)]"
    by (simp add: ASCII_CLASS_def)
  have l: "length ASCII_CLASS = 128" by (simp add: ASCII_CLASS_def)
  have "unsafe XML_UNSAFE c \<longleftrightarrow> unat c < 128 \<and> ASCII_CLASS ! unat c AND 2 \<noteq> 0"
    by (simp add: unsafe_def XML_UNSAFE_def word_less_nat_alt)
  also have "\<dots> \<longleftrightarrow> unat c \<in> fst ` set (filter (\<lambda>(i, x). x AND 2 \<noteq> 0) (enumerate 0 ASCII_CLASS))"
    using l by (auto simp: in_set_enumerate_eq image_iff)
  also have "\<dots> \<longleftrightarrow> unat c \<in> {34, 38, 39, 60, 62}" unfolding f by simp
  also have "\<dots> \<longleftrightarrow> c \<in> {60, 62, 39, 34, 38}" by (auto simp: word_unat_eq_iff)
  finally show ?thesis .
qed

interpretation xml_codec: char_codec xml_char "xml_step after" for after
proof unfold_locales
  fix room :: nat and c :: byte and rest :: bytes
  have bs: "bytes_of_string ''&lt;'' = [38, 108, 116, 59]" "bytes_of_string ''&gt;'' = [38, 103, 116, 59]"
    "bytes_of_string ''&apos;'' = [38, 97, 112, 111, 115, 59]" "bytes_of_string ''&quot;'' = [38, 113, 117, 111, 116, 59]"
    "bytes_of_string ''&amp;'' = [38, 97, 109, 112, 59]" by code_simp+
  have st: "bytes_of_string ''lt;'' = [108, 116, 59]" "bytes_of_string ''gt;'' = [103, 116, 59]"
    "bytes_of_string ''apos;'' = [97, 112, 111, 115, 59]" "bytes_of_string ''quot;'' = [113, 117, 111, 116, 59]"
    "bytes_of_string ''amp;'' = [97, 109, 112, 59]" by code_simp+
  show "\<exists>ch src k. xml_char c = ch # src \<and> xml_step after room ch (src @ rest) = Some ([c], k) \<and> k = length src"
  proof (cases "c \<in> {60, 62, 39, 34, 38}")
    case False
    then show ?thesis by (simp add: xml_char_def xml_unsafe xml_step_def)
  next
    case True
    then show ?thesis by (auto simp: xml_char_def xml_unsafe xml_seq_def bs xml_step_def starts_def st)
  qed
qed

section \<open>Buffers\<close>

text \<open>
  The encoders never write outside their buffer: what they store and the closing NUL fit, and what they store is
  the encoding of a prefix of the source, never a part of a sequence.  \<^verbatim>\<open>s_transform\<close> with \<^verbatim>\<open>url_encode\<close> encodes the whole
  source, since the size the routine estimates is enough.
\<close>

theorem encoders_stay_in_buffer:
  assumes "0 < n"
  shows "(\<exists>k. escape n s illegal esc = concat (map (escape_seq illegal esc) (take k s))) \<and> length (escape n s illegal esc) < n \<and>
    (\<exists>k. encode n s illegal esc = concat (map (encode_char illegal esc) (take k s))) \<and> length (encode n s illegal esc) < n \<and>
    (\<exists>k. url_encode n s = concat (map url_char (take k s))) \<and> length (url_encode n s) < n \<and>
    (\<exists>k. xml_encode n s = concat (map xml_char (take k s))) \<and> length (xml_encode n s) < n \<and>
    s_transform url_encode_size s url_encode = concat (map url_char s)"
proof -
  have u3: "length (concat (map url_char s)) \<le> length s * 3"
    by (induction s) (simp_all add: url_char_def)
  have "s_transform url_encode_size s url_encode = concat (map url_char s)"
    using encoding_loop_full [where out = "[]" and src = s and buflen = "url_encode_size (length s)", OF url_codec.enc_not_Nil] u3
    by (simp add: s_transform_def url_encode_def url_encode_size_def)
  moreover note encoding_loop_prefix [where out = "[]" and buflen = n and src = s and enc = "escape_seq illegal esc", OF escape_codec.enc_not_Nil]
    encoding_loop_prefix [where out = "[]" and buflen = n and src = s and enc = "encode_char illegal esc", OF percent_codec.enc_not_Nil]
    encoding_loop_prefix [where out = "[]" and buflen = n and src = s and enc = "url_char", OF url_codec.enc_not_Nil]
    encoding_loop_prefix [where out = "[]" and buflen = n and src = s and enc = "xml_char", OF xml_codec.enc_not_Nil]
  ultimately show ?thesis
    using assms unfolding escape_def encode_def url_encode_def xml_encode_def by auto
qed

theorem encoders_stay_in_buffer_witness:
  "(\<exists>k. url_encode 5 [65, 37, 66, 38] = concat (map url_char (take k [65, 37, 66, 38]))) \<and> length (url_encode 5 [65, 37, 66, 38]) < 5"
  using encoders_stay_in_buffer [of 5 "[65, 37, 66, 38]" "[]" 92] by simp

text \<open>
  \<^verbatim>\<open>xml_decode\<close> can write one byte behind its buffer: it gives the whole rest of the buffer to
  \<^verbatim>\<open>utf8_encode\<close> without keeping a byte for the closing NUL.  For every buffer of at least two bytes there is a
  source that fills it completely.
\<close>

theorem xml_decode_overruns:
  assumes "2 \<le> n"
  shows "length (xml_decode after n (replicate (n - 2) 97 @ bytes_of_string ''&#233;'')) = n"
proof -
  have plain: "decoding_loop (xml_step after) n (replicate k 97 @ src) out = decoding_loop (xml_step after) n src (out @ replicate k 97)"
    if "length out + k + 1 < n" for k src out
    using that
  proof (induction k arbitrary: out)
    case (Suc k)
    then show ?case using Suc.IH [of "out @ [97]"] by (simp add: xml_step_def replicate_app_Cons_same)
  qed simp
  have b: "bytes_of_string ''&#233;'' = [38, 35, 50, 51, 51, 59]" by code_simp
  have num: "strtoul 10 ([50, 51, 51, 59] @ after) = (233, 3)"
    by (simp add: strtoul_def byte_space_def digit_val_def Let_def)
  have "utf8_encode 2 233 = [0xC3, 0xA9]" by code_simp
  then have x: "xml_number after 2 [35, 50, 51, 51, 59] = Some ([0xC3, 0xA9], 5)"
    using num by (simp add: xml_number_def Let_def)
  have st: "bytes_of_string ''lt;'' = [108, 116, 59]" "bytes_of_string ''gt;'' = [103, 116, 59]"
    "bytes_of_string ''apos;'' = [97, 112, 111, 115, 59]" "bytes_of_string ''quot;'' = [113, 117, 111, 116, 59]"
    "bytes_of_string ''amp;'' = [97, 109, 112, 59]" by code_simp+
  have "xml_step after 2 38 [35, 50, 51, 51, 59] = Some ([0xC3, 0xA9], 5)"
    using x by (simp add: xml_step_def starts_def st)
  then have last: "decoding_loop (xml_step after) n [38, 35, 50, 51, 51, 59] (replicate (n - 2) 97) = replicate (n - 2) 97 @ [0xC3, 0xA9]"
    using assms by simp
  have "decoding_loop (xml_step after) n (replicate (n - 2) 97 @ [38, 35, 50, 51, 51, 59]) [] = replicate (n - 2) 97 @ [0xC3, 0xA9]"
    using plain [of "[]" "n - 2" "[38, 35, 50, 51, 51, 59]"] assms unfolding append_Nil last by simp
  then show ?thesis unfolding xml_decode_def b using assms by (simp del: decoding_loop.simps)
qed

theorem xml_decode_overruns_witness:
  "length (xml_decode [] 4 (replicate 2 97 @ bytes_of_string ''&#233;'')) = 4"
  using xml_decode_overruns [of 4 "[]"] by simp

section \<open>Hexadecimal text and UTF-8\<close>

lemma hex_decode_loop_bytes: "hex_decode_loop d (hex_bytes d s) = Some s"
proof (induction s)
  case (Cons c s)
  have p: "hex_pair [hex_encode (hi_nibble c), hex_encode (lo_nibble c)] = Some c" by (rule hex_nibbles)
  show ?case
  proof (cases "s = []")
    case False
    then have "hex_bytes d s \<noteq> []" by (cases s) simp_all
    then show ?thesis using Cons.IH p False by (cases "d = 0") simp_all
  qed (simp add: p)
qed simp

lemma length_hex_bytes:
  "length (hex_bytes d s) = (if d \<noteq> 0 \<and> s \<noteq> [] then 3 * length s - 1 else 2 * length s)"
  by (induction s) auto

text \<open>
  The hexadecimal text of every byte string, with any delimiter or none, is decoded to that string; the text of
  \<^verbatim>\<open>hex_encode\<close> of a string is the complete one, and the decoder needs as many bytes as the string has.
\<close>

theorem hex_text_roundtrip:
  assumes "length s \<le> n" and "0 < n"
  shows "hex_decode_with_delimiter n (hex_encode_string s delimiter) delimiter = s"
proof (cases "s = []")
  case True
  then show ?thesis by (simp add: hex_decode_with_delimiter_def hex_encode_string_def hex_encode_with_delimiter_def)
next
  case False
  then have l: "1 \<le> length s" by (cases s) simp_all
  then have "hex_encode_string s delimiter = hex_bytes delimiter s"
    by (auto simp: hex_encode_string_def hex_encode_with_delimiter_def)
  moreover have "(if delimiter \<noteq> 0 then (length (hex_bytes delimiter s) + 1) div 3 else length (hex_bytes delimiter s) div 2) = length s"
    using False l by (simp add: length_hex_bytes)
  ultimately show ?thesis
    using assms by (simp add: hex_decode_with_delimiter_def hex_decode_loop_bytes Let_def)
qed

theorem hex_text_roundtrip_witness:
  "hex_decode_with_delimiter 3 (hex_encode_string [0, 171, 255] 58) 58 = [0, 171, 255]"
  using hex_text_roundtrip [of "[0, 171, 255]" 3 58] by simp

text \<open>
  C36 (roundtrip).  The decoders of the escape, percent, URL, XML and hexadecimal codecs give back what their encoders were given, byte for
  byte and for every byte string, when both buffers are large enough: \<^verbatim>\<open>unescape\<close> of \<^verbatim>\<open>escape\<close>, \<^verbatim>\<open>decode\<close> of \<^verbatim>\<open>encode\<close>, \<^verbatim>\<open>url_decode\<close> of \<^verbatim>\<open>url_encode\<close>, which also
  encodes the percent and the plus sign, \<^verbatim>\<open>xml_decode\<close> of \<^verbatim>\<open>xml_encode\<close>, and \<^verbatim>\<open>hex_decode\<close> of \<^verbatim>\<open>hex_encode\<close> with any delimiter or none.  Six bytes per character and one for the
  NUL are always enough.
\<close>

theorem string_codecs_roundtrip:
  assumes "6 * length s < n" and "length s < m"
  shows "unescape m (escape n s illegal esc) esc = s \<and> decode m (encode n s illegal esc) esc = s \<and>
    url_decode m (url_encode n s) = s \<and> xml_decode after m (xml_encode n s) = s \<and>
    hex_decode_with_delimiter m (hex_encode_string s delimiter) delimiter = s"
proof (intro conjI)
  have bound: "length (concat (map enc s)) < n" if "\<And>c. length (enc c) \<le> 6" for enc :: "byte \<Rightarrow> bytes"
  proof -
    have "length (concat (map enc s)) \<le> 6 * length s"
      using that by (induction s) (simp_all add: add_mono)
    then show ?thesis using assms(1) by simp
  qed
  have xml6: "length (xml_char c) \<le> 6" for c by (auto simp: xml_char_def xml_seq_def)
  note simps = escape_seq_def encode_char_def url_char_def
  show "unescape m (escape n s illegal esc) esc = s"
    using escape_codec.codec_roundtrip [OF bound, of illegal esc m] assms
    by (auto simp: unescape_def escape_def simps)
  show "decode m (encode n s illegal esc) esc = s"
    using percent_codec.codec_roundtrip [OF bound, of illegal esc m] assms
    by (auto simp: decode_def encode_def simps)
  show "url_decode m (url_encode n s) = s"
    using url_codec.codec_roundtrip [OF bound, of m] assms by (auto simp: url_decode_def url_encode_def simps)
  show "xml_decode after m (xml_encode n s) = s"
    using xml_codec.codec_roundtrip [OF bound, of m after] assms xml6 by (auto simp: xml_decode_def xml_encode_def)
  show "hex_decode_with_delimiter m (hex_encode_string s delimiter) delimiter = s" using assms(2) by (intro hex_text_roundtrip) simp_all
qed

theorem string_codecs_roundtrip_witness:
  "unescape 5 (escape 25 [65, 37, 0, 60] [37] 92) 92 = [65, 37, 0, 60] \<and> url_decode 5 (url_encode 25 [65, 37, 0, 60]) = [65, 37, 0, 60] \<and>
   xml_decode [] 5 (xml_encode 25 [65, 37, 0, 60]) = [65, 37, 0, 60] \<and>
   hex_decode_with_delimiter 5 (hex_encode_string [65, 37, 0, 60] 58) 58 = [65, 37, 0, 60]"
  using string_codecs_roundtrip [of "[65, 37, 0, 60]" 25 5 "[37]" 92 "[]" 58] by simp

lemma and_mask_byte: "(0x3F :: byte) = mask 6" "(0x1F :: byte) = mask 5" "(0x0F :: byte) = mask 4" "(0x07 :: byte) = mask 3"
  "(0x3F :: uint64) = mask 6"
  by (simp_all add: mask_eq_exp_minus_1)

lemma bits_above:
  assumes "unat (v :: uint64) < 2 ^ k" and "k \<le> n"
  shows "\<not> bit v n"
proof
  assume "bit v n"
  then have "bit (unat v) n" by (simp add: bit_unsigned_iff)
  moreover have "take_bit k (unat v) = unat v" using assms(1) by (simp add: take_bit_nat_eq_self)
  ultimately show False using assms(2) by (metis bit_take_bit_iff not_le)
qed

lemma utf8_trail:
  fixes v :: uint64
  shows "(0x80 OR ucast (drop_bit k v AND 0x3F) :: byte) AND 0xC0 = 0x80"
    "ucast ((0x80 OR ucast (drop_bit k v AND 0x3F) :: byte) AND 0x3F) = take_bit 6 (drop_bit k v)"
proof -
  show "(0x80 OR ucast (drop_bit k v AND 0x3F) :: byte) AND 0xC0 = 0x80"
    by (rule byte_eqI) (simp_all add: bit_simps)
  have z: "n = 7" if "bit (0x80 :: int) n" for n
  proof -
    have "(0x80 :: int) = push_bit 7 1" by simp
    then show ?thesis using that by (auto simp only: bit_push_bit_iff bit_1_iff)
  qed
  show "ucast ((0x80 OR ucast (drop_bit k v AND 0x3F) :: byte) AND 0x3F) = take_bit 6 (drop_bit k v)"
    unfolding and_mask_byte by (rule bit_word_eqI) (auto simp: bit_simps dest: z)
qed

text \<open>The first byte of a sequence of two, three and four bytes.\<close>

lemma utf8_lead:
  fixes v :: uint64
  shows "unat v < 2 ^ 11 \<Longrightarrow> (0xC0 OR shr_byte 6 v) AND 0xE0 = 0xC0 \<and> (0xC0 OR shr_byte 6 v) AND 0x80 \<noteq> 0"
    "unat v < 2 ^ 16 \<Longrightarrow> (0xE0 OR shr_byte 12 v) AND 0xF0 = 0xE0 \<and> (0xE0 OR shr_byte 12 v) AND 0xE0 \<noteq> 0xC0 \<and>
       (0xE0 OR shr_byte 12 v) AND 0x80 \<noteq> 0"
    "unat v < 2 ^ 21 \<Longrightarrow> (0xF0 OR shr_byte 18 v) AND 0xF8 = 0xF0 \<and> (0xF0 OR shr_byte 18 v) AND 0xF0 \<noteq> 0xE0 \<and>
       (0xF0 OR shr_byte 18 v) AND 0xE0 \<noteq> 0xC0 \<and> (0xF0 OR shr_byte 18 v) AND 0x80 \<noteq> 0"
proof -
  have ne: "a \<noteq> b" if "bit a n \<noteq> bit b n" for a b :: byte and n using that by blast
  show "(0xC0 OR shr_byte 6 v) AND 0xE0 = 0xC0 \<and> (0xC0 OR shr_byte 6 v) AND 0x80 \<noteq> 0" if "unat v < 2 ^ 11"
    by (intro conjI byte_eqI ne [of _ 7]) (use bits_above [OF that] in \<open>simp_all add: bit_simps bit_shr_byte\<close>)
  show "(0xE0 OR shr_byte 12 v) AND 0xF0 = 0xE0 \<and> (0xE0 OR shr_byte 12 v) AND 0xE0 \<noteq> 0xC0 \<and>
       (0xE0 OR shr_byte 12 v) AND 0x80 \<noteq> 0" if "unat v < 2 ^ 16"
    by (intro conjI byte_eqI ne [of _ 7] ne [of _ 5 "0xC0"]) (use bits_above [OF that] in \<open>simp_all add: bit_simps bit_shr_byte\<close>)
  show "(0xF0 OR shr_byte 18 v) AND 0xF8 = 0xF0 \<and> (0xF0 OR shr_byte 18 v) AND 0xF0 \<noteq> 0xE0 \<and>
       (0xF0 OR shr_byte 18 v) AND 0xE0 \<noteq> 0xC0 \<and> (0xF0 OR shr_byte 18 v) AND 0x80 \<noteq> 0" if "unat v < 2 ^ 21"
    by (intro conjI byte_eqI ne [of _ 7] ne [of _ 5 "0xC0"] ne [of _ 4 "0xE0"]) (use bits_above [OF that] in \<open>simp_all add: bit_simps bit_shr_byte\<close>)
qed

lemma utf8_first:
  fixes v :: uint64
  shows "ucast ((0xC0 OR shr_byte 6 v) AND 0x1F) = (take_bit 5 (drop_bit 6 v) :: uint64)"
    "ucast ((0xE0 OR shr_byte 12 v) AND 0x0F) = (take_bit 4 (drop_bit 12 v) :: uint64)"
    "ucast ((0xF0 OR shr_byte 18 v) AND 0x07) = (take_bit 3 (drop_bit 18 v) :: uint64)"
proof -
  have d: "(a OR b) AND m = b AND m" if "a AND m = 0" for a b m :: byte
    using that by (simp add: and.commute bit.conj_disj_distrib)
  have e6: "(0xC0 OR shr_byte 6 v) AND 0x1F = shr_byte 6 v AND 0x1F" by (rule d) simp
  have e12: "(0xE0 OR shr_byte 12 v) AND 0x0F = shr_byte 12 v AND 0x0F" by (rule d) simp
  have e18: "(0xF0 OR shr_byte 18 v) AND 0x07 = shr_byte 18 v AND 0x07" by (rule d) simp
  show "ucast ((0xC0 OR shr_byte 6 v) AND 0x1F) = (take_bit 5 (drop_bit 6 v) :: uint64)"
    unfolding e6 unfolding and_mask_byte
    by (rule bit_word_eqI) (auto simp: bit_simps bit_shr_byte)
  show "ucast ((0xE0 OR shr_byte 12 v) AND 0x0F) = (take_bit 4 (drop_bit 12 v) :: uint64)"
    unfolding e12 unfolding and_mask_byte
    by (rule bit_word_eqI) (auto simp: bit_simps bit_shr_byte)
  show "ucast ((0xF0 OR shr_byte 18 v) AND 0x07) = (take_bit 3 (drop_bit 18 v) :: uint64)"
    unfolding e18 unfolding and_mask_byte
    by (rule bit_word_eqI) (auto simp: bit_simps bit_shr_byte)
qed

lemma utf8_merge:
  fixes v :: uint64
  shows "push_bit 6 (take_bit k (drop_bit 6 v)) OR take_bit 6 v = take_bit (6 + k) v"
    "push_bit 12 (take_bit k (drop_bit 12 v)) OR take_bit 12 v = take_bit (12 + k) v"
    "push_bit 18 (take_bit k (drop_bit 18 v)) OR take_bit 18 v = take_bit (18 + k) v"
    "push_bit 6 (take_bit 6 (drop_bit 6 v)) OR take_bit 6 v = take_bit 12 v"
    "push_bit 6 (take_bit 12 (drop_bit 6 v)) OR take_bit 6 v = take_bit 18 v"
  by (rule bit_word_eqI; auto simp: bit_simps)+

lemma utf8_trail_0:
  fixes v :: uint64
  shows "(0x80 OR ucast (v AND 0x3F) :: byte) AND 0xC0 = 0x80"
    "ucast ((0x80 OR ucast (v AND 0x3F) :: byte) AND 0x3F) = take_bit 6 v"
  using utf8_trail [of 0 v] by simp_all

lemma utf8_decode_encode:
  assumes "unat v < 2 ^ 21"
  shows "utf8_decode (utf8_encode 4 v @ rest) = Some (length (utf8_encode 4 v), v)"
proof -
  have full: "take_bit k v = v" if "unat v < 2 ^ k" for k
  proof (rule bit_word_eqI)
    fix n
    show "bit (take_bit k v) n = bit v n" using bits_above [OF that, of n] by (cases "k \<le> n") (auto simp: bit_take_bit_iff)
  qed
  have le: "v \<le> 0x7F \<longleftrightarrow> unat v < 2 ^ 7" "v \<le> 0x7FF \<longleftrightarrow> unat v < 2 ^ 11" "v \<le> 0xFFFF \<longleftrightarrow> unat v < 2 ^ 16"
    "v \<le> 0x1FFFFF \<longleftrightarrow> unat v < 2 ^ 21" by (auto simp: word_le_nat_alt)
  note simps = utf8_decode_def utf8_encode_def le Let_def utf8_trail utf8_trail_0 utf8_first
  consider "unat v < 2 ^ 7" | "\<not> unat v < 2 ^ 7" "unat v < 2 ^ 11" | "\<not> unat v < 2 ^ 7" "\<not> unat v < 2 ^ 11" "unat v < 2 ^ 16"
    | "\<not> unat v < 2 ^ 7" "\<not> unat v < 2 ^ 11" "\<not> unat v < 2 ^ 16" using assms by blast
  then show ?thesis
  proof cases
    case 1
    have a: "(ucast v :: byte) AND 0x80 = 0"
      by (rule byte_eqI) (use bits_above [OF 1] in \<open>simp_all add: bit_simps\<close>)
    have "unat v < 2 ^ 8" using 1 by simp
    then have "ucast (ucast v :: byte) = v" using full [of 8] by (simp add: unsigned_ucast_eq)
    then show ?thesis using 1 a by (simp add: utf8_decode_def utf8_encode_def le del: One_nat_def)
  next
    case 2
    then have n: "\<not> v \<le> 0x7F" "v \<le> 0x7FF" by (simp_all only: le not_False_eq_True)
    show ?thesis unfolding utf8_decode_def utf8_encode_def
      using n utf8_lead(1) [OF 2(2)] utf8_merge(1) [of 5 v] full [OF 2(2)]
      by (simp add: Let_def utf8_trail_0 utf8_first)
  next
    case 3
    then have n: "\<not> v \<le> 0x7F" "\<not> v \<le> 0x7FF" "v \<le> 0xFFFF" by (simp_all only: le not_False_eq_True)
    show ?thesis unfolding utf8_decode_def utf8_encode_def
      using n utf8_lead(2) [OF 3(3)] utf8_merge(4) [of v] utf8_merge(2) [of 4 v] full [OF 3(3)]
      by (simp add: Let_def utf8_trail utf8_trail_0 utf8_first)
  next
    case 4
    then have n: "\<not> v \<le> 0x7F" "\<not> v \<le> 0x7FF" "\<not> v \<le> 0xFFFF" "v \<le> 0x1FFFFF" using assms by (simp_all only: le not_False_eq_True)
    have m: "push_bit 6 (push_bit 6 (take_bit 6 (drop_bit 12 v)) OR take_bit 6 (drop_bit 6 v)) OR take_bit 6 v = take_bit 18 v"
    proof (rule bit_word_eqI)
      fix n
      show "bit (push_bit 6 (push_bit 6 (take_bit 6 (drop_bit 12 v)) OR take_bit 6 (drop_bit 6 v)) OR take_bit 6 v) n = bit (take_bit 18 v) n"
        by (cases "12 \<le> n") (auto simp: bit_simps)
    qed
    show ?thesis unfolding utf8_decode_def utf8_encode_def
      using n utf8_lead(3) [OF assms] m utf8_merge(3) [of 3 v] full [OF assms]
      by (simp add: Let_def utf8_trail utf8_trail_0 utf8_first)
  qed
qed

text \<open>
  \<^verbatim>\<open>utf8_decode\<close> gives back every code up to \<open>0x1FFFFF\<close> that \<^verbatim>\<open>utf8_encode\<close> encodes, whatever follows it, and
  reports the length of its sequence; codes above have no encoding.
\<close>

theorem utf8_roundtrip:
  "if v \<le> 0x1FFFFF then utf8_decode (utf8_encode 4 v @ rest) = Some (length (utf8_encode 4 v), v) else utf8_encode n v = []"
proof (cases "v \<le> 0x1FFFFF")
  case True
  then have "unat v < 2 ^ 21" by (simp add: word_le_nat_alt)
  then show ?thesis using utf8_decode_encode True by simp
next
  case False
  then have "\<not> v \<le> 0x7F" "\<not> v \<le> 0x7FF" "\<not> v \<le> 0xFFFF" by (auto simp: word_le_nat_alt)
  then show ?thesis using False by (simp add: utf8_encode_def)
qed

section \<open>Fields\<close>

fun join :: "byte \<Rightarrow> bytes list \<Rightarrow> bytes" where
  "join d [] = []"
| "join d [f] = f"
| "join d (f # fs) = f @ d # join d fs"

lemma split_loop_not_Nil: "split_loop d s cur \<noteq> []"
  by (induction s arbitrary: cur) simp_all

lemma join_split_loop: "join d (split_loop d s cur) = cur @ s"
proof (induction s arbitrary: cur)
  case (Cons c s)
  obtain f fs where "split_loop d s [] = f # fs" using split_loop_not_Nil by (meson list.exhaust)
  then show ?case using Cons.IH [of "[]"] Cons.IH [of "cur @ [c]"] by auto
qed simp

lemma split_loop_clean: "d \<notin> set cur \<Longrightarrow> \<forall>f \<in> set (split_loop d s cur). d \<notin> set f"
proof (induction s arbitrary: cur)
  case (Cons c s)
  show ?case using Cons.IH [of "[]"] Cons.IH [of "cur @ [c]"] Cons.prems by simp
qed simp

lemma split_loop_field: "d \<notin> set f \<Longrightarrow> split_loop d (f @ r) cur = split_loop d r (cur @ f)"
  by (induction f arbitrary: cur) auto

lemma split_join:
  assumes "fs \<noteq> []" and "\<forall>f \<in> set fs. d \<notin> set f"
  shows "split_loop d (join d fs) [] = fs"
  using assms
proof (induction fs rule: join.induct)
  case (2 d f)
  then show ?case using split_loop_field [of d f "[]" "[]"] by simp
next
  case (3 d f g fs)
  have "split_loop d (f @ d # join d (g # fs)) [] = f # split_loop d (join d (g # fs)) []"
    using split_loop_field [of d f "d # join d (g # fs)" "[]"] 3(3) by simp
  then show ?case using 3 by simp
qed simp

lemma tokenize_split: "tokenize_loop d s cur = filter (\<lambda>f. f \<noteq> []) (split_loop d s cur)"
  by (induction s arbitrary: cur) auto

text \<open>
  \<^verbatim>\<open>split\<close> is the inverse of joining fields with the delimiter: the fields contain no delimiter, joined again they
  give the source, and no other non-empty list of such fields does; \<^verbatim>\<open>tokenize\<close> returns exactly the non-empty fields
  of \<^verbatim>\<open>split\<close>, in order.
\<close>

theorem split_and_tokenize:
  "(split s d = fs \<longleftrightarrow> fs \<noteq> [] \<and> (\<forall>f \<in> set fs. d \<notin> set f) \<and> join d fs = s) \<and>
   tokenize s d = filter (\<lambda>f. f \<noteq> []) (split s d)"
  using split_loop_not_Nil [of d s "[]"] split_loop_clean [of d "[]" s] join_split_loop [of d s "[]"] split_join [of fs d]
  by (auto simp: split_def tokenize_def tokenize_split)

theorem split_and_tokenize_witness:
  "split [97, 44, 44, 98] 44 = [[97], [], [98]] \<and> tokenize [97, 44, 44, 98] 44 = [[97], [98]]"
  using split_and_tokenize [of "[97, 44, 44, 98]" 44 "[[97], [], [98]]"] by simp

end
