(* ===== verification/Vz_Sha1.thy ===== *)
theory Vz_Sha1
  imports Vz_Byteorder
begin

text \<open>
  \<^verbatim>\<open>src/src/base/sha1.{h,cpp}\<close>: SHA-1 in place, with the block expanded in a ring of sixteen words and the five working
  variables changing their roles from round to round; the reference is FIPS 180-1.  \<open>SHA1Transform_fips\<close>
  shows that a block is compressed as the standard says, on hosts of both byte orders; \<open>sha1_ctx\<close> is the invariant of a
  context that has taken a message in any pieces, and the digest at the end is that of the standard.
\<close>

section \<open>The code\<close>

record SHA1_CTX =
  sha_state :: "uint32 list"
  sha_count0 :: uint32
  sha_count1 :: uint32
  sha_buffer :: bytes

definition rol :: "uint32 \<Rightarrow> nat \<Rightarrow> uint32" where
  "rol v n = push_bit n v OR drop_bit (32 - n) v"

text \<open>The macros \<^verbatim>\<open>blk0\<close> and \<^verbatim>\<open>blk\<close>, which store the word they compute, on the sixteen words of the block.\<close>

definition blk0 :: "host_order \<Rightarrow> nat \<Rightarrow> uint32 list \<Rightarrow> uint32 list" where
  "blk0 h i block =
     (case h of HostBig \<Rightarrow> block
      | HostLittle \<Rightarrow> block[i := (rol (block ! i) 24 AND 0xFF00FF00) OR (rol (block ! i) 8 AND 0x00FF00FF)])"

definition blk :: "nat \<Rightarrow> uint32 list \<Rightarrow> uint32 list" where
  "blk i block =
     block[i mod 16 := rol (block ! ((i + 13) mod 16) XOR block ! ((i + 8) mod 16) XOR block ! ((i + 2) mod 16) XOR
                            block ! (i mod 16)) 1]"

text \<open>
  The round \<open>i\<close> of the unrolled code: the macros \<^verbatim>\<open>R0\<close> to \<^verbatim>\<open>R4\<close> differ in the function of \<open>w\<close>, \<open>x\<close>, \<open>y\<close>, the constant and the
  expansion.  The variables \<^verbatim>\<open>a\<close> to \<^verbatim>\<open>e\<close> are the entries of \<open>vars\<close>; in round \<open>i\<close> the macro is called with
  its arguments \<open>v\<close>, \<open>w\<close>, \<open>x\<close>, \<open>y\<close>, \<open>z\<close> shifted by \<open>i\<close> places.
\<close>

definition round_fun :: "nat \<Rightarrow> uint32 \<Rightarrow> uint32 \<Rightarrow> uint32 \<Rightarrow> uint32" where
  "round_fun i w x y =
     (if i < 20 then (w AND (x XOR y)) XOR y
      else if i < 40 then w XOR x XOR y
      else if i < 60 then ((w OR x) AND y) OR (w AND x)
      else w XOR x XOR y)"

definition round_const :: "nat \<Rightarrow> uint32" where
  "round_const i =
     (if i < 20 then 0x5A827999 else if i < 40 then 0x6ED9EBA1 else if i < 60 then 0x8F1BBCDC else 0xCA62C1D6)"

definition role :: "nat \<Rightarrow> nat \<Rightarrow> nat" where
  "role i r = (r + 4 * i) mod 5"

definition sha_round :: "host_order \<Rightarrow> uint32 list \<times> uint32 list \<Rightarrow> nat \<Rightarrow> uint32 list \<times> uint32 list" where
  "sha_round h = (\<lambda>(vars, block) i.
     let block' = (if i < 16 then blk0 h i block else blk i block);
         v = vars ! role i 0; w = vars ! role i 1; x = vars ! role i 2; y = vars ! role i 3; z = vars ! role i 4
     in ((vars[role i 4 := z + (round_fun i w x y + block' ! (i mod 16) + round_const i + rol v 5)])
           [role i 1 := rol w 30], block'))"

definition load_block :: "host_order \<Rightarrow> bytes \<Rightarrow> uint32 list" where
  "load_block h buffer = map (\<lambda>i. host_val32 h (drop (4 * i) buffer)) [0..<16]"

definition SHA1Transform :: "host_order \<Rightarrow> uint32 list \<Rightarrow> bytes \<Rightarrow> uint32 list" where
  "SHA1Transform h state buffer =
     (case foldl (sha_round h) (state, load_block h buffer) [0..<80] of (vars, block) \<Rightarrow> map2 (+) state vars)"

definition SHA1Init :: "bytes \<Rightarrow> SHA1_CTX" where
  "SHA1Init raw = \<lparr>sha_state = [0x67452301, 0xEFCDAB89, 0x98BADCFE, 0x10325476, 0xC3D2E1F0],
     sha_count0 = 0, sha_count1 = 0, sha_buffer = raw\<rparr>"

function update_loop :: "host_order \<Rightarrow> nat \<Rightarrow> bytes \<Rightarrow> uint32 list \<Rightarrow> nat \<times> uint32 list" where
  "update_loop h i data st =
     (if i + 63 < length data then update_loop h (i + 64) data (SHA1Transform h st (take 64 (drop i data))) else (i, st))"
  by pat_completeness auto
termination by (relation "measure (\<lambda>(_, i, data, _). length data - i)") auto

declare update_loop.simps [simp del]

definition SHA1Update :: "host_order \<Rightarrow> bytes \<Rightarrow> SHA1_CTX \<Rightarrow> SHA1_CTX" where
  "SHA1Update h data ctx =
     (let input_len = length data;
          index = unat (drop_bit 3 (sha_count0 ctx) AND 63);
          bits = of_nat (input_len * 8);
          c0 = sha_count0 ctx + bits;
          c1 = (if c0 < bits then sha_count1 ctx + 1 else sha_count1 ctx);
          c1' = c1 + of_nat (input_len div 2 ^ 29)
      in if index + input_len > 63 then
           (let i = 64 - index;
                buf = write_at index (take i data) (sha_buffer ctx);
                (i', st) = update_loop h i data (SHA1Transform h (sha_state ctx) buf)
            in \<lparr>sha_state = st, sha_count0 = c0, sha_count1 = c1', sha_buffer = write_at 0 (drop i' data) buf\<rparr>)
         else ctx\<lparr>sha_count0 := c0, sha_count1 := c1', sha_buffer := write_at index data (sha_buffer ctx)\<rparr>)"

text \<open>The padding loop of \<^verbatim>\<open>SHA1Final\<close>; it ends after at most 63 rounds.\<close>

fun pad_loop :: "host_order \<Rightarrow> nat \<Rightarrow> SHA1_CTX \<Rightarrow> SHA1_CTX option" where
  "pad_loop h fuel ctx =
     (if sha_count0 ctx AND 504 \<noteq> 448 then
        (case fuel of 0 \<Rightarrow> None | Suc k \<Rightarrow> pad_loop h k (SHA1Update h [0] ctx))
      else Some ctx)"

declare pad_loop.simps [simp del]

definition finalcount :: "SHA1_CTX \<Rightarrow> bytes" where
  "finalcount ctx =
     map (\<lambda>i. shr_byte ((3 - i mod 4) * 8) (if i \<ge> 4 then sha_count0 ctx else sha_count1 ctx)) [0..<8]"

definition digest_of :: "uint32 list \<Rightarrow> bytes" where
  "digest_of st = map (\<lambda>i. shr_byte ((3 - i mod 4) * 8) (st ! (i div 4))) [0..<20]"

text \<open>The digest, and the context, which is wiped and then runs once through \<^verbatim>\<open>SHA1Transform\<close>.\<close>

definition SHA1Final :: "host_order \<Rightarrow> SHA1_CTX \<Rightarrow> (bytes \<times> SHA1_CTX) option" where
  "SHA1Final h ctx =
     (let fc = finalcount ctx in
      case pad_loop h 63 (SHA1Update h [0x80] ctx) of None \<Rightarrow> None
      | Some ctx1 \<Rightarrow>
          (let ctx2 = SHA1Update h fc ctx1;
               zero = \<lparr>sha_state = replicate 5 0, sha_count0 = 0, sha_count1 = 0, sha_buffer = replicate 64 0\<rparr>
           in Some (digest_of (sha_state ctx2), zero\<lparr>sha_state := SHA1Transform h (sha_state zero) (sha_buffer zero)\<rparr>)))"

section \<open>The standard\<close>

text \<open>FIPS 180-1: the message schedule, the logical functions, the compression of a block, the padding.\<close>

fun schedule :: "(nat \<Rightarrow> uint32) \<Rightarrow> nat \<Rightarrow> uint32" where
  "schedule m t =
     (if t < 16 then m t
      else rol (schedule m (t - 3) XOR schedule m (t - 8) XOR schedule m (t - 14) XOR schedule m (t - 16)) 1)"

declare schedule.simps [simp del]

definition fips_f :: "nat \<Rightarrow> uint32 \<Rightarrow> uint32 \<Rightarrow> uint32 \<Rightarrow> uint32" where
  "fips_f t b c d =
     (if t \<le> 19 then (b AND c) OR (NOT b AND d)
      else if t \<le> 39 then b XOR c XOR d
      else if t \<le> 59 then (b AND c) OR (b AND d) OR (c AND d)
      else b XOR c XOR d)"

text \<open>The constants are the first bits of the square roots of 2, 3, 5 and 10, as \<open>fips_K_root\<close> checks.\<close>

definition fips_K :: "nat \<Rightarrow> uint32" where
  "fips_K t =
     (if t \<le> 19 then 1518500249 else if t \<le> 39 then 1859775393 else if t \<le> 59 then 2400959708 else 3395469782)"

definition fips_round :: "(nat \<Rightarrow> uint32) \<Rightarrow> uint32 \<times> uint32 \<times> uint32 \<times> uint32 \<times> uint32 \<Rightarrow> nat \<Rightarrow>
    uint32 \<times> uint32 \<times> uint32 \<times> uint32 \<times> uint32" where
  "fips_round w = (\<lambda>(a, b, c, d, e) t.
     (rol a 5 + fips_f t b c d + e + w t + fips_K t, a, rol b 30, c, d))"

definition block_word :: "bytes \<Rightarrow> nat \<Rightarrow> uint32" where
  "block_word block t = host_val32 HostBig (drop (4 * t) block)"

definition fips_block :: "uint32 list \<Rightarrow> bytes \<Rightarrow> uint32 list" where
  "fips_block st block =
     (case foldl (fips_round (schedule (block_word block))) (st ! 0, st ! 1, st ! 2, st ! 3, st ! 4) [0..<80] of
        (a, b, c, d, e) \<Rightarrow> [st ! 0 + a, st ! 1 + b, st ! 2 + c, st ! 3 + d, st ! 4 + e])"

function fips_blocks :: "uint32 list \<Rightarrow> bytes \<Rightarrow> uint32 list" where
  "fips_blocks st m = (if length m < 64 then st else fips_blocks (fips_block st (take 64 m)) (drop 64 m))"
  by pat_completeness auto
termination by (relation "measure (\<lambda>(_, m). length m)") auto

declare fips_blocks.simps [simp del]

definition fips_init :: "uint32 list" where
  "fips_init = [0x67452301, 0xEFCDAB89, 0x98BADCFE, 0x10325476, 0xC3D2E1F0]"

text \<open>The number of zeros is the least that makes the padded message a multiple of 64 bytes.\<close>

definition fips_pad :: "bytes \<Rightarrow> bytes" where
  "fips_pad m = m @ [0x80] @ replicate ((119 - length m mod 64) mod 64) 0 @ be64 (of_nat (8 * length m))"

definition fips_sha1 :: "bytes \<Rightarrow> bytes" where
  "fips_sha1 m = concat (map be32 (fips_blocks fips_init (fips_pad m)))"

section \<open>A block is compressed as the standard says\<close>

lemma fips_K_root:
  "let n = (if t \<le> 19 then 2 else if t \<le> 39 then 3 else if t \<le> 59 then 5 else 10) :: nat
   in (unat (fips_K t))\<^sup>2 \<le> n * 2 ^ 60 \<and> n * 2 ^ 60 < (unat (fips_K t) + 1)\<^sup>2"
  by (simp add: fips_K_def power2_eq_square)

lemma round_const_fips: "round_const i = fips_K i"
  by (simp add: round_const_def fips_K_def)

lemma round_fun_fips: "round_fun i w x y = fips_f i w x y"
proof -
  have "(w AND (x XOR y)) XOR y = (w AND x) OR (NOT w AND y)" by (rule bit_word_eqI) (auto simp: bit_simps)
  moreover have "((w OR x) AND y) OR (w AND x) = (w AND x) OR (w AND y) OR (x AND y)"
    by (rule bit_word_eqI) (auto simp: bit_simps)
  ultimately show ?thesis by (auto simp: round_fun_def fips_f_def)
qed

lemma role_less: "role i r < 5"
  by (simp add: role_def)

lemma role_eq_iff:
  assumes "r < 5" and "s < 5"
  shows "role i r = role i s \<longleftrightarrow> r = s"
proof
  assume "role i r = role i s"
  then have "int (r + 4 * i) mod 5 = int (s + 4 * i) mod 5" unfolding role_def by (metis of_nat_mod of_nat_numeral)
  then have "(5 :: int) dvd int r - int s" by (simp add: mod_eq_dvd_iff)
  then obtain k where "int r - int s = 5 * k" by (rule dvdE)
  then show "r = s" using assms by presburger
qed simp

lemma role_Suc: "role (Suc i) 0 = role i 4" "role (Suc i) (Suc r) = role i r"
proof -
  show "role (Suc i) 0 = role i 4" by (simp add: role_def)
  have "Suc r + 4 * Suc i = (r + 4 * i) + 5" by simp
  then show "role (Suc i) (Suc r) = role i r" unfolding role_def by (simp only: mod_add_self2)
qed

lemma role_80:
  assumes "r < 5"
  shows "role 0 r = r" "role 80 r = r"
proof -
  show "role 0 r = r" using assms by (simp add: role_def)
  have "r + 4 * 80 = r + 64 * 5" by simp
  then show "role 80 r = r" unfolding role_def using assms by (simp only: mod_mult_self1 mod_less)
qed

definition roles :: "nat \<Rightarrow> uint32 list \<Rightarrow> uint32 \<times> uint32 \<times> uint32 \<times> uint32 \<times> uint32" where
  "roles i vars = (vars ! role i 0, vars ! role i 1, vars ! role i 2, vars ! role i 3, vars ! role i 4)"

lemma roles_step:
  assumes "length vars = 5" and "roles i vars = (a, b, c, d, e)"
  shows "roles (Suc i) ((vars[role i 4 := z])[role i 1 := w]) = (z, a, w, c, d)"
proof -
  have n: "role (Suc i) 1 = role i 0" "role (Suc i) 2 = role i 1" "role (Suc i) 3 = role i 2" "role (Suc i) 4 = role i 3"
    using role_Suc(2) [of i 0] role_Suc(2) [of i 1] role_Suc(2) [of i 2] role_Suc(2) [of i 3]
    by (simp_all add: numeral_eq_Suc)
  show ?thesis
    using assms role_less [of i] unfolding roles_def role_Suc(1) n
    by (simp add: nth_list_update role_eq_iff)
qed

text \<open>The words of the block on a host of either byte order.\<close>

lemma bit_rol:
  assumes "n < 32" and "k < 32" and "0 < k"
  shows "bit (rol v k) n = bit v (if k \<le> n then n - k else n + 32 - k)"
proof -
  have "bit v (32 - k + n) \<Longrightarrow> n < k" using bit_imp_le_length [of v "32 - k + n"] assms by simp
  then show ?thesis using assms by (auto simp: rol_def bit_simps add.commute)
qed

lemma word32_eqI:
  assumes "list_all (\<lambda>n. bit a n = bit b n) [0..<32]"
  shows "a = (b :: uint32)"
  using assms by (intro bit_word_eqI) (simp add: list_all_iff)

lemma swap_word:
  "(rol (host_val32 HostLittle m) 24 AND 0xFF00FF00) OR (rol (host_val32 HostLittle m) 8 AND 0x00FF00FF) = host_val32 HostBig m"
proof (rule word32_eqI)
  let ?x = "host_val32 HostLittle m"
  have x: "bit ?x n = (n < 32 \<and> bit (m ! (n div 8)) (n mod 8))" for n
  proof (cases "n < 32")
    case True
    then have "n div 8 = 0 \<and> n < 8 \<or> n div 8 = 1 \<and> 8 \<le> n \<and> n < 16 \<or> n div 8 = 2 \<and> 16 \<le> n \<and> n < 24 \<or> n div 8 = 3 \<and> 24 \<le> n"
      by linarith
    then show ?thesis using True by (auto simp: bit_simps bit_byte_shl modulo_nat_def)
  qed (auto dest: bit_imp_le_length)
  show "list_all (\<lambda>n. bit ((rol ?x 24 AND 0xFF00FF00) OR (rol ?x 8 AND 0x00FF00FF)) n = bit (host_val32 HostBig m) n) [0..<32]"
    by (simp add: bit_or_iff bit_and_iff bit_rol x bit_byte_shl upt_rec del: host_val32.simps(1)) (simp add: numeral_eq_Suc)
qed

text \<open>
  After \<open>i\<close> rounds the variables in their roles are the state of the standard, and the ring holds the last sixteen words of
  the schedule; the words that were not used yet are as loaded.
\<close>

definition ring_ok :: "host_order \<Rightarrow> bytes \<Rightarrow> nat \<Rightarrow> uint32 list \<Rightarrow> bool" where
  "ring_ok h buffer i block \<longleftrightarrow> length block = 16 \<and>
     (\<forall>t. t < i \<and> i \<le> t + 16 \<longrightarrow> block ! (t mod 16) = schedule (block_word buffer) t) \<and>
     (\<forall>t. i \<le> t \<and> t < 16 \<longrightarrow> block ! t = host_val32 h (drop (4 * t) buffer))"

lemma ring_oldest:
  assumes "ring_ok h buffer i block" and "16 \<le> i" and "0 < k" and "k \<le> 16"
  shows "block ! ((i + (16 - k)) mod 16) = schedule (block_word buffer) (i - k)"
proof -
  have "(i + (16 - k)) mod 16 = (i - k + 16) mod 16" using assms(2,4) by (simp add: add.commute)
  then have "(i + (16 - k)) mod 16 = (i - k) mod 16" by simp
  then show ?thesis using assms by (simp add: ring_ok_def)
qed

lemma ring_put:
  assumes "ring_ok h buffer i block"
  shows "ring_ok h buffer (Suc i) (block[i mod 16 := schedule (block_word buffer) i])"
proof -
  have ne: "i mod 16 \<noteq> t mod 16" if "t < i" "Suc i \<le> t + 16" for t
  proof
    assume "i mod 16 = t mod 16"
    then have "16 dvd i - t" using that(1) by (metis mod_eq_dvd_iff_nat less_imp_le)
    then show False using that by (auto dest: dvd_imp_le)
  qed
  have "block[i mod 16 := schedule (block_word buffer) i] ! (t mod 16) = schedule (block_word buffer) t"
    if "t < Suc i" "Suc i \<le> t + 16" for t
    using that ne [of t] assms by (cases "t = i") (auto simp: ring_ok_def nth_list_update)
  moreover have "block[i mod 16 := schedule (block_word buffer) i] ! t = host_val32 h (drop (4 * t) buffer)"
    if "Suc i \<le> t" "t < 16" for t
    using that assms by (auto simp: ring_ok_def nth_list_update)
  ultimately show ?thesis using assms by (simp add: ring_ok_def)
qed

lemma expand_ok:
  assumes "ring_ok h buffer i block"
  shows "(if i < 16 then blk0 h i block else blk i block) = block[i mod 16 := schedule (block_word buffer) i]"
proof (cases "i < 16")
  case True
  then have b: "block ! i = host_val32 h (drop (4 * i) buffer)" "length block = 16" using assms by (simp_all add: ring_ok_def)
  have s: "schedule (block_word buffer) i = host_val32 HostBig (drop (4 * i) buffer)"
    using True by (simp add: schedule.simps [of _ i] block_word_def del: host_val32.simps)
  show ?thesis
  proof (cases h)
    case HostLittle
    then show ?thesis using True b s swap_word [of "drop (4 * i) buffer"]
      by (simp add: blk0_def del: host_val32.simps)
  next
    case HostBig
    then have "block[i := schedule (block_word buffer) i] = block"
      using b(1) unfolding s HostBig by (metis list_update_id)
    then show ?thesis using True HostBig by (simp add: blk0_def)
  qed
next
  case False
  then have "block ! ((i + 13) mod 16) = schedule (block_word buffer) (i - 3)"
    "block ! ((i + 8) mod 16) = schedule (block_word buffer) (i - 8)"
    "block ! ((i + 2) mod 16) = schedule (block_word buffer) (i - 14)"
    "block ! (i mod 16) = schedule (block_word buffer) (i - 16)"
    using ring_oldest [OF assms, of 3] ring_oldest [OF assms, of 8] ring_oldest [OF assms, of 14] ring_oldest [OF assms, of 16]
    by simp_all
  then show ?thesis using False by (simp add: blk_def schedule.simps [of _ i])
qed

lemma sha_rounds:
  assumes "length st = 5"
  shows "case foldl (sha_round h) (st, load_block h buffer) [0..<i] of (vars, block) \<Rightarrow>
    length vars = 5 \<and> ring_ok h buffer i block \<and>
    roles i vars = foldl (fips_round (schedule (block_word buffer))) (st ! 0, st ! 1, st ! 2, st ! 3, st ! 4) [0..<i]"
proof (induction i)
  case 0
  then show ?case using assms by (simp add: ring_ok_def load_block_def roles_def role_80 del: host_val32.simps)
next
  case (Suc i)
  obtain vars block where f: "foldl (sha_round h) (st, load_block h buffer) [0..<i] = (vars, block)" by (rule prod.exhaust)
  obtain a b c d e where g: "foldl (fips_round (schedule (block_word buffer))) (st ! 0, st ! 1, st ! 2, st ! 3, st ! 4) [0..<i] =
    (a, b, c, d, e)" by (rule prod_cases5)
  have ok: "length vars = 5" "ring_ok h buffer i block" "roles i vars = (a, b, c, d, e)" using Suc unfolding f g prod.case by simp_all
  then have r: "vars ! role i 0 = a" "vars ! role i 1 = b" "vars ! role i 2 = c" "vars ! role i 3 = d" "vars ! role i 4 = e"
    by (simp_all add: roles_def)
  define z where "z = e + (round_fun i b c d + schedule (block_word buffer) i + round_const i + rol a 5)"
  have l: "length block = 16" using ok(2) by (simp add: ring_ok_def)
  have "sha_round h (vars, block) i =
    ((vars[role i 4 := z])[role i 1 := rol b 30], block[i mod 16 := schedule (block_word buffer) i])"
    unfolding sha_round_def prod.case Let_def expand_ok [OF ok(2)] r z_def using l by simp
  moreover have "fips_round (schedule (block_word buffer)) (a, b, c, d, e) i = (z, a, rol b 30, c, d)"
    by (simp add: fips_round_def z_def round_fun_fips round_const_fips add.assoc add.left_commute add.commute)
  ultimately show ?case
    using roles_step [OF ok(1,3)] ring_put [OF ok(2)] ok(1) by (simp add: f g del: One_nat_def)
qed

lemma SHA1Transform_fips:
  assumes "length st = 5"
  shows "SHA1Transform h st buffer = fips_block st buffer" "length (fips_block st buffer) = 5"
proof -
  obtain vars block where f: "foldl (sha_round h) (st, load_block h buffer) [0..<80] = (vars, block)" by (rule prod.exhaust)
  obtain a b c d e where g: "foldl (fips_round (schedule (block_word buffer))) (st ! 0, st ! 1, st ! 2, st ! 3, st ! 4) [0..<80] =
    (a, b, c, d, e)" by (rule prod_cases5)
  have v: "length vars = 5" "roles 80 vars = (a, b, c, d, e)"
    using sha_rounds [OF assms, of h buffer 80] unfolding f g by simp_all
  obtain v0 v1 v2 v3 v4 where vs: "vars = [v0, v1, v2, v3, v4]"
    using v(1) by (auto simp: length_Suc_conv numeral_eq_Suc)
  obtain s0 s1 s2 s3 s4 where ss: "st = [s0, s1, s2, s3, s4]"
    using assms by (auto simp: length_Suc_conv numeral_eq_Suc)
  show "SHA1Transform h st buffer = fips_block st buffer"
    using v(2) unfolding SHA1Transform_def fips_block_def f g prod.case
    by (simp add: roles_def role_80 vs ss)
  show "length (fips_block st buffer) = 5" unfolding fips_block_def g by simp
qed

section \<open>Messages in pieces\<close>

lemma fips_blocks_append:
  assumes "64 dvd length a"
  shows "fips_blocks st (a @ b) = fips_blocks (fips_blocks st a) b"
  using assms
proof (induction st a rule: fips_blocks.induct)
  case (1 st a)
  show ?case
  proof (cases "length a < 64")
    case True
    then have "a = []" using "1.prems" by (auto dest: dvd_imp_le)
    then show ?thesis by (simp add: fips_blocks.simps [of st "[]"])
  next
    case False
    have "64 dvd length (drop 64 a)" using "1.prems" False by simp
    then have "fips_blocks (fips_block st (take 64 a)) (drop 64 a @ b) = fips_blocks (fips_blocks (fips_block st (take 64 a)) (drop 64 a)) b"
      using "1.IH" False by blast
    moreover have "fips_blocks st (a @ b) = fips_blocks (fips_block st (take 64 a)) (drop 64 a @ b)"
      using False by (subst fips_blocks.simps) simp
    moreover have "fips_blocks st a = fips_blocks (fips_block st (take 64 a)) (drop 64 a)"
      using False by (subst fips_blocks.simps) simp
    ultimately show ?thesis by simp
  qed
qed

lemma fips_blocks_short: "length m < 64 \<Longrightarrow> fips_blocks st m = st"
  by (subst fips_blocks.simps) simp

lemma fips_blocks_step: "\<not> length m < 64 \<Longrightarrow> fips_blocks st m = fips_blocks (fips_block st (take 64 m)) (drop 64 m)"
  by (subst fips_blocks.simps) simp

lemma length_fips_blocks: "length st = 5 \<Longrightarrow> length (fips_blocks st m) = 5"
proof (induction st m rule: fips_blocks.induct)
  case (1 st m)
  then show ?case using SHA1Transform_fips(2) [OF "1.prems"] by (subst fips_blocks.simps) simp
qed

lemma update_loop_blocks:
  assumes "length st = 5" and "i \<le> length data"
  shows "\<exists>i'. update_loop h i data st = (i', fips_blocks st (drop i data)) \<and> i \<le> i' \<and> i' \<le> length data \<and>
    length data - i' < 64 \<and> 64 dvd i' - i"
  using assms
proof (induction h i data st rule: update_loop.induct)
  case (1 h i data st)
  show ?case
  proof (cases "i + 63 < length data")
    case False
    then show ?thesis using "1.prems" by (auto simp: update_loop.simps [of h i] fips_blocks_short)
  next
    case True
    let ?st = "SHA1Transform h st (take 64 (drop i data))"
    have "length ?st = 5" "i + 64 \<le> length data" using True SHA1Transform_fips [OF "1.prems"(1)] by simp_all
    from "1.IH" [OF True this] obtain i' where i': "update_loop h (i + 64) data ?st = (i', fips_blocks ?st (drop (i + 64) data))"
      "i + 64 \<le> i'" "i' \<le> length data" "length data - i' < 64" "64 dvd i' - (i + 64)" by blast
    have "fips_blocks st (drop i data) = fips_blocks ?st (drop (i + 64) data)"
      using True SHA1Transform_fips(1) [OF "1.prems"(1)] by (subst fips_blocks_step) (simp_all add: add.commute)
    moreover have "64 dvd i' - i"
    proof -
      have "i' - i = (i' - (i + 64)) + 64" using i'(2) by simp
      then show ?thesis using i'(5) by (simp only: dvd_add dvd_refl)
    qed
    ultimately show ?thesis using True i' by (simp add: update_loop.simps [of h i])
  qed
qed

text \<open>The counter of bits in two words.\<close>

lemma count_index: "unat (drop_bit 3 (of_nat (8 * n) :: uint32) AND 63) = n mod 64"
proof -
  have "(of_nat (8 * n) :: uint32) = push_bit 3 (of_nat n)" by (simp add: push_bit_eq_mult)
  moreover have "(63 :: uint32) = mask 6" by (simp add: mask_eq_exp_minus_1)
  moreover have "drop_bit 3 (push_bit 3 x) AND mask 6 = take_bit 6 x" for x :: uint32
    by (rule bit_word_eqI) (auto simp: bit_simps)
  ultimately have "unat (drop_bit 3 (of_nat (8 * n) :: uint32) AND 63) = unat (take_bit 6 (of_nat n :: uint32))" by simp
  also have "\<dots> = take_bit 6 n" by (simp add: unsigned_take_bit_eq unsigned_of_nat)
  also have "\<dots> = n mod 64" by (simp add: take_bit_eq_mod)
  finally show ?thesis .
qed

lemma count_full: "(of_nat (8 * n) :: uint32) AND 504 = 448 \<longleftrightarrow> n mod 64 = 56"
proof -
  let ?w = "drop_bit 3 (of_nat (8 * n) :: uint32) AND 63"
  have m: "(63 :: uint32) = mask 6" "(504 :: uint32) = push_bit 3 (mask 6)" by (simp_all add: mask_eq_exp_minus_1)
  have "x AND push_bit 3 (mask 6) = push_bit 3 (drop_bit 3 x AND mask 6)" for x :: uint32
    by (rule bit_word_eqI) (auto simp: bit_simps)
  then have a: "(of_nat (8 * n) :: uint32) AND 504 = push_bit 3 ?w" unfolding m by simp
  have "unat (push_bit 3 ?w) = 8 * (n mod 64)"
    using count_index [of n] by (simp add: push_bit_eq_mult unat_mult_lem [THEN iffD1] unat_word_ariths)
  then show ?thesis unfolding a by (auto simp: word_unat_eq_iff)
qed

lemma count_carry:
  fixes a b :: nat
  defines "c0 \<equiv> (of_nat (8 * a) :: uint32) + of_nat (b * 8)"
  shows "c0 = of_nat (8 * (a + b))"
    "(if c0 < of_nat (b * 8) then of_nat (8 * a div 2 ^ 32) + 1 else of_nat (8 * a div 2 ^ 32)) + of_nat (b div 2 ^ 29) =
     (of_nat (8 * (a + b) div 2 ^ 32) :: uint32)"
proof -
  show "c0 = of_nat (8 * (a + b))" by (simp add: c0_def algebra_simps)
  have u: "unat (of_nat k :: uint32) = k mod 2 ^ 32" for k by (simp add: unat_of_nat)
  have c: "c0 < of_nat (b * 8) \<longleftrightarrow> (8 * a) mod 2 ^ 32 + (8 * b) mod 2 ^ 32 \<ge> 2 ^ 32"
  proof -
    have "(if x + y < 2 ^ 32 then x + y else x + y - 2 ^ 32) < y \<longleftrightarrow> 2 ^ 32 \<le> x + y" if "x < 2 ^ 32" for x y :: nat
      using that by auto
    note this [of "8 * a mod 2 ^ 32" "8 * b mod 2 ^ 32"]
    then show ?thesis unfolding c0_def word_less_nat_alt unat_add32 u mult.commute [of b 8] by (simp only: mod_less_divisor zero_less_power zero_less_numeral)
  qed
  have "8 * (a + b) div 2 ^ 32 = 8 * a div 2 ^ 32 + 8 * b div 2 ^ 32 + ((8 * a) mod 2 ^ 32 + (8 * b) mod 2 ^ 32) div 2 ^ 32"
    unfolding distrib_left by (rule div_add1_eq)
  also have "((8 * a) mod 2 ^ 32 + (8 * b) mod 2 ^ 32) div 2 ^ 32 = (if c0 < of_nat (b * 8) then 1 else 0)"
  proof (cases "c0 < of_nat (b * 8)")
    case True
    have "(8 * a) mod 2 ^ 32 + (8 * b) mod 2 ^ 32 < 2 * 2 ^ 32"
      using mod_less_divisor [of "2 ^ 32" "8 * a"] mod_less_divisor [of "2 ^ 32" "8 * b"] by simp
    then show ?thesis using True c by (simp add: div_nat_eqI)
  next
    case False
    then show ?thesis using c by simp
  qed
  also have "8 * b div 2 ^ 32 = b div 2 ^ 29" by (simp add: div_mult2_eq [of _ 8 "2 ^ 29", symmetric] flip: div_mult2_eq)
  finally show "(if c0 < of_nat (b * 8) then of_nat (8 * a div 2 ^ 32) + 1 else of_nat (8 * a div 2 ^ 32)) + of_nat (b div 2 ^ 29) =
     (of_nat (8 * (a + b) div 2 ^ 32) :: uint32)" by simp
qed

text \<open>What a context holds that has taken the message \<open>m\<close>.\<close>

definition sha1_ctx :: "bytes \<Rightarrow> SHA1_CTX \<Rightarrow> bool" where
  "sha1_ctx m ctx \<longleftrightarrow> length (sha_buffer ctx) = 64 \<and> sha_state ctx = fips_blocks fips_init m \<and>
     take (length m mod 64) (sha_buffer ctx) = drop (length m - length m mod 64) m \<and>
     sha_count0 ctx = of_nat (8 * length m) \<and> sha_count1 ctx = of_nat (8 * length m div 2 ^ 32)"

lemma sha1_ctx_init: "length raw = 64 \<Longrightarrow> sha1_ctx [] (SHA1Init raw)"
  by (simp add: sha1_ctx_def SHA1Init_def fips_init_def fips_blocks_short)

lemma sha1_ctx_update:
  assumes "sha1_ctx m ctx"
  shows "sha1_ctx (m @ data) (SHA1Update h data ctx)"
proof -
  define r where "r = length m mod 64"
  define F where "F = take (length m - r) m"
  define T where "T = drop (length m - r) m"
  define S where "S = fips_blocks fips_init F"
  have r: "r < 64" "r \<le> length m" by (simp_all add: r_def)
  have "length m - r = 64 * (length m div 64)" by (simp add: r_def minus_mod_eq_mult_div)
  then have FT: "m = F @ T" "length T = r" "64 dvd length F" using r(2) by (simp_all add: F_def T_def)
  have T: "take r (sha_buffer ctx) = T" and lb: "length (sha_buffer ctx) = 64" using assms by (simp_all add: sha1_ctx_def T_def r_def)
  have blocks: "fips_blocks fips_init (m @ data) = fips_blocks S (T @ data)"
    unfolding FT(1) append_assoc S_def by (rule fips_blocks_append [OF FT(3)])
  have S: "sha_state ctx = S" "length S = 5"
  proof -
    have "fips_blocks fips_init m = fips_blocks S T" unfolding FT(1) S_def by (rule fips_blocks_append [OF FT(3)])
    then show "sha_state ctx = S" using assms fips_blocks_short [of T S] FT(2) r(1) by (simp add: sha1_ctx_def)
    show "length S = 5" unfolding S_def by (rule length_fips_blocks) (simp add: fips_init_def)
  qed
  have idx: "unat (drop_bit 3 (sha_count0 ctx) AND 63) = r" using assms by (simp add: sha1_ctx_def count_index r_def del: of_nat_mult)
  have cnt: "sha_count0 ctx = of_nat (8 * length m)" "sha_count1 ctx = of_nat (8 * length m div 2 ^ 32)"
    using assms by (simp_all add: sha1_ctx_def)
  have len: "length (m @ data) mod 64 = (r + length data) mod 64" by (simp add: r_def mod_add_left_eq)
  show ?thesis
  proof (cases "r + length data > 63")
    case False
    let ?b = "write_at r data (sha_buffer ctx)"
    have ctx': "SHA1Update h data ctx = ctx\<lparr>sha_count0 := of_nat (8 * (length m + length data)),
        sha_count1 := of_nat (8 * (length m + length data) div 2 ^ 32), sha_buffer := ?b\<rparr>"
      unfolding SHA1Update_def Let_def idx unfolding cnt count_carry(2) unfolding count_carry(1) using False by (simp only: if_False)
    have "fips_blocks S (T @ data) = S" using False FT(2) by (intro fips_blocks_short) simp
    moreover have "length ?b = 64" using False lb by simp
    moreover have "take (r + length data) ?b = T @ data" using False lb T FT(2) by (simp add: write_at_def)
    moreover have "drop (length (m @ data) - (r + length data)) (m @ data) = T @ data"
      using r by (simp add: T_def)
    moreover have "length (m @ data) mod 64 = r + length data" unfolding len using False by simp
    ultimately show ?thesis unfolding sha1_ctx_def blocks ctx' by (simp add: S(1))
  next
    case True
    let ?b = "write_at r (take (64 - r) data) (sha_buffer ctx)"
    have b: "?b = take 64 (T @ data)" using True lb T FT(2) r(1) by (simp add: write_at_def)
    have lb': "length ?b = 64" using True FT(2) unfolding b by simp
    define S1 where "S1 = SHA1Transform h S ?b"
    have S1: "S1 = fips_block S (take 64 (T @ data))" "length S1 = 5"
      using SHA1Transform_fips [OF S(2)] by (simp_all add: S1_def b)
    have "64 - r \<le> length data" using True by simp
    from update_loop_blocks [OF S1(2) this, of h] obtain i where i:
      "update_loop h (64 - r) data S1 = (i, fips_blocks S1 (drop (64 - r) data))"
      "64 - r \<le> i" "i \<le> length data" "length data - i < 64" "64 dvd i - (64 - r)" by blast
    have ctx': "SHA1Update h data ctx = \<lparr>sha_state = fips_blocks S1 (drop (64 - r) data),
        sha_count0 = of_nat (8 * (length m + length data)), sha_count1 = of_nat (8 * (length m + length data) div 2 ^ 32),
        sha_buffer = write_at 0 (drop i data) ?b\<rparr>"
      unfolding SHA1Update_def Let_def idx S(1) S1_def [symmetric] i(1) prod.case unfolding cnt count_carry(2) unfolding count_carry(1)
      using True by (simp only: if_True)
    have "fips_blocks S (T @ data) = fips_blocks S1 (drop (64 - r) data)"
      using True FT(2) S1(1) r(1) by (subst fips_blocks_step) simp_all
    moreover obtain q where q: "i = 64 - r + 64 * q" using i(2,5) by (metis dvdE le_add_diff_inverse)
    have tl: "length (m @ data) mod 64 = length data - i"
    proof -
      have "r + length data = (length data - i) + (q + 1) * 64" using q i(2,3) r(1) by simp
      then have "(r + length data) mod 64 = (length data - i) mod 64" by (simp only: mod_mult_self1)
      then show ?thesis unfolding len using i(4) by simp
    qed
    moreover have "length (write_at 0 (drop i data) ?b) = 64" using lb' i(4) by simp
    moreover have "take (length data - i) (write_at 0 (drop i data) ?b) = drop i data" by (simp add: write_at_def)
    moreover have "drop (length (m @ data) - (length data - i)) (m @ data) = drop i data" using i(3) by simp
    ultimately show ?thesis unfolding sha1_ctx_def blocks ctx' tl by simp
  qed
qed

lemma pad_value:
  fixes x :: nat
  assumes "x < 64"
  shows "(120 - x) mod 64 = (if x \<le> 56 then 56 - x else 120 - x)"
proof (cases "x \<le> 56")
  case True
  then have "120 - x = (56 - x) + 64" by simp
  then have "(120 - x) mod 64 = (56 - x) mod 64" by (simp only: mod_add_self2)
  then show ?thesis using True by simp
qed (use assms in simp)

lemma pad_arith:
  fixes x :: nat
  assumes "x < 64"
  shows "(120 - x) mod 64 = 0 \<longleftrightarrow> x = 56" "x \<noteq> 56 \<Longrightarrow> (120 - x) mod 64 = Suc ((120 - Suc x mod 64) mod 64)"
    "(120 - Suc x mod 64) mod 64 = (119 - x) mod 64"
proof -
  show "(120 - x) mod 64 = 0 \<longleftrightarrow> x = 56" using assms unfolding pad_value [OF assms] by auto
  have s: "(120 - Suc x mod 64) mod 64 = (if x = 63 then 56 else if Suc x \<le> 56 then 56 - Suc x else 120 - Suc x)"
    using assms pad_value [of "Suc x"] by (cases "x = 63") auto
  show "x \<noteq> 56 \<Longrightarrow> (120 - x) mod 64 = Suc ((120 - Suc x mod 64) mod 64)"
    using assms unfolding pad_value [OF assms] s by auto
  show "(120 - Suc x mod 64) mod 64 = (119 - x) mod 64"
  proof (cases "x = 63")
    case False
    then show ?thesis using assms by simp
  qed simp
qed

lemma pad_loop_zeros:
  assumes "sha1_ctx m ctx" and "(120 - length m mod 64) mod 64 \<le> fuel"
  shows "\<exists>ctx'. pad_loop h fuel ctx = Some ctx' \<and> sha1_ctx (m @ replicate ((120 - length m mod 64) mod 64) 0) ctx'"
  using assms
proof (induction fuel arbitrary: m ctx)
  case 0
  then have "length m mod 64 = 56" using pad_arith(1) [of "length m mod 64"] by simp
  moreover have "sha_count0 ctx AND 504 = 448 \<longleftrightarrow> length m mod 64 = 56"
    using "0.prems"(1) count_full [of "length m"] by (simp add: sha1_ctx_def del: of_nat_mult)
  ultimately show ?case using "0.prems"(1) by (simp add: pad_loop.simps)
next
  case (Suc fuel)
  have c: "sha_count0 ctx AND 504 = 448 \<longleftrightarrow> length m mod 64 = 56"
    using Suc.prems(1) count_full [of "length m"] by (simp add: sha1_ctx_def del: of_nat_mult)
  show ?case
  proof (cases "length m mod 64 = 56")
    case True
    then show ?thesis using c Suc.prems(1) by (simp add: pad_loop.simps)
  next
    case False
    define k where "k = (120 - length m mod 64) mod 64"
    have k: "k = Suc ((120 - length (m @ [0]) mod 64) mod 64)"
      using pad_arith(2) [of "length m mod 64"] False unfolding k_def by (simp add: mod_Suc_eq)
    then have "(120 - length (m @ [0]) mod 64) mod 64 \<le> fuel" using Suc.prems(2) by (simp add: k_def)
    from Suc.IH [OF sha1_ctx_update [OF Suc.prems(1), of "[0]" h] this] obtain ctx' where
      "pad_loop h fuel (SHA1Update h [0] ctx) = Some ctx'"
      "sha1_ctx ((m @ [0]) @ replicate ((120 - length (m @ [0]) mod 64) mod 64) 0) ctx'" by blast
    then show ?thesis using c False unfolding k_def [symmetric] k by (simp add: pad_loop.simps [of h "Suc fuel"])
  qed
qed

lemma finalcount_be64:
  assumes "sha1_ctx m ctx"
  shows "finalcount ctx = be64 (of_nat (8 * length m))"
proof -
  have b: "bit (of_nat n :: 'a :: len word) i \<longleftrightarrow> i < LENGTH('a) \<and> bit n i" for n i
    by (simp add: bit_simps)
  have lo: "shr_byte k (of_nat n :: uint32) = shr_byte k (of_nat n :: uint64)" if "k + 8 \<le> 32" for k n
    using that by (intro bit_word_eqI) (auto simp: bit_shr_byte b)
  have hi: "shr_byte k (of_nat (n div 2 ^ 32) :: uint32) = shr_byte (32 + k) (of_nat n :: uint64)" if "k + 8 \<le> 32" for k n
    using that unfolding drop_bit_eq_div [symmetric]
    by (intro bit_word_eqI) (auto simp: bit_shr_byte b bit_drop_bit_eq add.assoc)
  define N where "N = 8 * length m"
  have c: "sha_count0 ctx = of_nat N" "sha_count1 ctx = of_nat (N div 2 ^ 32)"
    using assms by (simp_all add: sha1_ctx_def N_def)
  have l: "[0..<8] = [0, 1, 2, 3, 4, 5, 6, 7 :: nat]" by (simp add: upt_rec)
  show ?thesis
    unfolding finalcount_def be64_def l c N_def [symmetric]
    using hi [of 0 N] hi [of 8 N] hi [of 16 N] hi [of 24 N] by (simp add: lo)
qed

lemma digest_be32:
  assumes "length st = 5"
  shows "digest_of st = concat (map be32 st)"
proof -
  obtain a b c d e where "st = [a, b, c, d, e]" using assms by (auto simp: length_Suc_conv numeral_eq_Suc)
  moreover have "[0..<20] = [0, 1, 2, 3, 4, 5, 6, 7, 8, 9, 10, 11, 12, 13, 14, 15, 16, 17, 18, 19 :: nat]" by (simp add: upt_rec)
  ultimately show ?thesis by (simp add: digest_of_def be32_def)
qed

lemma sha1_digest:
  assumes "length raw = 64"
  shows "map_option fst (SHA1Final h (foldl (\<lambda>ctx piece. SHA1Update h piece ctx) (SHA1Init raw) pieces)) = Some (fips_sha1 (concat pieces))"
proof -
  define m where "m = concat pieces"
  have "sha1_ctx (a @ concat pieces) (foldl (\<lambda>ctx piece. SHA1Update h piece ctx) ctx pieces)" if "sha1_ctx a ctx" for a ctx
    using that
  proof (induction pieces arbitrary: a ctx)
    case (Cons p ps)
    then show ?case using Cons.IH [OF sha1_ctx_update [OF Cons.prems, of p h]] by simp
  qed simp
  then have ctx: "sha1_ctx m (foldl (\<lambda>ctx piece. SHA1Update h piece ctx) (SHA1Init raw) pieces)"
    using sha1_ctx_init [OF assms] unfolding m_def by (metis append_Nil)
  let ?ctx = "foldl (\<lambda>ctx piece. SHA1Update h piece ctx) (SHA1Init raw) pieces"
  define k where "k = (120 - length (m @ [0x80]) mod 64) mod 64"
  have k: "k = (119 - length m mod 64) mod 64" "k \<le> 63"
    using pad_arith(3) [of "length m mod 64"] mod_less_divisor [of 64 "120 - length (m @ [0x80]) mod 64"] unfolding k_def
    by (simp_all add: mod_Suc_eq)
  from pad_loop_zeros [OF sha1_ctx_update [OF ctx, of "[0x80]" h], of 63 h, folded k_def] k(2) obtain ctx1 where
    p: "pad_loop h 63 (SHA1Update h [0x80] ?ctx) = Some ctx1" "sha1_ctx ((m @ [0x80]) @ replicate k 0) ctx1" by blast
  define ctx2 where "ctx2 = SHA1Update h (finalcount ?ctx) ctx1"
  have "sha1_ctx (fips_pad m) ctx2"
    using sha1_ctx_update [OF p(2), of "finalcount ?ctx" h] unfolding finalcount_be64 [OF ctx] fips_pad_def k(1) ctx2_def by simp
  then have "sha_state ctx2 = fips_blocks fips_init (fips_pad m)" by (simp add: sha1_ctx_def)
  moreover have "length (fips_blocks fips_init (fips_pad m)) = 5" by (rule length_fips_blocks) (simp add: fips_init_def)
  ultimately have "digest_of (sha_state ctx2) = fips_sha1 m" by (simp add: digest_be32 fips_sha1_def)
  then show ?thesis by (simp add: SHA1Final_def p(1) Let_def ctx2_def m_def)
qed

text \<open>
  C32 (equivalence).  Whatever the pieces in which a message is given to \<^verbatim>\<open>SHA1Update\<close>, and whatever the byte order of the host,
  \<^verbatim>\<open>SHA1Final\<close> ends and returns the digest that FIPS 180-1 defines for the whole message; its padding loop needs at most
  63 rounds.
\<close>

theorem sha1_is_fips:
  assumes "length raw = 64"
  shows "map_option fst (SHA1Final h (foldl (\<lambda>ctx piece. SHA1Update h piece ctx) (SHA1Init raw) pieces)) = Some (fips_sha1 (concat pieces))"
  by (rule sha1_digest [OF assms])

theorem sha1_is_fips_witness:
  "map_option fst (SHA1Final HostLittle (foldl (\<lambda>ctx piece. SHA1Update HostLittle piece ctx) (SHA1Init (replicate 64 7)) [[97], [98, 99]])) =
     Some (fips_sha1 [97, 98, 99])"
  using sha1_is_fips [of "replicate 64 7" HostLittle "[[97], [98, 99]]"] by simp

end
