(* ===== verification/Vz_Helpmethods.thy ===== *)
theory Vz_Helpmethods
  imports Vz_Sha1 Vz_Stringencode Vz_Base64
begin

text \<open>
  \<^verbatim>\<open>src/src/base/helpmethods.cpp\<close>: the helpers for signed HTTP requests: time stamps, nonces, percent encoding and
  HMAC-SHA1, which is shown to be the function of RFC 2104 over the SHA-1 of FIPS 180-1.  The
  clock, \<^verbatim>\<open>rand\<close> and the contents of uninitialised memory are arguments; strings are lists of bytes.
\<close>

section \<open>Time stamps and nonces\<close>

record tm =
  tm_year :: nat
  tm_mon :: nat
  tm_mday :: nat
  tm_hour :: nat
  tm_min :: nat
  tm_sec :: nat

definition padded :: "nat \<Rightarrow> nat \<Rightarrow> bytes" where
  "padded width n = (let d = decimal n in replicate (width - length d) 48 @ d)"

definition GetCurrentUTCTime :: "tm \<Rightarrow> bytes" where
  "GetCurrentUTCTime t =
     padded 4 (tm_year t + 1900) @ [45] @ padded 2 (tm_mon t + 1) @ [45] @ padded 2 (tm_mday t) @ [84] @
     padded 2 (tm_hour t) @ [58] @ padded 2 (tm_min t) @ [58] @ padded 2 (tm_sec t) @ [90]"

function Uint64ToString_loop :: "uint64 \<Rightarrow> bytes \<Rightarrow> bytes" where
  "Uint64ToString_loop n str =
     (if n = 0 then str else Uint64ToString_loop (n div 10) (str @ [ucast (n mod 10) + 48]))"
  by pat_completeness auto
termination
proof (relation "measure (\<lambda>(n, _). unat n)")
  fix n :: uint64 and str :: bytes
  assume "n \<noteq> 0"
  then have "0 < unat n" by (simp add: unat_gt_0)
  then show "((n div 10, str @ [ucast (n mod 10) + 48]), n, str) \<in> measure (\<lambda>(n, _). unat n)" by (simp add: unat_div)
qed simp

declare Uint64ToString_loop.simps [simp del]

definition Uint64ToString :: "uint64 \<Rightarrow> bytes \<Rightarrow> bytes" where
  "Uint64ToString n str = (if n = 0 then str @ [48] else Uint64ToString_loop n str)"

text \<open>\<open>rand\<close> lists the values that \<^verbatim>\<open>rand()\<close> returns after the seed was set; they are not negative.\<close>

definition GetRandNumString :: "(nat \<Rightarrow> nat) \<Rightarrow> int \<Rightarrow> bytes" where
  "GetRandNumString rand len = map (\<lambda>i. of_nat (rand i mod 10 + 48)) [0..<nat len]"

definition GetSignatureNonce :: "uint64 \<Rightarrow> (nat \<Rightarrow> nat) \<Rightarrow> bytes" where
  "GetSignatureNonce time rand = Uint64ToString time [] @ GetRandNumString rand 4"

definition GetUnixTimeStamp :: "uint64 \<Rightarrow> uint32" where
  "GetUnixTimeStamp nanos = ucast (nanos div 1000)"

section \<open>Percent encoding\<close>

definition HEX_upper :: bytes where
  "HEX_upper = bytes_of_string ''0123456789ABCDEF''"

definition TO_HEX :: "byte \<Rightarrow> byte" where
  "TO_HEX x = (if x < 16 then HEX_upper ! unat x else 33)"

definition IsAlNum :: "byte \<Rightarrow> bool" where
  "IsAlNum c \<longleftrightarrow> 65 \<le> c \<and> c \<le> 90 \<or> 97 \<le> c \<and> c \<le> 122 \<or> 48 \<le> c \<and> c \<le> 57 \<or> c = 45 \<or> c = 95 \<or> c = 46 \<or> c = 126"

definition URLEncode_char :: "byte \<Rightarrow> bytes" where
  "URLEncode_char ch =
     (if IsAlNum ch then [ch]
      else if 128 \<le> ch then [37, TO_HEX (hi_nibble ch), TO_HEX (lo_nibble ch)]
      else [37, TO_HEX (hi_nibble ch), TO_HEX (lo_nibble ch)])"

definition URLEncode :: "bytes \<Rightarrow> bytes" where
  "URLEncode str = concat (map URLEncode_char str)"

datatype HttpMethod = HTTP_GET | HTTP_POST

fun HttpMethodToStr :: "HttpMethod \<Rightarrow> string" where
  "HttpMethodToStr HTTP_GET = ''GET''"
| "HttpMethodToStr HTTP_POST = ''POST''"

section \<open>HMAC-SHA1\<close>

definition memxor :: "bytes \<Rightarrow> bytes \<Rightarrow> nat \<Rightarrow> bytes" where
  "memxor dest src n = map2 (XOR) (take n dest) (take n src) @ drop n dest"

definition IPAD :: byte where "IPAD = 0x36"
definition OPAD :: byte where "OPAD = 0x5C"

text \<open>\<open>raw k\<close> is what the stack holds where the buffer of the \<open>k\<close>-th context lies.\<close>

definition HmacSha1 :: "host_order \<Rightarrow> (nat \<Rightarrow> bytes) \<Rightarrow> bytes \<Rightarrow> bytes \<Rightarrow> bytes option" where
  "HmacSha1 h raw key data =
     (case (if length key > 64 then
              (case SHA1Final h (SHA1Update h key (SHA1Init (raw 0))) of None \<Rightarrow> None
               | Some (optkeybuf, _) \<Rightarrow> Some (write_at 0 (take 20 optkeybuf) (replicate 64 0), 20))
            else Some (write_at 0 key (replicate 64 0), length key)) of
        None \<Rightarrow> None
      | Some (key_buf, key_size) \<Rightarrow>
          (let block = memxor (replicate 64 IPAD) key_buf key_size in
           case SHA1Final h (SHA1Update h data (SHA1Update h block (SHA1Init (raw 1)))) of None \<Rightarrow> None
           | Some (innerhash, _) \<Rightarrow>
               (let block = memxor (replicate 64 OPAD) key_buf key_size in
                case SHA1Final h (SHA1Update h innerhash (SHA1Update h block (SHA1Init (raw 2)))) of None \<Rightarrow> None
                | Some (result, _) \<Rightarrow> Some result)))"

definition HmacSha1ToBase64 :: "host_order \<Rightarrow> (nat \<Rightarrow> bytes) \<Rightarrow> bytes \<Rightarrow> bytes \<Rightarrow> bytes option" where
  "HmacSha1ToBase64 h raw key data =
     (case HmacSha1 h raw key data of None \<Rightarrow> None | Some digest \<Rightarrow> Some (EncodeFromArray digest 20))"

section \<open>The standard\<close>

text \<open>RFC 2104 with SHA-1 and blocks of 64 bytes.\<close>

definition rfc_key :: "bytes \<Rightarrow> bytes" where
  "rfc_key key = (let k = (if length key > 64 then fips_sha1 key else key) in k @ replicate (64 - length k) 0)"

definition rfc_hmac :: "bytes \<Rightarrow> bytes \<Rightarrow> bytes" where
  "rfc_hmac key text =
     fips_sha1 (map (\<lambda>b. b XOR 0x5C) (rfc_key key) @ fips_sha1 (map (\<lambda>b. b XOR 0x36) (rfc_key key) @ text))"

lemma sha1_pieces:
  assumes "length raw = 64"
  shows "\<exists>c. SHA1Final h (SHA1Update h a (SHA1Init raw)) = Some (fips_sha1 a, c)"
    "\<exists>c. SHA1Final h (SHA1Update h b (SHA1Update h a (SHA1Init raw))) = Some (fips_sha1 (a @ b), c)"
  using sha1_digest [OF assms, of h "[a]"] sha1_digest [OF assms, of h "[a, b]"] by auto

lemma length_fips_sha1: "length (fips_sha1 m) = 20"
proof -
  have "length (fips_blocks fips_init (fips_pad m)) = 5" by (rule length_fips_blocks) (simp add: fips_init_def)
  moreover have "length (concat (map be32 ws)) = 4 * length ws" for ws by (induction ws) simp_all
  ultimately show ?thesis by (simp add: fips_sha1_def)
qed

lemma memxor_key:
  assumes "length k \<le> 64"
  shows "memxor (replicate 64 p) (write_at 0 k (replicate 64 0)) (length k) = map (\<lambda>b. b XOR p) (k @ replicate (64 - length k) 0)"
proof -
  have "map2 (XOR) (replicate n p) k = map (\<lambda>b. b XOR p) k" if "n = length k" for n
    using that by (induction k arbitrary: n) (auto simp: xor.commute)
  then show ?thesis using assms by (simp add: memxor_def write_at_def min_absorb1 map_replicate_const)
qed

text \<open>
  C33 (equivalence).  \<^verbatim>\<open>HmacSha1\<close> ends and computes HMAC-SHA1 as RFC 2104 defines it, for keys of every length, whatever the stack
  holds and on hosts of both byte orders; \<^verbatim>\<open>HmacSha1ToBase64\<close> is a text of 28 characters, its Base64 form, which the strict decoder
  reads to the end and turns back into the HMAC.
\<close>

theorem hmac_sha1_is_rfc2104:
  assumes "\<And>k. length (raw k) = 64" and "length qbuf0 = 4"
  shows "HmacSha1 h raw key data = Some (rfc_hmac key data) \<and>
    (\<exists>txt. HmacSha1ToBase64 h raw key data = Some txt \<and> txt = Base64_Encode (rfc_hmac key data) \<and> length txt = 28 \<and>
       DecodeFromArray qbuf0 txt (length txt) DO_STRICT = (rfc_hmac key data, length txt, True))"
proof -
  define k where "k = (if length key > 64 then fips_sha1 key else key)"
  have k: "length k \<le> 64" by (simp add: k_def length_fips_sha1)
  have keys: "(if length key > 64 then
      (case SHA1Final h (SHA1Update h key (SHA1Init (raw 0))) of None \<Rightarrow> None
       | Some (optkeybuf, _) \<Rightarrow> Some (write_at 0 (take 20 optkeybuf) (replicate 64 0), 20))
    else Some (write_at 0 key (replicate 64 0), length key)) = Some (write_at 0 k (replicate 64 (0 :: byte)), length k)"
    using sha1_pieces(1) [OF assms(1), of h key 0] by (auto simp: k_def length_fips_sha1)
  have r: "rfc_key key = k @ replicate (64 - length k) 0" by (simp add: rfc_key_def k_def Let_def)
  obtain c1 where i: "SHA1Final h (SHA1Update h data (SHA1Update h (map (\<lambda>b. b XOR 0x36) (rfc_key key)) (SHA1Init (raw 1)))) =
      Some (fips_sha1 (map (\<lambda>b. b XOR 0x36) (rfc_key key) @ data), c1)" using sha1_pieces(2) [OF assms(1)] by blast
  obtain c2 where o: "SHA1Final h (SHA1Update h (fips_sha1 (map (\<lambda>b. b XOR 0x36) (rfc_key key) @ data))
        (SHA1Update h (map (\<lambda>b. b XOR 0x5C) (rfc_key key)) (SHA1Init (raw 2)))) = Some (rfc_hmac key data, c2)"
    using sha1_pieces(2) [OF assms(1)] unfolding rfc_hmac_def by blast
  have hm: "HmacSha1 h raw key data = Some (rfc_hmac key data)"
    unfolding HmacSha1_def keys by (simp add: Let_def memxor_key [OF k] r [symmetric] IPAD_def OPAD_def i o del: One_nat_def)
  have "length (rfc_hmac key data) = 20" by (simp add: rfc_hmac_def length_fips_sha1)
  moreover have "DO_STRICT AND DO_PAD_MASK \<noteq> DO_PAD_NO"
    by (simp add: DO_STRICT_def DO_PARSE_STRICT_def DO_PAD_YES_def DO_TERM_BUFFER_def DO_PAD_MASK_def DO_PAD_NO_def)
  from decode_encode_loop [OF this assms(2), of _ _ "[]" "rfc_hmac key data" "[]"]
  have "DecodeFromArray qbuf0 (Base64_Encode (rfc_hmac key data)) (length (Base64_Encode (rfc_hmac key data))) DO_STRICT =
      (rfc_hmac key data, length (Base64_Encode (rfc_hmac key data)), True)"
    by (simp add: DecodeFromArray_def Base64_Encode_list Let_def)
  moreover have "HmacSha1ToBase64 h raw key data = Some (Base64_Encode (rfc_hmac key data))"
    using hm calculation(1) by (simp add: HmacSha1ToBase64_def Base64_Encode_def)
  ultimately show ?thesis using hm by (simp add: Base64_Encode_list length_encode_list)
qed

theorem hmac_sha1_is_rfc2104_witness:
  "HmacSha1 HostLittle (\<lambda>k. replicate 64 7) [1, 2] [3] = Some (rfc_hmac [1, 2] [3]) \<and>
   (\<exists>txt. HmacSha1ToBase64 HostLittle (\<lambda>k. replicate 64 7) [1, 2] [3] = Some txt \<and>
      DecodeFromArray [0, 0, 0, 0] txt (length txt) DO_STRICT = (rfc_hmac [1, 2] [3], length txt, True))"
  using hmac_sha1_is_rfc2104 [of "\<lambda>k. replicate 64 7" "[0, 0, 0, 0]" HostLittle "[1, 2]" "[3]"] by auto

section \<open>Texts\<close>

lemma upper_digit_val:
  assumes "v < 16"
  shows "hex_decode (TO_HEX v) = Some v"
proof -
  have "unat v < 16" using assms by (simp add: word_less_nat_alt)
  then have "v \<in> set (map of_nat [0..<16])" by (auto simp: image_iff intro!: bexI [of _ "unat v"])
  moreover have "list_all (\<lambda>v. hex_decode (TO_HEX v) = Some v) (map of_nat [0..<16])" by code_simp
  ultimately show ?thesis by (simp only: list_all_iff)
qed

interpretation help_codec: char_codec URLEncode_char url_step
proof unfold_locales
  fix room :: nat and c :: byte and rest :: bytes
  have "\<not> IsAlNum 43" "\<not> IsAlNum 37" by (simp_all add: IsAlNum_def)
  then show "\<exists>ch src k. URLEncode_char c = ch # src \<and> url_step room ch (src @ rest) = Some ([c], k) \<and> k = length src"
    by (auto simp: URLEncode_char_def url_step_def percent_step_def hex_pair_def upper_digit_val nibbles)
qed

text \<open>
  What \<^verbatim>\<open>URLEncode\<close> prints is decoded by \<^verbatim>\<open>url_decode\<close> to the same bytes, although the two files encode with
  different tables, and the text has only unreserved characters and percent signs.
\<close>

theorem url_encode_helper_roundtrip:
  assumes "length s < n"
  shows "url_decode n (URLEncode s) = s \<and> list_all (\<lambda>c. IsAlNum c \<or> c = 37) (URLEncode s)"
proof
  show "url_decode n (URLEncode s) = s"
    using help_codec.decode_encode [where out = "[]", of s n] assms by (auto simp: url_decode_def URLEncode_def)
  have t: "IsAlNum (TO_HEX v)" if "v < 16" for v
  proof -
    have "unat v < 16" using that by (simp add: word_less_nat_alt)
    then have "v \<in> set (map of_nat [0..<16])" by (auto simp: image_iff intro!: bexI [of _ "unat v"])
    moreover have "list_all (\<lambda>v. IsAlNum (TO_HEX v)) (map of_nat [0..<16])" by code_simp
    ultimately show ?thesis by (simp only: list_all_iff)
  qed
  show "list_all (\<lambda>c. IsAlNum c \<or> c = 37) (URLEncode s)"
    by (induction s) (simp_all add: URLEncode_def URLEncode_char_def t nibbles)
qed

theorem url_encode_helper_roundtrip_witness:
  "url_decode 5 (URLEncode [97, 32, 255, 37]) = [97, 32, 255, 37]"
  using url_encode_helper_roundtrip [of "[97, 32, 255, 37]" 5] by simp

text \<open>
  The digits of \<^verbatim>\<open>Uint64ToString\<close> come in the wrong order: the string is the decimal number read from right to left.
\<close>

theorem uint64_to_string_is_reversed: "Uint64ToString n [] = rev (decimal (unat n))"
proof (cases "n = 0")
  case True
  then show ?thesis by (simp add: Uint64ToString_def decimal.simps)
next
  case False
  have "n \<noteq> 0 \<Longrightarrow> Uint64ToString_loop n str = str @ rev (decimal (unat n))" for str
  proof (induction n str rule: Uint64ToString_loop.induct)
    case (1 n str)
    have digit: "ucast (n mod 10) + 48 = (of_nat (48 + unat n mod 10) :: byte)"
    proof -
      have "(ucast (n mod 10) :: byte) = of_nat (unat (n mod 10))" by simp
      then show ?thesis by (simp add: unat_mod)
    qed
    have step: "Uint64ToString_loop n str = Uint64ToString_loop (n div 10) (str @ [of_nat (48 + unat n mod 10)])"
      using "1.prems" unfolding digit [symmetric] by (subst Uint64ToString_loop.simps) simp
    show ?case
    proof (cases "n div 10 = 0")
      case True
      then have "unat (n div 10) = 0" by simp
      then have "unat n div 10 = 0" by (simp add: unat_div)
      then have "unat n < 10" by simp
      then show ?thesis unfolding step True
        by (simp add: Uint64ToString_loop.simps [of 0] decimal.simps [of "unat n"])
    next
      case nz: False
      then have "unat (n div 10) \<noteq> 0" by (simp add: unat_eq_0)
      then have "\<not> unat n < 10" by (simp add: unat_div)
      then have "decimal (unat n) = decimal (unat (n div 10)) @ [of_nat (48 + unat n mod 10)]"
        by (subst decimal.simps) (simp add: unat_div)
      then show ?thesis using "1.IH" [OF "1.prems" nz, unfolded digit] unfolding step by simp
    qed
  qed
  then show ?thesis using False by (simp add: Uint64ToString_def)
qed

end
