(* ===== verification/Vz_Sigslot.thy ===== *)
theory Vz_Sigslot
  imports Vz_Prelude
begin

text \<open>
  \<^verbatim>\<open>src/src/base/sigslot.h\<close>: signals and the objects that have slots.  The header repeats the same classes for zero to
  eight arguments; the arguments do not matter for what is modelled here, the graph of connections and the
  order of the calls.  Signals and objects are numbers that stand for their addresses, a connection
  is a node of the list of its signal and keeps its own address.  \<open>linked\<close> is the invariant that both ends
  of every connection know each other, which is what makes the destruction of either end safe.
\<close>

section \<open>Connections\<close>

record 'f conn =
  cn_node :: nat
  cn_dest :: nat
  cn_fun :: 'f

record 'f Slots =
  slots_of :: "nat \<Rightarrow> 'f conn list"
  senders_of :: "nat \<Rightarrow> nat list"
  next_node :: nat

definition Slots_empty :: "'f Slots" where
  "Slots_empty = \<lparr>slots_of = \<lambda>_. [], senders_of = \<lambda>_. [], next_node = 0\<rparr>"

definition signal_connect :: "nat \<Rightarrow> nat \<Rightarrow> 'f Slots \<Rightarrow> 'f Slots" where
  "signal_connect ob s g =
     (if s \<in> set (senders_of g ob) then g
      else g\<lparr>senders_of := (senders_of g)(ob := insort s (senders_of g ob))\<rparr>)"

definition signal_disconnect :: "nat \<Rightarrow> nat \<Rightarrow> 'f Slots \<Rightarrow> 'f Slots" where
  "signal_disconnect ob s g = g\<lparr>senders_of := (senders_of g)(ob := removeAll s (senders_of g ob))\<rparr>"

definition push_conn :: "nat \<Rightarrow> nat \<Rightarrow> 'f \<Rightarrow> 'f Slots \<Rightarrow> 'f Slots" where
  "push_conn s ob f g =
     g\<lparr>slots_of := (slots_of g)(s := slots_of g s @ [\<lparr>cn_node = next_node g, cn_dest = ob, cn_fun = f\<rparr>]),
       next_node := Suc (next_node g)\<rparr>"

definition connect :: "nat \<Rightarrow> nat \<Rightarrow> 'f \<Rightarrow> 'f Slots \<Rightarrow> 'f Slots" where
  "connect s ob f g = signal_connect ob s (push_conn s ob f g)"

definition is_empty_signal :: "nat \<Rightarrow> 'f Slots \<Rightarrow> bool" where
  "is_empty_signal s g \<longleftrightarrow> slots_of g s = []"

text \<open>\<^verbatim>\<open>disconnect_all\<close> of a signal, which its destructor runs.\<close>

definition signal_disconnect_all :: "nat \<Rightarrow> 'f Slots \<Rightarrow> 'f Slots" where
  "signal_disconnect_all s g =
     (let g1 = foldl (\<lambda>g c. signal_disconnect (cn_dest c) s g) g (slots_of g s)
      in g1\<lparr>slots_of := (slots_of g1)(s := [])\<rparr>)"

text \<open>\<^verbatim>\<open>disconnect\<close> removes the first connection to the object and returns.\<close>

fun remove_first :: "nat \<Rightarrow> 'f conn list \<Rightarrow> 'f conn list option" where
  "remove_first ob [] = None"
| "remove_first ob (c # cs) = (if cn_dest c = ob then Some cs else map_option (Cons c) (remove_first ob cs))"

definition disconnect :: "nat \<Rightarrow> nat \<Rightarrow> 'f Slots \<Rightarrow> 'f Slots" where
  "disconnect s ob g =
     (case remove_first ob (slots_of g s) of None \<Rightarrow> g
      | Some cs \<Rightarrow> signal_disconnect ob s (g\<lparr>slots_of := (slots_of g)(s := cs)\<rparr>))"

definition slot_disconnect :: "nat \<Rightarrow> nat \<Rightarrow> 'f Slots \<Rightarrow> 'f Slots" where
  "slot_disconnect s ob g = g\<lparr>slots_of := (slots_of g)(s := filter (\<lambda>c. cn_dest c \<noteq> ob) (slots_of g s))\<rparr>"

definition slot_duplicate :: "nat \<Rightarrow> nat \<Rightarrow> nat \<Rightarrow> 'f Slots \<Rightarrow> 'f Slots" where
  "slot_duplicate s old new g =
     foldl (\<lambda>g c. push_conn s new (cn_fun c) g) g (filter (\<lambda>c. cn_dest c = old) (slots_of g s))"

section \<open>Objects with slots\<close>

text \<open>\<^verbatim>\<open>has_slots::disconnect_all\<close>, which the destructor runs, and the copy constructor.\<close>

definition slots_disconnect_all :: "nat \<Rightarrow> 'f Slots \<Rightarrow> 'f Slots" where
  "slots_disconnect_all ob g =
     (let g1 = foldl (\<lambda>g s. slot_disconnect s ob g) g (senders_of g ob)
      in g1\<lparr>senders_of := (senders_of g1)(ob := [])\<rparr>)"

definition has_slots_copy :: "nat \<Rightarrow> nat \<Rightarrow> 'f Slots \<Rightarrow> 'f Slots" where
  "has_slots_copy old new g = foldl (\<lambda>g s. signal_connect new s (slot_duplicate s old new g)) g (senders_of g old)"

definition signal_copy :: "nat \<Rightarrow> nat \<Rightarrow> 'f Slots \<Rightarrow> 'f Slots" where
  "signal_copy s new g =
     foldl (\<lambda>g c. push_conn new (cn_dest c) (cn_fun c) (signal_connect (cn_dest c) new g)) g (slots_of g s)"

section \<open>Emitting a signal\<close>

text \<open>
  The loop keeps the iterator of the next node while the slot runs.  A slot may change the graph; when the node the
  iterator stands for was deleted meanwhile, going on is undefined (\<open>Dangling\<close>).  The result lists the connections that
  were called.
\<close>

datatype ('f, 's) emitted = Emitted "'f conn list" 's | Dangling "'f conn list" 's | OutOfFuel

fun node_after :: "nat \<Rightarrow> 'f conn list \<Rightarrow> nat option" where
  "node_after n [] = None"
| "node_after n (c # cs) = (if cn_node c = n then (case cs of [] \<Rightarrow> None | d # _ \<Rightarrow> Some (cn_node d)) else node_after n cs)"

fun emit_loop :: "('f conn \<Rightarrow> 'f Slots \<Rightarrow> 'f Slots) \<Rightarrow> nat \<Rightarrow> nat \<Rightarrow> nat option \<Rightarrow> 'f conn list \<Rightarrow> 'f Slots \<Rightarrow>
    ('f, 'f Slots) emitted" where
  "emit_loop call fuel s None called g = Emitted called g"
| "emit_loop call 0 s (Some n) called g = OutOfFuel"
| "emit_loop call (Suc k) s (Some n) called g =
     (case find (\<lambda>c. cn_node c = n) (slots_of g s) of None \<Rightarrow> Dangling called g
      | Some c \<Rightarrow> emit_loop call k s (node_after n (slots_of g s)) (called @ [c]) (call c g))"

definition emit_signal :: "('f conn \<Rightarrow> 'f Slots \<Rightarrow> 'f Slots) \<Rightarrow> nat \<Rightarrow> nat \<Rightarrow> 'f Slots \<Rightarrow> ('f, 'f Slots) emitted" where
  "emit_signal call fuel s g = emit_loop call fuel s (case slots_of g s of [] \<Rightarrow> None | c # _ \<Rightarrow> Some (cn_node c)) [] g"

section \<open>Both ends know each other\<close>

definition dests :: "'f Slots \<Rightarrow> nat \<Rightarrow> nat set" where
  "dests g s = cn_dest ` set (slots_of g s)"

definition linked :: "'f Slots \<Rightarrow> bool" where
  "linked g \<longleftrightarrow> (\<forall>s ob. ob \<in> dests g s \<longleftrightarrow> s \<in> set (senders_of g ob))"

lemma senders_signal_connect [simp]:
  "set (senders_of (signal_connect ob s g) p) = (if p = ob then insert s (set (senders_of g p)) else set (senders_of g p))"
  "dests (signal_connect ob s g) = dests g" "slots_of (signal_connect ob s g) = slots_of g"
  by (auto simp: signal_connect_def set_insort_key dests_def)

lemma senders_signal_disconnect [simp]:
  "set (senders_of (signal_disconnect ob s g) p) = (if p = ob then set (senders_of g p) - {s} else set (senders_of g p))"
  "dests (signal_disconnect ob s g) = dests g" "slots_of (signal_disconnect ob s g) = slots_of g"
  by (auto simp: signal_disconnect_def dests_def)

lemma push_conn_simps [simp]:
  "dests (push_conn s ob f g) t = (if t = s then insert ob (dests g t) else dests g t)"
  "senders_of (push_conn s ob f g) = senders_of g"
  by (auto simp: push_conn_def dests_def)

lemma slot_disconnect_simps [simp]:
  "dests (slot_disconnect s ob g) t = (if t = s then dests g t - {ob} else dests g t)"
  "senders_of (slot_disconnect s ob g) = senders_of g"
  by (auto simp: slot_disconnect_def dests_def)

lemma linked_connect: "linked g \<Longrightarrow> linked (connect s ob f g)"
  by (auto simp: linked_def connect_def)

lemma senders_after_disconnects:
  "set (senders_of (foldl (\<lambda>g c. signal_disconnect (cn_dest c) s g) g cs) p) =
     (if p \<in> cn_dest ` set cs then set (senders_of g p) - {s} else set (senders_of g p))"
  "dests (foldl (\<lambda>g c. signal_disconnect (cn_dest c) s g) g cs) = dests g"
  by (induction cs arbitrary: g) auto

lemma linked_signal_disconnect_all: "linked g \<Longrightarrow> linked (signal_disconnect_all s g)"
proof -
  assume g: "linked g"
  let ?g1 = "foldl (\<lambda>g c. signal_disconnect (cn_dest c) s g) g (slots_of g s)"
  have d: "dests (signal_disconnect_all s g) t = (if t = s then {} else dests g t)" for t
    using senders_after_disconnects(2) [of s g "slots_of g s"]
    by (auto simp: signal_disconnect_all_def Let_def dests_def fun_eq_iff)
  have n: "set (senders_of (signal_disconnect_all s g) p) = (if p \<in> dests g s then set (senders_of g p) - {s} else set (senders_of g p))" for p
    by (simp add: signal_disconnect_all_def Let_def senders_after_disconnects(1) dests_def)
  show ?thesis using g unfolding linked_def d n by auto
qed

lemma remove_first_dests:
  assumes "remove_first ob cs = Some cs'" and "length (filter (\<lambda>c. cn_dest c = ob) cs) \<le> 1"
  shows "cn_dest ` set cs' = cn_dest ` set cs - {ob}" "ob \<in> cn_dest ` set cs"
proof -
  have "cn_dest ` set cs' = cn_dest ` set cs - {ob} \<and> ob \<in> cn_dest ` set cs"
    using assms
  proof (induction cs arbitrary: cs')
    case (Cons c cs)
    show ?case
    proof (cases "cn_dest c = ob")
      case True
      then have "ob \<notin> cn_dest ` set cs" using Cons.prems(2) by (auto simp: filter_empty_conv)
      then show ?thesis using True Cons.prems(1) by auto
    next
      case False
      then obtain z where z: "remove_first ob cs = Some z" "cs' = c # z" using Cons.prems(1) by auto
      have "cn_dest ` set z = cn_dest ` set cs - {ob} \<and> ob \<in> cn_dest ` set cs"
        using Cons.IH [OF z(1)] Cons.prems(2) False by simp
      then show ?thesis using z(2) False by (simp add: insert_Diff_if)
    qed
  qed simp
  then show "cn_dest ` set cs' = cn_dest ` set cs - {ob}" "ob \<in> cn_dest ` set cs" by simp_all
qed

lemma remove_first_None: "remove_first ob cs = None \<longleftrightarrow> ob \<notin> cn_dest ` set cs"
  by (induction cs) auto

lemma linked_disconnect:
  assumes "linked g" and "length (filter (\<lambda>c. cn_dest c = ob) (slots_of g s)) \<le> 1"
  shows "linked (disconnect s ob g)"
proof (cases "remove_first ob (slots_of g s)")
  case None
  then show ?thesis using assms(1) by (simp add: disconnect_def)
next
  case (Some cs)
  have "dests (disconnect s ob g) t = (if t = s then dests g t - {ob} else dests g t)" for t
    using remove_first_dests(1) [OF Some assms(2)] by (auto simp: disconnect_def Some dests_def)
  moreover have "set (senders_of (disconnect s ob g) p) = (if p = ob then set (senders_of g p) - {s} else set (senders_of g p))" for p
    by (simp add: disconnect_def Some)
  ultimately show ?thesis using assms(1) by (auto simp: linked_def)
qed

lemma dests_after_slot_disconnects:
  "dests (foldl (\<lambda>g s. slot_disconnect s ob g) g ss) t = (if t \<in> set ss then dests g t - {ob} else dests g t)"
  "senders_of (foldl (\<lambda>g s. slot_disconnect s ob g) g ss) = senders_of g"
  by (induction ss arbitrary: g) auto

lemma slots_disconnect_all_simps:
  "dests (slots_disconnect_all ob g) t = (if t \<in> set (senders_of g ob) then dests g t - {ob} else dests g t)"
  "set (senders_of (slots_disconnect_all ob g) p) = (if p = ob then {} else set (senders_of g p))"
  using dests_after_slot_disconnects [of ob g "senders_of g ob"] by (simp_all add: slots_disconnect_all_def Let_def dests_def)

lemma linked_slots_disconnect_all: "linked g \<Longrightarrow> linked (slots_disconnect_all ob g)"
  unfolding linked_def slots_disconnect_all_simps by auto

lemma slot_duplicate_simps:
  fixes g :: "'f Slots"
  shows "dests (slot_duplicate s old new g) t = (if t = s \<and> old \<in> dests g s then insert new (dests g t) else dests g t)"
  "senders_of (slot_duplicate s old new g) = senders_of g"
proof -
  have *: "dests (foldl (\<lambda>g c. push_conn s new (cn_fun c) g) g cs) t = (if t = s \<and> cs \<noteq> [] then insert new (dests g t) else dests g t)"
    "senders_of (foldl (\<lambda>g c. push_conn s new (cn_fun c) g) g cs) = senders_of g" for cs :: "'f conn list"
    by (induction cs arbitrary: g) auto
  show "dests (slot_duplicate s old new g) t = (if t = s \<and> old \<in> dests g s then insert new (dests g t) else dests g t)"
    unfolding slot_duplicate_def * by (auto simp: dests_def filter_empty_conv)
  show "senders_of (slot_duplicate s old new g) = senders_of g" unfolding slot_duplicate_def * ..
qed

lemma linked_has_slots_copy:
  fixes g :: "'f Slots"
  assumes "linked g" and "old \<noteq> new"
  shows "linked (has_slots_copy old new g)"
proof -
  have "linked (foldl (\<lambda>g s. signal_connect new s (slot_duplicate s old new g)) g ss)"
    if "linked g" "\<forall>s \<in> set ss. old \<in> dests g s" for ss and g :: "'f Slots"
    using that
  proof (induction ss arbitrary: g)
    case (Cons s ss)
    have "linked (signal_connect new s (slot_duplicate s old new g))"
      using Cons.prems assms(2) by (auto simp: linked_def slot_duplicate_simps)
    moreover have "\<forall>t \<in> set ss. old \<in> dests (signal_connect new s (slot_duplicate s old new g)) t"
      using Cons.prems(2) by (auto simp: slot_duplicate_simps)
    ultimately show ?case using Cons.IH by simp
  qed simp
  then show ?thesis using assms(1) by (auto simp: has_slots_copy_def linked_def)
qed

lemma linked_signal_copy:
  fixes g :: "'f Slots"
  assumes "linked g"
  shows "linked (signal_copy s new g)"
proof -
  have "linked (foldl (\<lambda>g c. push_conn new (cn_dest c) (cn_fun c) (signal_connect (cn_dest c) new g)) g cs)" if "linked g" for cs :: "'f conn list" and g :: "'f Slots"
    using that
  proof (induction cs arbitrary: g)
    case (Cons c cs)
    have "linked (push_conn new (cn_dest c) (cn_fun c) (signal_connect (cn_dest c) new g))"
      using Cons.prems by (auto simp: linked_def)
    then show ?case using Cons.IH by simp
  qed simp
  then show ?thesis using assms by (simp add: signal_copy_def)
qed

inductive slots_reachable :: "'f Slots \<Rightarrow> bool" where
  start: "slots_reachable Slots_empty"
| r_connect: "slots_reachable g \<Longrightarrow> slots_reachable (connect s ob f g)"
| r_disconnect: "slots_reachable g \<Longrightarrow> length (filter (\<lambda>c. cn_dest c = ob) (slots_of g s)) \<le> 1 \<Longrightarrow>
    slots_reachable (disconnect s ob g)"
| r_signal_destroyed: "slots_reachable g \<Longrightarrow> slots_reachable (signal_disconnect_all s g)"
| r_object_destroyed: "slots_reachable g \<Longrightarrow> slots_reachable (slots_disconnect_all ob g)"
| r_object_copied: "slots_reachable g \<Longrightarrow> old \<noteq> new \<Longrightarrow> slots_reachable (has_slots_copy old new g)"
| r_signal_copied: "slots_reachable g \<Longrightarrow> slots_reachable (signal_copy s new g)"

lemma linked_reachable: "slots_reachable g \<Longrightarrow> linked g"
proof (induction rule: slots_reachable.induct)
  case start
  show ?case by (simp add: linked_def Slots_empty_def dests_def)
qed (blast intro: linked_connect linked_disconnect linked_signal_disconnect_all linked_slots_disconnect_all
    linked_has_slots_copy linked_signal_copy)+

text \<open>
  C34 (invariant).  Through any sequence of connecting, disconnecting an object that is connected to the signal at most once,
  destroying and copying signals and objects, an object lists a signal exactly when the signal has a
  connection to it.  So no signal is left with a connection to a destroyed object, and no object
  lists a destroyed signal.
\<close>

theorem both_ends_linked:
  assumes "slots_reachable g"
  shows "linked g \<and> (\<forall>s. ob \<notin> dests (slots_disconnect_all ob g) s) \<and> (\<forall>ob. s \<notin> set (senders_of (signal_disconnect_all s g) ob))"
proof -
  note g = linked_reachable [OF assms]
  moreover have "ob \<notin> dests (slots_disconnect_all ob g) t" for t
    using g unfolding slots_disconnect_all_simps linked_def by auto
  moreover have "s \<notin> set (senders_of (signal_disconnect_all s g) p)" for p
  proof -
    have "dests (signal_disconnect_all s g) s = {}" by (simp add: signal_disconnect_all_def Let_def dests_def)
    then show ?thesis using linked_signal_disconnect_all [OF g, of s] unfolding linked_def by blast
  qed
  ultimately show ?thesis by blast
qed

definition demo_graph :: "nat Slots" where
  "demo_graph = connect 2 10 0 (connect 1 11 0 (connect 1 10 0 Slots_empty))"

theorem both_ends_linked_witness:
  "linked demo_graph \<and> 10 \<notin> dests (slots_disconnect_all 10 demo_graph) 1 \<and> senders_of demo_graph 10 = [1, 2]"
proof -
  have r: "slots_reachable demo_graph" unfolding demo_graph_def by (intro r_connect start)
  have "senders_of demo_graph 10 = [1, 2]"
    by (simp add: demo_graph_def connect_def signal_connect_def push_conn_def Slots_empty_def)
  then show ?thesis using both_ends_linked [OF r, of 10 1] by blast
qed

text \<open>
  An object that is connected to a signal twice and disconnected once is forgotten too early: one connection
  stays in the list of the signal, but the object no longer lists the signal, so its destructor does not remove the
  connection and the next emission calls a method of a destroyed object.
\<close>

theorem double_connection_dangles:
  assumes "linked g" and "ob \<notin> dests g s" and "g' = disconnect s ob (connect s ob f2 (connect s ob f1 g))"
  shows "ob \<in> dests g' s \<and> s \<notin> set (senders_of g' ob) \<and> ob \<in> dests (slots_disconnect_all ob g') s"
proof -
  let ?c1 = "\<lparr>cn_node = next_node g, cn_dest = ob, cn_fun = f1\<rparr>"
  let ?c2 = "\<lparr>cn_node = Suc (next_node g), cn_dest = ob, cn_fun = f2\<rparr>"
  have l: "slots_of (connect s ob f2 (connect s ob f1 g)) s = slots_of g s @ [?c1, ?c2]"
    by (simp add: connect_def push_conn_def signal_connect_def)
  have "remove_first ob (cs @ [?c1, ?c2]) = Some (cs @ [?c2])" if "ob \<notin> cn_dest ` set cs" for cs
    using that by (induction cs) auto
  then have "remove_first ob (slots_of (connect s ob f2 (connect s ob f1 g)) s) = Some (slots_of g s @ [?c2])"
    unfolding l using assms(2) by (simp add: dests_def)
  then have "ob \<in> dests g' s" "s \<notin> set (senders_of g' ob)"
    unfolding assms(3) disconnect_def by (auto simp: dests_def)
  then show ?thesis by (simp add: slots_disconnect_all_simps)
qed

theorem double_connection_dangles_witness:
  "10 \<in> dests (slots_disconnect_all 10 (disconnect 1 10 (connect 1 10 (6 :: nat) (connect 1 10 5 Slots_empty)))) 1"
proof -
  have "linked (Slots_empty :: nat Slots)" "10 \<notin> dests (Slots_empty :: nat Slots) 1"
    by (simp_all add: linked_def Slots_empty_def dests_def)
  from double_connection_dangles [OF this refl] show ?thesis by blast
qed

section \<open>The calls of an emission\<close>

lemma node_after_split:
  assumes "distinct (map cn_node (xs @ c # ys))"
  shows "node_after (cn_node c) (xs @ c # ys) = (case ys of [] \<Rightarrow> None | d # _ \<Rightarrow> Some (cn_node d))"
  using assms by (induction xs) auto

lemma find_node_split:
  assumes "distinct (map cn_node (xs @ c # ys))"
  shows "find (\<lambda>d. cn_node d = cn_node c) (xs @ c # ys) = Some c"
  using assms by (induction xs) auto

text \<open>Every connection is a node of its own.\<close>

definition own_nodes :: "'f Slots \<Rightarrow> bool" where
  "own_nodes g \<longleftrightarrow> (\<forall>s. distinct (map cn_node (slots_of g s)) \<and> (\<forall>c \<in> set (slots_of g s). cn_node c < next_node g))"

lemma own_nodes_sublist:
  assumes "own_nodes g" and "next_node g' = next_node g" and "\<And>s. \<exists>P. slots_of g' s = filter P (slots_of g s)"
  shows "own_nodes g'"
  unfolding own_nodes_def
proof (intro allI conjI ballI)
  fix s
  obtain P where P: "slots_of g' s = filter P (slots_of g s)" using assms(3) by blast
  then show "distinct (map cn_node (slots_of g' s))" using assms(1) by (simp add: own_nodes_def distinct_map_filter)
  show "cn_node c < next_node g'" if "c \<in> set (slots_of g' s)" for c
    using that P assms(1,2) by (auto simp: own_nodes_def)
qed

lemma own_nodes_push:
  assumes "own_nodes g"
  shows "own_nodes (push_conn s ob f g)"
proof -
  have "next_node g \<notin> cn_node ` set (slots_of g t)" for t using assms unfolding own_nodes_def by (metis imageE less_irrefl)
  then show ?thesis using assms by (auto simp: own_nodes_def push_conn_def less_Suc_eq)
qed

lemma own_nodes_senders [simp]:
  "own_nodes (signal_connect ob s g) = own_nodes g" "own_nodes (signal_disconnect ob s g) = own_nodes g"
  by (simp_all add: own_nodes_def signal_connect_def signal_disconnect_def)

lemma own_nodes_foldl: "own_nodes g \<Longrightarrow> (\<And>g x. own_nodes g \<Longrightarrow> own_nodes (f g x)) \<Longrightarrow> own_nodes (foldl f g xs)"
  by (induction xs arbitrary: g) auto

lemma filter_other_nodes: "n \<notin> cn_node ` set cs \<Longrightarrow> filter (\<lambda>d. cn_node d \<noteq> n) cs = cs"
  by (induction cs) auto

lemma remove_first_filter:
  "remove_first ob cs = Some cs' \<Longrightarrow> distinct (map cn_node cs) \<Longrightarrow> \<exists>P. cs' = filter P cs"
proof -
  assume r: "remove_first ob cs = Some cs'" and d: "distinct (map cn_node cs)"
  have "\<exists>xs c ys. cs = xs @ c # ys \<and> cs' = xs @ ys"
    using r
  proof (induction cs arbitrary: cs')
    case (Cons c cs)
    show ?case
    proof (cases "cn_dest c = ob")
      case True
      then show ?thesis using Cons.prems by (intro exI [of _ "[]"]) auto
    next
      case False
      then obtain z where "remove_first ob cs = Some z" "cs' = c # z" using Cons.prems by auto
      then show ?thesis using Cons.IH by (metis append_Cons)
    qed
  qed simp
  then obtain xs c ys where "cs = xs @ c # ys" "cs' = xs @ ys" by blast
  then have "cs' = filter (\<lambda>d. cn_node d \<noteq> cn_node c) cs" using d by (simp add: filter_other_nodes)
  then show ?thesis by blast
qed

lemma own_nodes_reachable: "slots_reachable g \<Longrightarrow> own_nodes g"
proof (induction rule: slots_reachable.induct)
  case start
  show ?case by (simp add: own_nodes_def Slots_empty_def)
next
  case (r_disconnect g ob s)
  have "\<exists>P. slots_of (disconnect s ob g) t = filter P (slots_of g t)" for t
  proof (cases "t = s \<and> ob \<in> dests g s")
    case True
    then obtain cs where "remove_first ob (slots_of g s) = Some cs"
      using remove_first_None [of ob "slots_of g s"] by (auto simp: dests_def)
    moreover have "distinct (map cn_node (slots_of g s))" using r_disconnect.IH by (simp add: own_nodes_def)
    ultimately have "\<exists>P. cs = filter P (slots_of g s)" by (rule remove_first_filter)
    then show ?thesis using \<open>remove_first ob (slots_of g s) = Some cs\<close> True by (simp add: disconnect_def)
  next
    case False
    then have "slots_of (disconnect s ob g) t = slots_of g t"
      using remove_first_None [of ob "slots_of g s"] by (auto simp: disconnect_def dests_def split: option.splits)
    then show ?thesis by (intro exI [of _ "\<lambda>_. True"]) simp
  qed
  then show ?case
    by (intro own_nodes_sublist [OF r_disconnect.IH]) (simp_all add: disconnect_def signal_disconnect_def split: option.splits)
next
  case (r_signal_destroyed g s)
  have "own_nodes (foldl (\<lambda>g c. signal_disconnect (cn_dest c) s g) g (slots_of g s))"
    using r_signal_destroyed.IH by (intro own_nodes_foldl) simp_all
  then show ?case by (simp add: signal_disconnect_all_def Let_def own_nodes_def)
next
  case (r_object_destroyed g ob)
  have "own_nodes (slot_disconnect s ob g)" if "own_nodes g" for s and g :: "'a Slots"
    using that by (rule own_nodes_sublist) (auto simp: slot_disconnect_def intro: exI [of _ "\<lambda>_. True"])
  then have "own_nodes (foldl (\<lambda>g s. slot_disconnect s ob g) g (senders_of g ob))"
    using r_object_destroyed.IH by (intro own_nodes_foldl) simp_all
  then show ?case by (simp add: slots_disconnect_all_def Let_def own_nodes_def)
qed (auto simp: connect_def has_slots_copy_def signal_copy_def slot_duplicate_def intro!: own_nodes_push own_nodes_foldl)

text \<open>
  What a slot may do to the signal that is calling it: leave it alone, have its object disconnected from it, or run \<^verbatim>\<open>disconnect_all\<close> of
  its object, as the destructor of the object does.
\<close>

datatype slot_action = Leave | Disconnect_self | Destroy_self

fun run_slot :: "nat \<Rightarrow> slot_action \<Rightarrow> 'f conn \<Rightarrow> 'f Slots \<Rightarrow> 'f Slots" where
  "run_slot s Leave c g = g"
| "run_slot s Disconnect_self c g = disconnect s (cn_dest c) g"
| "run_slot s Destroy_self c g = slots_disconnect_all (cn_dest c) g"

lemma slots_after_slot_disconnects:
  "slots_of (foldl (\<lambda>g s. slot_disconnect s ob g) g ss) t =
     (if t \<in> set ss then filter (\<lambda>c. cn_dest c \<noteq> ob) (slots_of g t) else slots_of g t)"
  by (induction ss arbitrary: g) (auto simp: slot_disconnect_def)

lemma run_slot_own:
  assumes "linked g" and "slots_of g s = xs @ c # ys" and "distinct (map cn_dest (xs @ c # ys))"
  shows "linked (run_slot s a c g) \<and> slots_of (run_slot s a c g) s = (if a = Leave then xs @ c # ys else xs @ ys)"
proof (cases a)
  case Disconnect_self
  have none: "cn_dest c \<notin> cn_dest ` set xs" "cn_dest c \<notin> cn_dest ` set ys" using assms(3) by auto
  have "remove_first (cn_dest c) (xs @ c # ys) = Some (xs @ ys)" using none(1) by (induction xs) auto
  moreover have "filter (\<lambda>d. cn_dest d = cn_dest c) (xs @ c # ys) = [c]"
    using none by (auto simp: filter_empty_conv image_iff eq_commute [of "cn_dest c"])
  ultimately show ?thesis
    using linked_disconnect [OF assms(1), of "cn_dest c" s] Disconnect_self by (simp add: disconnect_def assms(2))
next
  case Destroy_self
  have "s \<in> set (senders_of g (cn_dest c))" using assms(1,2) unfolding linked_def dests_def by force
  moreover have "filter (\<lambda>d. cn_dest d \<noteq> cn_dest c) xs = xs" "filter (\<lambda>d. cn_dest d \<noteq> cn_dest c) ys = ys"
    using assms(3) by (simp_all add: filter_id_conv image_iff eq_commute [of "cn_dest c"])
  ultimately show ?thesis using linked_slots_disconnect_all [OF assms(1)] Destroy_self
    by (simp add: slots_disconnect_all_def Let_def slots_after_slot_disconnects assms(2))
qed (use assms in simp)

lemma emit_loop_own:
  assumes "distinct (map cn_node (xs @ ys))" and "distinct (map cn_dest (xs @ ys))" and "linked g" and "slots_of g s = xs @ ys"
    and "length ys \<le> fuel"
  shows "\<exists>g'. emit_loop (\<lambda>c. run_slot s (act c) c) fuel s (case ys of [] \<Rightarrow> None | c # _ \<Rightarrow> Some (cn_node c)) called g =
      Emitted (called @ ys) g' \<and> linked g' \<and> slots_of g' s = xs @ filter (\<lambda>c. act c = Leave) ys"
  using assms
proof (induction ys arbitrary: xs g called fuel)
  case (Cons c ys)
  then obtain k where k: "fuel = Suc k" "length ys \<le> k" by (cases fuel) auto
  have step: "emit_loop (\<lambda>c. run_slot s (act c) c) fuel s (Some (cn_node c)) called g =
      emit_loop (\<lambda>c. run_slot s (act c) c) k s (case ys of [] \<Rightarrow> None | d # _ \<Rightarrow> Some (cn_node d)) (called @ [c]) (run_slot s (act c) c g)"
    using find_node_split [OF Cons.prems(1)] node_after_split [OF Cons.prems(1)] unfolding k(1) by (simp add: Cons.prems(4))
  define zs where "zs = (if act c = Leave then xs @ [c] else xs)"
  have z: "linked (run_slot s (act c) c g)" "slots_of (run_slot s (act c) c g) s = zs @ ys"
    using run_slot_own [OF Cons.prems(3,4,2), of "act c"] by (simp_all add: zs_def)
  have "distinct (map cn_node (zs @ ys))" "distinct (map cn_dest (zs @ ys))" using Cons.prems(1,2) by (auto simp: zs_def)
  from Cons.IH [OF this z k(2), of "called @ [c]"] show ?case unfolding list.case step by (cases "act c = Leave") (simp_all add: zs_def)
qed simp

text \<open>
  C35 (functional).  Emitting a signal to which every object is connected at most once calls every connected slot exactly once, in
  the order in which they were connected, even when slots disconnect or destroy their own object while they run; afterwards the
  signal has the connections of the other slots, in their order, and both ends of every connection still know each other.
\<close>

theorem emit_calls_all_in_order:
  assumes "slots_reachable g" and "distinct (map cn_dest (slots_of g s))" and "length (slots_of g s) \<le> fuel"
  shows "\<exists>g'. emit_signal (\<lambda>c. run_slot s (act c) c) fuel s g = Emitted (slots_of g s) g' \<and> linked g' \<and>
    slots_of g' s = filter (\<lambda>c. act c = Leave) (slots_of g s)"
  using emit_loop_own [where xs = "[]" and called = "[]", of "slots_of g s" g s fuel act] assms(2,3)
    linked_reachable [OF assms(1)] own_nodes_reachable [OF assms(1)] by (simp add: emit_signal_def own_nodes_def)

theorem emit_calls_all_in_order_witness:
  "\<exists>g'. emit_signal (\<lambda>c. run_slot 1 (if cn_dest c = 10 then Disconnect_self else Destroy_self) c) 2 1 demo_graph =
      Emitted (slots_of demo_graph 1) g' \<and> length (slots_of demo_graph 1) = 2 \<and> slots_of g' 1 = []"
proof -
  have r: "slots_reachable demo_graph" unfolding demo_graph_def by (intro r_connect start)
  have l: "map cn_dest (slots_of demo_graph 1) = [10, 11]"
    by (simp add: demo_graph_def connect_def signal_connect_def push_conn_def Slots_empty_def)
  then have n: "length (slots_of demo_graph 1) = 2" by (metis length_map length_Cons list.size(3) numeral_2_eq_2)
  have "distinct (map cn_dest (slots_of demo_graph 1))" unfolding l by simp
  from emit_calls_all_in_order [OF r this, of 2 "\<lambda>c. if cn_dest c = 10 then Disconnect_self else Destroy_self"] n
  show ?thesis by (auto split: if_splits)
qed

text \<open>A slot that deletes the connection behind its own leaves the loop with an iterator of a deleted node.\<close>

theorem deleting_next_slot_dangles:
  assumes "slots_of g s = [c, d]" and "cn_node c \<noteq> cn_node d" and "slots_of (call c g) s = [c]" and "2 \<le> fuel"
  shows "emit_signal call fuel s g = Dangling [c] (call c g)"
proof -
  obtain k where "fuel = Suc (Suc k)" using assms(4) by (metis add_2_eq_Suc le_Suc_ex)
  then show ?thesis using assms(1-3) by (simp add: emit_signal_def)
qed

end
