(* ===== verification/Vz_Stringutils.thy ===== *)
theory Vz_Stringutils
  imports Vz_Prelude "HOL-Library.Sublist"
begin

text \<open>
  \<^verbatim>\<open>src/src/base/stringutils.cpp\<close> and the templates of \<^verbatim>\<open>stringutils.h\<close> for \<^verbatim>\<open>char\<close>: wildcard patterns, replacing,
  trimming, and the copying routines that close every buffer with a NUL.  A C string that is only read
  is the list of its characters before the NUL.  The copying routines work on blocks of memory:
  a buffer is the list of its bytes, and an access outside of it gives \<open>None\<close>.
\<close>

section \<open>Patterns\<close>

definition toupper :: "byte \<Rightarrow> byte" where
  "toupper c = (if 97 \<le> c \<and> c \<le> 122 then c - 32 else c)"

definition tolowercase :: "byte \<Rightarrow> byte" where
  "tolowercase c = (if 65 \<le> c \<and> c \<le> 90 then c + 32 else c)"

definition memory_check :: "bytes \<Rightarrow> int32 \<Rightarrow> nat \<Rightarrow> bool" where
  "memory_check memory c count = (\<forall>i \<in> set [0..<count]. memory ! i = ucast c)"

text \<open>The inner loop of \<^verbatim>\<open>string_match\<close> looks for the character behind the asterisk.\<close>

function string_match :: "bytes \<Rightarrow> bytes \<Rightarrow> bool"
  and string_match_star :: "bytes \<Rightarrow> byte \<Rightarrow> bytes \<Rightarrow> bool" where
  "string_match target [] = (target = [])"
| "string_match target (p # pattern) =
     (if p = 42 then (case pattern of [] \<Rightarrow> True | q # pattern1 \<Rightarrow> string_match_star target q pattern1)
      else (case target of [] \<Rightarrow> False
            | t # target1 \<Rightarrow> if toupper p \<noteq> toupper t then False else string_match target1 pattern))"
| "string_match_star [] q pattern1 = False"
| "string_match_star (t # target1) q pattern1 =
     (if toupper q = toupper t \<and> string_match target1 pattern1 then True else string_match_star target1 q pattern1)"
  by pat_completeness auto
termination
  by (relation "measure (\<lambda>x. case x of Inl (t, p) \<Rightarrow> length t + length p | Inr (t, q, p) \<Rightarrow> length t + length p)") auto

section \<open>Searching and replacing\<close>

text \<open>\<^verbatim>\<open>std::string::find(search, pos, search_len)\<close>: the first occurrence at \<open>pos\<close> or behind it.\<close>

definition find_at_or_after :: "bytes \<Rightarrow> nat \<Rightarrow> bytes \<Rightarrow> nat option" where
  "find_at_or_after search pos s = find (\<lambda>i. take (length search) (drop i s) = search) [pos..<Suc (length s) - length search]"

fun replace_loop :: "nat \<Rightarrow> bytes \<Rightarrow> bytes \<Rightarrow> nat \<Rightarrow> bytes \<Rightarrow> bytes option" where
  "replace_loop 0 search replace pos s = None"
| "replace_loop (Suc fuel) search replace pos s =
     (case find_at_or_after search pos s of None \<Rightarrow> Some s
      | Some p \<Rightarrow> replace_loop fuel search replace (p + length replace)
          (take p s @ replace @ drop (p + length search) s))"

definition replace_substrs :: "nat \<Rightarrow> bytes \<Rightarrow> bytes \<Rightarrow> bytes \<Rightarrow> bytes option" where
  "replace_substrs fuel search replace s = replace_loop fuel search replace 0 s"

text \<open>\<^verbatim>\<open>strncmp(s1, s2, n) == 0\<close>; the end of a list is its NUL.\<close>

fun strncmp_eq :: "bytes \<Rightarrow> bytes \<Rightarrow> nat \<Rightarrow> bool" where
  "strncmp_eq s1 s2 0 = True"
| "strncmp_eq [] [] (Suc n) = True"
| "strncmp_eq (a # s1) (b # s2) (Suc n) = (a = b \<and> strncmp_eq s1 s2 n)"
| "strncmp_eq s1 s2 (Suc n) = False"

definition starts_with :: "bytes \<Rightarrow> bytes \<Rightarrow> bool" where
  "starts_with s1 s2 = strncmp_eq s1 s2 (length s2)"

definition ends_with :: "bytes \<Rightarrow> bytes \<Rightarrow> bool" where
  "ends_with s1 s2 =
     (if length s2 > length s1 then False
      else strncmp_eq (drop (length s1 - length s2) s1) s2 (length s2))"

definition kWhitespace :: bytes where
  "kWhitespace = [32, 10, 13, 9]"

definition find_first_not_of :: "bytes \<Rightarrow> bytes \<Rightarrow> nat option" where
  "find_first_not_of s cs = find (\<lambda>i. s ! i \<notin> set cs) [0..<length s]"

definition find_last_not_of :: "bytes \<Rightarrow> bytes \<Rightarrow> nat option" where
  "find_last_not_of s cs = find (\<lambda>i. s ! i \<notin> set cs) (rev [0..<length s])"

definition string_trim :: "bytes \<Rightarrow> bytes" where
  "string_trim s = (case (find_first_not_of s kWhitespace, find_last_not_of s kWhitespace) of
     (Some fst_pos, Some last_pos) \<Rightarrow> take (last_pos - fst_pos + 1) (drop fst_pos s) | _ \<Rightarrow> [])"

text \<open>The position of the first character that is one of \<open>chs\<close>, and of the character \<open>ch\<close> in the first \<open>slen\<close>.\<close>

fun strchr_set :: "bytes \<Rightarrow> bytes \<Rightarrow> nat option" where
  "strchr_set [] chs = None"
| "strchr_set (c # str) chs = (if c \<in> set chs then Some 0 else map_option Suc (strchr_set str chs))"

fun strchrn :: "bytes \<Rightarrow> nat \<Rightarrow> byte \<Rightarrow> nat option" where
  "strchrn str 0 ch = None"
| "strchrn [] (Suc slen) ch = None"
| "strchrn (c # str) (Suc slen) ch = (if c = ch then Some 0 else map_option Suc (strchrn str slen ch))"

section \<open>Copying\<close>

text \<open>\<^verbatim>\<open>srclen = SIZE_UNKNOWN\<close> is \<open>None\<close>.  \<^verbatim>\<open>strlenn\<close> reads the byte at \<open>buflen\<close> before it compares the position.\<close>

function strlenn_loop :: "bytes \<Rightarrow> nat \<Rightarrow> nat \<Rightarrow> nat option" where
  "strlenn_loop buffer buflen bufpos =
     (if bufpos \<ge> length buffer then None
      else if buffer ! bufpos \<noteq> 0 \<and> bufpos < buflen then strlenn_loop buffer buflen (Suc bufpos)
      else Some bufpos)"
  by pat_completeness auto
termination
  by (relation "measure (\<lambda>(buffer, buflen, bufpos). length buffer - bufpos)") auto

declare strlenn_loop.simps [simp del]

definition strlenn :: "bytes \<Rightarrow> nat \<Rightarrow> nat option" where
  "strlenn buffer buflen = strlenn_loop buffer buflen 0"

text \<open>\<open>strcpyn buffer at buflen source srclen\<close> copies to \<^verbatim>\<open>buffer + at\<close> and returns the bytes of the whole block.\<close>

definition strcpyn :: "bytes \<Rightarrow> nat \<Rightarrow> nat \<Rightarrow> bytes \<Rightarrow> nat option \<Rightarrow> (nat \<times> bytes) option" where
  "strcpyn buffer at buflen source srclen =
     (if buflen = 0 then Some (0, buffer)
      else case (case srclen of None \<Rightarrow> strlenn source (buflen - 1)
                 | Some n \<Rightarrow> Some (if n \<ge> buflen then buflen - 1 else n)) of
        None \<Rightarrow> None
      | Some n \<Rightarrow> if n > length source \<or> at + n + 1 > length buffer then None
                  else Some (n, write_at at (take n source @ [0]) buffer))"

definition strcatn :: "bytes \<Rightarrow> nat \<Rightarrow> bytes \<Rightarrow> nat option \<Rightarrow> (nat \<times> bytes) option" where
  "strcatn buffer buflen source srclen =
     (if buflen = 0 then Some (0, buffer)
      else case strlenn buffer (buflen - 1) of None \<Rightarrow> None
      | Some bufpos \<Rightarrow> (case strcpyn buffer bufpos (buflen - bufpos) source srclen of None \<Rightarrow> None
          | Some (n, buffer1) \<Rightarrow> Some (bufpos + n, buffer1)))"

text \<open>
  \<^verbatim>\<open>vsnprintf\<close> of a format whose expansion is \<open>text\<close>: it stores what fits with a NUL and returns the length of the whole
  expansion.  \<^verbatim>\<open>_vsnprintf\<close> of Windows stores no NUL when the text fills the buffer, and returns a negative number when it
  does not fit.
\<close>

definition vsnprintf_posix :: "bytes \<Rightarrow> nat \<Rightarrow> nat \<Rightarrow> bytes \<Rightarrow> int \<times> bytes" where
  "vsnprintf_posix buffer at n txt =
     (int (length txt), if n = 0 then buffer else write_at at (take (n - 1) txt @ [0]) buffer)"

definition vsnprintf_windows :: "bytes \<Rightarrow> nat \<Rightarrow> nat \<Rightarrow> bytes \<Rightarrow> int \<times> bytes" where
  "vsnprintf_windows buffer at n txt =
     (if length txt < n then (int (length txt), write_at at (txt @ [0]) buffer)
      else (if length txt = n then int n else - 1, write_at at (take n txt) buffer))"

text \<open>With \<open>buflen = 0\<close> the routine stores the NUL in front of the buffer.\<close>

definition vsprintfn :: "(bytes \<Rightarrow> nat \<Rightarrow> nat \<Rightarrow> bytes \<Rightarrow> int \<times> bytes) \<Rightarrow> bytes \<Rightarrow> nat \<Rightarrow> nat \<Rightarrow> bytes \<Rightarrow> (nat \<times> bytes) option" where
  "vsprintfn vsnprintf buffer at buflen txt =
     (case vsnprintf buffer at buflen txt of (len, buffer1) \<Rightarrow>
        if len < 0 \<or> nat len \<ge> buflen then
          if buflen = 0 then None else Some (buflen - 1, buffer1[at + buflen - 1 := 0])
        else Some (nat len, buffer1))"

section \<open>Wildcards\<close>

text \<open>What the patterns mean: an asterisk stands for any characters, every other character for itself in both cases.\<close>

fun glob :: "bytes \<Rightarrow> bytes \<Rightarrow> bool" where
  "glob [] target \<longleftrightarrow> target = []"
| "glob (p # pattern) target \<longleftrightarrow>
     (if p = 42 then \<exists>k \<le> length target. glob pattern (drop k target)
      else target \<noteq> [] \<and> toupper p = toupper (hd target) \<and> glob pattern (tl target))"

fun no_double_star :: "bytes \<Rightarrow> bool" where
  "no_double_star (p # q # ps) \<longleftrightarrow> \<not> (p = 42 \<and> q = 42) \<and> no_double_star (q # ps)"
| "no_double_star ps \<longleftrightarrow> True"

lemma no_double_star_tl: "no_double_star (p # ps) \<Longrightarrow> no_double_star ps"
  by (cases ps) simp_all

lemma glob_drop_literal:
  assumes "q \<noteq> 42"
  shows "(\<exists>k \<le> length (t # target). glob (q # pattern) (drop k (t # target))) \<longleftrightarrow>
    toupper q = toupper t \<and> glob pattern target \<or> (\<exists>k \<le> length target. glob (q # pattern) (drop k target))"
    (is "?lhs \<longleftrightarrow> ?first \<or> ?later")
proof
  assume ?lhs
  then obtain k where k: "k \<le> Suc (length target)" "glob (q # pattern) (drop k (t # target))" by auto
  then show "?first \<or> ?later"
  proof (cases k)
    case 0
    then show ?thesis using k(2) assms by simp
  next
    case (Suc j)
    then have "j \<le> length target" "glob (q # pattern) (drop j target)" using k by simp_all
    then show ?thesis by blast
  qed
next
  assume "?first \<or> ?later"
  then show ?lhs
  proof
    assume ?first
    then have "glob (q # pattern) (drop 0 (t # target))" using assms by simp
    then show ?lhs by blast
  next
    assume ?later
    then obtain k where "k \<le> length target" "glob (q # pattern) (drop k target)" by blast
    then show ?lhs by (intro exI [of _ "Suc k"]) simp
  qed
qed

lemma string_match_glob:
  "no_double_star pattern \<Longrightarrow> string_match target pattern \<longleftrightarrow> glob pattern target"
  "no_double_star (q # pattern1) \<Longrightarrow> q \<noteq> 42 \<Longrightarrow>
    string_match_star target q pattern1 \<longleftrightarrow> (\<exists>k \<le> length target. glob (q # pattern1) (drop k target))"
proof (induction target pattern and target q pattern1 rule: string_match_string_match_star.induct)
  case (2 target p pattern)
  show ?case
  proof (cases "p = 42")
    case True
    then show ?thesis using 2 by (cases pattern) auto
  next
    case False
    then show ?thesis using 2 no_double_star_tl [OF 2(3)] by (cases target) auto
  qed
next
  case (4 t target1 q pattern1)
  then show ?case using no_double_star_tl [OF 4(3)] unfolding glob_drop_literal [OF 4(4)] by auto
qed auto

text \<open>
  For a pattern without two asterisks in a row \<^verbatim>\<open>string_match\<close> accepts exactly the strings that the pattern
  describes, where an asterisk stands for any characters, also none, and letters match in both cases; its search
  with backtracking loses no match.  Two asterisks in a row are not a wildcard: the second one has to be in the string.
\<close>

theorem string_match_is_glob:
  assumes "no_double_star pattern"
  shows "(string_match target pattern \<longleftrightarrow> glob pattern target) \<and>
    (string_match target [42, 42] \<longleftrightarrow> target \<noteq> [] \<and> last target = 42)"
proof -
  have "string_match_star t 42 [] \<longleftrightarrow> t \<noteq> [] \<and> last t = 42" for t
  proof (induction t)
    case (Cons a t)
    have "toupper 42 = toupper a \<longleftrightarrow> a = 42"
      unfolding toupper_def by (auto simp: word_le_nat_alt unat_sub word_unat_eq_iff split: if_splits)
    then show ?case using Cons by auto
  qed simp
  then show ?thesis using string_match_glob(1) [OF assms] by simp
qed

theorem string_match_is_glob_witness:
  "string_match [119, 46, 65, 46, 99, 46, 67] [119, 46, 42, 46, 99] \<longleftrightarrow> glob [119, 46, 42, 46, 99] [119, 46, 65, 46, 99, 46, 67]"
proof -
  have "no_double_star [119, 46, 42, 46, 99]" by simp
  from string_match_is_glob [OF this] show ?thesis by blast
qed

section \<open>Replacing and trimming\<close>

text \<open>The occurrences from left to right, each replaced once.\<close>

function replaced :: "bytes \<Rightarrow> bytes \<Rightarrow> bytes \<Rightarrow> bytes" where
  "replaced search rep s =
     (if search = [] \<or> s = [] then s
      else if take (length search) s = search then rep @ replaced search rep (drop (length search) s)
      else hd s # replaced search rep (tl s))"
  by pat_completeness auto
termination
  by (relation "measure (\<lambda>(search, rep, s). length s)") auto

declare replaced.simps [simp del]

lemma find_map_index: "find P (map f xs) = map_option f (find (\<lambda>x. P (f x)) xs)"
  by (induction xs) auto

lemma find_at_or_after_shift:
  "find_at_or_after search (length pre + k) (pre @ s) = map_option ((+) (length pre)) (find_at_or_after search k s)"
proof -
  have "[length pre + k..<Suc (length (pre @ s)) - length search] = map ((+) (length pre)) [k..<Suc (length s) - length search]"
  proof (cases "length search \<le> Suc (length s)")
    case True
    then have "Suc (length (pre @ s)) - length search = (Suc (length s) - length search) + length pre" by simp
    moreover have "map ((+) (length pre)) [k..<m] = [length pre + k..<m + length pre]" for m
      by (induction m) (auto simp: add.commute)
    ultimately show ?thesis by simp
  next
    case False
    then show ?thesis by simp
  qed
  then show ?thesis by (simp add: find_at_or_after_def find_map_index)
qed

lemma find_at_or_after_Cons:
  assumes "search \<noteq> []"
  shows "find_at_or_after search 0 (c # s) =
    (if take (length search) (c # s) = search then Some 0 else map_option Suc (find_at_or_after search 0 s))"
proof (cases "length search \<le> Suc (length s)")
  case True
  then have u: "[0..<Suc (length (c # s)) - length search] = 0 # [1..<Suc (length (c # s)) - length search]"
    by (subst upt_conv_Cons) auto
  have "find_at_or_after search 1 (c # s) = map_option Suc (find_at_or_after search 0 s)"
    using find_at_or_after_shift [of search "[c]" 0 s] by (cases "find_at_or_after search 0 s") simp_all
  then show ?thesis unfolding find_at_or_after_def u by simp
next
  case False
  then have "take (length search) (c # s) \<noteq> search" by (auto dest: arg_cong [where f = length])
  then show ?thesis using False by (simp add: find_at_or_after_def)
qed

lemma find_at_or_after_Nil: "search \<noteq> [] \<Longrightarrow> find_at_or_after search 0 [] = None"
  by (cases search) (simp_all add: find_at_or_after_def)

lemma replaced_find:
  assumes "search \<noteq> []"
  shows "replaced search rep s = (case find_at_or_after search 0 s of None \<Rightarrow> s
    | Some p \<Rightarrow> take p s @ rep @ replaced search rep (drop (p + length search) s))"
proof (induction s)
  case Nil
  show ?case using assms by (simp add: find_at_or_after_Nil replaced.simps [of _ _ "[]"])
next
  case (Cons c s)
  show ?case
  proof (cases "take (length search) (c # s) = search")
    case True
    then show ?thesis using assms by (simp add: find_at_or_after_Cons replaced.simps [of _ _ "c # s"])
  next
    case False
    then have "replaced search rep (c # s) = c # replaced search rep s"
      using assms by (simp add: replaced.simps [of _ _ "c # s"])
    then show ?thesis using False assms Cons by (simp add: find_at_or_after_Cons split: option.splits)
  qed
qed

lemma find_at_or_after_bound:
  assumes "find_at_or_after search pos s = Some p"
  shows "pos \<le> p" and "p + length search \<le> length s"
  using assms by (auto simp: find_at_or_after_def find_Some_iff)

lemma replace_loop_replaced:
  assumes "search \<noteq> []"
  shows "length s < fuel \<Longrightarrow> replace_loop fuel search rep (length pre) (pre @ s) = Some (pre @ replaced search rep s)"
proof (induction fuel arbitrary: pre s)
  case (Suc fuel)
  show ?case
  proof (cases "find_at_or_after search 0 s")
    case None
    then show ?thesis using find_at_or_after_shift [of search pre 0 s] by (simp add: replaced_find [OF assms, of rep s])
  next
    case (Some p)
    note b = find_at_or_after_bound [OF Some]
    let ?pre = "pre @ take p s @ rep" and ?s = "drop (p + length search) s"
    have "length ?s < fuel" using b Suc.prems assms by (cases search) auto
    from Suc.IH [OF this, of ?pre] show ?thesis
      using Some find_at_or_after_shift [of search pre 0 s] b by (simp add: replaced_find [OF assms, of rep s] add.assoc)
  qed
qed simp

lemma replace_loop_empty_search: "pos \<le> length s \<Longrightarrow> replace_loop fuel [] rep pos s = None"
proof (induction fuel arbitrary: pos s)
  case (Suc fuel)
  have "find_at_or_after [] pos s = Some pos" using Suc.prems by (simp add: find_at_or_after_def upt_conv_Cons del: upt_Suc)
  then show ?case using Suc by simp
qed simp

text \<open>
  \<^verbatim>\<open>replace_substrs\<close> ends for every string to search that is not empty, after at most one round more than the
  string has characters, and gives the string in which the occurrences from left to right are replaced; what was
  inserted is not searched again.  With an empty string to search the loop never ends.
\<close>

theorem replace_substrs_terminates:
  assumes "search \<noteq> []" and "length s < fuel"
  shows "replace_substrs fuel search rep s = Some (replaced search rep s) \<and> replace_substrs n [] rep s = None"
  using replace_loop_replaced [OF assms(1), of s fuel rep "[]"] assms(2) replace_loop_empty_search [of 0 s n rep]
  by (simp add: replace_substrs_def)

theorem replace_substrs_terminates_witness:
  "replace_substrs 5 [1, 1] [1, 1, 1] [1, 1, 1, 2] = Some [1, 1, 1, 1, 2] \<and> replace_substrs 100 [] [7] [1, 1, 1, 2] = None"
proof -
  have "replaced [1, 1] [1, 1, 1] [1, 1, 1, 2] = [1, 1, 1, 1, 2]" by (simp add: replaced.simps)
  then show ?thesis
    using replace_substrs_terminates [of "[1, 1]" "[1, 1, 1, 2]" 5 "[1, 1, 1]" 0]
      replace_substrs_terminates [of "[1, 1]" "[1, 1, 1, 2]" 5 "[7]" 100] by simp
qed

lemma strncmp_eq_take: "strncmp_eq s1 s2 n \<longleftrightarrow> take n s1 = take n s2"
  by (induction s1 s2 n rule: strncmp_eq.induct) auto

theorem starts_with_prefix: "starts_with s1 s2 \<longleftrightarrow> prefix s2 s1"
  by (auto simp: starts_with_def strncmp_eq_take prefix_def) (metis append_take_drop_id)

theorem ends_with_suffix: "ends_with s1 s2 \<longleftrightarrow> suffix s2 s1"
proof
  assume "ends_with s1 s2"
  then have "drop (length s1 - length s2) s1 = s2" by (auto simp: ends_with_def strncmp_eq_take split: if_splits)
  then show "suffix s2 s1" by (metis suffix_drop)
next
  assume "suffix s2 s1"
  then obtain zs where "s1 = zs @ s2" by (auto simp: suffix_def)
  then show "ends_with s1 s2" by (simp add: ends_with_def strncmp_eq_take)
qed

lemma find_first_not_of_takeWhile:
  "find_first_not_of s cs = (if set s \<subseteq> set cs then None else Some (length (takeWhile (\<lambda>c. c \<in> set cs) s)))"
proof (induction s)
  case (Cons a s)
  have "[0..<length (a # s)] = 0 # map Suc [0..<length s]" by (simp add: map_Suc_upt upt_conv_Cons del: upt_Suc)
  then have "find_first_not_of (a # s) cs = (if a \<notin> set cs then Some 0 else map_option Suc (find_first_not_of s cs))"
    by (simp add: find_first_not_of_def find_map_index del: upt_Suc)
  then show ?case using Cons by auto
qed (simp add: find_first_not_of_def)

lemma find_last_not_of_rev:
  "find_last_not_of s cs = map_option (\<lambda>i. length s - 1 - i) (find_first_not_of (rev s) cs)"
proof -
  have "rev [0..<length s] = map (\<lambda>i. length s - 1 - i) [0..<length s]"
    by (rule nth_equalityI) (simp_all add: rev_nth)
  moreover have "find (\<lambda>i. s ! (length s - 1 - i) \<notin> set cs) [0..<length s] = find (\<lambda>i. rev s ! i \<notin> set cs) [0..<length s]"
    by (rule find_cong) (auto simp: rev_nth)
  ultimately show ?thesis by (simp add: find_last_not_of_def find_first_not_of_def find_map_index)
qed

theorem string_trim_both_ends:
  "string_trim s = rev (dropWhile (\<lambda>c. c \<in> set kWhitespace) (rev (dropWhile (\<lambda>c. c \<in> set kWhitespace) s)))"
proof (cases "set s \<subseteq> set kWhitespace")
  case True
  then have "dropWhile (\<lambda>c. c \<in> set kWhitespace) s = []" by auto
  moreover have "string_trim s = []" using True by (simp add: string_trim_def find_first_not_of_takeWhile)
  ultimately show ?thesis by (simp only: rev.simps dropWhile.simps)
next
  case False
  let ?w = "\<lambda>c. c \<in> set kWhitespace"
  obtain mid where mid: "dropWhile ?w s = mid" "mid \<noteq> []" "\<not> ?w (hd mid)"
    using False by (metis (no_types, lifting) dropWhile_eq_Nil_conv hd_dropWhile subsetI)
  define pre where "pre = takeWhile ?w s"
  define post where "post = takeWhile ?w (rev mid)"
  have s: "s = pre @ mid" unfolding pre_def mid(1) [symmetric] by simp
  have "takeWhile ?w (rev s) = post"
    unfolding s rev_append post_def using mid(2,3) by (intro takeWhile_append1 [of "hd mid"]) auto
  moreover have "rev (dropWhile ?w (rev mid)) = take (length mid - length post) mid"
    unfolding post_def by (simp add: dropWhile_eq_drop rev_drop)
  moreover have "length post < length mid"
    unfolding post_def using mid(2,3) by (metis hd_in_set length_rev length_takeWhile_le nat_less_le
        set_rev takeWhile_eq_all_conv takeWhile_eq_take take_all_iff order_refl)
  moreover have "take (Suc (length s - 1 - length post - length pre)) mid = take (length mid - length post) mid"
    using \<open>length post < length mid\<close> unfolding s by (auto intro: arg_cong [where f = "\<lambda>n. take n mid"])
  ultimately show ?thesis
    using False unfolding mid(1)
    by (simp add: string_trim_def find_first_not_of_takeWhile find_last_not_of_rev flip: pre_def) (simp add: s)
qed

section \<open>The NUL of a buffer\<close>

text \<open>The C string that starts at \<open>at\<close>: the bytes before the first NUL.\<close>

definition cstring :: "nat \<Rightarrow> bytes \<Rightarrow> bytes" where
  "cstring at buffer = takeWhile (\<lambda>b. b \<noteq> 0) (drop at buffer)"

lemma strlenn_loop_counts:
  assumes "bufpos < length buffer" and "bufpos \<le> buflen" and "buflen < length buffer \<or> 0 \<in> set (drop bufpos buffer)"
  shows "strlenn_loop buffer buflen bufpos = Some (bufpos + min (buflen - bufpos) (length (cstring bufpos buffer)))"
  using assms
proof (induction buffer buflen bufpos rule: strlenn_loop.induct)
  case (1 buffer buflen bufpos)
  have d: "drop bufpos buffer = buffer ! bufpos # drop (Suc bufpos) buffer"
    using "1.prems"(1) by (rule Cons_nth_drop_Suc [symmetric])
  show ?case
  proof (cases "buffer ! bufpos \<noteq> 0 \<and> bufpos < buflen")
    case True
    then have "Suc bufpos < length buffer"
      using "1.prems" d by (cases "Suc bufpos < length buffer") auto
    moreover have "Suc (min (buflen - Suc bufpos) n) = min (buflen - bufpos) (Suc n)" for n
      using True by linarith
    ultimately show ?thesis using 1 True d by (simp add: strlenn_loop.simps [of buffer buflen bufpos] cstring_def)
  next
    case False
    then show ?thesis using "1.prems"(1,2) d by (auto simp: strlenn_loop.simps [of buffer buflen bufpos] cstring_def)
  qed
qed

lemma strlenn_counts:
  assumes "buflen < length buffer \<or> 0 \<in> set buffer"
  shows "strlenn buffer buflen = Some (min buflen (length (cstring 0 buffer)))"
proof -
  have "0 < length buffer" using assms by (cases buffer) auto
  then show ?thesis using strlenn_loop_counts [of 0 buffer buflen] assms by (simp add: strlenn_def)
qed

lemma cstring_write:
  assumes "at \<le> length buffer" and "0 \<notin> set txt"
  shows "cstring at (write_at at (txt @ [0]) buffer) = txt"
  using assms by (auto simp: cstring_def write_at_def takeWhile_tail)

lemma cstring_split: "0 \<notin> set (take k b) \<Longrightarrow> cstring 0 b = take k b @ cstring k b"
  unfolding cstring_def drop_0
  by (induction k arbitrary: b) (simp, case_tac b, auto)

lemma take_of_cstring:
  assumes "n \<le> length (cstring 0 source)"
  shows "n \<le> length source" and "take n source = take n (cstring 0 source)" and "0 \<notin> set (take n source)"
proof -
  have p: "source = cstring 0 source @ dropWhile (\<lambda>b. b \<noteq> 0) source" by (simp add: cstring_def)
  then have "length source = length (cstring 0 source) + length (dropWhile (\<lambda>b. b \<noteq> 0) source)" by (metis length_append)
  then show "n \<le> length source" using assms by simp
  show t: "take n source = take n (cstring 0 source)" by (subst p) (use assms in simp)
  have "0 \<notin> set (cstring 0 source)" by (auto simp: cstring_def dest: set_takeWhileD)
  then show "0 \<notin> set (take n source)" unfolding t by (auto dest: in_set_takeD)
qed

lemma strcpyn_copies:
  assumes "0 < buflen" and "at + buflen \<le> length buffer" and "0 \<in> set source"
  shows "\<exists>buffer1. strcpyn buffer at buflen source None = Some (length (take (buflen - 1) (cstring 0 source)), buffer1) \<and>
    buffer1 = write_at at (take (buflen - 1) (cstring 0 source) @ [0]) buffer \<and> length buffer1 = length buffer \<and>
    cstring at buffer1 = take (buflen - 1) (cstring 0 source)"
proof -
  let ?n = "min (buflen - 1) (length (cstring 0 source))"
  have "?n \<le> length (cstring 0 source)" by simp
  note t = take_of_cstring [OF this]
  have n: "take ?n (cstring 0 source) = take (buflen - 1) (cstring 0 source)"
    by (simp add: min_def)
  have "\<not> (?n > length source \<or> at + ?n + 1 > length buffer)" using t(1) assms(1,2) by linarith
  then have "strcpyn buffer at buflen source None = Some (?n, write_at at (take ?n source @ [0]) buffer)"
    using assms strlenn_counts [of "buflen - 1" source] by (simp add: strcpyn_def)
  moreover have "cstring at (write_at at (take ?n source @ [0]) buffer) = take ?n source"
    using assms(2) t(3) by (intro cstring_write) simp_all
  ultimately show ?thesis using assms t(2) n by simp
qed

lemma strcpyn_counted:
  assumes "0 < buflen" and "at + buflen \<le> length buffer" and "k \<le> length source"
  shows "strcpyn buffer at buflen source (Some k) =
      Some (min k (buflen - 1), write_at at (take (min k (buflen - 1)) source @ [0]) buffer) \<and>
    length (write_at at (take (min k (buflen - 1)) source @ [0]) buffer) = length buffer"
  using assms by (auto simp: strcpyn_def min_def)

lemma strcatn_counted:
  assumes "0 < buflen" and "buflen \<le> length buffer" and "k \<le> length source" and "p = min (buflen - 1) (length (cstring 0 buffer))"
  shows "strcatn buffer buflen source (Some k) =
      Some (p + min k (buflen - p - 1), write_at p (take (min k (buflen - p - 1)) source @ [0]) buffer) \<and>
    length (write_at p (take (min k (buflen - p - 1)) source @ [0]) buffer) = length buffer"
proof -
  have len: "strlenn buffer (buflen - 1) = Some p" unfolding assms(4) using assms(1,2) by (intro strlenn_counts disjI1) linarith
  have "0 < buflen - p" "p + (buflen - p) \<le> length buffer" using assms(1,2,4) by auto
  from strcpyn_counted [OF this assms(3)] show ?thesis using assms(1) by (simp add: strcatn_def len [simplified])
qed

text \<open>
  C39 (bounds).  \<^verbatim>\<open>strcpyn\<close>, \<^verbatim>\<open>strcatn\<close> and \<^verbatim>\<open>sprintfn\<close> stay inside a buffer of at least one byte and always leave a C string in it:
  the longest prefix of the source, of what was there followed by the source, or of the formatted text that
  fits with its NUL, and they return its length; for \<^verbatim>\<open>sprintfn\<close> this holds with the \<^verbatim>\<open>vsnprintf\<close> of both systems.  Given the length
  \<open>k\<close> of the source, \<^verbatim>\<open>strcpyn\<close> and \<^verbatim>\<open>strcatn\<close> copy its first \<open>k\<close> bytes, whatever they are, as far as they fit with a NUL behind them.
\<close>

theorem safe_copies:
  assumes "0 < buflen" and "buflen \<le> length buffer" and "0 \<in> set source" and "0 \<notin> set txt"
  shows "(\<forall>k \<le> length source. \<exists>b. strcpyn buffer 0 buflen source (Some k) = Some (min k (buflen - 1), b) \<and>
        b = write_at 0 (take (min k (buflen - 1)) source @ [0]) buffer \<and> length b = length buffer) \<and>
    (\<forall>k \<le> length source. \<exists>b p. p = min (buflen - 1) (length (cstring 0 buffer)) \<and>
        strcatn buffer buflen source (Some k) = Some (p + min k (buflen - p - 1), b) \<and>
        b = write_at p (take (min k (buflen - p - 1)) source @ [0]) buffer \<and> length b = length buffer) \<and>
    (\<exists>b. strcpyn buffer 0 buflen source None = Some (length (cstring 0 b), b) \<and> length b = length buffer \<and>
        cstring 0 b = take (buflen - 1) (cstring 0 source)) \<and>
    (\<exists>b. strcatn buffer buflen source None = Some (length (cstring 0 b), b) \<and> length b = length buffer \<and>
        cstring 0 b = take (buflen - 1) (cstring 0 buffer @ cstring 0 source)) \<and>
    (\<forall>sn \<in> {vsnprintf_posix, vsnprintf_windows}.
      \<exists>b. vsprintfn sn buffer 0 buflen txt = Some (length (cstring 0 b), b) \<and> length b = length buffer \<and>
        cstring 0 b = take (buflen - 1) txt)"
proof (intro conjI)
  show "\<forall>k \<le> length source. \<exists>b. strcpyn buffer 0 buflen source (Some k) = Some (min k (buflen - 1), b) \<and>
        b = write_at 0 (take (min k (buflen - 1)) source @ [0]) buffer \<and> length b = length buffer"
    using strcpyn_counted [OF assms(1), of 0 buffer] assms(2) by auto
  show "\<forall>k \<le> length source. \<exists>b p. p = min (buflen - 1) (length (cstring 0 buffer)) \<and>
        strcatn buffer buflen source (Some k) = Some (p + min k (buflen - p - 1), b) \<and>
        b = write_at p (take (min k (buflen - p - 1)) source @ [0]) buffer \<and> length b = length buffer"
    using strcatn_counted [OF assms(1,2) _ refl] by blast
  show "\<exists>b. strcpyn buffer 0 buflen source None = Some (length (cstring 0 b), b) \<and> length b = length buffer \<and>
        cstring 0 b = take (buflen - 1) (cstring 0 source)"
    using strcpyn_copies [of buflen 0 buffer source] assms by auto
next
  let ?k = "min (buflen - 1) (length (cstring 0 buffer))"
  have k: "?k \<le> length (cstring 0 buffer)" "?k < buflen" using assms(1) by (auto simp: min_def)
  note t = take_of_cstring [OF k(1)]
  have len: "strlenn buffer (buflen - 1) = Some ?k" using assms(1,2) by (intro strlenn_counts disjI1) linarith
  obtain b where b: "strcpyn buffer ?k (buflen - ?k) source None = Some (length (take (buflen - ?k - 1) (cstring 0 source)), b)"
    "b = write_at ?k (take (buflen - ?k - 1) (cstring 0 source) @ [0]) buffer" "length b = length buffer"
    "cstring ?k b = take (buflen - ?k - 1) (cstring 0 source)"
    using strcpyn_copies [of "buflen - ?k" ?k buffer source] assms k by auto
  have "take ?k b = take ?k buffer" using t(1) unfolding b(2) by (simp add: write_at_def)
  then have "cstring 0 b = take ?k buffer @ cstring ?k b"
    using cstring_split [of ?k b] t(3) by simp
  also have "\<dots> = take (buflen - 1) (cstring 0 buffer @ cstring 0 source)"
    unfolding t(2) b(4) by (auto simp: min_def)
  finally have c: "cstring 0 b = take (buflen - 1) (cstring 0 buffer @ cstring 0 source)" .
  have "length (cstring 0 b) = ?k + length (take (buflen - ?k - 1) (cstring 0 source))"
    unfolding c by (auto simp: min_def)
  moreover have "strcatn buffer buflen source None = Some (?k + length (take (buflen - ?k - 1) (cstring 0 source)), b)"
    using assms(1) unfolding strcatn_def len by (simp only: b(1) option.case prod.case) simp
  ultimately show "\<exists>b. strcatn buffer buflen source None = Some (length (cstring 0 b), b) \<and> length b = length buffer \<and>
        cstring 0 b = take (buflen - 1) (cstring 0 buffer @ cstring 0 source)"
    using b(3) c by (intro exI [of _ b] conjI) (simp_all only:)
next
  have c: "cstring 0 (t @ 0 # rest) = t" if "0 \<notin> set t" for t rest
    using that by (auto simp: cstring_def takeWhile_tail)
  have z: "0 \<notin> set (take n txt)" for n using assms(4) by (auto dest: in_set_takeD)
  have posix: "vsprintfn vsnprintf_posix buffer 0 buflen txt =
      Some (length (take (buflen - 1) txt), take (buflen - 1) txt @ 0 # drop (Suc (length (take (buflen - 1) txt))) buffer)"
    using assms(1,2) by (auto simp: vsprintfn_def vsnprintf_posix_def write_at_def min_def list_update_append)
  have windows: "\<exists>rest. vsprintfn vsnprintf_windows buffer 0 buflen txt =
      Some (length (take (buflen - 1) txt), take (buflen - 1) txt @ 0 # rest) \<and> Suc (length (take (buflen - 1) txt) + length rest) = length buffer"
  proof (cases "length txt < buflen")
    case True
    then show ?thesis using assms(2) by (simp add: vsprintfn_def vsnprintf_windows_def write_at_def)
  next
    case False
    then have "(take buflen txt @ drop buflen buffer)[buflen - 1 := 0] = take (buflen - 1) txt @ 0 # drop buflen buffer"
      using assms(1)
      by (intro nth_equalityI) (auto simp: nth_list_update nth_append nth_Cons split: nat.splits intro!: arg_cong [where f = "(!) buffer"])
    moreover have "vsprintfn vsnprintf_windows buffer 0 buflen txt =
        Some (length (take (buflen - 1) txt), (take buflen txt @ drop buflen buffer)[buflen - 1 := 0])"
      using False assms(1) by (auto simp: vsprintfn_def vsnprintf_windows_def write_at_def)
    ultimately show ?thesis using False assms(1,2) by (intro exI [of _ "drop buflen buffer"]) auto
  qed
  show "\<forall>sn \<in> {vsnprintf_posix, vsnprintf_windows}.
      \<exists>b. vsprintfn sn buffer 0 buflen txt = Some (length (cstring 0 b), b) \<and> length b = length buffer \<and> cstring 0 b = take (buflen - 1) txt"
    using posix windows assms(1,2,4) z by (auto simp: c min_def)
qed

theorem safe_copies_witness:
  "\<exists>b. strcatn [65, 0, 9, 9] 4 [66, 67, 68, 0] None = Some (length (cstring 0 b), b) \<and> length b = 4 \<and> cstring 0 b = [65, 66, 67]"
proof -
  have c: "cstring 0 [65, 0, 9, 9] = [65]" "cstring 0 [66, 67, 68, 0] = [66, 67, 68]" by (simp_all add: cstring_def)
  show ?thesis using safe_copies [of 4 "[65, 0, 9, 9]" "[66, 67, 68, 0]" "[]"] unfolding c by (simp add: eval_nat_numeral)
qed

end
