(* ===== verification/Vz_Win32inet.thy ===== *)
theory Vz_Win32inet
  imports Vz_Ipaddress Vz_Stringutils Vz_Stringencode
begin

unbundle bit_operations_syntax

text \<open>
  The text forms of IP addresses in \<^verbatim>\<open>src/src/base/win32.cpp\<close>, which \<^verbatim>\<open>nethelpers.cpp\<close> uses on Windows in the place of the
  \<^verbatim>\<open>inet_ntop\<close> and \<^verbatim>\<open>inet_pton\<close> of the system, and the conversions between file times and UNIX times.  The texts are C
  strings, lists of the characters before the NUL.  What is printed goes to a block of memory with a
  cursor, so that a missing NUL or an overrun shows.  The parser of IPv6 addresses writes through a pointer
  that it computes from the number of colons; a write outside of the address is the result \<open>Corrupted\<close>.
\<close>

section \<open>The C library\<close>

definition INET_ADDRSTRLEN :: nat where "INET_ADDRSTRLEN = 22"
definition INET6_ADDRSTRLEN :: nat where "INET6_ADDRSTRLEN = 65"

text \<open>\<^verbatim>\<open>%x\<close>, \<^verbatim>\<open>isdigit\<close>, and \<^verbatim>\<open>strtol\<close> with base 10 on a text that starts with a digit (a \<^verbatim>\<open>long\<close> of Windows has 32 bits).\<close>

fun hexadecimal :: "nat \<Rightarrow> bytes" where
  "hexadecimal n = (if n < 16 then [HEX ! n] else hexadecimal (n div 16) @ [HEX ! (n mod 16)])"

declare hexadecimal.simps [simp del]

definition isdigit_c :: "byte \<Rightarrow> bool" where
  "isdigit_c c \<longleftrightarrow> 48 \<le> c \<and> c \<le> 57"

definition number_value :: "int \<Rightarrow> (byte \<Rightarrow> int) \<Rightarrow> bytes \<Rightarrow> int" where
  "number_value base val = foldl (\<lambda>v c. v * base + val c) 0"

definition strtol10 :: "bytes \<Rightarrow> int \<times> bytes" where
  "strtol10 s = (min (2 ^ 31 - 1) (number_value 10 (\<lambda>c. uint c - 48) (takeWhile isdigit_c s)), dropWhile isdigit_c s)"

text \<open>
  \<^verbatim>\<open>sscanf(s, "%hx%n", ...)\<close>: white space, a sign, \<^verbatim>\<open>0x\<close> and the hexadecimal digits are read; the number is stored in 16 bits.
  The result is the number and how many characters were read, or \<open>None\<close> when no number was found.
\<close>

definition isxdigit :: "byte \<Rightarrow> bool" where
  "isxdigit c \<longleftrightarrow> isdigit_c c \<or> (65 \<le> c \<and> c \<le> 70) \<or> (97 \<le> c \<and> c \<le> 102)"

definition xdigit_value :: "byte \<Rightarrow> int" where
  "xdigit_value c = (if isdigit_c c then uint c - 48 else if c \<le> 70 then uint c - 55 else uint c - 87)"

definition isspace_c :: "byte \<Rightarrow> bool" where
  "isspace_c c \<longleftrightarrow> c = 32 \<or> (9 \<le> c \<and> c \<le> 13)"

definition scan_hx :: "bytes \<Rightarrow> (uint16 \<times> nat) option" where
  "scan_hx s =
     (let s1 = dropWhile isspace_c s;
          neg = (s1 \<noteq> [] \<and> hd s1 = 45);
          s2 = (if s1 \<noteq> [] \<and> (hd s1 = 45 \<or> hd s1 = 43) then tl s1 else s1);
          s3 = (if take 2 s2 = [48, 120] \<or> take 2 s2 = [48, 88] then drop 2 s2 else s2);
          ds = takeWhile isxdigit s3;
          v = word_of_int (number_value 16 xdigit_value ds)
      in if ds = [] then None
         else Some (if neg then - v else v, length s - length s3 + length ds))"

section \<open>Printing\<close>

datatype ntop_result = Null | Stored bytes | Overrun

definition store :: "bytes \<times> nat \<Rightarrow> byte \<Rightarrow> (bytes \<times> nat) option" where
  "store bc c = (case bc of (buf, cursor) \<Rightarrow>
     if cursor < length buf then Some (buf[cursor := c], cursor + 1) else None)"

definition store_text :: "bytes \<times> nat \<Rightarrow> nat \<Rightarrow> bytes \<Rightarrow> (bytes \<times> nat) option" where
  "store_text bc room txt = (case bc of (buf, cursor) \<Rightarrow>
     if cursor + room > length buf then None
     else map_option (\<lambda>(len, buf1). (buf1, cursor + len)) (vsprintfn vsnprintf_windows buf cursor room txt))"

definition dotted :: "bytes \<Rightarrow> bytes" where
  "dotted src = decimal (unat (src ! 0)) @ [46] @ decimal (unat (src ! 1)) @ [46] @
     decimal (unat (src ! 2)) @ [46] @ decimal (unat (src ! 3))"

definition inet_ntop_v4 :: "bytes \<Rightarrow> bytes \<times> nat \<Rightarrow> nat \<Rightarrow> ntop_result" where
  "inet_ntop_v4 src bc room =
     (if room < INET_ADDRSTRLEN then Null
      else case store_text bc room (dotted src) of None \<Rightarrow> Overrun | Some (buf, _) \<Rightarrow> Stored buf)"

text \<open>The first loop: \<open>runpos\<close> numbers the zeros of every run from 1 on, \<open>max\<close> and \<open>maxpos\<close> describe the first longest run.\<close>

fun mark_runs :: "'a::zero list \<Rightarrow> int \<Rightarrow> int \<Rightarrow> int \<Rightarrow> int \<Rightarrow> int list \<times> int \<times> int" where
  "mark_runs [] i current mx maxpos = ([], mx, maxpos)"
| "mark_runs (w # ws) i current mx maxpos =
     (if w = 0 then
        let (mx1, maxpos1) = (if current > mx then (current, i) else (mx, maxpos));
            (runpos, m, p) = mark_runs ws (i + 1) (current + 1) mx1 maxpos1
        in (current # runpos, m, p)
      else let (runpos, m, p) = mark_runs ws (i + 1) 1 mx maxpos in (- 1 # runpos, m, p))"

text \<open>The second loop, from the last position to the first.\<close>

fun clear_runs :: "int \<Rightarrow> int \<Rightarrow> int list \<Rightarrow> int list" where
  "clear_runs i tmpmax [] = []"
| "clear_runs i tmpmax (r # rs) =
     (if i > tmpmax then - 1 # clear_runs (i - 1) tmpmax rs
      else if r = - 1 then - 1 # clear_runs (i - 1) (- 1) rs
      else r # clear_runs (i - 1) tmpmax rs)"

definition zero_runs :: "'a::zero list \<Rightarrow> int list \<times> int \<times> int" where
  "zero_runs ws = (case mark_runs ws 0 1 1 (- 1) of (runpos, mx, maxpos) \<Rightarrow>
     (if mx > 1 then rev (clear_runs (int (length ws) - 1) maxpos (rev runpos)) else runpos, mx, maxpos))"

definition as_shorts :: "host_order \<Rightarrow> bytes \<Rightarrow> uint16 list" where
  "as_shorts h src = map (\<lambda>i. host_val16 h (read_at (2 * i) 2 src)) [0..<8]"

function ntop_v6_loop :: "host_order \<Rightarrow> uint16 list \<Rightarrow> int list \<Rightarrow> int \<Rightarrow> nat \<Rightarrow> bytes \<times> nat \<Rightarrow> (bytes \<times> nat) option" where
  "ntop_v6_loop h shorts runpos mx i bc =
     (if i \<ge> 8 then Some bc
      else if runpos ! i = - 1 then
        Option.bind (store_text bc (INET6_ADDRSTRLEN - snd bc) (hexadecimal (unat (NetworkToHost16 h (shorts ! i))))) (\<lambda>bc1.
        Option.bind (if i \<noteq> 7 \<and> runpos ! (i + 1) \<noteq> 1 then store bc1 58 else Some bc1) (\<lambda>bc2.
        ntop_v6_loop h shorts runpos mx (Suc i) bc2))
      else if runpos ! i = 1 then
        Option.bind (store bc 58) (\<lambda>bc1. Option.bind (store bc1 58) (\<lambda>bc2.
        ntop_v6_loop h shorts runpos mx (Suc (i + nat (mx - 1))) bc2))
      else ntop_v6_loop h shorts runpos mx (Suc i) bc)"
  by pat_completeness auto
termination
  by (relation "measure (\<lambda>(h, shorts, runpos, mx, i, bc). 8 - i)") auto

declare ntop_v6_loop.simps [simp del]

definition inet_ntop_v6 :: "host_order \<Rightarrow> bytes \<Rightarrow> bytes \<Rightarrow> nat \<Rightarrow> ntop_result" where
  "inet_ntop_v6 h src dst room =
     (if room < INET6_ADDRSTRLEN then Null
      else let shorts = as_shorts h src; (runpos, mx, maxpos) = zero_runs shorts in
        if runpos ! 0 = 1 \<and> (maxpos = 5 \<or> (maxpos = 4 \<and> shorts ! 5 = 0xFFFF)) then
          case Option.bind (store (dst, 0) 58) (\<lambda>bc. Option.bind (store bc 58) (\<lambda>bc1.
            if maxpos = 4 then store_text bc1 (INET6_ADDRSTRLEN - 2) (bytes_of_string ''ffff:'') else Some bc1)) of
            None \<Rightarrow> Overrun
          | Some bc2 \<Rightarrow> (case inet_ntop_v4 (drop 12 src) bc2 (INET6_ADDRSTRLEN - snd bc2) of
               Null \<Rightarrow> Stored (fst bc2) | r \<Rightarrow> r)
        else case ntop_v6_loop h shorts runpos mx 0 (dst, 0) of None \<Rightarrow> Overrun | Some (buf, _) \<Rightarrow> Stored buf)"

definition win32_inet_ntop :: "host_order \<Rightarrow> address_family \<Rightarrow> bytes option \<Rightarrow> bytes option \<Rightarrow> nat \<Rightarrow> ntop_result" where
  "win32_inet_ntop h af src dst room = (case (src, dst) of
     (Some s, Some d) \<Rightarrow> (case af of AF_INET \<Rightarrow> inet_ntop_v4 s (d, 0) room | AF_INET6 \<Rightarrow> inet_ntop_v6 h s d room | _ \<Rightarrow> Null)
   | _ \<Rightarrow> Null)"

section \<open>Parsing\<close>

lemma length_dropWhile_digit: "s \<noteq> [] \<Longrightarrow> P (hd s) \<Longrightarrow> length (dropWhile P s) < length s"
  by (cases s) (simp_all add: length_dropWhile_le less_Suc_eq_le)

function pton_v4_loop :: "bytes \<Rightarrow> bytes \<Rightarrow> bytes option" where
  "pton_v4_loop src_pos result =
     (if src_pos = [] then if length result \<noteq> 4 then None else Some result
      else if \<not> isdigit_c (hd src_pos) then None
      else let (val, end_pos) = strtol10 src_pos in
        if val < 0 \<or> val > 255 \<or> end_pos = src_pos then None
        else if length result + 1 > 4 then None
        else if end_pos = [] then pton_v4_loop [] (result @ [word_of_int val])
        else if hd end_pos = 46 then pton_v4_loop (tl end_pos) (result @ [word_of_int val])
        else None)"
  by pat_completeness auto
termination
proof (relation "measure (\<lambda>(s, r). length s)", goal_cases)
  case (3 src_pos result x val end_pos)
  then have "length end_pos < length src_pos" using length_dropWhile_digit [of src_pos isdigit_c] by (auto simp: strtol10_def)
  then show ?case by simp
qed auto

declare pton_v4_loop.simps [simp del]

definition inet_pton_v4 :: "bytes \<Rightarrow> bytes option" where
  "inet_pton_v4 src = pton_v4_loop src []"

datatype pton_result = Failed | Parsed bytes | Corrupted

lemma scan_hx_reads: "scan_hx s = Some (w, n) \<Longrightarrow> 0 < n"
proof -
  have "0 < k + length ds" if "ds \<noteq> []" for k and ds :: bytes using that by simp
  then show "scan_hx s = Some (w, n) \<Longrightarrow> 0 < n"
    unfolding scan_hx_def Let_def by (metis option.distinct(1) option.inject prod.inject)
qed

text \<open>
  The address as the 16-bit words that the loop writes; \<open>addr_cursor\<close> is the index of the word the pointer points to, \<open>8\<close> the end.
\<close>

function pton_v6_loop :: "host_order \<Rightarrow> bytes \<Rightarrow> uint16 list \<Rightarrow> int \<Rightarrow> bool \<Rightarrow> pton_result" where
  "pton_v6_loop h readcursor an_addr addr_cursor seencompressed =
     (if readcursor \<noteq> [] \<and> addr_cursor < 8 then
        if hd readcursor = 58 then
          if tl readcursor \<noteq> [] \<and> hd (tl readcursor) = 58 then
            if seencompressed then Failed
            else let rest = drop 2 readcursor in
              if rest = [] then pton_v6_loop h rest an_addr 8 seencompressed
              else pton_v6_loop h rest an_addr (8 - (int (count_list rest 58) + 1)) True
          else pton_v6_loop h (tl readcursor) an_addr addr_cursor seencompressed
        else (case scan_hx readcursor of None \<Rightarrow> Failed
          | Some (w, bytesread) \<Rightarrow>
              if addr_cursor < 0 then Corrupted
              else let rest = drop bytesread readcursor in
                if rest \<noteq> [] \<and> hd rest \<noteq> 58 then Failed
                else pton_v6_loop h rest (an_addr[nat addr_cursor := HostToNetwork16 h w]) (addr_cursor + 1) seencompressed)
      else if readcursor \<noteq> [] \<or> addr_cursor < 8 then Failed
      else Parsed (concat (map (host_mem16 h) an_addr)))"
  by pat_completeness auto
termination
  by (relation "measure (\<lambda>(h, s, a, c, seen). length s)") (auto dest: scan_hx_reads)

declare pton_v6_loop.simps [simp del]

definition mapped_v4 :: "bytes \<Rightarrow> bytes \<Rightarrow> pton_result" where
  "mapped_v4 front addrstart = (case inet_pton_v4 addrstart of None \<Rightarrow> Failed | Some v4 \<Rightarrow> Parsed (front @ v4))"

definition inet_pton_v6 :: "host_order \<Rightarrow> bytes \<Rightarrow> pton_result" where
  "inet_pton_v6 h src =
     (if 120 \<in> set src then Failed
      else if take 2 src = [58, 58] \<and> drop 2 src \<noteq> [] \<and> strchr_set (drop 2 src) [46] \<noteq> None then
        let addrstart = drop 2 src in
        (case strchr_set addrstart [58, 58] of
           Some colon \<Rightarrow> (case scan_hx addrstart of None \<Rightarrow> Failed
             | Some (a_short, bytesread) \<Rightarrow>
                 if a_short \<noteq> 0xFFFF \<or> bytesread \<noteq> 4 then Failed
                 else mapped_v4 (replicate 10 0 @ [0xFF, 0xFF]) (drop (colon + 1) addrstart))
         | None \<Rightarrow> mapped_v4 (replicate 12 0) addrstart)
      else pton_v6_loop h src (replicate 8 0) 0 False)"

text \<open>The results 1, 0 and -1 of the source; \<open>None\<close> stands for the memory that \<open>Corrupted\<close> leaves behind.\<close>

definition win32_inet_pton :: "host_order \<Rightarrow> address_family \<Rightarrow> bytes option \<Rightarrow> (int \<times> bytes option) option" where
  "win32_inet_pton h af src = (case src of None \<Rightarrow> Some (0, None)
   | Some s \<Rightarrow> (case af of
        AF_INET \<Rightarrow> Some (case inet_pton_v4 s of None \<Rightarrow> (0, None) | Some a \<Rightarrow> (1, Some a))
      | AF_INET6 \<Rightarrow> (case inet_pton_v6 h s of Failed \<Rightarrow> Some (0, None) | Parsed a \<Rightarrow> Some (1, Some a) | Corrupted \<Rightarrow> None)
      | _ \<Rightarrow> Some (- 1, None)))"

section \<open>Numbers\<close>

lemma number_value_snoc: "number_value base val (cs @ [c]) = number_value base val cs * base + val c"
  by (simp add: number_value_def)

lemma decimal_digit:
  assumes "k < 10"
  shows "isdigit_c (of_nat (48 + k))" and "uint (of_nat (48 + k) :: byte) = 48 + int k"
proof -
  have "unat (of_nat (48 + k) :: byte) = 48 + k" using assms by (simp add: unat_of_nat del: of_nat_add)
  note u = this
  show "isdigit_c (of_nat (48 + k))" using assms u by (simp add: isdigit_c_def word_le_nat_alt del: of_nat_add)
  have "uint (of_nat (48 + k) :: byte) = int (48 + k)" by (simp only: uint_nat u)
  then show "uint (of_nat (48 + k) :: byte) = 48 + int k" by simp
qed

lemma decimal_value: "number_value 10 (\<lambda>c. uint c - 48) (decimal n) = int n \<and> (\<forall>c \<in> set (decimal n). isdigit_c c) \<and> decimal n \<noteq> []"
proof (induction n rule: decimal.induct)
  case (1 n)
  show ?case
  proof (cases "n < 10")
    case True
    then show ?thesis unfolding decimal.simps [of n] using decimal_digit [of n] by (simp add: number_value_def)
  next
    case False
    then show ?thesis unfolding decimal.simps [of n] using 1 decimal_digit [of "n mod 10"]
      by (auto simp: number_value_snoc simp flip: of_nat_add) presburger
  qed
qed

lemma HEX_digit:
  assumes "k < 16"
  shows "isxdigit (HEX ! k)" and "xdigit_value (HEX ! k) = int k"
proof -
  have "\<forall>k \<in> set [0..<16]. isxdigit (HEX ! k) \<and> xdigit_value (HEX ! k) = int k" by code_simp
  then show "isxdigit (HEX ! k)" "xdigit_value (HEX ! k) = int k" using assms by simp_all
qed

lemma hexadecimal_value:
  "number_value 16 xdigit_value (hexadecimal n) = int n \<and> (\<forall>c \<in> set (hexadecimal n). isxdigit c) \<and> hexadecimal n \<noteq> []"
proof (induction n rule: hexadecimal.induct)
  case (1 n)
  show ?case
  proof (cases "n < 16")
    case True
    then show ?thesis unfolding hexadecimal.simps [of n] using HEX_digit [of n] by (simp add: number_value_def)
  next
    case False
    then show ?thesis unfolding hexadecimal.simps [of n] using 1 HEX_digit [of "n mod 16"]
      by (auto simp: number_value_snoc) presburger
  qed
qed

lemma length_hexadecimal: "n < 16 ^ Suc k \<Longrightarrow> length (hexadecimal n) \<le> Suc k"
proof (induction k arbitrary: n)
  case 0
  then show ?case by (simp add: hexadecimal.simps [of n])
next
  case (Suc k)
  show ?case
  proof (cases "n < 16")
    case True
    then show ?thesis by (simp add: hexadecimal.simps [of n])
  next
    case False
    have "n div 16 < 16 ^ Suc k" using Suc.prems by (simp add: less_mult_imp_div_less mult.commute)
    from Suc.IH [OF this] False show ?thesis by (simp add: hexadecimal.simps [of n])
  qed
qed

lemma length_hexadecimal16: "length (hexadecimal (unat (w :: uint16))) \<le> 4"
  using length_hexadecimal [of "unat w" 3] unsigned_less [of w, where ?'a = nat] by simp

lemma length_decimal8: "length (decimal (unat (b :: byte))) \<le> 3"
proof -
  have "length (decimal n) \<le> 3" if "n < 1000" for n using that by (simp add: decimal.simps less_mult_imp_div_less)
  then show ?thesis using unsigned_less [of b, where ?'a = nat] by simp
qed

lemma isxdigit_not:
  "\<not> isxdigit 58" "\<not> isxdigit 46" "\<not> isxdigit 120" "\<not> isxdigit 88" "\<not> isxdigit 45" "\<not> isxdigit 43" "\<not> isdigit_c 58" "\<not> isdigit_c 46"
  by (simp_all add: isxdigit_def isdigit_c_def)

lemma isspace_not_xdigit: "isxdigit c \<Longrightarrow> \<not> isspace_c c"
  unfolding isxdigit_def isdigit_c_def isspace_c_def word_le_nat_alt by (auto simp: word_unat_eq_iff)

lemma takeWhile_until:
  assumes "\<forall>c \<in> set ds. P c" and "rest = [] \<or> \<not> P (hd rest)"
  shows "takeWhile P (ds @ rest) = ds" and "dropWhile P (ds @ rest) = rest"
  using assms by (induction ds) (cases rest; simp)+

lemma strtol10_decimal:
  assumes "n < 2 ^ 31" and "rest = [] \<or> \<not> isdigit_c (hd rest)"
  shows "strtol10 (decimal n @ rest) = (int n, rest)"
  using takeWhile_until [of "decimal n" isdigit_c rest] decimal_value [of n] assms by (simp add: strtol10_def)

lemma scan_hx_plain:
  assumes "dropWhile isspace_c s = s" and "s \<noteq> []" and "hd s \<noteq> 45" and "hd s \<noteq> 43"
    and "take 2 s \<noteq> [48, 120]" and "take 2 s \<noteq> [48, 88]" and "takeWhile isxdigit s \<noteq> []"
  shows "scan_hx s = Some (word_of_int (number_value 16 xdigit_value (takeWhile isxdigit s)), length (takeWhile isxdigit s))"
  using assms by (simp add: scan_hx_def Let_def)

lemma scan_hx_hexadecimal:
  assumes "rest = [] \<or> hd rest = 58"
  shows "scan_hx (hexadecimal (unat w) @ rest) = Some (w, length (hexadecimal (unat w)))"
proof -
  let ?ds = "hexadecimal (unat w)"
  obtain d ds where d: "?ds = d # ds" "isxdigit d" "\<forall>c \<in> set ds. isxdigit c"
    using hexadecimal_value [of "unat w"] by (cases ?ds) auto
  have "dropWhile isspace_c (?ds @ rest) = ?ds @ rest" using isspace_not_xdigit [OF d(2)] by (simp add: d(1))
  moreover have second: "isxdigit x \<or> x = 58" if "take 2 (?ds @ rest) = [48, x]" for x
  proof -
    have "ds @ rest \<noteq> []" "hd (ds @ rest) = x" using that unfolding d(1) by (cases "ds @ rest"; simp)+
    then show ?thesis using d(3) assms by (cases ds) auto
  qed
  moreover have "d \<noteq> 45" "d \<noteq> 43" using d(2) isxdigit_not by auto
  moreover have "take 2 (?ds @ rest) \<noteq> [48, 120]" "take 2 (?ds @ rest) \<noteq> [48, 88]"
    using second [of 120] second [of 88] isxdigit_not by auto
  moreover have "takeWhile isxdigit (?ds @ rest) = ?ds"
    using hexadecimal_value [of "unat w"] assms isxdigit_not by (intro takeWhile_until) auto
  moreover have "(word_of_int (number_value 16 xdigit_value ?ds) :: uint16) = w" using hexadecimal_value [of "unat w"] by simp
  moreover have "?ds @ rest \<noteq> []" "hd (?ds @ rest) = d" "?ds \<noteq> []" using d(1) by simp_all
  ultimately show ?thesis using scan_hx_plain [of "?ds @ rest"] by simp
qed

section \<open>IPv4 texts\<close>

lemma pton_v4_step:
  assumes "length r < 4" and "rest = [] \<or> hd rest = 46"
  shows "pton_v4_loop (decimal (unat b) @ rest) r =
    (if rest = [] then pton_v4_loop [] (r @ [b]) else pton_v4_loop (tl rest) (r @ [b]))"
proof -
  let ?s = "decimal (unat b) @ rest"
  have b: "unat b < 256" using unsigned_less [of b, where ?'a = nat] by simp
  have "?s \<noteq> []" "isdigit_c (hd ?s)" "rest \<noteq> ?s" using decimal_value [of "unat b"] by (auto simp: hd_append)
  moreover have "strtol10 ?s = (int (unat b), rest)" using b assms(2) isxdigit_not by (intro strtol10_decimal) auto
  ultimately show ?thesis
    using assms b by (subst pton_v4_loop.simps) (auto simp del: of_nat_unat, simp_all)
qed

lemma pton_v4_dotted:
  assumes "length src = 4"
  shows "inet_pton_v4 (dotted src) = Some src"
proof -
  obtain a b c d where s: "src = [a, b, c, d]" using assms by (auto simp: eval_nat_numeral length_Suc_conv)
  have "inet_pton_v4 (dotted src) = pton_v4_loop (decimal (unat d)) [a, b, c]"
    unfolding inet_pton_v4_def dotted_def s by (simp add: pton_v4_step)
  then show ?thesis using pton_v4_step [of "[a, b, c]" "[]" d] by (simp add: s pton_v4_loop.simps [of "[]"])
qed

lemma pton_v4_chars: "pton_v4_loop s r = Some a \<Longrightarrow> 58 \<notin> set s"
proof (induction "length s" arbitrary: s r rule: less_induct)
  case less
  show ?case
  proof (cases "s = []")
    case False
    have s: "s = takeWhile isdigit_c s @ dropWhile isdigit_c s" by simp
    have t: "58 \<notin> set (takeWhile isdigit_c s)" using isxdigit_not(7) by (auto dest: set_takeWhileD)
    have "58 \<notin> set (dropWhile isdigit_c s)"
    proof (cases "dropWhile isdigit_c s")
      case (Cons c cs)
      then have "c = 46" "pton_v4_loop cs (r @ [word_of_int (fst (strtol10 s))]) = Some a"
        using less.prems False by (subst (asm) pton_v4_loop.simps; auto simp: strtol10_def split: if_splits)+
      moreover have "length cs < length s" using length_dropWhile_le [of isdigit_c s] Cons by simp
      moreover note less.hyps
      ultimately show ?thesis using Cons by fastforce
    next
      case Nil
      show ?thesis unfolding Nil by simp
    qed
    then show ?thesis using s t by (metis UnE set_append)
  qed simp
qed

section \<open>Texts in zeroed buffers\<close>

definition filled :: "nat \<Rightarrow> bytes \<Rightarrow> bytes \<times> nat" where
  "filled n txt = (txt @ replicate (n - length txt) 0, length txt)"

lemma store_filled: "length txt < n \<Longrightarrow> store (filled n txt) c = Some (filled n (txt @ [c]))"
  by (auto simp: store_def filled_def list_update_append Suc_diff_Suc simp flip: replicate_Suc)
    (metis Suc_diff_Suc list_update_code(2) replicate_Suc)

lemma store_text_filled:
  assumes "length t < room" and "length txt + room \<le> n"
  shows "store_text (filled n txt) room t = Some (filled n (txt @ t))"
proof -
  have "replicate (n - length txt) 0 = t' @ replicate (n - length txt - length t') (0 :: byte)"
    if "t' = replicate (length t + 1) 0" for t'
    using that assms by (simp add: replicate_add [symmetric] del: replicate_Suc)
  then have "drop (Suc (length t)) (replicate (n - length txt) (0 :: byte)) = replicate (n - length txt - length t - 1) 0"
    by simp
  moreover have "Suc (n - length txt - length t - 1) = n - length txt - length t" using assms by simp
  ultimately show ?thesis
    using assms by (simp add: store_text_def filled_def vsprintfn_def vsnprintf_windows_def write_at_def)
      (metis replicate_Suc)
qed

lemma cstring_filled: "0 \<notin> set t \<Longrightarrow> cstring 0 (fst (filled n t)) = t"
proof -
  assume "0 \<notin> set t"
  then have "takeWhile (\<lambda>b. b \<noteq> 0) (t @ replicate k 0) = t" for k by (subst takeWhile_append2) auto
  then show ?thesis by (simp add: cstring_def filled_def)
qed

function v6_text :: "uint16 list \<Rightarrow> int list \<Rightarrow> int \<Rightarrow> nat \<Rightarrow> bytes" where
  "v6_text ws runpos mx i =
     (if i \<ge> 8 then []
      else if runpos ! i = - 1 then
        hexadecimal (unat (ws ! i)) @ (if i \<noteq> 7 \<and> runpos ! (i + 1) \<noteq> 1 then [58] else []) @ v6_text ws runpos mx (Suc i)
      else if runpos ! i = 1 then [58, 58] @ v6_text ws runpos mx (Suc (i + nat (mx - 1)))
      else v6_text ws runpos mx (Suc i))"
  by pat_completeness auto
termination
  by (relation "measure (\<lambda>(ws, runpos, mx, i). 8 - i)") auto

declare v6_text.simps [simp del]

lemma ntop_v6_loop_text:
  assumes "\<And>i. i < 8 \<Longrightarrow> NetworkToHost16 h (shorts ! i) = ws ! i" and "65 \<le> n"
  shows "length acc + 5 * (8 - i) \<le> 60 \<Longrightarrow>
    ntop_v6_loop h shorts runpos mx i (filled n acc) = Some (filled n (acc @ v6_text ws runpos mx i))"
proof (induction "8 - i" arbitrary: i acc rule: less_induct)
  case less
  note IH = less.hyps and b = less.prems
  have r: "snd (filled n acc) = length acc" by (simp add: filled_def)
  show ?case
  proof (cases "i < 8")
    case True
    let ?t = "hexadecimal (unat (ws ! i))"
    let ?c = "if i \<noteq> 7 \<and> runpos ! (i + 1) \<noteq> 1 then [58 :: byte] else []"
    have t: "length ?t \<le> 4" by (rule length_hexadecimal16)
    have st: "store_text (filled n acc) (INET6_ADDRSTRLEN - snd (filled n acc)) ?t = Some (filled n (acc @ ?t))"
      using t b True assms(2) unfolding r by (intro store_text_filled) (simp_all add: INET6_ADDRSTRLEN_def)
    have sc: "(if i \<noteq> 7 \<and> runpos ! (i + 1) \<noteq> 1 then store (filled n (acc @ ?t)) 58 else Some (filled n (acc @ ?t))) =
        Some (filled n (acc @ ?t @ ?c))"
      using t b True assms(2) store_filled [of "acc @ ?t" n 58] by simp
    have ss: "store (filled n acc) 58 = Some (filled n (acc @ [58]))" "store (filled n (acc @ [58])) 58 = Some (filled n (acc @ [58, 58]))"
      using b True assms(2) store_filled [of acc n 58] store_filled [of "acc @ [58]" n 58] by simp_all
    have IH1: "ntop_v6_loop h shorts runpos mx j (filled n (acc @ d)) = Some (filled n ((acc @ d) @ v6_text ws runpos mx j))"
      if "i < j" "length d \<le> 5" for j d
      using that b True by (intro IH) auto
    have l: "length (?t @ ?c) \<le> 5" using t by simp
    show ?thesis
      using True assms(1) [OF True] IH1 [of "Suc i" "?t @ ?c"] IH1 [of "Suc (i + nat (mx - 1))" "[58, 58]"] IH1 [of "Suc i" "[]"] l
      by (subst ntop_v6_loop.simps, subst v6_text.simps) (simp add: st sc ss del: One_nat_def)
  qed (simp add: ntop_v6_loop.simps [of h shorts runpos mx i] v6_text.simps [of ws runpos mx i])
qed

section \<open>The compressed run\<close>

text \<open>Addresses whose zeros the printer can express with one \<^verbatim>\<open>::\<close>: two zeros in a row somewhere, or at most one zero.\<close>

definition one_gap :: "'a::zero list \<Rightarrow> bool" where
  "one_gap ws \<longleftrightarrow> (\<exists>i \<in> set [0..<length ws - 1]. ws ! i = 0 \<and> ws ! (i + 1) = 0) \<or> length (filter (\<lambda>w. w = 0) ws) \<le> 1"

definition run_shape :: "'a::zero list \<Rightarrow> int list \<Rightarrow> int \<Rightarrow> int \<Rightarrow> nat \<Rightarrow> nat \<Rightarrow> bool" where
  "run_shape ws runpos mx maxpos s m \<longleftrightarrow>
     s + m \<le> 8 \<and> runpos = replicate s (- 1) @ map int [1..<Suc m] @ replicate (8 - s - m) (- 1) \<and>
     (\<forall>i \<in> set [s..<s + m]. ws ! i = 0) \<and> (0 < m \<longrightarrow> mx = int m) \<and> maxpos = (if 1 < m then int (s + m) - 1 else - 1)"

definition shape_check :: "int list \<Rightarrow> bool" where
  "shape_check zs \<longleftrightarrow> one_gap zs \<longrightarrow> (case zero_runs zs of (runpos, mx, maxpos) \<Rightarrow>
     let s = length (takeWhile (\<lambda>r. r = - 1) runpos) in run_shape zs runpos mx maxpos s (if s < 8 then nat mx else 0))"

lemma shape_check_all: "\<forall>zs \<in> set (List.n_lists 8 [0, 1]). shape_check zs"
  by code_simp

lemma mark_runs_pattern: "mark_runs (map (\<lambda>w. if w = 0 then 0 else (1 :: int)) ws) = mark_runs ws"
proof -
  have "mark_runs (map (\<lambda>w. if w = 0 then 0 else (1 :: int)) ws) i c m p = mark_runs ws i c m p" for i c m p
    by (induction ws arbitrary: i c m p) (simp_all split: prod.splits)
  then show ?thesis by blast
qed

lemma run_shape_exists:
  assumes "length ws = 8" and "one_gap ws" and "zero_runs ws = (runpos, mx, maxpos)"
  obtains s m where "run_shape ws runpos mx maxpos s m"
proof -
  let ?zs = "map (\<lambda>w. if w = 0 then 0 else (1 :: int)) ws"
  have "?zs \<in> set (List.n_lists 8 [0, 1])" using assms(1) by (auto simp: set_n_lists)
  then have "shape_check ?zs" using shape_check_all by blast
  moreover have z: "?zs ! i = 0 \<longleftrightarrow> ws ! i = 0" if "i < 8" for i using that assms(1) by simp
  have "one_gap ?zs"
    using assms(1,2) by (auto simp: one_gap_def filter_map comp_def if_distrib cong: if_cong)
  moreover have "zero_runs ?zs = (runpos, mx, maxpos)" using assms(3) unfolding zero_runs_def mark_runs_pattern length_map .
  ultimately obtain s m where "run_shape ?zs runpos mx maxpos s m" by (auto simp: shape_check_def Let_def)
  then have "run_shape ws runpos mx maxpos s m" using z by (auto simp: run_shape_def)
  then show ?thesis by (rule that)
qed

fun groups :: "uint16 list \<Rightarrow> bytes" where
  "groups [] = []"
| "groups [w] = hexadecimal (unat w)"
| "groups (w # v # ws) = hexadecimal (unat w) @ 58 # groups (v # ws)"

lemma v6_text_behind:
  assumes "length ws = 8" and "\<And>i. j \<le> i \<Longrightarrow> i < 8 \<Longrightarrow> runpos ! i = - 1" and "j \<le> 8"
  shows "v6_text ws runpos mx j = groups (drop j ws)"
  using assms(2,3)
proof (induction "8 - j" arbitrary: j)
  case 0
  then show ?case using assms(1) by (simp add: v6_text.simps)
next
  case (Suc k)
  have IH: "v6_text ws runpos mx (Suc j) = groups (drop (Suc j) ws)" using Suc by simp
  have d: "drop j ws = ws ! j # drop (Suc j) ws" using Suc assms(1) by (simp add: Cons_nth_drop_Suc)
  show ?case
  proof (cases "j = 7")
    case True
    then show ?thesis using Suc.prems(1) [of 7] d IH assms(1) by (subst v6_text.simps) simp
  next
    case False
    then have "j < 7" using Suc by simp
    then have "drop (Suc j) ws \<noteq> []" "runpos ! j = - 1" "runpos ! (j + 1) = - 1" using assms(1) Suc.prems(1) by simp_all
    then show ?thesis using d IH \<open>j < 7\<close> by (subst v6_text.simps) (cases "drop (Suc j) ws"; simp)
  qed
qed

lemma v6_text_before:
  assumes "length ws = 8" and "\<And>i. i < s \<Longrightarrow> runpos ! i = - 1" and "runpos ! s = 1" and "s < 8" and "i \<le> s"
  shows "v6_text ws runpos mx i = groups (take (s - i) (drop i ws)) @ v6_text ws runpos mx s"
  using assms(5)
proof (induction "s - i" arbitrary: i)
  case (Suc k)
  have IH: "v6_text ws runpos mx (Suc i) = groups (take (s - Suc i) (drop (Suc i) ws)) @ v6_text ws runpos mx s"
    using Suc by simp
  have d: "take (s - i) (drop i ws) = ws ! i # take (s - Suc i) (drop (Suc i) ws)"
    using Suc assms(1,4) by (simp add: Cons_nth_drop_Suc [symmetric] take_Cons' Suc_diff_Suc)
  show ?case
  proof (cases "Suc i = s")
    case True
    then show ?thesis using assms(2) [of i] assms(3,4) d IH by (subst v6_text.simps) simp
  next
    case False
    then have "take (s - Suc i) (drop (Suc i) ws) \<noteq> []" "runpos ! i = - 1" "runpos ! (i + 1) = - 1" "i < 7"
      using Suc.hyps(2) Suc.prems assms by auto
    then show ?thesis using d IH by (subst v6_text.simps) (cases "take (s - Suc i) (drop (Suc i) ws)"; simp)
  qed
qed simp

lemma v6_text_shape:
  assumes "length ws = 8" and "run_shape ws runpos mx maxpos s m"
  shows "v6_text ws runpos mx 0 = (if m = 0 then groups ws else groups (take s ws) @ [58, 58] @ groups (drop (s + m) ws))"
proof -
  have r: "s + m \<le> 8" "runpos = replicate s (- 1) @ map int [1..<Suc m] @ replicate (8 - s - m) (- 1)" "0 < m \<longrightarrow> mx = int m"
    using assms(2) by (simp_all add: run_shape_def)
  show ?thesis
  proof (cases "m = 0")
    case True
    then have "runpos = replicate 8 (- 1)" using r(1,2) by (simp add: replicate_add [symmetric])
    then show ?thesis using True v6_text_behind [of ws 0 runpos mx] assms(1) by simp
  next
    case False
    have behind: "runpos ! i = - 1" if "s + m \<le> i" "i < 8" for i using that r(1) unfolding r(2) by (auto simp: nth_append simp del: upt_Suc)
    have "runpos ! s = 1" unfolding r(2) using False by (simp add: nth_append del: upt_Suc)
    then have "v6_text ws runpos mx s = [58, 58] @ v6_text ws runpos mx (s + m)"
      using False r(1,3) by (subst v6_text.simps) (simp add: nat_diff_distrib Suc_diff_Suc)
    moreover have "v6_text ws runpos mx (s + m) = groups (drop (s + m) ws)"
      using assms(1) behind r(1) by (rule v6_text_behind)
    moreover have "v6_text ws runpos mx 0 = groups (take s ws) @ v6_text ws runpos mx s"
      using v6_text_before [of ws s runpos 0 mx] assms(1) \<open>runpos ! s = 1\<close> False r by (simp add: nth_append)
    ultimately show ?thesis using False by simp
  qed
qed

section \<open>Parsing groups\<close>

lemma hexadecimal_hd: "isxdigit (hd (hexadecimal n @ rest))" "hexadecimal n @ rest \<noteq> []" "hd (hexadecimal n @ rest) \<noteq> 58"
proof -
  show "isxdigit (hd (hexadecimal n @ rest))" "hexadecimal n @ rest \<noteq> []" using hexadecimal_value [of n] by (simp_all add: hd_append)
  then show "hd (hexadecimal n @ rest) \<noteq> 58" using isxdigit_not(1) by metis
qed

lemma groups_hd: "gs \<noteq> [] \<Longrightarrow> groups gs \<noteq> [] \<and> hd (groups gs) \<noteq> 58"
  using hexadecimal_hd [where rest = "[]"] hexadecimal_hd by (cases gs rule: groups.cases) simp_all

lemma groups_chars: "c \<in> set (groups gs) \<Longrightarrow> isxdigit c \<or> c = 58"
  by (induction gs rule: groups.induct) (auto dest: hexadecimal_value [THEN conjunct2, THEN conjunct1, rule_format])

lemma count_colons_hexadecimal: "count_list (hexadecimal n) 58 = 0"
  using hexadecimal_value [of n] isxdigit_not(1) by (auto simp: count_list_0_iff)

lemma count_colons_groups: "gs \<noteq> [] \<Longrightarrow> Suc (count_list (groups gs) 58) = length gs"
  by (induction gs rule: groups.induct) (simp_all add: count_colons_hexadecimal)

lemma pton_v6_group:
  assumes "0 \<le> c" and "c < 8" and "rest = [] \<or> hd rest = 58"
  shows "pton_v6_loop h (hexadecimal (unat w) @ rest) a c seen = pton_v6_loop h rest (a[nat c := HostToNetwork16 h w]) (c + 1) seen"
  using assms hexadecimal_hd(2,3) [of "unat w" rest] by (subst pton_v6_loop.simps) (auto simp: scan_hx_hexadecimal Let_def)

lemma pton_v6_colon:
  assumes "c < 8" and "rest \<noteq> []" and "hd rest \<noteq> 58"
  shows "pton_v6_loop h (58 # rest) a c seen = pton_v6_loop h rest a c seen"
  using assms by (subst pton_v6_loop.simps) simp

lemma pton_v6_groups:
  assumes "gs \<noteq> []" and "c + length gs \<le> 8" and "c + length gs = 8 \<and> rest = [] \<or> c + length gs < 8 \<and> take 2 rest = [58, 58]"
    and "length a = 8"
  shows "pton_v6_loop h (groups gs @ rest) a (int c) seen =
    pton_v6_loop h rest (write_at c (map (HostToNetwork16 h) gs) a) (int (c + length gs)) seen"
  using assms
proof (induction gs arbitrary: a c rule: groups.induct)
  case (2 w)
  then have "rest = [] \<or> hd rest = 58" by (cases rest) auto
  then show ?case using 2 by (simp add: pton_v6_group write_at_def upd_conv_take_nth_drop add.commute)
next
  case (3 w v ws)
  have w: "write_at (Suc c) xs (a[c := x]) = write_at c (x # xs) a" if "c < 8" for x and xs :: "uint16 list"
    using that 3(5) by (simp add: write_at_def upd_conv_take_nth_drop take_Suc_conv_app_nth add.commute)
  have "pton_v6_loop h (groups (w # v # ws) @ rest) a (int c) seen =
      pton_v6_loop h (groups (v # ws) @ rest) (a[c := HostToNetwork16 h w]) (int (Suc c)) seen"
    using 3 groups_hd [of "v # ws"] by (simp add: pton_v6_group pton_v6_colon add.commute)
  also have "\<dots> = pton_v6_loop h rest (write_at (Suc c) (map (HostToNetwork16 h) (v # ws)) (a[c := HostToNetwork16 h w]))
      (int (Suc c + length (v # ws))) seen"
    using 3(2-) by (intro 3(1)) auto
  finally show ?case using 3(3) w by (simp add: algebra_simps)
qed simp

lemma pton_v6_gap:
  assumes "c < 8" and "length a = 8" and "length gs < 8"
  shows "pton_v6_loop h (58 # 58 # groups gs) a (int c) False =
    Parsed (concat (map (host_mem16 h) (take (8 - length gs) a @ map (HostToNetwork16 h) gs)))"
proof (cases "gs = []")
  case True
  then show ?thesis using assms
    by (subst pton_v6_loop.simps) (simp add: pton_v6_loop.simps [of h "[]"])
next
  case False
  have "pton_v6_loop h (58 # 58 # groups gs) a (int c) False = pton_v6_loop h (groups gs) a (int (8 - length gs)) True"
    using assms False groups_hd [OF False] arg_cong [OF count_colons_groups [OF False], of int]
    by (subst pton_v6_loop.simps) (simp add: Let_def algebra_simps)
  also have "\<dots> = pton_v6_loop h [] (write_at (8 - length gs) (map (HostToNetwork16 h) gs) a) 8 True"
    using pton_v6_groups [OF False, of "8 - length gs" "[]" a h True] assms by simp
  finally show ?thesis using assms by (simp add: pton_v6_loop.simps [of h "[]"] write_at_def)
qed

section \<open>Round trips\<close>

definition words_of :: "bytes \<Rightarrow> uint16 list" where
  "words_of src = map (\<lambda>i. GetBE16 (read_at (2 * i) 2 src)) [0..<8]"

lemma be16_GetBE16: "length m = 2 \<Longrightarrow> be16 (GetBE16 m) = m"
  by (auto simp: mem_defs be_defs byte_split numeral_2_eq_2 length_Suc_conv)

lemma words_of_bytes:
  assumes "length src = 16"
  shows "concat (map be16 (words_of src)) = src" and "length (words_of src) = 8"
proof -
  have "map be16 (words_of src) = map (\<lambda>i. read_at (2 * i) 2 src) [0..<8]"
    using assms by (auto simp: words_of_def be16_GetBE16)
  also have "concat \<dots> = src"
    using assms by (auto simp: upt_rec read_at_def eval_nat_numeral length_Suc_conv)
  finally show "concat (map be16 (words_of src)) = src" .
qed (simp add: words_of_def)

lemma as_shorts_words:
  assumes "length src = 16" and "i < 8"
  shows "NetworkToHost16 h (as_shorts h src ! i) = words_of src ! i"
  using assms by (simp add: as_shorts_def words_of_def NetworkToHost16_def host_mem_val16)

lemma NetworkToHost16_inj: "NetworkToHost16 h v = NetworkToHost16 h w \<Longrightarrow> v = w"
proof -
  have b: "host_mem16 h x = be16 (NetworkToHost16 h x)" for x
    by (cases h) (simp_all add: NetworkToHost16_def be16_GetBE16)
  assume "NetworkToHost16 h v = NetworkToHost16 h w"
  then have "host_mem16 h v = host_mem16 h w" using b by simp
  then show "v = w" using host_val_mem(1) [of h v] by simp
qed

lemma NetworkToHost16_const: "NetworkToHost16 h v = 0 \<longleftrightarrow> v = 0" "NetworkToHost16 h v = 0xFFFF \<longleftrightarrow> v = 0xFFFF"
proof -
  have z: "NetworkToHost16 h 0 = 0" by (cases h) (simp_all add: NetworkToHost16_def mem_defs shr_byte_def byte_shl_def)
  have "NetworkToHost16 HostLittle 0xFFFF = 0xFFFF" "NetworkToHost16 HostBig 0xFFFF = 0xFFFF" by code_simp+
  then have f: "NetworkToHost16 h 0xFFFF = 0xFFFF" by (cases h) simp_all
  show "NetworkToHost16 h v = 0 \<longleftrightarrow> v = 0" using z NetworkToHost16_inj [of h v 0] by auto
  show "NetworkToHost16 h v = 0xFFFF \<longleftrightarrow> v = 0xFFFF" using f NetworkToHost16_inj [of h v "0xFFFF"] by auto
qed

lemma zero_runs_shorts:
  assumes "length src = 16"
  shows "zero_runs (as_shorts h src) = zero_runs (words_of src)"
proof -
  have "map (\<lambda>w. if w = 0 then 0 else (1 :: int)) (as_shorts h src) = map (\<lambda>w. if w = 0 then 0 else (1 :: int)) (words_of src)"
    using as_shorts_words [OF assms] NetworkToHost16_const(1)
    by (intro nth_equalityI) (simp_all add: as_shorts_def words_of_def, metis)
  then have "mark_runs (as_shorts h src) = mark_runs (words_of src)" by (metis mark_runs_pattern)
  moreover have "length (as_shorts h src) = length (words_of src)" by (simp add: as_shorts_def words_of_def)
  ultimately show ?thesis unfolding zero_runs_def by (simp only:)
qed

lemma HostToNetwork16_0: "HostToNetwork16 h 0 = 0"
  by (cases h) (simp_all add: HostToNetwork16_def mem_defs shr_byte_def byte_shl_def)

lemma host_mem_words: "concat (map (host_mem16 h) (map (HostToNetwork16 h) ws)) = concat (map be16 ws)"
  by (simp add: comp_def)

text \<open>The plain text of an address, parsed again.\<close>

lemma pton_v6_text:
  assumes "length ws = 8" and "run_shape ws runpos mx maxpos s m"
  shows "inet_pton_v6 h (v6_text ws runpos mx 0) = Parsed (concat (map be16 ws))"
proof -
  let ?t = "v6_text ws runpos mx 0" and ?z = "replicate 8 (0 :: uint16)"
  have sm: "s + m \<le> 8" "\<And>i. s \<le> i \<Longrightarrow> i < s + m \<Longrightarrow> ws ! i = 0" using assms(2) by (auto simp: run_shape_def)
  note t = v6_text_shape [OF assms]
  have ne: "ws \<noteq> []" using assms(1) by auto
  have chars: "isxdigit c \<or> c = 58" if "c \<in> set ?t" for c
    using that groups_chars unfolding t by (auto split: if_splits)
  then have "120 \<notin> set ?t" "46 \<notin> set ?t" using isxdigit_not by fastforce+
  moreover have "strchr_set s' [46] = None" if "46 \<notin> set s'" for s' using that by (induction s') auto
  ultimately have "120 \<notin> set ?t" "strchr_set (drop 2 ?t) [46] = None" using in_set_dropD [of 46 2 ?t] by blast+
  then have p: "inet_pton_v6 h ?t = pton_v6_loop h ?t ?z 0 False" unfolding inet_pton_v6_def by simp
  show ?thesis
  proof (cases "m = 0")
    case True
    have "pton_v6_loop h (groups ws @ []) ?z (int 0) False = pton_v6_loop h [] (map (HostToNetwork16 h) ws) 8 False"
      using pton_v6_groups [of ws 0 "[]" ?z h False] assms(1) ne by (auto simp: write_at_def)
    then show ?thesis using p t True host_mem_words [of h ws] by (simp add: pton_v6_loop.simps [of h "[]"])
  next
    case False
    let ?a = "write_at 0 (map (HostToNetwork16 h) (take s ws)) ?z" and ?b = "drop (s + m) ws"
    have "pton_v6_loop h ?t ?z 0 False = pton_v6_loop h (58 # 58 # groups ?b) ?a (int s) False"
    proof (cases "s = 0")
      case True
      then show ?thesis using t False by (simp add: write_at_def)
    next
      case s0: False
      then show ?thesis
        using pton_v6_groups [of "take s ws" 0 "[58, 58] @ groups ?b" ?z h False] t False assms(1) sm(1) ne by (simp add: min_def)
    qed
    also have "\<dots> = Parsed (concat (map (host_mem16 h) (take (8 - length ?b) ?a @ map (HostToNetwork16 h) ?b)))"
      using False assms(1) sm(1) by (intro pton_v6_gap) (auto simp: write_at_def)
    also have "take (8 - length ?b) ?a @ map (HostToNetwork16 h) ?b = map (HostToNetwork16 h) (take s ws @ replicate m 0 @ ?b)"
      using assms(1) sm(1) by (auto simp: write_at_def HostToNetwork16_0 min_def)
    also have "take s ws @ replicate m 0 @ ?b = ws"
      using assms(1) sm by (intro nth_equalityI) (auto simp: nth_append min_def)
    finally show ?thesis using p host_mem_words [of h ws] by simp
  qed
qed

lemma length_dotted: "length (dotted src) < 16"
  using length_decimal8 [of "src ! 0"] length_decimal8 [of "src ! 1"] length_decimal8 [of "src ! 2"] length_decimal8 [of "src ! 3"]
  by (simp add: dotted_def)

lemma dotted_chars: "c \<in> set (dotted src) \<Longrightarrow> isdigit_c c \<or> c = 46"
  using decimal_value by (auto simp: dotted_def)

lemma ntop_v4_filled:
  assumes "22 \<le> room" and "length acc + room \<le> n"
  shows "inet_ntop_v4 src (filled n acc) room = Stored (fst (filled n (acc @ dotted src)))"
proof -
  have "store_text (filled n acc) room (dotted src) = Some (filled n (acc @ dotted src))"
    using assms length_dotted [of src] by (intro store_text_filled) simp_all
  then show ?thesis using assms by (simp add: inet_ntop_v4_def INET_ADDRSTRLEN_def split: prod.splits)
qed

text \<open>What is printed for an address: the dotted form of its last four bytes behind a prefix, or the groups.\<close>

definition v6_dotted :: "uint16 list \<Rightarrow> bool" where
  "v6_dotted ws = (case zero_runs ws of (runpos, mx, maxpos) \<Rightarrow> runpos ! 0 = 1 \<and> (maxpos = 5 \<or> maxpos = 4 \<and> ws ! 5 = 0xFFFF))"

definition v6_printed :: "bytes \<Rightarrow> bytes" where
  "v6_printed src = (let ws = words_of src; (runpos, mx, maxpos) = zero_runs ws in
     if v6_dotted ws then [58, 58] @ (if maxpos = 4 then bytes_of_string ''ffff:'' else []) @ dotted (drop 12 src)
     else v6_text ws runpos mx 0)"

lemma ntop_v6_printed:
  assumes "length src = 16" and "65 \<le> room"
  shows "inet_ntop_v6 h src (replicate room 0) room = Stored (fst (filled room (v6_printed src)))"
proof -
  obtain runpos mx maxpos where z: "zero_runs (words_of src) = (runpos, mx, maxpos)" by (cases "zero_runs (words_of src)")
  note shorts = as_shorts_words [OF assms(1), of _ h]
  have s5: "as_shorts h src ! 5 = 0xFFFF \<longleftrightarrow> words_of src ! 5 = 0xFFFF"
    using shorts [of 5] NetworkToHost16_const(2) [of h "as_shorts h src ! 5"] by simp
  have dst: "(replicate room 0, 0) = filled room []" by (simp add: filled_def)
  show ?thesis
  proof (cases "v6_dotted (words_of src)")
    case True
    let ?f = "if maxpos = 4 then bytes_of_string ''ffff:'' else []"
    have l: "length ?f \<le> 5" by simp
    have "store (filled room []) 58 = Some (filled room [58])" "store (filled room [58]) 58 = Some (filled room [58, 58])"
      using assms(2) store_filled [of "[]" room 58] store_filled [of "[58]" room 58] by simp_all
    moreover have "(if maxpos = 4 then store_text (filled room [58, 58]) (INET6_ADDRSTRLEN - 2) (bytes_of_string ''ffff:'') else Some (filled room [58, 58]))
        = Some (filled room ([58, 58] @ ?f))"
      using assms(2) store_text_filled [of "bytes_of_string ''ffff:''" "INET6_ADDRSTRLEN - 2" "[58, 58]" room] by (simp add: INET6_ADDRSTRLEN_def)
    moreover have "snd (filled room ([58, 58] @ ?f)) = length ([58, 58] @ ?f)" by (simp only: filled_def snd_conv)
    moreover have "inet_ntop_v4 (drop 12 src) (filled room ([58, 58] @ ?f)) (INET6_ADDRSTRLEN - length ([58, 58] @ ?f)) =
        Stored (fst (filled room (([58, 58] @ ?f) @ dotted (drop 12 src))))"
      using assms(2) l by (intro ntop_v4_filled) (simp_all add: INET6_ADDRSTRLEN_def)
    ultimately show ?thesis
      using True z s5 assms(2) unfolding inet_ntop_v6_def v6_printed_def dst Let_def zero_runs_shorts [OF assms(1)]
      by (cases "maxpos = 4") (simp_all add: v6_dotted_def INET6_ADDRSTRLEN_def)
  next
    case False
    have "ntop_v6_loop h (as_shorts h src) runpos mx 0 (filled room []) = Some (filled room (v6_text (words_of src) runpos mx 0))"
      using ntop_v6_loop_text [of h "as_shorts h src" "words_of src" room "[]" 0 runpos mx] shorts assms(2) by simp
    moreover have "\<not> (runpos ! 0 = 1 \<and> (maxpos = 5 \<or> (maxpos = 4 \<and> as_shorts h src ! 5 = 0xFFFF)))" "\<not> room < INET6_ADDRSTRLEN"
      using False z s5 assms(2) by (simp_all add: v6_dotted_def INET6_ADDRSTRLEN_def)
    ultimately show ?thesis
      using False z unfolding inet_ntop_v6_def v6_printed_def dst Let_def zero_runs_shorts [OF assms(1)]
      by (simp only: prod.case if_False option.case) (simp add: filled_def)
  qed
qed

lemma strchr_set_colon: "strchr_set (bytes_of_string ''ffff:'' @ rest) [58, 58] = Some 4"
  by (simp add: bytes_of_string_def of_char_def)

lemma strchr_set_None: "(\<And>c. c \<in> set s \<Longrightarrow> c \<notin> set cs) \<Longrightarrow> strchr_set s cs = None"
  by (induction s) auto

lemma strchr_set_Some: "c \<in> set s \<Longrightarrow> strchr_set s [c] \<noteq> None"
  by (induction s) auto

lemma hexadecimal_ffff: "hexadecimal 65535 = bytes_of_string ''ffff''"
  by (simp add: hexadecimal.simps HEX_def bytes_of_string_def)

lemma pton_v6_dotted:
  assumes "length v4 = 4"
  shows "inet_pton_v6 h ([58, 58] @ dotted v4) = Parsed (replicate 12 0 @ v4)"
    and "inet_pton_v6 h ([58, 58] @ bytes_of_string ''ffff:'' @ dotted v4) = Parsed (replicate 10 0 @ [0xFF, 0xFF] @ v4)"
proof -
  have nx: "120 \<notin> set (dotted v4)" "58 \<notin> set (dotted v4)" using dotted_chars isxdigit_not by (fastforce simp: isdigit_c_def)+
  have dot: "46 \<in> set (dotted v4)" "dotted v4 \<noteq> []" by (simp_all add: dotted_def)
  have "strchr_set (dotted v4) [58, 58] = None" using nx(2) by (intro strchr_set_None) auto
  then show "inet_pton_v6 h ([58, 58] @ dotted v4) = Parsed (replicate 12 0 @ v4)"
    using nx dot strchr_set_Some [OF dot(1)] pton_v4_dotted [OF assms] by (simp add: inet_pton_v6_def mapped_v4_def)
  let ?s = "bytes_of_string ''ffff:'' @ dotted v4"
  have f: "bytes_of_string ''ffff:'' = bytes_of_string ''ffff'' @ [58]" by (simp add: bytes_of_string_def of_char_def)
  have "scan_hx ?s = Some (0xFFFF, 4)"
    using scan_hx_hexadecimal [of "58 # dotted v4" "0xFFFF"] by (simp add: hexadecimal_ffff f)
  moreover have "120 \<notin> set ?s" "46 \<in> set ?s" using nx dot by (simp_all add: bytes_of_string_def of_char_def)
  moreover have "drop 5 ?s = dotted v4" "?s \<noteq> []" using dot by simp_all
  ultimately show "inet_pton_v6 h ([58, 58] @ ?s) = Parsed (replicate 10 0 @ [0xFF, 0xFF] @ v4)"
    using strchr_set_Some [of 46 ?s] strchr_set_colon [of "dotted v4"] pton_v4_dotted [OF assms]
    by (simp add: inet_pton_v6_def mapped_v4_def Let_def)
qed

lemma concat_be16_take: "concat (map be16 (take k ws)) = take (2 * k) (concat (map be16 ws))"
  by (induction ws arbitrary: k) (auto simp: take_Cons' be16_def split: nat.splits, (case_tac k; simp)+)

lemma pton_v6_printed:
  assumes "length src = 16" and "one_gap (words_of src)"
  shows "inet_pton_v6 h (v6_printed src) = Parsed src"
proof -
  let ?ws = "words_of src"
  note w = words_of_bytes [OF assms(1)]
  obtain runpos mx maxpos where z: "zero_runs ?ws = (runpos, mx, maxpos)" by (cases "zero_runs ?ws")
  obtain s m where sh: "run_shape ?ws runpos mx maxpos s m" using run_shape_exists [OF w(2) assms(2) z] .
  show ?thesis
  proof (cases "v6_dotted ?ws")
    case True
    then have d: "runpos ! 0 = 1" "maxpos = 5 \<or> maxpos = 4 \<and> ?ws ! 5 = 0xFFFF" using z by (simp_all add: v6_dotted_def)
    have "s = 0" using d(1) sh by (cases s) (auto simp: run_shape_def)
    then have m: "int m = maxpos + 1" and zeros: "\<And>i. i < m \<Longrightarrow> ?ws ! i = 0"
      using sh d(2) by (auto simp: run_shape_def split: if_splits)
    have "take 12 src = (if maxpos = 4 then replicate 10 0 @ [0xFF, 0xFF] else replicate 12 0)"
    proof -
      have "?ws ! i = 0xFFFF" if "?ws ! 5 = 0xFFFF" "i < 6" "\<not> i < 5" for i
      proof -
        have "i = 5" using that(2,3) by linarith
        then show ?thesis using that(1) by simp
      qed
      then have "take 6 ?ws = (if maxpos = 4 then replicate 5 0 @ [0xFFFF] else replicate 6 0)"
        using m zeros d(2) w(2) by (intro nth_equalityI) (auto simp: nth_append)
      then have "take 12 src = concat (map be16 (if maxpos = 4 then replicate 5 0 @ [0xFFFF] else replicate 6 0))"
        using concat_be16_take [of 6 ?ws] w(1) by simp
      moreover have "be16 0 = [0, 0]" "be16 0xFFFF = [0xFF, 0xFF]" by code_simp+
      ultimately show ?thesis by (simp add: eval_nat_numeral)
    qed
    moreover have "length (drop 12 src) = 4" using assms(1) by simp
    note pton_v6_dotted [OF this, of h]
    ultimately show ?thesis using True z append_take_drop_id [of 12 src] by (cases "maxpos = 4") (simp_all add: v6_printed_def)
  next
    case False
    then show ?thesis using pton_v6_text [OF w(2) sh, of h] z w(1) by (simp add: v6_printed_def)
  qed
qed

text \<open>
  \<^verbatim>\<open>vzsdk::inet_ntop\<close> and \<^verbatim>\<open>vzsdk::inet_pton\<close> of \<^verbatim>\<open>nethelpers.cpp\<close> in the Windows build, with the zeroed buffer of
  \<^verbatim>\<open>IPAddress::ToString\<close>: the arguments of the theory of IP addresses.
\<close>

definition win_ntop :: "host_order \<Rightarrow> address_family \<Rightarrow> bytes \<Rightarrow> string option" where
  "win_ntop h af src =
     (case win32_inet_ntop h af (Some src) (Some (replicate INET6_ADDRSTRLEN 0)) INET6_ADDRSTRLEN of
        Stored buf \<Rightarrow> Some (string_of_bytes (cstring 0 buf)) | _ \<Rightarrow> None)"

definition win_pton :: "host_order \<Rightarrow> address_family \<Rightarrow> string \<Rightarrow> bytes option" where
  "win_pton h af str = (case win32_inet_pton h af (Some (bytes_of_string (cstr str))) of
     Some (r, addr) \<Rightarrow> if r = 0 then None else addr | None \<Rightarrow> None)"

lemma string_bytes_inverse: "bytes_of_string (string_of_bytes bs) = bs"
proof -
  have "(of_char (char_of (unat b) :: char) :: byte) = b" for b :: byte
  proof -
    have "unat b mod 256 = unat b" using unsigned_less [of b, where ?'a = nat] by simp
    then have "of_char (char_of (unat b) :: char) = unat b" by simp
    then have "(of_nat (of_char (char_of (unat b) :: char)) :: byte) = b" by simp
    then show ?thesis by (simp only: of_nat_of_char)
  qed
  then show ?thesis by (simp add: bytes_of_string_def string_of_bytes_def comp_def map_idI)
qed

lemma cstr_string_of_bytes: "0 \<notin> set bs \<Longrightarrow> bytes_of_string (cstr (string_of_bytes bs)) = bs"
proof -
  assume "0 \<notin> set bs"
  moreover have "char_of (unat b) \<noteq> (CHR 0x00)" if "b \<noteq> 0" for b :: byte
  proof
    assume "char_of (unat b) = (CHR 0x00)"
    then have "bytes_of_string (string_of_bytes [b]) = bytes_of_string (string_of_bytes [0])" by (simp add: string_of_bytes_def char_of_def)
    then show False using that by (simp add: string_bytes_inverse)
  qed
  ultimately have "cstr (string_of_bytes bs) = string_of_bytes bs"
    unfolding cstr_def string_of_bytes_def by (subst takeWhile_eq_all_conv) (auto, metis)
  then show ?thesis by (simp add: string_bytes_inverse)
qed

lemma v6_printed_chars:
  assumes "length src = 16" and "one_gap (words_of src)"
  shows "0 \<notin> set (v6_printed src)" and "58 \<in> set (v6_printed src)"
proof -
  let ?ws = "words_of src"
  note w = words_of_bytes [OF assms(1)]
  obtain runpos mx maxpos where z: "zero_runs ?ws = (runpos, mx, maxpos)" by (cases "zero_runs ?ws")
  obtain s m where sh: "run_shape ?ws runpos mx maxpos s m" using run_shape_exists [OF w(2) assms(2) z] .
  have t: "v6_text ?ws runpos mx 0 = (if m = 0 then groups ?ws else groups (take s ?ws) @ [58, 58] @ groups (drop (s + m) ?ws))"
    by (rule v6_text_shape [OF w(2) sh])
  have "\<not> isxdigit 0" "\<not> isdigit_c 0" by (simp_all add: isxdigit_def isdigit_c_def)
  then have "0 \<notin> set (groups gs)" "0 \<notin> set (dotted v)" for gs v using groups_chars dotted_chars by fastforce+
  moreover have "0 \<notin> set (bytes_of_string ''ffff:'')" by (simp add: bytes_of_string_def)
  ultimately show "0 \<notin> set (v6_printed src)" using z t unfolding v6_printed_def Let_def by simp
  obtain a b us where "?ws = a # b # us" using w(2) by (auto simp: eval_nat_numeral length_Suc_conv)
  then have "58 \<in> set (groups ?ws)" by simp
  then show "58 \<in> set (v6_printed src)" using z t unfolding v6_printed_def Let_def by simp
qed

lemma win_v4_text:
  assumes "length v4 = 4"
  shows "IPAddress_ToString (win_ntop h) (IPAddress_in v4) = string_of_bytes (dotted v4)"
    and "IPFromString (win_pton h AF_INET) (win_pton h AF_INET6) (string_of_bytes (dotted v4)) = (True, IPAddress_in v4)"
    and "win_pton h AF_INET (string_of_bytes (dotted v4)) = Some v4"
proof -
  have "\<not> isdigit_c 0" by (simp add: isdigit_c_def)
  then have "0 \<notin> set (dotted v4)" using dotted_chars by fastforce
  then have "win_ntop h AF_INET v4 = Some (string_of_bytes (dotted v4))" "win_pton h AF_INET (string_of_bytes (dotted v4)) = Some v4"
    using ntop_v4_filled [of 65 "[]" 65 v4] cstring_filled [of "dotted v4" 65] pton_v4_dotted [OF assms(1)]
    by (simp_all add: win_ntop_def win_pton_def win32_inet_ntop_def win32_inet_pton_def INET6_ADDRSTRLEN_def cstr_string_of_bytes)
      (simp add: filled_def)
  then show "IPAddress_ToString (win_ntop h) (IPAddress_in v4) = string_of_bytes (dotted v4)"
    "IPFromString (win_pton h AF_INET) (win_pton h AF_INET6) (string_of_bytes (dotted v4)) = (True, IPAddress_in v4)"
    "win_pton h AF_INET (string_of_bytes (dotted v4)) = Some v4"
    using assms(1) by (simp_all add: IPAddress_ToString_def IPAddress_in_def ip4_def write_at_def IPFromString_def)
qed

lemma win_v6_text:
  assumes "length v6 = 16" and "one_gap (words_of v6)"
  shows "IPFromString (win_pton h AF_INET) (win_pton h AF_INET6) (IPAddress_ToString (win_ntop h) (IPAddress_in6 v6)) = (True, IPAddress_in6 v6)"
proof -
  note c = v6_printed_chars [OF assms]
  have "inet_pton_v4 (v6_printed v6) = None"
    using c(2) pton_v4_chars [of "v6_printed v6" "[]"] by (cases "inet_pton_v4 (v6_printed v6)") (auto simp: inet_pton_v4_def)
  then have "win_pton h AF_INET (string_of_bytes (v6_printed v6)) = None"
    "win_pton h AF_INET6 (string_of_bytes (v6_printed v6)) = Some v6"
    using pton_v6_printed [OF assms, of h] c(1) by (simp_all add: win_pton_def win32_inet_pton_def cstr_string_of_bytes)
  moreover have "win_ntop h AF_INET6 v6 = Some (string_of_bytes (v6_printed v6))"
    using ntop_v6_printed [OF assms(1), of 65 h] cstring_filled [OF c(1), of 65]
    by (simp add: win_ntop_def win32_inet_ntop_def INET6_ADDRSTRLEN_def)
  ultimately show ?thesis
    using assms(1) by (simp add: IPAddress_ToString_def IPAddress_in6_def IPFromString_def)
qed

text \<open>
  C37 (roundtrip).  In the Windows build the text of an IP address is read back as the same address: for every IPv4 address, and for
  every IPv6 address that has two zero groups in a row or at most one zero group, whichever way it is printed
  (groups, a compressed run at the start, inside or at the end, or with the dotted form of IPv4).
\<close>

theorem win32_address_roundtrip:
  assumes "length v4 = 4" and "length v6 = 16" and "one_gap (words_of v6)"
  shows "IPFromString (win_pton h AF_INET) (win_pton h AF_INET6) (IPAddress_ToString (win_ntop h) (IPAddress_in v4)) = (True, IPAddress_in v4) \<and>
    IPFromString (win_pton h AF_INET) (win_pton h AF_INET6) (IPAddress_ToString (win_ntop h) (IPAddress_in6 v6)) = (True, IPAddress_in6 v6)"
  using win_v4_text [OF assms(1), of h] win_v6_text [OF assms(2,3), of h] by simp

theorem win32_address_roundtrip_witness:
  "IPFromString (win_pton HostLittle AF_INET) (win_pton HostLittle AF_INET6)
     (IPAddress_ToString (win_ntop HostLittle) (IPAddress_in6 ([0x20, 1] @ replicate 13 0 @ [1]))) = (True, IPAddress_in6 ([0x20, 1] @ replicate 13 0 @ [1]))"
proof -
  have "one_gap (words_of ([0x20, 1] @ replicate 13 0 @ [1]))" by code_simp
  then show ?thesis using win32_address_roundtrip [of "[10, 0, 0, 1]" "[0x20, 1] @ replicate 13 0 @ [1]" HostLittle] by simp
qed

section \<open>Texts that go wrong\<close>

lemma groups_no_dot:
  "120 \<notin> set (groups gs)" "46 \<notin> set (groups gs)"
  using groups_chars [of _ gs] isxdigit_not by fastforce+

text \<open>
  C40 (error).  \<^verbatim>\<open>inet_pton_v6\<close> writes outside of the address on its stack: the position behind a \<^verbatim>\<open>::\<close> is the end of the address minus the
  number of groups that follow, so nine or more groups, all of them well formed, put the pointer in front of the
  address and the first group is stored there.
\<close>

theorem pton_v6_corrupts_stack:
  assumes "9 \<le> length gs"
  shows "inet_pton_v6 h ([58, 58] @ groups gs) = Corrupted"
proof -
  obtain w v ws where gs: "gs = w # v # ws" using assms by (cases gs rule: groups.cases) auto
  have "strchr_set (groups gs) [46] = None" using groups_no_dot by (intro strchr_set_None) auto
  then have "inet_pton_v6 h ([58, 58] @ groups gs) = pton_v6_loop h (58 # 58 # groups gs) (replicate 8 0) 0 False"
    using groups_no_dot by (simp add: inet_pton_v6_def)
  also have "\<dots> = pton_v6_loop h (groups gs) (replicate 8 0) (8 - int (length gs)) True"
    using groups_hd [of gs] arg_cong [OF count_colons_groups [of gs], of int] gs
    by (subst pton_v6_loop.simps) (simp add: Let_def algebra_simps)
  also have "\<dots> = Corrupted"
    using assms hexadecimal_hd(2,3) [of "unat w" "58 # groups (v # ws)"] unfolding gs
    by (subst pton_v6_loop.simps) (simp add: scan_hx_hexadecimal)
  finally show ?thesis .
qed

theorem pton_v6_corrupts_stack_witness:
  "inet_pton_v6 HostLittle ([58, 58] @ groups [1, 1, 1, 1, 1, 1, 1, 1, 1]) = Corrupted"
  using pton_v6_corrupts_stack [of "[1, 1, 1, 1, 1, 1, 1, 1, 1]" HostLittle] by simp

text \<open>
  An address with two zero groups that do not touch is printed with two \<^verbatim>\<open>::\<close>, because the loop that keeps only the longest run
  is skipped when that run has one group; the parser refuses the text.
\<close>

theorem isolated_zeros_not_readable:
  assumes "a \<noteq> 0" "b \<noteq> 0" "c \<noteq> 0" "d \<noteq> 0" "e \<noteq> 0" "f \<noteq> 0" and "words_of src = [a, 0, b, 0, c, d, e, f]"
  shows "v6_printed src = hexadecimal (unat a) @ [58, 58] @ hexadecimal (unat b) @ [58, 58] @ groups [c, d, e, f]"
    and "inet_pton_v6 h (v6_printed src) = Failed"
proof -
  have z: "zero_runs (words_of src) = ([- 1, 1, - 1, 1, - 1, - 1, - 1, - 1], 1, - 1)"
    using assms by (simp add: zero_runs_def)
  show p: "v6_printed src = hexadecimal (unat a) @ [58, 58] @ hexadecimal (unat b) @ [58, 58] @ groups [c, d, e, f]"
    using z unfolding v6_printed_def v6_dotted_def Let_def by (simp add: v6_text.simps assms(7))
  let ?r = "58 # 58 # groups [c, d, e, f]"
  let ?s = "hexadecimal (unat a) @ 58 # 58 # hexadecimal (unat b) @ ?r"
  have n: "x \<notin> set ?s" if "\<not> isxdigit x" "x \<noteq> 58" for x
    using that hexadecimal_value groups_chars [of x "[c, d, e, f]"] by auto
  have nx: "120 \<notin> set ?s" "46 \<notin> set ?s" by (rule n; simp add: isxdigit_not)+
  then have nn: "120 \<notin> set ?s" "46 \<notin> set (drop 2 ?s)" by (blast dest: in_set_dropD)+
  then have "strchr_set (drop 2 ?s) [46] = None" by (intro strchr_set_None) auto
  then have "inet_pton_v6 h (v6_printed src) = pton_v6_loop h ?s (replicate 8 0) 0 False"
    using nn(1) unfolding p inet_pton_v6_def by simp
  also have "\<dots> = pton_v6_loop h (58 # 58 # hexadecimal (unat b) @ ?r) ((replicate 8 0)[0 := HostToNetwork16 h a]) 1 False"
    by (simp add: pton_v6_group)
  also have "\<dots> = pton_v6_loop h (hexadecimal (unat b) @ ?r) ((replicate 8 0)[0 := HostToNetwork16 h a]) 2 True"
    using hexadecimal_hd(2) [of "unat b" ?r]
    by (subst pton_v6_loop.simps) (simp add: Let_def count_colons_hexadecimal)
  also have "\<dots> = Failed"
    using hexadecimal_hd(2) [of "unat b" ?r] by (simp add: pton_v6_group) (subst pton_v6_loop.simps, simp)
  finally show "inet_pton_v6 h (v6_printed src) = Failed" .
qed

text \<open>A dot behind the last number is accepted, and anything between \<^verbatim>\<open>::ffff\<close> and the next colon is skipped.\<close>

theorem pton_accepts_junk:
  assumes "length v4 = 4"
  shows "inet_pton_v4 (dotted v4 @ [46]) = Some v4"
    and "inet_pton_v6 HostLittle (bytes_of_string ''::ffff-junk:1.2.3.4'') = Parsed (replicate 10 0 @ [0xFF, 0xFF, 1, 2, 3, 4])"
proof -
  obtain a b c d where s: "v4 = [a, b, c, d]" using assms by (auto simp: eval_nat_numeral length_Suc_conv)
  have "inet_pton_v4 (dotted v4 @ [46]) = pton_v4_loop (decimal (unat d) @ [46]) [a, b, c]"
    unfolding inet_pton_v4_def dotted_def s by (simp add: pton_v4_step)
  then show "inet_pton_v4 (dotted v4 @ [46]) = Some v4"
    using pton_v4_step [of "[a, b, c]" "[46]" d] by (simp add: s pton_v4_loop.simps [of "[]"])
qed code_simp

section \<open>File times\<close>

text \<open>
  A \<^verbatim>\<open>FILETIME\<close> as the 64-bit number of its two halves, in units of 100 ns since 1601; \<open>base_ft\<close> is the file time that
  \<^verbatim>\<open>SystemTimeToFileTime\<close> gives for 1 January 1970.
\<close>

definition FileTimeToUnixTime :: "uint64 \<Rightarrow> uint64 \<Rightarrow> uint64" where
  "FileTimeToUnixTime base_ft ft = (ft - base_ft) div 10000000"

definition UnixTimeToFileTime :: "uint64 \<Rightarrow> uint64 \<Rightarrow> uint64" where
  "UnixTimeToFileTime base_ft ut = base_ft + ut * 10000000"

definition ToUInt64 :: "uint32 \<Rightarrow> uint32 \<Rightarrow> uint64" where
  "ToUInt64 dwLowDateTime dwHighDateTime = push_bit 32 (ucast dwHighDateTime) OR ucast dwLowDateTime"

text \<open>Every time whose number of units fits into 64 bits is converted back to itself; the file time itself may wrap.\<close>

theorem filetime_roundtrip:
  assumes "unat ut * 10000000 < 2 ^ 64"
  shows "FileTimeToUnixTime base_ft (UnixTimeToFileTime base_ft ut) = ut"
proof -
  have "unat (ut * 10000000) = unat ut * 10000000" using assms unat_mult_lem [of ut 10000000] by simp
  then have "unat (ut * 10000000 div 10000000) = unat ut" by (simp add: unat_div)
  then show ?thesis unfolding word_unat_eq_iff by (simp add: FileTimeToUnixTime_def UnixTimeToFileTime_def)
qed

end
