(* ===== verification/Vz_Sockaddr.thy ===== *)
theory Vz_Sockaddr
  imports Vz_Socketaddress Vz_Win32inet "HOL-Library.Product_Lexorder"
begin

unbundle bit_operations_syntax

text \<open>
  The rest of \<^verbatim>\<open>src/src/base/socketaddress.cpp\<close>: the conversions of a \<open>SocketAddress\<close> to the structures of the socket calls and
  back, its text form, its hash and the static helpers.  A \<^verbatim>\<open>sockaddr_storage\<close> is viewed as the structure that its family selects.
  The locale \<open>address_text\<close> is what the text form needs of \<^verbatim>\<open>inet_ntop\<close> and \<^verbatim>\<open>inet_pton\<close>; it is interpreted on the functions
  of the Windows build.
\<close>

section \<open>Socket structures\<close>

record sockaddr_in =
  sin_family :: address_family
  sin_port :: uint16
  sin_addr :: bytes

record sockaddr_in6 =
  sin6_addr :: bytes
  sin6_port :: uint16
  sin6_scope_id :: int32

datatype sockaddr_storage = SS_unspec | SS_in sockaddr_in | SS_in6 sockaddr_in6

definition ToSockAddr :: "host_order \<Rightarrow> SocketAddress \<Rightarrow> sockaddr_in" where
  "ToSockAddr h a =
     (if family (sa_ip a) \<noteq> AF_INET then \<lparr>sin_family = AF_UNSPEC, sin_port = 0, sin_addr = replicate 4 0\<rparr>
      else \<lparr>sin_family = AF_INET, sin_port = HostToNetwork16 h (sa_port a),
            sin_addr = (if IPIsAny h (sa_ip a) then host_mem32 h INADDR_ANY else ip4 (sa_ip a))\<rparr>)"

definition FromSockAddr :: "host_order \<Rightarrow> sockaddr_in \<Rightarrow> SocketAddress \<Rightarrow> bool \<times> SocketAddress" where
  "FromSockAddr h saddr a =
     (if sin_family saddr \<noteq> AF_INET then (False, a)
      else (True, (SetPort (uint (NetworkToHost16 h (sin_port saddr)))
              (SetIP_host_order h (NetworkToHost32 h (host_val32 h (sin_addr saddr))) a))\<lparr>literal := False\<rparr>))"

text \<open>The result is the structure and its size, 0 for a family that is neither of the two.\<close>

definition ToSockAddrStorageHelper :: "host_order \<Rightarrow> IPAddress \<Rightarrow> uint16 \<Rightarrow> int32 \<Rightarrow> sockaddr_storage \<times> nat" where
  "ToSockAddrStorageHelper h ip port scope = (case family ip of
     AF_INET6 \<Rightarrow> (SS_in6 \<lparr>sin6_addr = take 16 (ip_u ip), sin6_port = HostToNetwork16 h port, sin6_scope_id = scope\<rparr>, 28)
   | AF_INET \<Rightarrow> (SS_in \<lparr>sin_family = AF_INET, sin_port = HostToNetwork16 h port, sin_addr = ip4 ip\<rparr>, 16)
   | AF_UNSPEC \<Rightarrow> (SS_unspec, 0))"

definition ToDualStackSockAddrStorage :: "host_order \<Rightarrow> SocketAddress \<Rightarrow> sockaddr_storage \<times> nat" where
  "ToDualStackSockAddrStorage h a = ToSockAddrStorageHelper h (AsIPv6Address (sa_ip a)) (sa_port a) (scope_id a)"

definition ToSockAddrStorage :: "host_order \<Rightarrow> SocketAddress \<Rightarrow> sockaddr_storage \<times> nat" where
  "ToSockAddrStorage h a = ToSockAddrStorageHelper h (sa_ip a) (sa_port a) (scope_id a)"

definition SocketAddressFromSockAddrStorage :: "host_order \<Rightarrow> sockaddr_storage \<Rightarrow> SocketAddress option" where
  "SocketAddressFromSockAddrStorage h addr = (case addr of
     SS_in s \<Rightarrow> Some (SocketAddress_ip (IPAddress_in (sin_addr s)) (uint (NetworkToHost16 h (sin_port s))))
   | SS_in6 s \<Rightarrow> Some (SetScopeID (sin6_scope_id s)
        (SocketAddress_ip (IPAddress_in6 (sin6_addr s)) (uint (NetworkToHost16 h (sin6_port s)))))
   | SS_unspec \<Rightarrow> None)"

definition EmptySocketAddressWithFamily :: "host_order \<Rightarrow> address_family \<Rightarrow> SocketAddress" where
  "EmptySocketAddressWithFamily h fam = (case fam of
     AF_INET \<Rightarrow> SocketAddress_ip (IPAddress_host h INADDR_ANY) 0
   | AF_INET6 \<Rightarrow> SocketAddress_ip (IPAddress_in6 in6addr_any) 0
   | AF_UNSPEC \<Rightarrow> SocketAddress_nil)"

text \<open>The port is promoted to \<^verbatim>\<open>int\<close> before it is shifted, and the result is widened to \<^verbatim>\<open>size_t\<close> with its sign.\<close>

definition Hash :: "host_order \<Rightarrow> SocketAddress \<Rightarrow> uint64" where
  "Hash h a = (let p = (ucast (sa_port a) :: int32) in ucast (HashIP h (sa_ip a)) XOR scast (p OR push_bit 16 p))"

section \<open>Texts\<close>

definition HostAsURIString :: "(address_family \<Rightarrow> bytes \<Rightarrow> string option) \<Rightarrow> SocketAddress \<Rightarrow> string" where
  "HostAsURIString ntop a =
     (if \<not> literal a \<and> hostname a \<noteq> [] then hostname a
      else if family (sa_ip a) = AF_INET6 then ''['' @ IPAddress_ToString ntop (sa_ip a) @ '']''
      else IPAddress_ToString ntop (sa_ip a))"

definition PortAsString :: "SocketAddress \<Rightarrow> string" where
  "PortAsString a = string_of_bytes (decimal (unat (sa_port a)))"

definition SocketAddress_ToString :: "(address_family \<Rightarrow> bytes \<Rightarrow> string option) \<Rightarrow> SocketAddress \<Rightarrow> string" where
  "SocketAddress_ToString ntop a = HostAsURIString ntop a @ '':'' @ PortAsString a"

definition str_find :: "char \<Rightarrow> nat \<Rightarrow> string \<Rightarrow> nat option" where
  "str_find c pos s = find (\<lambda>i. s ! i = c) [pos..<length s]"

definition str_rfind :: "char \<Rightarrow> string \<Rightarrow> nat option" where
  "str_rfind c s = find (\<lambda>i. s ! i = c) (rev [0..<length s])"

text \<open>\<^verbatim>\<open>strtoul(s, NULL, 10)\<close>: white space, a sign, digits; the largest number when there are too many of them.\<close>

definition strtoul10 :: "bytes \<Rightarrow> uint64" where
  "strtoul10 s =
     (let s1 = dropWhile isspace_c s;
          neg = (s1 \<noteq> [] \<and> hd s1 = 45);
          s2 = (if s1 \<noteq> [] \<and> (hd s1 = 45 \<or> hd s1 = 43) then tl s1 else s1);
          v = number_value 10 (\<lambda>c. uint c - 48) (takeWhile isdigit_c s2)
      in if v > 2 ^ 64 - 1 then - 1 else if neg then - word_of_int v else word_of_int v)"

text \<open>\<^verbatim>\<open>SetPort(strtoul(...))\<close>: the number is cut to an \<^verbatim>\<open>int\<close> for the call.\<close>

definition SetPort_text :: "string \<Rightarrow> SocketAddress \<Rightarrow> SocketAddress" where
  "SetPort_text s a = SetPort (sint (ucast (strtoul10 (bytes_of_string (cstr s))) :: int32)) a"

text \<open>\<^verbatim>\<open>str.at(0)\<close> throws for the empty text: \<open>None\<close>.  A text with an opening but no closing bracket is answered with true and nothing is set.\<close>

definition FromString ::
  "(string \<Rightarrow> bytes option) \<Rightarrow> (string \<Rightarrow> bytes option) \<Rightarrow> string \<Rightarrow> SocketAddress \<Rightarrow> (bool \<times> SocketAddress) option" where
  "FromString pton4 pton6 str a =
     (if str = [] then None
      else if str ! 0 = CHR ''['' then
        (case str_rfind (CHR '']'') str of None \<Rightarrow> Some (True, a)
         | Some closebracket \<Rightarrow> (case str_find (CHR '':'') closebracket str of None \<Rightarrow> Some (False, a)
            | Some colon \<Rightarrow>
                if colon > closebracket then
                  Some (True, SetIP_string pton4 pton6 (take (closebracket - 1) (drop 1 str)) (SetPort_text (drop (colon + 1) str) a))
                else Some (False, a)))
      else (case str_find (CHR '':'') 0 str of None \<Rightarrow> Some (False, a)
         | Some pos \<Rightarrow> Some (True, SetIP_string pton4 pton6 (take pos str) (SetPort_text (drop (pos + 1) str) a))))"

definition IPToString :: "uint32 \<Rightarrow> string" where
  "IPToString ip = string_of_bytes
     (decimal (unat (drop_bit 24 ip AND 0xff)) @ [46] @ decimal (unat (drop_bit 16 ip AND 0xff)) @ [46] @
      decimal (unat (drop_bit 8 ip AND 0xff)) @ [46] @ decimal (unat (drop_bit 0 ip AND 0xff)))"

definition StringToIP :: "host_order \<Rightarrow> (string \<Rightarrow> bytes option) \<Rightarrow> string \<Rightarrow> uint32 option" where
  "StringToIP h pton4 name = map_option (\<lambda>addr. NetworkToHost32 h (host_val32 h addr)) (pton4 name)"

definition StringToIP_value :: "host_order \<Rightarrow> (string \<Rightarrow> bytes option) \<Rightarrow> string \<Rightarrow> uint32" where
  "StringToIP_value h pton4 name = (case StringToIP h pton4 name of None \<Rightarrow> 0 | Some ip \<Rightarrow> ip)"

definition StringToIP_any :: "(string \<Rightarrow> bytes option) \<Rightarrow> (string \<Rightarrow> bytes option) \<Rightarrow> string \<Rightarrow> IPAddress option" where
  "StringToIP_any pton4 pton6 name = (case pton4 name of Some addr4 \<Rightarrow> Some (IPAddress_in addr4)
     | None \<Rightarrow> map_option IPAddress_in6 (pton6 name))"

section \<open>Conversion to socket structures\<close>

text \<open>The addresses that the constructors make: sixteen bytes, of which an IPv4 address uses four.\<close>

definition ip_wf :: "IPAddress \<Rightarrow> bool" where
  "ip_wf ip \<longleftrightarrow> length (ip_u ip) = 16 \<and> (family ip = AF_INET \<longrightarrow> drop 4 (ip_u ip) = replicate 12 0) \<and>
     (family ip = AF_UNSPEC \<longrightarrow> ip_u ip = replicate 16 0)"

lemma length_ip4 [simp]: "ip_wf ip \<Longrightarrow> length (ip4 ip) = 4"
  by (simp add: ip_wf_def ip4_def)

lemma IPAddress_in_ip4: "ip_wf ip \<Longrightarrow> family ip = AF_INET \<Longrightarrow> IPAddress_in (ip4 ip) = ip"
  using append_take_drop_id [of 4 "ip_u ip"] by (cases ip) (simp add: ip_wf_def IPAddress_in_def ip4_def write_at_def)

lemma IPAddress_in6_take: "ip_wf ip \<Longrightarrow> family ip = AF_INET6 \<Longrightarrow> IPAddress_in6 (take 16 (ip_u ip)) = ip"
  by (cases ip) (simp add: ip_wf_def IPAddress_in6_def)

lemma ip_wf_in: "length bs = 4 \<Longrightarrow> ip_wf (IPAddress_in bs)"
  by (simp add: ip_wf_def IPAddress_in_def write_at_def)

lemma ip_wf_in6: "length bs = 16 \<Longrightarrow> ip_wf (IPAddress_in6 bs)"
  by (simp add: ip_wf_def IPAddress_in6_def)

lemma NetworkToHost_HostToNetwork: "NetworkToHost16 h (HostToNetwork16 h v) = v" "NetworkToHost32 h (HostToNetwork32 h w) = w"
  by (simp_all add: NetworkToHost16_def NetworkToHost32_def)

lemma be32_NetworkToHost32: "length m = 4 \<Longrightarrow> be32 (NetworkToHost32 h (host_val32 h m)) = m"
  by (simp add: NetworkToHost32_def host_mem_val32 be32_GetBE32)

lemma host_mem32_0: "host_mem32 h 0 = be32 0"
  by (cases h) (simp_all add: be32_def shr_byte_def)

lemma Normalized_AsIPv6Address:
  assumes "ip_wf ip" and "family ip = AF_INET"
  shows "Normalized (AsIPv6Address ip) = ip"
proof -
  have p: "kV4MappedPrefix = replicate 10 0 @ [0xFF, 0xFF, 0, 0, 0, 0]" by (simp add: kV4MappedPrefix_def in6_prefix_def write_at_def eval_nat_numeral)
  have "AsIPv6Address ip = IPAddress_in6 (replicate 10 0 @ [0xFF, 0xFF] @ ip4 ip)"
    using assms by (simp add: AsIPv6Address_def p write_at_def eval_nat_numeral)
  then show ?thesis using assms IPAddress_in_ip4 [OF assms]
    by (simp add: Normalized_def IPIsV4Mapped_def IPIsHelper_def p ExtractMappedAddress_def read_at_def IPAddress_in6_def)
qed

text \<open>
  An address written to a \<^verbatim>\<open>sockaddr_storage\<close> is read back with its IP address, port and, for IPv6, scope, its host name is
  lost; through the dual stack form an IPv4 address comes back as the IPv6 address whose normal form it is; through
  \<^verbatim>\<open>sockaddr_in\<close> every IPv4 address comes back, also the any address.
\<close>

theorem sockaddr_roundtrip:
  assumes "ip_wf (sa_ip a)" and "family (sa_ip a) \<noteq> AF_UNSPEC"
  shows "SocketAddressFromSockAddrStorage h (fst (ToSockAddrStorage h a)) =
      Some (SetScopeID (if family (sa_ip a) = AF_INET6 then scope_id a else 0) (SocketAddress_ip (sa_ip a) (uint (sa_port a)))) \<and>
    (\<exists>b. SocketAddressFromSockAddrStorage h (fst (ToDualStackSockAddrStorage h a)) = Some b \<and>
      Normalized (sa_ip b) = Normalized (sa_ip a) \<and> family (sa_ip b) = AF_INET6 \<and> sa_port b = sa_port a \<and> scope_id b = scope_id a) \<and>
    (if family (sa_ip a) = AF_INET then
       FromSockAddr h (ToSockAddr h a) c = (True, c\<lparr>hostname := [], literal := False, sa_ip := sa_ip a, scope_id := 0, sa_port := sa_port a\<rparr>)
     else FromSockAddr h (ToSockAddr h a) c = (False, c))"
proof (intro conjI)
  show "SocketAddressFromSockAddrStorage h (fst (ToSockAddrStorage h a)) =
      Some (SetScopeID (if family (sa_ip a) = AF_INET6 then scope_id a else 0) (SocketAddress_ip (sa_ip a) (uint (sa_port a))))"
    using assms IPAddress_in_ip4 [OF assms(1)] IPAddress_in6_take [OF assms(1)]
    by (cases "family (sa_ip a)") (simp_all add: ToSockAddrStorage_def ToSockAddrStorageHelper_def SocketAddressFromSockAddrStorage_def
        NetworkToHost_HostToNetwork SetScopeID_def SocketAddress_ip_def SetPort_def SetIP_def SocketAddress_nil_def)
next
  let ?ip6 = "AsIPv6Address (sa_ip a)"
  have f: "family ?ip6 = AF_INET6" "length (ip_u ?ip6) = 16"
    using assms by (cases "family (sa_ip a)"; simp add: AsIPv6Address_def IPAddress_in6_def kV4MappedPrefix_def in6_prefix_def write_at_def ip_wf_def ip4_def)+
  then have "IPAddress_in6 (take 16 (ip_u ?ip6)) = ?ip6" by (simp add: IPAddress_in6_def)
  moreover have "Normalized ?ip6 = Normalized (sa_ip a)"
    using Normalized_AsIPv6Address [OF assms(1)] by (cases "family (sa_ip a)") (simp_all add: AsIPv6Address_def Normalized_def)
  ultimately show "\<exists>b. SocketAddressFromSockAddrStorage h (fst (ToDualStackSockAddrStorage h a)) = Some b \<and>
      Normalized (sa_ip b) = Normalized (sa_ip a) \<and> family (sa_ip b) = AF_INET6 \<and> sa_port b = sa_port a \<and> scope_id b = scope_id a"
    using f by (simp add: ToDualStackSockAddrStorage_def ToSockAddrStorageHelper_def SocketAddressFromSockAddrStorage_def
        NetworkToHost_HostToNetwork SetScopeID_def SocketAddress_ip_def SetPort_def SetIP_def)
next
  have "sin_addr (ToSockAddr h a) = ip4 (sa_ip a)" if "family (sa_ip a) = AF_INET"
    using that by (auto simp: ToSockAddr_def IPIsAny_def IPAddress_eq_def IPAddress_host_def ip4_def write_at_def INADDR_ANY_def host_mem32_0)
  moreover have "IPAddress_host h (NetworkToHost32 h (host_val32 h (ip4 (sa_ip a)))) = sa_ip a" if "family (sa_ip a) = AF_INET"
    using that assms(1) IPAddress_in_ip4 [OF assms(1) that]
    by (simp add: IPAddress_host_def be32_NetworkToHost32 IPAddress_in_def)
  ultimately show "if family (sa_ip a) = AF_INET then
       FromSockAddr h (ToSockAddr h a) c = (True, c\<lparr>hostname := [], literal := False, sa_ip := sa_ip a, scope_id := 0, sa_port := sa_port a\<rparr>)
     else FromSockAddr h (ToSockAddr h a) c = (False, c)"
    by (cases "family (sa_ip a) = AF_INET")
      (simp_all add: FromSockAddr_def SetPort_def SetIP_host_order_def ToSockAddr_def NetworkToHost_HostToNetwork)
qed

theorem sockaddr_roundtrip_witness:
  "SocketAddressFromSockAddrStorage HostLittle (fst (ToSockAddrStorage HostLittle (SocketAddress_ip (IPAddress_in [192, 168, 1, 100]) 8131))) =
     Some (SocketAddress_ip (IPAddress_in [192, 168, 1, 100]) 8131)"
proof -
  let ?a = "SocketAddress_ip (IPAddress_in [192, 168, 1, 100]) 8131"
  have "ip_wf (sa_ip ?a)" "family (sa_ip ?a) = AF_INET" "sa_port ?a = 8131"
    by (simp_all add: SocketAddress_ip_def SetPort_def SetIP_def ip_wf_in) (simp add: IPAddress_in_def)
  then show ?thesis using sockaddr_roundtrip [of ?a HostLittle undefined]
    by (simp add: SetScopeID_def SocketAddress_ip_def SetPort_def SetIP_def SocketAddress_nil_def)
qed

section \<open>The order of addresses\<close>

text \<open>What the comparisons look at, in the order of their importance.\<close>

definition family_rank :: "address_family \<Rightarrow> nat" where
  "family_rank f = (case f of AF_UNSPEC \<Rightarrow> 0 | AF_INET \<Rightarrow> 1 | AF_INET6 \<Rightarrow> 2)"

definition ip_key :: "host_order \<Rightarrow> IPAddress \<Rightarrow> nat \<times> uint32 \<times> bytes" where
  "ip_key h ip = (family_rank (family ip), if family ip = AF_INET then NetworkToHost32 h (s_addr h ip) else 0,
     if family ip = AF_INET6 then take 16 (ip_u ip) else [])"

definition address_key :: "host_order \<Rightarrow> SocketAddress \<Rightarrow> (nat \<times> uint32 \<times> bytes) \<times> string \<times> uint16" where
  "address_key h a = (ip_key h (sa_ip a), if IPIsAny h (sa_ip a) then hostname a else [], sa_port a)"

lemma memcmp_less_lexicographic: "length xs = length ys \<Longrightarrow> memcmp_less xs ys \<longleftrightarrow> xs < ys"
  by (induction xs ys rule: memcmp_less.induct) auto

lemma family_rank_simps [simp]:
  "family_rank AF_UNSPEC = 0" "family_rank AF_INET = 1" "family_rank AF_INET6 = 2"
  by (simp_all add: family_rank_def)

lemma IPAddress_less_key:
  assumes "ip_wf ip" and "ip_wf ip'"
  shows "IPAddress_less h ip ip' \<longleftrightarrow> ip_key h ip < ip_key h ip'"
  using assms memcmp_less_lexicographic [of "take 16 (ip_u ip)" "take 16 (ip_u ip')"]
  by (cases "family ip"; cases "family ip'") (auto simp: IPAddress_less_def ip_key_def ip_wf_def less_prod_def)

lemma IPAddress_eq_key:
  assumes "ip_wf ip" and "ip_wf ip'"
  shows "IPAddress_eq ip ip' \<longleftrightarrow> ip_key h ip = ip_key h ip'"
proof -
  have "NetworkToHost32 h (s_addr h ip) = NetworkToHost32 h (s_addr h ip') \<longleftrightarrow> ip4 ip = ip4 ip'"
    using be32_NetworkToHost32 [of "ip4 ip" h] be32_NetworkToHost32 [of "ip4 ip'" h] assms unfolding s_addr_def by (metis length_ip4)
  then show ?thesis by (cases "family ip"; cases "family ip'") (auto simp: IPAddress_eq_def ip_key_def)
qed

lemma IPIsAny_key:
  assumes "ip_wf ip" and "ip_wf ip'" and "ip_key h ip = ip_key h ip'"
  shows "IPIsAny h ip = IPIsAny h ip'"
proof -
  have "IPAddress_eq ip ip'" using assms IPAddress_eq_key by blast
  then show ?thesis by (auto simp: IPIsAny_def IPAddress_eq_def split: if_splits address_family.splits)
qed

text \<open>
  The comparisons of socket addresses are a total order up to the equality of the class: \<^verbatim>\<open>operator<\<close> is the lexicographic
  order of family, IP address, host name when the IP address is the any address, and port; \<^verbatim>\<open>operator==\<close> is
  equality of the same parts, and equal addresses have the same hash.
\<close>

theorem socket_address_order:
  assumes "ip_wf (sa_ip a)" and "ip_wf (sa_ip b)"
  shows "(SocketAddress_less h a b \<longleftrightarrow> address_key h a < address_key h b) \<and>
    (SocketAddress_eq h a b \<longleftrightarrow> address_key h a = address_key h b) \<and> (SocketAddress_eq h a b \<longrightarrow> Hash h a = Hash h b)"
proof (intro conjI impI)
  note l = IPAddress_less_key [OF assms, of h] IPAddress_less_key [OF assms(2,1), of h] and e = IPAddress_eq_key [OF assms, of h]
    and i = IPIsAny_key [OF assms, of h]
  show "SocketAddress_less h a b \<longleftrightarrow> address_key h a < address_key h b"
  proof (cases "ip_key h (sa_ip a) = ip_key h (sa_ip b)")
    case True
    then show ?thesis using l i by (auto simp: SocketAddress_less_def address_key_def IsAnyIP_def less_prod_def)
  next
    case False
    then show ?thesis using l by (auto simp: SocketAddress_less_def address_key_def less_prod_def [of "(_, _, _)"] split: prod.splits)
  qed
  show eq: "SocketAddress_eq h a b \<longleftrightarrow> address_key h a = address_key h b"
    using e i by (auto simp: SocketAddress_eq_def EqualIPs_def EqualPorts_def address_key_def)
  assume "SocketAddress_eq h a b"
  then have "IPAddress_eq (sa_ip a) (sa_ip b)" "sa_port a = sa_port b" by (simp_all add: SocketAddress_eq_def EqualIPs_def EqualPorts_def)
  then show "Hash h a = Hash h b" using assms
    by (cases "family (sa_ip a)") (auto simp: Hash_def HashIP_def IPAddress_eq_def s_addr_def ip_wf_def split: if_splits)
qed

theorem socket_address_order_witness:
  "SocketAddress_less HostLittle (SocketAddress_ip (IPAddress_in [10, 0, 0, 1]) 80) (SocketAddress_ip (IPAddress_in [10, 0, 0, 1]) 81)"
proof -
  let ?a = "SocketAddress_ip (IPAddress_in [10, 0, 0, 1]) 80" and ?b = "SocketAddress_ip (IPAddress_in [10, 0, 0, 1]) 81"
  have wf: "ip_wf (sa_ip ?a)" "ip_wf (sa_ip ?b)" by (simp_all add: SocketAddress_ip_def SetPort_def SetIP_def ip_wf_in)
  have "address_key HostLittle ?a < address_key HostLittle ?b"
    by (simp add: address_key_def SocketAddress_ip_def SetPort_def SetIP_def SocketAddress_nil_def less_prod_def)
  then show ?thesis using socket_address_order [OF wf, of HostLittle] by blast
qed

text \<open>Two host names that are not resolved yet are equal when their ports are: the names are only compared for the any address.\<close>

theorem unresolved_hosts_equal:
  assumes "IsUnresolvedIP a" and "IsUnresolvedIP b" and "sa_port a = sa_port b"
  shows "SocketAddress_eq h a b" and "\<not> SocketAddress_less h a b"
  using assms by (simp_all add: IsUnresolvedIP_def IPIsUnspec_def SocketAddress_eq_def EqualIPs_def EqualPorts_def IPAddress_eq_def
      IPIsAny_def SocketAddress_less_def IPAddress_less_def IsAnyIP_def)

section \<open>Texts of addresses\<close>

lemma find_append: "find P (xs @ ys) = (case find P xs of None \<Rightarrow> find P ys | Some x \<Rightarrow> Some x)"
  by (induction xs) auto

lemma upt_split: "[0..<length (us @ vs)] = [0..<length us] @ [length us..<length (us @ vs)]"
  using upt_add_eq_append [of 0 "length us" "length vs"] by simp

lemma str_find_split:
  assumes "c \<notin> set us"
  shows "str_find c 0 (us @ c # vs) = Some (length us)"
proof -
  have "find (\<lambda>i. (us @ c # vs) ! i = c) [0..<length us] = None"
    using assms by (auto simp: find_None_iff nth_append)
  moreover have "find (\<lambda>i. (us @ c # vs) ! i = c) [length us..<length (us @ c # vs)] = Some (length us)"
    by (subst upt_conv_Cons) simp_all
  ultimately show ?thesis unfolding str_find_def upt_split by (simp add: find_append del: upt_Suc)
qed

lemma str_rfind_split:
  assumes "c \<notin> set vs"
  shows "str_rfind c (us @ c # vs) = Some (length us)"
proof -
  have "rev [0..<length (us @ c # vs)] = rev [Suc (length us)..<length (us @ c # vs)] @ length us # rev [0..<length us]"
    unfolding upt_split by (subst upt_conv_Cons [of "length us"]) simp_all
  moreover have "find (\<lambda>i. (us @ c # vs) ! i = c) (rev [Suc (length us)..<length (us @ c # vs)]) = None"
    using assms by (auto simp: find_None_iff nth_append nth_Cons split: nat.splits)
  ultimately show ?thesis unfolding str_rfind_def by (simp add: find_append)
qed

lemma isspace_not_digit: "isdigit_c c \<Longrightarrow> \<not> isspace_c c \<and> c \<noteq> 45 \<and> c \<noteq> 43 \<and> c \<noteq> 0"
  unfolding isdigit_c_def isspace_c_def word_le_nat_alt by (auto simp: word_unat_eq_iff)

lemma strtoul10_decimal: "n < 2 ^ 64 \<Longrightarrow> strtoul10 (decimal n) = of_nat n"
proof -
  assume n: "n < 2 ^ 64"
  have d: "number_value 10 (\<lambda>c. uint c - 48) (decimal n) = int n" "\<forall>c \<in> set (decimal n). isdigit_c c" "decimal n \<noteq> []"
    using decimal_value [of n] by blast+
  then have "isdigit_c (hd (decimal n))" by simp
  then have h: "dropWhile isspace_c (decimal n) = decimal n" "hd (decimal n) \<noteq> 45" "hd (decimal n) \<noteq> 43"
    using isspace_not_digit d(3) by (cases "decimal n"; auto)+
  have "takeWhile isdigit_c (decimal n) = decimal n" using d(2) by simp
  then show ?thesis using n d(1) h unfolding strtoul10_def Let_def by (simp del: takeWhile_eq_all_conv)
qed

text \<open>The decimal text of a port is read back, whatever address it is set in.\<close>

lemma SetPort_text_decimal: "SetPort_text (string_of_bytes (decimal (unat (p :: uint16)))) a = a\<lparr>sa_port := p\<rparr>"
proof -
  have p: "unat p < 2 ^ 16" using unsigned_less [of p, where ?'a = nat] by simp
  have "0 \<notin> set (decimal (unat p))" using decimal_value [of "unat p"] isspace_not_digit by blast
  then have "strtoul10 (bytes_of_string (cstr (string_of_bytes (decimal (unat p))))) = of_nat (unat p)"
    using p by (simp add: cstr_string_of_bytes strtoul10_decimal del: of_nat_unat)
  moreover have "(ucast (of_nat (unat p) :: uint64) :: int32) = of_nat (unat p)"
    using p by (simp add: unsigned_of_nat take_bit_nat_eq_self del: of_nat_unat)
  moreover have "sint (of_nat (unat p) :: int32) = int (unat p)"
    using p by (subst sint32_eq) (simp add: unat_of_nat del: of_nat_unat)
  ultimately show ?thesis unfolding SetPort_text_def SetPort_def by simp
qed

lemma decimal_string_chars: "c \<in> set (string_of_bytes (decimal n)) \<Longrightarrow> c \<noteq> CHR '']'' \<and> c \<noteq> CHR '':''"
proof -
  assume "c \<in> set (string_of_bytes (decimal n))"
  then obtain b where b: "b \<in> set (decimal n)" "c = char_of (unat b)" by (auto simp: string_of_bytes_def)
  then have "isdigit_c b" using decimal_value by blast
  moreover have "of_char c = b" using string_bytes_inverse [of "[b]"] b(2) by (simp add: bytes_of_string_def string_of_bytes_def)
  ultimately show ?thesis by (auto simp: isdigit_c_def)
qed

lemma FromString_host_port:
  assumes "CHR '':'' \<notin> set host" and "CHR ''['' \<notin> set host"
  shows "FromString pton4 pton6 (host @ '':'' @ PortAsString a) b = Some (True, SetIP_string pton4 pton6 host (b\<lparr>sa_port := sa_port a\<rparr>))"
proof -
  have "(host @ '':'' @ PortAsString a) ! 0 \<noteq> CHR ''[''" using assms(2) by (cases host) auto
  then show ?thesis using str_find_split [OF assms(1), of "PortAsString a"] SetPort_text_decimal [of "sa_port a" b]
    by (simp add: FromString_def) (simp add: PortAsString_def)
qed

lemma FromString_bracketed:
  "FromString pton4 pton6 (''['' @ host @ '']'' @ '':'' @ PortAsString a) b = Some (True, SetIP_string pton4 pton6 host (b\<lparr>sa_port := sa_port a\<rparr>))"
proof -
  let ?s = "(CHR ''['' # host) @ CHR '']'' # CHR '':'' # PortAsString a"
  let ?k = "Suc (length host)"
  have "CHR '']'' \<notin> set (CHR '':'' # PortAsString a)" using decimal_string_chars by (auto simp: PortAsString_def)
  from str_rfind_split [OF this, of "CHR ''['' # host"] have rf: "str_rfind (CHR '']'') ?s = Some ?k" by simp
  have "[?k..<length ?s] = ?k # Suc ?k # [Suc (Suc ?k)..<length ?s]" by (simp add: upt_conv_Cons del: upt_Suc)
  then have "str_find (CHR '':'') ?k ?s = Some (Suc ?k)" unfolding str_find_def by (simp add: nth_append)
  moreover have "drop (Suc (Suc ?k)) ?s = PortAsString a" by simp
  ultimately show ?thesis using rf SetPort_text_decimal [of "sa_port a" b]
    by (simp add: FromString_def) (simp add: PortAsString_def)
qed

locale address_text =
  fixes ntop :: "address_family \<Rightarrow> bytes \<Rightarrow> string option" and pton4 pton6 :: "string \<Rightarrow> bytes option"
    and printable :: "IPAddress \<Rightarrow> bool"
  assumes text_read_back: "printable ip \<Longrightarrow> IPFromString pton4 pton6 (IPAddress_ToString ntop ip) = (True, ip)"
    and v4_text: "printable ip \<Longrightarrow> family ip \<noteq> AF_INET6 \<Longrightarrow>
      CHR '':'' \<notin> set (IPAddress_ToString ntop ip) \<and> CHR ''['' \<notin> set (IPAddress_ToString ntop ip)"
begin

lemma literal_read_back:
  assumes "printable (sa_ip a)" and "literal a \<or> hostname a = []"
  shows "FromString pton4 pton6 (SocketAddress_ToString ntop a) b =
    Some (True, b\<lparr>hostname := IPAddress_ToString ntop (sa_ip a), literal := True, sa_ip := sa_ip a, sa_port := sa_port a, scope_id := 0\<rparr>)"
proof -
  let ?t = "IPAddress_ToString ntop (sa_ip a)"
  have s: "SetIP_string pton4 pton6 ?t (b\<lparr>sa_port := sa_port a\<rparr>) =
      b\<lparr>hostname := ?t, literal := True, sa_ip := sa_ip a, sa_port := sa_port a, scope_id := 0\<rparr>"
    using text_read_back [OF assms(1)] by (simp add: SetIP_string_def)
  show ?thesis
  proof (cases "family (sa_ip a) = AF_INET6")
    case True
    then have "SocketAddress_ToString ntop a = ''['' @ ?t @ '']'' @ '':'' @ PortAsString a"
      using assms(2) by (auto simp: SocketAddress_ToString_def HostAsURIString_def)
    then show ?thesis using FromString_bracketed s by simp
  next
    case False
    then have "SocketAddress_ToString ntop a = ?t @ '':'' @ PortAsString a"
      using assms(2) by (auto simp: SocketAddress_ToString_def HostAsURIString_def)
    then show ?thesis using FromString_host_port v4_text [OF assms(1) False] s by simp
  qed
qed

end

text \<open>The addresses whose text the functions of the Windows build read back.\<close>

definition win_printable :: "IPAddress \<Rightarrow> bool" where
  "win_printable ip \<longleftrightarrow> (\<exists>v4. length v4 = 4 \<and> ip = IPAddress_in v4) \<or> (\<exists>v6. length v6 = 16 \<and> one_gap (words_of v6) \<and> ip = IPAddress_in6 v6)"

lemma dotted_string_chars: "c \<in> set (string_of_bytes (dotted v)) \<Longrightarrow> c \<noteq> CHR '':'' \<and> c \<noteq> CHR ''[''"
proof -
  assume "c \<in> set (string_of_bytes (dotted v))"
  then obtain b where b: "b \<in> set (dotted v)" "c = char_of (unat b)" by (auto simp: string_of_bytes_def)
  then have "isdigit_c b \<or> b = 46" using dotted_chars by blast
  moreover have "of_char c = b" using string_bytes_inverse [of "[b]"] b(2) by (simp add: bytes_of_string_def string_of_bytes_def)
  ultimately show ?thesis by (auto simp: isdigit_c_def)
qed

interpretation win_text: address_text "win_ntop h" "win_pton h AF_INET" "win_pton h AF_INET6" win_printable for h
proof
  fix ip
  assume "win_printable ip"
  then consider (v4) v where "length v = 4" "ip = IPAddress_in v" | (v6) v where "length v = 16" "one_gap (words_of v)" "ip = IPAddress_in6 v"
    unfolding win_printable_def by blast
  note cs = this
  show "IPFromString (win_pton h AF_INET) (win_pton h AF_INET6) (IPAddress_ToString (win_ntop h) ip) = (True, ip)"
    by (cases rule: cs) (simp_all add: win_v4_text win_v6_text)
  show "CHR '':'' \<notin> set (IPAddress_ToString (win_ntop h) ip) \<and> CHR ''['' \<notin> set (IPAddress_ToString (win_ntop h) ip)"
    if "family ip \<noteq> AF_INET6"
    using that dotted_string_chars by (cases rule: cs) (auto simp: win_v4_text IPAddress_in6_def)
qed

text \<open>
  The text of a socket address is read back by \<^verbatim>\<open>FromString\<close> into any object: a host name without colon and bracket with its port,
  on every system, and an IP address with its port in the Windows build, IPv6 addresses in brackets.
\<close>

theorem socket_address_text_roundtrip:
  assumes "win_printable (sa_ip a)" and "literal a \<or> hostname a = []"
    and "CHR '':'' \<notin> set (hostname c)" and "CHR ''['' \<notin> set (hostname c)" and "hostname c \<noteq> []" and "\<not> literal c"
  shows "FromString (win_pton h AF_INET) (win_pton h AF_INET6) (SocketAddress_ToString (win_ntop h) a) b =
      Some (True, b\<lparr>hostname := IPAddress_ToString (win_ntop h) (sa_ip a), literal := True, sa_ip := sa_ip a, sa_port := sa_port a, scope_id := 0\<rparr>) \<and>
    FromString pton4 pton6 (SocketAddress_ToString ntop c) b =
      Some (True, SetIP_string pton4 pton6 (hostname c) (b\<lparr>sa_port := sa_port c\<rparr>))"
  using win_text.literal_read_back [OF assms(1,2)] FromString_host_port [OF assms(3,4), of pton4 pton6 c b] assms(5,6)
  by (simp add: SocketAddress_ToString_def HostAsURIString_def)

theorem socket_address_text_roundtrip_witness:
  "FromString (win_pton HostLittle AF_INET) (win_pton HostLittle AF_INET6)
     (SocketAddress_ToString (win_ntop HostLittle) (SocketAddress_ip (IPAddress_in [192, 168, 1, 100]) 8131)) SocketAddress_nil =
   Some (True, SocketAddress_nil\<lparr>hostname := IPAddress_ToString (win_ntop HostLittle) (IPAddress_in [192, 168, 1, 100]), literal := True,
     sa_ip := IPAddress_in [192, 168, 1, 100], sa_port := 8131, scope_id := 0\<rparr>)"
proof -
  let ?a = "SocketAddress_ip (IPAddress_in [192, 168, 1, 100]) 8131"
  have f: "sa_ip ?a = IPAddress_in [192, 168, 1, 100]" "hostname ?a = []" "sa_port ?a = 8131"
    by (simp_all add: SocketAddress_ip_def SetPort_def SetIP_def SocketAddress_nil_def)
  have "win_printable (sa_ip ?a)" unfolding win_printable_def f by (rule disjI1) (rule exI [of _ "[192, 168, 1, 100]"], simp)
  from socket_address_text_roundtrip [OF this, of "SocketAddress_nil\<lparr>hostname := ''cam''\<rparr>" HostLittle SocketAddress_nil "\<lambda>_. None" "\<lambda>_. None" "\<lambda>_ _. None"]
  show ?thesis using f by (simp add: SocketAddress_nil_def)
qed

text \<open>An opening bracket without a closing one is reported as a success, with the object unchanged.\<close>

theorem open_bracket_accepted:
  assumes "CHR '']'' \<notin> set rest"
  shows "FromString pton4 pton6 (''['' @ rest) a = Some (True, a)"
proof -
  have "str_rfind c s = None" if "c \<notin> set s" for c s
    using that unfolding str_rfind_def find_None_iff by (metis atLeastLessThan_iff nth_mem set_rev set_upt)
  from this [of "CHR '']''" "CHR ''['' # rest"] have "str_rfind (CHR '']'') (CHR ''['' # rest) = None" using assms by simp
  then show ?thesis by (simp add: FromString_def)
qed

theorem IPToString_roundtrip: "StringToIP h (win_pton h AF_INET) (IPToString ip) = Some ip"
proof -
  have m: "unat (v AND 0xff) = unat (ucast v :: byte)" for v :: uint32
  proof -
    have "v AND 0xff = take_bit 8 v" by (simp add: take_bit_eq_mask mask_eq_exp_minus_1)
    then show ?thesis by (simp add: unsigned_ucast_eq unsigned_take_bit_eq)
  qed
  have "be32 ip = [ucast (drop_bit 24 ip), ucast (drop_bit 16 ip), ucast (drop_bit 8 ip), ucast (drop_bit 0 ip)]"
    by (simp add: be32_def shr_byte_def)
  then have "IPToString ip = string_of_bytes (dotted (be32 ip))" by (simp only: IPToString_def m dotted_def) simp
  moreover have "win_pton h AF_INET (string_of_bytes (dotted (be32 ip))) = Some (be32 ip)" by (simp add: win_v4_text)
  moreover have "NetworkToHost32 h (host_val32 h (be32 ip)) = ip" by (simp add: NetworkToHost32_def host_mem_val32)
  ultimately show ?thesis by (simp add: StringToIP_def)
qed

end
