(* ===== verification/Spec2Isabelle.thy ===== *)
theory Spec2Isabelle
  imports
    Vz_Prelude Vz_Byteorder Vz_Bytebuffer Vz_Timeutils Vz_Ipaddress Vz_Socketaddress Vz_Session
    Vz_Base64 Vz_Messagequeue Vz_Stdmap Vz_Json Vz_Jsonreader Vz_Jsonstyled Vz_Jsonvalue Vz_Internalmessage Vz_Task Vz_Commandanalysis
    Vz_Sessionmanager Vz_Pushhandle Vz_Pushmanager Vz_Queuelayer
    Vz_Service Vz_Devices Vz_Devicemanage Vz_Capi
    Vz_Physicalsocket Vz_Socketserver Vz_Thread Vz_Signalthread Vz_Stream Vz_Streamio
    Vz_Stringencode Vz_Sha1 Vz_Helpmethods Vz_Sigslot Vz_Stringutils Vz_Win32inet Vz_Sockaddr
begin

text \<open>
  A verification development for the Vzenith TCP SDK (\<^verbatim>\<open>src/src\<close>): the C interface with which
  an application controls licence plate cameras over TCP, and the library below it.

  \<^bold>\<open>The program.\<close>  An application calls the C functions of \<^verbatim>\<open>vzsdk/vzlprtcpsdk.cpp\<close>.  A handle is the
  number of a session, \<^verbatim>\<open>vztcpdevicemanage.cpp\<close> keeps one service per handle, and a service has
  one module per group of functions.  A module prints a JSON command, wraps it in a task
  and waits on the thread of the caller.  The task goes to the thread of the queue layer
  (\<^verbatim>\<open>queuelayer.cpp\<close>), which files it and passes the request on to the thread of the session
  manager (\<^verbatim>\<open>sessionmanager.cpp\<close>); there a session (\<^verbatim>\<open>session.cpp\<close>) frames it and writes it to its
  socket.  Received bytes are cut into frames, parsed as JSON and posted back; the queue layer
  offers a response to the filed tasks, the oldest first, and what no task takes to the push
  manager, which calls the listeners of the application.  The threads run on message
  queues (\<^verbatim>\<open>event/messagequeue.cpp\<close>, \<^verbatim>\<open>event/thread.cpp\<close>) above a \<^verbatim>\<open>select\<close> loop (\<^verbatim>\<open>event/physicalsocketserver.cpp\<close>).

  \<^bold>\<open>Conventions.\<close>  A class is a record, a method a function from the state to the new state, its
  result and its effects in order (signals, calls of the layer below, posts to other threads).  A
  handler runs on one thread, so it is one step; what several threads do is a sequence of
  steps (\<open>session_run\<close>, \<open>manager_run\<close>, \<open>queue_run\<close> and the other inductive relations).  What the
  operating system does is an argument: results of socket calls, readings of the clock, the
  messages a waiting thread receives, \<^verbatim>\<open>inet_pton\<close> and \<^verbatim>\<open>inet_ntop\<close> of POSIX, \<^verbatim>\<open>printf\<close> and \<^verbatim>\<open>scanf\<close> of doubles
  (\<open>fmt_g\<close>, \<open>scan_lf\<close>).  An exception or a wrong cast is \<open>None\<close> or a constructor of the result.
  \<^verbatim>\<open>ASSERT\<close> does nothing, as in a release build.  Integers have their width where the code can
  reach its limits.

  \<^bold>\<open>Theories\<close>, each opening with the files it models:
  \<^item> \<open>Vz_Prelude\<close>, \<open>Vz_Stdmap\<close>: machine types, generic lemmas, \<^verbatim>\<open>std::map\<close> behind the locale
    \<open>ordered_map\<close>, which the tables of tasks, sessions and services rely on;
  \<^item> \<open>Vz_Byteorder\<close>, \<open>Vz_Bytebuffer\<close>, \<open>Vz_Timeutils\<close>, \<open>Vz_Ipaddress\<close>, \<open>Vz_Socketaddress\<close>, \<open>Vz_Base64\<close>
    (\<^verbatim>\<open>base/\<close>): the byte buffer refines a queue of bytes (locales \<open>byte_queue\<close> and \<open>typed_queue\<close>), the clock
    comparisons are exact across the wrap, Base64 decodes what it encodes;
  \<^item> \<open>Vz_Json\<close>, \<open>Vz_Jsonreader\<close> (\<^verbatim>\<open>json/\<close>): values, writer and reader; the reader always returns and
    reads back what the writer prints.  Its recursion is bounded by twice the length of the
    document plus two, which is proved to be enough for every document;
  \<^item> \<open>Vz_Jsonstyled\<close>, \<open>Vz_Jsonvalue\<close> (\<^verbatim>\<open>json/\<close>): the writer with indentation prints a specified layout that reads back like
    the compact text; the comparison of values is a total order (locale \<open>strict_order_on\<close>), \<^verbatim>\<open>isConvertibleTo\<close>
    tells which conversions throw, and \<^verbatim>\<open>resize\<close> is exact except inside a gap;
  \<^item> \<open>Vz_Messagequeue\<close> (\<^verbatim>\<open>event/\<close>): the queue refines the list of pending messages,
    delayed messages come in the order of their trigger times (locale \<open>priority_queue\<close>);
  \<^item> \<open>Vz_Session\<close>, \<open>Vz_Sessionmanager\<close>: the reader of a session refines a reference parser of frames,
    independently of how the bytes arrive; what is written on one side is signalled on the other;
    invariants of the outgoing stream and of the session table;
  \<^item> \<open>Vz_Internalmessage\<close>, \<open>Vz_Task\<close>, \<open>Vz_Queuelayer\<close>: waiting ends with the message of the task or at its
    deadline; a response reaches exactly the oldest task that waits for it; no post to a task
    that was removed;
  \<^item> \<open>Vz_Pushhandle\<close>, \<open>Vz_Pushmanager\<close>, \<open>Vz_Commandanalysis\<close>: listeners, and the commands and responses
    in JSON with their round trips;
  \<^item> \<open>Vz_Service\<close>, \<open>Vz_Devices\<close>, \<open>Vz_Devicemanage\<close>, \<open>Vz_Capi\<close>: services, modules, the device table and
    the C functions: what opening, closing and the calls on unknown handles do.
  \<^item> \<open>Vz_Physicalsocket\<close>, \<open>Vz_Socketserver\<close> (\<^verbatim>\<open>event/physicalsocketserver.cpp\<close>): socket objects and their states, dispatchers
    and the \<^verbatim>\<open>select\<close> loop of the POSIX build; the number of rounds of \<^verbatim>\<open>Wait\<close> is an argument, since the system decides it;
  \<^item> \<open>Vz_Thread\<close>, \<open>Vz_Signalthread\<close> (\<^verbatim>\<open>event/thread.cpp\<close>, \<^verbatim>\<open>base/signalthread.cpp\<close>, \<^verbatim>\<open>base/nethelpers.cpp\<close>): synchronous sends between
    threads as a step relation in which a waiting thread needs a wakeup, with their order, their end and the absence of deadlocks; the lifetime of a worker object;
  \<^item> \<open>Vz_Stream\<close>, \<open>Vz_Streamio\<close> (\<^verbatim>\<open>base/stream.cpp\<close>): the ring buffer refines a bounded queue (locale \<open>bounded_queue\<close>); memory
    streams, and \<^verbatim>\<open>Flow\<close> between a source and a sink (locales \<open>stream_source\<close>, \<open>stream_sink\<close>, \<open>stream_copy\<close>), whose fuel is
    shown to be enough; every access to the memory of a stream is checked against its bounds;
  \<^item> \<open>Vz_Sigslot\<close> (\<^verbatim>\<open>base/sigslot.h\<close>): both ends of the connections and the emission, one round of fuel per slot;
  \<^item> \<open>Vz_Stringencode\<close>, \<open>Vz_Stringutils\<close>, \<open>Vz_Sha1\<close>, \<open>Vz_Helpmethods\<close>: the codecs on buffers (locale \<open>char_codec\<close>), wildcards,
    replacing (one round of fuel per character is enough) and bounded copies, SHA-1 against its standard, HMAC and the
    helpers of requests;
  \<^item> \<open>Vz_Win32inet\<close>, \<open>Vz_Sockaddr\<close> (\<^verbatim>\<open>base/win32.cpp\<close>, \<^verbatim>\<open>base/socketaddress.cpp\<close>): the texts of IP addresses as the Windows build prints
    and parses them, the structures of the socket calls, the order of addresses; the locale \<open>address_text\<close> is what
    the text of a socket address needs of the texts of IP addresses.
  The theorem below spans all layers: a request comes back to its caller with its response.

  \<^bold>\<open>Not modelled.\<close>  Logging (output only), the smart pointers and locks, files and pipes, \<^verbatim>\<open>AsyncSocketAdapter\<close> and the other
  classes that only forward, the comments, stream writer, iterators and paths of \<^verbatim>\<open>json/jsoncpp.cpp\<close>, which the SDK does not use,
  and the calls of the operating system in the Windows and Mac branches of the \<^verbatim>\<open>#if\<close>s: apart from the
  texts of addresses the model follows the POSIX build.  A handler is one step of its thread: a slot of \<^verbatim>\<open>SignalWorkDone\<close> that calls back into the
  \<^verbatim>\<open>SignalThread\<close> is a separate step, and a result that the worker posts is taken to arrive, although \<^verbatim>\<open>Post\<close> drops it when the main
  thread is quitting.  Where the JSON reader looks at the character behind the end of the text, that is the NUL of the
  \<^verbatim>\<open>std::string\<close>, and the model reads no character.  The signal classes with one to eight arguments are copies of the one
  without.  \<^verbatim>\<open>third_part/\<close> is vendored Boost.
\<close>

section \<open>A request and its response through all layers\<close>

lemma ReqTask_new_simps:
  assumes "ReqTask_new fmt_g ReqTask timeout current (Some th) counter sid req = Some (t, counter')"
  shows "message_data t = Some (RequestData_new sid req False)" "task_thread t = Some th" "task_kind t = ReqTask"
    "message_type t = REQ_SEND_REQUESTION"
  using assms by (auto simp: ReqTask_new_def Task_new_def message_type_def split: option.splits)

lemma AddTask_find_awaiting:
  assumes "QueueLayer_ok q" and "FindTask (task_id t) q = None" and "awaits sid cmd t"
    and "list_all (\<lambda>e. \<not> awaits sid cmd (snd e)) (tasks q)"
  shows "find (\<lambda>e. awaits sid cmd (snd e)) (tasks (snd (AddTask t q))) = Some (task_id t, t)"
proof -
  have "find P (stdmap_set k v m) = Some (k, v)"
    if "P (k, v)" "list_all (\<lambda>e. \<not> P e) m" for P and k :: uint32 and v :: Task and m
    using that by (induction k v m rule: stdmap_set.induct) auto
  then show ?thesis
    using assms(2-4) by (simp add: AddTask_def FindTask_def stdmap_insert_def)
qed

text \<open>
  C1 (liveness).  A request goes through all layers and its response comes back to the
  caller.  The task of the request is filed and handed to the session manager; the session
  gets exactly one frame with the text of the request; when the bytes of a response with the
  same command arrive, in whatever pieces, the manager posts one message, the queue layer
  delivers it to the thread of the caller, and waiting for the task ends with it, provided
  that the deadline has not passed and no older task waits for the same command of the session.
\<close>

theorem request_gets_its_response:
  assumes "QueueLayer_ok q" and "FindTask 0 q = None" and "SessionManager_ok m" and "FindSession sid m = Some s"
    and "ReqTask_new fmt_g ReqTask timeout current (Some th) counter sid req = Some (t, counter')"
    and "FindTask (task_id t) q = None" and "task_id t \<noteq> 0"
    and "list_all (\<lambda>e. \<not> awaits sid (req_cmd t) (snd e)) (tasks q)"
    and "length (FastWriter_write fmt_g req) < 2 ^ 32"
    and "SessionManager_OnMessage h fmt_g st sent m (task_id t) (RequestData_new sid req False) = Some (m1, es1)"
    and "\<forall>k ev. SessionEffect k ev \<in> set es1 \<longrightarrow> send_contract ev" and "FindSession sid m1 = Some s1"
    and "parse_frames (buf_data (read_buffer s1) @ concat recvs) = ([(PACKET_TYPE_JSON, p)], rest)"
    and "parse (cstr (string_of_bytes p)) = Some v" and "isObject v"
    and "Value_at v JSON_REQ_CMD = Some (stringValue (req_cmd t))"
    and "WaitTaskDone start t pre = StillWaiting"
  shows "\<exists>q1 out resp.
    QueueLayer_OnMessage fmt_g pm q (task_id t) (ReqTaskStanza t) =
      Some (q1, [ManagerPost (task_id t) (Some (RequestData_new sid req False))]) \<and>
    es1 = map (SessionEffect sid) out \<and>
    wire out @ buf_data (write_buffer s1) =
      buf_data (write_buffer s) @ frame PACKET_TYPE_JSON (bytes_of_string (FastWriter_write fmt_g req)) \<and>
    queue_posts (session_slots parse sid (snd (OnReadEvent h tm s1 recvs))) = [(0, resp)] \<and>
    QueueLayer_OnMessage fmt_g pm' q1 0 (PlainData resp) =
      Some (q1, [TaskPost \<lparr>post_thread = th, post_id = task_id t, post_data = resp\<rparr>]) \<and>
    WaitTaskDone start t (pre @ (Some \<lparr>wm_handler = True, wm_id = task_id t, wm_data = Some resp\<rparr>, now) # post) =
      Returned \<lparr>wm_handler = True, wm_id = task_id t, wm_data = Some resp\<rparr>"
proof -
  let ?d = "RequestData_new sid req False"
  let ?resp = "ResponseData_new sid v (string_of_bytes p)"
  let ?q1 = "snd (AddTask t q)"
  note t = ReqTask_new_simps [OF assms(5)]
  have filed: "QueueLayer_OnMessage fmt_g pm q (task_id t) (ReqTaskStanza t) = Some (?q1, [ManagerPost (task_id t) (Some ?d)])"
    by (simp add: QueueLayer_OnMessage_def OnReqMessage_def OnTranslateToAsyncLayer_def queue_type_def t stanza_types)
  have d: "stanza_body ?d = RequestBody req False" "stanza_session ?d = sid" by (simp_all add: RequestData_new_def)
  have "OnRequestMessage h fmt_g sent m (task_id t) ?d = Some (m1, es1)"
    using assms(10) by (simp add: SessionManager_OnMessage_def RequestData_new_def stanza_types)
  then obtain s' out where w: "m1 = update_session sid s' m" "es1 = map (SessionEffect sid) out" "session_ok s'"
      "session_id s' = sid" "wire out @ buf_data (write_buffer s') =
        buf_data (write_buffer s) @ frame PACKET_TYPE_JSON (bytes_of_string (FastWriter_write fmt_g req))"
    using OnRequestMessage_write [OF assms(3) d(1) _ assms(9) _ assms(11), of s h sent "task_id t" m1] assms(4) d(2) by auto
  have s1: "s' = s1" using assms(3,12) by (simp add: w(1))
  have ok1: "SessionManager_ok m1" using update_session_ok [OF assms(3) w(4,3)] w(1) by simp
  obtain s2 ev where r: "OnReadEvent h tm s1 recvs = (s2, ev)" by fastforce
  have posted: "queue_posts (session_slots parse sid ev) = [(0, ?resp)]"
    using read_event_posts [OF ok1 assms(12,13) r, of parse] assms(14) by (simp add: posted_response_def)
  have resp: "command_response sid (req_cmd t) ?resp"
    using assms(15,16) by (simp add: command_response_def ResponseData_new_def)
  have aw: "awaits sid (req_cmd t) t" by (simp add: awaits_def t data_session_def d(2))
  have q1: "QueueLayer_ok ?q1" "FindTask 0 ?q1 = None"
    using AddTask_ok [OF assms(1)] FindTask_Add [OF assms(1)] assms(2,7) by simp_all
  have delivered: "QueueLayer_OnMessage fmt_g pm' ?q1 0 (PlainData ?resp) =
      Some (?q1, [TaskPost \<lparr>post_thread = th, post_id = task_id t, post_data = ?resp\<rparr>])"
    using OnMessage_response [OF q1 resp, of fmt_g pm', THEN conjunct1] AddTask_find_awaiting [OF assms(1,6) aw assms(8)]
    by (simp add: t)
  have "WaitTaskDone start t (pre @ (Some \<lparr>wm_handler = True, wm_id = task_id t, wm_data = Some ?resp\<rparr>, now) # post) =
      Returned \<lparr>wm_handler = True, wm_id = task_id t, wm_data = Some ?resp\<rparr>"
    using assms(17) by (simp add: WaitTaskDone_defs t wait_loop_own)
  then show ?thesis
    using filed w(2,5) posted delivered r unfolding s1
    by (intro exI [of _ ?q1] exI [of _ out] exI [of _ ?resp]) simp
qed

definition demo_request :: Value where
  "demo_request = objectValue [(''cmd'', stringValue ''getsn'')]"

lemma demo_request_cmd: "isObject demo_request" "Value_at demo_request JSON_REQ_CMD = Some (stringValue ''getsn'')"
    "json_cmd fmt_g demo_request = Some ''getsn''"
  by (simp_all add: demo_request_def isObject_def Value_at_def json_cmd_def JSON_REQ_CMD_def cstr_def asString_def)

lemma demo_request_text: "length (FastWriter_write fmt_g demo_request) < 2 ^ 32"
  by (simp add: FastWriter_write_def demo_request_def valueToQuotedString_def escape_char_def)

theorem request_gets_its_response_witness:
  "\<exists>t c q1 resp. ReqTask_new (\<lambda>x. []) ReqTask 5000 1 (Some 2) 8 5 demo_request = Some (t, c) \<and>
     QueueLayer_OnMessage (\<lambda>x. []) demo_push q1 0 (PlainData resp) =
       Some (q1, [TaskPost \<lparr>post_thread = 2, post_id = 9, post_data = resp\<rparr>]) \<and>
     WaitTaskDone 0 t [(Some \<lparr>wm_handler = True, wm_id = 9, wm_data = Some resp\<rparr>, 0)] =
       Returned \<lparr>wm_handler = True, wm_id = 9, wm_data = Some resp\<rparr>"
proof -
  let ?f = "\<lambda>x :: rat. [] :: string" and ?p = "\<lambda>t. Some demo_request"
  let ?d = "RequestData_new 5 demo_request False" and ?s = "fst (Session_new 1 5)"
  obtain t where t: "ReqTask_new ?f ReqTask 5000 1 (Some 2) 8 5 demo_request = Some (t, 9)" "task_id t = 9" "req_cmd t = ''getsn''"
    by (simp add: ReqTask_new_def demo_request_cmd Task_new_def)
  obtain s1 where s1: "AsyncWrite HostBig ?s (Some (bytes_of_string (FastWriter_write ?f demo_request)))
      (of_nat (length (bytes_of_string (FastWriter_write ?f demo_request)))) PACKET_TYPE_JSON None = (s1, [])"
      "read_buffer s1 = read_buffer ?s" "session_id s1 = 5"
    by (simp add: AsyncWrite_def TryToWriteData_def Session_new_def Let_def)
  let ?m1 = "update_session 5 s1 demo_manager"
  have m1: "SessionManager_OnMessage HostBig ?f CS_CLOSED None demo_manager 9 ?d = Some (?m1, [])"
    using s1(1) by (simp add: SessionManager_OnMessage_def stanza_types RequestData_new_def OnRequestMessage_def
        demo_manager_ok(2) Let_def)
  have f1: "FindSession 5 ?m1 = Some s1" using demo_manager_ok(1) by (simp add: SessionManager_ok_def)
  have "parse_frames (frames [(PACKET_TYPE_JSON, [0x37])] @ []) = ([(PACKET_TYPE_JSON, [0x37])], [])"
    by (rule parse_frames_frames) simp_all
  then have rd: "parse_frames (buf_data (read_buffer s1) @ concat [frames [(PACKET_TYPE_JSON, [0x37])]]) =
      ([(PACKET_TYPE_JSON, [0x37])], [])"
    by (simp add: s1(2) Session_new_def Let_def ByteBuffer_default_ok)
  have q: "QueueLayer_ok QueueLayer_new" "FindTask i QueueLayer_new = None" "tasks QueueLayer_new = []" for i
    by (simp_all add: QueueLayer_new_ok) (simp_all add: QueueLayer_new_def FindTask_def)
  have w: "WaitTaskDone 0 t [] = StillWaiting"
    using ReqTask_new_simps [OF t(1)] by (simp add: WaitTaskDone_defs)
  show ?thesis
    using request_gets_its_response [OF q(1,2) demo_manager_ok t(1) q(2) _ _ demo_request_text, of HostBig CS_CLOSED None ?m1 "[]" s1
        "[frames [(PACKET_TYPE_JSON, [0x37])]]" "[0x37]" "[]" ?p demo_request 0 "[]" demo_push "\<lambda>n. 0" demo_push 0 "[]"]
      m1 f1 rd w t demo_request_cmd q(3)
    by - (rule exI [of _ t], rule exI [of _ 9], auto)
qed

lemma wait_loop_silent:
  assumes "list_all (\<lambda>(got, now). got = None) turns"
  shows "snd (wait_loop tid msEnd next wait_msg_new turns) =
    (if list_ex (\<lambda>(got, now). TimeUntil now msEnd < 0) turns then Returned wait_msg_new else StillWaiting)"
  using assms by (induction turns arbitrary: "next") (auto simp: wait_msg_new_def Let_def)

text \<open>
  C29 (error).  A request on a session that the async layer does not have, one that was just
  closed for instance, is never answered: the manager reports
  \<^verbatim>\<open>RES_SESSION_NOT_FOUND\<close> under the number of the request, the queue layer has no case for
  this type and drops it, and the caller, if its thread gets nothing else, waits until the
  deadline and ends with the empty message, the same as for a device that does not answer.
\<close>

theorem unknown_session_request_unanswered:
  assumes "ReqTask_new fmt_g ReqTask timeout current (Some th) counter sid req = Some (t, counter')"
    and "FindSession sid m = None" and "list_all (\<lambda>(got, now). got = None) turns"
  shows "\<exists>d. message_data t = Some d \<and>
    SessionManager_OnMessage h fmt_g st sent m (task_id t) d = Some (m, [QueuePost (task_id t) (Stanza_new RES_SESSION_NOT_FOUND sid)]) \<and>
    QueueLayer_OnMessage fmt_g pm q (task_id t) (PlainData (Stanza_new RES_SESSION_NOT_FOUND sid)) = Some (q, []) \<and>
    WaitTaskDone start t turns =
      (if list_ex (\<lambda>(got, now). TimeUntil now (TimeAfter start (task_timeout t)) < 0) turns
       then Returned wait_msg_new else StillWaiting)"
proof -
  note t = ReqTask_new_simps [OF assms(1)]
  have "SessionManager_OnMessage h fmt_g st sent m (task_id t) (RequestData_new sid req False) =
      Some (m, [QueuePost (task_id t) (Stanza_new RES_SESSION_NOT_FOUND sid)])"
    using assms(2) by (simp add: SessionManager_OnMessage_def stanza_types RequestData_new_def OnRequestMessage_def)
  moreover have "QueueLayer_OnMessage fmt_g pm q (task_id t) (PlainData (Stanza_new RES_SESSION_NOT_FOUND sid)) = Some (q, [])"
    by (simp add: QueueLayer_OnMessage_def OnResMessage_def queue_type_def Stanza_new_def stanza_types)
  ultimately show ?thesis
    using wait_loop_silent [OF assms(3)] by (simp add: t WaitTaskDone_defs)
qed

theorem unknown_session_request_unanswered_witness:
  "\<exists>t c. ReqTask_new (\<lambda>x. []) ReqTask 5000 1 (Some 2) 8 7 demo_request = Some (t, c) \<and>
     WaitTaskDone 100 t [(None, 200), (None, 5101)] = Returned wait_msg_new \<and>
     QueueLayer_OnMessage (\<lambda>x. []) demo_push demo_queue (task_id t) (PlainData (Stanza_new RES_SESSION_NOT_FOUND 7)) =
       Some (demo_queue, [])"
proof -
  obtain t where t: "ReqTask_new (\<lambda>x. []) ReqTask 5000 1 (Some 2) 8 7 demo_request = Some (t, 9)" "task_timeout t = 5000"
    by (simp add: ReqTask_new_def demo_request_cmd Task_new_def)
  have "FindSession 7 demo_manager = None" by (simp add: demo_manager_def FindSession_def)
  moreover have "TimeUntil 5101 (TimeAfter 100 5000) < 0"
    by (simp add: TimeUntil_def TimeAfter_def TimeDiff_def)
  ultimately show ?thesis
    using unknown_session_request_unanswered [OF t(1), of demo_manager "[(None, 200), (None, 5101)]" HostBig CS_CLOSED None
        demo_push demo_queue 100] t
    by auto
qed

end
